(* ===== verification/Prelude.thy ===== *)
theory Prelude
  imports Main "HOL-Library.Word"
begin

text \<open>
  Shared vocabulary of the development: the machine integer types of the C++ sources, the
  state-and-exception monad in which every stateful operation is written, its
  weakest-precondition calculus, and the facts on words, bytes and lists that several
  components use.

  \<^item> A C++ method that mutates its object and may throw (or return \<open>false\<close> with an error text)
    is a function from the object's state to a pair: \<open>Inl\<close> the failure or \<open>Inr\<close> the result,
    and the state it leaves. The state is kept when the operation fails, because C++ does not
    undo the assignments made before a throw.
  \<^item> \<open>wp m Q E s\<close> says what holds after running \<open>m\<close> from \<open>s\<close>: \<open>Q\<close> of the result and state
    when it returns, \<open>E\<close> of the failure and state when it fails. The equations collected in
    \<open>wp_simps\<close> compute it over the structure of \<open>m\<close>.
\<close>

unbundle bit_operations_syntax

named_theorems wp_simps \<open>equations of the weakest-precondition calculus\<close>
named_theorems u_simps \<open>reading machine words as natural numbers\<close>

section \<open>Machine integers\<close>

type_synonym u8 = "8 word"
type_synonym u16 = "16 word"
type_synonym u32 = "32 word"
type_synonym u64 = "64 word"
type_synonym i32 = "32 word" \<comment> \<open>two's complement, read by \<open>sint\<close>\<close>

abbreviation u64_max :: u64 where "u64_max \<equiv> - 1"
abbreviation u32_max :: u32 where "u32_max \<equiv> - 1"

lemma unat_u64_lt [u_simps]: "unat (x :: u64) < 18446744073709551616"
  using unsigned_less [of x, where ?'a = nat] by simp

lemma unat_u32_lt [u_simps]: "unat (x :: u32) < 4294967296"
  using unsigned_less [of x, where ?'a = nat] by simp

lemma unat_ucast_u32_u64 [simp, u_simps]: "unat (ucast (x :: u32) :: u64) = unat x"
  using unat_u32_lt [of x] by (simp add: unsigned_ucast_eq take_bit_nat_eq_self)

lemma unat_of_nat_u32: "k < 4294967296 \<Longrightarrow> unat (word_of_nat k :: u32) = k"
  by (simp add: unsigned_of_nat take_bit_nat_eq_self)

lemma unat_of_nat_u64: "k < 18446744073709551616 \<Longrightarrow> unat (word_of_nat k :: u64) = k"
  by (simp add: unsigned_of_nat take_bit_nat_eq_self)

lemma sint_i32_nonneg: "unat (w :: i32) < 2147483648 \<longleftrightarrow> 0 \<le> sint w"
proof -
  have "sint w < 0 \<longleftrightarrow> bit (unat w) 31"
    using bit_last_iff [of w] by (simp add: bit_unsigned_iff)
  moreover have "unat w div 2147483648 < 2"
    using unat_u32_lt [of w] by (simp add: div_less_iff_less_mult)
  then have "odd (unat w div 2147483648) \<longleftrightarrow> \<not> unat w < 2147483648"
    by (auto simp: less_2_cases_iff div_eq_0_iff)
  ultimately show ?thesis by (auto simp: bit_iff_odd)
qed

lemma unat_u64_max [simp, u_simps]: "unat u64_max = 18446744073709551615"
  by (simp add: unsigned_minus_1_eq_mask mask_eq_exp_minus_1)

lemma u64_le_max [simp]: "x \<le> u64_max"
  using unat_u64_lt [of x] by (simp add: word_le_nat_alt)

text \<open>
  The guard \<open>*value > max - add\<close> of the sources is exactly the test that the unsigned sum
  does not fit, and where it passes the machine sum is the mathematical one.
\<close>

lemma u64_overflow_guard: "(u64_max - b < a) \<longleftrightarrow> 2 ^ 64 \<le> unat a + unat (b :: u64)"
proof -
  have "unat (u64_max - b) = 18446744073709551615 - unat b"
    using unat_sub [OF u64_le_max [of b]] by simp
  then show ?thesis
    using unat_u64_lt [of b] by (auto simp: word_less_nat_alt)
qed

lemma unat_u64_add: "unat a + unat b < 2 ^ 64 \<Longrightarrow> unat (a + b :: u64) = unat a + unat b"
  using unat_add_lem [of a b] by simp

lemma unat_u64_Suc:
  assumes "x \<noteq> u64_max"
  shows "unat (x + 1 :: u64) = unat x + 1"
proof -
  have "unat x \<noteq> unat u64_max" using assms by (simp only: word_unat_eq_iff [symmetric] not_False_eq_True)
  then have "unat x + unat (1 :: u64) < 2 ^ 64" using unat_u64_lt [of x] by simp
  from unat_u64_add [OF this] show ?thesis by simp
qed

lemma unat_u64_sub: "b \<le> a \<Longrightarrow> unat (a - b :: u64) = unat a - unat b"
  by (rule unat_sub)

section \<open>State and exceptions\<close>

type_synonym ('s, 'e, 'a) M = "'s \<Rightarrow> ('e + 'a) \<times> 's"

definition returnM :: "'a \<Rightarrow> ('s, 'e, 'a) M" where
  "returnM x = (\<lambda>s. (Inr x, s))"

definition throwM :: "'e \<Rightarrow> ('s, 'e, 'a) M" where
  "throwM e = (\<lambda>s. (Inl e, s))"

definition bindM :: "('s, 'e, 'a) M \<Rightarrow> ('a \<Rightarrow> ('s, 'e, 'b) M) \<Rightarrow> ('s, 'e, 'b) M" where
  "bindM m f = (\<lambda>s. case m s of (Inl e, t) \<Rightarrow> (Inl e, t) | (Inr x, t) \<Rightarrow> f x t)"

definition thenM :: "('s, 'e, 'a) M \<Rightarrow> ('s, 'e, 'b) M \<Rightarrow> ('s, 'e, 'b) M" where
  "thenM m k = bindM m (\<lambda>_. k)"

definition getM :: "('s \<Rightarrow> 'a) \<Rightarrow> ('s, 'e, 'a) M" where
  "getM f = (\<lambda>s. (Inr (f s), s))"

definition modifyM :: "('s \<Rightarrow> 's) \<Rightarrow> ('s, 'e, unit) M" where
  "modifyM f = (\<lambda>s. (Inr (), f s))"

text \<open>\<open>if (cond) throw ...\<close>, with the condition read off the current state.\<close>

definition failIf :: "('s \<Rightarrow> bool) \<Rightarrow> 'e \<Rightarrow> ('s, 'e, unit) M" where
  "failIf c e = (\<lambda>s. if c s then (Inl e, s) else (Inr (), s))"

definition whenM :: "('s \<Rightarrow> bool) \<Rightarrow> ('s, 'e, unit) M \<Rightarrow> ('s, 'e, unit) M" where
  "whenM c m = (\<lambda>s. if c s then m s else (Inr (), s))"

text \<open>A check that reads the state and changes nothing.\<close>

definition liftE :: "('s \<Rightarrow> 'e + 'a) \<Rightarrow> ('s, 'e, 'a) M" where
  "liftE f = (\<lambda>s. (f s, s))"

text \<open>\<open>try { m } catch (e) { h e }\<close>: the handler starts in the state the failure left.\<close>

definition catchM :: "('s, 'e, 'a) M \<Rightarrow> ('e \<Rightarrow> ('s, 'e, 'a) M) \<Rightarrow> ('s, 'e, 'a) M" where
  "catchM m h = (\<lambda>s. case m s of (Inl e, t) \<Rightarrow> h e t | (Inr x, t) \<Rightarrow> (Inr x, t))"

text \<open>A call on a member object: run on the part, write the part back, translate its failure.\<close>

definition zoomM :: "('s \<Rightarrow> 't) \<Rightarrow> ('t \<Rightarrow> 's \<Rightarrow> 's) \<Rightarrow> ('e \<Rightarrow> 'f) \<Rightarrow> ('t, 'e, 'a) M \<Rightarrow> ('s, 'f, 'a) M" where
  "zoomM get put wrap m = (\<lambda>s. case m (get s) of (r, t) \<Rightarrow> (map_sum wrap id r, put t s))"

fun mapM_list :: "('x \<Rightarrow> ('s, 'e, unit) M) \<Rightarrow> 'x list \<Rightarrow> ('s, 'e, unit) M" where
  "mapM_list f [] = returnM ()"
| "mapM_list f (x # xs) = thenM (f x) (mapM_list f xs)"

subsection \<open>Weakest preconditions\<close>

definition wp :: "('s, 'e, 'a) M \<Rightarrow> ('a \<Rightarrow> 's \<Rightarrow> bool) \<Rightarrow> ('e \<Rightarrow> 's \<Rightarrow> bool) \<Rightarrow> 's \<Rightarrow> bool" where
  "wp m Q E s = (case m s of (Inl e, t) \<Rightarrow> E e t | (Inr x, t) \<Rightarrow> Q x t)"

lemma wp_returnM [wp_simps]: "wp (returnM x) Q E s = Q x s"
  by (simp add: wp_def returnM_def)

lemma wp_throwM [wp_simps]: "wp (throwM e) Q E s = E e s"
  by (simp add: wp_def throwM_def)

lemma wp_bindM [wp_simps]: "wp (bindM m f) Q E s = wp m (\<lambda>x. wp (f x) Q E) E s"
  by (simp add: wp_def bindM_def split: prod.splits sum.splits)

lemma wp_thenM [wp_simps]: "wp (thenM m k) Q E s = wp m (\<lambda>_. wp k Q E) E s"
  by (simp add: thenM_def wp_bindM)

lemma wp_getM [wp_simps]: "wp (getM f) Q E s = Q (f s) s"
  by (simp add: wp_def getM_def)

lemma wp_modifyM [wp_simps]: "wp (modifyM f) Q E s = Q () (f s)"
  by (simp add: wp_def modifyM_def)

lemma wp_failIf [wp_simps]: "wp (failIf c e) Q E s = (if c s then E e s else Q () s)"
  by (simp add: wp_def failIf_def)

lemma wp_liftE [wp_simps]: "wp (liftE f) Q E s = (case f s of Inl e \<Rightarrow> E e s | Inr x \<Rightarrow> Q x s)"
  by (simp add: wp_def liftE_def split: sum.splits)

lemma wp_whenM [wp_simps]: "wp (whenM c m) Q E s = (if c s then wp m Q E s else Q () s)"
  by (simp add: wp_def whenM_def)

lemma wp_catchM [wp_simps]: "wp (catchM m h) Q E s = wp m Q (\<lambda>e. wp (h e) Q E) s"
  by (simp add: wp_def catchM_def split: prod.splits sum.splits)

lemma wp_zoomM [wp_simps]:
  "wp (zoomM get put wrap m) Q E s =
     wp m (\<lambda>x t. Q x (put t s)) (\<lambda>e t. E (wrap e) (put t s)) (get s)"
  by (auto simp: wp_def zoomM_def split: prod.splits sum.splits)

lemma wp_mapM_list_Nil [wp_simps]: "wp (mapM_list f []) Q E s = Q () s"
  by (simp add: wp_simps)

lemma wp_mapM_list_Cons [wp_simps]:
  "wp (mapM_list f (x # xs)) Q E s = wp (f x) (\<lambda>_. wp (mapM_list f xs) Q E) E s"
  by (simp add: wp_simps)

lemma wp_if [wp_simps]: "wp (if b then m else n) Q E s = (if b then wp m Q E s else wp n Q E s)"
  by simp

text \<open>How a proved precondition is used on a run that is known to return, or to fail.\<close>

lemma wp_returns: "wp m Q E s \<Longrightarrow> m s = (Inr x, t) \<Longrightarrow> Q x t"
  by (simp add: wp_def)

lemma wp_fails: "wp m Q E s \<Longrightarrow> m s = (Inl e, t) \<Longrightarrow> E e t"
  by (simp add: wp_def)

lemma wp_mono:
  assumes "wp m Q E s" "\<And>x t. Q x t \<Longrightarrow> Q' x t" "\<And>e t. E e t \<Longrightarrow> E' e t"
  shows "wp m Q' E' s"
  using assms by (auto simp: wp_def split: prod.splits sum.splits)

text \<open>Sequencing from a proved triple of the first part.\<close>

lemma wp_bindI:
  assumes "wp m P F s" "\<And>x t. P x t \<Longrightarrow> wp (f x) Q E t" "\<And>e t. F e t \<Longrightarrow> E e t"
  shows "wp (bindM m f) Q E s"
  unfolding wp_bindM using assms by (rule wp_mono)

lemma wp_thenI:
  assumes "wp m P F s" "\<And>x t. P x t \<Longrightarrow> wp k Q E t" "\<And>e t. F e t \<Longrightarrow> E e t"
  shows "wp (thenM m k) Q E s"
  unfolding wp_thenM using assms by (rule wp_mono)

lemma wp_conj: "wp m Q E s \<Longrightarrow> wp m Q' E' s \<Longrightarrow>
    wp m (\<lambda>x t. Q x t \<and> Q' x t) (\<lambda>e t. E e t \<and> E' e t) s"
  by (simp add: wp_def split: prod.splits sum.splits)

lemma wp_iff: "wp m Q E s \<longleftrightarrow>
    (\<forall>x t. m s = (Inr x, t) \<longrightarrow> Q x t) \<and> (\<forall>e t. m s = (Inl e, t) \<longrightarrow> E e t)"
  by (auto simp: wp_def split: prod.splits sum.splits)

text \<open>Operations that leave a part \<open>f\<close> of the state alone, whatever their outcome.\<close>

definition keeps :: "('s \<Rightarrow> 'v) \<Rightarrow> ('s, 'e, 'a) M \<Rightarrow> bool" where
  "keeps f m \<longleftrightarrow> (\<forall>s. wp m (\<lambda>_ t. f t = f s) (\<lambda>_ t. f t = f s) s)"

abbreviation pure_op :: "('s, 'e, 'a) M \<Rightarrow> bool" where "pure_op \<equiv> keeps id"

lemma keepsD: "keeps f m \<Longrightarrow> wp m (\<lambda>_ t. f t = f s) (\<lambda>_ t. f t = f s) s"
  by (simp add: keeps_def)

lemma pure_opD: "pure_op m \<Longrightarrow> wp m (\<lambda>_ t. t = s) (\<lambda>_ t. t = s) s"
  by (simp add: keeps_def)

lemma keeps_return [simp]: "keeps f (returnM x)"
  by (simp add: keeps_def wp_simps)

lemma keeps_throw [simp]: "keeps f (throwM x)"
  by (simp add: keeps_def wp_simps)

lemma keeps_failIf [simp]: "keeps f (failIf c e)"
  by (simp add: keeps_def wp_simps)

lemma keeps_getM [simp]: "keeps f (getM g)"
  by (simp add: keeps_def wp_simps)

lemma keeps_liftE [simp]: "keeps f (liftE g)"
  by (simp add: keeps_def wp_simps split: sum.splits)

lemma keeps_modify: "(\<And>s. f (g s) = f s) \<Longrightarrow> keeps f (modifyM g)"
  by (simp add: keeps_def wp_simps)

lemma keeps_bind:
  assumes "keeps f m" "\<And>x. keeps f (k x)"
  shows "keeps f (bindM m k)"
  unfolding keeps_def
proof
  fix s
  show "wp (bindM m k) (\<lambda>_ t. f t = f s) (\<lambda>_ t. f t = f s) s"
    by (rule wp_bindI [OF keepsD [OF assms(1)] wp_mono [OF keepsD [OF assms(2)]]]) simp_all
qed

lemma keeps_then: "keeps f m \<Longrightarrow> keeps f k \<Longrightarrow> keeps f (thenM m k)"
  unfolding thenM_def by (rule keeps_bind)

lemma keeps_if: "keeps f m \<Longrightarrow> keeps f k \<Longrightarrow> keeps f (if b then m else k)"
  by simp

lemma keeps_when: "keeps f m \<Longrightarrow> keeps f (whenM c m)"
  by (simp add: keeps_def wp_simps)

lemmas pure_intros = keeps_return keeps_throw keeps_failIf keeps_getM keeps_liftE keeps_bind
  keeps_then keeps_if keeps_when

text \<open>Stepping over such an operation.\<close>

lemma wp_bind_keeps:
  assumes "keeps f m" "\<And>x t. f t = f s \<Longrightarrow> wp (k x) Q E t" "\<And>e t. f t = f s \<Longrightarrow> E e t"
  shows "wp (bindM m k) Q E s"
  by (rule wp_bindI [OF keepsD [OF assms(1)]]) (use assms(2,3) in auto)

lemma wp_then_keeps:
  assumes "keeps f m" "\<And>t. f t = f s \<Longrightarrow> wp k Q E t" "\<And>e t. f t = f s \<Longrightarrow> E e t"
  shows "wp (thenM m k) Q E s"
  unfolding thenM_def by (rule wp_bind_keeps [OF assms(1)]) (use assms(2,3) in auto)

lemma thenM_assoc: "thenM (thenM a b) c = thenM a (thenM b c)"
  by (rule ext) (simp add: thenM_def bindM_def split: prod.splits sum.splits)

text \<open>The operations themselves, applied: used to evaluate a run on a concrete state.\<close>

lemmas run_simps = returnM_def throwM_def bindM_def thenM_def getM_def modifyM_def failIf_def
  whenM_def catchM_def zoomM_def liftE_def

end
