(* ===== verification/Contracts.thy ===== *)
theory Contracts
  imports Prelude
begin

text \<open>
  The wire contracts of \<^verbatim>\<open>include/q38/contracts.h\<close> and \<^verbatim>\<open>src/contracts.cc\<close>: the boundary
  frame stage 0 hands to stage 1, the session frontiers, the transaction record, and the two
  validators and the payload checksum that both stages run on them.
\<close>

section \<open>Data\<close>

definition fourcc :: "char \<Rightarrow> char \<Rightarrow> char \<Rightarrow> char \<Rightarrow> u32" where
  "fourcc a b c d = of_char a OR push_bit 8 (of_char b) OR push_bit 16 (of_char c)
     OR push_bit 24 (of_char d)"

definition kContractVersion :: u16 where "kContractVersion = 1"

definition kBoundaryMagic :: u32 where
  "kBoundaryMagic = fourcc (CHR ''Q'') (CHR ''3'') (CHR ''8'') (CHR ''B'')"

definition kTxnMagic :: u32 where
  "kTxnMagic = fourcc (CHR ''Q'') (CHR ''3'') (CHR ''8'') (CHR ''T'')"

datatype DType = DInvalid | BFloat16 | Float32 | Float16 | Int8 | Fp8E4M3

datatype ProducerStatus = ProducerEmpty | ProducerReady | ProducerFailed

datatype TxnKind = KindInvalid | AppendKnown | Decode | Speculative

datatype TxnStatus = StatusEmpty | Prepared | Decided | Committed | RolledBack

datatype Stage = Stage0 | Stage1

record StageBoundaryFrame =
  bf_magic :: u32
  bf_version :: u16
  bf_header_bytes :: u16
  bf_session_hash :: u64
  bf_epoch :: u64
  bf_token_start :: u64
  bf_token_count :: u32
  bf_hidden_dtype :: DType
  bf_producer_status :: ProducerStatus
  bf_hidden_width :: u32
  bf_ring_slot :: u32
  bf_payload_bytes :: u64
  bf_payload_checksum :: u64

definition empty_boundary_frame :: StageBoundaryFrame where
  "empty_boundary_frame = \<lparr> bf_magic = kBoundaryMagic, bf_version = kContractVersion,
     bf_header_bytes = 64, bf_session_hash = 0, bf_epoch = 0, bf_token_start = 0,
     bf_token_count = 0, bf_hidden_dtype = DInvalid, bf_producer_status = ProducerEmpty,
     bf_hidden_width = 0, bf_ring_slot = 0, bf_payload_bytes = 0, bf_payload_checksum = 0 \<rparr>"

record SessionFrontiers =
  fr_canonical :: u64
  fr_target :: u64
  fr_stage0 :: u64
  fr_stage1 :: u64
  fr_draft :: u64
  fr_epoch :: u64

definition empty_frontiers :: SessionFrontiers where
  "empty_frontiers = \<lparr> fr_canonical = 0, fr_target = 0, fr_stage0 = 0, fr_stage1 = 0,
     fr_draft = 0, fr_epoch = 0 \<rparr>"

record SessionTxn =
  tx_magic :: u32
  tx_version :: u16
  tx_header_bytes :: u16
  tx_session_hash :: u64
  tx_epoch :: u64
  tx_base_target :: u64
  tx_evaluated_count :: u32
  tx_kind :: TxnKind
  tx_status :: TxnStatus
  tx_state_commit_count :: u32
  tx_publish_count :: u32
  tx_base_canonical :: u64

definition empty_txn :: SessionTxn where
  "empty_txn = \<lparr> tx_magic = kTxnMagic, tx_version = kContractVersion, tx_header_bytes = 56,
     tx_session_hash = 0, tx_epoch = 0, tx_base_target = 0, tx_evaluated_count = 0,
     tx_kind = KindInvalid, tx_status = StatusEmpty, tx_state_commit_count = 0,
     tx_publish_count = 0, tx_base_canonical = 0 \<rparr>"

section \<open>Operations\<close>

definition mix64 :: "u64 \<Rightarrow> u64" where
  "mix64 v =
     (let v = v XOR drop_bit 30 v;
          v = v * 0xbf58476d1ce4e5b9;
          v = v XOR drop_bit 27 v;
          v = v * 0x94d049bb133111eb
      in v XOR drop_bit 31 v)"

fun dtype_bytes :: "DType \<Rightarrow> u64" where
  "dtype_bytes BFloat16 = 2"
| "dtype_bytes Float16 = 2"
| "dtype_bytes Float32 = 4"
| "dtype_bytes Int8 = 1"
| "dtype_bytes Fp8E4M3 = 1"
| "dtype_bytes DInvalid = 0"

text \<open>The word tagged with its index, as the checksum loop mixes it in.\<close>

definition boundary_tag :: "nat \<Rightarrow> u16 \<Rightarrow> u64" where
  "boundary_tag index w = push_bit 48 (ucast w) XOR word_of_nat index XOR 0x9e3779b97f4a7c15"

fun boundary_checksum_loop :: "nat \<Rightarrow> u16 list \<Rightarrow> u64 \<Rightarrow> u64" where
  "boundary_checksum_loop index [] checksum = checksum"
| "boundary_checksum_loop index (w # ws) checksum =
     boundary_checksum_loop (Suc index) ws (checksum XOR mix64 (boundary_tag index w))"

definition boundary_payload_checksum :: "u16 list \<Rightarrow> u64" where
  "boundary_payload_checksum words =
     boundary_checksum_loop 0 words (mix64 (word_of_nat (length words) XOR 0x713338424f554e44))"

definition validate_boundary :: "StageBoundaryFrame \<Rightarrow> u32 \<Rightarrow> string + unit" where
  "validate_boundary frame max_tokens =
     (if bf_magic frame \<noteq> kBoundaryMagic then Inl ''bad boundary magic''
      else if bf_version frame \<noteq> kContractVersion then Inl ''unsupported boundary version''
      else if bf_header_bytes frame \<noteq> 64 then Inl ''boundary header size mismatch''
      else if bf_producer_status frame \<noteq> ProducerReady then Inl ''boundary is not ready''
      else if bf_token_count frame = 0 \<or> bf_token_count frame > max_tokens
        then Inl ''boundary token count is outside the lane limit''
      else if bf_hidden_width frame = 0 then Inl ''zero boundary width''
      else
        let element_bytes = dtype_bytes (bf_hidden_dtype frame) in
        if element_bytes = 0 then Inl ''unsupported boundary dtype''
        else
          let width = ucast (bf_hidden_width frame) :: u64;
              count = ucast (bf_token_count frame) :: u64 in
          if width > u64_max div count \<or> width * count > u64_max div element_bytes
            then Inl ''boundary payload size overflows''
          else if bf_payload_bytes frame \<noteq> width * count * element_bytes
            then Inl ''boundary payload byte count mismatch''
          else Inr ())"

definition validate_frontiers :: "SessionFrontiers \<Rightarrow> string + unit" where
  "validate_frontiers f =
     (if fr_stage0 f \<noteq> fr_target f \<or> fr_stage1 f \<noteq> fr_target f
        then Inl ''stage and target frontiers diverged''
      else if fr_target f > fr_canonical f
        then Inl ''target frontier exceeds canonical frontier''
      else if fr_draft f > fr_canonical f
        then Inl ''draft frontier exceeds canonical frontier''
      else Inr ())"

section \<open>The frontier order\<close>

definition frontiers_ok :: "SessionFrontiers \<Rightarrow> bool" where
  "frontiers_ok f \<longleftrightarrow> fr_stage0 f = fr_target f \<and> fr_stage1 f = fr_target f \<and>
     fr_target f \<le> fr_canonical f \<and> fr_draft f \<le> fr_canonical f"

lemma validate_frontiers_iff: "validate_frontiers f = Inr () \<longleftrightarrow> frontiers_ok f"
  by (auto simp: validate_frontiers_def frontiers_ok_def not_less)

lemma validate_frontiers_ok [simp]: "frontiers_ok f \<Longrightarrow> validate_frontiers f = Inr ()"
  by (simp add: validate_frontiers_iff)

lemma validate_frontiers_Inl: "(\<exists>e. validate_frontiers f = Inl e) \<longleftrightarrow> \<not> frontiers_ok f"
  by (auto simp: validate_frontiers_def frontiers_ok_def not_less)

section \<open>The mixer is a bijection\<close>

lemma xorshift_inj:
  fixes x y :: "'a::len word"
  assumes eq: "x XOR drop_bit n x = y XOR drop_bit n y" and n: "0 < n"
  shows "x = y"
proof (rule bit_eqI)
  fix i
  assume "possible_bit TYPE('a word) i"
  show "bit x i = bit y i"
  proof (induction "LENGTH('a) - i" arbitrary: i rule: less_induct)
    case less
    have "bit (x XOR drop_bit n x) i = bit (y XOR drop_bit n y) i" using eq by simp
    then have step: "(bit x i \<noteq> bit x (n + i)) = (bit y i \<noteq> bit y (n + i))"
      by (simp add: bit_simps)
    show ?case
    proof (cases "i < LENGTH('a)")
      case True
      then have "bit x (n + i) = bit y (n + i)"
        using n by (intro less.hyps) simp
      with step show ?thesis by blast
    next
      case False
      then show ?thesis using bit_imp_le_length by blast
    qed
  qed
qed

lemma mult_unit_inj:
  fixes x y c d :: "'a::len word"
  assumes "x * c = y * c" and "c * d = 1"
  shows "x = y"
proof -
  have "x * (c * d) = y * (c * d)" using assms(1) by (metis mult.assoc)
  then show ?thesis using assms(2) by simp
qed

lemma mix64_inj: "mix64 x = mix64 y \<longleftrightarrow> x = y"
proof
  assume *: "mix64 x = mix64 y"
  define f where "f v = (v XOR drop_bit 30 v) * (0xbf58476d1ce4e5b9 :: u64)" for v
  define g where "g v = (v XOR drop_bit 27 v) * (0x94d049bb133111eb :: u64)" for v
  have mix: "mix64 v = g (f v) XOR drop_bit 31 (g (f v))" for v
    by (simp only: mix64_def Let_def f_def g_def)
  have "g (f x) XOR drop_bit 31 (g (f x)) = g (f y) XOR drop_bit 31 (g (f y))"
    using * unfolding mix .
  then have "g (f x) = g (f y)" by (rule xorshift_inj) simp
  then have "f x XOR drop_bit 27 (f x) = f y XOR drop_bit 27 (f y)"
    unfolding g_def by (rule mult_unit_inj [where d = "0x319642b2d24d8ec3"]) simp
  then have "f x = f y" by (rule xorshift_inj) simp
  then have "x XOR drop_bit 30 x = y XOR drop_bit 30 y"
    unfolding f_def by (rule mult_unit_inj [where d = "0x96de1b173f119089"]) simp
  then show "x = y" by (rule xorshift_inj) simp
qed simp

section \<open>The payload checksum\<close>

lemma xor_right_cancel: "(a :: u64) XOR c = b XOR c \<longleftrightarrow> a = b"
proof
  assume "a XOR c = b XOR c"
  then have "(a XOR c) XOR c = (b XOR c) XOR c" by (rule arg_cong)
  then show "a = b" by (simp add: xor.assoc)
qed simp

lemma boundary_tag_inj: "boundary_tag i v = boundary_tag i w \<longleftrightarrow> v = w"
proof
  assume "boundary_tag i v = boundary_tag i w"
  then have eq: "push_bit 48 (ucast v :: u64) = push_bit 48 (ucast w)"
    by (simp only: boundary_tag_def xor_right_cancel)
  show "v = w"
  proof (rule bit_eqI)
    fix n assume "possible_bit TYPE(16 word) n"
    then have n: "n < 16" by simp
    have "bit (push_bit 48 (ucast v :: u64)) (48 + n) = bit (push_bit 48 (ucast w :: u64)) (48 + n)"
      by (simp only: eq)
    then show "bit v n = bit w n" using n by (simp add: bit_simps)
  qed
qed simp

lemma boundary_checksum_loop_acc:
  "boundary_checksum_loop i ws c = c XOR boundary_checksum_loop i ws 0"
proof (induction ws arbitrary: i c)
  case Nil
  show ?case by simp
next
  case (Cons w ws)
  show ?case
    by (simp add: Cons [of _ "c XOR mix64 (boundary_tag i w)"]
        Cons [of _ "mix64 (boundary_tag i w)"] xor.assoc)
qed

lemma boundary_checksum_loop_append:
  "boundary_checksum_loop i (xs @ ys) c =
     boundary_checksum_loop (i + length xs) ys (boundary_checksum_loop i xs c)"
  by (induction xs arbitrary: i c) simp_all

lemma boundary_checksum_loop_at:
  assumes "k < length ws"
  shows "boundary_checksum_loop 0 ws c =
    mix64 (boundary_tag k (ws ! k)) XOR
      (boundary_checksum_loop 0 (take k ws) c XOR boundary_checksum_loop (Suc k) (drop (Suc k) ws) 0)"
proof -
  have "boundary_checksum_loop 0 (take k ws @ ws ! k # drop (Suc k) ws) c =
     boundary_checksum_loop (Suc k) (drop (Suc k) ws)
       (boundary_checksum_loop 0 (take k ws) c XOR mix64 (boundary_tag k (ws ! k)))"
    using assms by (simp add: boundary_checksum_loop_append)
  then show ?thesis
    using assms
    by (simp add: id_take_nth_drop [symmetric] ac_simps
        boundary_checksum_loop_acc [of "Suc k" _ "_ XOR _"])
qed

lemma checksum_update_iff:
  assumes "k < length ws"
  shows "boundary_payload_checksum (ws[k := w]) = boundary_payload_checksum ws \<longleftrightarrow> ws ! k = w"
  using assms
  by (auto simp: boundary_payload_checksum_def boundary_checksum_loop_at [of k]
      xor_right_cancel mix64_inj boundary_tag_inj)

section \<open>The boundary validator\<close>

text \<open>
  Acceptance, in natural-number arithmetic: the guards of the source rule the wrap-around out,
  so the recorded byte count is the true product.
\<close>

definition boundary_accepts :: "StageBoundaryFrame \<Rightarrow> u32 \<Rightarrow> bool" where
  "boundary_accepts frame max_tokens \<longleftrightarrow>
     bf_magic frame = kBoundaryMagic \<and> bf_version frame = kContractVersion \<and>
     bf_header_bytes frame = 64 \<and> bf_producer_status frame = ProducerReady \<and>
     0 < unat (bf_token_count frame) \<and> unat (bf_token_count frame) \<le> unat max_tokens \<and>
     0 < unat (bf_hidden_width frame) \<and> bf_hidden_dtype frame \<noteq> DInvalid \<and>
     unat (bf_payload_bytes frame) =
       unat (bf_hidden_width frame) * unat (bf_token_count frame) *
         unat (dtype_bytes (bf_hidden_dtype frame))"

lemma dtype_bytes_cases: "dtype_bytes d = 0 \<longleftrightarrow> d = DInvalid"
  by (cases d) auto

lemma u64_mul_guard:
  assumes "b \<noteq> (0 :: u64)"
  shows "a > u64_max div b \<longleftrightarrow> 2 ^ 64 \<le> unat a * unat b"
proof -
  have b: "0 < unat b" using assms by (simp add: unat_gt_0)
  have "unat (u64_max div b) = 18446744073709551615 div unat b"
    by (simp add: unat_div)
  then have "a > u64_max div b \<longleftrightarrow> 18446744073709551615 div unat b < unat a"
    by (simp add: word_less_nat_alt)
  also have "\<dots> \<longleftrightarrow> 18446744073709551615 < unat a * unat b"
    using b by (simp add: div_less_iff_less_mult)
  finally show ?thesis by simp linarith
qed

lemma unat_u64_mult: "unat a * unat b < 2 ^ 64 \<Longrightarrow> unat (a * b :: u64) = unat a * unat b"
  using unat_mult_lem [of a b] by simp

lemma u32_mult_fits: "unat (a :: u32) * unat (b :: u32) < 2 ^ 64"
proof -
  have "unat a * unat b \<le> 4294967295 * 4294967295"
    using unat_u32_lt [of a] unat_u32_lt [of b] by (intro mult_le_mono) simp_all
  then show ?thesis by simp
qed

lemma validate_boundary_iff: "validate_boundary f m = Inr () \<longleftrightarrow> boundary_accepts f m"
proof -
  let ?w = "ucast (bf_hidden_width f) :: u64" and ?c = "ucast (bf_token_count f) :: u64"
  let ?e = "dtype_bytes (bf_hidden_dtype f)"
  have wc: "unat (?w * ?c) = unat (bf_hidden_width f) * unat (bf_token_count f)"
    using u32_mult_fits [of "bf_hidden_width f" "bf_token_count f"]
    by (simp add: unat_u64_mult)
  have size: "(\<not> (?w > u64_max div ?c \<or> ?w * ?c > u64_max div ?e) \<and>
      bf_payload_bytes f = ?w * ?c * ?e) \<longleftrightarrow>
      unat (bf_payload_bytes f) = unat (bf_hidden_width f) * unat (bf_token_count f) * unat ?e"
    if "?c \<noteq> 0" "?e \<noteq> 0"
  proof -
    have g1: "\<not> ?w > u64_max div ?c"
      using that u32_mult_fits [of "bf_hidden_width f" "bf_token_count f"]
      by (simp add: u64_mul_guard)
    have g2: "?w * ?c > u64_max div ?e \<longleftrightarrow> 2 ^ 64 \<le> unat (?w * ?c) * unat ?e"
      by (rule u64_mul_guard) (rule that(2))
    have "(unat (?w * ?c) * unat ?e < 2 ^ 64 \<and> bf_payload_bytes f = ?w * ?c * ?e) \<longleftrightarrow>
        unat (bf_payload_bytes f) = unat (?w * ?c) * unat ?e"
      using unat_u64_mult [of "?w * ?c" ?e] unat_u64_lt [of "bf_payload_bytes f"]
      by (auto simp: word_unat_eq_iff)
    with g1 g2 show ?thesis by (auto simp: wc not_le)
  qed
  have z: "bf_token_count f = 0 \<longleftrightarrow> ?c = 0"
    by (simp add: word_unat_eq_iff)
  have "validate_boundary f m = Inr () \<longleftrightarrow>
      bf_magic f = kBoundaryMagic \<and> bf_version f = kContractVersion \<and> bf_header_bytes f = 64 \<and>
      bf_producer_status f = ProducerReady \<and> bf_token_count f \<noteq> 0 \<and> bf_token_count f \<le> m \<and>
      bf_hidden_width f \<noteq> 0 \<and> ?e \<noteq> 0 \<and>
      (\<not> (?w > u64_max div ?c \<or> ?w * ?c > u64_max div ?e) \<and> bf_payload_bytes f = ?w * ?c * ?e)"
    unfolding validate_boundary_def Let_def
    by (simp only: if_split [where P = "\<lambda>r. r = Inr ()"] sum.distinct not_False_eq_True
        not_less [symmetric] conj_assoc de_Morgan_disj) blast
  also have "\<dots> \<longleftrightarrow> boundary_accepts f m"
    unfolding boundary_accepts_def using size z
    by (auto simp: dtype_bytes_cases unat_gt_0 word_le_nat_alt simp del: not_less)
  finally show ?thesis .
qed

section \<open>Properties\<close>

text \<open>
  The boundary payload checksum catches every single-word corruption: replacing any one
  16-bit word of the payload leaves the checksum unchanged only if the word is unchanged.
\<close>

theorem boundary_checksum_detects:
  assumes "k < length words"
  shows "boundary_payload_checksum (words[k := w]) = boundary_payload_checksum words \<longleftrightarrow>
           w = words ! k"
  using checksum_update_iff [OF assms] by auto

theorem boundary_checksum_detects_witness:
  "boundary_payload_checksum [7, 9] \<noteq> boundary_payload_checksum [7, 8]"
  using boundary_checksum_detects [of 1 "[7, 8]" 9] by simp

text \<open>
  The boundary validator accepts exactly the frames whose header is well formed, whose token
  count is within the lane limit and whose byte count is the true (unbounded) product of width,
  count and element size: the overflow guards of the code make its 64-bit product exact.
\<close>

theorem validate_boundary_exact:
  "validate_boundary frame max_tokens = Inr () \<longleftrightarrow>
     bf_magic frame = kBoundaryMagic \<and> bf_version frame = kContractVersion \<and>
     bf_header_bytes frame = 64 \<and> bf_producer_status frame = ProducerReady \<and>
     0 < unat (bf_token_count frame) \<and> unat (bf_token_count frame) \<le> unat max_tokens \<and>
     0 < unat (bf_hidden_width frame) \<and> bf_hidden_dtype frame \<noteq> DInvalid \<and>
     unat (bf_payload_bytes frame) =
       unat (bf_hidden_width frame) * unat (bf_token_count frame) *
         unat (dtype_bytes (bf_hidden_dtype frame))"
  unfolding validate_boundary_iff by (rule boundary_accepts_def)

end
