(* ===== verification/Transaction.thy ===== *)
theory Transaction
  imports Contracts
begin

text \<open>
  The session transaction engine of \<^verbatim>\<open>include/q38/transaction.h\<close> and \<^verbatim>\<open>src/transaction.cc\<close>.
  The class \<open>SessionTxnEngine\<close> is the record \<open>txn_engine\<close>; each method is a computation over
  it that fails with the text the source stores through its \<open>error\<close> argument. The theory
  states the engine's invariant, shows that every method keeps it, and characterises what
  commit and rollback do to the frontiers.
\<close>

section \<open>State\<close>

record CommitEvent =
  ce_epoch :: u64
  ce_canonical :: u64
  ce_target :: u64
  ce_newly_published :: u32
  ce_kind :: TxnKind

definition empty_commit_event :: CommitEvent where
  "empty_commit_event = \<lparr> ce_epoch = 0, ce_canonical = 0, ce_target = 0,
     ce_newly_published = 0, ce_kind = KindInvalid \<rparr>"

record txn_engine =
  eng_session_hash :: u64
  eng_frontiers :: SessionFrontiers
  eng_txn :: SessionTxn
  eng_active :: bool
  eng_stage0_ack :: bool
  eng_stage1_ack :: bool

definition new_engine :: "u64 \<Rightarrow> txn_engine" where
  "new_engine session_hash = \<lparr> eng_session_hash = session_hash, eng_frontiers = empty_frontiers,
     eng_txn = empty_txn, eng_active = False, eng_stage0_ack = False, eng_stage1_ack = False \<rparr>"

type_synonym 'a engM = "(txn_engine, string, 'a) M"

abbreviation e_canonical :: "txn_engine \<Rightarrow> u64" where "e_canonical e \<equiv> fr_canonical (eng_frontiers e)"
abbreviation e_target :: "txn_engine \<Rightarrow> u64" where "e_target e \<equiv> fr_target (eng_frontiers e)"
abbreviation e_epoch :: "txn_engine \<Rightarrow> u64" where "e_epoch e \<equiv> fr_epoch (eng_frontiers e)"
abbreviation e_kind :: "txn_engine \<Rightarrow> TxnKind" where "e_kind e \<equiv> tx_kind (eng_txn e)"
abbreviation e_status :: "txn_engine \<Rightarrow> TxnStatus" where "e_status e \<equiv> tx_status (eng_txn e)"

section \<open>Operations\<close>

definition add_checked :: "u64 \<Rightarrow> u64 \<Rightarrow> string + u64" where
  "add_checked value add =
     (if value > u64_max - add then Inl ''frontier overflow'' else Inr (value + add))"

definition set_canonical :: "u64 \<Rightarrow> txn_engine \<Rightarrow> txn_engine" where
  "set_canonical c e = e\<lparr>eng_frontiers := (eng_frontiers e)\<lparr>fr_canonical := c\<rparr>\<rparr>"

definition append_known :: "u32 \<Rightarrow> unit engM" where
  "append_known count =
     thenM (failIf eng_active ''cannot append during an active transaction'')
    (thenM (failIf (\<lambda>_. count = 0) ''cannot append zero known tokens'')
    (bindM (liftE (\<lambda>e. add_checked (e_canonical e) (ucast count)))
           (\<lambda>c. modifyM (set_canonical c))))"

definition prepare_kind_guard :: "TxnKind \<Rightarrow> u32 \<Rightarrow> txn_engine \<Rightarrow> string + unit" where
  "prepare_kind_guard kind evaluated_count e =
     (let pending = e_canonical e - e_target e in
      case kind of
        AppendKnown \<Rightarrow> if ucast evaluated_count > pending
          then Inl ''append transaction exceeds known pending tokens'' else Inr ()
      | Decode \<Rightarrow> if pending \<noteq> 1 \<or> evaluated_count \<noteq> 1
          then Inl ''decode requires exactly one pending token'' else Inr ()
      | Speculative \<Rightarrow> if pending \<noteq> 1
          then Inl ''speculative verify requires one pending token'' else Inr ()
      | KindInvalid \<Rightarrow> Inl ''invalid transaction kind'')"

definition begin_txn :: "TxnKind \<Rightarrow> u32 \<Rightarrow> txn_engine \<Rightarrow> txn_engine" where
  "begin_txn kind evaluated_count e = e\<lparr>
     eng_txn := empty_txn\<lparr>
       tx_session_hash := eng_session_hash e,
       tx_epoch := e_epoch e + 1,
       tx_base_target := e_target e,
       tx_base_canonical := e_canonical e,
       tx_evaluated_count := evaluated_count,
       tx_kind := kind,
       tx_status := Prepared\<rparr>,
     eng_active := True, eng_stage0_ack := False, eng_stage1_ack := False\<rparr>"

definition engine_prepare :: "TxnKind \<Rightarrow> u32 \<Rightarrow> unit engM" where
  "engine_prepare kind evaluated_count =
     thenM (failIf eng_active ''transaction already active'')
    (thenM (failIf (\<lambda>_. evaluated_count = 0) ''cannot evaluate zero tokens'')
    (thenM (liftE (\<lambda>e. validate_frontiers (eng_frontiers e)))
    (thenM (liftE (prepare_kind_guard kind evaluated_count))
    (thenM (failIf (\<lambda>e. e_epoch e = u64_max) ''transaction epoch exhausted'')
           (modifyM (begin_txn kind evaluated_count))))))"

definition prepare_append_known :: "u32 \<Rightarrow> u32 \<Rightarrow> unit engM" where
  "prepare_append_known appended_count evaluated_count =
     thenM (failIf eng_active ''transaction already active'')
    (thenM (failIf (\<lambda>_. appended_count = 0) ''cannot append zero known tokens'')
    (thenM (liftE (\<lambda>e. validate_frontiers (eng_frontiers e)))
    (bindM (getM (\<lambda>e. e_canonical e - e_target e)) (\<lambda>pending.
     thenM (failIf (\<lambda>_. pending > 1) ''append request has too many pending tokens'')
    (thenM (failIf (\<lambda>_. ucast evaluated_count \<noteq> ucast appended_count + pending)
              ''append evaluated range does not cover pending suffix'')
    (bindM (getM e_canonical) (\<lambda>base_canonical.
     bindM (liftE (\<lambda>e. add_checked (e_canonical e) (ucast appended_count))) (\<lambda>c.
     thenM (modifyM (set_canonical c))
    (thenM (catchM (engine_prepare AppendKnown evaluated_count)
              (\<lambda>err. thenM (modifyM (set_canonical base_canonical)) (throwM err)))
           (modifyM (\<lambda>e. e\<lparr>eng_txn := (eng_txn e)\<lparr>tx_base_canonical := base_canonical\<rparr>\<rparr>)))))))))))"

definition seed_decode_pending :: "unit engM" where
  "seed_decode_pending =
     thenM (failIf eng_active ''cannot seed during an active transaction'')
    (thenM (failIf (\<lambda>e. e_canonical e \<noteq> e_target e) ''decode seed requires no pending tokens'')
    (bindM (liftE (\<lambda>e. add_checked (e_canonical e) 1)) (\<lambda>c. modifyM (set_canonical c))))"

definition acknowledge :: "Stage \<Rightarrow> u64 \<Rightarrow> u32 \<Rightarrow> unit engM" where
  "acknowledge stage epo evaluated_count =
     thenM (failIf (\<lambda>e. \<not> eng_active e) ''no active transaction to acknowledge'')
    (thenM (failIf (\<lambda>e. e_status e \<noteq> Prepared \<and> e_status e \<noteq> Decided)
              ''transaction is not acknowledgeable'')
    (thenM (failIf (\<lambda>e. epo \<noteq> tx_epoch (eng_txn e)) ''stage acknowledged wrong epoch'')
    (thenM (failIf (\<lambda>e. evaluated_count \<noteq> tx_evaluated_count (eng_txn e))
              ''stage acknowledged wrong evaluated count'')
    (case stage of
       Stage0 \<Rightarrow> thenM (failIf eng_stage0_ack ''duplicate stage0 acknowledgement'')
                       (modifyM (eng_stage0_ack_update (\<lambda>_. True)))
     | Stage1 \<Rightarrow> thenM (failIf eng_stage1_ack ''duplicate stage1 acknowledgement'')
                       (modifyM (eng_stage1_ack_update (\<lambda>_. True)))))))"

definition shorten_speculative :: "u32 \<Rightarrow> unit engM" where
  "shorten_speculative evaluated_count =
     thenM (failIf (\<lambda>e. \<not> eng_active e) ''no active transaction to shorten'')
    (thenM (failIf (\<lambda>e. e_status e \<noteq> Prepared) ''transaction is not shorten-able'')
    (thenM (failIf (\<lambda>e. e_kind e \<noteq> Speculative) ''only speculative transactions may be shortened'')
    (thenM (failIf (\<lambda>e. eng_stage0_ack e \<or> eng_stage1_ack e)
              ''acknowledged transaction cannot be shortened'')
    (thenM (failIf (\<lambda>e. evaluated_count = 0 \<or> evaluated_count \<ge> tx_evaluated_count (eng_txn e))
              ''shortened speculative extent is invalid'')
           (modifyM (\<lambda>e. e\<lparr>eng_txn := (eng_txn e)\<lparr>tx_evaluated_count := evaluated_count\<rparr>\<rparr>))))))"

definition decide_publish :: "u32 \<Rightarrow> txn_engine \<Rightarrow> string + u32" where
  "decide_publish state_commit_count e =
     (case e_kind e of
        AppendKnown \<Rightarrow> if state_commit_count \<noteq> tx_evaluated_count (eng_txn e)
          then Inl ''append must commit its full evaluated range'' else Inr 0
      | Decode \<Rightarrow> if state_commit_count \<noteq> 1
          then Inl ''plain decode must commit its pending token'' else Inr 1
      | Speculative \<Rightarrow> if state_commit_count = 0 \<or> state_commit_count > tx_evaluated_count (eng_txn e)
          then Inl ''speculative accepted prefix is invalid'' else Inr state_commit_count
      | KindInvalid \<Rightarrow> Inl ''invalid transaction kind'')"

definition engine_decide :: "u32 \<Rightarrow> unit engM" where
  "engine_decide state_commit_count =
     thenM (failIf (\<lambda>e. \<not> eng_active e) ''no active transaction to decide'')
    (thenM (failIf (\<lambda>e. e_status e \<noteq> Prepared) ''transaction was already decided'')
    (bindM (liftE (decide_publish state_commit_count)) (\<lambda>publish.
     modifyM (\<lambda>e. e\<lparr>eng_txn := (eng_txn e)\<lparr>tx_publish_count := publish,
       tx_state_commit_count := state_commit_count, tx_status := Decided\<rparr>\<rparr>))))"

text \<open>The frontiers a commit installs: the local variable \<open>next\<close> of the source.\<close>

definition commit_next :: "txn_engine \<Rightarrow> string + SessionFrontiers" where
  "commit_next e =
     (case add_checked (e_target e) (ucast (tx_state_commit_count (eng_txn e))) of
        Inl err \<Rightarrow> Inl err
      | Inr t \<Rightarrow>
          let next = (eng_frontiers e)\<lparr>fr_target := t, fr_stage0 := t, fr_stage1 := t\<rparr> in
          let moved =
            (if e_kind e = Decode \<or> e_kind e = Speculative then
               (case add_checked (fr_canonical next) (ucast (tx_publish_count (eng_txn e))) of
                  Inl err \<Rightarrow> Inl err
                | Inr c \<Rightarrow> Inr (next\<lparr>fr_canonical := c, fr_draft := t\<rparr>))
             else if fr_draft next > t then Inr (next\<lparr>fr_draft := t\<rparr>)
             else Inr next) in
          (case moved of
             Inl err \<Rightarrow> Inl err
           | Inr n \<Rightarrow>
               let n = n\<lparr>fr_epoch := tx_epoch (eng_txn e)\<rparr> in
               (case validate_frontiers n of Inl err \<Rightarrow> Inl err | Inr _ \<Rightarrow> Inr n)))"

definition commit_event :: "SessionFrontiers \<Rightarrow> txn_engine \<Rightarrow> CommitEvent" where
  "commit_event next e = \<lparr> ce_epoch = tx_epoch (eng_txn e), ce_canonical = fr_canonical next,
     ce_target = fr_target next, ce_newly_published = tx_publish_count (eng_txn e),
     ce_kind = e_kind e \<rparr>"

definition engine_commit :: "CommitEvent engM" where
  "engine_commit =
     thenM (failIf (\<lambda>e. \<not> eng_active e) ''no active transaction to commit'')
    (thenM (failIf (\<lambda>e. e_status e \<noteq> Decided) ''transaction has no decision'')
    (thenM (failIf (\<lambda>e. \<not> eng_stage0_ack e \<or> \<not> eng_stage1_ack e)
              ''both stages must acknowledge before commit'')
    (bindM (liftE commit_next) (\<lambda>next.
     bindM (getM (commit_event next)) (\<lambda>event.
     thenM (modifyM (\<lambda>e. e\<lparr>eng_txn := (eng_txn e)\<lparr>tx_status := Committed\<rparr>,
              eng_frontiers := next, eng_active := False\<rparr>))
           (returnM event))))))"

definition rollback_state :: "txn_engine \<Rightarrow> txn_engine" where
  "rollback_state e = e\<lparr>
     eng_txn := (eng_txn e)\<lparr>tx_status := RolledBack\<rparr>,
     eng_frontiers := (eng_frontiers e)\<lparr>
       fr_canonical := (if e_kind e = AppendKnown then tx_base_canonical (eng_txn e)
                        else e_canonical e),
       fr_epoch := tx_epoch (eng_txn e)\<rparr>,
     eng_active := False, eng_stage0_ack := False, eng_stage1_ack := False\<rparr>"

definition engine_rollback :: "unit engM" where
  "engine_rollback =
     thenM (failIf (\<lambda>e. \<not> eng_active e) ''no active transaction to roll back'')
    (thenM (modifyM rollback_state)
           (liftE (\<lambda>e. validate_frontiers (eng_frontiers e))))"

definition engine_reset :: "unit engM" where
  "engine_reset =
     thenM (failIf eng_active ''cannot reset an active transaction'')
           (modifyM (\<lambda>e. e\<lparr>eng_frontiers := empty_frontiers, eng_txn := empty_txn,
              eng_stage0_ack := False, eng_stage1_ack := False\<rparr>))"

section \<open>The engine invariant\<close>

text \<open>
  Frontiers are always in order (not only when they are validated), and an open transaction
  agrees with them: its epoch is the next one, its base is the current target, its extent fits
  what is pending, and once it is decided its counts are the ones the decision computed.
\<close>

definition kind_ok :: "txn_engine \<Rightarrow> bool" where
  "kind_ok e \<longleftrightarrow> (let t = eng_txn e; pending = e_canonical e - e_target e in
     case tx_kind t of
       AppendKnown \<Rightarrow> e_target e \<le> tx_base_canonical t \<and> tx_base_canonical t \<le> e_canonical e \<and>
         ucast (tx_evaluated_count t) \<le> pending
     | Decode \<Rightarrow> pending = 1 \<and> tx_evaluated_count t = 1 \<and> tx_base_canonical t = e_canonical e
     | Speculative \<Rightarrow> pending = 1 \<and> tx_base_canonical t = e_canonical e
     | KindInvalid \<Rightarrow> False)"

definition active_ok :: "txn_engine \<Rightarrow> bool" where
  "active_ok e \<longleftrightarrow> (let t = eng_txn e in
     tx_magic t = kTxnMagic \<and> tx_version t = kContractVersion \<and>
     tx_session_hash t = eng_session_hash e \<and>
     e_epoch e \<noteq> u64_max \<and> tx_epoch t = e_epoch e + 1 \<and> tx_base_target t = e_target e \<and>
     tx_evaluated_count t \<noteq> 0 \<and> (tx_status t = Prepared \<or> tx_status t = Decided) \<and> kind_ok e \<and>
     (tx_status t = Decided \<longrightarrow>
        decide_publish (tx_state_commit_count t) e = Inr (tx_publish_count t)))"

definition engine_ok :: "txn_engine \<Rightarrow> bool" where
  "engine_ok e \<longleftrightarrow> frontiers_ok (eng_frontiers e) \<and> fr_draft (eng_frontiers e) \<le> e_target e \<and>
     (eng_active e \<longrightarrow> active_ok e)"

lemmas engine_ok_defs = engine_ok_def active_ok_def kind_ok_def frontiers_ok_def Let_def

lemma new_engine_ok: "engine_ok (new_engine h)"
  by (simp add: engine_ok_defs new_engine_def empty_frontiers_def)

lemma engine_okD:
  assumes "engine_ok e"
  shows "e_target e \<le> e_canonical e" "fr_draft (eng_frontiers e) \<le> e_target e"
    "frontiers_ok (eng_frontiers e)" "eng_active e \<Longrightarrow> active_ok e"
  using assms by (auto simp: engine_ok_def frontiers_ok_def)

lemma add_checked_Inr: "add_checked a b = Inr c \<longleftrightarrow> unat a + unat b < 2 ^ 64 \<and> c = a + b"
  by (auto simp: add_checked_def u64_overflow_guard not_le)

lemma add_checked_le: "add_checked a b = Inr c \<Longrightarrow> a \<le> c"
  by (auto simp: add_checked_Inr word_le_nat_alt unat_u64_add)

lemma engine_ok_grow:
  assumes "engine_ok e" "\<not> eng_active e" "add_checked (e_canonical e) n = Inr c"
  shows "engine_ok (set_canonical c e)"
  using assms add_checked_le [OF assms(3)]
  by (auto simp: engine_ok_def frontiers_ok_def set_canonical_def)

lemma append_known_ok:
  assumes "engine_ok e"
  shows "wp (append_known n) (\<lambda>_. engine_ok) (\<lambda>_ t. t = e) e"
  using assms by (auto simp: append_known_def wp_simps engine_ok_grow split: sum.splits)

lemma seed_decode_pending_ok:
  assumes "engine_ok e"
  shows "wp seed_decode_pending (\<lambda>_. engine_ok) (\<lambda>_ t. t = e) e"
  using assms by (auto simp: seed_decode_pending_def wp_simps engine_ok_grow split: sum.splits)

lemma begin_txn_ok:
  assumes "engine_ok e" "\<not> eng_active e" "n \<noteq> 0" "prepare_kind_guard kind n e = Inr ()"
    "e_epoch e \<noteq> u64_max"
  shows "engine_ok (begin_txn kind n e)"
  using assms
  by (auto simp: engine_ok_defs begin_txn_def prepare_kind_guard_def empty_txn_def not_less
      split: TxnKind.splits if_splits)

lemma engine_prepare_wp:
  assumes "engine_ok e"
  shows "wp (engine_prepare kind n)
     (\<lambda>_ t. engine_ok t \<and> t = begin_txn kind n e \<and> \<not> eng_active e \<and> n \<noteq> 0 \<and> e_epoch e \<noteq> u64_max)
     (\<lambda>_ t. t = e) e"
  using assms by (auto simp: engine_prepare_def wp_simps begin_txn_ok split: sum.splits)

text \<open>What a successful \<open>prepare_append_known\<close> leaves behind.\<close>

definition begin_append :: "u32 \<Rightarrow> u32 \<Rightarrow> txn_engine \<Rightarrow> txn_engine" where
  "begin_append appended evaluated e =
     (let t = begin_txn AppendKnown evaluated (set_canonical (e_canonical e + ucast appended) e)
      in t\<lparr>eng_txn := (eng_txn t)\<lparr>tx_base_canonical := e_canonical e\<rparr>\<rparr>)"

lemma set_canonical_same [simp]: "set_canonical (e_canonical e) (set_canonical c e) = e"
  by (simp add: set_canonical_def)

lemma begin_append_ok:
  assumes "engine_ok (begin_txn AppendKnown n (set_canonical c e))"
    "e_target e \<le> e_canonical e" "e_canonical e \<le> c"
  shows "engine_ok (begin_txn AppendKnown n (set_canonical c e)
           \<lparr>eng_txn := (eng_txn (begin_txn AppendKnown n (set_canonical c e)))
              \<lparr>tx_base_canonical := e_canonical e\<rparr>\<rparr>)"
  using assms by (simp add: engine_ok_defs begin_txn_def set_canonical_def empty_txn_def)

lemma prepare_append_known_wp:
  assumes ok: "engine_ok e"
  shows "wp (prepare_append_known a n)
     (\<lambda>_ t. engine_ok t \<and> t = begin_append a n e \<and> \<not> eng_active e \<and> e_epoch e \<noteq> u64_max)
     (\<lambda>_ t. t = e) e"
proof -
  have prep: "wp (engine_prepare AppendKnown n)
      (\<lambda>_ t. engine_ok t \<and> t = begin_txn AppendKnown n (set_canonical c e) \<and> e_epoch e \<noteq> u64_max)
      (\<lambda>_ t. t = set_canonical c e) (set_canonical c e)"
    if "\<not> eng_active e" "add_checked (e_canonical e) (ucast a) = Inr c" for c
    using engine_prepare_wp [OF engine_ok_grow [OF ok that], of AppendKnown n]
    by (rule wp_mono) (auto simp: set_canonical_def)
  have "wp (thenM (catchM (engine_prepare AppendKnown n)
              (\<lambda>err. thenM (modifyM (set_canonical (e_canonical e))) (throwM err)))
           (modifyM (\<lambda>t. t\<lparr>eng_txn := (eng_txn t)\<lparr>tx_base_canonical := e_canonical e\<rparr>\<rparr>)))
     (\<lambda>_ t. engine_ok t \<and> t = begin_append a n e \<and> \<not> eng_active e \<and> e_epoch e \<noteq> u64_max)
     (\<lambda>_ t. t = e) (set_canonical c e)"
    if "\<not> eng_active e" "add_checked (e_canonical e) (ucast a) = Inr c" for c
    unfolding wp_simps
    using prep [OF that]
    by (rule wp_mono)
       (use that engine_okD(1) [OF ok] add_checked_le [OF that(2)] in
         \<open>auto simp: begin_append_def add_checked_Inr Let_def intro!: begin_append_ok\<close>)
  then show ?thesis
    by (auto simp: prepare_append_known_def wp_bindM wp_thenM wp_failIf wp_getM wp_liftE wp_modifyM
        split: sum.splits)
qed

lemma acknowledge_wp:
  assumes "engine_ok e"
  shows "wp (acknowledge st ep n)
     (\<lambda>_ t. engine_ok t \<and> eng_active e \<and>
        t = (case st of Stage0 \<Rightarrow> e\<lparr>eng_stage0_ack := True\<rparr> | Stage1 \<Rightarrow> e\<lparr>eng_stage1_ack := True\<rparr>))
     (\<lambda>_ t. t = e) e"
  using assms
  by (cases st)
     (auto simp: acknowledge_def wp_simps engine_ok_defs decide_publish_def
        cong: TxnKind.case_cong)

lemma shorten_speculative_wp:
  assumes "engine_ok e"
  shows "wp (shorten_speculative n)
     (\<lambda>_ t. engine_ok t \<and> eng_active e \<and> e_kind e = Speculative \<and> n \<noteq> 0 \<and>
        n < tx_evaluated_count (eng_txn e) \<and>
        t = e\<lparr>eng_txn := (eng_txn e)\<lparr>tx_evaluated_count := n\<rparr>\<rparr>)
     (\<lambda>_ t. t = e) e"
  using assms by (auto simp: shorten_speculative_def wp_simps engine_ok_defs not_le)

definition decided_txn :: "u32 \<Rightarrow> u32 \<Rightarrow> txn_engine \<Rightarrow> txn_engine" where
  "decided_txn k p e = e\<lparr>eng_txn := (eng_txn e)\<lparr>tx_publish_count := p,
     tx_state_commit_count := k, tx_status := Decided\<rparr>\<rparr>"

lemma decide_publish_frame [simp]: "decide_publish j (decided_txn k p e) = decide_publish j e"
  by (cases "e_kind e") (simp_all add: decide_publish_def decided_txn_def)

lemma kind_ok_frame [simp]: "kind_ok (decided_txn k p e) = kind_ok e"
  by (cases "e_kind e") (simp_all add: kind_ok_def decided_txn_def Let_def)

lemma decided_txn_ok:
  assumes "engine_ok e" "eng_active e" "decide_publish k e = Inr p"
  shows "engine_ok (decided_txn k p e)"
proof -
  have "active_ok (decided_txn k p e)"
    using assms engine_okD(4) [OF assms(1,2)]
    unfolding active_ok_def Let_def
    by (simp only: decide_publish_frame kind_ok_frame) (simp add: decided_txn_def)
  then show ?thesis
    using assms(1) by (simp add: engine_ok_def) (simp add: decided_txn_def)
qed

lemma engine_decide_wp:
  assumes "engine_ok e"
  shows "wp (engine_decide k)
     (\<lambda>_ t. engine_ok t \<and> eng_active e \<and>
        (\<exists>p. decide_publish k e = Inr p \<and> t = decided_txn k p e))
     (\<lambda>_ t. t = e) e"
  using decided_txn_ok [OF assms]
  by (auto simp: engine_decide_def wp_simps decided_txn_def [symmetric] split: sum.splits)

lemma engine_reset_wp:
  "wp engine_reset (\<lambda>_ t. t = new_engine (eng_session_hash e) \<and> \<not> eng_active e) (\<lambda>_ t. t = e) e"
  by (simp add: engine_reset_def wp_simps new_engine_def)

subsection \<open>Commit\<close>

text \<open>The frontiers of a committed transaction, as the contract words them.\<close>

definition committed_frontiers :: "txn_engine \<Rightarrow> SessionFrontiers" where
  "committed_frontiers e =
     (let t = e_target e + ucast (tx_state_commit_count (eng_txn e)) in
      \<lparr> fr_canonical = e_canonical e + ucast (tx_publish_count (eng_txn e)),
        fr_target = t, fr_stage0 = t, fr_stage1 = t,
        fr_draft = (if e_kind e = AppendKnown then fr_draft (eng_frontiers e) else t),
        fr_epoch = e_epoch e + 1 \<rparr>)"

lemma decided_counts:
  assumes "engine_ok e" "eng_active e" "e_status e = Decided"
  shows "unat (e_target e) + unat (tx_state_commit_count (eng_txn e)) \<le>
           unat (e_canonical e) + unat (tx_publish_count (eng_txn e))"
    and "e_kind e = AppendKnown \<Longrightarrow> tx_publish_count (eng_txn e) = 0"
    and "e_kind e \<noteq> AppendKnown \<Longrightarrow>
           tx_publish_count (eng_txn e) = tx_state_commit_count (eng_txn e) \<and>
           unat (e_canonical e) = unat (e_target e) + 1"
proof -
  let ?t = "eng_txn e"
  have act: "active_ok e" and le: "e_target e \<le> e_canonical e"
    using assms engine_okD by auto
  have pend: "unat (e_canonical e - e_target e) = unat (e_canonical e) - unat (e_target e)"
    using le by (rule unat_u64_sub)
  have le': "unat (e_target e) \<le> unat (e_canonical e)"
    using le by (simp add: word_le_nat_alt)
  have one: "unat (e_canonical e) = unat (e_target e) + 1" if "e_canonical e - e_target e = 1"
    using pend le' by (simp add: that)
  have app: "unat (tx_state_commit_count ?t) \<le> unat (e_canonical e) - unat (e_target e)"
    if "e_kind e = AppendKnown"
    using act assms that pend
    by (auto simp: active_ok_def kind_ok_def Let_def decide_publish_def word_le_nat_alt
        split: if_splits)
  show "e_kind e = AppendKnown \<Longrightarrow> tx_publish_count ?t = 0"
    using act assms by (auto simp: active_ok_def Let_def decide_publish_def split: if_splits)
  show spec: "e_kind e \<noteq> AppendKnown \<Longrightarrow> tx_publish_count ?t = tx_state_commit_count ?t \<and>
           unat (e_canonical e) = unat (e_target e) + 1"
    using act assms one
    by (auto simp: active_ok_def kind_ok_def Let_def decide_publish_def
        split: if_splits TxnKind.splits)
  show "unat (e_target e) + unat (tx_state_commit_count ?t) \<le>
      unat (e_canonical e) + unat (tx_publish_count ?t)"
    using app spec le' by (cases "e_kind e = AppendKnown") auto
qed

lemma commit_next_eq:
  assumes "engine_ok e" "eng_active e" "e_status e = Decided"
  shows "commit_next e =
     (if unat (e_canonical e) + unat (tx_publish_count (eng_txn e)) < 2 ^ 64
      then Inr (committed_frontiers e) else Inl ''frontier overflow'')"
proof -
  let ?t = "eng_txn e"
  note cnt = decided_counts [OF assms]
  have ep: "tx_epoch ?t = e_epoch e + 1"
    using assms by (simp add: engine_ok_def active_ok_def Let_def)
  have kinds: "e_kind e = AppendKnown \<or> e_kind e = Decode \<or> e_kind e = Speculative"
    using assms by (cases "e_kind e") (auto simp: engine_ok_defs)
  have draft: "fr_draft (eng_frontiers e) \<le> e_target e"
    using assms by (simp add: engine_okD)
  show ?thesis
  proof (cases "unat (e_canonical e) + unat (tx_publish_count ?t) < 2 ^ 64")
    case True
    then have t: "unat (e_target e) + unat (tx_state_commit_count ?t) < 2 ^ 64"
      using cnt(1) by linarith
    then have t': "unat (e_target e + ucast (tx_state_commit_count ?t)) =
        unat (e_target e) + unat (tx_state_commit_count ?t)"
      by (simp add: unat_u64_add)
    have c': "unat (e_canonical e + ucast (tx_publish_count ?t)) =
        unat (e_canonical e) + unat (tx_publish_count ?t)"
      using True by (simp add: unat_u64_add)
    have "frontiers_ok (committed_frontiers e)"
      using cnt(1) draft t' c'
      by (auto simp: frontiers_ok_def committed_frontiers_def Let_def word_le_nat_alt)
    moreover have "\<not> fr_draft (eng_frontiers e) > e_target e + ucast (tx_state_commit_count ?t)"
      using draft t' by (simp add: word_less_nat_alt word_le_nat_alt)
    ultimately show ?thesis
      using True t kinds cnt(2) ep
      by (auto simp: commit_next_def add_checked_def u64_overflow_guard Let_def
          committed_frontiers_def validate_frontiers_def frontiers_ok_def split: sum.splits)
  next
    case False
    then have k: "e_kind e = Decode \<or> e_kind e = Speculative"
      using kinds cnt(2) unat_u64_lt [of "e_canonical e"] by auto
    show ?thesis
      using False k
      by (auto simp: commit_next_def add_checked_def u64_overflow_guard Let_def split: sum.splits)
  qed
qed

lemma committed_frontiers_ok:
  assumes "engine_ok e" "eng_active e" "e_status e = Decided"
    "unat (e_canonical e) + unat (tx_publish_count (eng_txn e)) < 2 ^ 64"
  shows "frontiers_ok (committed_frontiers e)"
    "fr_draft (committed_frontiers e) \<le> fr_target (committed_frontiers e)"
proof -
  have "commit_next e = Inr (committed_frontiers e)"
    using commit_next_eq [OF assms(1-3)] assms(4) by simp
  then show "frontiers_ok (committed_frontiers e)"
    by (auto simp: commit_next_def Let_def validate_frontiers_iff split: sum.splits if_splits)
  have "unat (e_target e) + unat (tx_state_commit_count (eng_txn e)) < 2 ^ 64"
    using decided_counts(1) [OF assms(1-3)] assms(4) by linarith
  then show "fr_draft (committed_frontiers e) \<le> fr_target (committed_frontiers e)"
    using engine_okD(2) [OF assms(1)]
    by (auto simp: committed_frontiers_def Let_def word_le_nat_alt unat_u64_add)
qed

lemma engine_commit_wp:
  assumes "engine_ok e"
  shows "wp engine_commit
     (\<lambda>ev t. engine_ok t \<and> eng_active e \<and> e_status e = Decided \<and> eng_stage0_ack e \<and> eng_stage1_ack e \<and>
        unat (e_canonical e) + unat (tx_publish_count (eng_txn e)) < 2 ^ 64 \<and>
        ev = commit_event (committed_frontiers e) e \<and>
        t = e\<lparr>eng_txn := (eng_txn e)\<lparr>tx_status := Committed\<rparr>,
              eng_frontiers := committed_frontiers e, eng_active := False\<rparr>)
     (\<lambda>err t. t = e \<and> (eng_active e \<and> e_status e = Decided \<and> eng_stage0_ack e \<and> eng_stage1_ack e \<longrightarrow>
        2 ^ 64 \<le> unat (e_canonical e) + unat (tx_publish_count (eng_txn e)))) e"
proof (cases "eng_active e \<and> e_status e = Decided")
  case True
  show ?thesis
    using True commit_next_eq [OF assms] committed_frontiers_ok [OF assms]
    by (simp add: engine_commit_def wp_simps engine_ok_def not_less)
next
  case False
  then show ?thesis by (auto simp: engine_commit_def wp_simps)
qed

subsection \<open>Rollback\<close>

lemma rollback_frontiers_ok:
  assumes "engine_ok e" "eng_active e"
  shows "engine_ok (rollback_state e)"
  using assms
  by (cases "e_kind e") (auto simp: engine_ok_defs rollback_state_def)

lemma engine_rollback_wp:
  assumes "engine_ok e"
  shows "wp engine_rollback
     (\<lambda>_ t. engine_ok t \<and> eng_active e \<and> t = rollback_state e) (\<lambda>_ t. t = e \<and> \<not> eng_active e) e"
proof (cases "eng_active e")
  case True
  have "validate_frontiers (eng_frontiers (rollback_state e)) = Inr ()"
    using rollback_frontiers_ok [OF assms True] by (simp add: engine_ok_def)
  then show ?thesis
    using rollback_frontiers_ok [OF assms True] True
    by (simp add: engine_rollback_def wp_simps)
next
  case False
  then show ?thesis by (simp add: engine_rollback_def wp_simps)
qed

section \<open>Runs of the engine\<close>

datatype engine_op =
    OpAppendKnown u32
  | OpPrepareAppend u32 u32
  | OpSeed
  | OpPrepare TxnKind u32
  | OpAck Stage u64 u32
  | OpShorten u32
  | OpDecide u32
  | OpCommit
  | OpRollback
  | OpReset

fun engine_do :: "engine_op \<Rightarrow> unit engM" where
  "engine_do (OpAppendKnown n) = append_known n"
| "engine_do (OpPrepareAppend a n) = prepare_append_known a n"
| "engine_do OpSeed = seed_decode_pending"
| "engine_do (OpPrepare k n) = engine_prepare k n"
| "engine_do (OpAck st ep n) = acknowledge st ep n"
| "engine_do (OpShorten n) = shorten_speculative n"
| "engine_do (OpDecide k) = engine_decide k"
| "engine_do OpCommit = thenM engine_commit (returnM ())"
| "engine_do OpRollback = engine_rollback"
| "engine_do OpReset = engine_reset"

text \<open>One call of any method, whether it returns or fails; and every engine such calls reach.\<close>

inductive engine_step :: "txn_engine \<Rightarrow> engine_op \<Rightarrow> txn_engine \<Rightarrow> bool" where
  returns: "engine_do op e = (Inr (), t) \<Longrightarrow> engine_step e op t"
| fails: "engine_do op e = (Inl err, t) \<Longrightarrow> engine_step e op t"

inductive engine_reachable :: "u64 \<Rightarrow> txn_engine \<Rightarrow> bool" for h where
  start: "engine_reachable h (new_engine h)"
| step: "engine_reachable h e \<Longrightarrow> engine_step e op t \<Longrightarrow> engine_reachable h t"

inductive_simps engine_step_simps: "engine_step e op t"

lemma engine_step_wp:
  assumes "wp (engine_do op) (\<lambda>_. P) (\<lambda>_. P) e" "engine_step e op t"
  shows "P t"
  using assms(2,1) by cases (auto simp: wp_def)

text \<open>Every method keeps the invariant, and a method that fails changes nothing.\<close>

lemma engine_do_wp:
  assumes ok: "engine_ok e"
  shows "wp (engine_do op) (\<lambda>_. engine_ok) (\<lambda>_ t. t = e) e"
proof (cases op)
  case (OpAppendKnown n)
  then show ?thesis using append_known_ok [OF ok] by simp
next
  case (OpPrepareAppend a n)
  then show ?thesis by simp (rule wp_mono [OF prepare_append_known_wp [OF ok]], auto)
next
  case OpSeed
  then show ?thesis using seed_decode_pending_ok [OF ok] by simp
next
  case (OpPrepare k n)
  then show ?thesis by simp (rule wp_mono [OF engine_prepare_wp [OF ok]], auto)
next
  case (OpAck st ep n)
  then show ?thesis by simp (rule wp_mono [OF acknowledge_wp [OF ok]], auto)
next
  case (OpShorten n)
  then show ?thesis by simp (rule wp_mono [OF shorten_speculative_wp [OF ok]], auto)
next
  case (OpDecide k)
  then show ?thesis by simp (rule wp_mono [OF engine_decide_wp [OF ok]], auto)
next
  case OpCommit
  then show ?thesis by (simp add: wp_thenM) (rule wp_mono [OF engine_commit_wp [OF ok]], auto simp: wp_returnM)
next
  case OpRollback
  then show ?thesis by simp (rule wp_mono [OF engine_rollback_wp [OF ok]], auto)
next
  case OpReset
  then show ?thesis by simp (rule wp_mono [OF engine_reset_wp], auto simp: new_engine_ok)
qed

lemma engine_step_ok: "engine_step e op t \<Longrightarrow> engine_ok e \<Longrightarrow> engine_ok t"
  by (rule engine_step_wp [where P = engine_ok])
     (auto intro: wp_mono [OF engine_do_wp])

lemma reachable_engine_ok: "engine_reachable h e \<Longrightarrow> engine_ok e"
  by (induction rule: engine_reachable.induct) (auto simp: new_engine_ok dest: engine_step_ok)

fun engine_run :: "engine_op list \<Rightarrow> txn_engine \<Rightarrow> txn_engine" where
  "engine_run [] e = e"
| "engine_run (op # ops) e = engine_run ops (snd (engine_do op e))"

lemma engine_step_do: "engine_step e op (snd (engine_do op e))"
  by (cases "engine_do op e"; cases "fst (engine_do op e)")
     (auto simp: engine_step_simps)

lemma engine_run_reachable: "engine_reachable h e \<Longrightarrow> engine_reachable h (engine_run ops e)"
  by (induction ops arbitrary: e) (auto intro: engine_reachable.step engine_step_do)

lemma engine_run_start: "engine_reachable h (engine_run ops (new_engine h))"
  by (intro engine_run_reachable engine_reachable.start)

text \<open>The calls a coordinator makes between opening a transaction and closing it.\<close>

fun in_flight_op :: "engine_op \<Rightarrow> bool" where
  "in_flight_op (OpAck st ep n) = True"
| "in_flight_op (OpShorten n) = True"
| "in_flight_op (OpDecide k) = True"
| "in_flight_op _ = False"

fun opening_op :: "engine_op \<Rightarrow> bool" where
  "opening_op (OpPrepareAppend a n) = True"
| "opening_op (OpPrepare k n) = True"
| "opening_op _ = False"

lemma in_flight_frame:
  assumes "engine_ok e" "in_flight_op op"
  shows "wp (engine_do op)
    (\<lambda>_ t. engine_ok t \<and> eng_active t = eng_active e \<and>
       eng_frontiers (rollback_state t) = eng_frontiers (rollback_state e))
    (\<lambda>_ t. t = e) e"
proof (cases op)
  case (OpAck st ep n)
  then show ?thesis
    by simp (rule wp_mono [OF acknowledge_wp [OF assms(1)]],
        auto simp: rollback_state_def split: Stage.splits)
next
  case (OpShorten n)
  then show ?thesis
    by simp (rule wp_mono [OF shorten_speculative_wp [OF assms(1)]], auto simp: rollback_state_def)
next
  case (OpDecide k)
  then show ?thesis
    by simp (rule wp_mono [OF engine_decide_wp [OF assms(1)]],
        auto simp: rollback_state_def decided_txn_def)
qed (use assms in simp_all)

lemma in_flight_run_frame:
  assumes "engine_ok e" "list_all in_flight_op ops"
  shows "engine_ok (engine_run ops e) \<and> eng_active (engine_run ops e) = eng_active e \<and>
    eng_frontiers (rollback_state (engine_run ops e)) = eng_frontiers (rollback_state e)"
  using assms
proof (induction ops arbitrary: e)
  case Nil
  then show ?case by simp
next
  case (Cons op ops)
  obtain r t where r: "engine_do op e = (r, t)" by force
  have "engine_ok t \<and> eng_active t = eng_active e \<and>
      eng_frontiers (rollback_state t) = eng_frontiers (rollback_state e)"
    using in_flight_frame [OF Cons.prems(1), of op] Cons.prems r
    by (auto simp: wp_def split: sum.splits)
  with Cons.IH [of t] Cons.prems(2) r show ?case by simp
qed

lemma opening_frame:
  assumes "engine_ok e" "opening_op op" "engine_do op e = (Inr (), t)"
  shows "engine_ok t" "eng_active t"
    "eng_frontiers (rollback_state t) = (eng_frontiers e)\<lparr>fr_epoch := e_epoch e + 1\<rparr>"
    "unat (e_epoch e + 1) = unat (e_epoch e) + 1"
proof -
  have "engine_ok t \<and> eng_active t \<and> e_epoch e \<noteq> u64_max \<and>
    eng_frontiers (rollback_state t) = (eng_frontiers e)\<lparr>fr_epoch := e_epoch e + 1\<rparr>"
  proof (cases op)
    case (OpPrepareAppend a n)
    then show ?thesis
      using wp_returns [OF prepare_append_known_wp [OF assms(1)]] assms(3)
      by (fastforce simp: begin_append_def begin_txn_def rollback_state_def set_canonical_def Let_def)
  next
    case (OpPrepare k n)
    then show ?thesis
      using wp_returns [OF engine_prepare_wp [OF assms(1)]] assms(3)
      by (fastforce simp: begin_txn_def rollback_state_def)
  qed (use assms in simp_all)
  then show "engine_ok t" "eng_active t"
    "eng_frontiers (rollback_state t) = (eng_frontiers e)\<lparr>fr_epoch := e_epoch e + 1\<rparr>"
    "unat (e_epoch e + 1) = unat (e_epoch e) + 1"
    by (auto simp: unat_u64_Suc)
qed

lemma epoch_next: "e_epoch e \<noteq> u64_max \<Longrightarrow> unat (e_epoch e + 1) = unat (e_epoch e) + 1"
  by (rule unat_u64_Suc)

lemma active_epoch:
  assumes "engine_ok e" "eng_active e"
  shows "unat (tx_epoch (eng_txn e)) = unat (e_epoch e) + 1"
  using engine_okD(4) [OF assms] by (auto simp: active_ok_def Let_def epoch_next)

lemma engine_epoch_do:
  assumes ok: "engine_ok e" and "op \<noteq> OpReset"
  shows "wp (engine_do op) (\<lambda>_ t. e_epoch t = e_epoch e \<or>
     (op = OpCommit \<or> op = OpRollback) \<and> unat (e_epoch t) = unat (e_epoch e) + 1) (\<lambda>_ t. t = e) e"
proof (cases op)
  case (OpPrepareAppend a n)
  then show ?thesis
    by simp (rule wp_mono [OF prepare_append_known_wp [OF ok]],
        auto simp: begin_append_def begin_txn_def set_canonical_def Let_def)
next
  case (OpPrepare k n)
  then show ?thesis
    by simp (rule wp_mono [OF engine_prepare_wp [OF ok]], auto simp: begin_txn_def)
next
  case OpCommit
  have "tx_epoch (eng_txn e) = e_epoch e + 1 \<and> e_epoch e \<noteq> u64_max" if "eng_active e"
    using engine_okD(4) [OF ok that] by (simp add: active_ok_def Let_def)
  then show ?thesis
    unfolding OpCommit
    by (simp add: wp_thenM) (rule wp_mono [OF engine_commit_wp [OF ok]],
        auto simp: wp_returnM committed_frontiers_def Let_def epoch_next)
next
  case OpRollback
  then show ?thesis
    by simp (rule wp_mono [OF engine_rollback_wp [OF ok]],
        auto simp: rollback_state_def dest: active_epoch [OF ok])
next
  case (OpAck st ep n)
  then show ?thesis
    by simp (rule wp_mono [OF acknowledge_wp [OF ok]], auto split: Stage.splits)
next
  case (OpShorten n)
  then show ?thesis
    by simp (rule wp_mono [OF shorten_speculative_wp [OF ok]], auto)
next
  case (OpDecide k)
  then show ?thesis
    by simp (rule wp_mono [OF engine_decide_wp [OF ok]], auto simp: decided_txn_def)
qed (use assms in \<open>auto simp: append_known_def seed_decode_pending_def wp_simps set_canonical_def
       split: sum.splits\<close>)

section \<open>What the engine guarantees\<close>

text \<open>
  C4: Whatever methods are called and in whatever order, a session engine keeps its invariant:
  the frontiers are ordered (both stages at the target, draft and target not past the
  canonical end) and an open transaction has the next epoch, starts at the committed target and
  never covers more than the pending range its kind allows.
\<close>

theorem engine_invariant:
  assumes "engine_reachable h e"
  shows "engine_ok e"
  using assms by (rule reachable_engine_ok)

definition demo_append :: "engine_op list" where
  "demo_append = [OpPrepareAppend 3 3, OpAck Stage0 1 3, OpAck Stage1 1 3, OpDecide 3]"

definition demo_spec :: "engine_op list" where
  "demo_spec = demo_append @ [OpCommit, OpSeed, OpPrepare Speculative 4, OpShorten 2,
     OpAck Stage0 2 2, OpAck Stage1 2 2, OpDecide 2]"

theorem engine_invariant_witness:
  "engine_ok (engine_run demo_spec (new_engine 7)) \<and>
   eng_active (engine_run demo_spec (new_engine 7))"
proof
  show "engine_ok (engine_run demo_spec (new_engine 7))"
    by (rule engine_invariant [OF engine_run_start])
  show "eng_active (engine_run demo_spec (new_engine 7))" by code_simp
qed

text \<open>
  A method call that reports failure has no effect at all on the engine, in every reachable
  state (rollback included: it cannot fail once a transaction is open).
\<close>

theorem engine_failure_atomic:
  assumes "engine_reachable h e" and "engine_do op e = (Inl err, t)"
  shows "t = e"
  using wp_fails [OF engine_do_wp [OF reachable_engine_ok [OF assms(1)]] assms(2)] .

theorem engine_failure_atomic_witness:
  "fst (engine_do (OpPrepare Decode 1) (engine_run demo_append (new_engine 7))) =
     Inl ''transaction already active'' \<and>
   snd (engine_do (OpPrepare Decode 1) (engine_run demo_append (new_engine 7))) =
     engine_run demo_append (new_engine 7)"
proof -
  let ?e = "engine_run demo_append (new_engine 7)"
  have f: "fst (engine_do (OpPrepare Decode 1) ?e) = Inl ''transaction already active''"
    by code_simp
  then have "engine_do (OpPrepare Decode 1) ?e =
      (Inl ''transaction already active'', snd (engine_do (OpPrepare Decode 1) ?e))"
    by (metis prod.collapse)
  from engine_failure_atomic [OF engine_run_start this] f show ?thesis by simp
qed

text \<open>
  C12: Request atomicity of rollback. Open any transaction, let the coordinator make any
  sequence of acknowledgement, shortening and decision calls, then roll back: the call succeeds
  and every frontier is exactly what it was before the request, except that the epoch has
  advanced by one (without wrapping). An append gives back its whole reserved suffix.
\<close>

theorem engine_rollback_restores:
  assumes "engine_reachable h e0" and "opening_op op" and "engine_do op e0 = (Inr (), e1)"
    and "list_all in_flight_op ops"
  shows "\<exists>t. engine_rollback (engine_run ops e1) = (Inr (), t) \<and>
      eng_frontiers t = (eng_frontiers e0)\<lparr>fr_epoch := e_epoch e0 + 1\<rparr> \<and>
      unat (e_epoch t) = unat (e_epoch e0) + 1 \<and> \<not> eng_active t"
proof -
  note open1 = opening_frame [OF reachable_engine_ok [OF assms(1)] assms(2,3)]
  let ?e2 = "engine_run ops e1"
  have run: "engine_ok ?e2" "eng_active ?e2"
    "eng_frontiers (rollback_state ?e2) = eng_frontiers (rollback_state e1)"
    using in_flight_run_frame [OF open1(1) assms(4)] open1(2) by auto
  have "wp engine_rollback (\<lambda>_ t. t = rollback_state ?e2) (\<lambda>_ _. False) ?e2"
    by (rule wp_mono [OF engine_rollback_wp [OF run(1)]]) (use run(2) in auto)
  then have "engine_rollback ?e2 = (Inr (), rollback_state ?e2)"
    by (auto simp: wp_def split: prod.splits sum.splits)
  with run open1 show ?thesis by (simp add: rollback_state_def)
qed

theorem engine_rollback_restores_witness:
  "let e1 = snd (prepare_append_known 3 3 (new_engine 7)) in
   \<exists>t. engine_rollback (engine_run [OpAck Stage0 1 3, OpDecide 3] e1) = (Inr (), t) \<and>
      eng_frontiers t = (eng_frontiers (new_engine 7))\<lparr>fr_epoch := 1\<rparr> \<and> \<not> eng_active t"
proof -
  let ?e1 = "snd (prepare_append_known 3 3 (new_engine 7))"
  have "fst (engine_do (OpPrepareAppend 3 3) (new_engine 7)) = Inr ()" by code_simp
  then have "engine_do (OpPrepareAppend 3 3) (new_engine 7) = (Inr (), ?e1)"
    by (metis engine_do.simps(2) prod.collapse)
  from engine_rollback_restores [OF engine_reachable.start _ this, of "[OpAck Stage0 1 3, OpDecide 3]"]
  show ?thesis by (auto simp: Let_def new_engine_def empty_frontiers_def)
qed

lemma engine_commit_facts:
  assumes "engine_reachable h e" and "engine_commit e = (Inr ev, t)"
  shows "unat (e_target t) = unat (e_target e) + unat (tx_state_commit_count (eng_txn e))"
    and "unat (e_canonical t) = unat (e_canonical e) + unat (tx_publish_count (eng_txn e))"
    and "e_kind e = AppendKnown \<Longrightarrow> e_canonical t = e_canonical e \<and>
           unat (e_target t) = unat (e_target e) + unat (tx_evaluated_count (eng_txn e))"
    and "e_kind e \<noteq> AppendKnown \<Longrightarrow> unat (e_canonical t) = unat (e_target t) + 1"
    and "unat (e_epoch t) = unat (e_epoch e) + 1"
    and "ev = \<lparr> ce_epoch = e_epoch t, ce_canonical = e_canonical t, ce_target = e_target t,
           ce_newly_published = tx_publish_count (eng_txn e), ce_kind = e_kind e \<rparr>"
    and "\<not> eng_active t"
proof -
  have ok: "engine_ok e" using assms(1) by (rule reachable_engine_ok)
  from wp_returns [OF engine_commit_wp [OF ok] assms(2)]
  have pre: "eng_active e" "e_status e = Decided"
    and fits: "unat (e_canonical e) + unat (tx_publish_count (eng_txn e)) < 2 ^ 64"
    and ev: "ev = commit_event (committed_frontiers e) e"
    and t: "t = e\<lparr>eng_txn := (eng_txn e)\<lparr>tx_status := Committed\<rparr>,
              eng_frontiers := committed_frontiers e, eng_active := False\<rparr>" by auto
  note cnt = decided_counts [OF ok pre]
  have act: "active_ok e" using ok pre by (simp add: engine_okD)
  have ep: "e_epoch e \<noteq> u64_max" "tx_epoch (eng_txn e) = e_epoch e + 1"
    using act by (auto simp: active_ok_def Let_def)
  have tfits: "unat (e_target e) + unat (tx_state_commit_count (eng_txn e)) < 2 ^ 64"
    using cnt(1) fits by linarith
  show tgt: "unat (e_target t) = unat (e_target e) + unat (tx_state_commit_count (eng_txn e))"
    using tfits by (simp add: t committed_frontiers_def Let_def unat_u64_add)
  show can: "unat (e_canonical t) = unat (e_canonical e) + unat (tx_publish_count (eng_txn e))"
    using fits by (simp add: t committed_frontiers_def Let_def unat_u64_add)
  show "e_kind e \<noteq> AppendKnown \<Longrightarrow> unat (e_canonical t) = unat (e_target t) + 1"
    using cnt(3) tgt can by simp
  show "unat (e_epoch t) = unat (e_epoch e) + 1"
    using ep(1) by (simp add: t committed_frontiers_def Let_def unat_u64_Suc)
  show "ev = \<lparr> ce_epoch = e_epoch t, ce_canonical = e_canonical t, ce_target = e_target t,
           ce_newly_published = tx_publish_count (eng_txn e), ce_kind = e_kind e \<rparr>"
    by (simp add: ev commit_event_def t ep committed_frontiers_def Let_def)
  show "\<not> eng_active t" by (simp add: t)
  assume app: "e_kind e = AppendKnown"
  have "tx_state_commit_count (eng_txn e) = tx_evaluated_count (eng_txn e)"
    using act app pre by (auto simp: active_ok_def Let_def decide_publish_def split: if_splits)
  with tgt cnt(2) [OF app] show "e_canonical t = e_canonical e \<and>
      unat (e_target t) = unat (e_target e) + unat (tx_evaluated_count (eng_txn e))"
    by (simp add: t committed_frontiers_def Let_def)
qed

text \<open>
  C13: What a commit does. The target (and with it both stages) moves by exactly the decided
  count and the canonical end by exactly the published count, as unbounded arithmetic; an
  append publishes nothing and shrinks the pending range by its whole extent; decode and
  speculative transactions leave exactly one pending token; the epoch advances by one and the
  event reports the new frontiers.
\<close>

theorem engine_commit_exact:
  assumes "engine_reachable h e" and "engine_commit e = (Inr ev, t)"
  shows "unat (e_target t) = unat (e_target e) + unat (tx_state_commit_count (eng_txn e)) \<and>
    unat (e_canonical t) = unat (e_canonical e) + unat (tx_publish_count (eng_txn e)) \<and>
    (if e_kind e = AppendKnown
     then e_canonical t = e_canonical e \<and>
       unat (e_target t) = unat (e_target e) + unat (tx_evaluated_count (eng_txn e))
     else unat (e_canonical t) = unat (e_target t) + 1) \<and>
    unat (e_epoch t) = unat (e_epoch e) + 1 \<and>
    ev = \<lparr> ce_epoch = e_epoch t, ce_canonical = e_canonical t, ce_target = e_target t,
           ce_newly_published = tx_publish_count (eng_txn e), ce_kind = e_kind e \<rparr> \<and>
    \<not> eng_active t"
  using engine_commit_facts [OF assms] by (cases "e_kind e = AppendKnown") simp_all

theorem engine_commit_exact_witness:
  "let e = engine_run demo_spec (new_engine 7); t = snd (engine_commit e) in
   fst (engine_commit e) = Inr \<lparr> ce_epoch = 2, ce_canonical = 6, ce_target = 5,
     ce_newly_published = 2, ce_kind = Speculative \<rparr> \<and>
   unat (e_canonical t) = unat (e_target t) + 1"
proof -
  let ?e = "engine_run demo_spec (new_engine 7)"
  have f: "fst (engine_commit ?e) = Inr \<lparr> ce_epoch = 2, ce_canonical = 6, ce_target = 5,
     ce_newly_published = 2, ce_kind = Speculative \<rparr>" by code_simp
  have k: "e_kind ?e \<noteq> AppendKnown" by code_simp
  from f have "engine_commit ?e = (Inr \<lparr> ce_epoch = 2, ce_canonical = 6, ce_target = 5,
     ce_newly_published = 2, ce_kind = Speculative \<rparr>, snd (engine_commit ?e))"
    by (metis prod.collapse)
  from engine_commit_exact [OF engine_run_start this] k f show ?thesis by (simp add: Let_def)
qed

text \<open>
  Commit does not get stuck. Once a transaction is decided and both stages have
  acknowledged it, commit succeeds in every reachable state, unless the canonical frontier would
  exceed 64 bits; the remaining branches of the commit code that report an error are dead.
\<close>

theorem engine_commit_progress:
  assumes "engine_reachable h e" and "eng_active e" and "e_status e = Decided"
    and "eng_stage0_ack e" and "eng_stage1_ack e"
    and "unat (e_canonical e) + unat (tx_publish_count (eng_txn e)) < 2 ^ 64"
  shows "\<exists>ev t. engine_commit e = (Inr ev, t)"
proof -
  have "wp engine_commit (\<lambda>_ _. True) (\<lambda>_ _. False) e"
    by (rule wp_mono [OF engine_commit_wp [OF reachable_engine_ok [OF assms(1)]]])
       (use assms in auto)
  then show ?thesis by (auto simp: wp_def split: prod.splits sum.splits)
qed

theorem engine_commit_progress_witness:
  "\<exists>ev t. engine_commit (engine_run demo_append (new_engine 7)) = (Inr ev, t)"
proof -
  let ?e = "engine_run demo_append (new_engine 7)"
  have active: "eng_active ?e" by code_simp
  have status: "e_status ?e = Decided" by code_simp
  have ack0: "eng_stage0_ack ?e" by code_simp
  have ack1: "eng_stage1_ack ?e" by code_simp
  have canonical: "e_canonical ?e = 3" by code_simp
  have publish: "tx_publish_count (eng_txn ?e) = 0" by code_simp
  have "unat (e_canonical ?e) + unat (tx_publish_count (eng_txn ?e)) < 2 ^ 64"
    by (simp only: canonical publish) simp
  then show ?thesis by (rule engine_commit_progress [OF engine_run_start active status ack0 ack1])
qed

text \<open>
  Epochs are never reused. Outside of a session reset no call lowers the epoch; a successful
  commit or rollback raises it by exactly one, every other call leaves it alone, and a newly
  opened transaction carries an epoch strictly above the current one.
\<close>

theorem engine_epoch_monotone:
  assumes "engine_reachable h e" and "engine_step e op t" and "op \<noteq> OpReset"
  shows "(e_epoch t = e_epoch e \<or>
           (op = OpCommit \<or> op = OpRollback) \<and> unat (e_epoch t) = unat (e_epoch e) + 1) \<and>
         (eng_active t \<longrightarrow> unat (tx_epoch (eng_txn t)) = unat (e_epoch t) + 1)"
proof
  have ok: "engine_ok e" using assms(1) by (rule reachable_engine_ok)
  have "wp (engine_do op) (\<lambda>_ t. e_epoch t = e_epoch e \<or>
      (op = OpCommit \<or> op = OpRollback) \<and> unat (e_epoch t) = unat (e_epoch e) + 1)
      (\<lambda>_ t. t = e) e"
    using engine_epoch_do [OF ok assms(3)] .
  with assms(2) show "e_epoch t = e_epoch e \<or>
      (op = OpCommit \<or> op = OpRollback) \<and> unat (e_epoch t) = unat (e_epoch e) + 1"
    by (auto simp: engine_step_simps wp_def)
  show "eng_active t \<longrightarrow> unat (tx_epoch (eng_txn t)) = unat (e_epoch t) + 1"
    using active_epoch engine_step_ok [OF assms(2) ok] by blast
qed

theorem engine_epoch_monotone_witness:
  "let e = engine_run demo_append (new_engine 7); t = snd (engine_do OpRollback e) in
   e_epoch t = 1 \<and> (eng_active t \<longrightarrow> unat (tx_epoch (eng_txn t)) = unat (e_epoch t) + 1)"
proof -
  let ?e = "engine_run demo_append (new_engine 7)"
  have "e_epoch (snd (engine_do OpRollback ?e)) = 1" by code_simp
  with engine_epoch_monotone [OF engine_run_start engine_step_do, of OpRollback demo_append 7]
  show ?thesis by (simp add: Let_def)
qed

end
