(* ===== verification/Backend.thy ===== *)
theory Backend
  imports Contracts
begin

text \<open>
  The backend interface of \<^verbatim>\<open>include/q38/backend.h\<close>: the exceptions a stage may raise, the
  cooperative cancellation token with its atomic commit point, the boundary buffer, the stage
  input and output, and the virtual methods of \<open>StageBackend\<close> with the default bodies given in
  \<^verbatim>\<open>src/mock_backend.cc\<close>.

  \<^item> A token is shared by several threads. Its methods are sequences of atomic accesses; between
    any two of them the other threads may cancel and the steady clock may advance. Those events
    are the script \<open>tk_env\<close> of the token, one batch per atomic access, and the theorems hold for
    every script, so for every interleaving.
  \<^item> The virtual table of a backend is the record \<open>stage_backend_ops\<close>; the locale
    \<open>stage_backend\<close> is what the executor relies on, stated over a view of the backend's state.
\<close>

section \<open>Exceptions\<close>

datatype exn =
    ExecutionCancelled
  | ExecutionDeadlineExceeded
  | RuntimeError string
  | InvalidArgument string
  | LogicError string
  | LengthError string
  | OutOfRange
  | SystemError string
  | Diverges \<comment> \<open>the fuel of a modelled loop ran out; shown never to be raised\<close>

section \<open>The cancellation token\<close>

datatype TokenState = TkActive | TkCancelled | TkDeadline | TkSealed

datatype env_event = EnvCancel | EnvTick nat

record CancellationToken =
  tk_has_deadline :: bool
  tk_deadline :: nat \<comment> \<open>steady-clock nanoseconds\<close>
  tk_state :: TokenState
  tk_now :: nat
  tk_env :: "env_event list list"

definition new_token :: "u32 \<Rightarrow> nat \<Rightarrow> env_event list list \<Rightarrow> CancellationToken" where
  "new_token timeout_ms now env = \<lparr> tk_has_deadline = (timeout_ms \<noteq> 0),
     tk_deadline = now + unat timeout_ms * 1000000, tk_state = TkActive, tk_now = now,
     tk_env = env \<rparr>"

text \<open>\<open>state_.compare_exchange_strong(expected, desired)\<close>.\<close>

definition cas_state :: "TokenState \<Rightarrow> TokenState \<Rightarrow> (CancellationToken, exn, bool) M" where
  "cas_state expected desired = (\<lambda>t.
     if tk_state t = expected then (Inr True, t\<lparr>tk_state := desired\<rparr>) else (Inr False, t))"

definition request_cancel :: "(CancellationToken, exn, bool) M" where
  "request_cancel = cas_state TkActive TkCancelled"

definition token_sealed :: "CancellationToken \<Rightarrow> bool" where
  "token_sealed t \<longleftrightarrow> tk_state t = TkSealed"

text \<open>What the other threads and the clock do between two atomic accesses of this one.\<close>

fun apply_env :: "env_event list \<Rightarrow> CancellationToken \<Rightarrow> CancellationToken" where
  "apply_env [] t = t"
| "apply_env (EnvCancel # es) t = apply_env es (snd (request_cancel t))"
| "apply_env (EnvTick d # es) t = apply_env es (t\<lparr>tk_now := tk_now t + d\<rparr>)"

definition env_turn :: "(CancellationToken, exn, unit) M" where
  "env_turn = modifyM (\<lambda>t. case tk_env t of [] \<Rightarrow> t
     | batch # rest \<Rightarrow> apply_env batch (t\<lparr>tk_env := rest\<rparr>))"

definition expire_deadline :: "(CancellationToken, exn, unit) M" where
  "expire_deadline =
     thenM env_turn
    (whenM (\<lambda>t. tk_has_deadline t \<and> tk_deadline t \<le> tk_now t)
      (thenM env_turn
      (thenM (cas_state TkActive TkDeadline) (returnM ()))))"

definition throw_if_requested :: "(CancellationToken, exn, unit) M" where
  "throw_if_requested =
     thenM expire_deadline
    (thenM env_turn
    (bindM (getM tk_state) (\<lambda>state.
     if state = TkDeadline then throwM ExecutionDeadlineExceeded
     else if state = TkCancelled then throwM ExecutionCancelled
     else returnM ())))"

definition token_seal :: "(CancellationToken, exn, unit) M" where
  "token_seal =
     thenM throw_if_requested
    (thenM env_turn
    (bindM (cas_state TkActive TkSealed) (\<lambda>won.
     if won then returnM () else throw_if_requested)))"

text \<open>
  A worker's poll of the token it was handed: \<open>if (cancellation) cancellation->throw_if_requested()\<close>.
\<close>

definition poll :: "CancellationToken option \<Rightarrow> ('s, exn, CancellationToken option) M" where
  "poll c = (case c of None \<Rightarrow> returnM None
     | Some t \<Rightarrow> (case throw_if_requested t of
         (Inl e, t') \<Rightarrow> throwM e
       | (Inr _, t') \<Rightarrow> returnM (Some t')))"

subsection \<open>One winner\<close>

text \<open>
  Polling and other threads: the state only ever leaves \<open>TkActive\<close>, nobody but \<open>seal\<close> seals, and
  the clock never runs backwards.
\<close>

definition token_after :: "CancellationToken \<Rightarrow> CancellationToken \<Rightarrow> bool" where
  "token_after t t' \<longleftrightarrow> (tk_state t' = tk_state t \<or>
       tk_state t = TkActive \<and> (tk_state t' = TkCancelled \<or> tk_state t' = TkDeadline)) \<and> tk_now t \<le> tk_now t' \<and> tk_has_deadline t' = tk_has_deadline t \<and> tk_deadline t' = tk_deadline t"

lemma token_after_refl [simp]: "token_after t t"
  by (simp add: token_after_def)

lemma token_after_trans: "token_after t u \<Longrightarrow> token_after u v \<Longrightarrow> token_after t v"
  by (auto simp: token_after_def)

lemma apply_env_after: "token_after t (apply_env es t)"
proof (induction es t rule: apply_env.induct)
  case (2 es t)
  have "token_after t (snd (request_cancel t))"
    by (simp add: request_cancel_def cas_state_def token_after_def)
  then show ?case using 2 by (auto intro: token_after_trans)
next
  case (3 d es t)
  have "token_after t (t\<lparr>tk_now := tk_now t + d\<rparr>)" by (simp add: token_after_def)
  then show ?case using 3 by (auto intro: token_after_trans)
qed simp

lemma apply_env_states: "tk_state (apply_env es t) \<in> {tk_state t, TkCancelled}"
  by (induction es t rule: apply_env.induct)
     (auto simp: request_cancel_def cas_state_def split: if_splits)

lemma env_turn_wp: "wp env_turn (\<lambda>_ t'. token_after t t' \<and> tk_state t' \<in> {tk_state t, TkCancelled}) E t"
proof (cases "tk_env t")
  case (Cons batch rest)
  have "token_after t (apply_env batch (t\<lparr>tk_env := rest\<rparr>))"
    by (rule token_after_trans [OF _ apply_env_after]) (simp add: token_after_def)
  then show ?thesis
    using Cons apply_env_states [of batch "t\<lparr>tk_env := rest\<rparr>"]
    by (simp add: env_turn_def wp_simps)
qed (simp add: env_turn_def wp_simps)

lemma cas_state_wp:
  "wp (cas_state a b) Q E t =
     (if tk_state t = a then Q True (t\<lparr>tk_state := b\<rparr>) else Q False t)"
  by (simp add: cas_state_def wp_def)

lemma env_turn_mono:
  assumes "\<And>t'. token_after t t' \<Longrightarrow> tk_state t' \<in> {tk_state t, TkCancelled} \<Longrightarrow> Q () t'"
  shows "wp env_turn Q E t"
  by (rule wp_mono [OF env_turn_wp]) (use assms in auto)

lemma expire_deadline_wp:
  "wp expire_deadline (\<lambda>_ t'. token_after t t' \<and>
      (tk_has_deadline t \<and> tk_deadline t \<le> tk_now t \<longrightarrow> tk_state t' \<noteq> TkActive))
     (\<lambda>_ _. False) t"
proof -
  have cas: "wp (thenM (cas_state TkActive TkDeadline) (returnM ()))
      (\<lambda>_ t'. token_after t t' \<and> tk_state t' \<noteq> TkActive) (\<lambda>_ _. False) v"
    if "token_after t v" for v
    using that by (auto simp: wp_simps cas_state_wp token_after_def)
  have late: "wp (thenM env_turn (thenM (cas_state TkActive TkDeadline) (returnM ())))
      (\<lambda>_ t'. token_after t t' \<and> tk_state t' \<noteq> TkActive) (\<lambda>_ _. False) u"
    if "token_after t u" for u
    unfolding wp_thenM [of env_turn]
    by (rule env_turn_mono) (rule cas [OF token_after_trans [OF that]])
  show ?thesis
    unfolding expire_deadline_def wp_thenM [of env_turn "whenM _ _"] wp_whenM
  proof (rule env_turn_mono)
    fix u
    assume u: "token_after t u"
    then have "tk_has_deadline t \<and> tk_deadline t \<le> tk_now t \<Longrightarrow>
        tk_has_deadline u \<and> tk_deadline u \<le> tk_now u"
      by (auto simp: token_after_def)
    then show "if tk_has_deadline u \<and> tk_deadline u \<le> tk_now u
        then wp (thenM env_turn (thenM (cas_state TkActive TkDeadline) (returnM ())))
          (\<lambda>_ t'. token_after t t' \<and>
             (tk_has_deadline t \<and> tk_deadline t \<le> tk_now t \<longrightarrow> tk_state t' \<noteq> TkActive)) (\<lambda>_ _. False) u
        else token_after t u \<and>
          (tk_has_deadline t \<and> tk_deadline t \<le> tk_now t \<longrightarrow> tk_state u \<noteq> TkActive)"
      using u wp_mono [OF late [OF u]] by auto
  qed
qed

text \<open>
  Polling: it returns only on a token that is neither cancelled nor expired, it raises the
  exception of the state it found, and it cannot miss a deadline that has passed.
\<close>

lemma throw_if_requested_wp:
  "wp throw_if_requested
     (\<lambda>_ t'. token_after t t' \<and> (tk_state t' = TkActive \<or> tk_state t' = TkSealed) \<and>
        (tk_has_deadline t \<and> tk_deadline t \<le> tk_now t \<longrightarrow> tk_state t' = TkSealed))
     (\<lambda>e t'. token_after t t' \<and>
        (e = ExecutionDeadlineExceeded \<and> tk_state t' = TkDeadline \<or>
         e = ExecutionCancelled \<and> tk_state t' = TkCancelled)) t"
proof -
  have read: "wp (bindM (getM tk_state) (\<lambda>state.
       if state = TkDeadline then throwM ExecutionDeadlineExceeded
       else if state = TkCancelled then throwM ExecutionCancelled else returnM ()))
     (\<lambda>_ t'. token_after t t' \<and> (tk_state t' = TkActive \<or> tk_state t' = TkSealed) \<and>
        (tk_has_deadline t \<and> tk_deadline t \<le> tk_now t \<longrightarrow> tk_state t' = TkSealed))
     (\<lambda>e t'. token_after t t' \<and>
        (e = ExecutionDeadlineExceeded \<and> tk_state t' = TkDeadline \<or>
         e = ExecutionCancelled \<and> tk_state t' = TkCancelled)) v"
    if "token_after t v" "tk_has_deadline t \<and> tk_deadline t \<le> tk_now t \<longrightarrow> tk_state v \<noteq> TkActive" for v
    using that by (cases "tk_state v") (auto simp: wp_simps)
  show ?thesis
    unfolding throw_if_requested_def
  proof (rule wp_thenI [OF expire_deadline_wp])
    fix u
    assume u: "token_after t u \<and>
      (tk_has_deadline t \<and> tk_deadline t \<le> tk_now t \<longrightarrow> tk_state u \<noteq> TkActive)"
    show "wp (thenM env_turn (bindM (getM tk_state) (\<lambda>state.
       if state = TkDeadline then throwM ExecutionDeadlineExceeded
       else if state = TkCancelled then throwM ExecutionCancelled else returnM ())))
     (\<lambda>_ t'. token_after t t' \<and> (tk_state t' = TkActive \<or> tk_state t' = TkSealed) \<and>
        (tk_has_deadline t \<and> tk_deadline t \<le> tk_now t \<longrightarrow> tk_state t' = TkSealed))
     (\<lambda>e t'. token_after t t' \<and>
        (e = ExecutionDeadlineExceeded \<and> tk_state t' = TkDeadline \<or>
         e = ExecutionCancelled \<and> tk_state t' = TkCancelled)) u"
      by (rule wp_thenI [OF env_turn_wp [where E = "\<lambda>_ _. False"] read])
         (use u in \<open>auto intro: token_after_trans\<close>)
  qed simp
qed

lemma token_seal_wp:
  "wp token_seal
     (\<lambda>_ t'. tk_state t' = TkSealed)
     (\<lambda>e t'. token_after t t' \<and>
        (e = ExecutionDeadlineExceeded \<and> tk_state t' = TkDeadline \<or>
         e = ExecutionCancelled \<and> tk_state t' = TkCancelled)) t"
proof -
  let ?E = "\<lambda>e t'. token_after t t' \<and>
        (e = ExecutionDeadlineExceeded \<and> tk_state t' = TkDeadline \<or>
         e = ExecutionCancelled \<and> tk_state t' = TkCancelled)"
  let ?Q = "\<lambda>_ t'. tk_state t' = TkSealed"
  have again: "wp throw_if_requested ?Q ?E v" if "token_after t v" "tk_state v \<noteq> TkActive" for v
    by (rule wp_mono [OF throw_if_requested_wp [of v]])
       (use that in \<open>auto elim: token_after_trans simp: token_after_def\<close>)
  have cas: "wp (bindM (cas_state TkActive TkSealed)
      (\<lambda>won. if won then returnM () else throw_if_requested)) ?Q ?E v"
    if "token_after t v" for v
    using that again [OF that] by (auto simp: wp_simps cas_state_wp token_after_def)
  show ?thesis
    unfolding token_seal_def
  proof (rule wp_thenI [OF throw_if_requested_wp])
    fix u
    assume u: "token_after t u \<and> (tk_state u = TkActive \<or> tk_state u = TkSealed) \<and>
        (tk_has_deadline t \<and> tk_deadline t \<le> tk_now t \<longrightarrow> tk_state u = TkSealed)"
    show "wp (thenM env_turn (bindM (cas_state TkActive TkSealed)
      (\<lambda>won. if won then returnM () else throw_if_requested))) ?Q ?E u"
      by (rule wp_thenI [OF env_turn_wp [where E = "\<lambda>_ _. False"] cas])
         (use u in \<open>auto intro: token_after_trans\<close>)
  qed simp
qed

lemma poll_wp:
  "wp (poll c) (\<lambda>_ s'. s' = s)
     (\<lambda>e s'. s' = s \<and> (e = ExecutionDeadlineExceeded \<or> e = ExecutionCancelled)) s"
proof (cases c)
  case (Some t)
  show ?thesis
    using throw_if_requested_wp [of t]
    by (auto simp: Some poll_def wp_def throwM_def returnM_def split: prod.splits sum.splits)
qed (simp add: poll_def wp_simps)

lemma pure_poll: "pure_op (poll c)"
  unfolding keeps_def by (auto intro: wp_mono [OF poll_wp])

text \<open>A token nobody disturbs: no script left, not cancelled, no deadline that has passed.\<close>

definition quiet_token :: "CancellationToken \<Rightarrow> bool" where
  "quiet_token t \<longleftrightarrow> tk_env t = [] \<and> (tk_state t = TkActive \<or> tk_state t = TkSealed) \<and>
     (tk_has_deadline t \<longrightarrow> tk_now t < tk_deadline t)"

definition quiet :: "CancellationToken option \<Rightarrow> bool" where
  "quiet c \<longleftrightarrow> (case c of None \<Rightarrow> True | Some t \<Rightarrow> quiet_token t)"

lemma throw_if_requested_quiet: "quiet_token t \<Longrightarrow> throw_if_requested t = (Inr (), t)"
  by (auto simp: quiet_token_def throw_if_requested_def expire_deadline_def env_turn_def run_simps
      not_le)

lemma token_seal_quiet:
  "quiet_token t \<Longrightarrow> token_seal t = (Inr (), t\<lparr>tk_state := TkSealed\<rparr>)"
  using throw_if_requested_quiet [of t]
  by (auto simp: token_seal_def thenM_def bindM_def env_turn_def modifyM_def cas_state_def
      quiet_token_def returnM_def)

lemma poll_quiet: "quiet c \<Longrightarrow> poll c s = (Inr c, s)"
  by (auto simp: quiet_def poll_def throw_if_requested_quiet run_simps split: option.splits)

section \<open>Stage inputs and outputs\<close>

definition kMaximumMtpDraftWidth :: u32 where "kMaximumMtpDraftWidth = 64"

text \<open>A lease of a pinned ring slot: its words, its checksum, and how waiting for it ends.\<close>

record BoundaryLease =
  bl_data :: "u16 list"
  bl_ready :: "exn + unit"
  bl_slot :: u32
  bl_payload_checksum :: u64

record BoundaryBuffer =
  bb_frame :: StageBoundaryFrame
  bb_bf16 :: "u16 list"
  bb_lease :: "BoundaryLease option"

definition empty_boundary_buffer :: BoundaryBuffer where
  "empty_boundary_buffer = \<lparr> bb_frame = empty_boundary_frame, bb_bf16 = [], bb_lease = None \<rparr>"

definition buffer_data :: "BoundaryBuffer \<Rightarrow> u16 list" where
  "buffer_data b = (case bb_lease b of Some l \<Rightarrow> bl_data l | None \<Rightarrow> bb_bf16 b)"

definition buffer_size :: "BoundaryBuffer \<Rightarrow> nat" where
  "buffer_size b = (case bb_lease b of Some l \<Rightarrow> length (bl_data l) | None \<Rightarrow> length (bb_bf16 b))"

definition buffer_wait_ready :: "BoundaryBuffer \<Rightarrow> exn + unit" where
  "buffer_wait_ready b = (case bb_lease b of Some l \<Rightarrow> bl_ready l | None \<Rightarrow> Inr ())"

definition buffer_payload_checksum :: "BoundaryBuffer \<Rightarrow> u64" where
  "buffer_payload_checksum b = (case bb_lease b of Some l \<Rightarrow> bl_payload_checksum l
     | None \<Rightarrow> boundary_payload_checksum (bb_bf16 b))"

record StageInput =
  in_txn :: SessionTxn
  in_token_ids :: "i32 list"
  in_boundary :: BoundaryBuffer
  in_chunk_offset :: u32
  in_final_chunk :: bool
  in_need_logits :: bool
  in_cancellation :: "CancellationToken option"

record StageOutput =
  out_boundary :: BoundaryBuffer
  out_state_commit_count :: u32
  out_next_token :: i32
  out_state_digest :: u64
  out_logits_bf16 :: "u16 list"

definition empty_output :: StageOutput where
  "empty_output = \<lparr> out_boundary = empty_boundary_buffer, out_state_commit_count = 0,
     out_next_token = - 1, out_state_digest = 0, out_logits_bf16 = [] \<rparr>"

text \<open>
  The counters of \<open>StageBackendMetricsV1\<close> that the CPU backends keep; the other fifty-four
  belong to the device backends and the PLE store.
\<close>

record StageBackendMetrics =
  sm_execute_calls :: u64
  sm_execute_tokens :: u64
  sm_commits :: u64
  sm_rollbacks :: u64

definition empty_stage_metrics :: StageBackendMetrics where
  "empty_stage_metrics = \<lparr> sm_execute_calls = 0, sm_execute_tokens = 0, sm_commits = 0,
     sm_rollbacks = 0 \<rparr>"

section \<open>The virtual methods of a backend\<close>

record 'b stage_backend_ops =
  op_stage :: "'b \<Rightarrow> Stage"
  op_prefetch_transaction :: "SessionTxn \<Rightarrow> i32 list \<Rightarrow> CancellationToken option \<Rightarrow> ('b, exn, unit) M"
  op_execute :: "StageInput \<Rightarrow> ('b, exn, StageOutput) M"
  op_draft :: "i32 \<Rightarrow> u64 \<Rightarrow> u32 \<Rightarrow> CancellationToken option \<Rightarrow> ('b, exn, i32 list) M"
  op_draft_retained ::
    "i32 \<Rightarrow> u64 \<Rightarrow> u32 \<Rightarrow> u64 \<Rightarrow> CancellationToken option \<Rightarrow> ('b, exn, i32 list) M"
  op_checkpoint_speculative_prefix :: "u64 \<Rightarrow> u32 \<Rightarrow> ('b, exn, unit) M"
  op_reconcile_retained_draft :: "u64 \<Rightarrow> u32 \<Rightarrow> ('b, exn, unit) M"
  op_abandon_retained_draft :: "u64 \<Rightarrow> ('b, exn, unit) M"
  op_commit :: "u64 \<Rightarrow> u32 \<Rightarrow> ('b, exn, unit) M"
  op_rollback :: "u64 \<Rightarrow> ('b, exn, unit) M"
  op_reset_session :: "('b, exn, unit) M"
  op_metrics :: "'b \<Rightarrow> StageBackendMetrics"

text \<open>The bodies a backend inherits when it does not override a method.\<close>

definition default_prefetch_transaction ::
    "SessionTxn \<Rightarrow> i32 list \<Rightarrow> CancellationToken option \<Rightarrow> ('b, exn, unit) M" where
  "default_prefetch_transaction txn token_ids cancellation =
     thenM (poll cancellation) (returnM ())"

definition default_draft ::
    "i32 \<Rightarrow> u64 \<Rightarrow> u32 \<Rightarrow> CancellationToken option \<Rightarrow> ('b, exn, i32 list) M" where
  "default_draft pending_token position max_draft cancellation =
     throwM (RuntimeError ''draft is only valid on the final stage'')"

definition default_draft_retained ::
    "(i32 \<Rightarrow> u64 \<Rightarrow> u32 \<Rightarrow> CancellationToken option \<Rightarrow> ('b, exn, i32 list) M) \<Rightarrow>
     i32 \<Rightarrow> u64 \<Rightarrow> u32 \<Rightarrow> u64 \<Rightarrow> CancellationToken option \<Rightarrow> ('b, exn, i32 list) M" where
  "default_draft_retained draft pending_token position max_draft transaction_epoch cancellation =
     thenM (failIf (\<lambda>_. max_draft = 0 \<or> transaction_epoch = 0)
              (InvalidArgument ''retained draft extent is invalid''))
           (draft pending_token position max_draft cancellation)"

definition default_abandon_retained_draft :: "u64 \<Rightarrow> ('b, exn, unit) M" where
  "default_abandon_retained_draft epo = returnM ()"

definition default_checkpoint_speculative_prefix :: "u64 \<Rightarrow> u32 \<Rightarrow> ('b, exn, unit) M" where
  "default_checkpoint_speculative_prefix epo prefix_tokens = returnM ()"

definition default_reconcile_retained_draft :: "u64 \<Rightarrow> u32 \<Rightarrow> ('b, exn, unit) M" where
  "default_reconcile_retained_draft epo target_row = returnM ()"

definition default_reset_session :: "('b, exn, unit) M" where
  "default_reset_session = throwM (LogicError ''backend does not support session reset'')"

definition default_metrics :: "'b \<Rightarrow> StageBackendMetrics" where
  "default_metrics b = empty_stage_metrics"

section \<open>The backend contract\<close>

text \<open>
  What a backend's state means to the coordinator: the frontier and epoch it has committed, the
  last speculative checkpoint, and the provisional transaction it has open, if any.
\<close>

record provisional =
  pv_epoch :: u64
  pv_base :: u64
  pv_expected :: u32
  pv_processed :: u32
  pv_kind :: TxnKind

record backend_view =
  bv_frontier :: u64
  bv_epoch :: u64
  bv_checkpoint :: u32
  bv_open :: "provisional option"

definition chunk_count :: "StageInput \<Rightarrow> u32" where
  "chunk_count inp = word_of_nat (length (in_token_ids inp))"

definition chunk_accepted :: "backend_view \<Rightarrow> StageInput \<Rightarrow> bool" where
  "chunk_accepted v inp \<longleftrightarrow> chunk_count inp \<noteq> 0 \<and>
     in_chunk_offset inp \<le> tx_evaluated_count (in_txn inp) \<and>
     chunk_count inp \<le> tx_evaluated_count (in_txn inp) - in_chunk_offset inp \<and>
     (case bv_open v of
        None \<Rightarrow> bv_epoch v < tx_epoch (in_txn inp) \<and> in_chunk_offset inp = 0 \<and>
          tx_base_target (in_txn inp) = bv_frontier v
      | Some p \<Rightarrow> pv_epoch p = tx_epoch (in_txn inp) \<and> pv_base p = tx_base_target (in_txn inp) \<and>
          pv_expected p = tx_evaluated_count (in_txn inp) \<and> pv_kind p = tx_kind (in_txn inp) \<and>
          pv_processed p = in_chunk_offset inp)"

definition chunk_advanced :: "backend_view \<Rightarrow> StageInput \<Rightarrow> backend_view" where
  "chunk_advanced v inp = v\<lparr>bv_open := Some \<lparr> pv_epoch = tx_epoch (in_txn inp),
     pv_base = tx_base_target (in_txn inp), pv_expected = tx_evaluated_count (in_txn inp),
     pv_processed = in_chunk_offset inp + chunk_count inp, pv_kind = tx_kind (in_txn inp) \<rparr>\<rparr>"

text \<open>When a commit of \<open>n\<close> rows must succeed: the transaction is complete, or it is speculative
  and the backend stands at the prefix or one checkpointed row beyond it.\<close>

definition commit_ready :: "backend_view \<Rightarrow> u64 \<Rightarrow> u32 \<Rightarrow> bool" where
  "commit_ready v epo n \<longleftrightarrow> (case bv_open v of None \<Rightarrow> False | Some p \<Rightarrow>
     pv_epoch p = epo \<and> n \<noteq> 0 \<and> n \<le> pv_processed p \<and>
     (pv_processed p = pv_expected p \<or>
      pv_kind p = Speculative \<and> (pv_processed p = n \<or>
        pv_processed p = n + 1 \<and> bv_checkpoint v = n)))"

definition rollback_ready :: "backend_view \<Rightarrow> u64 \<Rightarrow> bool" where
  "rollback_ready v epo \<longleftrightarrow> (case bv_open v of None \<Rightarrow> bv_epoch v < epo | Some p \<Rightarrow> pv_epoch p = epo)"

definition view_idle :: "backend_view \<Rightarrow> u64 \<Rightarrow> u64 \<Rightarrow> bool" where
  "view_idle v frontier epo \<longleftrightarrow> bv_frontier v = frontier \<and> bv_epoch v = epo \<and> bv_open v = None"

locale stage_backend =
  fixes ops :: "'b stage_backend_ops" and view :: "'b \<Rightarrow> backend_view"
  assumes execute_law:
      "wp (op_execute ops inp)
         (\<lambda>_ b'. chunk_accepted (view b) inp \<and> view b' = chunk_advanced (view b) inp)
         (\<lambda>_ b'. view b' = view b \<or>
            chunk_accepted (view b) inp \<and> view b' = chunk_advanced (view b) inp) b"
    and prefetch_law:
      "wp (op_prefetch_transaction ops txn ts c)
         (\<lambda>_ b'. view b' = view b) (\<lambda>_ b'. view b' = view b) b"
    and draft_retained_law:
      "wp (op_draft_retained ops t p n e c)
         (\<lambda>_ b'. view b' = view b) (\<lambda>_ b'. view b' = view b) b"
    and checkpoint_law:
      "wp (op_checkpoint_speculative_prefix ops e n)
         (\<lambda>_ b'. view b' = (view b)\<lparr>bv_checkpoint := n\<rparr>) (\<lambda>_ b'. view b' = view b) b"
    and reconcile_law:
      "wp (op_reconcile_retained_draft ops e n)
         (\<lambda>_ b'. view b' = view b) (\<lambda>_ b'. view b' = view b) b"
    and commit_law:
      "commit_ready (view b) e n \<Longrightarrow>
       wp (op_commit ops e n)
         (\<lambda>_ b'. view_idle (view b') (pv_base (the (bv_open (view b))) + ucast n) e)
         (\<lambda>_ _. False) b"
    and rollback_law:
      "rollback_ready (view b) e \<Longrightarrow>
       wp (op_rollback ops e) (\<lambda>_ b'. view_idle (view b') (bv_frontier (view b)) e)
         (\<lambda>_ _. False) b"
    and reset_law:
      "bv_open (view b) = None \<Longrightarrow>
       wp (op_reset_session ops) (\<lambda>_ b'. view_idle (view b') 0 0) (\<lambda>_ _. False) b"

section \<open>Properties of the token\<close>

text \<open>
  Sealing is the atomic commit point. Under every interleaving with cancellers and the
  clock, \<open>seal\<close> returns only with the token sealed and raises exactly the exception of the state
  that won; and once the token is sealed no later poll raises, no cancellation succeeds and the
  seal is never undone.
\<close>

theorem token_seal_exclusive:
  "(case token_seal t of
      (Inr _, t') \<Rightarrow> tk_state t' = TkSealed \<and>
        fst (request_cancel t') = Inr False \<and>
        (case throw_if_requested t' of (r, u) \<Rightarrow> r = Inr () \<and> tk_state u = TkSealed)
    | (Inl e, t') \<Rightarrow> tk_state t' \<noteq> TkSealed \<and>
        (tk_state t' = TkDeadline \<and> e = ExecutionDeadlineExceeded \<or>
         tk_state t' = TkCancelled \<and> e = ExecutionCancelled))"
proof -
  have "fst (throw_if_requested u) = Inr () \<and> tk_state (snd (throw_if_requested u)) = TkSealed"
    if "tk_state u = TkSealed" for u
    using throw_if_requested_wp [of u] that
    by (auto simp: wp_def token_after_def split: prod.splits sum.splits)
  then show ?thesis
    using token_seal_wp [of t]
    by (fastforce simp: wp_def request_cancel_def cas_state_def split: prod.splits sum.splits)
qed

text \<open>
  A poll never misses a deadline: if the deadline has passed and the token is not sealed,
  polling raises, whatever the other threads do meanwhile.
\<close>

theorem token_deadline_enforced:
  assumes "tk_has_deadline t" and "tk_deadline t \<le> tk_now t" and "tk_state t \<noteq> TkSealed"
  shows "fst (throw_if_requested t) \<in> {Inl ExecutionDeadlineExceeded, Inl ExecutionCancelled}"
  using throw_if_requested_wp [of t] assms
  by (auto simp: wp_def token_after_def split: prod.splits sum.splits)

theorem token_deadline_enforced_witness:
  "fst (throw_if_requested ((new_token 5 0 [])\<lparr>tk_now := 5000000\<rparr>)) = Inl ExecutionDeadlineExceeded"
proof -
  let ?t = "(new_token 5 0 [])\<lparr>tk_now := 5000000\<rparr>"
  have "fst (throw_if_requested ?t) \<in> {Inl ExecutionDeadlineExceeded, Inl ExecutionCancelled}"
    by (rule token_deadline_enforced) (simp_all add: new_token_def)
  moreover have "fst (throw_if_requested ?t) \<noteq> Inl ExecutionCancelled"
    by (simp add: new_token_def throw_if_requested_def expire_deadline_def env_turn_def
        cas_state_def run_simps)
  ultimately show ?thesis by blast
qed

end
