(* ===== verification/MockBackend.thy ===== *)
theory MockBackend
  imports Backend
begin

text \<open>
  The CPU reference backend of \<^verbatim>\<open>src/mock_backend.cc\<close>: a deterministic next-token model that
  keeps a committed frontier and one provisional transaction, with every check of the real
  stages. The theory models all its methods, shows that they implement the backend contract
  \<open>stage_backend\<close>, and characterises the tokens that verification accepts.
\<close>

section \<open>State\<close>

record mock_backend =
  mb_stage :: Stage
  mb_hidden_width :: u32
  mb_vocab_size :: u32
  mb_committed_frontier :: u64
  mb_committed_epoch :: u64
  mb_provisional_epoch :: u64
  mb_provisional_base :: u64
  mb_provisional_expected :: u32
  mb_provisional_processed :: u32
  mb_provisional_kind :: TxnKind
  mb_provisional_digest :: u64
  mb_provisional_tokens :: "i32 list"
  mb_speculative_checkpoint :: u32
  mb_metrics :: StageBackendMetrics

type_synonym 'a mockM = "(mock_backend, exn, 'a) M"

definition new_mock_backend :: "Stage \<Rightarrow> u32 \<Rightarrow> u32 \<Rightarrow> exn + mock_backend" where
  "new_mock_backend stage hidden_width vocab_size =
     (if hidden_width = 0 \<or> vocab_size = 0
      then Inl (InvalidArgument ''mock backend dimensions must be nonzero'')
      else Inr \<lparr> mb_stage = stage, mb_hidden_width = hidden_width, mb_vocab_size = vocab_size,
        mb_committed_frontier = 0, mb_committed_epoch = 0, mb_provisional_epoch = 0,
        mb_provisional_base = 0, mb_provisional_expected = 0, mb_provisional_processed = 0,
        mb_provisional_kind = KindInvalid, mb_provisional_digest = 0, mb_provisional_tokens = [],
        mb_speculative_checkpoint = 0, mb_metrics = empty_stage_metrics \<rparr>)"

section \<open>Pure helpers\<close>

definition mock_mix :: "u64 \<Rightarrow> u64" where
  "mock_mix value =
     (let value = value XOR drop_bit 30 value;
          value = value * 0xbf58476d1ce4e5b9;
          value = value XOR drop_bit 27 value;
          value = value * 0x94d049bb133111eb
      in value XOR drop_bit 31 value)"

fun digest_tokens :: "i32 list \<Rightarrow> u64 \<Rightarrow> u64" where
  "digest_tokens [] digest = digest"
| "digest_tokens (token # tokens) digest = digest_tokens tokens (mock_mix (digest XOR ucast token))"

text \<open>Rounding of the IEEE single with the given bit pattern to bfloat16.\<close>

definition float_to_bf16 :: "u32 \<Rightarrow> u16" where
  "float_to_bf16 bits =
     (let rounding = 0x7fff + (drop_bit 16 bits AND 1) in ucast (drop_bit 16 (bits + rounding)))"

definition mock_predict :: "u32 \<Rightarrow> i32 \<Rightarrow> u64 \<Rightarrow> i32" where
  "mock_predict vocab_size token position =
     ucast (mock_mix (ucast token XOR (position * 0x9e3779b97f4a7c15)) mod ucast vocab_size)"

fun stage_byte :: "Stage \<Rightarrow> u64" where
  "stage_byte Stage0 = 0"
| "stage_byte Stage1 = 1"

section \<open>Executing a chunk\<close>

definition mock_check_input :: "StageInput \<Rightarrow> unit mockM" where
  "mock_check_input inp =
     thenM (failIf (\<lambda>_. tx_magic (in_txn inp) \<noteq> kTxnMagic \<or> tx_version (in_txn inp) \<noteq> kContractVersion \<or>
              tx_status (in_txn inp) \<noteq> Prepared)
              (RuntimeError ''backend received an invalid transaction''))
    (thenM (failIf (\<lambda>_. chunk_count inp = 0 \<or> in_chunk_offset inp > tx_evaluated_count (in_txn inp) \<or>
              chunk_count inp > tx_evaluated_count (in_txn inp) - in_chunk_offset inp \<or>
              in_final_chunk inp \<noteq>
                (in_chunk_offset inp + chunk_count inp = tx_evaluated_count (in_txn inp)))
              (RuntimeError ''backend received an invalid chunk extent''))
           (modifyM (mb_metrics_update (\<lambda>m. m\<lparr>sm_execute_calls := sm_execute_calls m + 1,
              sm_execute_tokens := sm_execute_tokens m + ucast (chunk_count inp)\<rparr>))))"

definition mock_open :: "StageInput \<Rightarrow> unit mockM" where
  "mock_open inp =
     bindM (getM (\<lambda>b. mb_provisional_epoch b = 0)) (\<lambda>first.
     if first then
       thenM (failIf (\<lambda>b. tx_epoch (in_txn inp) \<le> mb_committed_epoch b \<or> in_chunk_offset inp \<noteq> 0 \<or>
                tx_base_target (in_txn inp) \<noteq> mb_committed_frontier b)
                (RuntimeError ''backend transaction epoch/frontier is not monotonic''))
             (modifyM (\<lambda>b. b\<lparr>mb_provisional_epoch := tx_epoch (in_txn inp),
                mb_provisional_base := tx_base_target (in_txn inp),
                mb_provisional_expected := tx_evaluated_count (in_txn inp),
                mb_provisional_processed := 0,
                mb_provisional_kind := tx_kind (in_txn inp),
                mb_provisional_tokens := [],
                mb_provisional_digest := tx_epoch (in_txn inp) XOR stage_byte (mb_stage b)\<rparr>))
     else
       failIf (\<lambda>b. tx_epoch (in_txn inp) \<noteq> mb_provisional_epoch b \<or>
           tx_base_target (in_txn inp) \<noteq> mb_provisional_base b \<or>
           tx_evaluated_count (in_txn inp) \<noteq> mb_provisional_expected b \<or>
           tx_kind (in_txn inp) \<noteq> mb_provisional_kind b \<or>
           in_chunk_offset inp \<noteq> mb_provisional_processed b)
         (RuntimeError ''backend chunk is not the next provisional range''))"

definition mock_absorb :: "StageInput \<Rightarrow> mock_backend \<Rightarrow> mock_backend" where
  "mock_absorb inp b = b\<lparr>
     mb_provisional_digest := digest_tokens (in_token_ids inp) (mb_provisional_digest b),
     mb_provisional_tokens := mb_provisional_tokens b @ in_token_ids inp,
     mb_provisional_processed := mb_provisional_processed b + chunk_count inp\<rparr>"

text \<open>Row \<open>row\<close> of the boundary payload: one word repeated over the hidden width.\<close>

definition mock_row_word :: "mock_backend \<Rightarrow> StageInput \<Rightarrow> nat \<Rightarrow> u16" where
  "mock_row_word b inp row = ucast (mock_mix (mb_provisional_digest b XOR tx_base_target (in_txn inp)
     XOR ucast (in_chunk_offset inp) XOR word_of_nat row))"

definition mock_payload :: "mock_backend \<Rightarrow> StageInput \<Rightarrow> u16 list" where
  "mock_payload b inp = concat (map (\<lambda>row.
     replicate (unat (mb_hidden_width b)) (mock_row_word b inp row)) [0..<unat (chunk_count inp)])"

definition mock_boundary :: "mock_backend \<Rightarrow> StageInput \<Rightarrow> BoundaryBuffer" where
  "mock_boundary b inp =
     (let count = chunk_count inp;
          words = mock_payload b inp;
          frame = empty_boundary_frame\<lparr>
            bf_session_hash := tx_session_hash (in_txn inp),
            bf_epoch := tx_epoch (in_txn inp),
            bf_token_start := tx_base_target (in_txn inp) + ucast (in_chunk_offset inp),
            bf_token_count := count,
            bf_hidden_dtype := BFloat16,
            bf_producer_status := ProducerReady,
            bf_hidden_width := mb_hidden_width b,
            bf_ring_slot := ucast (tx_epoch (in_txn inp) mod 3),
            bf_payload_bytes := ucast (mb_hidden_width b) * ucast count * 2,
            bf_payload_checksum := boundary_payload_checksum words\<rparr>
      in \<lparr> bb_frame = frame, bb_bf16 = words, bb_lease = None \<rparr>)"

definition mock_execute_stage0 :: "StageInput \<Rightarrow> CancellationToken option \<Rightarrow> StageOutput mockM" where
  "mock_execute_stage0 inp c =
     bindM (getM (\<lambda>b. empty_output\<lparr>out_state_digest := mb_provisional_digest b,
        out_boundary := mock_boundary b inp,
        out_state_commit_count := mb_provisional_processed b\<rparr>)) (\<lambda>output.
     thenM (poll c) (returnM output))"

definition mock_check_boundary :: "StageInput \<Rightarrow> mock_backend \<Rightarrow> exn + unit" where
  "mock_check_boundary inp b =
     (let frame = bb_frame (in_boundary inp) in
      case validate_boundary frame (chunk_count inp) of
        Inl err \<Rightarrow> Inl (RuntimeError (''stage1 rejected boundary: '' @ err))
      | Inr _ \<Rightarrow>
        (case buffer_wait_ready (in_boundary inp) of
           Inl e \<Rightarrow> Inl e
         | Inr _ \<Rightarrow>
           if buffer_payload_checksum (in_boundary inp) \<noteq> bf_payload_checksum frame
             then Inl (RuntimeError ''stage1 boundary checksum mismatch'')
           else if bf_epoch frame \<noteq> tx_epoch (in_txn inp) \<or>
               bf_token_start frame \<noteq> tx_base_target (in_txn inp) + ucast (in_chunk_offset inp) \<or>
               buffer_size (in_boundary inp) \<noteq> unat (mb_hidden_width b) * unat (chunk_count inp)
             then Inl (RuntimeError ''stage1 boundary identity mismatch'')
           else Inr ()))"

text \<open>The acceptance loop: how many of the provisional tokens the model agrees with, the first
  one (already canonical) included.\<close>

fun mock_accept_loop :: "u32 \<Rightarrow> u64 \<Rightarrow> u64 \<Rightarrow> i32 \<Rightarrow> i32 list \<Rightarrow> u32 \<Rightarrow> u32" where
  "mock_accept_loop vocab base i prev [] committed = committed"
| "mock_accept_loop vocab base i prev (t # ts) committed =
     (if t \<noteq> mock_predict vocab prev (base + i) then committed
      else mock_accept_loop vocab base (i + 1) t ts (committed + 1))"

fun mock_accepted :: "u32 \<Rightarrow> u64 \<Rightarrow> i32 list \<Rightarrow> u32" where
  "mock_accepted vocab base [] = 1"
| "mock_accepted vocab base (t # ts) = mock_accept_loop vocab base 1 t ts 1"

definition mock_logits :: "u32 \<Rightarrow> i32 \<Rightarrow> u16 list" where
  "mock_logits vocab next_token =
     (replicate (unat vocab) (float_to_bf16 0xC1000000))
       [unat next_token := float_to_bf16 0x41000000,
        unat ((next_token + 1) mod vocab) := float_to_bf16 0x40F00000]"

definition mock_finish_stage1 :: "StageInput \<Rightarrow> CancellationToken option \<Rightarrow> StageOutput mockM" where
  "mock_finish_stage1 inp c =
     bindM (getM id) (\<lambda>b.
     let processed = mb_provisional_processed b;
         base = tx_base_target (in_txn inp);
         tokens = mb_provisional_tokens b;
         speculative = (tx_kind (in_txn inp) = Speculative);
         output = empty_output\<lparr>out_state_digest := mb_provisional_digest b\<rparr> in
     if speculative \<and> \<not> in_final_chunk inp then
       returnM (output\<lparr>out_state_commit_count := processed,
         out_next_token := mock_predict (mb_vocab_size b) (tokens ! unat (processed - 1))
           (base + ucast processed)\<rparr>)
     else
       let committed = (if speculative then mock_accepted (mb_vocab_size b) base tokens else processed);
           next_token = mock_predict (mb_vocab_size b) (tokens ! unat (committed - 1))
             (base + ucast committed);
           output = output\<lparr>out_state_commit_count := committed, out_next_token := next_token\<rparr> in
       if in_need_logits inp then
         thenM (failIf (\<lambda>_. \<not> in_final_chunk inp \<or> speculative)
                  (RuntimeError ''mock logits requested for invalid lane''))
        (thenM (poll c)
               (returnM (output\<lparr>out_logits_bf16 := mock_logits (mb_vocab_size b) next_token\<rparr>)))
       else thenM (poll c) (returnM output))"

definition mock_execute :: "StageInput \<Rightarrow> StageOutput mockM" where
  "mock_execute inp =
     bindM (poll (in_cancellation inp)) (\<lambda>c.
     thenM (mock_check_input inp)
    (thenM (mock_open inp)
    (thenM (modifyM (mock_absorb inp))
    (bindM (getM mb_stage) (\<lambda>stage.
     if stage = Stage0 then mock_execute_stage0 inp c
     else thenM (liftE (mock_check_boundary inp)) (mock_finish_stage1 inp c))))))"

section \<open>Drafting\<close>

fun mock_draft_loop :: "u32 \<Rightarrow> u64 \<Rightarrow> u32 \<Rightarrow> u32 \<Rightarrow> nat \<Rightarrow> u32 \<Rightarrow> i32 \<Rightarrow> CancellationToken option \<Rightarrow>
    i32 list mockM" where
  "mock_draft_loop vocab position max_draft mismatch 0 i previous c = returnM []"
| "mock_draft_loop vocab position max_draft mismatch (Suc n) i previous c =
     bindM (poll c) (\<lambda>c.
     let predicted = mock_predict vocab previous (position + ucast i + 1);
         next = (if i = mismatch \<and> mismatch < max_draft then (predicted + 1) mod vocab
                 else predicted) in
     bindM (mock_draft_loop vocab position max_draft mismatch n (i + 1) next c) (\<lambda>rest.
     returnM (next # rest)))"

definition mock_draft :: "i32 \<Rightarrow> u64 \<Rightarrow> u32 \<Rightarrow> CancellationToken option \<Rightarrow> i32 list mockM" where
  "mock_draft pending_token position max_draft cancellation =
     bindM (poll cancellation) (\<lambda>c.
     thenM (failIf (\<lambda>b. mb_stage b \<noteq> Stage1) (RuntimeError ''stage0 cannot draft tokens''))
    (bindM (getM mb_vocab_size) (\<lambda>vocab.
     let mismatch = (if max_draft = 0 then 0
           else ucast (mock_mix position mod ucast (max_draft + 1))) in
     mock_draft_loop vocab position max_draft mismatch (unat max_draft) 0 pending_token c)))"

section \<open>Checkpoint, commit, rollback and reset\<close>

definition mock_checkpoint_speculative_prefix :: "u64 \<Rightarrow> u32 \<Rightarrow> unit mockM" where
  "mock_checkpoint_speculative_prefix transaction_epoch prefix_tokens =
     thenM (failIf (\<lambda>b. mb_stage b \<noteq> Stage0 \<or> transaction_epoch \<noteq> mb_provisional_epoch b \<or>
              mb_provisional_kind b \<noteq> Speculative \<or> prefix_tokens = 0 \<or>
              prefix_tokens \<noteq> mb_provisional_processed b)
              (RuntimeError ''mock speculative checkpoint is invalid''))
           (modifyM (mb_speculative_checkpoint_update (\<lambda>_. prefix_tokens)))"

definition mock_close :: "mock_backend \<Rightarrow> mock_backend" where
  "mock_close b = b\<lparr>mb_provisional_epoch := 0, mb_provisional_expected := 0,
     mb_provisional_processed := 0, mb_provisional_kind := KindInvalid, mb_provisional_digest := 0,
     mb_provisional_tokens := [], mb_speculative_checkpoint := 0\<rparr>"

definition mock_commit :: "u64 \<Rightarrow> u32 \<Rightarrow> unit mockM" where
  "mock_commit epo state_commit_count =
     thenM (failIf (\<lambda>b.
         let complete = (mb_provisional_processed b = mb_provisional_expected b);
             online_exact = (mb_provisional_kind b = Speculative \<and>
               mb_provisional_processed b = state_commit_count);
             online_lookahead = (mb_provisional_kind b = Speculative \<and>
               mb_provisional_processed b = state_commit_count + 1 \<and>
               mb_speculative_checkpoint b = state_commit_count) in
         epo \<noteq> mb_provisional_epoch b \<or> state_commit_count = 0 \<or>
         state_commit_count > mb_provisional_processed b \<or>
         \<not> complete \<and> \<not> online_exact \<and> \<not> online_lookahead)
       (RuntimeError ''backend commit does not match provisional state''))
     (modifyM (\<lambda>b. (mock_close b)\<lparr>
        mb_committed_frontier := mb_provisional_base b + ucast state_commit_count,
        mb_committed_epoch := epo,
        mb_metrics := (mb_metrics b)\<lparr>sm_commits := sm_commits (mb_metrics b) + 1\<rparr>\<rparr>))"

definition count_rollback :: "mock_backend \<Rightarrow> mock_backend" where
  "count_rollback b = b\<lparr>mb_metrics := (mb_metrics b)\<lparr>sm_rollbacks := sm_rollbacks (mb_metrics b) + 1\<rparr>\<rparr>"

definition mock_rollback :: "u64 \<Rightarrow> unit mockM" where
  "mock_rollback epo =
     bindM (getM (\<lambda>b. mb_provisional_epoch b = 0)) (\<lambda>closed.
     if closed then
       thenM (failIf (\<lambda>b. epo \<le> mb_committed_epoch b) (RuntimeError ''backend rollback epoch is stale''))
             (modifyM (\<lambda>b. count_rollback (b\<lparr>mb_committed_epoch := epo\<rparr>)))
     else
       thenM (failIf (\<lambda>b. epo \<noteq> mb_provisional_epoch b) (RuntimeError ''backend rollback epoch mismatch''))
             (modifyM (\<lambda>b. count_rollback ((mock_close b)\<lparr>mb_committed_epoch := epo\<rparr>))))"

definition mock_reset_session :: "unit mockM" where
  "mock_reset_session =
     thenM (failIf (\<lambda>b. mb_provisional_epoch b \<noteq> 0)
              (LogicError ''cannot reset an active backend transaction''))
           (modifyM (\<lambda>b. (mock_close b)\<lparr>mb_committed_frontier := 0, mb_committed_epoch := 0,
              mb_provisional_base := 0\<rparr>))"

text \<open>The virtual table: what the class overrides, and the inherited bodies.\<close>

definition mock_ops :: "mock_backend stage_backend_ops" where
  "mock_ops = \<lparr>
     op_stage = mb_stage,
     op_prefetch_transaction = default_prefetch_transaction,
     op_execute = mock_execute,
     op_draft = mock_draft,
     op_draft_retained = default_draft_retained mock_draft,
     op_checkpoint_speculative_prefix = mock_checkpoint_speculative_prefix,
     op_reconcile_retained_draft = default_reconcile_retained_draft,
     op_abandon_retained_draft = default_abandon_retained_draft,
     op_commit = mock_commit,
     op_rollback = mock_rollback,
     op_reset_session = mock_reset_session,
     op_metrics = mb_metrics \<rparr>"

section \<open>The contract holds\<close>

definition mock_view :: "mock_backend \<Rightarrow> backend_view" where
  "mock_view b = \<lparr> bv_frontier = mb_committed_frontier b, bv_epoch = mb_committed_epoch b,
     bv_checkpoint = mb_speculative_checkpoint b,
     bv_open = (if mb_provisional_epoch b = 0 then None
       else Some \<lparr> pv_epoch = mb_provisional_epoch b, pv_base = mb_provisional_base b,
         pv_expected = mb_provisional_expected b, pv_processed = mb_provisional_processed b,
         pv_kind = mb_provisional_kind b \<rparr>) \<rparr>"

lemma pure_draft_loop: "pure_op (mock_draft_loop v p m k n i t c)"
proof (induction n arbitrary: i t c)
  case (Suc n)
  show ?case unfolding mock_draft_loop.simps Let_def by (intro keeps_bind pure_poll Suc keeps_return)
qed simp

lemma pure_draft: "pure_op (mock_draft t p n c)"
  unfolding mock_draft_def Let_def by (intro pure_intros pure_poll pure_draft_loop)

lemma pure_finish_stage1: "pure_op (mock_finish_stage1 inp c)"
  unfolding mock_finish_stage1_def Let_def by (intro pure_intros pure_poll)

lemma pure_execute_stage0: "pure_op (mock_execute_stage0 inp c)"
  unfolding mock_execute_stage0_def by (intro pure_intros pure_poll)

text \<open>The state a chunk leaves once it has been accepted.\<close>

lemma mock_open_wp:
  assumes "chunk_count inp \<noteq> 0" "in_chunk_offset inp \<le> tx_evaluated_count (in_txn inp)"
    "chunk_count inp \<le> tx_evaluated_count (in_txn inp) - in_chunk_offset inp"
  shows "wp (thenM (mock_open inp) (modifyM (mock_absorb inp)))
     (\<lambda>_ b'. chunk_accepted (mock_view b) inp \<and> mock_view b' = chunk_advanced (mock_view b) inp)
     (\<lambda>_ b'. mock_view b' = mock_view b) b"
proof (cases "mb_provisional_epoch b = 0")
  case True
  then show ?thesis
    using assms word_not_simps(1) [of "tx_epoch (in_txn inp)"]
    by (auto simp: mock_open_def mock_absorb_def wp_simps chunk_accepted_def chunk_advanced_def
        mock_view_def not_le)
next
  case False
  then show ?thesis
    using assms
    by (auto simp: mock_open_def mock_absorb_def wp_simps chunk_accepted_def chunk_advanced_def
        mock_view_def)
qed

lemma mock_check_input_wp:
  "wp (mock_check_input inp)
     (\<lambda>_ b'. mock_view b' = mock_view b \<and> chunk_count inp \<noteq> 0 \<and>
        in_chunk_offset inp \<le> tx_evaluated_count (in_txn inp) \<and>
        chunk_count inp \<le> tx_evaluated_count (in_txn inp) - in_chunk_offset inp)
     (\<lambda>_ b'. mock_view b' = mock_view b) b"
  by (auto simp: mock_check_input_def wp_simps mock_view_def not_less)

lemma mock_execute_tail_pure:
  "pure_op (bindM (getM mb_stage) (\<lambda>stage.
     if stage = Stage0 then mock_execute_stage0 inp c
     else thenM (liftE (mock_check_boundary inp)) (mock_finish_stage1 inp c)))"
  by (intro pure_intros pure_poll pure_execute_stage0 pure_finish_stage1)

lemma mock_execute_law:
  "wp (mock_execute inp)
     (\<lambda>_ b'. chunk_accepted (mock_view b) inp \<and> mock_view b' = chunk_advanced (mock_view b) inp)
     (\<lambda>_ b'. mock_view b' = mock_view b \<or>
        chunk_accepted (mock_view b) inp \<and> mock_view b' = chunk_advanced (mock_view b) inp) b"
proof -
  let ?Q = "\<lambda>_ b'. chunk_accepted (mock_view b) inp \<and> mock_view b' = chunk_advanced (mock_view b) inp"
  let ?E = "\<lambda>_ b'. mock_view b' = mock_view b \<or>
        chunk_accepted (mock_view b) inp \<and> mock_view b' = chunk_advanced (mock_view b) inp"
  let ?tail = "\<lambda>c. bindM (getM mb_stage) (\<lambda>stage.
     if stage = Stage0 then mock_execute_stage0 inp c
     else thenM (liftE (mock_check_boundary inp)) (mock_finish_stage1 inp c))"
  have tail: "wp (?tail c) ?Q ?E b'" if "?Q () b'" for b' c
    by (rule wp_mono [OF pure_opD [OF mock_execute_tail_pure]]) (use that in auto)
  have body: "wp (thenM (mock_open inp) (thenM (modifyM (mock_absorb inp)) (?tail c))) ?Q ?E b'"
    if "mock_view b' = mock_view b" "chunk_count inp \<noteq> 0"
      "in_chunk_offset inp \<le> tx_evaluated_count (in_txn inp)"
      "chunk_count inp \<le> tx_evaluated_count (in_txn inp) - in_chunk_offset inp" for b' c
    unfolding thenM_assoc [symmetric, of "mock_open inp"]
    by (rule wp_thenI [OF mock_open_wp [OF that(2-4)] tail]) (use that(1) in auto)
  show ?thesis
    unfolding mock_execute_def
    by (rule wp_bindI [OF poll_wp], rule wp_thenI [OF mock_check_input_wp], rule body) auto
qed

lemma mock_prefetch_law:
  "wp (default_prefetch_transaction txn ts c)
     (\<lambda>_ b'. mock_view b' = mock_view b) (\<lambda>_ b'. mock_view b' = mock_view b) b"
proof -
  have "pure_op (default_prefetch_transaction txn ts c :: unit mockM)"
    unfolding default_prefetch_transaction_def by (intro pure_intros pure_poll)
  from pure_opD [OF this, of b] show ?thesis by (rule wp_mono) auto
qed

lemma mock_draft_retained_law:
  "wp (default_draft_retained mock_draft t p n e c)
     (\<lambda>_ b'. mock_view b' = mock_view b) (\<lambda>_ b'. mock_view b' = mock_view b) b"
proof -
  have "pure_op (default_draft_retained mock_draft t p n e c)"
    unfolding default_draft_retained_def by (intro pure_intros pure_poll pure_draft)
  from pure_opD [OF this, of b] show ?thesis by (rule wp_mono) auto
qed

lemma mock_commit_law:
  assumes "commit_ready (mock_view b) e n"
  shows "wp (mock_commit e n)
     (\<lambda>_ b'. view_idle (mock_view b') (pv_base (the (bv_open (mock_view b))) + ucast n) e)
     (\<lambda>_ _. False) b"
  using assms
  by (auto simp: mock_commit_def wp_simps mock_view_def commit_ready_def view_idle_def mock_close_def
      Let_def split: if_splits)

lemma mock_rollback_law:
  assumes "rollback_ready (mock_view b) e"
  shows "wp (mock_rollback e) (\<lambda>_ b'. view_idle (mock_view b') (bv_frontier (mock_view b)) e)
     (\<lambda>_ _. False) b"
  using assms
  by (auto simp: mock_rollback_def wp_simps mock_view_def rollback_ready_def view_idle_def
      mock_close_def count_rollback_def split: if_splits)

interpretation mock: stage_backend mock_ops mock_view
proof
  show "wp (op_execute mock_ops inp)
      (\<lambda>_ b'. chunk_accepted (mock_view b) inp \<and> mock_view b' = chunk_advanced (mock_view b) inp)
      (\<lambda>_ b'. mock_view b' = mock_view b \<or>
        chunk_accepted (mock_view b) inp \<and> mock_view b' = chunk_advanced (mock_view b) inp) b"
    for inp b by (simp add: mock_ops_def mock_execute_law)
  show "wp (op_commit mock_ops e n)
      (\<lambda>_ b'. view_idle (mock_view b') (pv_base (the (bv_open (mock_view b))) + ucast n) e)
      (\<lambda>_ _. False) b" if "commit_ready (mock_view b) e n" for b e n
    using mock_commit_law [OF that] by (simp add: mock_ops_def)
  show "wp (op_rollback mock_ops e)
      (\<lambda>_ b'. view_idle (mock_view b') (bv_frontier (mock_view b)) e) (\<lambda>_ _. False) b"
    if "rollback_ready (mock_view b) e" for b e
    using mock_rollback_law [OF that] by (simp add: mock_ops_def)
  show "wp (op_reset_session mock_ops) (\<lambda>_ b'. view_idle (mock_view b') 0 0) (\<lambda>_ _. False) b"
    if "bv_open (mock_view b) = None" for b
    using that by (auto simp: mock_ops_def mock_reset_session_def mock_close_def mock_view_def
        view_idle_def wp_simps split: if_splits)
  show "wp (op_checkpoint_speculative_prefix mock_ops e n)
      (\<lambda>_ b'. mock_view b' = (mock_view b)\<lparr>bv_checkpoint := n\<rparr>)
      (\<lambda>_ b'. mock_view b' = mock_view b) b" for e n b
    by (simp add: mock_ops_def mock_checkpoint_speculative_prefix_def wp_simps mock_view_def)
qed (simp_all add: mock_ops_def mock_prefetch_law mock_draft_retained_law
       default_reconcile_retained_draft_def wp_simps)

end
