(* ===== verification/Sampling.thy ===== *)
theory Sampling
  imports Backend
begin

text \<open>
  The transactional sampler of \<^verbatim>\<open>include/q38/sampling.h\<close> and \<^verbatim>\<open>src/sampling.cc\<close>. A decision is
  drawn by \<open>prepare\<close>, which changes nothing, and takes effect in \<open>commit\<close>, after both stages have
  committed; the penalty counts follow the canonical tokens.

  \<^item> A \<open>float\<close> of the configuration is its bit pattern. The floating-point arithmetic of the
    platform is the argument \<open>float_ops\<close> of the definitions that compute with it; no theorem
    assumes anything of it, so they hold for every rounding and for NaNs.
  \<^item> \<open>std::sort\<close> and \<open>std::nth_element\<close> leave the order of equal elements open; the model breaks
    ties by position.
\<close>

section \<open>Data\<close>

definition kSamplerStateMagic :: u32 where
  "kSamplerStateMagic = fourcc (CHR ''Q'') (CHR ''3'') (CHR ''8'') (CHR ''S'')"

datatype SamplingMode = Greedy | TopKTopP | ModeOther u16

record SamplingConfig =
  sc_mode :: SamplingMode
  sc_version :: u16
  sc_top_k :: u32
  sc_top_p :: u32
  sc_temperature :: u32
  sc_repetition_penalty :: u32
  sc_frequency_penalty :: u32
  sc_presence_penalty :: u32
  sc_seed :: u64

text \<open>The bit patterns of \<open>0.0f\<close> and \<open>1.0f\<close>.\<close>

definition bits_zero :: u32 where "bits_zero = 0"
definition bits_one :: u32 where "bits_one = 0x3f800000"

definition default_sampling :: SamplingConfig where
  "default_sampling = \<lparr> sc_mode = Greedy, sc_version = 1, sc_top_k = 0, sc_top_p = bits_one,
     sc_temperature = bits_one, sc_repetition_penalty = bits_one, sc_frequency_penalty = bits_zero,
     sc_presence_penalty = bits_zero, sc_seed = 1 \<rparr>"

record SamplerState =
  ss_magic :: u32
  ss_version :: u16
  ss_header_bytes :: u16
  ss_rng_state :: u64
  ss_sampled_tokens :: u64
  ss_canonical_tokens :: u64
  ss_penalty_checksum :: u64

definition empty_sampler_state :: SamplerState where
  "empty_sampler_state = \<lparr> ss_magic = kSamplerStateMagic, ss_version = kContractVersion,
     ss_header_bytes = 40, ss_rng_state = 1, ss_sampled_tokens = 0, ss_canonical_tokens = 0,
     ss_penalty_checksum = 0 \<rparr>"

record SamplerDecision =
  sd_token :: i32
  sd_rng_before :: u64
  sd_rng_after :: u64

record sampler =
  sa_vocabulary :: u32
  sa_config :: SamplingConfig
  sa_state :: SamplerState
  sa_counts :: "u32 list"

section \<open>The platform's floating point\<close>

record ('f, 'd) float_ops =
  f_of_bits :: "u32 \<Rightarrow> 'f"
  f_isfinite :: "'f \<Rightarrow> bool"
  f_neg_infinity :: 'f
  f_gt :: "'f \<Rightarrow> 'f \<Rightarrow> bool"
  f_eq :: "'f \<Rightarrow> 'f \<Rightarrow> bool"
  f_sub :: "'f \<Rightarrow> 'f \<Rightarrow> 'f"
  f_mul :: "'f \<Rightarrow> 'f \<Rightarrow> 'f"
  f_div :: "'f \<Rightarrow> 'f \<Rightarrow> 'f"
  f_of_u64 :: "u64 \<Rightarrow> 'f"
  d_of_f :: "'f \<Rightarrow> 'd"
  d_zero :: 'd
  d_of_u64 :: "u64 \<Rightarrow> 'd"
  d_inv_2p53 :: 'd
  d_exp :: "'d \<Rightarrow> 'd"
  d_add :: "'d \<Rightarrow> 'd \<Rightarrow> 'd"
  d_mul :: "'d \<Rightarrow> 'd \<Rightarrow> 'd"
  d_div :: "'d \<Rightarrow> 'd \<Rightarrow> 'd"
  d_less :: "'d \<Rightarrow> 'd \<Rightarrow> bool"
  d_ge :: "'d \<Rightarrow> 'd \<Rightarrow> bool"
  d_isfinite :: "'d \<Rightarrow> bool"

section \<open>Operations\<close>

definition bf16_to_float :: "('f, 'd) float_ops \<Rightarrow> u16 \<Rightarrow> 'f" where
  "bf16_to_float fo value = f_of_bits fo (push_bit 16 (ucast value))"

definition splitmix64 :: "u64 \<Rightarrow> u64" where
  "splitmix64 value =
     (let value = (value XOR drop_bit 30 value) * 0xbf58476d1ce4e5b9;
          value = (value XOR drop_bit 27 value) * 0x94d049bb133111eb
      in value XOR drop_bit 31 value)"

definition next_state :: "u64 \<Rightarrow> u64" where
  "next_state state = state + 0x9e3779b97f4a7c15"

definition uniform01 :: "('f, 'd) float_ops \<Rightarrow> u64 \<Rightarrow> 'd" where
  "uniform01 fo state = d_mul fo (d_of_u64 fo (drop_bit 11 (splitmix64 state))) (d_inv_2p53 fo)"

definition sampling_parameters_ok :: "('f, 'd) float_ops \<Rightarrow> u32 \<Rightarrow> SamplingConfig \<Rightarrow> bool" where
  "sampling_parameters_ok fo vocabulary c =
     (let temperature = f_of_bits fo (sc_temperature c); top_p = f_of_bits fo (sc_top_p c);
          repetition = f_of_bits fo (sc_repetition_penalty c);
          zero = f_of_bits fo bits_zero; one = f_of_bits fo bits_one in
      f_gt fo temperature zero \<and> f_isfinite fo temperature \<and> f_gt fo top_p zero \<and>
      \<not> f_gt fo top_p one \<and> f_isfinite fo top_p \<and> sc_top_k c \<le> vocabulary \<and>
      \<not> f_gt fo one repetition \<and> f_isfinite fo repetition \<and>
      f_isfinite fo (f_of_bits fo (sc_frequency_penalty c)) \<and>
      f_isfinite fo (f_of_bits fo (sc_presence_penalty c)))"

definition new_sampler :: "('f, 'd) float_ops \<Rightarrow> u32 \<Rightarrow> SamplingConfig \<Rightarrow> exn + sampler" where
  "new_sampler fo vocabulary c =
     (if vocabulary = 0 \<or> sc_version c \<noteq> 1
        then Inl (InvalidArgument ''invalid sampler dimensions/version'')
      else if sc_mode c \<noteq> Greedy \<and> sc_mode c \<noteq> TopKTopP
        then Inl (InvalidArgument ''unsupported sampling mode'')
      else if \<not> sampling_parameters_ok fo vocabulary c
        then Inl (InvalidArgument ''invalid sampling parameters'')
      else Inr \<lparr> sa_vocabulary = vocabulary, sa_config = c,
        sa_state = empty_sampler_state\<lparr>ss_rng_state := sc_seed c\<rparr>,
        sa_counts = replicate (unat vocabulary) 0 \<rparr>)"

definition sampled :: "sampler \<Rightarrow> bool" where
  "sampled s \<longleftrightarrow> sc_mode (sa_config s) \<noteq> Greedy"

definition in_vocabulary :: "u32 \<Rightarrow> i32 \<Rightarrow> bool" where
  "in_vocabulary vocabulary token \<longleftrightarrow> 0 \<le> sint token \<and> token < vocabulary"

text \<open>The counted additional tokens: \<open>++additional[token]\<close> over the list.\<close>

definition additional_count :: "i32 list \<Rightarrow> i32 \<Rightarrow> u32" where
  "additional_count tokens token = word_of_nat (count_list tokens token)"

text \<open>\<open>counts_[token] + extra\<close> is a sum of two \<open>uint32_t\<close>, widened afterwards.\<close>

definition penalty_count :: "sampler \<Rightarrow> i32 list \<Rightarrow> nat \<Rightarrow> u64" where
  "penalty_count s additional token =
     ucast (sa_counts s ! token + additional_count additional (word_of_nat token))"

definition penalized_logit :: "('f, 'd) float_ops \<Rightarrow> SamplingConfig \<Rightarrow> u64 \<Rightarrow> u16 \<Rightarrow> 'f" where
  "penalized_logit fo c count raw =
     (let logit = bf16_to_float fo raw;
          logit = (if f_isfinite fo logit then logit else f_neg_infinity fo);
          repetition = f_of_bits fo (sc_repetition_penalty c);
          logit =
            (if count \<noteq> 0 then
               let logit = (if \<not> f_eq fo repetition (f_of_bits fo bits_one)
                     then if f_gt fo logit (f_of_bits fo bits_zero) then f_div fo logit repetition
                          else f_mul fo logit repetition
                     else logit);
                   logit = f_sub fo logit (f_of_bits fo (sc_presence_penalty c))
               in f_sub fo logit (f_mul fo (f_of_bits fo (sc_frequency_penalty c)) (f_of_u64 fo count))
             else logit)
      in f_div fo logit (f_of_bits fo (sc_temperature c)))"

definition candidates_of :: "('f, 'd) float_ops \<Rightarrow> sampler \<Rightarrow> u16 list \<Rightarrow> i32 list \<Rightarrow> ('f \<times> i32) list" where
  "candidates_of fo s logits additional =
     map (\<lambda>token. (penalized_logit fo (sa_config s) (penalty_count s additional token) (logits ! token),
                   word_of_nat token)) [0..<unat (sa_vocabulary s)]"

text \<open>Sorting by the comparison \<open>descending\<close>.\<close>

fun insert_desc :: "('f \<Rightarrow> 'f \<Rightarrow> bool) \<Rightarrow> 'f \<times> i32 \<Rightarrow> ('f \<times> i32) list \<Rightarrow> ('f \<times> i32) list" where
  "insert_desc gt x [] = [x]"
| "insert_desc gt x (y # ys) = (if gt (fst y) (fst x) then y # insert_desc gt x ys else x # y # ys)"

fun sort_desc :: "('f \<Rightarrow> 'f \<Rightarrow> bool) \<Rightarrow> ('f \<times> i32) list \<Rightarrow> ('f \<times> i32) list" where
  "sort_desc gt [] = []"
| "sort_desc gt (x # xs) = insert_desc gt x (sort_desc gt xs)"

definition top_candidates :: "('f, 'd) float_ops \<Rightarrow> u32 \<Rightarrow> ('f \<times> i32) list \<Rightarrow> ('f \<times> i32) list" where
  "top_candidates fo top_k candidates =
     (let sorted = sort_desc (f_gt fo) candidates in
      if top_k \<noteq> 0 \<and> unat top_k < length candidates then take (unat top_k) sorted else sorted)"

fun sum_weights :: "('f, 'd) float_ops \<Rightarrow> 'd list \<Rightarrow> 'd \<Rightarrow> 'd" where
  "sum_weights fo [] total_weight = total_weight"
| "sum_weights fo (w # ws) total_weight = sum_weights fo ws (d_add fo total_weight w)"

text \<open>The top-p loop: how many of the sorted weights are kept.\<close>

fun retain_top_p :: "('f, 'd) float_ops \<Rightarrow> 'd \<Rightarrow> 'd \<Rightarrow> 'd list \<Rightarrow> 'd \<Rightarrow> nat" where
  "retain_top_p fo total_weight top_p [] cumulative = 0"
| "retain_top_p fo total_weight top_p (w # ws) cumulative =
     (let cumulative = d_add fo cumulative (d_div fo w total_weight) in
      if d_ge fo cumulative top_p then 1 else Suc (retain_top_p fo total_weight top_p ws cumulative))"

text \<open>The draw: the first index whose cumulative weight exceeds it, else the last.\<close>

fun draw_index :: "('f, 'd) float_ops \<Rightarrow> 'd \<Rightarrow> 'd list \<Rightarrow> nat \<Rightarrow> nat \<Rightarrow> 'd \<Rightarrow> nat" where
  "draw_index fo draw [] index last_index cumulative = last_index"
| "draw_index fo draw (w # ws) index last_index cumulative =
     (let cumulative = d_add fo cumulative w in
      if d_less fo draw cumulative then index
      else draw_index fo draw ws (Suc index) last_index cumulative)"

definition select_candidate :: "('f, 'd) float_ops \<Rightarrow> SamplingConfig \<Rightarrow> u64 \<Rightarrow> ('f \<times> i32) list \<Rightarrow> exn + i32" where
  "select_candidate fo c after candidates =
     (if candidates = [] \<or> \<not> f_isfinite fo (fst (hd candidates))
        then Inl (RuntimeError ''sampler has no finite candidate logits'')
      else
        let maximum = fst (hd candidates);
            weights = map (\<lambda>x. d_exp fo (d_of_f fo (f_sub fo (fst x) maximum))) candidates;
            total_weight = sum_weights fo weights (d_zero fo) in
        if \<not> d_less fo (d_zero fo) total_weight \<or> \<not> d_isfinite fo total_weight
          then Inl (RuntimeError ''sampler probability normalization failed'')
        else
          let top_p = f_of_bits fo (sc_top_p c);
              restricted = f_gt fo (f_of_bits fo bits_one) top_p;
              retained = (if restricted then retain_top_p fo total_weight (d_of_f fo top_p) weights (d_zero fo)
                          else length weights);
              total_weight = (if restricted then sum_weights fo (take retained weights) (d_zero fo) else total_weight);
              draw = d_mul fo (uniform01 fo after) total_weight;
              selected = draw_index fo draw (take retained weights) 0 (retained - 1) (d_zero fo) in
          Inr (snd (candidates ! selected)))"

definition sampler_prepare :: "('f, 'd) float_ops \<Rightarrow> sampler \<Rightarrow> u16 list \<Rightarrow> i32 list \<Rightarrow> exn + SamplerDecision" where
  "sampler_prepare fo s logits additional =
     (if \<not> sampled s then Inl (LogicError ''greedy sampler does not consume RNG'')
      else if length logits \<noteq> unat (sa_vocabulary s)
        then Inl (InvalidArgument ''sampler logits size differs from vocabulary'')
      else if \<not> list_all (in_vocabulary (sa_vocabulary s)) additional
        then Inl (InvalidArgument ''penalty token is outside vocabulary'')
      else
        let candidates = top_candidates fo (sc_top_k (sa_config s)) (candidates_of fo s logits additional);
            after = next_state (ss_rng_state (sa_state s)) in
        (case select_candidate fo (sa_config s) after candidates of
           Inl e \<Rightarrow> Inl e
         | Inr token \<Rightarrow> Inr \<lparr> sd_token = token, sd_rng_before = ss_rng_state (sa_state s),
             sd_rng_after = after \<rparr>))"

type_synonym 'a samplerM = "(sampler, exn, 'a) M"

definition sampler_commit :: "SamplerDecision \<Rightarrow> unit samplerM" where
  "sampler_commit decision =
     thenM (failIf (\<lambda>s. \<not> sampled s \<or> \<not> in_vocabulary (sa_vocabulary s) (sd_token decision) \<or>
              sd_rng_before decision \<noteq> ss_rng_state (sa_state s) \<or>
              sd_rng_after decision \<noteq> next_state (sd_rng_before decision))
              (LogicError ''sampler decision does not match committed state''))
           (modifyM (\<lambda>s. s\<lparr>sa_state := (sa_state s)\<lparr>ss_rng_state := sd_rng_after decision,
              ss_sampled_tokens := ss_sampled_tokens (sa_state s) + 1\<rparr>\<rparr>))"

definition count_token :: "i32 \<Rightarrow> sampler \<Rightarrow> sampler" where
  "count_token token s =
     (let canonical = ss_canonical_tokens (sa_state s) + 1 in
      s\<lparr>sa_counts := (sa_counts s)[unat token := sa_counts s ! unat token + 1],
        sa_state := (sa_state s)\<lparr>ss_canonical_tokens := canonical,
          ss_penalty_checksum := ss_penalty_checksum (sa_state s) XOR
            splitmix64 (ucast token XOR (canonical * 0x9e3779b97f4a7c15))\<rparr>\<rparr>)"

definition commit_token :: "i32 \<Rightarrow> unit samplerM" where
  "commit_token token =
     thenM (failIf (\<lambda>s. \<not> in_vocabulary (sa_vocabulary s) token)
              (InvalidArgument ''committed penalty token is invalid''))
           (modifyM (count_token token))"

definition commit_tokens :: "i32 list \<Rightarrow> unit samplerM" where
  "commit_tokens tokens = mapM_list commit_token tokens"

definition sampler_reset :: "unit samplerM" where
  "sampler_reset = modifyM (\<lambda>s. s\<lparr>sa_state := empty_sampler_state\<lparr>ss_rng_state := sc_seed (sa_config s)\<rparr>,
     sa_counts := replicate (length (sa_counts s)) 0\<rparr>)"

section \<open>Decisions\<close>

lemma set_insert_desc: "set (insert_desc gt x xs) = insert x (set xs)"
  by (induction xs) auto

lemma length_insert_desc: "length (insert_desc gt x xs) = Suc (length xs)"
  by (induction xs) auto

lemma set_sort_desc: "set (sort_desc gt xs) = set xs"
  by (induction xs) (auto simp: set_insert_desc)

lemma length_sort_desc: "length (sort_desc gt xs) = length xs"
  by (induction xs) (auto simp: length_insert_desc)

lemma set_top_candidates: "set (top_candidates fo k xs) \<subseteq> set xs"
  using set_take_subset [of "unat k" "sort_desc (f_gt fo) xs"]
  by (auto simp: top_candidates_def Let_def set_sort_desc)

lemma retain_top_p_bounds:
  "retain_top_p fo w p ws c \<le> length ws \<and> (ws \<noteq> [] \<longrightarrow> 0 < retain_top_p fo w p ws c)"
  by (induction ws arbitrary: c) (auto simp: Let_def)

lemma draw_index_bound:
  "draw_index fo d ws i l c < i + length ws \<or> draw_index fo d ws i l c = l"
proof (induction ws arbitrary: i c)
  case (Cons w ws)
  show ?case using Cons [of "Suc i" "d_add fo c w"] by (auto simp: Let_def)
qed simp

text \<open>The selected index is within the candidates, so the element read exists.\<close>

lemma select_candidate_in:
  assumes "select_candidate fo c after xs = Inr token"
  shows "token \<in> snd ` set xs"
proof -
  have ne: "xs \<noteq> []" using assms by (auto simp: select_candidate_def)
  let ?ws = "map (\<lambda>x. d_exp fo (d_of_f fo (f_sub fo (fst x) (fst (hd xs))))) xs"
  have bound: "draw_index fo d (take r ?ws) 0 (r - Suc 0) z < length xs"
    if "r \<le> length xs" "0 < r" for d r z
    using draw_index_bound [of fo d "take r ?ws" 0 "r - Suc 0" z] that by auto
  have all: "draw_index fo d ?ws 0 (length xs - Suc 0) z < length xs" for d z
    using bound [of "length xs"] ne by simp
  have some: "draw_index fo d (take (retain_top_p fo w p ?ws y) ?ws) 0
      (retain_top_p fo w p ?ws y - Suc 0) z < length xs" for d w p y z
    using retain_top_p_bounds [of fo w p ?ws y] ne by (intro bound) auto
  show ?thesis
    using assms all some ne
    by (auto simp: select_candidate_def Let_def split: if_splits)
qed

lemma candidates_tokens:
  "snd ` set (candidates_of fo s logits additional) = {word_of_nat k | k. k < unat (sa_vocabulary s)}"
  by (auto simp: candidates_of_def image_image)

lemma sampler_prepare_facts:
  assumes "sampler_prepare fo s logits additional = Inr d"
  shows "sampled s" "sd_rng_before d = ss_rng_state (sa_state s)"
    "sd_rng_after d = next_state (ss_rng_state (sa_state s))" "sd_token d < sa_vocabulary s"
proof -
  obtain token where sel: "select_candidate fo (sa_config s) (next_state (ss_rng_state (sa_state s)))
      (top_candidates fo (sc_top_k (sa_config s)) (candidates_of fo s logits additional)) = Inr token"
    and d: "sampled s" "d = \<lparr> sd_token = token, sd_rng_before = ss_rng_state (sa_state s),
      sd_rng_after = next_state (ss_rng_state (sa_state s)) \<rparr>"
    using assms by (auto simp: sampler_prepare_def Let_def split: if_splits sum.splits)
  then show "sampled s" "sd_rng_before d = ss_rng_state (sa_state s)"
    "sd_rng_after d = next_state (ss_rng_state (sa_state s))" by simp_all
  have "token \<in> snd ` set (candidates_of fo s logits additional)"
    using select_candidate_in [OF sel] set_top_candidates by (metis image_mono subset_iff)
  then obtain k where k: "k < unat (sa_vocabulary s)" "token = word_of_nat k"
    by (auto simp: candidates_tokens)
  then have "unat token = k"
    using unat_u32_lt [of "sa_vocabulary s"] by (simp add: unat_of_nat_u32)
  with k d(2) show "sd_token d < sa_vocabulary s" by (simp add: word_less_nat_alt)
qed

text \<open>Tokens of a vocabulary of at most two billion entries are nonnegative as \<open>int32_t\<close>.\<close>

lemma in_vocabulary_small:
  assumes "unat vocabulary \<le> 2147483648" "token < vocabulary"
  shows "in_vocabulary vocabulary token"
proof -
  have "unat token < 2147483648" using assms by (simp add: word_less_nat_alt)
  then have "0 \<le> sint token" by (simp add: sint_i32_nonneg)
  then show ?thesis using assms by (simp add: in_vocabulary_def)
qed

lemma sampler_commit_wp:
  "wp (sampler_commit d)
     (\<lambda>_ t. t = s\<lparr>sa_state := (sa_state s)\<lparr>ss_rng_state := next_state (ss_rng_state (sa_state s)),
        ss_sampled_tokens := ss_sampled_tokens (sa_state s) + 1\<rparr>\<rparr>)
     (\<lambda>_ t. t = s \<and> \<not> (sampled s \<and> in_vocabulary (sa_vocabulary s) (sd_token d) \<and>
        sd_rng_before d = ss_rng_state (sa_state s) \<and>
        sd_rng_after d = next_state (ss_rng_state (sa_state s)))) s"
  by (auto simp: sampler_commit_def wp_simps)

section \<open>Penalty counts\<close>

text \<open>The committed history of a sampler: what \<open>commit_tokens\<close> has done since the last reset.\<close>

definition sampler_tracks :: "sampler \<Rightarrow> i32 list \<Rightarrow> bool" where
  "sampler_tracks s tokens \<longleftrightarrow> length (sa_counts s) = unat (sa_vocabulary s) \<and>
     list_all (in_vocabulary (sa_vocabulary s)) tokens \<and>
     (\<forall>k < unat (sa_vocabulary s). sa_counts s ! k = additional_count tokens (word_of_nat k)) \<and>
     ss_canonical_tokens (sa_state s) = word_of_nat (length tokens) \<and>
     ss_magic (sa_state s) = kSamplerStateMagic"

lemma additional_count_snoc:
  "additional_count (ts @ [t]) x = additional_count ts x + (if x = t then 1 else 0)"
  by (simp add: additional_count_def)

lemma count_token_tracks:
  assumes "sampler_tracks s ts" "in_vocabulary (sa_vocabulary s) t"
  shows "sampler_tracks (count_token t s) (ts @ [t])"
proof -
  have "word_of_nat k = t \<longleftrightarrow> k = unat t" if "k < unat (sa_vocabulary s)" for k
    using that unat_u32_lt [of "sa_vocabulary s"]
    by (auto simp: unat_of_nat_u32)
  then show ?thesis
    using assms
    by (auto simp: sampler_tracks_def count_token_def Let_def nth_list_update additional_count_snoc)
qed

lemma commit_token_wp:
  assumes "sampler_tracks s ts"
  shows "wp (commit_token t)
    (\<lambda>_ s'. s' = count_token t s \<and> sampler_tracks s' (ts @ [t]))
    (\<lambda>_ s'. s' = s \<and> \<not> in_vocabulary (sa_vocabulary s) t) s"
  using assms by (auto simp: commit_token_def wp_simps count_token_tracks)

lemma count_token_frame [simp]:
  "sa_vocabulary (count_token t s) = sa_vocabulary s" "sa_config (count_token t s) = sa_config s"
  "ss_rng_state (sa_state (count_token t s)) = ss_rng_state (sa_state s)"
  "ss_sampled_tokens (sa_state (count_token t s)) = ss_sampled_tokens (sa_state s)"
  by (simp_all add: count_token_def Let_def)

lemma fold_count_frame [simp]:
  "sa_vocabulary (fold count_token us s) = sa_vocabulary s"
  "sa_config (fold count_token us s) = sa_config s"
  "ss_rng_state (sa_state (fold count_token us s)) = ss_rng_state (sa_state s)"
  "ss_sampled_tokens (sa_state (fold count_token us s)) = ss_sampled_tokens (sa_state s)"
  by (induction us arbitrary: s) simp_all

lemma commit_tokens_wp:
  assumes "sampler_tracks s ts" "list_all (in_vocabulary (sa_vocabulary s)) us"
  shows "wp (commit_tokens us) (\<lambda>_ s'. s' = fold count_token us s \<and> sampler_tracks s' (ts @ us))
    (\<lambda>_ _. False) s"
  using assms
proof (induction us arbitrary: s ts)
  case Nil
  then show ?case by (simp add: commit_tokens_def wp_simps)
next
  case (Cons u us)
  have "wp (commit_tokens us) (\<lambda>_ s'. s' = fold count_token (u # us) s \<and>
      sampler_tracks s' (ts @ u # us)) (\<lambda>_ _. False) (count_token u s)"
    using Cons.IH [of "count_token u s" "ts @ [u]"] Cons.prems by (simp add: count_token_tracks)
  then show ?case
    using Cons.prems by (simp add: commit_tokens_def wp_simps commit_token_def)
qed

lemma sampler_reset_tracks:
  assumes "sampler_tracks s ts"
  shows "wp sampler_reset (\<lambda>_ s'. sampler_tracks s' [] \<and> sa_vocabulary s' = sa_vocabulary s \<and>
      sa_config s' = sa_config s \<and> ss_rng_state (sa_state s') = sc_seed (sa_config s)) (\<lambda>_ _. False) s"
  using assms
  by (simp add: sampler_reset_def wp_simps sampler_tracks_def additional_count_def
      empty_sampler_state_def)

lemma new_sampler_tracks:
  assumes "new_sampler fo v c = Inr s"
  shows "sampler_tracks s []" "sa_vocabulary s = v" "sa_config s = c"
    "ss_rng_state (sa_state s) = sc_seed c" "v \<noteq> 0"
  using assms
  by (auto simp: new_sampler_def sampler_tracks_def additional_count_def empty_sampler_state_def
      split: if_splits)

section \<open>The random number state\<close>

lemma next_state_funpow: "(next_state ^^ n) x = x + word_of_nat n * 0x9e3779b97f4a7c15"
  by (induction n) (simp_all add: next_state_def algebra_simps)

lemma mult_golden_inj:
  fixes x y :: u64
  assumes "x * 0x9e3779b97f4a7c15 = y * 0x9e3779b97f4a7c15"
  shows "x = y"
  using assms by (rule mult_unit_inj [where d = "0xf1de83e19937733d"]) simp

section \<open>Properties\<close>

text \<open>A concrete integer arithmetic on which the examples below are evaluated.\<close>

definition int_float_ops :: "(int, int) float_ops" where
  "int_float_ops = \<lparr> f_of_bits = uint, f_isfinite = (\<lambda>x. x < 0x7f800000), f_neg_infinity = 0,
     f_gt = (\<lambda>x y. x > y), f_eq = (\<lambda>x y. x = y), f_sub = (\<lambda>x y. x - y), f_mul = (\<lambda>x y. x * y),
     f_div = (\<lambda>x y. x div y), f_of_u64 = uint, d_of_f = id, d_zero = 0, d_of_u64 = uint,
     d_inv_2p53 = 1, d_exp = (\<lambda>x. 1), d_add = (\<lambda>x y. x + y), d_mul = (\<lambda>x y. x * y),
     d_div = (\<lambda>x y. x div y), d_less = (\<lambda>x y. x < y), d_ge = (\<lambda>x y. x \<ge> y),
     d_isfinite = (\<lambda>x. True) \<rparr>"

definition demo_sampler :: sampler where
  "demo_sampler = \<lparr> sa_vocabulary = 4, sa_config = default_sampling\<lparr>sc_mode := TopKTopP\<rparr>,
     sa_state = empty_sampler_state, sa_counts = [0, 0, 0, 0] \<rparr>"

text \<open>
  Two-phase sampling is consistent. For every floating-point arithmetic, a decision that
  \<open>prepare\<close> returns names a token of the vocabulary, and committing it in the same state succeeds
  and advances the random state by exactly one step and the sample count by one, leaving the
  penalty counts alone.
\<close>

theorem sampler_prepare_commit:
  assumes "sampler_prepare fo s logits additional = Inr d" and "unat (sa_vocabulary s) \<le> 2 ^ 31"
  shows "in_vocabulary (sa_vocabulary s) (sd_token d) \<and>
    sampler_commit d s = (Inr (), s\<lparr>sa_state := (sa_state s)\<lparr>
      ss_rng_state := next_state (ss_rng_state (sa_state s)),
      ss_sampled_tokens := ss_sampled_tokens (sa_state s) + 1\<rparr>\<rparr>)"
  using sampler_prepare_facts [OF assms(1)] assms(2)
    in_vocabulary_small [of "sa_vocabulary s" "sd_token d"]
  by (simp add: sampler_commit_def run_simps)

theorem sampler_prepare_commit_witness:
  "\<exists>d. sampler_prepare int_float_ops demo_sampler [1, 2, 3, 4] [2] = Inr d \<and>
     in_vocabulary 4 (sd_token d)"
proof -
  have ok: "\<not> isl (sampler_prepare int_float_ops demo_sampler [1, 2, 3, 4] [2])" by code_simp
  then obtain d where d: "sampler_prepare int_float_ops demo_sampler [1, 2, 3, 4] [2] = Inr d"
    by (cases "sampler_prepare int_float_ops demo_sampler [1, 2, 3, 4] [2]") auto
  have v: "sa_vocabulary demo_sampler = 4" by (simp add: demo_sampler_def)
  show ?thesis using sampler_prepare_commit [OF d] d by (simp add: v)
qed

text \<open>
  The penalty state is a function of the canonical tokens. Committing a list of tokens of
  the vocabulary to a fresh sampler succeeds, and afterwards the count of every token is its
  number of occurrences (as a 32-bit counter) and the canonical count is the length.
\<close>

theorem sampler_counts_exact:
  assumes "new_sampler fo vocabulary c = Inr s" and "list_all (in_vocabulary vocabulary) tokens"
  shows "\<exists>s'. commit_tokens tokens s = (Inr (), s') \<and>
    (\<forall>k < unat vocabulary. sa_counts s' ! k = word_of_nat (count_list tokens (word_of_nat k))) \<and>
    ss_canonical_tokens (sa_state s') = word_of_nat (length tokens)"
proof -
  have "wp (commit_tokens tokens) (\<lambda>_ s'. s' = fold count_token tokens s \<and> sampler_tracks s' tokens)
      (\<lambda>_ _. False) s"
    using commit_tokens_wp [of s "[]" tokens] new_sampler_tracks [OF assms(1)] assms(2) by simp
  then obtain s' where run: "commit_tokens tokens s = (Inr (), s')"
    and s': "s' = fold count_token tokens s" "sampler_tracks s' tokens"
    by (auto simp: wp_def split: prod.splits sum.splits)
  have "sa_vocabulary s' = vocabulary"
    using s'(1) new_sampler_tracks(2) [OF assms(1)] by simp
  then show ?thesis
    using run s'(2) by (auto simp: sampler_tracks_def additional_count_def)
qed

theorem sampler_counts_exact_witness:
  "\<exists>s s'. new_sampler int_float_ops 4 default_sampling = Inr s \<and>
     commit_tokens [3, 1, 3] s = (Inr (), s') \<and> sa_counts s' ! 3 = 2"
proof -
  have "\<not> isl (new_sampler int_float_ops 4 default_sampling)" by code_simp
  then obtain s where s: "new_sampler int_float_ops 4 default_sampling = Inr s"
    by (cases "new_sampler int_float_ops 4 default_sampling") auto
  have "list_all (in_vocabulary 4) [3, 1, 3]" by code_simp
  from sampler_counts_exact [OF s this] s show ?thesis by auto
qed

text \<open>
  The random state does not repeat: within the first 2^64 committed samples of a session all
  states are distinct.
\<close>

theorem sampler_rng_distinct:
  assumes "m < 2 ^ 64" and "n < 2 ^ 64" and "m \<noteq> n"
  shows "(next_state ^^ m) seed \<noteq> (next_state ^^ n) seed"
proof
  assume "(next_state ^^ m) seed = (next_state ^^ n) seed"
  then have "word_of_nat m * 0x9e3779b97f4a7c15 = (word_of_nat n * 0x9e3779b97f4a7c15 :: u64)"
    by (simp only: next_state_funpow add_left_cancel)
  then have "word_of_nat m = (word_of_nat n :: u64)" by (rule mult_golden_inj)
  then have "unat (word_of_nat m :: u64) = unat (word_of_nat n :: u64)" by simp
  then show False using assms by (simp add: unat_of_nat_u64)
qed

theorem sampler_rng_distinct_witness: "(next_state ^^ 2) 7 \<noteq> (next_state ^^ 5) 7"
  by (rule sampler_rng_distinct) simp_all

end
