(* ===== verification/Text.thy ===== *)
theory Text
  imports Backend
begin

text \<open>
  What the sources use of the C++ library on text and raw memory: little-endian images of
  integers, \<open>std::getline\<close> over a file's contents, \<open>std::stoull\<close>, and the FNV-1a byte hash that
  several files define.
\<close>

section \<open>Memory images\<close>

text \<open>The \<open>n\<close> bytes of a little-endian integer.\<close>

fun le_bytes :: "nat \<Rightarrow> u64 \<Rightarrow> u8 list" where
  "le_bytes 0 w = []"
| "le_bytes (Suc n) w = ucast w # le_bytes n (drop_bit 8 w)"

fun le_word :: "u8 list \<Rightarrow> u64" where
  "le_word [] = 0"
| "le_word (b # bs) = ucast b OR push_bit 8 (le_word bs)"

lemma length_le_bytes [simp]: "length (le_bytes n w) = n"
  by (induction n arbitrary: w) auto

lemma bit_le_word: "n < 8 * length bs \<Longrightarrow> length bs \<le> 8 \<Longrightarrow>
    bit (le_word bs) n = bit (bs ! (n div 8)) (n mod 8)"
proof (induction bs arbitrary: n)
  case (Cons b bs)
  show ?case
  proof (cases "n < 8")
    case True
    then show ?thesis using Cons.prems by (simp add: bit_simps)
  next
    case False
    then obtain m where m: "n = m + 8" by (metis add.commute le_Suc_ex not_le)
    have "\<not> bit (ucast b :: u64) n" using False bit_imp_le_length [of b n] by (auto simp: bit_simps)
    moreover have "n < 64" using Cons.prems by simp
    moreover have "n div 8 = Suc (m div 8)" "n mod 8 = m mod 8" using m by simp_all
    ultimately show ?thesis
      using Cons.IH [of m] Cons.prems m by (simp add: bit_simps)
  qed
qed simp

lemma nth_le_bytes: "i < n \<Longrightarrow> le_bytes n w ! i = ucast (drop_bit (8 * i) w)"
proof (induction n arbitrary: i w)
  case (Suc n)
  then show ?case by (cases i) (simp_all add: add.commute)
qed simp

lemma le_word_le_bytes: "n \<le> 8 \<Longrightarrow> le_word (le_bytes n w) = take_bit (8 * n) w"
proof (rule bit_eqI)
  fix k
  assume n: "n \<le> 8"
  have high: "\<not> bit (le_word bs) k" if "length bs \<le> 8" "8 * length bs \<le> k" for bs :: "u8 list"
    using that
  proof (induction bs arbitrary: k)
    case (Cons b bs)
    then have "\<not> bit b k" using bit_imp_le_length [of b k] by auto
    moreover have "\<not> bit (le_word bs) (k - 8)" using Cons by auto
    ultimately show ?case by (simp add: bit_simps)
  qed simp
  show "bit (le_word (le_bytes n w)) k = bit (take_bit (8 * n) w) k"
  proof (cases "k < 8 * n")
    case True
    then have "k div 8 < n" by (simp add: div_less_iff_less_mult mult.commute)
    then show ?thesis
      using True n bit_le_word [of k "le_bytes n w"] by (simp add: nth_le_bytes bit_simps)
  next
    case False
    then show ?thesis using high [of "le_bytes n w"] n by (simp add: bit_simps)
  qed
qed

lemma le_bytes_inj: "le_bytes 8 v = le_bytes 8 w \<longleftrightarrow> v = w"
proof
  assume "le_bytes 8 v = le_bytes 8 w"
  then have "le_word (le_bytes 8 v) = le_word (le_bytes 8 w)" by simp
  then show "v = w" by (simp add: le_word_le_bytes take_bit_word_eq_self)
qed simp

section \<open>FNV-1a\<close>

fun hash_bytes :: "u64 \<Rightarrow> u8 list \<Rightarrow> u64" where
  "hash_bytes value [] = value"
| "hash_bytes value (b # bs) = hash_bytes ((value XOR ucast b) * 1099511628211) bs"

definition fnv_basis :: u64 where "fnv_basis = 1469598103934665603"

lemma hash_bytes_append: "hash_bytes v (xs @ ys) = hash_bytes (hash_bytes v xs) ys"
  by (induction xs arbitrary: v) auto

lemma fnv_step_inj:
  assumes "(v XOR ucast b) * 1099511628211 = ((w :: u64) XOR ucast c) * 1099511628211"
  shows "v XOR ucast b = w XOR ucast c"
  using assms by (rule mult_unit_inj [where d = "0xce965057aff6957b"]) simp

lemma hash_bytes_inj: "hash_bytes v bs = hash_bytes w bs \<longleftrightarrow> v = w"
proof (induction bs arbitrary: v w)
  case (Cons b bs)
  then show ?case
    using fnv_step_inj [of v b w b] by (auto simp: xor_right_cancel)
qed simp

lemma unat_ucast_u8_u64 [simp]: "unat (ucast (b :: u8) :: u64) = unat b"
  using unsigned_less [of b, where ?'a = nat] by (simp add: unsigned_ucast_eq take_bit_nat_eq_self)

lemma ucast_u8_inj: "(ucast (b :: u8) :: u64) = ucast c \<longleftrightarrow> b = c"
  by (metis unat_ucast_u8_u64 word_unat_eq_iff)

text \<open>Any change of a single byte changes the hash.\<close>

lemma hash_bytes_update:
  assumes "k < length bs"
  shows "hash_bytes v (bs[k := b]) = hash_bytes v bs \<longleftrightarrow> b = bs ! k"
proof
  assume eq: "hash_bytes v (bs[k := b]) = hash_bytes v bs"
  let ?u = "hash_bytes v (take k bs)"
  have "bs[k := b] = take k bs @ b # drop (Suc k) bs" using assms by (rule upd_conv_take_nth_drop)
  moreover have "bs = take k bs @ bs ! k # drop (Suc k) bs" using assms by (rule id_take_nth_drop)
  ultimately have "hash_bytes ((?u XOR ucast b) * 1099511628211) (drop (Suc k) bs) =
      hash_bytes ((?u XOR ucast (bs ! k)) * 1099511628211) (drop (Suc k) bs)"
    using eq by (metis hash_bytes.simps(2) hash_bytes_append)
  then have "(?u XOR ucast b) * 1099511628211 = (?u XOR ucast (bs ! k)) * 1099511628211"
    by (simp only: hash_bytes_inj)
  then have "?u XOR ucast b = ?u XOR ucast (bs ! k)" by (rule fnv_step_inj)
  then have "ucast b XOR ?u = ucast (bs ! k) XOR ?u" by (simp only: xor.commute)
  then show "b = bs ! k" by (simp only: xor_right_cancel ucast_u8_inj)
qed simp

section \<open>Lines and integers\<close>

text \<open>The lines \<open>std::getline\<close> yields: a final line without a newline counts when it is not empty.\<close>

fun getlines :: "string \<Rightarrow> string list" where
  "getlines [] = []"
| "getlines (c # cs) = (if c = CHR 0x0A then [] # getlines cs
     else (case getlines cs of
             [] \<Rightarrow> [[c]]
           | l # ls \<Rightarrow> (c # l) # ls))"

text \<open>The code point of a character.\<close>

definition code_of :: "char \<Rightarrow> nat" where "code_of c = of_char c"

definition is_space :: "char \<Rightarrow> bool" where
  "is_space c \<longleftrightarrow> code_of c = 32 \<or> 9 \<le> code_of c \<and> code_of c \<le> 13"

definition digit_value :: "char \<Rightarrow> nat" where
  "digit_value c =
     (let n = code_of c in
      if 48 \<le> n \<and> n \<le> 57 then n - 48
      else if 97 \<le> n \<and> n \<le> 122 then n - 97 + 10
      else if 65 \<le> n \<and> n \<le> 90 then n - 65 + 10
      else 36)"

fun digits_value :: "nat \<Rightarrow> nat \<Rightarrow> string \<Rightarrow> nat" where
  "digits_value base acc [] = acc"
| "digits_value base acc (c # cs) = digits_value base (acc * base + digit_value c) cs"

text \<open>\<open>std::stoull(value, &consumed, base)\<close>: white space, a sign, a prefix, the digits. A minus sign
  negates modulo 2^64, as \<open>strtoull\<close> does.\<close>

definition hex_prefix :: "string \<Rightarrow> bool" where
  "hex_prefix cs \<longleftrightarrow> (case cs of z # x # d # _ \<Rightarrow> z = CHR ''0'' \<and> (x = CHR ''x'' \<or> x = CHR ''X'') \<and>
     digit_value d < 16 | _ \<Rightarrow> False)"

definition stoull :: "nat \<Rightarrow> string \<Rightarrow> exn + (u64 \<times> nat)" where
  "stoull base value =
     (let spaces = takeWhile is_space value;
          body = drop (length spaces) value;
          signed = (body \<noteq> [] \<and> (hd body = CHR ''-'' \<or> hd body = CHR ''+''));
          negative = (body \<noteq> [] \<and> hd body = CHR ''-'');
          body = (if signed then tl body else body);
          prefixed = (base = 0 \<or> base = 16) \<and> hex_prefix body;
          radix = (if base \<noteq> 0 then base else if prefixed then 16
                   else if body \<noteq> [] \<and> hd body = CHR ''0'' then 8 else 10);
          digits = takeWhile (\<lambda>c. digit_value c < radix) (if prefixed then drop 2 body else body);
          number = digits_value radix 0 digits;
          consumed = length spaces + (if signed then 1 else 0) + (if prefixed then 2 else 0)
            + length digits in
      if digits = [] then Inl (InvalidArgument ''stoull'')
      else if 18446744073709551615 < number then Inl OutOfRange
      else Inr (if negative then - word_of_nat number else word_of_nat number, consumed))"

text \<open>\<open>std::to_string\<close> of an unsigned integer.\<close>

fun decimal :: "nat \<Rightarrow> string" where
  "decimal n = (if n < 10 then [char_of (48 + n)] else decimal (n div 10) @ [char_of (48 + n mod 10)])"

declare decimal.simps [simp del]

end
