(* ===== verification/Identity.thy ===== *)
theory Identity
  imports Text Sampling
begin

text \<open>
  The session identity of \<^verbatim>\<open>include/q38/identity.h\<close> and \<^verbatim>\<open>src/identity.cc\<close>: the record that
  binds a session to its model, tokenizer, runtime and sampling contract, its FNV checksum over
  the memory image, the hexadecimal digests, the validator and the file loader. A digest is the
  list of its 32 bytes.
\<close>

section \<open>Data\<close>

definition kSessionIdentityMagic :: u32 where
  "kSessionIdentityMagic = fourcc (CHR ''Q'') (CHR ''3'') (CHR ''8'') (CHR ''I'')"

definition kSessionIdentityDevelopment :: u32 where
  "kSessionIdentityDevelopment = 1"

type_synonym Digest256 = "u8 list"

definition zero_digest :: Digest256 where "zero_digest = replicate 32 0"

record SessionIdentity =
  si_magic :: u32
  si_version :: u16
  si_header_bytes :: u16
  si_session_hash :: u64
  si_model_checkpoint :: Digest256
  si_tokenizer :: Digest256
  si_chat_template :: Digest256
  si_runtime :: Digest256
  si_kernels :: Digest256
  si_ple_layout :: Digest256
  si_stage_plan :: Digest256
  si_sampling_parser :: Digest256
  si_context_limit :: u32
  si_flags :: u32
  si_identity_checksum :: u64

definition empty_identity :: SessionIdentity where
  "empty_identity = \<lparr> si_magic = kSessionIdentityMagic, si_version = kContractVersion,
     si_header_bytes = 288, si_session_hash = 0, si_model_checkpoint = zero_digest,
     si_tokenizer = zero_digest, si_chat_template = zero_digest, si_runtime = zero_digest,
     si_kernels = zero_digest, si_ple_layout = zero_digest, si_stage_plan = zero_digest,
     si_sampling_parser = zero_digest, si_context_limit = 0, si_flags = 0,
     si_identity_checksum = 0 \<rparr>"

text \<open>The 288 bytes of the structure; its fields leave no padding.\<close>

definition identity_bytes :: "SessionIdentity \<Rightarrow> u8 list" where
  "identity_bytes i = le_bytes 4 (ucast (si_magic i)) @ le_bytes 2 (ucast (si_version i)) @
     le_bytes 2 (ucast (si_header_bytes i)) @ le_bytes 8 (si_session_hash i) @
     si_model_checkpoint i @ si_tokenizer i @ si_chat_template i @ si_runtime i @ si_kernels i @
     si_ple_layout i @ si_stage_plan i @ si_sampling_parser i @
     le_bytes 4 (ucast (si_context_limit i)) @ le_bytes 4 (ucast (si_flags i)) @
     le_bytes 8 (si_identity_checksum i)"

section \<open>Digests\<close>

definition hex_digit :: "char \<Rightarrow> int" where
  "hex_digit value =
     (let n = code_of value in
      if 48 \<le> n \<and> n \<le> 57 then int n - 48
      else if 97 \<le> n \<and> n \<le> 102 then int n - 97 + 10
      else if 65 \<le> n \<and> n \<le> 70 then int n - 65 + 10
      else - 1)"

fun parse_hex_pairs :: "string \<Rightarrow> exn + u8 list" where
  "parse_hex_pairs (h # l # rest) =
     (if hex_digit h < 0 \<or> hex_digit l < 0
        then Inl (InvalidArgument ''SHA-256 digest is not hexadecimal'')
      else (case parse_hex_pairs rest of
              Inl e \<Rightarrow> Inl e
            | Inr bs \<Rightarrow> Inr ((push_bit 4 (word_of_int (hex_digit h)) OR word_of_int (hex_digit l)) # bs)))"
| "parse_hex_pairs _ = Inr []"

definition parse_digest256 :: "string \<Rightarrow> exn + Digest256" where
  "parse_digest256 hex =
     (if length hex \<noteq> 64
        then Inl (InvalidArgument ''SHA-256 digest must contain 64 hex digits'')
      else parse_hex_pairs hex)"

definition hex_char :: "nat \<Rightarrow> char" where
  "hex_char n = char_of (if n < 10 then 48 + n else 87 + n)"

definition format_digest256 :: "Digest256 \<Rightarrow> string" where
  "format_digest256 digest = concat (map (\<lambda>b. [hex_char (unat b div 16), hex_char (unat b mod 16)]) digest)"

section \<open>Checksum and validation\<close>

definition session_identity_checksum :: "SessionIdentity \<Rightarrow> u64" where
  "session_identity_checksum identity =
     hash_bytes fnv_basis (identity_bytes (identity\<lparr>si_identity_checksum := 0\<rparr>))"

definition validate_session_identity :: "SessionIdentity \<Rightarrow> string + unit" where
  "validate_session_identity i =
     (if si_magic i \<noteq> kSessionIdentityMagic \<or> si_version i \<noteq> kContractVersion \<or> si_header_bytes i \<noteq> 288
        then Inl ''invalid session identity header''
      else if si_session_hash i = 0 \<or> si_context_limit i = 0
        then Inl ''session identity has zero session/context''
      else if si_flags i AND NOT kSessionIdentityDevelopment \<noteq> 0
        then Inl ''session identity flags are invalid''
      else if si_identity_checksum i \<noteq> session_identity_checksum i
        then Inl ''session identity checksum differs''
      else if si_flags i AND kSessionIdentityDevelopment = 0 \<and>
          (si_model_checkpoint i = zero_digest \<or> si_tokenizer i = zero_digest \<or>
           si_chat_template i = zero_digest \<or> si_runtime i = zero_digest \<or>
           si_kernels i = zero_digest \<or> si_ple_layout i = zero_digest \<or>
           si_stage_plan i = zero_digest \<or> si_sampling_parser i = zero_digest)
        then Inl ''production session identity contains a zero digest''
      else Inr ())"

section \<open>The identity file\<close>

definition identity_parse_u64 :: "string \<Rightarrow> string \<Rightarrow> exn + u64" where
  "identity_parse_u64 name value =
     (case stoull 0 value of
        Inl e \<Rightarrow> Inl e
      | Inr (parsed, consumed) \<Rightarrow>
          if consumed \<noteq> length value
            then Inl (RuntimeError (''invalid session identity integer: '' @ name))
          else Inr parsed)"

text \<open>The \<open>key=value\<close> lines, collected without duplicates.\<close>

fun identity_fields :: "string list \<Rightarrow> (string \<times> string) list \<Rightarrow> exn + (string \<times> string) list" where
  "identity_fields [] values = Inr values"
| "identity_fields (line # lines) values =
     (if line = [] then identity_fields lines values
      else
        let key = takeWhile (\<lambda>c. c \<noteq> CHR ''='') line in
        if length key = length line \<or> key = [] \<or> map_of values key \<noteq> None
          then Inl (RuntimeError ''invalid/duplicate session identity field'')
        else identity_fields lines (values @ [(key, drop (length key + 1) line)]))"

definition identity_keys :: "string list" where
  "identity_keys = [''session_hash'', ''model_checkpoint_sha256'', ''tokenizer_sha256'',
     ''chat_template_sha256'', ''runtime_sha256'', ''kernels_sha256'', ''ple_layout_sha256'',
     ''stage_plan_sha256'', ''sampling_parser_sha256'', ''context_limit'', ''flags'',
     ''identity_checksum'']"

fun check_keys :: "string list \<Rightarrow> (string \<times> string) list \<Rightarrow> exn + unit" where
  "check_keys [] values = Inr ()"
| "check_keys (k # ks) values =
     (if map_of values k = None then Inl (RuntimeError (''missing identity field: '' @ k))
      else check_keys ks values)"

definition field :: "(string \<times> string) list \<Rightarrow> string \<Rightarrow> string" where
  "field values key = (case map_of values key of Some v \<Rightarrow> v | None \<Rightarrow> [])"

definition bindE :: "'e + 'a \<Rightarrow> ('a \<Rightarrow> 'e + 'b) \<Rightarrow> 'e + 'b" where
  "bindE r f = (case r of Inl e \<Rightarrow> Inl e | Inr x \<Rightarrow> f x)"

definition parse_identity_fields :: "(string \<times> string) list \<Rightarrow> exn + SessionIdentity" where
  "parse_identity_fields values =
     bindE (identity_parse_u64 ''session_hash'' (field values ''session_hash'')) (\<lambda>session_hash.
     bindE (parse_digest256 (field values ''model_checkpoint_sha256'')) (\<lambda>model_checkpoint.
     bindE (parse_digest256 (field values ''tokenizer_sha256'')) (\<lambda>tokenizer.
     bindE (parse_digest256 (field values ''chat_template_sha256'')) (\<lambda>chat_template.
     bindE (parse_digest256 (field values ''runtime_sha256'')) (\<lambda>runtime.
     bindE (parse_digest256 (field values ''kernels_sha256'')) (\<lambda>kernels.
     bindE (parse_digest256 (field values ''ple_layout_sha256'')) (\<lambda>ple_layout.
     bindE (parse_digest256 (field values ''stage_plan_sha256'')) (\<lambda>stage_plan.
     bindE (parse_digest256 (field values ''sampling_parser_sha256'')) (\<lambda>sampling_parser.
     bindE (identity_parse_u64 ''context_limit'' (field values ''context_limit'')) (\<lambda>context.
     bindE (identity_parse_u64 ''flags'' (field values ''flags'')) (\<lambda>flags.
     if context > 0xffffffff \<or> flags > 0xffffffff
       then Inl (RuntimeError ''session identity value overflows'')
     else
     bindE (identity_parse_u64 ''identity_checksum'' (field values ''identity_checksum'')) (\<lambda>checksum.
     Inr (empty_identity\<lparr>si_session_hash := session_hash, si_model_checkpoint := model_checkpoint,
       si_tokenizer := tokenizer, si_chat_template := chat_template, si_runtime := runtime,
       si_kernels := kernels, si_ple_layout := ple_layout, si_stage_plan := stage_plan,
       si_sampling_parser := sampling_parser, si_context_limit := ucast context,
       si_flags := ucast flags, si_identity_checksum := checksum\<rparr>)))))))))))))"

text \<open>\<open>load_session_identity\<close> on the contents of the file; \<open>None\<close> is a file that cannot be opened.\<close>

definition load_session_identity :: "string \<Rightarrow> string option \<Rightarrow> exn + SessionIdentity" where
  "load_session_identity path contents =
     (case contents of
        None \<Rightarrow> Inl (RuntimeError (''cannot open session identity: '' @ path))
      | Some text \<Rightarrow>
          (case getlines text of
             [] \<Rightarrow> Inl (RuntimeError ''invalid session identity file header'')
           | header # lines \<Rightarrow>
               if header \<noteq> ''Q38_SESSION_IDENTITY_V1''
                 then Inl (RuntimeError ''invalid session identity file header'')
               else
                 bindE (identity_fields lines []) (\<lambda>values.
                 bindE (check_keys identity_keys values) (\<lambda>_.
                 if length values \<noteq> length identity_keys
                   then Inl (RuntimeError ''unexpected session identity field'')
                 else
                 bindE (parse_identity_fields values) (\<lambda>result.
                 (case validate_session_identity result of
                    Inl err \<Rightarrow> Inl (RuntimeError (''invalid session identity: '' @ err))
                  | Inr _ \<Rightarrow> Inr result))))))"

section \<open>Development identities\<close>

fun mode_code :: "SamplingMode \<Rightarrow> u16" where
  "mode_code Greedy = 0"
| "mode_code TopKTopP = 1"
| "mode_code (ModeOther m) = m"

text \<open>The 40 bytes of a \<open>SamplingConfigV1\<close>. The member \<open>seed\<close> is 8-aligned, so bytes 28 to 31 are
  padding, whose values the language leaves open: they are the argument \<open>padding\<close>.\<close>

definition sampling_bytes :: "u8 list \<Rightarrow> SamplingConfig \<Rightarrow> u8 list" where
  "sampling_bytes padding c = le_bytes 2 (ucast (mode_code (sc_mode c))) @
     le_bytes 2 (ucast (sc_version c)) @ le_bytes 4 (ucast (sc_top_k c)) @
     le_bytes 4 (ucast (sc_top_p c)) @ le_bytes 4 (ucast (sc_temperature c)) @
     le_bytes 4 (ucast (sc_repetition_penalty c)) @ le_bytes 4 (ucast (sc_frequency_penalty c)) @
     le_bytes 4 (ucast (sc_presence_penalty c)) @ padding @ le_bytes 8 (sc_seed c)"

definition make_development_identity :: "u8 list \<Rightarrow> u64 \<Rightarrow> u32 \<Rightarrow> SamplingConfig \<Rightarrow> SessionIdentity" where
  "make_development_identity padding session_hash context_limit sampling =
     (let sampling_hash = hash_bytes fnv_basis (sampling_bytes padding sampling);
          result = empty_identity\<lparr>si_session_hash := session_hash, si_context_limit := context_limit,
            si_flags := kSessionIdentityDevelopment,
            si_sampling_parser := le_bytes 8 sampling_hash @ replicate 24 0\<rparr>
      in result\<lparr>si_identity_checksum := session_identity_checksum result\<rparr>)"

section \<open>Round trip of digests\<close>

lemma hex_digit_char: "n < 16 \<Longrightarrow> hex_digit (hex_char n) = int n"
  by (auto simp: hex_digit_def hex_char_def code_of_def Let_def of_char_of)

lemma hex_pair:
  "push_bit 4 (word_of_int (int (unat b div 16))) OR word_of_int (int (unat b mod 16)) = (b :: u8)"
proof -
  have "unat b < 256" using unsigned_less [of b, where ?'a = nat] by simp
  then have "unat b div 16 < 256" by (simp add: div_less_iff_less_mult)
  then have "word_of_nat (unat b div 16) = drop_bit 4 b"
    by (simp add: drop_bit_eq_div word_unat_eq_iff unat_div unsigned_of_nat take_bit_nat_eq_self)
  moreover have "word_of_nat (unat b mod 16) = take_bit 4 b"
    by (simp add: take_bit_eq_mod word_unat_eq_iff unat_mod unsigned_of_nat)
  moreover have "push_bit 4 (drop_bit 4 b) OR take_bit 4 b = b"
    by (rule bit_eqI) (auto simp: bit_simps)
  ultimately show ?thesis by simp
qed

lemma parse_hex_pairs_format: "parse_hex_pairs (format_digest256 d) = Inr d"
proof (induction d)
  case (Cons b d)
  have "unat b div 16 < 16"
    using unsigned_less [of b, where ?'a = nat] by (simp add: div_less_iff_less_mult)
  then show ?case
    using Cons hex_pair [of b] by (simp add: format_digest256_def hex_digit_char)
qed (simp add: format_digest256_def)

lemma length_format: "length (format_digest256 d) = 2 * length d"
  by (induction d) (auto simp: format_digest256_def)

lemma length_parse_hex_pairs: "parse_hex_pairs h = Inr d \<Longrightarrow> length d = length h div 2"
  by (induction h arbitrary: d rule: parse_hex_pairs.induct) (auto split: if_splits sum.splits)

lemma make_development_identity_valid:
  assumes "session_hash \<noteq> 0" and "context_limit \<noteq> 0"
  shows "validate_session_identity
    (make_development_identity padding session_hash context_limit sampling) = Inr ()"
  using assms
  by (simp add: validate_session_identity_def make_development_identity_def empty_identity_def
      session_identity_checksum_def Let_def kSessionIdentityDevelopment_def)

section \<open>Properties\<close>

text \<open>
  Digest text round trip: printing a 32-byte digest as hexadecimal and parsing it gives the
  digest back.
\<close>

theorem digest_roundtrip:
  assumes "length digest = 32"
  shows "parse_digest256 (format_digest256 digest) = Inr digest"
  using assms by (simp add: parse_digest256_def parse_hex_pairs_format length_format)

theorem digest_roundtrip_witness:
  "parse_digest256 (format_digest256 (replicate 32 0xA7)) = Inr (replicate 32 0xA7)"
  by (rule digest_roundtrip) simp

text \<open>
  C36: A corrupted identity is rejected: if one byte of a valid identity's memory image is changed
  while the recorded checksum stays, validation fails.
\<close>

theorem identity_corruption_detected:
  assumes "validate_session_identity i = Inr ()"
    and "si_identity_checksum j = si_identity_checksum i"
    and "k < length (identity_bytes (i\<lparr>si_identity_checksum := 0\<rparr>))"
    and "b \<noteq> identity_bytes (i\<lparr>si_identity_checksum := 0\<rparr>) ! k"
    and "identity_bytes (j\<lparr>si_identity_checksum := 0\<rparr>) =
           (identity_bytes (i\<lparr>si_identity_checksum := 0\<rparr>))[k := b]"
  shows "validate_session_identity j \<noteq> Inr ()"
proof
  assume "validate_session_identity j = Inr ()"
  then have "session_identity_checksum j = session_identity_checksum i"
    using assms(1,2) by (auto simp: validate_session_identity_def split: if_splits)
  then have "hash_bytes fnv_basis ((identity_bytes (i\<lparr>si_identity_checksum := 0\<rparr>))[k := b]) =
      hash_bytes fnv_basis (identity_bytes (i\<lparr>si_identity_checksum := 0\<rparr>))"
    unfolding session_identity_checksum_def assms(5) .
  then show False using assms(3,4) by (simp add: hash_bytes_update)
qed

theorem identity_corruption_detected_witness:
  "let i = make_development_identity [0, 0, 0, 0] 7 4096 default_sampling in
   validate_session_identity (i\<lparr>si_session_hash := 9\<rparr>) \<noteq> Inr ()"
proof -
  let ?i = "make_development_identity [0, 0, 0, 0] 7 4096 default_sampling"
  have "validate_session_identity (?i\<lparr>si_session_hash := 9\<rparr>) \<noteq> Inr ()"
  proof (rule identity_corruption_detected [of ?i _ 8 9])
    show "validate_session_identity ?i = Inr ()"
      by (rule make_development_identity_valid) simp_all
    show "identity_bytes (?i\<lparr>si_session_hash := 9\<rparr>\<lparr>si_identity_checksum := 0\<rparr>) =
        (identity_bytes (?i\<lparr>si_identity_checksum := 0\<rparr>))[8 := 9]" by code_simp
    show "8 < length (identity_bytes (?i\<lparr>si_identity_checksum := 0\<rparr>))"
      by code_simp
    show "9 \<noteq> identity_bytes (?i\<lparr>si_identity_checksum := 0\<rparr>) ! 8" by code_simp
  qed simp
  then show ?thesis by (simp add: Let_def)
qed

text \<open>
  Development identities are valid: for a nonzero session and context the identity the
  executor makes up passes validation, whatever the padding bytes of the configuration hold.
\<close>

theorem development_identity_valid:
  assumes "session_hash \<noteq> 0" and "context_limit \<noteq> 0"
  shows "validate_session_identity
    (make_development_identity padding session_hash context_limit sampling) = Inr ()"
  using assms
  by (rule make_development_identity_valid)

theorem development_identity_valid_witness:
  "validate_session_identity (make_development_identity [0, 0, 0, 0] 7 4096 default_sampling) = Inr ()"
  by (rule development_identity_valid) simp_all

text \<open>
  The development identity depends on padding: two configurations that are equal in every
  member but differ in one padding byte get different sampling digests.
\<close>

theorem development_identity_padding:
  assumes "k < length padding" and "b \<noteq> padding ! k"
  shows "si_sampling_parser (make_development_identity (padding[k := b]) sh ctx c) \<noteq>
    si_sampling_parser (make_development_identity padding sh ctx c)"
proof -
  let ?pre = "le_bytes 2 (ucast (mode_code (sc_mode c))) @
     le_bytes 2 (ucast (sc_version c)) @ le_bytes 4 (ucast (sc_top_k c)) @
     le_bytes 4 (ucast (sc_top_p c)) @ le_bytes 4 (ucast (sc_temperature c)) @
     le_bytes 4 (ucast (sc_repetition_penalty c)) @ le_bytes 4 (ucast (sc_frequency_penalty c)) @
     le_bytes 4 (ucast (sc_presence_penalty c))"
  have bytes: "sampling_bytes p c = ?pre @ p @ le_bytes 8 (sc_seed c)" for p
    by (simp add: sampling_bytes_def)
  have "hash_bytes fnv_basis (sampling_bytes (padding[k := b]) c) \<noteq>
      hash_bytes fnv_basis (sampling_bytes padding c)"
    using assms hash_bytes_update [OF assms(1)]
    unfolding bytes by (simp only: hash_bytes_append hash_bytes_inj) simp
  then show ?thesis by (simp add: make_development_identity_def Let_def le_bytes_inj)
qed

theorem development_identity_padding_witness:
  "si_sampling_parser (make_development_identity [0, 1, 0, 0] 7 4096 default_sampling) \<noteq>
   si_sampling_parser (make_development_identity [0, 0, 0, 0] 7 4096 default_sampling)"
  using development_identity_padding [of 1 "[0, 0, 0, 0]" 1] by simp

end
