(* ===== verification/Executor.thy ===== *)
theory Executor
  imports Transaction MockBackend Sampling Identity
begin

text \<open>
  The dual-stage executor of \<^verbatim>\<open>include/q38/executor.h\<close> and \<^verbatim>\<open>src/executor.cc\<close>: the coordinator
  that runs every session transaction on two stage backends. This theory holds the definitions;
  the proofs are in \<open>ExecutorSafety\<close>.

  \<^item> A \<open>StageWorker\<close> is one thread serving a FIFO queue over its own backend, so what a backend
    sees is the sequence of tasks submitted to it. The model runs a task on its backend at the
    point of submission and keeps its outcome as the future; \<open>future_get\<close> raises or returns it.
    The two backends share nothing but the cancellation token.
  \<^item> The token a task is handed is a view of the shared one with its own script of events
    (\<open>ex_views\<close>, one per submission), because the worker polls it while the coordinator goes on.
  \<^item> Elapsed times are read from the script \<open>ex_elapsed\<close>.
\<close>

section \<open>Statistics\<close>

record ExecutorStats =
  xs_transactions :: u64
  xs_append_transactions :: u64
  xs_decode_transactions :: u64
  xs_speculative_transactions :: u64
  xs_evaluated_tokens :: u64
  xs_state_committed_tokens :: u64
  xs_published_tokens :: u64
  xs_drafted_tokens :: u64
  xs_accepted_draft_tokens :: u64
  xs_rejected_draft_tokens :: u64
  xs_maximum_draft_width :: u64
  xs_rollbacks :: u64
  xs_failures :: u64
  xs_cancellations :: u64
  xs_deadline_exceeded :: u64
  xs_sampled_tokens :: u64
  xs_stage0_execute_ns :: u64
  xs_stage1_execute_ns :: u64
  xs_backend_commit_ns :: u64
  xs_draft_ns :: u64
  xs_sampling_ns :: u64

definition empty_stats :: ExecutorStats where
  "empty_stats = \<lparr> xs_transactions = 0, xs_append_transactions = 0, xs_decode_transactions = 0,
     xs_speculative_transactions = 0, xs_evaluated_tokens = 0, xs_state_committed_tokens = 0,
     xs_published_tokens = 0, xs_drafted_tokens = 0, xs_accepted_draft_tokens = 0,
     xs_rejected_draft_tokens = 0, xs_maximum_draft_width = 0, xs_rollbacks = 0, xs_failures = 0,
     xs_cancellations = 0, xs_deadline_exceeded = 0, xs_sampled_tokens = 0,
     xs_stage0_execute_ns = 0, xs_stage1_execute_ns = 0, xs_backend_commit_ns = 0,
     xs_draft_ns = 0, xs_sampling_ns = 0 \<rparr>"

record LatencySummary =
  ls_count :: u64
  ls_total_ns :: u64
  ls_minimum_ns :: u64
  ls_maximum_ns :: u64
  ls_p50_ns :: u64
  ls_p95_ns :: u64
  ls_p99_ns :: u64

record LatencyTracker =
  lt_values :: "u64 list"
  lt_count :: u64
  lt_total :: u64
  lt_minimum :: u64
  lt_maximum :: u64

definition empty_tracker :: LatencyTracker where
  "empty_tracker = \<lparr> lt_values = [], lt_count = 0, lt_total = 0, lt_minimum = 0, lt_maximum = 0 \<rparr>"

definition tracker_record :: "u64 \<Rightarrow> LatencyTracker \<Rightarrow> LatencyTracker" where
  "tracker_record value t =
     (let values = lt_values t @ [value] in
      \<lparr> lt_values = (if length values > 4096 then tl values else values),
        lt_count = lt_count t + 1,
        lt_total = lt_total t + value,
        lt_minimum = (if lt_values t = [] then value else min (lt_minimum t) value),
        lt_maximum = (if lt_values t = [] then value else max (lt_maximum t) value) \<rparr>)"

definition percentile :: "u64 list \<Rightarrow> nat \<Rightarrow> u64" where
  "percentile ordered numerator = ordered ! ((length ordered * numerator + 99) div 100 - 1)"

definition tracker_summary :: "LatencyTracker \<Rightarrow> LatencySummary" where
  "tracker_summary t =
     (let result = \<lparr> ls_count = lt_count t, ls_total_ns = lt_total t, ls_minimum_ns = lt_minimum t,
            ls_maximum_ns = lt_maximum t, ls_p50_ns = 0, ls_p95_ns = 0, ls_p99_ns = 0 \<rparr> in
      if lt_values t = [] then result
      else let ordered = sort (lt_values t) in
        result\<lparr>ls_p50_ns := percentile ordered 50, ls_p95_ns := percentile ordered 95,
          ls_p99_ns := percentile ordered 99\<rparr>)"

section \<open>State\<close>

record ExecutorOptions =
  eo_session_hash :: u64
  eo_hidden_width :: u32
  eo_vocab_size :: u32
  eo_append_chunk_tokens :: u32
  eo_context_limit :: u32
  eo_backend_failure_is_fatal :: bool
  eo_retain_last_logits :: bool
  eo_sampling :: SamplingConfig
  eo_stop_token_ids :: "i32 list"
  eo_identity :: SessionIdentity

definition default_options :: ExecutorOptions where
  "default_options = \<lparr> eo_session_hash = 1, eo_hidden_width = 4 * 2560, eo_vocab_size = 248320,
     eo_append_chunk_tokens = 512, eo_context_limit = 262144, eo_backend_failure_is_fatal = False,
     eo_retain_last_logits = False, eo_sampling = default_sampling, eo_stop_token_ids = [],
     eo_identity = empty_identity \<rparr>"

record DecodeResult =
  dr_commit :: CommitEvent
  dr_published_tokens :: "i32 list"

record LogitSnapshot =
  lg_transaction_epoch :: u64
  lg_target_frontier :: u64
  lg_transaction_kind :: TxnKind
  lg_selected_token :: i32
  lg_logits_bf16 :: "u16 list"

record RetainedDraftRequest =
  rd_pending_token :: i32
  rd_position :: u64
  rd_max_draft :: u32

record ('b0, 'b1) executor =
  ex_options :: ExecutorOptions
  ex_engine :: txn_engine
  ex_sampler :: sampler
  ex_worker0 :: 'b0
  ex_worker1 :: 'b1
  ex_tokens :: "i32 list"
  ex_last_sample :: i32
  ex_have_last_sample :: bool
  ex_last_logit_snapshot :: "LogitSnapshot option"
  ex_poisoned :: bool
  ex_stats :: ExecutorStats
  ex_transaction_latency :: LatencyTracker
  ex_stage0_latency :: LatencyTracker
  ex_stage1_latency :: LatencyTracker
  ex_commit_latency :: LatencyTracker
  ex_draft_latency :: LatencyTracker
  ex_sampling_latency :: LatencyTracker
  ex_cancellation :: "CancellationToken option" \<comment> \<open>the token of the running request\<close>
  ex_elapsed :: "u64 list"
  ex_views :: "env_event list list list"

text \<open>What the executor is linked with: the two virtual tables and the platform's arithmetic.\<close>

record ('b0, 'b1, 'f, 'd) exec_env =
  ev_ops0 :: "'b0 stage_backend_ops"
  ev_ops1 :: "'b1 stage_backend_ops"
  ev_fops :: "('f, 'd) float_ops"

type_synonym ('b0, 'b1, 'a) execM = "(('b0, 'b1) executor, exn, 'a) M"

subsection \<open>Construction\<close>

definition normalize_stops :: "i32 list \<Rightarrow> i32 list" where
  "normalize_stops stops = remdups_adj (sort_key sint stops)"

definition new_executor :: "('b0, 'b1, 'f, 'd) exec_env \<Rightarrow> u8 list \<Rightarrow> ExecutorOptions \<Rightarrow> 'b0 \<Rightarrow> 'b1 \<Rightarrow>
    exn + ('b0, 'b1) executor" where
  "new_executor E padding options stage0 stage1 =
     (case new_sampler (ev_fops E) (eo_vocab_size options) (eo_sampling options) of
        Inl e \<Rightarrow> Inl e
      | Inr sampler \<Rightarrow>
        if op_stage (ev_ops0 E) stage0 \<noteq> Stage0 \<or> op_stage (ev_ops1 E) stage1 \<noteq> Stage1
          then Inl (InvalidArgument ''executor stage ownership is reversed'')
        else if eo_append_chunk_tokens options = 0
          then Inl (InvalidArgument ''append chunk size must be nonzero'')
        else if eo_context_limit options = 0
          then Inl (InvalidArgument ''context limit must be nonzero'')
        else if eo_vocab_size options = 0
          then Inl (InvalidArgument ''vocabulary size must be nonzero'')
        else if \<not> list_all (in_vocabulary (eo_vocab_size options)) (eo_stop_token_ids options)
          then Inl (InvalidArgument ''stop token is outside vocabulary'')
        else
          let options = options\<lparr>eo_stop_token_ids := normalize_stops (eo_stop_token_ids options)\<rparr>;
              options = (if si_identity_checksum (eo_identity options) = 0
                then options\<lparr>eo_identity := make_development_identity padding
                  (eo_session_hash options) (eo_context_limit options) (eo_sampling options)\<rparr>
                else options) in
          (case validate_session_identity (eo_identity options) of
             Inl err \<Rightarrow> Inl (InvalidArgument (''executor session identity mismatch: '' @ err))
           | Inr _ \<Rightarrow>
             if si_session_hash (eo_identity options) \<noteq> eo_session_hash options \<or>
                si_context_limit (eo_identity options) \<noteq> eo_context_limit options
               then Inl (InvalidArgument ''executor session identity mismatch: '')
             else Inr \<lparr> ex_options = options, ex_engine = new_engine (eo_session_hash options),
               ex_sampler = sampler, ex_worker0 = stage0, ex_worker1 = stage1, ex_tokens = [],
               ex_last_sample = - 1, ex_have_last_sample = False, ex_last_logit_snapshot = None,
               ex_poisoned = False, ex_stats = empty_stats,
               ex_transaction_latency = empty_tracker, ex_stage0_latency = empty_tracker,
               ex_stage1_latency = empty_tracker, ex_commit_latency = empty_tracker,
               ex_draft_latency = empty_tracker, ex_sampling_latency = empty_tracker,
               ex_cancellation = None, ex_elapsed = [], ex_views = [] \<rparr>))"

definition mock_env :: "('f, 'd) float_ops \<Rightarrow> (mock_backend, mock_backend, 'f, 'd) exec_env" where
  "mock_env fo = \<lparr> ev_ops0 = mock_ops, ev_ops1 = mock_ops, ev_fops = fo \<rparr>"

definition make_mock_executor :: "('f, 'd) float_ops \<Rightarrow> u8 list \<Rightarrow> ExecutorOptions \<Rightarrow>
    exn + (mock_backend, mock_backend) executor" where
  "make_mock_executor fo padding options =
     (case new_mock_backend Stage0 (eo_hidden_width options) (eo_vocab_size options) of
        Inl e \<Rightarrow> Inl e
      | Inr stage0 \<Rightarrow>
        (case new_mock_backend Stage1 (eo_hidden_width options) (eo_vocab_size options) of
           Inl e \<Rightarrow> Inl e
         | Inr stage1 \<Rightarrow> new_executor (mock_env fo) padding options stage0 stage1))"

section \<open>Primitive steps\<close>

definition add_stat :: "((u64 \<Rightarrow> u64) \<Rightarrow> ExecutorStats \<Rightarrow> ExecutorStats) \<Rightarrow> u64 \<Rightarrow> ('b0, 'b1, unit) execM" where
  "add_stat upd n = modifyM (ex_stats_update (upd (\<lambda>v. v + n)))"

definition elapsed_ns :: "('b0, 'b1, u64) execM" where
  "elapsed_ns = (\<lambda>x. case ex_elapsed x of [] \<Rightarrow> (Inr 0, x)
     | n # ns \<Rightarrow> (Inr n, x\<lparr>ex_elapsed := ns\<rparr>))"

definition ensure_healthy :: "('b0, 'b1, unit) execM" where
  "ensure_healthy = failIf ex_poisoned (RuntimeError ''executor is fail-closed'')"

text \<open>\<open>if (cancellation) cancellation->throw_if_requested()\<close> and \<open>seal()\<close>, by the coordinator.\<close>

definition on_token :: "(CancellationToken, exn, unit) M \<Rightarrow> ('b0, 'b1, unit) execM" where
  "on_token m = (\<lambda>x. case ex_cancellation x of None \<Rightarrow> (Inr (), x)
     | Some t \<Rightarrow> (case m t of (r, t') \<Rightarrow> (r, x\<lparr>ex_cancellation := Some t'\<rparr>)))"

definition check_cancel :: "('b0, 'b1, unit) execM" where
  "check_cancel = on_token throw_if_requested"

definition seal_cancel :: "('b0, 'b1, unit) execM" where
  "seal_cancel = on_token token_seal"

text \<open>The token as the next submitted task will see it.\<close>

definition worker_token :: "('b0, 'b1, CancellationToken option) execM" where
  "worker_token = (\<lambda>x. case ex_cancellation x of None \<Rightarrow> (Inr None, x)
     | Some t \<Rightarrow> (case ex_views x of
         [] \<Rightarrow> (Inr (Some (t\<lparr>tk_env := []\<rparr>)), x)
       | v # vs \<Rightarrow> (Inr (Some (t\<lparr>tk_env := v\<rparr>)), x\<lparr>ex_views := vs\<rparr>)))"

definition submit0 :: "('b0, exn, 'a) M \<Rightarrow> ('b0, 'b1, exn + 'a) execM" where
  "submit0 task = (\<lambda>x. case task (ex_worker0 x) of (r, b) \<Rightarrow> (Inr r, x\<lparr>ex_worker0 := b\<rparr>))"

definition submit1 :: "('b1, exn, 'a) M \<Rightarrow> ('b0, 'b1, exn + 'a) execM" where
  "submit1 task = (\<lambda>x. case task (ex_worker1 x) of (r, b) \<Rightarrow> (Inr r, x\<lparr>ex_worker1 := b\<rparr>))"

definition future_get :: "exn + 'a \<Rightarrow> ('b0, 'b1, 'a) execM" where
  "future_get r = (case r of Inl e \<Rightarrow> throwM e | Inr v \<Rightarrow> returnM v)"

text \<open>A task that measures itself: its time is taken only when it returns.\<close>

definition timed :: "('b0, 'b1, exn + 'a) execM \<Rightarrow> ('b0, 'b1, exn + 'a \<times> u64) execM" where
  "timed m = bindM m (\<lambda>r. case r of Inl e \<Rightarrow> returnM (Inl e)
     | Inr v \<Rightarrow> bindM elapsed_ns (\<lambda>ns. returnM (Inr (v, ns))))"

definition on_engine :: "(string \<Rightarrow> exn) \<Rightarrow> (txn_engine, string, 'a) M \<Rightarrow> ('b0, 'b1, 'a) execM" where
  "on_engine wrap m = zoomM ex_engine (\<lambda>e x. x\<lparr>ex_engine := e\<rparr>) wrap m"

definition on_sampler :: "(sampler, exn, 'a) M \<Rightarrow> ('b0, 'b1, 'a) execM" where
  "on_sampler m = zoomM ex_sampler (\<lambda>s x. x\<lparr>ex_sampler := s\<rparr>) id m"

definition check_vocab :: "i32 \<Rightarrow> string \<Rightarrow> ('b0, 'b1, unit) execM" where
  "check_vocab token message =
     failIf (\<lambda>x. \<not> in_vocabulary (eo_vocab_size (ex_options x)) token) (RuntimeError message)"

section \<open>Rolling back\<close>

definition rollback_prepared :: "('b0, 'b1, 'f, 'd) exec_env \<Rightarrow> u64 \<Rightarrow> ('b0, 'b1, unit) execM" where
  "rollback_prepared E epo =
     thenM (add_stat xs_rollbacks_update 1)
    (catchM
      (bindM (submit0 (op_rollback (ev_ops0 E) epo)) (\<lambda>f0.
       bindM (submit1 (op_rollback (ev_ops1 E) epo)) (\<lambda>f1.
       thenM (future_get f0)
      (thenM (future_get f1)
             (modifyM (\<lambda>x. if eng_active (ex_engine x)
                then x\<lparr>ex_engine := snd (engine_rollback (ex_engine x))\<rparr> else x))))))
      (\<lambda>_. thenM (add_stat xs_failures_update 1) (modifyM (ex_poisoned_update (\<lambda>_. True)))))"

text \<open>The three \<open>catch\<close> clauses of \<open>run_transaction\<close>.\<close>

definition rollback_if_active :: "('b0, 'b1, 'f, 'd) exec_env \<Rightarrow> u64 \<Rightarrow> ('b0, 'b1, unit) execM" where
  "rollback_if_active E epo = whenM (\<lambda>x. eng_active (ex_engine x)) (rollback_prepared E epo)"

definition record_transaction :: "('b0, 'b1, unit) execM" where
  "record_transaction =
     bindM elapsed_ns (\<lambda>ns. modifyM (ex_transaction_latency_update (tracker_record ns)))"

definition on_failure :: "('b0, 'b1, 'f, 'd) exec_env \<Rightarrow> u64 \<Rightarrow> exn \<Rightarrow> ('b0, 'b1, 'a) execM" where
  "on_failure E epo e =
     thenM (add_stat xs_failures_update 1)
    (thenM (case e of
        ExecutionDeadlineExceeded \<Rightarrow>
          thenM (add_stat xs_deadline_exceeded_update 1) (rollback_if_active E epo)
      | ExecutionCancelled \<Rightarrow>
          thenM (add_stat xs_cancellations_update 1) (rollback_if_active E epo)
      | _ \<Rightarrow> thenM (rollback_if_active E epo)
          (whenM (\<lambda>x. eo_backend_failure_is_fatal (ex_options x))
             (modifyM (ex_poisoned_update (\<lambda>_. True)))))
    (thenM record_transaction (throwM e)))"

section \<open>The chunk pipeline\<close>

record pending_stage0 =
  pd_offset :: u32
  pd_count :: u32
  pd_final_chunk :: bool
  pd_tokens :: "i32 list"
  pd_future :: "exn + StageOutput \<times> u64"

definition make_input :: "SessionTxn \<Rightarrow> i32 list \<Rightarrow> u32 \<Rightarrow> bool \<Rightarrow> BoundaryBuffer \<Rightarrow> bool \<Rightarrow>
    CancellationToken option \<Rightarrow> StageInput" where
  "make_input txn tokens offset final boundary need_logits c = \<lparr> in_txn = txn, in_token_ids = tokens,
     in_boundary = boundary, in_chunk_offset = offset, in_final_chunk = final,
     in_need_logits = need_logits, in_cancellation = c \<rparr>"

definition submit_stage0 :: "('b0, 'b1, 'f, 'd) exec_env \<Rightarrow> SessionTxn \<Rightarrow> i32 list \<Rightarrow> u32 \<Rightarrow> u32 \<Rightarrow>
    ('b0, 'b1, pending_stage0) execM" where
  "submit_stage0 E txn eval_tokens chunk_tokens offset =
     (let count = min chunk_tokens (tx_evaluated_count txn - offset);
          final = (offset + count = tx_evaluated_count txn);
          tokens = take (unat count) (drop (unat offset) eval_tokens) in
      bindM worker_token (\<lambda>c.
      bindM (timed (submit0 (op_execute (ev_ops0 E)
        (make_input txn tokens offset final empty_boundary_buffer False c)))) (\<lambda>future.
      returnM \<lparr> pd_offset = offset, pd_count = count, pd_final_chunk = final, pd_tokens = tokens,
        pd_future = future \<rparr>)))"

definition check_stage0_boundary :: "SessionTxn \<Rightarrow> pending_stage0 \<Rightarrow> StageOutput \<Rightarrow> ('b0, 'b1, unit) execM" where
  "check_stage0_boundary txn pending output0 =
     (let frame = bb_frame (out_boundary output0) in
      thenM (liftE (\<lambda>_. map_sum (\<lambda>err. RuntimeError (''stage0 boundary invalid: '' @ err)) id
               (validate_boundary frame (pd_count pending))))
            (failIf (\<lambda>x. bf_session_hash frame \<noteq> tx_session_hash txn \<or> bf_epoch frame \<noteq> tx_epoch txn \<or>
                bf_token_start frame \<noteq> tx_base_target txn + ucast (pd_offset pending) \<or>
                bf_token_count frame \<noteq> pd_count pending \<or>
                bf_hidden_width frame \<noteq> eo_hidden_width (ex_options x))
               (RuntimeError ''stage0 boundary does not match the transaction chunk'')))"

definition submit_stage1 :: "('b0, 'b1, 'f, 'd) exec_env \<Rightarrow> TxnKind \<Rightarrow> SessionTxn \<Rightarrow> pending_stage0 \<Rightarrow>
    StageOutput \<Rightarrow> ('b0, 'b1, exn + StageOutput) execM" where
  "submit_stage1 E kind txn pending output0 =
     bindM (getM (\<lambda>x. (sampled (ex_sampler x) \<or> eo_retain_last_logits (ex_options x)) \<and>
        pd_final_chunk pending \<and> kind \<noteq> Speculative)) (\<lambda>need_logits.
     bindM worker_token (\<lambda>c.
     submit1 (op_execute (ev_ops1 E) (make_input txn (pd_tokens pending) (pd_offset pending)
       (pd_final_chunk pending) (out_boundary output0) need_logits c))))"

text \<open>Waiting for a stage 0 chunk and accounting for it.\<close>

definition await_stage0 :: "pending_stage0 \<Rightarrow> ('b0, 'b1, StageOutput) execM" where
  "await_stage0 pending =
     bindM (future_get (pd_future pending)) (\<lambda>(output0, ns).
     thenM (add_stat xs_stage0_execute_ns_update ns)
    (thenM (modifyM (ex_stage0_latency_update (tracker_record ns)))
           (returnM output0)))"

definition await_stage1 :: "exn + StageOutput \<Rightarrow> ('b0, 'b1, StageOutput) execM" where
  "await_stage1 stage1 =
     bindM (future_get stage1) (\<lambda>output1.
     bindM elapsed_ns (\<lambda>ns.
     thenM (add_stat xs_stage1_execute_ns_update ns)
    (thenM (modifyM (ex_stage1_latency_update (tracker_record ns)))
           (returnM output1))))"

text \<open>
  One chunk through both stages, with stage 0 submitted one chunk ahead. The result is stage 1's
  output, the pending lookahead, and the offset of the next chunk.
\<close>

definition run_chunk :: "('b0, 'b1, 'f, 'd) exec_env \<Rightarrow> TxnKind \<Rightarrow> SessionTxn \<Rightarrow> i32 list \<Rightarrow> u32 \<Rightarrow> bool \<Rightarrow>
    pending_stage0 \<Rightarrow> ('b0, 'b1, StageOutput \<times> pending_stage0 option) execM" where
  "run_chunk E kind txn eval_tokens chunk_tokens retained pending =
     (let next_offset = pd_offset pending + pd_count pending;
          more = next_offset < tx_evaluated_count txn in
      thenM check_cancel
     (bindM (await_stage0 pending) (\<lambda>output0.
      thenM check_cancel
     (thenM (check_stage0_boundary txn pending output0)
     (bindM (submit_stage1 E kind txn pending output0) (\<lambda>stage1.
      thenM (if retained \<and> more
             then bindM (submit0 (op_checkpoint_speculative_prefix (ev_ops0 E) (tx_epoch txn) next_offset))
                    future_get
             else returnM ())
     (bindM (if more then bindM (submit_stage0 E txn eval_tokens chunk_tokens next_offset)
                            (\<lambda>q. returnM (Some q))
             else returnM None) (\<lambda>next0.
      bindM (await_stage1 stage1) (\<lambda>output1.
      thenM check_cancel
     (thenM (check_vocab (out_next_token output1) ''stage1 returned a token outside the vocabulary'')
            (returnM (output1, next0))))))))))))"

text \<open>Rejection of a draft row, or acceptance of a stop: the lookahead is awaited and dropped.\<close>

definition stop_verification :: "pending_stage0 option \<Rightarrow> StageOutput \<Rightarrow> u32 \<Rightarrow> bool \<Rightarrow> i32 \<Rightarrow>
    ('b0, 'b1, StageOutput \<times> u32) execM" where
  "stop_verification next0 output1 next_offset accepted_stop draft_token =
     thenM (case next0 of None \<Rightarrow> returnM () | Some q \<Rightarrow> thenM (await_stage0 q) (returnM ()))
           (returnM (output1\<lparr>out_state_commit_count := next_offset,
              out_next_token := (if accepted_stop then draft_token else out_next_token output1)\<rparr>,
              next_offset))"

fun chunk_loop :: "nat \<Rightarrow> ('b0, 'b1, 'f, 'd) exec_env \<Rightarrow> TxnKind \<Rightarrow> SessionTxn \<Rightarrow> i32 list \<Rightarrow> u32 \<Rightarrow> bool \<Rightarrow>
    pending_stage0 \<Rightarrow> ('b0, 'b1, StageOutput \<times> u32) execM" where
  "chunk_loop 0 E kind txn eval_tokens chunk_tokens retained pending = throwM Diverges"
| "chunk_loop (Suc fuel) E kind txn eval_tokens chunk_tokens retained pending =
     bindM (run_chunk E kind txn eval_tokens chunk_tokens retained pending) (\<lambda>(output1, next0).
     bindM (getM (\<lambda>x. eo_stop_token_ids (ex_options x))) (\<lambda>stops.
     let next_offset = pd_offset pending + pd_count pending;
         continue = (case next0 of
             None \<Rightarrow> returnM (output1, tx_evaluated_count txn)
           | Some q \<Rightarrow> chunk_loop fuel E kind txn eval_tokens chunk_tokens retained q) in
     if retained \<and> next_offset < tx_evaluated_count txn then
       let draft_token = eval_tokens ! unat next_offset;
           accepted = (out_next_token output1 = draft_token);
           accepted_stop = (accepted \<and> draft_token \<in> set stops) in
       if accepted \<and> \<not> accepted_stop then
         thenM (bindM (submit1 (op_reconcile_retained_draft (ev_ops1 E) (tx_epoch txn)
                  (pd_offset pending))) future_get)
               continue
       else stop_verification next0 output1 next_offset accepted_stop draft_token
     else continue))"

section \<open>Drafting\<close>

fun write_draft :: "u32 \<Rightarrow> nat \<Rightarrow> i32 list \<Rightarrow> i32 list \<Rightarrow> exn + i32 list" where
  "write_draft vocab index [] eval_tokens = Inr eval_tokens"
| "write_draft vocab index (token # tokens) eval_tokens =
     (if \<not> in_vocabulary vocab token
        then Inl (RuntimeError ''draft backend returned a token outside the vocabulary'')
      else write_draft vocab (Suc index) tokens (eval_tokens[Suc index := token]))"

definition submit_draft :: "('b0, 'b1, 'f, 'd) exec_env \<Rightarrow> SessionTxn \<Rightarrow> RetainedDraftRequest option \<Rightarrow>
    ('b0, 'b1, (exn + i32 list \<times> u64) option) execM" where
  "submit_draft E txn retained_draft =
     (case retained_draft of
        None \<Rightarrow> returnM None
      | Some request \<Rightarrow>
          bindM worker_token (\<lambda>c.
          bindM (timed (submit1 (op_draft_retained (ev_ops1 E) (rd_pending_token request)
            (rd_position request) (rd_max_draft request) (tx_epoch txn) c))) (\<lambda>future.
          returnM (Some future))))"

definition prefetch :: "('b0, 'b1, 'f, 'd) exec_env \<Rightarrow> TxnKind \<Rightarrow> SessionTxn \<Rightarrow> i32 list \<Rightarrow> u32 \<Rightarrow>
    ('b0, 'b1, unit) execM" where
  "prefetch E kind txn eval_tokens chunk_tokens =
     (if kind = AppendKnown \<and> tx_evaluated_count txn > chunk_tokens then
        bindM worker_token (\<lambda>c.
        bindM (submit0 (op_prefetch_transaction (ev_ops0 E) txn eval_tokens c)) future_get)
      else returnM ())"

definition absorb_draft :: "RetainedDraftRequest \<Rightarrow> exn + i32 list \<times> u64 \<Rightarrow> i32 list \<Rightarrow>
    ('b0, 'b1, i32 list) execM" where
  "absorb_draft request future eval_tokens =
     bindM (future_get future) (\<lambda>(tokens, ns).
     thenM (add_stat xs_draft_ns_update ns)
    (thenM (modifyM (ex_draft_latency_update (tracker_record ns)))
    (thenM (add_stat xs_drafted_tokens_update (word_of_nat (length tokens)))
    (thenM (failIf (\<lambda>_. length tokens \<noteq> unat (rd_max_draft request))
              (RuntimeError ''retained draft backend returned a partial width''))
           (liftE (\<lambda>x. write_draft (eo_vocab_size (ex_options x)) 0 tokens eval_tokens))))))"

text \<open>Everything up to the end of the chunk loop.\<close>

definition evaluate :: "('b0, 'b1, 'f, 'd) exec_env \<Rightarrow> TxnKind \<Rightarrow> SessionTxn \<Rightarrow> i32 list \<Rightarrow> u32 \<Rightarrow>
    RetainedDraftRequest option \<Rightarrow> ('b0, 'b1, i32 list \<times> StageOutput \<times> u32) execM" where
  "evaluate E kind txn eval_tokens chunk_tokens retained_draft =
     bindM (submit_draft E txn retained_draft) (\<lambda>pending_draft.
     thenM (prefetch E kind txn eval_tokens chunk_tokens)
    (bindM (submit_stage0 E txn eval_tokens chunk_tokens 0) (\<lambda>pending0.
     bindM (case (retained_draft, pending_draft) of
              (Some request, Some future) \<Rightarrow> absorb_draft request future eval_tokens
            | _ \<Rightarrow> returnM eval_tokens) (\<lambda>eval_tokens.
     bindM (chunk_loop (unat (tx_evaluated_count txn)) E kind txn eval_tokens chunk_tokens
              (retained_draft \<noteq> None) pending0) (\<lambda>(output1, verified_extent).
     thenM (check_vocab (out_next_token output1) ''stage1 returned a token outside the vocabulary'')
           (returnM (eval_tokens, output1, verified_extent)))))))"

section \<open>Deciding and committing\<close>

definition choose_token :: "('b0, 'b1, 'f, 'd) exec_env \<Rightarrow> TxnKind \<Rightarrow> i32 list \<Rightarrow> StageOutput \<Rightarrow>
    ('b0, 'b1, SamplerDecision option \<times> StageOutput) execM" where
  "choose_token E kind eval_tokens output1 =
     bindM (getM (\<lambda>x. sampled (ex_sampler x))) (\<lambda>is_sampled.
     if is_sampled then
       thenM (failIf (\<lambda>_. kind = Speculative)
                (LogicError ''sampled mode requires non-speculative target decode''))
      (bindM (liftE (\<lambda>x. sampler_prepare (ev_fops E) (ex_sampler x) (out_logits_bf16 output1)
                (if kind = AppendKnown then eval_tokens else []))) (\<lambda>decision.
       bindM elapsed_ns (\<lambda>ns.
       thenM (add_stat xs_sampling_ns_update ns)
      (thenM (modifyM (ex_sampling_latency_update (tracker_record ns)))
      (thenM (check_vocab (sd_token decision) ''sampler returned a token outside the vocabulary'')
             (returnM (Some decision, output1\<lparr>out_next_token := sd_token decision\<rparr>)))))))
     else returnM (None, output1))"

definition check_diagnostics :: "TxnKind \<Rightarrow> StageOutput \<Rightarrow> ('b0, 'b1, unit) execM" where
  "check_diagnostics kind output1 =
     failIf (\<lambda>x. eo_retain_last_logits (ex_options x) \<and> kind \<noteq> Speculative \<and>
         length (out_logits_bf16 output1) \<noteq> unat (eo_vocab_size (ex_options x)))
       (RuntimeError ''diagnostic logits size differs from vocabulary'')"

text \<open>The first accepted stop token ends the published prefix and becomes the pending token. (The
  source indexes \<open>eval_tokens\<close> up to the count the backend reported, which nothing has checked
  yet; the model's search ends with the vector, and a larger count then fails the decision.)\<close>

definition first_stop :: "i32 list \<Rightarrow> i32 list \<Rightarrow> u32 \<Rightarrow> nat option" where
  "first_stop stops eval_tokens count =
     List.find (\<lambda>index. eval_tokens ! index \<in> set stops) [1..<min (unat count) (length eval_tokens)]"

definition truncate_at_stop :: "TxnKind \<Rightarrow> i32 list \<Rightarrow> i32 list \<Rightarrow> StageOutput \<Rightarrow> StageOutput" where
  "truncate_at_stop kind stops eval_tokens output1 =
     (if kind = Speculative \<and> stops \<noteq> [] then
        (case first_stop stops eval_tokens (out_state_commit_count output1) of
           None \<Rightarrow> output1
         | Some index \<Rightarrow> output1\<lparr>out_state_commit_count := word_of_nat index,
             out_next_token := eval_tokens ! index\<rparr>)
      else output1)"

definition shorten_to :: "SessionTxn \<Rightarrow> bool \<Rightarrow> u32 \<Rightarrow> ('b0, 'b1, unit) execM" where
  "shorten_to txn retained verified_extent =
     (if retained \<and> verified_extent < tx_evaluated_count txn then
        thenM (on_engine (\<lambda>err. RuntimeError (''speculative shortening failed: '' @ err))
                 (shorten_speculative verified_extent))
              (add_stat xs_evaluated_tokens_update
                 (- ucast (tx_evaluated_count txn - verified_extent)))
      else returnM ())"

definition coordinate :: "SessionTxn \<Rightarrow> TxnKind \<Rightarrow> StageOutput \<Rightarrow> ('b0, 'b1, u32 \<times> CommitEvent) execM" where
  "coordinate txn kind output1 =
     bindM (getM (\<lambda>x. tx_evaluated_count (eng_txn (ex_engine x)))) (\<lambda>coordinated.
     let ack_error = (\<lambda>err. RuntimeError (''stage acknowledge failed: '' @ err));
         state_commit = (if kind = Speculative then out_state_commit_count output1
                         else tx_evaluated_count txn) in
     thenM (on_engine ack_error (acknowledge Stage0 (tx_epoch txn) coordinated))
    (thenM (on_engine ack_error (acknowledge Stage1 (tx_epoch txn) coordinated))
    (thenM (on_engine (\<lambda>err. RuntimeError (''transaction decision failed: '' @ err))
              (engine_decide state_commit))
    (bindM (on_engine (\<lambda>err. RuntimeError (''coordinator commit failed: '' @ err)) engine_commit)
       (\<lambda>event. returnM (state_commit, event))))))"

definition commit_backends :: "('b0, 'b1, 'f, 'd) exec_env \<Rightarrow> u64 \<Rightarrow> u32 \<Rightarrow> SamplerDecision option \<Rightarrow>
    ('b0, 'b1, unit) execM" where
  "commit_backends E epo state_commit decision =
     catchM
      (bindM (submit0 (op_commit (ev_ops0 E) epo state_commit)) (\<lambda>c0.
       bindM (submit1 (op_commit (ev_ops1 E) epo state_commit)) (\<lambda>c1.
       thenM (future_get c0)
      (thenM (future_get c1)
      (thenM (case decision of None \<Rightarrow> returnM ()
              | Some d \<Rightarrow> thenM (on_sampler (sampler_commit d)) (add_stat xs_sampled_tokens_update 1))
      (bindM elapsed_ns (\<lambda>ns.
       thenM (add_stat xs_backend_commit_ns_update ns)
             (modifyM (ex_commit_latency_update (tracker_record ns))))))))))
      (\<lambda>e. thenM (modifyM (ex_poisoned_update (\<lambda>_. True))) (throwM e))"

definition retain_logits :: "TxnKind \<Rightarrow> CommitEvent \<Rightarrow> StageOutput \<Rightarrow> ('b0, 'b1, unit) execM" where
  "retain_logits kind event output1 =
     whenM (\<lambda>x. eo_retain_last_logits (ex_options x))
       (modifyM (ex_last_logit_snapshot_update (\<lambda>_.
          if kind = Speculative then None
          else Some \<lparr> lg_transaction_epoch = ce_epoch event, lg_target_frontier = ce_target event,
            lg_transaction_kind = ce_kind event, lg_selected_token = out_next_token output1,
            lg_logits_bf16 = out_logits_bf16 output1 \<rparr>)))"

text \<open>Coordination, both commits and the accounting that follows them. (The source moves
  \<open>logits_bf16\<close> into the retained snapshot; no caller reads it from the result.)\<close>

definition commit_verified :: "('b0, 'b1, 'f, 'd) exec_env \<Rightarrow> TxnKind \<Rightarrow> SessionTxn \<Rightarrow> SamplerDecision option \<Rightarrow>
    i32 list \<Rightarrow> StageOutput \<Rightarrow> ('b0, 'b1, CommitEvent \<times> StageOutput \<times> i32 list) execM" where
  "commit_verified E kind txn decision eval_tokens output1 =
     bindM (coordinate txn kind output1) (\<lambda>(state_commit, event).
     thenM (commit_backends E (tx_epoch txn) state_commit decision)
    (thenM (add_stat xs_state_committed_tokens_update (ucast state_commit))
    (thenM (add_stat xs_published_tokens_update (ucast (ce_newly_published event)))
    (thenM (retain_logits kind event output1)
    (thenM record_transaction
           (returnM (event, output1, eval_tokens)))))))"

text \<open>The rest of the \<open>try\<close> block: from the verified output to the recorded result.\<close>

definition settle :: "('b0, 'b1, 'f, 'd) exec_env \<Rightarrow> TxnKind \<Rightarrow> SessionTxn \<Rightarrow> bool \<Rightarrow>
    i32 list \<times> StageOutput \<times> u32 \<Rightarrow> ('b0, 'b1, CommitEvent \<times> StageOutput \<times> i32 list) execM" where
  "settle E kind txn retained = (\<lambda>(eval_tokens, output1, verified_extent).
     bindM (choose_token E kind eval_tokens output1) (\<lambda>(decision, output1).
     thenM (check_diagnostics kind output1)
    (bindM (getM (\<lambda>x. truncate_at_stop kind (eo_stop_token_ids (ex_options x)) eval_tokens output1))
       (\<lambda>output1.
     thenM (shorten_to txn retained verified_extent)
    (thenM seal_cancel
           (commit_verified E kind txn decision eval_tokens output1))))))"

section \<open>Running a transaction\<close>

definition transaction_guards :: "TxnKind \<Rightarrow> i32 list \<Rightarrow> u32 \<Rightarrow> RetainedDraftRequest option \<Rightarrow>
    ('b0, 'b1, unit) execM" where
  "transaction_guards kind eval_tokens chunk_tokens retained_draft =
     thenM ensure_healthy
    (thenM check_cancel
    (thenM (failIf (\<lambda>_. eval_tokens = []) (InvalidArgument ''cannot run an empty transaction''))
    (thenM (failIf (\<lambda>_. chunk_tokens = 0) (InvalidArgument ''transaction chunk size is zero''))
           (failIf (\<lambda>_. case retained_draft of None \<Rightarrow> False
              | Some r \<Rightarrow> kind \<noteq> Speculative \<or> chunk_tokens \<noteq> 1 \<or> rd_max_draft r = 0 \<or>
                  length eval_tokens \<noteq> unat (rd_max_draft r) + 1 \<or>
                  rd_pending_token r \<noteq> hd eval_tokens)
              (InvalidArgument ''retained draft extent differs from speculative transaction'')))))"

definition open_transaction :: "TxnKind \<Rightarrow> u32 \<Rightarrow> u32 \<Rightarrow> ('b0, 'b1, SessionTxn) execM" where
  "open_transaction kind appended_count evaluated =
     thenM (on_engine (\<lambda>err. RuntimeError (''prepare failed: '' @ err))
              (if kind = AppendKnown then prepare_append_known appended_count evaluated
               else engine_prepare kind evaluated))
    (bindM (getM (\<lambda>x. eng_txn (ex_engine x))) (\<lambda>txn.
     thenM (add_stat xs_transactions_update 1)
    (thenM (add_stat xs_evaluated_tokens_update (ucast (tx_evaluated_count txn)))
    (thenM (case kind of
              AppendKnown \<Rightarrow> add_stat xs_append_transactions_update 1
            | Decode \<Rightarrow> add_stat xs_decode_transactions_update 1
            | Speculative \<Rightarrow> add_stat xs_speculative_transactions_update 1
            | KindInvalid \<Rightarrow> returnM ())
           (returnM txn)))))"

definition run_transaction :: "('b0, 'b1, 'f, 'd) exec_env \<Rightarrow> TxnKind \<Rightarrow> i32 list \<Rightarrow> u32 \<Rightarrow> u32 \<Rightarrow>
    RetainedDraftRequest option \<Rightarrow> ('b0, 'b1, CommitEvent \<times> StageOutput \<times> i32 list) execM" where
  "run_transaction E kind eval_tokens chunk_tokens appended_count retained_draft =
     thenM (transaction_guards kind eval_tokens chunk_tokens retained_draft)
    (bindM (open_transaction kind appended_count (word_of_nat (length eval_tokens))) (\<lambda>txn.
     catchM
       (bindM (evaluate E kind txn eval_tokens chunk_tokens retained_draft)
              (settle E kind txn (retained_draft \<noteq> None)))
       (on_failure E (tx_epoch txn))))"

section \<open>The public operations\<close>

text \<open>A request brings its token.\<close>

definition with_token :: "CancellationToken option \<Rightarrow> ('b0, 'b1, 'a) execM \<Rightarrow> ('b0, 'b1, 'a) execM" where
  "with_token c m = thenM (modifyM (ex_cancellation_update (\<lambda>_. c))) m"

definition token_at :: "i32 list \<Rightarrow> u64 \<Rightarrow> exn + i32" where
  "token_at tokens index = (if unat index < length tokens then Inr (tokens ! unat index) else Inl OutOfRange)"

definition x_pending :: "('b0, 'b1) executor \<Rightarrow> u64" where
  "x_pending x = e_canonical (ex_engine x) - e_target (ex_engine x)"

definition x_limit :: "('b0, 'b1) executor \<Rightarrow> u64" where
  "x_limit x = ucast (eo_context_limit (ex_options x))"

definition append_guards :: "i32 list \<Rightarrow> ('b0, 'b1, unit) execM" where
  "append_guards token_ids =
     thenM ensure_healthy
    (thenM check_cancel
    (thenM (failIf (\<lambda>_. token_ids = []) (InvalidArgument ''cannot append zero tokens''))
    (thenM (failIf (\<lambda>x. \<not> list_all (in_vocabulary (eo_vocab_size (ex_options x))) token_ids)
              (InvalidArgument ''token is outside the configured vocabulary''))
    (thenM (failIf (\<lambda>x. length token_ids > unat (x_limit x - min (e_canonical (ex_engine x)) (x_limit x)))
              (LengthError ''append exceeds the configured context limit''))
           (failIf (\<lambda>x. x_pending x > 1) (RuntimeError ''append has more than one pending token''))))))"

definition append :: "('b0, 'b1, 'f, 'd) exec_env \<Rightarrow> i32 list \<Rightarrow> CancellationToken option \<Rightarrow>
    ('b0, 'b1, unit) execM" where
  "append E token_ids cancellation = with_token cancellation
    (thenM (append_guards token_ids)
    (bindM (liftE (\<lambda>x. if x_pending x = 1
              then map_sum id (\<lambda>t. [t]) (token_at (ex_tokens x) (e_target (ex_engine x)))
              else Inr [])) (\<lambda>pending_tokens.
     bindM (getM (\<lambda>x. eo_append_chunk_tokens (ex_options x))) (\<lambda>chunk.
     bindM (run_transaction E AppendKnown (pending_tokens @ token_ids) chunk
              (word_of_nat (length token_ids)) None) (\<lambda>(event, stage1, eval).
     thenM (modifyM (\<lambda>x. x\<lparr>ex_tokens := ex_tokens x @ token_ids\<rparr>))
    (thenM (on_sampler (commit_tokens token_ids))
           (modifyM (\<lambda>x. x\<lparr>ex_last_sample := out_next_token stage1, ex_have_last_sample := True\<rparr>))))))))"

definition seed_decode :: "CancellationToken option \<Rightarrow> ('b0, 'b1, i32) execM" where
  "seed_decode cancellation = with_token cancellation
    (thenM ensure_healthy
    (thenM check_cancel
    (thenM seal_cancel
    (thenM (failIf (\<lambda>x. \<not> ex_have_last_sample x)
              (RuntimeError ''append must produce logits before decode seed''))
    (thenM (failIf (\<lambda>x. e_canonical (ex_engine x) \<ge> x_limit x)
              (LengthError ''decode seed exceeds the context limit''))
    (thenM (on_engine (\<lambda>err. RuntimeError (''decode seed failed: '' @ err)) seed_decode_pending)
    (bindM (getM ex_last_sample) (\<lambda>token.
     thenM (modifyM (\<lambda>x. x\<lparr>ex_tokens := ex_tokens x @ [token]\<rparr>))
    (thenM (on_sampler (commit_token token))
    (thenM (add_stat xs_published_tokens_update 1)
           (returnM token)))))))))))"

text \<open>The body of \<open>decode_one\<close>, which \<open>speculative_step\<close> falls back to with the same token.\<close>

definition decode_body :: "('b0, 'b1, 'f, 'd) exec_env \<Rightarrow> ('b0, 'b1, DecodeResult) execM" where
  "decode_body E =
     thenM ensure_healthy
    (thenM (failIf (\<lambda>x. x_pending x \<noteq> 1) (RuntimeError ''decode requires exactly one pending token''))
    (thenM (failIf (\<lambda>x. e_canonical (ex_engine x) \<ge> x_limit x)
              (LengthError ''decode would exceed the context limit''))
    (bindM (liftE (\<lambda>x. token_at (ex_tokens x) (e_target (ex_engine x)))) (\<lambda>pending.
     bindM (run_transaction E Decode [pending] 1 0 None) (\<lambda>(event, stage1, eval).
     thenM (modifyM (\<lambda>x. x\<lparr>ex_tokens := ex_tokens x @ [out_next_token stage1]\<rparr>))
    (thenM (on_sampler (commit_token (out_next_token stage1)))
    (thenM (modifyM (\<lambda>x. x\<lparr>ex_last_sample := out_next_token stage1\<rparr>))
           (returnM \<lparr> dr_commit = event, dr_published_tokens = [out_next_token stage1] \<rparr>))))))))"

definition decode_one :: "('b0, 'b1, 'f, 'd) exec_env \<Rightarrow> CancellationToken option \<Rightarrow>
    ('b0, 'b1, DecodeResult) execM" where
  "decode_one E cancellation = with_token cancellation (decode_body E)"

definition speculative_stats :: "CommitEvent \<Rightarrow> u32 \<Rightarrow> ('b0, 'b1, unit) execM" where
  "speculative_stats event capped_draft =
     (let accepted_drafts = ce_newly_published event - 1 in
      thenM (add_stat xs_accepted_draft_tokens_update (ucast accepted_drafts))
     (thenM (add_stat xs_rejected_draft_tokens_update (ucast (capped_draft - accepted_drafts)))
            (modifyM (ex_stats_update (xs_maximum_draft_width_update (\<lambda>w. max w (ucast capped_draft)))))))"

definition capped_draft :: "u32 \<Rightarrow> ('b0, 'b1) executor \<Rightarrow> u32" where
  "capped_draft max_draft x =
     ucast (min (ucast max_draft) (x_limit x - e_canonical (ex_engine x) - 1) :: u64)"

text \<open>The speculative transaction proper, once the draft width is settled.\<close>

definition speculate :: "('b0, 'b1, 'f, 'd) exec_env \<Rightarrow> u32 \<Rightarrow> ('b0, 'b1, DecodeResult) execM" where
  "speculate E capped =
     bindM (liftE (\<lambda>x. token_at (ex_tokens x) (e_target (ex_engine x)))) (\<lambda>pending.
     bindM (getM (\<lambda>x. e_target (ex_engine x))) (\<lambda>position.
     bindM (run_transaction E Speculative (pending # replicate (unat capped) 0) 1 0
       (Some \<lparr> rd_pending_token = pending, rd_position = position, rd_max_draft = capped \<rparr>))
       (\<lambda>(event, stage1, eval).
     thenM (speculative_stats event capped)
    (let published = take (unat (ce_newly_published event) - 1) (drop 1 eval) @ [out_next_token stage1] in
     thenM (modifyM (\<lambda>x. x\<lparr>ex_tokens := ex_tokens x @ published\<rparr>))
    (thenM (on_sampler (commit_tokens published))
    (thenM (modifyM (\<lambda>x. x\<lparr>ex_last_sample := out_next_token stage1\<rparr>))
           (returnM \<lparr> dr_commit = event, dr_published_tokens = published \<rparr>)))))))"

definition speculative_step :: "('b0, 'b1, 'f, 'd) exec_env \<Rightarrow> u32 \<Rightarrow> CancellationToken option \<Rightarrow>
    ('b0, 'b1, DecodeResult) execM" where
  "speculative_step E max_draft cancellation = with_token cancellation
    (thenM ensure_healthy
    (thenM check_cancel
    (thenM (failIf (\<lambda>_. max_draft > kMaximumMtpDraftWidth) (InvalidArgument ''MTP draft width exceeds 64''))
    (bindM (getM (\<lambda>x. sampled (ex_sampler x))) (\<lambda>is_sampled.
     if is_sampled \<or> max_draft = 0 then decode_body E
     else
       thenM (failIf (\<lambda>x. x_pending x \<noteq> 1)
                (RuntimeError ''speculative decode requires one pending token''))
      (thenM (failIf (\<lambda>x. e_canonical (ex_engine x) \<ge> x_limit x)
                (LengthError ''speculative decode would exceed the context limit''))
      (bindM (getM (capped_draft max_draft)) (\<lambda>capped.
       if capped = 0 then decode_body E else speculate E capped))))))))"

definition reset_session :: "('b0, 'b1, 'f, 'd) exec_env \<Rightarrow> ('b0, 'b1, unit) execM" where
  "reset_session E =
     thenM ensure_healthy
    (thenM (failIf (\<lambda>x. eng_active (ex_engine x))
              (LogicError ''cannot reset an active executor transaction''))
    (thenM (catchM
        (bindM (submit0 (op_reset_session (ev_ops0 E))) (\<lambda>reset0.
         bindM (submit1 (op_reset_session (ev_ops1 E))) (\<lambda>reset1.
         case (reset0, reset1) of
           (Inl failure, _) \<Rightarrow> throwM failure
         | (Inr _, Inl failure) \<Rightarrow> throwM failure
         | _ \<Rightarrow> returnM ())))
        (\<lambda>e. thenM (modifyM (ex_poisoned_update (\<lambda>_. True)))
           (thenM (add_stat xs_failures_update 1) (throwM e))))
    (thenM (on_engine LogicError engine_reset)
    (thenM (on_sampler sampler_reset)
           (modifyM (\<lambda>x. x\<lparr>ex_tokens := [], ex_last_sample := - 1, ex_have_last_sample := False,
              ex_last_logit_snapshot := None\<rparr>))))))"

definition fail_closed :: "('b0, 'b1, unit) execM" where
  "fail_closed = modifyM (ex_poisoned_update (\<lambda>_. True))"

end
