(* ===== verification/ExecutorSafety.thy ===== *)
theory ExecutorSafety
  imports Executor
begin

text \<open>
  Safety of the executor over any two backends that keep the \<open>stage_backend\<close> contract. The locale
  \<open>dual_stage\<close> states that dependency; its lemmas follow a transaction through the chunk
  pipeline, the commit and the rollback. The interpretation on the mock backends gives the
  properties at the end.
\<close>

section \<open>What a transaction may not touch\<close>

definition core :: "('b0, 'b1) executor \<Rightarrow> ExecutorOptions \<times> txn_engine \<times> sampler \<times> i32 list \<times> i32 \<times>
    bool \<times> LogitSnapshot option \<times> bool" where
  "core x = (ex_options x, ex_engine x, ex_sampler x, ex_tokens x, ex_last_sample x,
     ex_have_last_sample x, ex_last_logit_snapshot x, ex_poisoned x)"

text \<open>The core together with the two backends: the state as far as the session goes.\<close>

definition sess :: "('b0, 'b1) executor \<Rightarrow> (ExecutorOptions \<times> txn_engine \<times> sampler \<times> i32 list \<times> i32 \<times>
    bool \<times> LogitSnapshot option \<times> bool) \<times> 'b0 \<times> 'b1" where
  "sess x = (core x, ex_worker0 x, ex_worker1 x)"

lemma sess_eq: "sess y = sess x \<longleftrightarrow>
    core y = core x \<and> ex_worker0 y = ex_worker0 x \<and> ex_worker1 y = ex_worker1 x"
  by (auto simp: sess_def)

lemma core_eqD:
  assumes "core y = core x"
  shows "ex_options y = ex_options x" "ex_engine y = ex_engine x" "ex_sampler y = ex_sampler x"
    "ex_tokens y = ex_tokens x" "ex_last_sample y = ex_last_sample x"
    "ex_have_last_sample y = ex_have_last_sample x"
    "ex_last_logit_snapshot y = ex_last_logit_snapshot x" "ex_poisoned y = ex_poisoned x"
  using assms by (auto simp: core_def)

lemma keeps_add_stat [simp]: "keeps sess (add_stat upd n)"
  unfolding add_stat_def by (rule keeps_modify) (simp add: sess_def core_def)

lemma keeps_elapsed [simp]: "keeps sess elapsed_ns"
  by (auto simp: keeps_def elapsed_ns_def wp_def sess_def core_def split: list.splits)

lemma keeps_on_token [simp]: "keeps sess (on_token m)"
  by (auto simp: keeps_def on_token_def wp_def sess_def core_def split: option.splits prod.splits sum.splits)

lemma keeps_check_cancel [simp]: "keeps sess check_cancel"
  by (simp add: check_cancel_def)

lemma keeps_seal_cancel [simp]: "keeps sess seal_cancel"
  by (simp add: seal_cancel_def)

lemma keeps_worker_token [simp]: "keeps sess worker_token"
  by (auto simp: keeps_def worker_token_def wp_def sess_def core_def split: option.splits list.splits)

lemma keeps_latency [simp]:
  "keeps sess (modifyM (ex_transaction_latency_update f))"
  "keeps sess (modifyM (ex_stage0_latency_update f))"
  "keeps sess (modifyM (ex_stage1_latency_update f))"
  "keeps sess (modifyM (ex_commit_latency_update f))"
  "keeps sess (modifyM (ex_draft_latency_update f))"
  "keeps sess (modifyM (ex_sampling_latency_update f))"
  by (simp_all add: keeps_def wp_simps sess_def core_def)

lemma keeps_future_get [simp]: "keeps f (future_get r)"
  by (cases r) (simp_all add: future_get_def)

lemma keeps_check_vocab [simp]: "keeps f (check_vocab t m)"
  by (simp add: check_vocab_def)

lemma keeps_record_transaction [simp]: "keeps sess record_transaction"
  unfolding record_transaction_def by (intro pure_intros) simp_all

lemma keeps_await_stage0 [simp]: "keeps sess (await_stage0 p)"
  unfolding await_stage0_def by (intro pure_intros keeps_future_get) (auto intro!: pure_intros)

lemma keeps_await_stage1 [simp]: "keeps sess (await_stage1 r)"
  unfolding await_stage1_def by (intro pure_intros keeps_future_get) simp_all

lemma keeps_check_boundary [simp]: "keeps f (check_stage0_boundary txn p out)"
  unfolding check_stage0_boundary_def Let_def by (intro pure_intros)

lemma keeps_absorb_draft [simp]: "keeps sess (absorb_draft r f ev)"
  unfolding absorb_draft_def by (intro keeps_bind keeps_future_get) (auto intro!: pure_intros)

lemma keeps_choose_token [simp]: "keeps sess (choose_token E k ev out)"
  unfolding choose_token_def by (intro pure_intros keeps_check_vocab) simp_all

lemma keeps_check_diagnostics [simp]: "keeps f (check_diagnostics k out)"
  by (simp add: check_diagnostics_def)

lemma keeps_stop_verification [simp]: "keeps sess (stop_verification q out n a d)"
  unfolding stop_verification_def by (cases q) (auto intro!: pure_intros)

lemma wp_submit0: "wp (submit0 task) Q E x =
    wp task (\<lambda>r b. Q (Inr r) (x\<lparr>ex_worker0 := b\<rparr>)) (\<lambda>e b. Q (Inl e) (x\<lparr>ex_worker0 := b\<rparr>)) (ex_worker0 x)"
  by (simp add: submit0_def wp_def split: prod.splits sum.splits)

lemma wp_submit1: "wp (submit1 task) Q E x =
    wp task (\<lambda>r b. Q (Inr r) (x\<lparr>ex_worker1 := b\<rparr>)) (\<lambda>e b. Q (Inl e) (x\<lparr>ex_worker1 := b\<rparr>)) (ex_worker1 x)"
  by (simp add: submit1_def wp_def split: prod.splits sum.splits)

lemma wp_future_get: "wp (future_get r) Q E x = (case r of Inl e \<Rightarrow> E e x | Inr v \<Rightarrow> Q v x)"
  by (cases r) (simp_all add: future_get_def wp_simps)

lemma wp_await_stage0_returns:
  "wp (await_stage0 p) (\<lambda>out y. sess y = sess x \<and> (\<exists>ns. pd_future p = Inr (out, ns)))
     (\<lambda>_ y. sess y = sess x) x"
proof (cases "pd_future p")
  case (Inl e)
  then show ?thesis by (simp add: await_stage0_def wp_simps wp_future_get)
next
  case (Inr r)
  then show ?thesis
    by (cases r)
       (simp add: await_stage0_def wp_simps wp_future_get add_stat_def sess_def core_def)
qed

lemma wp_await_stage1_returns:
  "wp (await_stage1 r) (\<lambda>out y. sess y = sess x \<and> r = Inr out) (\<lambda>_ y. sess y = sess x) x"
proof (cases r)
  case (Inl e)
  then show ?thesis by (simp add: await_stage1_def wp_simps wp_future_get)
next
  case (Inr out)
  have "wp (bindM elapsed_ns (\<lambda>ns. thenM (add_stat xs_stage1_execute_ns_update ns)
     (thenM (modifyM (ex_stage1_latency_update (tracker_record ns))) (returnM out))))
     (\<lambda>out' y. sess y = sess x \<and> out = out') (\<lambda>_ y. sess y = sess x) x"
    by (rule wp_bind_keeps [where f = sess])
       (auto simp: wp_simps add_stat_def sess_def core_def)
  then show ?thesis using Inr by (auto simp: await_stage1_def wp_simps wp_future_get)
qed

lemma wp_timed:
  assumes "wp m (\<lambda>r y. case r of Inl e \<Rightarrow> Q (Inl e) (sess y) | Inr v \<Rightarrow> \<forall>ns. Q (Inr (v, ns)) (sess y))
     (\<lambda>_ _. False) x"
  shows "wp (timed m) (\<lambda>r y. Q r (sess y)) (\<lambda>_ _. False) x"
  unfolding timed_def
proof (rule wp_bindI [OF assms])
  fix r y
  assume "case r of Inl e \<Rightarrow> Q (Inl e) (sess y) | Inr v \<Rightarrow> \<forall>ns. Q (Inr (v, ns)) (sess y)"
  then show "wp (case r of Inl e \<Rightarrow> returnM (Inl e)
     | Inr v \<Rightarrow> bindM elapsed_ns (\<lambda>ns. returnM (Inr (v, ns)))) (\<lambda>r y. Q r (sess y)) (\<lambda>_ _. False) y"
    by (auto simp: wp_def returnM_def bindM_def elapsed_ns_def sess_def core_def
        split: sum.splits list.splits)
qed simp

section \<open>Where a stage stands in a transaction\<close>

definition stage_live :: "SessionTxn \<Rightarrow> backend_view \<Rightarrow> bool" where
  "stage_live txn v \<longleftrightarrow> bv_frontier v = tx_base_target txn \<and> rollback_ready v (tx_epoch txn)"

definition provisional_at :: "SessionTxn \<Rightarrow> u32 \<Rightarrow> provisional" where
  "provisional_at txn n = \<lparr> pv_epoch = tx_epoch txn, pv_base = tx_base_target txn,
     pv_expected = tx_evaluated_count txn, pv_processed = n, pv_kind = tx_kind txn \<rparr>"

definition stage_at :: "SessionTxn \<Rightarrow> backend_view \<Rightarrow> u32 \<Rightarrow> bool" where
  "stage_at txn v n \<longleftrightarrow> bv_frontier v = tx_base_target txn \<and>
     (bv_open v = None \<and> bv_epoch v < tx_epoch txn \<and> n = 0 \<or> bv_open v = Some (provisional_at txn n))"

lemma stage_at_live: "stage_at txn v n \<Longrightarrow> stage_live txn v"
  by (auto simp: stage_at_def stage_live_def rollback_ready_def provisional_at_def)

lemma chunk_advanced_at:
  assumes "in_txn inp = txn" "bv_frontier v = tx_base_target txn"
  shows "stage_at txn (chunk_advanced v inp) (in_chunk_offset inp + chunk_count inp)"
  using assms by (simp add: stage_at_def chunk_advanced_def provisional_at_def)

lemma chunk_advanced_frame [simp]:
  "bv_checkpoint (chunk_advanced v inp) = bv_checkpoint v"
  "bv_frontier (chunk_advanced v inp) = bv_frontier v"
  by (simp_all add: chunk_advanced_def)

context stage_backend
begin

lemma execute_step:
  assumes "in_txn inp = txn" "stage_live txn (view b)"
  shows "wp (op_execute ops inp)
     (\<lambda>_ b'. stage_at txn (view b') (in_chunk_offset inp + chunk_count inp) \<and>
        bv_checkpoint (view b') = bv_checkpoint (view b))
     (\<lambda>_ b'. stage_live txn (view b') \<and> bv_checkpoint (view b') = bv_checkpoint (view b)) b"
proof -
  have fr: "bv_frontier (view b) = tx_base_target txn" using assms(2) by (simp add: stage_live_def)
  have adv: "stage_at txn (chunk_advanced (view b) inp) (in_chunk_offset inp + chunk_count inp)"
    by (rule chunk_advanced_at [OF assms(1) fr])
  show ?thesis
    by (rule wp_mono [OF execute_law [of inp b]])
       (use adv stage_at_live [OF adv] assms(2) in auto)
qed

lemma rollback_step:
  assumes "stage_live txn (view b)"
  shows "wp (op_rollback ops (tx_epoch txn))
     (\<lambda>_ b'. view_idle (view b') (tx_base_target txn) (tx_epoch txn)) (\<lambda>_ _. False) b"
  using rollback_law [of b "tx_epoch txn"] assms by (simp add: stage_live_def)

end

section \<open>The chunk pipeline\<close>

lemma next_chunk:
  fixes off chunk ev :: u32
  assumes "off < ev" "chunk \<noteq> 0"
  defines "count \<equiv> min chunk (ev - off)"
  shows "unat (off + count) = unat off + unat count" "unat count \<noteq> 0"
    "unat off + unat count \<le> unat ev" "unat count = min (unat chunk) (unat ev - unat off)"
proof -
  have le: "off \<le> ev" using assms(1) by simp
  have sub: "unat (ev - off) = unat ev - unat off" using unat_sub [OF le] .
  show cnt: "unat count = min (unat chunk) (unat ev - unat off)"
    by (simp add: count_def min_def word_le_nat_alt sub)
  show le': "unat off + unat count \<le> unat ev"
    using assms(1) by (simp add: cnt word_less_nat_alt)
  have "unat off + unat count < 2 ^ LENGTH(32)" using le' unat_u32_lt [of ev] by simp
  then show "unat (off + count) = unat off + unat count" using unat_add_lem by blast
  show "unat count \<noteq> 0"
    using assms(1,2) unat_gt_0 [of chunk] by (simp add: cnt word_less_nat_alt)
qed

text \<open>A stage 0 chunk in flight: submitted at \<open>off\<close>, and if it succeeded, its backend has moved on.\<close>

definition pend_ok :: "SessionTxn \<Rightarrow> i32 list \<Rightarrow> u32 \<Rightarrow> u32 \<Rightarrow> pending_stage0 \<Rightarrow> backend_view \<Rightarrow> bool" where
  "pend_ok txn ev chunk off p v \<longleftrightarrow> off < tx_evaluated_count txn \<and> pd_offset p = off \<and>
     pd_count p = min chunk (tx_evaluated_count txn - off) \<and>
     pd_tokens p = take (unat (pd_count p)) (drop (unat off) ev) \<and> stage_live txn v \<and>
     ((\<exists>r. pd_future p = Inr r) \<longrightarrow> stage_at txn v (off + pd_count p))"

lemma write_draft_facts:
  assumes "write_draft vocab i ts ev = Inr ev'" "i + length ts < length ev"
  shows "length ev' = length ev \<and> (\<forall>k \<le> i. ev' ! k = ev ! k) \<and>
    (\<forall>k. i < k \<and> k \<le> i + length ts \<longrightarrow> in_vocabulary vocab (ev' ! k))"
  using assms
proof (induction ts arbitrary: i ev)
  case (Cons t ts)
  have rec: "write_draft vocab (Suc i) ts (ev[Suc i := t]) = Inr ev'" and t: "in_vocabulary vocab t"
    and len: "Suc i + length ts < length (ev[Suc i := t])"
    using Cons.prems by (auto split: if_splits)
  note IH = Cons.IH [OF rec len]
  have "ev' ! Suc i = t" using IH len by auto
  moreover have "ev' ! k = ev ! k" if "k \<le> i" for k using IH that by auto
  moreover have "in_vocabulary vocab (ev' ! k)" if "i < k" "k \<le> i + length (t # ts)" for k
    using IH that t calculation(1) by (cases "k = Suc i") auto
  ultimately show ?case using IH by simp
qed auto

locale dual_stage =
  s0: stage_backend "ev_ops0 E" view0 + s1: stage_backend "ev_ops1 E" view1
  for E :: "('b0, 'b1, 'f, 'd) exec_env" and view0 :: "'b0 \<Rightarrow> backend_view"
    and view1 :: "'b1 \<Rightarrow> backend_view"
begin

text \<open>Both stages can still be rolled back and nothing of the session has changed.\<close>

definition live :: "SessionTxn \<Rightarrow> ('b0, 'b1) executor \<Rightarrow> ('b0, 'b1) executor \<Rightarrow> bool" where
  "live txn x y \<longleftrightarrow> core y = core x \<and> stage_live txn (view0 (ex_worker0 y)) \<and>
     stage_live txn (view1 (ex_worker1 y))"

lemma live_sess: "live txn x y \<Longrightarrow> sess z = sess y \<Longrightarrow> live txn x z"
  by (simp add: live_def sess_eq)

lemma submit_stage0_wp:
  assumes lv: "live txn x y" and off: "off < tx_evaluated_count txn" and chunk: "chunk \<noteq> 0"
    and len: "length ev = unat (tx_evaluated_count txn)"
  shows "wp (submit_stage0 E txn ev chunk off)
    (\<lambda>p z. live txn x z \<and> ex_worker1 z = ex_worker1 y \<and>
       pend_ok txn ev chunk off p (view0 (ex_worker0 z)) \<and>
       bv_checkpoint (view0 (ex_worker0 z)) = bv_checkpoint (view0 (ex_worker0 y)))
    (\<lambda>_ z. False) y"
proof -
  let ?count = "min chunk (tx_evaluated_count txn - off)"
  let ?tokens = "take (unat ?count) (drop (unat off) ev)"
  let ?inp = "\<lambda>c. make_input txn ?tokens off (off + ?count = tx_evaluated_count txn)
      empty_boundary_buffer False c"
  have "length ?tokens = unat ?count" using next_chunk(3) [OF off chunk] len by simp
  then have cc: "chunk_count (?inp c) = ?count" for c
    by (simp add: chunk_count_def make_input_def del: length_take)
  let ?Q = "\<lambda>r w. case w of (co, b0, b1) \<Rightarrow> co = core y \<and> b1 = ex_worker1 y \<and>
      stage_live txn (view0 b0) \<and> bv_checkpoint (view0 b0) = bv_checkpoint (view0 (ex_worker0 y)) \<and>
      ((\<exists>v. r = Inr v) \<longrightarrow> stage_at txn (view0 b0) (off + ?count))"
  have exec: "wp (timed (submit0 (op_execute (ev_ops0 E) (?inp c))))
      (\<lambda>r z. ?Q r (sess z)) (\<lambda>_ _. False) t" if t: "sess t = sess y" for c t
  proof (rule wp_timed)
    have st: "stage_live txn (view0 (ex_worker0 t))"
      using lv t by (simp add: live_def sess_eq)
    have "wp (op_execute (ev_ops0 E) (?inp c))
      (\<lambda>_ b'. stage_at txn (view0 b') (off + ?count) \<and>
         bv_checkpoint (view0 b') = bv_checkpoint (view0 (ex_worker0 t)))
      (\<lambda>_ b'. stage_live txn (view0 b') \<and>
         bv_checkpoint (view0 b') = bv_checkpoint (view0 (ex_worker0 t))) (ex_worker0 t)"
      using s0.execute_step [OF _ st, of "?inp c"] cc [of c]
      by (simp add: make_input_def)
    then show "wp (submit0 (op_execute (ev_ops0 E) (?inp c)))
      (\<lambda>r z. case r of Inl e \<Rightarrow> ?Q (Inl e) (sess z) | Inr v \<Rightarrow> \<forall>ns. ?Q (Inr (v, ns)) (sess z))
      (\<lambda>_ _. False) t"
      unfolding wp_submit0
      by (rule wp_mono) (use t in \<open>auto simp: sess_def core_def stage_at_live\<close>)
  qed
  show ?thesis
    unfolding submit_stage0_def Let_def
  proof (rule wp_bindI)
    show "wp worker_token (\<lambda>_ t. sess t = sess y) (\<lambda>_ _. False) y"
      by (auto simp: worker_token_def wp_def sess_def core_def split: option.splits list.splits)
  qed (rule wp_bindI [OF exec],
       use lv off in \<open>auto simp: wp_simps sess_def live_def pend_ok_def\<close>)
qed

text \<open>Stage 1 on the chunk just produced.\<close>

lemma submit_stage1_wp:
  assumes lv: "live txn x y" and p: "pend_ok txn ev chunk off p v" and chunk: "chunk \<noteq> 0"
    and len: "length ev = unat (tx_evaluated_count txn)"
  shows "wp (submit_stage1 E kind txn p out0)
    (\<lambda>r z. live txn x z \<and> ex_worker0 z = ex_worker0 y \<and>
       ((\<exists>out. r = Inr out) \<longrightarrow> stage_at txn (view1 (ex_worker1 z)) (off + pd_count p)))
    (\<lambda>_ _. False) y"
proof -
  have off: "off < tx_evaluated_count txn" and po: "pd_offset p = off"
    and cnt: "pd_count p = min chunk (tx_evaluated_count txn - off)"
    and tok: "pd_tokens p = take (unat (pd_count p)) (drop (unat off) ev)"
    using p by (simp_all add: pend_ok_def)
  have "length (pd_tokens p) = unat (pd_count p)"
    using next_chunk(3) [OF off chunk] len cnt tok by simp
  then have cc: "chunk_count (make_input txn (pd_tokens p) o' fi bo nl c) = pd_count p" for o' fi bo nl c
    by (simp add: chunk_count_def make_input_def)
  have exec: "wp (submit1 (op_execute (ev_ops1 E) (make_input txn (pd_tokens p) (pd_offset p) fi bo nl c)))
    (\<lambda>r z. live txn x z \<and> ex_worker0 z = ex_worker0 y \<and>
       ((\<exists>out. r = Inr out) \<longrightarrow> stage_at txn (view1 (ex_worker1 z)) (off + pd_count p)))
    (\<lambda>_ _. False) t" if t: "sess t = sess y" for fi bo nl c t
  proof -
    have st: "stage_live txn (view1 (ex_worker1 t))" using lv t by (simp add: live_def sess_eq)
    show ?thesis
      unfolding wp_submit1
      by (rule wp_mono [OF s1.execute_step [OF _ st]])
         (use lv t cc po in \<open>auto simp: make_input_def live_def sess_def core_def stage_at_live\<close>)
  qed
  show ?thesis
    unfolding submit_stage1_def wp_bindM wp_getM
  proof (rule wp_mono)
    show "wp worker_token (\<lambda>_ t. sess t = sess y) (\<lambda>_ _. False) y"
      by (auto simp: worker_token_def wp_def sess_def core_def split: option.splits list.splits)
  qed (use exec in auto)
qed

lemma checkpoint_wp:
  assumes lv: "live txn x y" and at: "stage_at txn (view0 (ex_worker0 y)) n"
  shows "wp (if b then bindM (submit0 (op_checkpoint_speculative_prefix (ev_ops0 E) (tx_epoch txn) n))
           future_get else returnM ())
    (\<lambda>_ z. live txn x z \<and> ex_worker1 z = ex_worker1 y \<and> stage_at txn (view0 (ex_worker0 z)) n \<and>
       (b \<longrightarrow> bv_checkpoint (view0 (ex_worker0 z)) = n))
    (\<lambda>_ z. live txn x z) y"
proof (cases b)
  case True
  have "wp (op_checkpoint_speculative_prefix (ev_ops0 E) (tx_epoch txn) n)
    (\<lambda>_ b'. stage_at txn (view0 b') n \<and> bv_checkpoint (view0 b') = n)
    (\<lambda>_ b'. stage_at txn (view0 b') n) (ex_worker0 y)"
    by (rule wp_mono [OF s0.checkpoint_law]) (use at in \<open>auto simp: stage_at_def\<close>)
  then have "wp (submit0 (op_checkpoint_speculative_prefix (ev_ops0 E) (tx_epoch txn) n))
    (\<lambda>r z. live txn x z \<and> ex_worker1 z = ex_worker1 y \<and> stage_at txn (view0 (ex_worker0 z)) n \<and>
       ((\<exists>v. r = Inr v) \<longrightarrow> bv_checkpoint (view0 (ex_worker0 z)) = n)) (\<lambda>_ _. False) y"
    unfolding wp_submit0
    by (rule wp_mono) (use lv in \<open>auto simp: live_def core_def stage_at_live\<close>)
  then show ?thesis
    unfolding if_P [OF True]
    by (rule wp_bindI) (auto simp: wp_future_get split: sum.splits)
qed (use lv at in \<open>simp add: wp_simps\<close>)

lemma lookahead_wp:
  assumes lv: "live txn x y" and at: "stage_at txn (view0 (ex_worker0 y)) n" and chunk: "chunk \<noteq> 0"
    and len: "length ev = unat (tx_evaluated_count txn)"
  shows "wp (if n < tx_evaluated_count txn
       then bindM (submit_stage0 E txn ev chunk n) (\<lambda>q. returnM (Some q)) else returnM None)
    (\<lambda>next0 z. live txn x z \<and> ex_worker1 z = ex_worker1 y \<and>
       (case next0 of
          None \<Rightarrow> \<not> n < tx_evaluated_count txn \<and> stage_at txn (view0 (ex_worker0 z)) n
        | Some q \<Rightarrow> n < tx_evaluated_count txn \<and> pend_ok txn ev chunk n q (view0 (ex_worker0 z)) \<and>
            bv_checkpoint (view0 (ex_worker0 z)) = bv_checkpoint (view0 (ex_worker0 y))))
    (\<lambda>_ _. False) y"
proof (cases "n < tx_evaluated_count txn")
  case True
  then show ?thesis
    unfolding if_P [OF True]
    by (intro wp_bindI [OF submit_stage0_wp [OF lv True chunk len]]) (auto simp: wp_simps)
qed (use lv at in \<open>simp add: wp_simps\<close>)

lemma run_chunk_wp:
  assumes lv: "live txn x y" and p: "pend_ok txn ev chunk off p (view0 (ex_worker0 y))"
    and chunk: "chunk \<noteq> 0" and len: "length ev = unat (tx_evaluated_count txn)"
  shows "wp (run_chunk E kind txn ev chunk retained p)
    (\<lambda>(out1, next0) z. live txn x z \<and>
       in_vocabulary (eo_vocab_size (ex_options x)) (out_next_token out1) \<and>
       stage_at txn (view1 (ex_worker1 z)) (off + pd_count p) \<and>
       (case next0 of
          None \<Rightarrow> \<not> off + pd_count p < tx_evaluated_count txn \<and>
            stage_at txn (view0 (ex_worker0 z)) (off + pd_count p)
        | Some q \<Rightarrow> off + pd_count p < tx_evaluated_count txn \<and>
            pend_ok txn ev chunk (off + pd_count p) q (view0 (ex_worker0 z)) \<and>
            (retained \<longrightarrow> bv_checkpoint (view0 (ex_worker0 z)) = off + pd_count p)))
    (\<lambda>_ z. live txn x z) y"
proof -
  let ?n = "off + pd_count p"
  have po: "pd_offset p = off" using p by (simp add: pend_ok_def)
  let ?Q = "(\<lambda>(out1, next0) z. live txn x z \<and>
       in_vocabulary (eo_vocab_size (ex_options x)) (out_next_token out1) \<and>
       stage_at txn (view1 (ex_worker1 z)) ?n \<and>
       (case next0 of
          None \<Rightarrow> \<not> ?n < tx_evaluated_count txn \<and> stage_at txn (view0 (ex_worker0 z)) ?n
        | Some q \<Rightarrow> ?n < tx_evaluated_count txn \<and> pend_ok txn ev chunk ?n q (view0 (ex_worker0 z)) \<and>
            (retained \<longrightarrow> bv_checkpoint (view0 (ex_worker0 z)) = ?n)))"
  have finish: "wp (bindM (await_stage1 stage1) (\<lambda>out1. thenM check_cancel
      (thenM (check_vocab (out_next_token out1) ''stage1 returned a token outside the vocabulary'')
        (returnM (out1, next0))))) ?Q (\<lambda>_ z. live txn x z) t"
    if "live txn x t" "\<exists>out. stage1 = Inr out \<Longrightarrow> stage_at txn (view1 (ex_worker1 t)) ?n"
      "case next0 of
          None \<Rightarrow> \<not> ?n < tx_evaluated_count txn \<and> stage_at txn (view0 (ex_worker0 t)) ?n
        | Some q \<Rightarrow> ?n < tx_evaluated_count txn \<and> pend_ok txn ev chunk ?n q (view0 (ex_worker0 t)) \<and>
            (retained \<longrightarrow> bv_checkpoint (view0 (ex_worker0 t)) = ?n)" for stage1 next0 t
  proof (rule wp_bindI [OF wp_await_stage1_returns], rule wp_then_keeps [OF keeps_check_cancel])
    fix out1 u w
    assume u: "sess u = sess t \<and> stage1 = Inr out1" and w: "sess w = sess u"
    have same: "sess w = sess t" using u w by simp
    then have lw: "live txn x w" using that(1) by (rule live_sess [rotated])
    have opt: "ex_options w = ex_options x" using lw core_eqD(1) by (auto simp: live_def)
    show "wp (thenM (check_vocab (out_next_token out1) ''stage1 returned a token outside the vocabulary'')
        (returnM (out1, next0))) ?Q (\<lambda>_ z. live txn x z) w"
      using lw same u that(2,3) opt by (auto simp: check_vocab_def wp_simps sess_eq split: option.splits)
  qed (use that(1) live_sess in blast)+
  have tail: "wp (bindM (submit_stage1 E kind txn p out0) (\<lambda>stage1.
      thenM (if retained \<and> ?n < tx_evaluated_count txn
        then bindM (submit0 (op_checkpoint_speculative_prefix (ev_ops0 E) (tx_epoch txn) ?n)) future_get
        else returnM ())
      (bindM (if ?n < tx_evaluated_count txn then bindM (submit_stage0 E txn ev chunk ?n)
           (\<lambda>q. returnM (Some q)) else returnM None) (\<lambda>next0.
       bindM (await_stage1 stage1) (\<lambda>out1. thenM check_cancel
      (thenM (check_vocab (out_next_token out1) ''stage1 returned a token outside the vocabulary'')
        (returnM (out1, next0)))))))) ?Q (\<lambda>_ z. live txn x z) t"
    if t: "sess t = sess y" and at: "stage_at txn (view0 (ex_worker0 t)) ?n" for t out0
  proof (rule wp_bindI [OF submit_stage1_wp [OF live_sess [OF lv t] p chunk len]])
    fix stage1 :: "exn + StageOutput" and u
    assume u: "live txn x u \<and> ex_worker0 u = ex_worker0 t \<and>
       ((\<exists>out. stage1 = Inr out) \<longrightarrow> stage_at txn (view1 (ex_worker1 u)) ?n)"
    then have lu: "live txn x u" and atu: "stage_at txn (view0 (ex_worker0 u)) ?n" using at by auto
    show "wp (thenM (if retained \<and> ?n < tx_evaluated_count txn
        then bindM (submit0 (op_checkpoint_speculative_prefix (ev_ops0 E) (tx_epoch txn) ?n)) future_get
        else returnM ())
      (bindM (if ?n < tx_evaluated_count txn then bindM (submit_stage0 E txn ev chunk ?n)
           (\<lambda>q. returnM (Some q)) else returnM None) (\<lambda>next0.
       bindM (await_stage1 stage1) (\<lambda>out1. thenM check_cancel
      (thenM (check_vocab (out_next_token out1) ''stage1 returned a token outside the vocabulary'')
        (returnM (out1, next0))))))) ?Q (\<lambda>_ z. live txn x z) u"
    proof (rule wp_thenI [OF checkpoint_wp [OF lu atu]])
      fix v
      assume v: "live txn x v \<and> ex_worker1 v = ex_worker1 u \<and> stage_at txn (view0 (ex_worker0 v)) ?n \<and>
        (retained \<and> ?n < tx_evaluated_count txn \<longrightarrow> bv_checkpoint (view0 (ex_worker0 v)) = ?n)"
      show "wp (bindM (if ?n < tx_evaluated_count txn then bindM (submit_stage0 E txn ev chunk ?n)
           (\<lambda>q. returnM (Some q)) else returnM None) (\<lambda>next0.
         bindM (await_stage1 stage1) (\<lambda>out1. thenM check_cancel
         (thenM (check_vocab (out_next_token out1) ''stage1 returned a token outside the vocabulary'')
        (returnM (out1, next0)))))) ?Q (\<lambda>_ z. live txn x z) v"
        by (rule wp_bindI [OF lookahead_wp [OF _ _ chunk len], of x], use v in blast, use v in blast,
            rule finish) (use u v in \<open>auto split: option.splits\<close>)
    qed simp
  qed simp
  have at: "stage_at txn (view0 (ex_worker0 y)) ?n" if "\<exists>r. pd_future p = Inr r"
    using p that unfolding pend_ok_def by blast
  show ?thesis
    unfolding run_chunk_def Let_def po
    apply (rule wp_then_keeps [OF keeps_check_cancel])
     apply (rule wp_bindI [OF wp_await_stage0_returns])
      apply (rule wp_then_keeps [OF keeps_check_cancel])
       apply (rule wp_then_keeps [where f = sess, OF keeps_check_boundary])
        apply (rule tail)
    using lv at by (auto simp: sess_eq intro: live_sess)
qed

text \<open>What the loop leaves: a complete transaction, or a verified prefix of a speculative one, with
  stage 0 one checkpointed row ahead and no stop token strictly inside the prefix.\<close>

definition verified :: "SessionTxn \<Rightarrow> i32 list \<Rightarrow> i32 list \<Rightarrow> bool \<Rightarrow> StageOutput \<Rightarrow> u32 \<Rightarrow>
    ('b0, 'b1) executor \<Rightarrow> bool" where
  "verified txn ev stops retained out1 ext z \<longleftrightarrow>
     ext = tx_evaluated_count txn \<and> stage_at txn (view0 (ex_worker0 z)) ext \<and>
       stage_at txn (view1 (ex_worker1 z)) ext \<or>
     retained \<and> ext \<noteq> 0 \<and> ext < tx_evaluated_count txn \<and>
       stage_at txn (view0 (ex_worker0 z)) (ext + 1) \<and> bv_checkpoint (view0 (ex_worker0 z)) = ext \<and>
       stage_at txn (view1 (ex_worker1 z)) ext \<and> out_state_commit_count out1 = ext \<and>
       (\<forall>i. 1 \<le> i \<and> i < unat ext \<longrightarrow> ev ! i \<notin> set stops)"

lemma verified_sess: "verified txn ev stops r out ext y \<Longrightarrow> sess z = sess y \<Longrightarrow> verified txn ev stops r out ext z"
  by (simp add: verified_def sess_eq)

lemma reconcile_wp:
  assumes "live txn x y"
  shows "wp (bindM (submit1 (op_reconcile_retained_draft (ev_ops1 E) e n)) future_get)
    (\<lambda>_ z. live txn x z \<and> ex_worker0 z = ex_worker0 y \<and> view1 (ex_worker1 z) = view1 (ex_worker1 y))
    (\<lambda>_ z. live txn x z) y"
proof -
  have "wp (submit1 (op_reconcile_retained_draft (ev_ops1 E) e n))
    (\<lambda>r z. live txn x z \<and> ex_worker0 z = ex_worker0 y \<and> view1 (ex_worker1 z) = view1 (ex_worker1 y))
    (\<lambda>_ _. False) y"
    unfolding wp_submit1
    by (rule wp_mono [OF s1.reconcile_law]) (use assms in \<open>auto simp: live_def core_def\<close>)
  then show ?thesis by (rule wp_bindI) (auto simp: wp_future_get split: sum.splits)
qed

lemma stop_verification_wp:
  assumes lv: "live txn x y" and q: "pend_ok txn ev 1 n q (view0 (ex_worker0 y))"
    and cp: "bv_checkpoint (view0 (ex_worker0 y)) = n" and at: "stage_at txn (view1 (ex_worker1 y)) n"
    and n: "n \<noteq> 0" and voc: "in_vocabulary vocab (out_next_token out1)"
    and acc: "a \<Longrightarrow> d = out_next_token out1"
    and stops: "\<And>i. 1 \<le> i \<Longrightarrow> i < unat n \<Longrightarrow> ev ! i \<notin> set stops"
  shows "wp (stop_verification (Some q) out1 n a d)
    (\<lambda>(out, ext) z. live txn x z \<and> in_vocabulary vocab (out_next_token out) \<and>
       verified txn ev stops True out ext z) (\<lambda>_ z. live txn x z) y"
proof -
  have off: "n < tx_evaluated_count txn" and min1: "pd_count q = min 1 (tx_evaluated_count txn - n)"
    using q by (simp_all add: pend_ok_def)
  have "unat (pd_count q) = 1"
    using next_chunk(4) [OF off, of 1] off by (simp add: min1 word_less_nat_alt)
  then have cnt: "pd_count q = 1" by (simp add: word_unat_eq_iff)
  have fut: "stage_at txn (view0 (ex_worker0 y)) (n + 1)" if "pd_future q = Inr r" for r
    using q that cnt unfolding pend_ok_def by metis
  have "wp (thenM (await_stage0 q) (returnM ()))
      (\<lambda>_ z. sess z = sess y \<and> stage_at txn (view0 (ex_worker0 y)) (n + 1)) (\<lambda>_ z. sess z = sess y) y"
    by (rule wp_thenI [OF wp_await_stage0_returns]) (use fut in \<open>auto simp: wp_simps\<close>)
  then have "wp (stop_verification (Some q) out1 n a d)
      (\<lambda>(out, ext) z. sess z = sess y \<and> stage_at txn (view0 (ex_worker0 y)) (n + 1) \<and> ext = n \<and>
         out = out1\<lparr>out_state_commit_count := n,
           out_next_token := (if a then d else out_next_token out1)\<rparr>)
      (\<lambda>_ z. sess z = sess y) y"
    unfolding stop_verification_def option.case
    by (rule wp_thenI) (auto simp: wp_simps)
  then show ?thesis
    by (rule wp_mono)
       (use lv off cp at n voc acc stops in \<open>auto simp: verified_def sess_eq live_def\<close>)
qed

lemma chunk_loop_wp:
  assumes "live txn x y" "pend_ok txn ev chunk off p (view0 (ex_worker0 y))"
    "chunk \<noteq> 0" "retained \<Longrightarrow> chunk = 1" "length ev = unat (tx_evaluated_count txn)"
    "unat (tx_evaluated_count txn) - unat off \<le> fuel"
    "\<And>i. retained \<Longrightarrow> 1 \<le> i \<Longrightarrow> i \<le> unat off \<Longrightarrow> ev ! i \<notin> set (eo_stop_token_ids (ex_options x))"
  shows "wp (chunk_loop fuel E kind txn ev chunk retained p)
    (\<lambda>(out1, ext) z. live txn x z \<and>
       in_vocabulary (eo_vocab_size (ex_options x)) (out_next_token out1) \<and>
       verified txn ev (eo_stop_token_ids (ex_options x)) retained out1 ext z)
    (\<lambda>_ z. live txn x z) y"
  using assms(1,2,6,7)
proof (induction fuel arbitrary: off p y)
  case 0
  then show ?case by (auto simp: pend_ok_def word_less_nat_alt)
next
  case (Suc fuel)
  let ?stops = "eo_stop_token_ids (ex_options x)"
  let ?n = "off + pd_count p"
  let ?Q = "\<lambda>(out1, ext) z. live txn x z \<and>
       in_vocabulary (eo_vocab_size (ex_options x)) (out_next_token out1) \<and>
       verified txn ev ?stops retained out1 ext z"
  have off: "off < tx_evaluated_count txn" and po: "pd_offset p = off"
    and cnt: "pd_count p = min chunk (tx_evaluated_count txn - off)"
    using Suc.prems(2) by (simp_all add: pend_ok_def)
  note nx = next_chunk [OF off assms(3), folded cnt]
  have next1: "unat ?n = Suc (unat off)" if retained
    using nx off assms(4) [OF that] by (simp add: word_less_nat_alt min_def split: if_splits)
  show ?case
    unfolding chunk_loop.simps
  proof (rule wp_bindI [OF run_chunk_wp [OF Suc.prems(1,2) assms(3,5)]], clarify, unfold wp_bindM wp_getM)
    fix out1 :: StageOutput and next0 z
    assume lz: "live txn x z"
      and voc: "in_vocabulary (eo_vocab_size (ex_options x)) (out_next_token out1)"
      and at1: "stage_at txn (view1 (ex_worker1 z)) ?n"
      and nxt: "case next0 of
          None \<Rightarrow> \<not> ?n < tx_evaluated_count txn \<and> stage_at txn (view0 (ex_worker0 z)) ?n
        | Some q \<Rightarrow> ?n < tx_evaluated_count txn \<and> pend_ok txn ev chunk ?n q (view0 (ex_worker0 z)) \<and>
            (retained \<longrightarrow> bv_checkpoint (view0 (ex_worker0 z)) = ?n)"
    have stops: "eo_stop_token_ids (ex_options z) = ?stops"
      using lz core_eqD(1) [of z x] by (simp add: live_def)
    have cont: "wp (case next0 of None \<Rightarrow> returnM (out1, tx_evaluated_count txn)
        | Some q \<Rightarrow> chunk_loop fuel E kind txn ev chunk retained q) ?Q (\<lambda>_ z. live txn x z) w"
      if lw: "live txn x w" and same: "ex_worker0 w = ex_worker0 z"
        "view1 (ex_worker1 w) = view1 (ex_worker1 z)"
        and acc: "retained \<Longrightarrow> ?n < tx_evaluated_count txn \<Longrightarrow> ev ! unat ?n \<notin> set ?stops" for w
    proof (cases next0)
      case None
      then have "?n = tx_evaluated_count txn"
        using nxt nx by (simp add: word_unat_eq_iff word_less_nat_alt)
      then show ?thesis
        using None nxt lw same at1 voc by (simp add: wp_simps verified_def)
    next
      case (Some q)
      have "wp (chunk_loop fuel E kind txn ev chunk retained q) ?Q (\<lambda>_ z. live txn x z) w"
      proof (rule Suc.IH [of _ ?n])
        show "live txn x w" by (rule lw)
        show "pend_ok txn ev chunk ?n q (view0 (ex_worker0 w))" using nxt Some same by simp
        show "unat (tx_evaluated_count txn) - unat ?n \<le> fuel"
          using Suc.prems(3) nx(1-3) by linarith
        show "ev ! i \<notin> set ?stops" if "retained" "1 \<le> i" "i \<le> unat ?n" for i
          using that Suc.prems(4) [of i] acc nxt Some next1 by (cases "i \<le> unat off") (auto simp: le_Suc_eq)
      qed
      then show ?thesis using Some by simp
    qed
    show "wp (let next_offset = pd_offset p + pd_count p;
         continue = (case next0 of None \<Rightarrow> returnM (out1, tx_evaluated_count txn)
           | Some q \<Rightarrow> chunk_loop fuel E kind txn ev chunk retained q) in
       if retained \<and> next_offset < tx_evaluated_count txn then
         let draft_token = ev ! unat next_offset; accepted = (out_next_token out1 = draft_token);
             accepted_stop = (accepted \<and> draft_token \<in> set (eo_stop_token_ids (ex_options z))) in
         if accepted \<and> \<not> accepted_stop then
           thenM (bindM (submit1 (op_reconcile_retained_draft (ev_ops1 E) (tx_epoch txn) (pd_offset p)))
             future_get) continue
         else stop_verification next0 out1 next_offset accepted_stop draft_token
       else continue) ?Q (\<lambda>_ z. live txn x z) z"
    proof (cases "retained \<and> ?n < tx_evaluated_count txn")
      case False
      then show ?thesis using cont [OF lz] by (auto simp: po Let_def)
    next
      case True
      show ?thesis
      proof (cases "out_next_token out1 = ev ! unat ?n \<and> ev ! unat ?n \<notin> set ?stops")
        case acc: True
        have "wp (thenM (bindM (submit1 (op_reconcile_retained_draft (ev_ops1 E) (tx_epoch txn) off))
             future_get) (case next0 of None \<Rightarrow> returnM (out1, tx_evaluated_count txn)
        | Some q \<Rightarrow> chunk_loop fuel E kind txn ev chunk retained q)) ?Q (\<lambda>_ z. live txn x z) z"
          by (rule wp_thenI [OF reconcile_wp [OF lz] cont]) (use acc in auto)
        then show ?thesis using True acc by (simp add: po Let_def stops)
      next
        case rej: False
        obtain q where q: "next0 = Some q" "pend_ok txn ev 1 ?n q (view0 (ex_worker0 z))"
          "bv_checkpoint (view0 (ex_worker0 z)) = ?n"
          using nxt True assms(4) by (cases next0) auto
        have nz: "?n \<noteq> 0" using nx by (metis add_is_0 unat_0)
        have "wp (stop_verification (Some q) out1 ?n
            (out_next_token out1 = ev ! unat ?n \<and> ev ! unat ?n \<in> set ?stops) (ev ! unat ?n))
            ?Q (\<lambda>_ z. live txn x z) z"
          by (rule wp_mono [OF stop_verification_wp [OF lz q(2,3) at1 nz voc, where stops = ?stops]])
             (use True next1 Suc.prems(4) in auto)
        then show ?thesis using True rej q(1) by (simp add: po Let_def stops)
      qed
    qed
  qed simp
qed

subsection \<open>Drafting and the whole evaluation\<close>

lemma worker_token_wp: "wp worker_token (\<lambda>_ t. sess t = sess y) (\<lambda>_ _. False) y"
  by (auto simp: worker_token_def wp_def sess_def core_def split: option.splits list.splits)

lemma submit_draft_wp:
  assumes lv: "live txn x y"
  shows "wp (submit_draft E txn rd)
    (\<lambda>f z. live txn x z \<and> (f = None \<longleftrightarrow> rd = None)) (\<lambda>_ z. False) y"
proof (cases rd)
  case None
  then show ?thesis using lv by (simp add: submit_draft_def wp_simps)
next
  case (Some r)
  let ?Q = "\<lambda>w. case w of (co, b0, b1) \<Rightarrow> co = core x \<and> stage_live txn (view0 b0) \<and> stage_live txn (view1 b1)"
  have task: "wp (timed (submit1 (op_draft_retained (ev_ops1 E) t p n e c)))
      (\<lambda>_ z. ?Q (sess z)) (\<lambda>_ _. False) u" if u: "sess u = sess y" for t p n e c u
  proof (rule wp_timed)
    show "wp (submit1 (op_draft_retained (ev_ops1 E) t p n e c))
      (\<lambda>r z. case r of Inl e \<Rightarrow> ?Q (sess z) | Inr v \<Rightarrow> \<forall>ns. ?Q (sess z)) (\<lambda>_ _. False) u"
      unfolding wp_submit1
      by (rule wp_mono [OF s1.draft_retained_law])
         (use lv u in \<open>auto simp: live_def sess_def core_def\<close>)
  qed
  show ?thesis
    unfolding submit_draft_def Some option.case
    by (rule wp_bindI [OF worker_token_wp], rule wp_bindI [OF task])
       (auto simp: wp_simps live_def sess_def)
qed

lemma prefetch_wp:
  assumes lv: "live txn x y"
  shows "wp (prefetch E kind txn ev chunk) (\<lambda>_ z. live txn x z) (\<lambda>_ z. live txn x z) y"
proof (cases "kind = AppendKnown \<and> tx_evaluated_count txn > chunk")
  case True
  have task: "wp (submit0 (op_prefetch_transaction (ev_ops0 E) txn ev c))
      (\<lambda>_ z. live txn x z) (\<lambda>_ _. False) u" if u: "sess u = sess y" for c u
    unfolding wp_submit0
    by (rule wp_mono [OF s0.prefetch_law]) (use lv u in \<open>auto simp: live_def sess_def core_def\<close>)
  show ?thesis
    unfolding prefetch_def if_P [OF True]
    by (rule wp_bindI [OF worker_token_wp], rule wp_bindI [OF task])
       (auto simp: wp_future_get split: sum.splits)
next
  case False
  then show ?thesis using lv by (simp only: prefetch_def if_False wp_returnM)
qed

lemma absorb_draft_wp:
  assumes len: "length ev = unat (rd_max_draft r) + 1"
  shows "wp (absorb_draft r f ev)
    (\<lambda>ev' z. sess z = sess y \<and> length ev' = length ev \<and> ev' ! 0 = ev ! 0 \<and>
       (\<forall>k. 1 \<le> k \<and> k < length ev \<longrightarrow> in_vocabulary (eo_vocab_size (ex_options y)) (ev' ! k)))
    (\<lambda>_ z. sess z = sess y) y"
proof (cases f)
  case (Inr v)
  obtain ts ns where v: "v = (ts, ns)" by (cases v)
  show ?thesis
    using len write_draft_facts [of _ 0 ts ev]
    by (auto simp: absorb_draft_def Inr v wp_simps wp_future_get add_stat_def sess_def core_def
        split: sum.splits)
qed (simp add: absorb_draft_def wp_simps wp_future_get)

text \<open>The evaluation of a whole transaction, drafts included.\<close>

lemma evaluate_wp:
  assumes lv: "live txn x y" and chunk: "chunk \<noteq> 0" and ev0: "tx_evaluated_count txn \<noteq> 0"
    and len: "length ev = unat (tx_evaluated_count txn)"
    and rd: "\<And>r. rd = Some r \<Longrightarrow> chunk = 1 \<and> length ev = unat (rd_max_draft r) + 1"
  shows "wp (evaluate E kind txn ev chunk rd)
    (\<lambda>(ev', out1, ext) z. live txn x z \<and> length ev' = length ev \<and>
       in_vocabulary (eo_vocab_size (ex_options x)) (out_next_token out1) \<and>
       verified txn ev' (eo_stop_token_ids (ex_options x)) (rd \<noteq> None) out1 ext z \<and>
       (rd \<noteq> None \<longrightarrow> (\<forall>k. 1 \<le> k \<and> k < length ev \<longrightarrow> in_vocabulary (eo_vocab_size (ex_options x)) (ev' ! k))))
    (\<lambda>_ z. live txn x z) y"
proof -
  let ?vocab = "eo_vocab_size (ex_options x)"
  let ?Q = "\<lambda>(ev', out1, ext) z. live txn x z \<and> length ev' = length ev \<and>
       in_vocabulary ?vocab (out_next_token out1) \<and>
       verified txn ev' (eo_stop_token_ids (ex_options x)) (rd \<noteq> None) out1 ext z \<and>
       (rd \<noteq> None \<longrightarrow> (\<forall>k. 1 \<le> k \<and> k < length ev \<longrightarrow> in_vocabulary ?vocab (ev' ! k)))"
  let ?loop = "\<lambda>p ev'. bindM (chunk_loop (unat (tx_evaluated_count txn)) E kind txn ev' chunk (rd \<noteq> None) p)
     (\<lambda>(output1, verified_extent).
        thenM (check_vocab (out_next_token output1) ''stage1 returned a token outside the vocabulary'')
              (returnM (ev', output1, verified_extent)))"
  have off0: "0 < tx_evaluated_count txn" using ev0 by (simp add: word_gt_0)
  have loop: "wp (?loop p ev') ?Q (\<lambda>_ z. live txn x z) t"
    if t: "live txn x t" "pend_ok txn ev chunk 0 p (view0 (ex_worker0 t))"
      and ev': "length ev' = length ev" "rd = None \<Longrightarrow> ev' = ev"
      "rd \<noteq> None \<Longrightarrow> ev' ! 0 = ev ! 0 \<and> (\<forall>k. 1 \<le> k \<and> k < length ev \<longrightarrow> in_vocabulary ?vocab (ev' ! k))"
    for p ev' t
  proof -
    have "take (unat (pd_count p)) ev' = take (unat (pd_count p)) ev"
    proof (cases rd)
      case None
      then show ?thesis using ev'(2) by simp
    next
      case (Some r)
      then have "unat (pd_count p) \<le> 1"
        using t(2) rd next_chunk(4) [OF off0 chunk] by (auto simp: pend_ok_def)
      moreover have "ev \<noteq> []" "ev' \<noteq> []" using rd Some ev'(1) by auto
      ultimately show ?thesis
        using ev'(3) Some by (cases ev; cases ev'; cases "unat (pd_count p)") auto
    qed
    then have pend: "pend_ok txn ev' chunk 0 p (view0 (ex_worker0 t))"
      using t(2) by (auto simp: pend_ok_def)
    have "wp (chunk_loop (unat (tx_evaluated_count txn)) E kind txn ev' chunk (rd \<noteq> None) p)
      (\<lambda>(out1, ext) z. live txn x z \<and> in_vocabulary ?vocab (out_next_token out1) \<and>
         verified txn ev' (eo_stop_token_ids (ex_options x)) (rd \<noteq> None) out1 ext z)
      (\<lambda>_ z. live txn x z) t"
      by (rule chunk_loop_wp [OF t(1) pend chunk]) (use rd len ev'(1) in auto)
    then show ?thesis
      by (rule wp_bindI)
         (use ev' in \<open>auto simp: check_vocab_def wp_simps live_def core_def\<close>)
  qed
  have drafts: "wp (bindM (case (rd, f) of (Some request, Some future) \<Rightarrow> absorb_draft request future ev
        | _ \<Rightarrow> returnM ev) (?loop p)) ?Q (\<lambda>_ z. live txn x z) t"
    if t: "live txn x t" "pend_ok txn ev chunk 0 p (view0 (ex_worker0 t))" and f: "f = None \<longleftrightarrow> rd = None"
    for p f t
  proof (cases rd)
    case None
    then show ?thesis using loop [OF t, of ev] by (simp add: wp_bindM wp_returnM)
  next
    case (Some r)
    then obtain fu where fu: "f = Some fu" using f by auto
    have opt: "ex_options t = ex_options x" using t(1) core_eqD(1) [of t x] by (simp add: live_def)
    have lr: "length ev = unat (rd_max_draft r) + 1" using rd [OF Some] by simp
    show ?thesis
      unfolding Some fu prod.case option.case
      by (rule wp_bindI [OF absorb_draft_wp [OF lr]], rule loop [unfolded Some])
         (use t opt Some in \<open>auto simp: sess_eq intro: live_sess\<close>)
  qed
  show ?thesis
    unfolding evaluate_def
    apply (rule wp_bindI [OF submit_draft_wp [OF lv]])
     apply (rule wp_thenI [OF prefetch_wp], blast)
      apply (rule wp_bindI [OF submit_stage0_wp [OF _ off0 chunk len], of x], assumption)
       apply (rule drafts)
         apply auto
    done
qed

end

section \<open>Failing and rolling back\<close>

text \<open>The engine still has this transaction open and has moved no frontier.\<close>

definition engine_open :: "SessionTxn \<Rightarrow> txn_engine \<Rightarrow> txn_engine \<Rightarrow> bool" where
  "engine_open txn e0 e \<longleftrightarrow> engine_ok e \<and> eng_active e \<and> eng_frontiers e = eng_frontiers e0 \<and>
     eng_session_hash e = eng_session_hash e0 \<and> tx_epoch (eng_txn e) = tx_epoch txn \<and>
     e_kind e = tx_kind txn \<and> tx_base_canonical (eng_txn e) = tx_base_canonical txn"

definition outer :: "('b0, 'b1) executor \<Rightarrow> ExecutorOptions \<times> sampler \<times> i32 list \<times> i32 \<times>
    bool \<times> LogitSnapshot option" where
  "outer x = (ex_options x, ex_sampler x, ex_tokens x, ex_last_sample x, ex_have_last_sample x,
     ex_last_logit_snapshot x)"

lemma core_outer: "core y = core x \<longleftrightarrow> outer y = outer x \<and> ex_engine y = ex_engine x \<and> ex_poisoned y = ex_poisoned x"
  by (auto simp: core_def outer_def)

lemma outer_eqD:
  assumes "outer y = outer x"
  shows "ex_options y = ex_options x" "ex_sampler y = ex_sampler x" "ex_tokens y = ex_tokens x"
    "ex_last_sample y = ex_last_sample x" "ex_have_last_sample y = ex_have_last_sample x"
  using assms by (auto simp: outer_def)

text \<open>The frontiers after a rollback: the epoch is spent, an append's reservation is returned.\<close>

definition rolled_frontiers :: "SessionTxn \<Rightarrow> SessionFrontiers \<Rightarrow> SessionFrontiers" where
  "rolled_frontiers txn f = f\<lparr>fr_canonical := (if tx_kind txn = AppendKnown then tx_base_canonical txn
     else fr_canonical f), fr_epoch := tx_epoch txn\<rparr>"

lemma engine_open_rollback:
  assumes "engine_open txn e0 e"
  shows "snd (engine_rollback e) = rollback_state e" "engine_ok (rollback_state e)"
    "\<not> eng_active (rollback_state e)"
    "eng_frontiers (rollback_state e) = rolled_frontiers txn (eng_frontiers e0)"
    "eng_session_hash (rollback_state e) = eng_session_hash e0"
proof -
  have ok: "engine_ok e" and act: "eng_active e" using assms by (simp_all add: engine_open_def)
  show "snd (engine_rollback e) = rollback_state e"
    using engine_rollback_wp [OF ok] act by (auto simp: wp_def split: prod.splits sum.splits)
  show "engine_ok (rollback_state e)" by (rule rollback_frontiers_ok [OF ok act])
  show "\<not> eng_active (rollback_state e)" "eng_session_hash (rollback_state e) = eng_session_hash e0"
    "eng_frontiers (rollback_state e) = rolled_frontiers txn (eng_frontiers e0)"
    using assms by (auto simp: rollback_state_def engine_open_def rolled_frontiers_def)
qed

context dual_stage
begin

definition abortable :: "SessionTxn \<Rightarrow> ('b0, 'b1) executor \<Rightarrow> ('b0, 'b1) executor \<Rightarrow> bool" where
  "abortable txn x y \<longleftrightarrow> outer y = outer x \<and> ex_poisoned y = ex_poisoned x \<and>
     engine_open txn (ex_engine x) (ex_engine y) \<and>
     stage_live txn (view0 (ex_worker0 y)) \<and> stage_live txn (view1 (ex_worker1 y))"

text \<open>What is left after the transaction has been rolled back everywhere.\<close>

definition rolled_back :: "SessionTxn \<Rightarrow> ('b0, 'b1) executor \<Rightarrow> ('b0, 'b1) executor \<Rightarrow> bool" where
  "rolled_back txn x y \<longleftrightarrow> outer y = outer x \<and> engine_ok (ex_engine y) \<and> \<not> eng_active (ex_engine y) \<and>
     eng_frontiers (ex_engine y) = rolled_frontiers txn (eng_frontiers (ex_engine x)) \<and>
     view_idle (view0 (ex_worker0 y)) (tx_base_target txn) (tx_epoch txn) \<and>
     view_idle (view1 (ex_worker1 y)) (tx_base_target txn) (tx_epoch txn)"

lemma live_abortable:
  "live txn x y \<Longrightarrow> engine_open txn (ex_engine x) (ex_engine x) \<Longrightarrow> abortable txn x y"
  by (simp add: live_def abortable_def core_outer)

lemma abortable_sess: "abortable txn x y \<Longrightarrow> sess z = sess y \<Longrightarrow> abortable txn x z"
  by (simp add: abortable_def sess_eq core_outer)

lemma rolled_back_sess: "rolled_back txn x y \<Longrightarrow> sess z = sess y \<Longrightarrow> rolled_back txn x z"
  by (simp add: rolled_back_def sess_eq core_outer)

lemma rollback_prepared_wp:
  assumes ab: "abortable txn x y"
  shows "wp (rollback_prepared E (tx_epoch txn))
    (\<lambda>_ z. rolled_back txn x z \<and> ex_poisoned z = ex_poisoned x) (\<lambda>_ _. False) y"
proof -
  let ?fin = "modifyM (\<lambda>x. if eng_active (ex_engine x)
       then x\<lparr>ex_engine := snd (engine_rollback (ex_engine x))\<rparr> else x) :: ('b0, 'b1, unit) execM"
  let ?Q = "\<lambda>_ z. rolled_back txn x z \<and> ex_poisoned z = ex_poisoned x"
  have body: "wp (bindM (submit0 (op_rollback (ev_ops0 E) (tx_epoch txn))) (\<lambda>f0.
       bindM (submit1 (op_rollback (ev_ops1 E) (tx_epoch txn))) (\<lambda>f1.
       thenM (future_get f0) (thenM (future_get f1) ?fin)))) ?Q (\<lambda>_ _. False) t"
    if t: "sess t = sess y" for t
  proof -
    have ab': "abortable txn x t" by (rule abortable_sess [OF ab t])
    have l0: "stage_live txn (view0 (ex_worker0 t))" and l1: "stage_live txn (view1 (ex_worker1 t))"
      and op: "engine_open txn (ex_engine x) (ex_engine t)"
      using ab' by (simp_all add: abortable_def)
    note rb = engine_open_rollback [OF op]
    have fin: "?Q () (if eng_active (ex_engine u) then u\<lparr>ex_engine := snd (engine_rollback (ex_engine u))\<rparr> else u)"
      if "u = t\<lparr>ex_worker0 := b0, ex_worker1 := b1\<rparr>"
        "view_idle (view0 b0) (tx_base_target txn) (tx_epoch txn)"
        "view_idle (view1 b1) (tx_base_target txn) (tx_epoch txn)" for u b0 b1
      using that ab' rb op by (simp add: rolled_back_def outer_def abortable_def engine_open_def)
    have r1: "wp (submit1 (op_rollback (ev_ops1 E) (tx_epoch txn)))
       (\<lambda>f1 u. (\<exists>v. f1 = Inr v) \<and> (\<exists>b1. u = t\<lparr>ex_worker0 := b0, ex_worker1 := b1\<rparr> \<and>
          view_idle (view1 b1) (tx_base_target txn) (tx_epoch txn))) (\<lambda>_ _. False) (t\<lparr>ex_worker0 := b0\<rparr>)" for b0
      unfolding wp_submit1
      by (rule wp_mono [where Q = "\<lambda>_ b'. view_idle (view1 b') (tx_base_target txn) (tx_epoch txn)"
            and E = "\<lambda>_ _. False"]) (use s1.rollback_step [OF l1] in auto)
    have r0: "wp (submit0 (op_rollback (ev_ops0 E) (tx_epoch txn)))
       (\<lambda>f0 u. (\<exists>v. f0 = Inr v) \<and> (\<exists>b0. u = t\<lparr>ex_worker0 := b0\<rparr> \<and>
          view_idle (view0 b0) (tx_base_target txn) (tx_epoch txn))) (\<lambda>_ _. False) t"
      unfolding wp_submit0
      by (rule wp_mono [where Q = "\<lambda>_ b'. view_idle (view0 b') (tx_base_target txn) (tx_epoch txn)"
            and E = "\<lambda>_ _. False"]) (use s0.rollback_step [OF l0] in auto)
    show ?thesis
    proof (rule wp_bindI [OF r0], clarify)
      fix v b0
      assume b0: "view_idle (view0 b0) (tx_base_target txn) (tx_epoch txn)"
      show "wp (bindM (submit1 (op_rollback (ev_ops1 E) (tx_epoch txn))) (\<lambda>f1.
         thenM (future_get (Inr v)) (thenM (future_get f1) ?fin))) ?Q (\<lambda>_ _. False) (t\<lparr>ex_worker0 := b0\<rparr>)"
      proof (rule wp_bindI [OF r1], clarify)
        fix w b1
        assume b1: "view_idle (view1 b1) (tx_base_target txn) (tx_epoch txn)"
        show "wp (thenM (future_get (Inr v)) (thenM (future_get (Inr w)) ?fin)) ?Q (\<lambda>_ _. False)
            (t\<lparr>ex_worker0 := b0, ex_worker1 := b1\<rparr>)"
          unfolding wp_thenM wp_future_get sum.case wp_modifyM by (rule fin [OF refl b0 b1])
      qed simp
    qed simp
  qed
  show ?thesis
    unfolding rollback_prepared_def add_stat_def wp_thenM wp_modifyM wp_catchM
    by (rule wp_mono [OF body]) (auto simp: sess_def core_def)
qed

lemma on_failure_wp:
  assumes ab: "abortable txn x y"
  shows "wp (on_failure E (tx_epoch txn) e) (\<lambda>_ _. False)
    (\<lambda>e' z. e' = e \<and> rolled_back txn x z \<and> ex_poisoned z = (ex_poisoned x \<or>
       eo_backend_failure_is_fatal (ex_options x) \<and> e \<noteq> ExecutionCancelled \<and> e \<noteq> ExecutionDeadlineExceeded)) y"
proof -
  have roll: "wp (rollback_if_active E (tx_epoch txn))
      (\<lambda>_ z. rolled_back txn x z \<and> ex_poisoned z = ex_poisoned x) (\<lambda>_ _. False) t"
    if t: "sess t = sess y" for t
  proof -
    have ab': "abortable txn x t" by (rule abortable_sess [OF ab t])
    then have "eng_active (ex_engine t)" by (simp add: abortable_def engine_open_def)
    then show ?thesis
      using rollback_prepared_wp [OF ab'] by (simp add: rollback_if_active_def wp_whenM)
  qed
  have fin: "wp (thenM record_transaction (throwM e)) (\<lambda>_ _. False)
      (\<lambda>e' z. e' = e \<and> sess z = sess t) t" for t :: "('b0, 'b1) executor"
    by (auto simp: record_transaction_def wp_def thenM_def bindM_def elapsed_ns_def modifyM_def
        throwM_def sess_def core_def split: list.splits)
  have count: "wp (thenM (add_stat upd 1) (rollback_if_active E (tx_epoch txn)))
      (\<lambda>_ z. rolled_back txn x z \<and> ex_poisoned z = ex_poisoned x) (\<lambda>_ _. False) t"
    if "sess t = sess y" for t upd
    unfolding add_stat_def wp_thenM wp_modifyM
    by (rule roll) (use that in \<open>simp add: sess_def core_def\<close>)
  have other: "wp (thenM (rollback_if_active E (tx_epoch txn))
      (whenM (\<lambda>x. eo_backend_failure_is_fatal (ex_options x)) (modifyM (ex_poisoned_update (\<lambda>_. True)))))
      (\<lambda>_ z. rolled_back txn x z \<and>
         ex_poisoned z = (ex_poisoned x \<or> eo_backend_failure_is_fatal (ex_options x))) (\<lambda>_ _. False) t"
    if "sess t = sess y" for t
    by (rule wp_thenI [OF roll [OF that]])
       (auto simp: wp_simps rolled_back_def outer_def)
  have handler: "wp (case e of
        ExecutionDeadlineExceeded \<Rightarrow>
          thenM (add_stat xs_deadline_exceeded_update 1) (rollback_if_active E (tx_epoch txn))
      | ExecutionCancelled \<Rightarrow>
          thenM (add_stat xs_cancellations_update 1) (rollback_if_active E (tx_epoch txn))
      | _ \<Rightarrow> thenM (rollback_if_active E (tx_epoch txn))
          (whenM (\<lambda>x. eo_backend_failure_is_fatal (ex_options x))
             (modifyM (ex_poisoned_update (\<lambda>_. True)))))
      (\<lambda>_ z. rolled_back txn x z \<and> ex_poisoned z = (ex_poisoned x \<or>
         eo_backend_failure_is_fatal (ex_options x) \<and> e \<noteq> ExecutionCancelled \<and>
         e \<noteq> ExecutionDeadlineExceeded)) (\<lambda>_ _. False) t" if "sess t = sess y" for t
    using count [OF that] other [OF that] by (cases e) simp_all
  show ?thesis
    unfolding on_failure_def
    apply (subst wp_thenM)
    apply (subst add_stat_def)
    apply (subst wp_modifyM)
    apply (rule wp_thenI [OF handler])
      apply (simp add: sess_def core_def)
     apply (rule wp_mono [OF fin])
      apply simp
     apply (use rolled_back_sess in \<open>auto simp: sess_eq core_outer\<close>)
    done
qed

end

section \<open>Coordination and commit\<close>

lemma wp_on_engine: "wp (on_engine w m) Q F y =
    wp m (\<lambda>r e. Q r (y\<lparr>ex_engine := e\<rparr>)) (\<lambda>err e. F (w err) (y\<lparr>ex_engine := e\<rparr>)) (ex_engine y)"
  by (simp add: on_engine_def wp_zoomM)

text \<open>The whole coordination on the engine alone.\<close>

definition decided_by :: "SessionTxn \<Rightarrow> txn_engine \<Rightarrow> u32 \<Rightarrow> CommitEvent \<Rightarrow> txn_engine \<Rightarrow> bool" where
  "decided_by txn e sc ev t \<longleftrightarrow> engine_ok t \<and> \<not> eng_active t \<and> sc \<noteq> 0 \<and> sc \<le> tx_evaluated_count (eng_txn e) \<and>
     e_target t = e_target e + ucast sc \<and> e_canonical t = e_canonical e + ucast (ce_newly_published ev) \<and>
     e_epoch t = tx_epoch txn \<and> ce_newly_published ev = (if e_kind e = AppendKnown then 0 else sc) \<and>
     unat (e_canonical e) + unat (ce_newly_published ev) < 2 ^ 64"

lemma decide_publish_facts:
  assumes "engine_ok e" "eng_active e" "decide_publish sc e = Inr p"
  shows "sc \<noteq> 0" "sc \<le> tx_evaluated_count (eng_txn e)" "p = (if e_kind e = AppendKnown then 0 else sc)"
  using assms by (cases "e_kind e"; auto simp: decide_publish_def engine_ok_defs split: if_splits)+

lemma engine_ok_acks [simp]:
  "engine_ok (e\<lparr>eng_stage0_ack := a\<rparr>) = engine_ok e" "engine_ok (e\<lparr>eng_stage1_ack := a\<rparr>) = engine_ok e"
proof -
  have "decide_publish k (e\<lparr>eng_stage0_ack := a\<rparr>) = decide_publish k e"
    "decide_publish k (e\<lparr>eng_stage1_ack := a\<rparr>) = decide_publish k e"
    "kind_ok (e\<lparr>eng_stage0_ack := a\<rparr>) = kind_ok e" "kind_ok (e\<lparr>eng_stage1_ack := a\<rparr>) = kind_ok e" for k
    by (cases "e_kind e"; simp add: decide_publish_def kind_ok_def)+
  then show "engine_ok (e\<lparr>eng_stage0_ack := a\<rparr>) = engine_ok e"
    "engine_ok (e\<lparr>eng_stage1_ack := a\<rparr>) = engine_ok e"
    by (simp_all add: engine_ok_def active_ok_def Let_def)
qed

lemma engine_commit_decided:
  assumes op: "engine_open txn e0 e" and dec: "decide_publish sc e = Inr p"
  shows "wp engine_commit (\<lambda>ev t. decided_by txn e sc ev t)
     (\<lambda>_ t. engine_open txn e0 t) (decided_txn sc p (e\<lparr>eng_stage0_ack := True, eng_stage1_ack := True\<rparr>))"
proof -
  let ?e = "e\<lparr>eng_stage0_ack := True, eng_stage1_ack := True\<rparr>"
  let ?d = "decided_txn sc p ?e"
  have ok: "engine_ok e" "eng_active e" using op by (simp_all add: engine_open_def)
  have dp: "decide_publish sc ?e = Inr p"
    using dec by (cases "e_kind e") (simp_all add: decide_publish_def)
  have ok': "engine_ok ?e" using ok by simp
  have okd: "engine_ok ?d" by (rule decided_txn_ok [OF ok' _ dp]) (simp add: ok)
  have opd: "engine_open txn e0 ?d" using op okd by (simp add: engine_open_def decided_txn_def)
  have "tx_epoch (eng_txn e) = e_epoch e + 1"
    using engine_okD(4) [OF ok] by (simp add: active_ok_def Let_def)
  then have ep: "e_epoch e + 1 = tx_epoch txn" using op by (metis engine_open_def)
  show ?thesis
    by (rule wp_mono [OF engine_commit_wp [OF okd]])
       (use opd ep decide_publish_facts [OF ok dec] in
         \<open>auto simp: decided_by_def decided_txn_def commit_event_def committed_frontiers_def Let_def\<close>)
qed

lemma engine_coordinate:
  assumes op: "engine_open txn e0 e" and st: "e_status e = Prepared" "\<not> eng_stage0_ack e" "\<not> eng_stage1_ack e"
  shows "wp (acknowledge Stage0 (tx_epoch txn) (tx_evaluated_count (eng_txn e)))
      (\<lambda>_ t. t = e\<lparr>eng_stage0_ack := True\<rparr>) (\<lambda>_ t. engine_open txn e0 t) e"
    "wp (acknowledge Stage1 (tx_epoch txn) (tx_evaluated_count (eng_txn e)))
      (\<lambda>_ t. t = e\<lparr>eng_stage0_ack := True, eng_stage1_ack := True\<rparr>) (\<lambda>_ t. engine_open txn e0 t)
      (e\<lparr>eng_stage0_ack := True\<rparr>)"
    "wp (engine_decide sc)
      (\<lambda>_ t. \<exists>p. decide_publish sc e = Inr p \<and>
         t = decided_txn sc p (e\<lparr>eng_stage0_ack := True, eng_stage1_ack := True\<rparr>))
      (\<lambda>_ t. engine_open txn e0 t) (e\<lparr>eng_stage0_ack := True, eng_stage1_ack := True\<rparr>)"
proof -
  have frame: "engine_open txn e0 (e\<lparr>eng_stage0_ack := a, eng_stage1_ack := b\<rparr>)" for a b
    using op by (simp add: engine_open_def)
  have f0: "engine_open txn e0 (e\<lparr>eng_stage0_ack := True\<rparr>)"
    using op by (simp add: engine_open_def)
  show "wp (acknowledge Stage0 (tx_epoch txn) (tx_evaluated_count (eng_txn e)))
      (\<lambda>_ t. t = e\<lparr>eng_stage0_ack := True\<rparr>) (\<lambda>_ t. engine_open txn e0 t) e"
    using op by (auto simp: acknowledge_def wp_simps)
  show "wp (acknowledge Stage1 (tx_epoch txn) (tx_evaluated_count (eng_txn e)))
      (\<lambda>_ t. t = e\<lparr>eng_stage0_ack := True, eng_stage1_ack := True\<rparr>) (\<lambda>_ t. engine_open txn e0 t)
      (e\<lparr>eng_stage0_ack := True\<rparr>)"
    using f0 by (auto simp: acknowledge_def wp_simps)
  have "decide_publish sc (e\<lparr>eng_stage0_ack := True, eng_stage1_ack := True\<rparr>) = decide_publish sc e"
    by (cases "e_kind e") (simp_all add: decide_publish_def)
  then show "wp (engine_decide sc)
      (\<lambda>_ t. \<exists>p. decide_publish sc e = Inr p \<and>
         t = decided_txn sc p (e\<lparr>eng_stage0_ack := True, eng_stage1_ack := True\<rparr>))
      (\<lambda>_ t. engine_open txn e0 t) (e\<lparr>eng_stage0_ack := True, eng_stage1_ack := True\<rparr>)"
    using frame by (auto simp: engine_decide_def wp_simps decided_txn_def split: sum.splits)
qed

context dual_stage
begin

lemma abortable_engine:
  "abortable txn x y \<Longrightarrow> engine_open txn (ex_engine x) e \<Longrightarrow> abortable txn x (y\<lparr>ex_engine := e\<rparr>)"
  by (simp add: abortable_def outer_def)

lemma coordinate_wp:
  assumes ab: "abortable txn x y" and st: "e_status (ex_engine y) = Prepared"
    "\<not> eng_stage0_ack (ex_engine y)" "\<not> eng_stage1_ack (ex_engine y)"
  shows "wp (coordinate txn kind out1)
    (\<lambda>(sc, ev) z. sc = (if kind = Speculative then out_state_commit_count out1 else tx_evaluated_count txn) \<and>
       (\<exists>t. z = y\<lparr>ex_engine := t\<rparr> \<and> decided_by txn (ex_engine y) sc ev t))
    (\<lambda>_ z. abortable txn x z) y"
proof -
  let ?e = "ex_engine y" and ?n = "tx_evaluated_count (eng_txn (ex_engine y))"
  define sc where "sc = (if kind = Speculative then out_state_commit_count out1 else tx_evaluated_count txn)"
  have op: "engine_open txn (ex_engine x) ?e" using ab by (simp add: abortable_def)
  note steps = engine_coordinate [OF op st]
  have E: "\<And>t. engine_open txn (ex_engine x) t \<Longrightarrow> abortable txn x (y\<lparr>ex_engine := t\<rparr>)"
    using abortable_engine [OF ab] .
  show ?thesis
    unfolding coordinate_def Let_def wp_bindM [of "getM _"] wp_getM sc_def [symmetric]
  proof (rule wp_thenI [where P = "\<lambda>_ z. z = y\<lparr>ex_engine := ?e\<lparr>eng_stage0_ack := True\<rparr>\<rparr>"
        and F = "\<lambda>_ z. abortable txn x z"])
    show "wp (on_engine (\<lambda>err. RuntimeError (''stage acknowledge failed: '' @ err))
        (acknowledge Stage0 (tx_epoch txn) ?n))
        (\<lambda>_ z. z = y\<lparr>ex_engine := ?e\<lparr>eng_stage0_ack := True\<rparr>\<rparr>) (\<lambda>_ z. abortable txn x z) y"
      unfolding wp_on_engine by (rule wp_mono [OF steps(1)]) (use E in auto)
    fix z assume z: "z = y\<lparr>ex_engine := ?e\<lparr>eng_stage0_ack := True\<rparr>\<rparr>"
    show "wp (thenM (on_engine (\<lambda>err. RuntimeError (''stage acknowledge failed: '' @ err))
         (acknowledge Stage1 (tx_epoch txn) ?n))
      (thenM (on_engine (\<lambda>err. RuntimeError (''transaction decision failed: '' @ err)) (engine_decide sc))
      (bindM (on_engine (\<lambda>err. RuntimeError (''coordinator commit failed: '' @ err)) engine_commit)
        (\<lambda>event. returnM (sc, event)))))
      (\<lambda>(k, ev) z. k = sc \<and> (\<exists>t. z = y\<lparr>ex_engine := t\<rparr> \<and> decided_by txn ?e k ev t))
      (\<lambda>_ z. abortable txn x z) z"
    proof (rule wp_thenI [where P = "\<lambda>_ z. z = y\<lparr>ex_engine := ?e\<lparr>eng_stage0_ack := True, eng_stage1_ack := True\<rparr>\<rparr>"
          and F = "\<lambda>_ z. abortable txn x z"])
      show "wp (on_engine (\<lambda>err. RuntimeError (''stage acknowledge failed: '' @ err))
         (acknowledge Stage1 (tx_epoch txn) ?n))
        (\<lambda>_ z. z = y\<lparr>ex_engine := ?e\<lparr>eng_stage0_ack := True, eng_stage1_ack := True\<rparr>\<rparr>)
        (\<lambda>_ z. abortable txn x z) z"
        unfolding wp_on_engine z by simp (rule wp_mono [OF steps(2)], use E in auto)
      fix u assume u: "u = y\<lparr>ex_engine := ?e\<lparr>eng_stage0_ack := True, eng_stage1_ack := True\<rparr>\<rparr>"
      show "wp (thenM (on_engine (\<lambda>err. RuntimeError (''transaction decision failed: '' @ err)) (engine_decide sc))
        (bindM (on_engine (\<lambda>err. RuntimeError (''coordinator commit failed: '' @ err)) engine_commit)
        (\<lambda>event. returnM (sc, event))))
        (\<lambda>(k, ev) z. k = sc \<and> (\<exists>t. z = y\<lparr>ex_engine := t\<rparr> \<and> decided_by txn ?e k ev t))
        (\<lambda>_ z. abortable txn x z) u"
      proof (rule wp_thenI [where P = "\<lambda>_ z. \<exists>p. decide_publish sc ?e = Inr p \<and> z = y\<lparr>ex_engine :=
              decided_txn sc p (?e\<lparr>eng_stage0_ack := True, eng_stage1_ack := True\<rparr>)\<rparr>"
            and F = "\<lambda>_ z. abortable txn x z"])
        show "wp (on_engine (\<lambda>err. RuntimeError (''transaction decision failed: '' @ err)) (engine_decide sc))
          (\<lambda>_ z. \<exists>p. decide_publish sc ?e = Inr p \<and> z = y\<lparr>ex_engine :=
              decided_txn sc p (?e\<lparr>eng_stage0_ack := True, eng_stage1_ack := True\<rparr>)\<rparr>)
          (\<lambda>_ z. abortable txn x z) u"
          unfolding wp_on_engine u by simp (rule wp_mono [OF steps(3)], use E in auto)
        fix v assume "\<exists>p. decide_publish sc ?e = Inr p \<and> v = y\<lparr>ex_engine :=
              decided_txn sc p (?e\<lparr>eng_stage0_ack := True, eng_stage1_ack := True\<rparr>)\<rparr>"
        then obtain p where p: "decide_publish sc ?e = Inr p"
          and v: "v = y\<lparr>ex_engine := decided_txn sc p (?e\<lparr>eng_stage0_ack := True, eng_stage1_ack := True\<rparr>)\<rparr>"
          by blast
        show "wp (bindM (on_engine (\<lambda>err. RuntimeError (''coordinator commit failed: '' @ err)) engine_commit)
          (\<lambda>event. returnM (sc, event)))
          (\<lambda>(k, ev) z. k = sc \<and> (\<exists>t. z = y\<lparr>ex_engine := t\<rparr> \<and> decided_by txn ?e k ev t))
          (\<lambda>_ z. abortable txn x z) v"
          unfolding wp_bindM wp_on_engine wp_returnM v
          by simp (rule wp_mono [OF engine_commit_decided [OF op p]], use E in auto)
      qed
    qed
  qed
qed

end

section \<open>From a verified output to a committed session\<close>

definition draw_committed :: "SamplerDecision option \<Rightarrow> sampler \<Rightarrow> sampler" where
  "draw_committed d s = (case d of None \<Rightarrow> s
     | Some _ \<Rightarrow> s\<lparr>sa_state := (sa_state s)\<lparr>ss_rng_state := next_state (ss_rng_state (sa_state s)),
        ss_sampled_tokens := ss_sampled_tokens (sa_state s) + 1\<rparr>\<rparr>)"

lemma draw_committed_frame [simp]:
  "sampler_tracks (draw_committed d s) ts = sampler_tracks s ts"
  "sa_vocabulary (draw_committed d s) = sa_vocabulary s" "sa_config (draw_committed d s) = sa_config s"
  by (auto simp: draw_committed_def sampler_tracks_def split: option.splits)

text \<open>A decision the sampler will accept.\<close>

definition decision_ok :: "SamplerDecision option \<Rightarrow> sampler \<Rightarrow> bool" where
  "decision_ok d s \<longleftrightarrow> (case d of None \<Rightarrow> True | Some k \<Rightarrow> sampled s \<and>
     in_vocabulary (sa_vocabulary s) (sd_token k) \<and> sd_rng_before k = ss_rng_state (sa_state s) \<and>
     sd_rng_after k = next_state (ss_rng_state (sa_state s)))"

lemma choose_token_wp:
  assumes "in_vocabulary (eo_vocab_size (ex_options x)) (out_next_token out1)"
    "sa_vocabulary (ex_sampler x) = eo_vocab_size (ex_options x)"
  shows "wp (choose_token E kind ev out1)
    (\<lambda>(d, out) z. sess z = sess x \<and> decision_ok d (ex_sampler x) \<and>
       in_vocabulary (eo_vocab_size (ex_options x)) (out_next_token out) \<and>
       (\<not> sampled (ex_sampler x) \<longrightarrow> out = out1 \<and> d = None) \<and> (sampled (ex_sampler x) \<longrightarrow> kind \<noteq> Speculative) \<and>
       out_state_commit_count out = out_state_commit_count out1)
    (\<lambda>_ z. sess z = sess x) x"
proof (cases "sampled (ex_sampler x) \<and> kind \<noteq> Speculative")
  case True
  let ?Q = "\<lambda>(d, out) z. sess z = sess x \<and> decision_ok d (ex_sampler x) \<and>
       in_vocabulary (eo_vocab_size (ex_options x)) (out_next_token out) \<and>
       (\<not> sampled (ex_sampler x) \<longrightarrow> out = out1 \<and> d = None) \<and> (sampled (ex_sampler x) \<longrightarrow> kind \<noteq> Speculative) \<and>
       out_state_commit_count out = out_state_commit_count out1"
  have tail: "wp (bindM elapsed_ns (\<lambda>ns. thenM (add_stat xs_sampling_ns_update ns)
      (thenM (modifyM (ex_sampling_latency_update (tracker_record ns)))
      (thenM (check_vocab (sd_token d) ''sampler returned a token outside the vocabulary'')
             (returnM (Some d, out1\<lparr>out_next_token := sd_token d\<rparr>))))))
      ?Q (\<lambda>_ z. sess z = sess x) x"
    if d: "sampler_prepare (ev_fops E) (ex_sampler x) l a = Inr d" for d l a
  proof (rule wp_bind_keeps [OF keeps_elapsed], unfold add_stat_def wp_simps check_vocab_def)
    fix ns t
    assume t: "sess t = sess x"
    then have "ex_options t = ex_options x" using core_eqD(1) by (auto simp: sess_eq)
    then show "if \<not> in_vocabulary (eo_vocab_size (ex_options (ex_sampling_latency_update (tracker_record ns)
          (ex_stats_update (xs_sampling_ns_update (\<lambda>v. v + ns)) t)))) (sd_token d)
        then sess (ex_sampling_latency_update (tracker_record ns)
          (ex_stats_update (xs_sampling_ns_update (\<lambda>v. v + ns)) t)) = sess x
        else ?Q (Some d, out1\<lparr>out_next_token := sd_token d\<rparr>) (ex_sampling_latency_update (tracker_record ns)
          (ex_stats_update (xs_sampling_ns_update (\<lambda>v. v + ns)) t))"
      using t True sampler_prepare_facts [OF d] assms(2)
      by (auto simp: decision_ok_def sess_def core_def)
  qed simp
  show ?thesis
    using True tail by (auto simp: choose_token_def wp_bindM wp_thenM wp_getM wp_failIf wp_liftE split: sum.splits)
next
  case False
  then show ?thesis
    using assms by (auto simp: choose_token_def wp_simps decision_ok_def)
qed

lemma first_stop_Some:
  assumes "first_stop stops ev n = Some i"
  shows "1 \<le> i" "i < unat n" "i < length ev" "ev ! i \<in> set stops"
proof -
  have "i \<in> set [1..<min (unat n) (length ev)]" "ev ! i \<in> set stops"
    using assms unfolding first_stop_def find_Some_iff by (auto simp del: upt_Suc simp: set_conv_nth)
  then show "1 \<le> i" "i < unat n" "i < length ev" "ev ! i \<in> set stops" by auto
qed

lemma truncate_vocab:
  assumes "in_vocabulary v (out_next_token out)"
    "\<And>k. kind = Speculative \<Longrightarrow> 1 \<le> k \<Longrightarrow> k < length ev \<Longrightarrow> in_vocabulary v (ev ! k)"
  shows "in_vocabulary v (out_next_token (truncate_at_stop kind stops ev out))"
proof (cases "first_stop stops ev (out_state_commit_count out)")
  case (Some i)
  then show ?thesis using assms first_stop_Some [OF Some] by (auto simp: truncate_at_stop_def)
qed (use assms in \<open>simp add: truncate_at_stop_def\<close>)

lemma truncate_no_stop:
  assumes "\<And>i. 1 \<le> i \<Longrightarrow> i < unat (out_state_commit_count out) \<Longrightarrow> ev ! i \<notin> set stops"
  shows "truncate_at_stop kind stops ev out = out"
proof (cases "first_stop stops ev (out_state_commit_count out)")
  case (Some i)
  then show ?thesis using assms first_stop_Some [OF Some] by (auto simp: truncate_at_stop_def)
qed (use assms in \<open>simp add: truncate_at_stop_def\<close>)

context dual_stage
begin

lemma commit_backends_wp:
  assumes c0: "commit_ready (view0 (ex_worker0 y)) ep n" and c1: "commit_ready (view1 (ex_worker1 y)) ep n"
    and d: "decision_ok d (ex_sampler y)"
  shows "wp (commit_backends E ep n d)
    (\<lambda>_ z. (\<exists>b0 b1. core z = core (y\<lparr>ex_sampler := draw_committed d (ex_sampler y)\<rparr>) \<and>
       ex_worker0 z = b0 \<and> ex_worker1 z = b1 \<and>
       view_idle (view0 b0) (pv_base (the (bv_open (view0 (ex_worker0 y)))) + ucast n) ep \<and>
       view_idle (view1 b1) (pv_base (the (bv_open (view1 (ex_worker1 y)))) + ucast n) ep))
    (\<lambda>_ _. False) y"
proof -
  let ?base0 = "pv_base (the (bv_open (view0 (ex_worker0 y))))"
  let ?base1 = "pv_base (the (bv_open (view1 (ex_worker1 y))))"
  let ?fin = "\<lambda>z. core z = core (y\<lparr>ex_sampler := draw_committed d (ex_sampler y)\<rparr>) \<and>
       view_idle (view0 (ex_worker0 z)) (?base0 + ucast n) ep \<and>
       view_idle (view1 (ex_worker1 z)) (?base1 + ucast n) ep"
  have r0: "wp (submit0 (op_commit (ev_ops0 E) ep n))
      (\<lambda>r z. (\<exists>v b0. r = Inr v \<and> z = y\<lparr>ex_worker0 := b0\<rparr> \<and> view_idle (view0 b0) (?base0 + ucast n) ep))
      (\<lambda>_ _. False) y"
    unfolding wp_submit0 by (rule wp_mono [OF s0.commit_law [OF c0]]) auto
  have r1: "wp (submit1 (op_commit (ev_ops1 E) ep n))
      (\<lambda>r z. (\<exists>v b1. r = Inr v \<and> z = y\<lparr>ex_worker0 := b0, ex_worker1 := b1\<rparr> \<and>
         view_idle (view1 b1) (?base1 + ucast n) ep))
      (\<lambda>_ _. False) (y\<lparr>ex_worker0 := b0\<rparr>)" for b0
    unfolding wp_submit1
    by (rule wp_mono [where Q = "\<lambda>_ b'. view_idle (view1 b') (?base1 + ucast n) ep"
          and E = "\<lambda>_ _. False"]) (use s1.commit_law [OF c1] in auto)
  have rest: "wp (thenM (case d of None \<Rightarrow> returnM ()
         | Some d \<Rightarrow> thenM (on_sampler (sampler_commit d)) (add_stat xs_sampled_tokens_update 1))
      (bindM elapsed_ns (\<lambda>ns. thenM (add_stat xs_backend_commit_ns_update ns)
         (modifyM (ex_commit_latency_update (tracker_record ns))))))
      (\<lambda>_ z. ?fin z) (\<lambda>_ _. False) (y\<lparr>ex_worker0 := b0, ex_worker1 := b1\<rparr>)"
    if "view_idle (view0 b0) (?base0 + ucast n) ep" "view_idle (view1 b1) (?base1 + ucast n) ep" for b0 b1
  proof -
    let ?w = "y\<lparr>ex_worker0 := b0, ex_worker1 := b1, ex_sampler := draw_committed d (ex_sampler y)\<rparr>"
    have s: "wp (case d of None \<Rightarrow> returnM ()
         | Some d \<Rightarrow> thenM (on_sampler (sampler_commit d)) (add_stat xs_sampled_tokens_update 1))
      (\<lambda>_ z. sess z = sess ?w) (\<lambda>_ _. False) (y\<lparr>ex_worker0 := b0, ex_worker1 := b1\<rparr>)"
      using d
      by (cases d)
         (auto simp: wp_simps on_sampler_def add_stat_def sampler_commit_def decision_ok_def
           draw_committed_def sess_def core_def)
    have e: "wp (bindM elapsed_ns (\<lambda>ns. thenM (add_stat xs_backend_commit_ns_update ns)
         (modifyM (ex_commit_latency_update (tracker_record ns)))))
      (\<lambda>_ z. sess z = sess t) (\<lambda>_ _. False) t" for t :: "('b0, 'b1) executor"
      by (auto simp: wp_def bindM_def thenM_def elapsed_ns_def add_stat_def modifyM_def sess_def core_def
          split: list.splits)
    show ?thesis
      by (rule wp_thenI [OF s], rule wp_mono [OF e])
         (use that in \<open>auto simp: sess_def core_def\<close>)
  qed
  have "wp (bindM (submit0 (op_commit (ev_ops0 E) ep n)) (\<lambda>c0.
       bindM (submit1 (op_commit (ev_ops1 E) ep n)) (\<lambda>c1.
       thenM (future_get c0) (thenM (future_get c1)
      (thenM (case d of None \<Rightarrow> returnM ()
         | Some d \<Rightarrow> thenM (on_sampler (sampler_commit d)) (add_stat xs_sampled_tokens_update 1))
      (bindM elapsed_ns (\<lambda>ns. thenM (add_stat xs_backend_commit_ns_update ns)
         (modifyM (ex_commit_latency_update (tracker_record ns)))))))))) (\<lambda>_ z. ?fin z) (\<lambda>_ _. False) y"
  proof (rule wp_bindI [OF r0], clarify)
    fix v b0
    assume b0: "view_idle (view0 b0) (?base0 + ucast n) ep"
    show "wp (bindM (submit1 (op_commit (ev_ops1 E) ep n)) (\<lambda>c1.
       thenM (future_get (Inr v)) (thenM (future_get c1)
      (thenM (case d of None \<Rightarrow> returnM ()
         | Some d \<Rightarrow> thenM (on_sampler (sampler_commit d)) (add_stat xs_sampled_tokens_update 1))
      (bindM elapsed_ns (\<lambda>ns. thenM (add_stat xs_backend_commit_ns_update ns)
         (modifyM (ex_commit_latency_update (tracker_record ns))))))))) (\<lambda>_ z. ?fin z) (\<lambda>_ _. False)
      (y\<lparr>ex_worker0 := b0\<rparr>)"
      by (rule wp_bindI [OF r1], clarify, unfold wp_thenM [of "future_get _"] wp_future_get sum.case,
          rule rest [OF b0]) auto
  qed simp
  then show ?thesis
    unfolding commit_backends_def wp_catchM by (rule wp_mono) auto
qed

end

end
