(* ===== verification/ExecutorSession.thy ===== *)
theory ExecutorSession
  imports ExecutorSafety
begin

text \<open>
  From a verified stage 1 output to a committed session, and the session invariant. The first part
  finishes the proof of \<open>run_transaction\<close> over any two backends that keep the contract; the
  second states the invariant of an idle executor and shows that every public operation keeps it.
\<close>

section \<open>Settling a transaction\<close>

lemma succ_u32:
  fixes a b :: u32
  assumes "a < b"
  shows "unat (a + 1) = unat a + 1" "a + 1 \<noteq> 0"
proof -
  have "unat a + 1 < 2 ^ 32" using assms unat_u32_lt [of b] by (simp add: word_less_nat_alt)
  then show n: "unat (a + 1) = unat a + 1" using unat_add_lem [of a 1] by simp
  show "a + 1 \<noteq> 0" using n by auto
qed

context dual_stage
begin

lemma shorten_to_wp:
  assumes ab: "abortable txn x y" and txn: "eng_txn (ex_engine y) = txn"
  shows "wp (shorten_to txn retained ext)
    (\<lambda>_ z. abortable txn x z \<and> sess z = sess (y\<lparr>ex_engine := (ex_engine y)\<lparr>eng_txn := txn\<lparr>
       tx_evaluated_count := (if retained \<and> ext < tx_evaluated_count txn then ext
         else tx_evaluated_count txn)\<rparr>\<rparr>\<rparr>))
    (\<lambda>_ z. abortable txn x z) y"
proof (cases "retained \<and> ext < tx_evaluated_count txn")
  case True
  have op: "engine_open txn (ex_engine x) (ex_engine y)" using ab by (simp add: abortable_def)
  have "wp (shorten_speculative ext)
    (\<lambda>_ t. engine_open txn (ex_engine x) t \<and> t = (ex_engine y)\<lparr>eng_txn := txn\<lparr>tx_evaluated_count := ext\<rparr>\<rparr>)
    (\<lambda>_ t. engine_open txn (ex_engine x) t) (ex_engine y)"
    by (rule wp_mono [OF shorten_speculative_wp]) (use op txn in \<open>auto simp: engine_open_def\<close>)
  then have "wp (on_engine (\<lambda>err. RuntimeError (''speculative shortening failed: '' @ err)) (shorten_speculative ext))
    (\<lambda>_ z. z = y\<lparr>ex_engine := (ex_engine y)\<lparr>eng_txn := txn\<lparr>tx_evaluated_count := ext\<rparr>\<rparr>\<rparr> \<and> abortable txn x z)
    (\<lambda>_ z. abortable txn x z) y"
    unfolding wp_on_engine by (rule wp_mono) (use abortable_engine [OF ab] in auto)
  then show ?thesis
    unfolding shorten_to_def if_P [OF True]
    by (rule wp_thenI)
       (use True in \<open>auto simp: add_stat_def wp_modifyM sess_def core_def intro: abortable_sess\<close>)
next
  case False
  then show ?thesis using ab txn by (auto simp: shorten_to_def wp_returnM sess_def core_def)
qed

text \<open>A committed transaction: \<open>sc\<close> rows moved the target, the same rows were published unless the
  tokens were known, both backends stand at the new frontier, and the tokens, the penalty counts
  and the health of the executor are as before.\<close>

definition committed :: "SessionTxn \<Rightarrow> ('b0, 'b1) executor \<Rightarrow> CommitEvent \<Rightarrow> i32 \<Rightarrow> ('b0, 'b1) executor \<Rightarrow> bool" where
  "committed txn x event next z \<longleftrightarrow> (\<exists>sc d. decided_by txn (ex_engine x) sc event (ex_engine z) \<and>
     (tx_kind txn \<noteq> Speculative \<longrightarrow> sc = tx_evaluated_count txn) \<and>
     ex_options z = ex_options x \<and> ex_sampler z = draw_committed d (ex_sampler x) \<and>
     ex_tokens z = ex_tokens x \<and> ex_last_sample z = ex_last_sample x \<and>
     ex_have_last_sample z = ex_have_last_sample x \<and> ex_poisoned z = ex_poisoned x \<and>
     view_idle (view0 (ex_worker0 z)) (tx_base_target txn + ucast sc) (tx_epoch txn) \<and>
     view_idle (view1 (ex_worker1 z)) (tx_base_target txn + ucast sc) (tx_epoch txn) \<and>
     in_vocabulary (eo_vocab_size (ex_options x)) next)"

lemma verified_commit_ready:
  assumes ver: "verified txn ev stops retained out1 ext y" and k: "retained \<Longrightarrow> tx_kind txn = Speculative"
    and sc: "sc \<noteq> 0" "sc \<le> ext" "ext < tx_evaluated_count txn \<Longrightarrow> sc = ext"
  shows "commit_ready (view0 (ex_worker0 y)) (tx_epoch txn) sc"
    and "commit_ready (view1 (ex_worker1 y)) (tx_epoch txn) sc"
    and "pv_base (the (bv_open (view0 (ex_worker0 y)))) = tx_base_target txn"
    and "pv_base (the (bv_open (view1 (ex_worker1 y)))) = tx_base_target txn"
proof -
  have nz: "ext \<noteq> 0" using sc by auto
  have "(ext = tx_evaluated_count txn \<and> bv_open (view0 (ex_worker0 y)) = Some (provisional_at txn ext) \<or>
      ext < tx_evaluated_count txn \<and> retained \<and> bv_checkpoint (view0 (ex_worker0 y)) = ext \<and>
      bv_open (view0 (ex_worker0 y)) = Some (provisional_at txn (ext + 1))) \<and>
      bv_open (view1 (ex_worker1 y)) = Some (provisional_at txn ext)"
    using ver nz succ_u32 unfolding verified_def stage_at_def by auto
  moreover have "ext \<le> ext + 1" if "ext < tx_evaluated_count txn"
    using succ_u32 [OF that] by (simp add: word_le_nat_alt)
  ultimately show "commit_ready (view0 (ex_worker0 y)) (tx_epoch txn) sc"
    "commit_ready (view1 (ex_worker1 y)) (tx_epoch txn) sc"
    "pv_base (the (bv_open (view0 (ex_worker0 y)))) = tx_base_target txn"
    "pv_base (the (bv_open (view1 (ex_worker1 y)))) = tx_base_target txn"
    using sc k by (auto simp: commit_ready_def provisional_at_def)
qed

lemma record_transaction_wp:
  "wp record_transaction (\<lambda>_ z. sess z = sess y) (\<lambda>_ _. False) y"
  by (auto simp: record_transaction_def wp_def bindM_def elapsed_ns_def modifyM_def sess_def core_def
      split: list.splits)

lemma finish_wp:
  assumes c: "commit_ready (view0 (ex_worker0 y)) ep sc" "commit_ready (view1 (ex_worker1 y)) ep sc"
    and b: "pv_base (the (bv_open (view0 (ex_worker0 y)))) = base"
      "pv_base (the (bv_open (view1 (ex_worker1 y)))) = base"
    and d: "decision_ok d (ex_sampler y)"
  shows "wp (thenM (commit_backends E ep sc d)
    (thenM (add_stat xs_state_committed_tokens_update m)
    (thenM (add_stat xs_published_tokens_update n)
    (thenM (retain_logits kind event out1)
    (thenM record_transaction (returnM r))))))
    (\<lambda>r' z. r' = r \<and> ex_engine z = ex_engine y \<and> ex_options z = ex_options y \<and>
       ex_sampler z = draw_committed d (ex_sampler y) \<and> ex_tokens z = ex_tokens y \<and>
       ex_last_sample z = ex_last_sample y \<and> ex_have_last_sample z = ex_have_last_sample y \<and>
       ex_poisoned z = ex_poisoned y \<and>
       view_idle (view0 (ex_worker0 z)) (base + ucast sc) ep \<and>
       view_idle (view1 (ex_worker1 z)) (base + ucast sc) ep) (\<lambda>_ _. False) y"
proof -
  have rec: "wp (thenM record_transaction (returnM r)) (\<lambda>r' z. r' = r \<and> sess z = sess t) (\<lambda>_ _. False) t"
    for t :: "('b0, 'b1) executor"
    by (rule wp_thenI [OF record_transaction_wp]) (simp_all add: wp_returnM)
  have tail: "wp (thenM (add_stat xs_state_committed_tokens_update m)
    (thenM (add_stat xs_published_tokens_update n)
    (thenM (retain_logits kind event out1)
    (thenM record_transaction (returnM r)))))
    (\<lambda>r' z. r' = r \<and> (\<exists>l. sess z = sess (t\<lparr>ex_last_logit_snapshot := l\<rparr>))) (\<lambda>_ _. False) t"
    for t :: "('b0, 'b1) executor"
    unfolding add_stat_def retain_logits_def wp_thenM [of "modifyM _"] wp_modifyM wp_thenM [of "whenM _ _"] wp_whenM
    by (rule if_split [THEN iffD2], intro conjI impI)
       (rule wp_mono [OF rec], fastforce simp: sess_def core_def, simp)+
  show ?thesis
    by (rule wp_thenI [OF commit_backends_wp [OF c d, unfolded b]], rule wp_mono [OF tail])
       (auto simp: sess_def core_def)
qed

lemma commit_verified_wp:
  assumes ab: "abortable txn x y" and ver: "verified txn ev stops retained out1 ext y"
    and e: "ex_engine y = (ex_engine x)\<lparr>eng_txn := txn\<lparr>tx_evaluated_count := ext\<rparr>\<rparr>"
    and st: "tx_status txn = Prepared" "\<not> eng_stage0_ack (ex_engine x)" "\<not> eng_stage1_ack (ex_engine x)"
    and k: "kind = tx_kind txn" "retained \<longleftrightarrow> kind = Speculative" "e_kind (ex_engine x) = kind"
    and cnt: "kind = Speculative \<Longrightarrow> ext < tx_evaluated_count txn \<Longrightarrow> out_state_commit_count out = ext"
    and d: "decision_ok d (ex_sampler x)"
    and txn: "eng_txn (ex_engine x) = txn"
    and voc: "in_vocabulary (eo_vocab_size (ex_options x)) (out_next_token out)"
  shows "wp (commit_verified E kind txn d ev out)
    (\<lambda>(event, out', ev') z. out' = out \<and> ev' = ev \<and> committed txn x event (out_next_token out') z)
    (\<lambda>_ z. abortable txn x z) y"
proof -
  have st': "e_status (ex_engine y) = Prepared" "\<not> eng_stage0_ack (ex_engine y)" "\<not> eng_stage1_ack (ex_engine y)"
    using st by (simp_all add: e)
  have ext: "ext \<le> tx_evaluated_count txn" using ver by (auto simp: verified_def)
  have full: "\<not> retained \<Longrightarrow> ext = tx_evaluated_count txn" using ver by (auto simp: verified_def)
  show ?thesis
    unfolding commit_verified_def
  proof (rule wp_bindI [OF coordinate_wp [OF ab st']], clarify)
    fix event t
    let ?sc = "if kind = Speculative then out_state_commit_count out else tx_evaluated_count txn"
    let ?y = "y\<lparr>ex_engine := t\<rparr>"
    assume dec: "decided_by txn (ex_engine y) ?sc event t"
    then have sc: "?sc \<noteq> 0" "?sc \<le> ext" by (simp_all add: decided_by_def e)
    have sc': "ext < tx_evaluated_count txn \<Longrightarrow> ?sc = ext"
      using cnt full k(2) by auto
    have rt: "retained \<Longrightarrow> tx_kind txn = Speculative" using k(1,2) by blast
    note ready = verified_commit_ready [OF ver rt sc sc']
    have smp: "decision_ok d (ex_sampler ?y)" using ab d by (simp add: abortable_def outer_def)
    have dec': "decided_by txn (ex_engine x) ?sc event t"
      using dec ext k(3) txn unfolding decided_by_def e by (auto simp: k(1))
    show "wp (thenM (commit_backends E (tx_epoch txn) ?sc d)
       (thenM (add_stat xs_state_committed_tokens_update (ucast ?sc))
       (thenM (add_stat xs_published_tokens_update (ucast (ce_newly_published event)))
       (thenM (retain_logits kind event out)
       (thenM record_transaction (returnM (event, out, ev)))))))
      (\<lambda>(event, out', ev') z. out' = out \<and> ev' = ev \<and> committed txn x event (out_next_token out') z)
      (\<lambda>_ z. abortable txn x z) ?y"
    proof (rule wp_mono [OF finish_wp [where base = "tx_base_target txn"]])
      fix r and z :: "('b0, 'b1) executor"
      assume "r = (event, out, ev) \<and> ex_engine z = ex_engine ?y \<and> ex_options z = ex_options ?y \<and>
        ex_sampler z = draw_committed d (ex_sampler ?y) \<and> ex_tokens z = ex_tokens ?y \<and>
        ex_last_sample z = ex_last_sample ?y \<and> ex_have_last_sample z = ex_have_last_sample ?y \<and>
        ex_poisoned z = ex_poisoned ?y \<and>
        view_idle (view0 (ex_worker0 z)) (tx_base_target txn + ucast ?sc) (tx_epoch txn) \<and>
        view_idle (view1 (ex_worker1 z)) (tx_base_target txn + ucast ?sc) (tx_epoch txn)"
      then show "(case r of (event, out', ev') \<Rightarrow> \<lambda>z. out' = out \<and> ev' = ev \<and>
          committed txn x event (out_next_token out') z) z"
        using dec' ab voc k(1) outer_eqD [of y x]
        by (auto simp: committed_def abortable_def intro!: exI [of _ ?sc] exI [of _ d])
    qed (use ready smp in simp_all)
  qed simp
qed

lemma seal_commit_wp:
  assumes ab: "abortable txn x y" and ver: "verified txn ev stops retained out1 ext y"
    and e: "ex_engine y = ex_engine x" and txn: "eng_txn (ex_engine x) = txn"
    and st: "tx_status txn = Prepared" "\<not> eng_stage0_ack (ex_engine x)" "\<not> eng_stage1_ack (ex_engine x)"
    and k: "kind = tx_kind txn" "retained \<longleftrightarrow> kind = Speculative"
    and cnt: "kind = Speculative \<Longrightarrow> ext < tx_evaluated_count txn \<Longrightarrow> out_state_commit_count out = ext"
    and d: "decision_ok d (ex_sampler x)"
    and voc: "in_vocabulary (eo_vocab_size (ex_options x)) (out_next_token out)"
  shows "wp (thenM (shorten_to txn retained ext) (thenM seal_cancel (commit_verified E kind txn d ev out)))
    (\<lambda>(event, out', ev') z. ev' = ev \<and> committed txn x event (out_next_token out') z)
    (\<lambda>_ z. abortable txn x z) y"
proof -
  have ek: "e_kind (ex_engine x) = kind" using txn k(1) by simp
  have te: "eng_txn (ex_engine y) = txn" using e txn by simp
  have extent: "(if retained \<and> ext < tx_evaluated_count txn then ext else tx_evaluated_count txn) = ext"
    using ver by (auto simp: verified_def)
  show ?thesis
  proof (rule wp_thenI [OF shorten_to_wp [OF ab te, of retained ext, unfolded extent]])
    fix u :: "('b0, 'b1) executor"
    assume u: "abortable txn x u \<and> sess u = sess (y\<lparr>ex_engine := (ex_engine y)\<lparr>eng_txn := txn\<lparr>tx_evaluated_count := ext\<rparr>\<rparr>\<rparr>)"
    show "wp (thenM seal_cancel (commit_verified E kind txn d ev out))
        (\<lambda>(event, out', ev') z. ev' = ev \<and> committed txn x event (out_next_token out') z)
        (\<lambda>_ z. abortable txn x z) u"
    proof (rule wp_then_keeps [OF keeps_seal_cancel])
      fix v :: "('b0, 'b1) executor"
      assume v: "sess v = sess u"
      then show abv: "abortable txn x v" using abortable_sess u by blast
      have vv: "verified txn ev stops retained out1 ext v"
        using ver u v by (simp add: verified_def sess_def)
      have ve: "ex_engine v = (ex_engine x)\<lparr>eng_txn := txn\<lparr>tx_evaluated_count := ext\<rparr>\<rparr>"
        using u v e by (simp add: sess_def core_def)
      show "wp (commit_verified E kind txn d ev out)
          (\<lambda>(event, out', ev') z. ev' = ev \<and> committed txn x event (out_next_token out') z)
          (\<lambda>_ z. abortable txn x z) v"
        by (rule wp_mono [OF commit_verified_wp [OF abv vv ve st k ek cnt d txn voc]]) auto
    qed
  qed auto
qed

lemma settle_wp:
  assumes lv: "live txn x y" and txn: "eng_txn (ex_engine x) = txn"
    and op: "engine_open txn (ex_engine x) (ex_engine x)"
    and st: "tx_status txn = Prepared" "\<not> eng_stage0_ack (ex_engine x)" "\<not> eng_stage1_ack (ex_engine x)"
    and k: "kind = tx_kind txn" "retained \<longleftrightarrow> kind = Speculative"
    and smp: "sa_vocabulary (ex_sampler x) = eo_vocab_size (ex_options x)"
    and voc: "in_vocabulary (eo_vocab_size (ex_options x)) (out_next_token out1)"
    and ver: "verified txn ev (eo_stop_token_ids (ex_options x)) retained out1 ext y"
    and evs: "\<And>i. retained \<Longrightarrow> 1 \<le> i \<Longrightarrow> i < length ev \<Longrightarrow> in_vocabulary (eo_vocab_size (ex_options x)) (ev ! i)"
  shows "wp (settle E kind txn retained (ev, out1, ext))
    (\<lambda>(event, out', ev') z. ev' = ev \<and> committed txn x event (out_next_token out') z)
    (\<lambda>_ z. abortable txn x z) y"
proof -
  let ?vocab = "eo_vocab_size (ex_options x)" and ?stops = "eo_stop_token_ids (ex_options x)"
  have ab: "abortable txn x y" by (rule live_abortable [OF lv op])
  have cy: "ex_options y = ex_options x" "ex_sampler y = ex_sampler x" "ex_engine y = ex_engine x"
    using lv core_eqD [of y x] by (simp_all add: live_def)
  have ct: "wp (choose_token E kind ev out1)
    (\<lambda>(d, out) z. sess z = sess y \<and> decision_ok d (ex_sampler x) \<and> in_vocabulary ?vocab (out_next_token out) \<and>
       (kind = Speculative \<longrightarrow> out = out1)) (\<lambda>_ z. sess z = sess y) y"
    by (rule wp_mono [OF choose_token_wp]) (use voc smp cy in auto)
  show ?thesis
    unfolding settle_def prod.case
  proof (rule wp_bindI [OF ct], clarify, unfold check_diagnostics_def wp_thenM [of "failIf _ _"] wp_failIf
      wp_bindM [of "getM _"] wp_getM, rule if_split [THEN iffD2], intro conjI impI)
    fix d out and t :: "('b0, 'b1) executor"
    assume t: "sess t = sess y" and d: "decision_ok d (ex_sampler x)" and out: "in_vocabulary ?vocab (out_next_token out)"
      and sp: "kind = Speculative \<longrightarrow> out = out1"
    show abt: "abortable txn x t" by (rule abortable_sess [OF ab t])
    have ot: "ex_options t = ex_options x" "ex_engine t = ex_engine x"
      using t cy core_eqD [of t y] by (simp_all add: sess_eq)
    have vt: "verified txn ev ?stops retained out1 ext t" by (rule verified_sess [OF ver t])
    let ?out = "truncate_at_stop kind (eo_stop_token_ids (ex_options t)) ev out"
    have cnt: "out_state_commit_count ?out = ext" if "kind = Speculative" "ext < tx_evaluated_count txn"
    proof -
      have e1: "out_state_commit_count out1 = ext" "\<And>i. 1 \<le> i \<Longrightarrow> i < unat ext \<Longrightarrow> ev ! i \<notin> set ?stops"
        using ver that by (auto simp: verified_def)
      have "truncate_at_stop kind ?stops ev out = out"
        by (rule truncate_no_stop) (use sp e1 that in auto)
      then show ?thesis using sp e1 that ot by simp
    qed
    have vo: "in_vocabulary ?vocab (out_next_token ?out)"
      by (rule truncate_vocab [OF out]) (use evs k in auto)
    show "wp (thenM (shorten_to txn retained ext) (thenM seal_cancel (commit_verified E kind txn d ev ?out)))
      (\<lambda>(event, out', ev') z. ev' = ev \<and> committed txn x event (out_next_token out') z)
      (\<lambda>_ z. abortable txn x z) t"
      by (rule seal_commit_wp [OF abt vt ot(2) txn st k cnt d vo])
  qed (use ab abortable_sess in blast)
qed

end

section \<open>Running a transaction\<close>

lemma capped_bounds:
  assumes "\<not> x_limit x \<le> e_canonical (ex_engine x)"
  shows "unat (e_canonical (ex_engine x)) + (unat (capped_draft m x) + 1) \<le> unat (x_limit x)"
    "unat (capped_draft m x) \<le> unat m"
proof -
  let ?l = "x_limit x" and ?c = "e_canonical (ex_engine x)"
  have lt: "?c < ?l" using assms by simp
  have d: "unat (?l - ?c) = unat ?l - unat ?c" using lt by (intro unat_u64_sub) simp
  then have "1 \<le> ?l - ?c" using lt by (simp add: word_le_nat_alt word_less_nat_alt)
  then have e: "unat (?l - ?c - 1) = unat ?l - unat ?c - 1" by (simp add: unat_u64_sub d)
  have mn: "unat (min (ucast m) (?l - ?c - 1) :: u64) = min (unat m) (unat ?l - unat ?c - 1)"
    by (simp add: min_def word_le_nat_alt e)
  then have u: "unat (capped_draft m x) = min (unat m) (unat ?l - unat ?c - 1)"
    using unat_u32_lt [of m] by (simp add: capped_draft_def unsigned_ucast_eq take_bit_nat_eq_self)
  show "unat ?c + (unat (capped_draft m x) + 1) \<le> unat ?l"
    using lt by (simp add: u word_less_nat_alt)
  show "unat (capped_draft m x) \<le> unat m" by (simp add: u)
qed

text \<open>What opening a transaction makes of an idle engine.\<close>

definition opened_engine :: "TxnKind \<Rightarrow> u32 \<Rightarrow> u32 \<Rightarrow> txn_engine \<Rightarrow> txn_engine \<Rightarrow> bool" where
  "opened_engine kind appended n e t \<longleftrightarrow> (let txn = eng_txn t in
     engine_open txn t t \<and> tx_status txn = Prepared \<and> \<not> eng_stage0_ack t \<and> \<not> eng_stage1_ack t \<and>
     tx_kind txn = kind \<and> tx_evaluated_count txn = n \<and> n \<noteq> 0 \<and> tx_base_target txn = e_target e \<and>
     tx_epoch txn = e_epoch e + 1 \<and> e_epoch e \<noteq> u64_max \<and> e_target t = e_target e \<and> e_epoch t = e_epoch e \<and>
     rolled_frontiers txn (eng_frontiers t) = (eng_frontiers e)\<lparr>fr_epoch := e_epoch e + 1\<rparr> \<and>
     unat (e_canonical t) = unat (e_canonical e) + (if kind = AppendKnown then unat appended else 0))"

lemma opened_prepare:
  assumes "engine_ok e" "kind \<noteq> AppendKnown"
  shows "wp (engine_prepare kind n) (\<lambda>_ t. opened_engine kind a n e t) (\<lambda>_ t. t = e) e"
  by (rule wp_mono [OF engine_prepare_wp [OF assms(1)]])
     (use assms(2) in \<open>auto simp: opened_engine_def engine_open_def begin_txn_def rolled_frontiers_def empty_txn_def\<close>)

lemma opened_append:
  assumes "engine_ok e"
  shows "wp (prepare_append_known a n) (\<lambda>_ t. opened_engine AppendKnown a n e t) (\<lambda>_ t. t = e) e"
proof -
  have "opened_engine AppendKnown a n e (begin_append a n e)"
    if ok: "engine_ok (begin_append a n e)" and "e_epoch e \<noteq> u64_max"
  proof -
    have "active_ok (begin_append a n e)"
      using engine_okD(4) [OF ok] by (simp add: begin_append_def begin_txn_def Let_def)
    then have "n \<noteq> 0" and "e_canonical e \<le> e_canonical e + ucast a"
      by (auto simp: active_ok_def kind_ok_def begin_append_def begin_txn_def set_canonical_def empty_txn_def Let_def)
    then show ?thesis
      using ok that(2)
      by (simp add: opened_engine_def engine_open_def begin_append_def begin_txn_def set_canonical_def
          rolled_frontiers_def empty_txn_def Let_def no_olen_add_nat unat_u64_add)
  qed
  then show ?thesis by (intro wp_mono [OF prepare_append_known_wp [OF assms]]) auto
qed

context dual_stage
begin

definition idle :: "('b0, 'b1) executor \<Rightarrow> bool" where
  "idle x \<longleftrightarrow> engine_ok (ex_engine x) \<and> \<not> eng_active (ex_engine x) \<and>
     view_idle (view0 (ex_worker0 x)) (e_target (ex_engine x)) (e_epoch (ex_engine x)) \<and>
     view_idle (view1 (ex_worker1 x)) (e_target (ex_engine x)) (e_epoch (ex_engine x)) \<and>
     sa_vocabulary (ex_sampler x) = eo_vocab_size (ex_options x)"

definition opened :: "TxnKind \<Rightarrow> u32 \<Rightarrow> u32 \<Rightarrow> ('b0, 'b1) executor \<Rightarrow> SessionTxn \<Rightarrow> ('b0, 'b1) executor \<Rightarrow> bool" where
  "opened kind appended n x txn y \<longleftrightarrow> txn = eng_txn (ex_engine y) \<and> outer y = outer x \<and>
     ex_poisoned y = ex_poisoned x \<and> opened_engine kind appended n (ex_engine x) (ex_engine y) \<and> live txn y y"

lemma open_transaction_wp:
  assumes "idle x"
  shows "wp (open_transaction kind a n) (\<lambda>txn y. opened kind a n x txn y) (\<lambda>_ y. sess y = sess x) x"
proof -
  have "wp (if kind = AppendKnown then prepare_append_known a n else engine_prepare kind n)
      (\<lambda>_ t. opened_engine kind a n (ex_engine x) t) (\<lambda>_ t. t = ex_engine x) (ex_engine x)"
    using assms opened_append opened_prepare by (auto simp: idle_def)
  then have prep: "wp (on_engine (\<lambda>err. RuntimeError (''prepare failed: '' @ err))
       (if kind = AppendKnown then prepare_append_known a n else engine_prepare kind n))
      (\<lambda>_ y. opened kind a n x (eng_txn (ex_engine y)) y) (\<lambda>_ y. sess y = sess x) x"
    unfolding wp_on_engine
  proof (rule wp_mono)
    fix t assume t: "opened_engine kind a n (ex_engine x) t"
    then have "unat (e_epoch (ex_engine x)) < unat (tx_epoch (eng_txn t))"
      using epoch_next [of "ex_engine x"] by (simp add: opened_engine_def Let_def)
    then show "opened kind a n x (eng_txn (ex_engine (x\<lparr>ex_engine := t\<rparr>))) (x\<lparr>ex_engine := t\<rparr>)"
      using t assms
      by (simp add: opened_def outer_def idle_def live_def stage_live_def rollback_ready_def view_idle_def
          opened_engine_def Let_def word_less_nat_alt)
  qed (simp add: sess_def core_def)
  have [simp]: "opened kind a n x txn (ex_stats_update f y) = opened kind a n x txn y" for txn y f kind
    by (simp add: opened_def live_def outer_def)
  show ?thesis
    unfolding open_transaction_def
    by (rule wp_thenI [OF prep])
       (auto simp: add_stat_def wp_simps split: TxnKind.splits)
qed

text \<open>The three ways a transaction ends. A guard refuses and nothing has happened; a later failure
  is rolled back and costs an epoch; or the transaction commits.\<close>

definition aborted :: "('b0, 'b1) executor \<Rightarrow> exn \<Rightarrow> ('b0, 'b1) executor \<Rightarrow> bool" where
  "aborted x e z \<longleftrightarrow> outer z = outer x \<and> engine_ok (ex_engine z) \<and> \<not> eng_active (ex_engine z) \<and>
     e_epoch (ex_engine x) \<noteq> u64_max \<and>
     eng_frontiers (ex_engine z) = (eng_frontiers (ex_engine x))\<lparr>fr_epoch := e_epoch (ex_engine x) + 1\<rparr> \<and>
     view_idle (view0 (ex_worker0 z)) (e_target (ex_engine x)) (e_epoch (ex_engine x) + 1) \<and>
     view_idle (view1 (ex_worker1 z)) (e_target (ex_engine x)) (e_epoch (ex_engine x) + 1) \<and>
     ex_poisoned z = (ex_poisoned x \<or> eo_backend_failure_is_fatal (ex_options x) \<and>
       e \<noteq> ExecutionCancelled \<and> e \<noteq> ExecutionDeadlineExceeded)"

definition advanced :: "TxnKind \<Rightarrow> u32 \<Rightarrow> nat \<Rightarrow> ('b0, 'b1) executor \<Rightarrow> CommitEvent \<Rightarrow> i32 \<Rightarrow> ('b0, 'b1) executor \<Rightarrow> bool" where
  "advanced kind appended n x event next z \<longleftrightarrow> (\<exists>sc d. sc \<noteq> 0 \<and> unat sc \<le> n \<and> (kind \<noteq> Speculative \<longrightarrow> unat sc = n) \<and>
     idle z \<and> e_epoch (ex_engine x) \<noteq> u64_max \<and> e_epoch (ex_engine z) = e_epoch (ex_engine x) + 1 \<and>
     e_target (ex_engine z) = e_target (ex_engine x) + ucast sc \<and>
     unat (e_canonical (ex_engine z)) = unat (e_canonical (ex_engine x)) +
       (if kind = AppendKnown then unat appended else unat sc) \<and>
     ce_newly_published event = (if kind = AppendKnown then 0 else sc) \<and>
     ex_options z = ex_options x \<and> ex_sampler z = draw_committed d (ex_sampler x) \<and>
     ex_tokens z = ex_tokens x \<and> ex_last_sample z = ex_last_sample x \<and>
     ex_have_last_sample z = ex_have_last_sample x \<and> ex_poisoned z = ex_poisoned x \<and>
     in_vocabulary (eo_vocab_size (ex_options x)) next)"

lemma rolled_back_aborted:
  assumes op: "opened kind a n x txn y" and rb: "rolled_back txn y z"
    and p: "ex_poisoned z = (ex_poisoned y \<or> eo_backend_failure_is_fatal (ex_options y) \<and>
       e \<noteq> ExecutionCancelled \<and> e \<noteq> ExecutionDeadlineExceeded)"
  shows "aborted x e z"
  using assms outer_eqD(1) [of y x]
  by (auto simp: aborted_def rolled_back_def opened_def opened_engine_def Let_def)

lemma committed_advanced:
  assumes i: "idle x" and op: "opened kind a n x txn y" and co: "committed txn y event next z"
  shows "advanced kind a (unat n) x event next z"
proof -
  obtain sc d where dec: "decided_by txn (ex_engine y) sc event (ex_engine z)"
    and sc: "tx_kind txn \<noteq> Speculative \<longrightarrow> sc = tx_evaluated_count txn"
    and z: "ex_options z = ex_options y" "ex_sampler z = draw_committed d (ex_sampler y)"
      "ex_tokens z = ex_tokens y" "ex_last_sample z = ex_last_sample y"
      "ex_have_last_sample z = ex_have_last_sample y" "ex_poisoned z = ex_poisoned y"
    and v: "view_idle (view0 (ex_worker0 z)) (tx_base_target txn + ucast sc) (tx_epoch txn)"
      "view_idle (view1 (ex_worker1 z)) (tx_base_target txn + ucast sc) (tx_epoch txn)"
    and voc: "in_vocabulary (eo_vocab_size (ex_options y)) next"
    using co unfolding committed_def by blast
  have o: "outer y = outer x" "ex_poisoned y = ex_poisoned x" "txn = eng_txn (ex_engine y)"
    and oe: "opened_engine kind a n (ex_engine x) (ex_engine y)"
    using op by (simp_all add: opened_def)
  have k: "tx_kind txn = kind" "tx_evaluated_count txn = n" "tx_base_target txn = e_target (ex_engine x)"
    "tx_epoch txn = e_epoch (ex_engine x) + 1" "e_target (ex_engine y) = e_target (ex_engine x)"
    "e_epoch (ex_engine x) \<noteq> u64_max"
    "unat (e_canonical (ex_engine y)) = unat (e_canonical (ex_engine x)) + (if kind = AppendKnown then unat a else 0)"
    using oe o(3) by (simp_all add: opened_engine_def Let_def)
  note ox = outer_eqD [OF o(1)]
  have "unat (e_canonical (ex_engine z)) = unat (e_canonical (ex_engine y)) + unat (ce_newly_published event)"
    using dec unat_u64_add [of "e_canonical (ex_engine y)" "ucast (ce_newly_published event)"]
    unfolding decided_by_def by (auto split: if_splits)
  then have can: "unat (e_canonical (ex_engine z)) = unat (e_canonical (ex_engine x)) +
       (if kind = AppendKnown then unat a else unat sc)"
    using k dec o(3) by (simp add: decided_by_def)
  have "idle z" using dec v z ox k i by (simp add: idle_def decided_by_def)
  then show ?thesis
    unfolding advanced_def
    using dec sc z ox k can voc o
    by (intro exI [of _ sc] exI [of _ d]) (auto simp: decided_by_def word_le_nat_alt)
qed

lemma transaction_guards_wp:
  "wp (transaction_guards kind ev chunk rd)
    (\<lambda>_ y. sess y = sess x \<and> \<not> ex_poisoned x \<and> ev \<noteq> [] \<and> chunk \<noteq> 0 \<and>
       (\<forall>r. rd = Some r \<longrightarrow> chunk = 1 \<and> length ev = unat (rd_max_draft r) + 1))
    (\<lambda>_ y. sess y = sess x) x"
proof -
  have "wp (thenM check_cancel (thenM (failIf (\<lambda>_. ev = []) (InvalidArgument ''cannot run an empty transaction''))
    (thenM (failIf (\<lambda>_. chunk = 0) (InvalidArgument ''transaction chunk size is zero''))
           (failIf (\<lambda>_. case rd of None \<Rightarrow> False
              | Some r \<Rightarrow> kind \<noteq> Speculative \<or> chunk \<noteq> 1 \<or> rd_max_draft r = 0 \<or>
                  length ev \<noteq> unat (rd_max_draft r) + 1 \<or> rd_pending_token r \<noteq> hd ev)
              (InvalidArgument ''retained draft extent differs from speculative transaction'')))))
    (\<lambda>_ y. sess y = sess x \<and> ev \<noteq> [] \<and> chunk \<noteq> 0 \<and>
       (\<forall>r. rd = Some r \<longrightarrow> chunk = 1 \<and> length ev = unat (rd_max_draft r) + 1))
    (\<lambda>_ y. sess y = sess x) x"
    by (rule wp_then_keeps [OF keeps_check_cancel]) (auto simp: wp_simps split: option.splits)
  then show ?thesis
    unfolding transaction_guards_def ensure_healthy_def wp_thenM [of "failIf ex_poisoned _"] wp_failIf
    by (auto elim!: wp_mono)
qed

lemma run_transaction_wp:
  assumes i: "idle x" and k: "rd \<noteq> None \<longleftrightarrow> kind = Speculative" and len: "length ev < 2 ^ 32"
  shows "wp (run_transaction E kind ev chunk a rd)
    (\<lambda>(event, out, ev') z. length ev' = length ev \<and> advanced kind a (length ev) x event (out_next_token out) z \<and>
       \<not> ex_poisoned x \<and> (kind = Speculative \<longrightarrow>
         (\<forall>j. 1 \<le> j \<and> j < length ev \<longrightarrow> in_vocabulary (eo_vocab_size (ex_options x)) (ev' ! j))))
    (\<lambda>e z. sess z = sess x \<or> aborted x e z) x"
proof -
  let ?n = "word_of_nat (length ev) :: u32" and ?vocab = "eo_vocab_size (ex_options x)"
  let ?Q = "\<lambda>(event, out, ev') z. length ev' = length ev \<and>
       advanced kind a (length ev) x event (out_next_token out) z \<and> \<not> ex_poisoned x \<and> (kind = Speculative \<longrightarrow>
         (\<forall>j. 1 \<le> j \<and> j < length ev \<longrightarrow> in_vocabulary ?vocab (ev' ! j)))"
  have un: "unat ?n = length ev" using len by (simp add: unat_of_nat_u32)
  have body: "wp (catchM (bindM (evaluate E kind txn ev chunk rd) (settle E kind txn (rd \<noteq> None)))
      (on_failure E (tx_epoch txn))) ?Q (\<lambda>e z. sess z = sess x \<or> aborted x e z) y"
    if op: "opened kind a ?n x txn y" and ch: "chunk \<noteq> 0" "\<not> ex_poisoned x"
      "\<And>r. rd = Some r \<Longrightarrow> chunk = 1 \<and> length ev = unat (rd_max_draft r) + 1" for txn y
  proof -
    have oe: "opened_engine kind a ?n (ex_engine x) (ex_engine y)" and txn: "txn = eng_txn (ex_engine y)"
      and lv: "live txn y y" and ou: "outer y = outer x"
      using op unfolding opened_def by blast+
    have f: "engine_open txn (ex_engine y) (ex_engine y)" "tx_status txn = Prepared"
      "\<not> eng_stage0_ack (ex_engine y)" "\<not> eng_stage1_ack (ex_engine y)" "kind = tx_kind txn"
      "tx_evaluated_count txn \<noteq> 0" "length ev = unat (tx_evaluated_count txn)"
      using oe txn un by (auto simp: opened_engine_def Let_def)
    have smp: "sa_vocabulary (ex_sampler y) = eo_vocab_size (ex_options y)"
      using i outer_eqD [OF ou] by (simp add: idle_def)
    have fin: "?Q (event, out, ev') z" if "length ev' = length ev" "committed txn y event (out_next_token out) z"
      "kind = Speculative \<longrightarrow> (\<forall>j. 1 \<le> j \<and> j < length ev \<longrightarrow> in_vocabulary ?vocab (ev' ! j))" for event out ev' z
      using that committed_advanced [OF i op that(2)] ch un by simp
    have "wp (bindM (evaluate E kind txn ev chunk rd) (settle E kind txn (rd \<noteq> None)))
       ?Q (\<lambda>_ z. abortable txn y z) y"
    proof (rule wp_bindI [OF evaluate_wp [OF lv ch(1) f(6,7) ch(3)]], assumption, clarify)
      fix ev' out1 ext z
      assume z: "live txn y z" and le: "length ev' = length ev"
        and voc: "in_vocabulary (eo_vocab_size (ex_options y)) (out_next_token out1)"
        and ver: "verified txn ev' (eo_stop_token_ids (ex_options y)) (rd \<noteq> None) out1 ext z"
        and dv: "rd \<noteq> None \<longrightarrow> (\<forall>j. 1 \<le> j \<and> j < length ev \<longrightarrow> in_vocabulary (eo_vocab_size (ex_options y)) (ev' ! j))"
      show "wp (settle E kind txn (rd \<noteq> None) (ev', out1, ext)) ?Q (\<lambda>_ z. abortable txn y z) z"
        by (rule wp_mono [OF settle_wp [OF z txn [symmetric] f(1-5) k smp voc ver]])
           (use dv le k fin outer_eqD(1) [OF ou] in auto)
    qed (use live_abortable f(1) in blast)
    then show ?thesis
      unfolding wp_catchM
      by (rule wp_mono) (auto intro!: wp_mono [OF on_failure_wp] rolled_back_aborted [OF op])
  qed
  show ?thesis
    unfolding run_transaction_def
  proof (rule wp_thenI [OF transaction_guards_wp [where x = x]])
    fix y :: "('b0, 'b1) executor"
    assume g: "sess y = sess x \<and> \<not> ex_poisoned x \<and> ev \<noteq> [] \<and> chunk \<noteq> 0 \<and>
       (\<forall>r. rd = Some r \<longrightarrow> chunk = 1 \<and> length ev = unat (rd_max_draft r) + 1)"
    have iy: "idle y" and opy: "\<And>txn z. opened kind a ?n y txn z \<Longrightarrow> opened kind a ?n x txn z"
      using i g by (auto simp: idle_def opened_def sess_def core_def outer_def)
    show "wp (bindM (open_transaction kind a ?n) (\<lambda>txn.
       catchM (bindM (evaluate E kind txn ev chunk rd) (settle E kind txn (rd \<noteq> None)))
         (on_failure E (tx_epoch txn)))) ?Q (\<lambda>e z. sess z = sess x \<or> aborted x e z) y"
      by (rule wp_bindI [OF open_transaction_wp [OF iy]], rule body) (use g opy in auto)
  qed simp
qed

section \<open>The session invariant\<close>

text \<open>Between requests: both stages stand at the target, the canonical tokens are as many as the
  frontier says and fit the context, at most one of them is not evaluated, and the penalty counts
  are those of the canonical tokens.\<close>

definition session_ok :: "('b0, 'b1) executor \<Rightarrow> bool" where
  "session_ok x \<longleftrightarrow> idle x \<and> unat (e_canonical (ex_engine x)) = length (ex_tokens x) \<and>
     length (ex_tokens x) \<le> unat (e_target (ex_engine x)) + 1 \<and>
     length (ex_tokens x) \<le> unat (eo_context_limit (ex_options x)) \<and>
     sampler_tracks (ex_sampler x) (ex_tokens x) \<and>
     (ex_have_last_sample x \<longrightarrow> in_vocabulary (eo_vocab_size (ex_options x)) (ex_last_sample x))"

lemma session_ok_sess: "sess z = sess x \<Longrightarrow> session_ok x \<Longrightarrow> session_ok z"
  by (simp add: session_ok_def idle_def sess_def core_def)

lemma session_ok_aborted: "session_ok x \<Longrightarrow> aborted x e z \<Longrightarrow> session_ok z"
  using outer_eqD [of z x] by (simp add: session_ok_def idle_def aborted_def)

lemma session_okD:
  assumes "session_ok x"
  shows "idle x" "unat (e_canonical (ex_engine x)) = length (ex_tokens x)"
    "unat (e_target (ex_engine x)) \<le> length (ex_tokens x)"
    "length (ex_tokens x) \<le> unat (e_target (ex_engine x)) + 1"
    "length (ex_tokens x) \<le> unat (eo_context_limit (ex_options x))" "length (ex_tokens x) < 2 ^ 32"
    "unat (x_pending x) = length (ex_tokens x) - unat (e_target (ex_engine x))"
    "unat (x_limit x) = unat (eo_context_limit (ex_options x))"
    "sa_vocabulary (ex_sampler x) = eo_vocab_size (ex_options x)"
proof -
  have le: "e_target (ex_engine x) \<le> e_canonical (ex_engine x)"
    using assms engine_okD(1) by (simp add: session_ok_def idle_def)
  show "idle x" "unat (e_canonical (ex_engine x)) = length (ex_tokens x)"
    "unat (e_target (ex_engine x)) \<le> length (ex_tokens x)"
    "length (ex_tokens x) \<le> unat (e_target (ex_engine x)) + 1"
    "length (ex_tokens x) \<le> unat (eo_context_limit (ex_options x))"
    "unat (x_limit x) = unat (eo_context_limit (ex_options x))"
    "sa_vocabulary (ex_sampler x) = eo_vocab_size (ex_options x)"
    using assms le by (simp_all add: session_ok_def idle_def word_le_nat_alt x_limit_def)
  then show "length (ex_tokens x) < 2 ^ 32"
    using unat_u32_lt [of "eo_context_limit (ex_options x)"] by simp
  show "unat (x_pending x) = length (ex_tokens x) - unat (e_target (ex_engine x))"
    using assms unat_u64_sub [OF le] by (simp add: session_ok_def x_pending_def)
qed

text \<open>Publishing tokens after a commit keeps the invariant.\<close>

lemma session_ok_publish:
  assumes ok: "session_ok x" and adv: "advanced kind a n x event next z"
    and us: "list_all (in_vocabulary (eo_vocab_size (ex_options x))) us"
      "unat (e_canonical (ex_engine z)) = length (ex_tokens x) + length us"
    and lim: "length (ex_tokens x) + length us \<le> unat (eo_context_limit (ex_options x))"
    and tgt: "length (ex_tokens x) + length us \<le> unat (e_target (ex_engine z)) + 1"
    and y: "y = z\<lparr>ex_tokens := ex_tokens z @ us, ex_sampler := fold count_token us (ex_sampler z),
       ex_last_sample := next, ex_have_last_sample := h\<rparr>"
  shows "session_ok y"
proof -
  obtain d where z: "idle z" "ex_options z = ex_options x" "ex_sampler z = draw_committed d (ex_sampler x)"
    "ex_tokens z = ex_tokens x" "in_vocabulary (eo_vocab_size (ex_options x)) next"
    using adv unfolding advanced_def by blast
  have tr: "sampler_tracks (ex_sampler z) (ex_tokens z)" using ok z by (simp add: session_ok_def)
  have vz: "list_all (in_vocabulary (sa_vocabulary (ex_sampler z))) us"
    using us z ok by (simp add: session_ok_def idle_def)
  have fr: "sa_vocabulary (fold count_token us s) = sa_vocabulary s" for s
    by (induction us arbitrary: s) auto
  have "sampler_tracks (fold count_token us (ex_sampler z)) (ex_tokens z @ us)"
    using commit_tokens_wp [OF tr vz] by (auto simp: wp_def split: prod.splits sum.splits)
  then show ?thesis
    using z us lim tgt fr by (simp add: session_ok_def idle_def y)
qed

lemma commit_published_wp:
  assumes "sampler_tracks (ex_sampler y) ts" "list_all (in_vocabulary (sa_vocabulary (ex_sampler y))) us"
  shows "wp (on_sampler (commit_tokens us)) (\<lambda>_ z. z = y\<lparr>ex_sampler := fold count_token us (ex_sampler y)\<rparr>)
    (\<lambda>_ _. False) y"
  unfolding on_sampler_def wp_zoomM
  by (rule wp_mono [OF commit_tokens_wp [OF assms]]) auto

lemma aborted_sess:
  assumes "sess y = sess x"
  shows "aborted y e z = aborted x e z"
proof -
  have c: "core y = core x" "outer y = outer x" using assms by (simp_all add: sess_eq core_outer)
  show ?thesis unfolding aborted_def c(2) core_eqD [OF c(1)] by (rule refl)
qed

lemma advanced_sess:
  assumes "sess y = sess x"
  shows "advanced k a n y event t z = advanced k a n x event t z"
proof -
  have c: "core y = core x" using assms by (simp add: sess_eq)
  show ?thesis unfolding advanced_def core_eqD [OF c] by (rule refl)
qed

text \<open>The result of a failed request: nothing happened, or the transaction was rolled back.\<close>

definition failed :: "('b0, 'b1) executor \<Rightarrow> exn \<Rightarrow> ('b0, 'b1) executor \<Rightarrow> bool" where
  "failed x e z \<longleftrightarrow> sess z = sess x \<or> aborted x e z"

lemma failed_sess: "sess y = sess x \<Longrightarrow> failed y e z = failed x e z"
  unfolding failed_def by (metis aborted_sess)

lemma failed_same: "sess z = sess x \<Longrightarrow> failed x e z"
  by (simp add: failed_def)

lemma session_ok_failed: "session_ok x \<Longrightarrow> failed x e z \<Longrightarrow> session_ok z"
  unfolding failed_def by (blast intro: session_ok_sess session_ok_aborted)

lemma with_token_wp:
  assumes "\<And>y. sess y = sess x \<Longrightarrow> wp m Q F y"
  shows "wp (with_token c m) Q F x"
  unfolding with_token_def wp_thenM wp_modifyM by (rule assms) (simp add: sess_def core_def)

lemma append_guards_wp:
  fixes x :: "('b0, 'b1) executor"
  shows "wp (append_guards ids)
    (\<lambda>_ y. sess y = sess x \<and> \<not> ex_poisoned x \<and> ids \<noteq> [] \<and>
       list_all (in_vocabulary (eo_vocab_size (ex_options x))) ids \<and>
       length ids \<le> unat (x_limit x - min (e_canonical (ex_engine x)) (x_limit x)) \<and> x_pending x \<le> 1)
    (\<lambda>_ y. sess y = sess x) x"
proof -
  have "wp (thenM check_cancel (thenM (failIf (\<lambda>_. ids = []) (InvalidArgument ''cannot append zero tokens''))
    (thenM (failIf (\<lambda>x. \<not> list_all (in_vocabulary (eo_vocab_size (ex_options x))) ids)
              (InvalidArgument ''token is outside the configured vocabulary''))
    (thenM (failIf (\<lambda>x. length ids > unat (x_limit x - min (e_canonical (ex_engine x)) (x_limit x)))
              (LengthError ''append exceeds the configured context limit''))
           (failIf (\<lambda>x. x_pending x > 1) (RuntimeError ''append has more than one pending token''))))))
    (\<lambda>_ y. sess y = sess x \<and> ids \<noteq> [] \<and> list_all (in_vocabulary (eo_vocab_size (ex_options x))) ids \<and>
       length ids \<le> unat (x_limit x - min (e_canonical (ex_engine x)) (x_limit x)) \<and> x_pending x \<le> 1)
    (\<lambda>_ y. sess y = sess x) x"
  proof (rule wp_then_keeps [OF keeps_check_cancel])
    fix t :: "('b0, 'b1) executor"
    assume t: "sess t = sess x"
    then have "ex_options t = ex_options x" "ex_engine t = ex_engine x"
      using core_eqD [of t x] by (simp_all add: sess_eq)
    then show "wp (thenM (failIf (\<lambda>_. ids = []) (InvalidArgument ''cannot append zero tokens''))
    (thenM (failIf (\<lambda>x. \<not> list_all (in_vocabulary (eo_vocab_size (ex_options x))) ids)
              (InvalidArgument ''token is outside the configured vocabulary''))
    (thenM (failIf (\<lambda>x. length ids > unat (x_limit x - min (e_canonical (ex_engine x)) (x_limit x)))
              (LengthError ''append exceeds the configured context limit''))
           (failIf (\<lambda>x. x_pending x > 1) (RuntimeError ''append has more than one pending token'')))))
    (\<lambda>_ y. sess y = sess x \<and> ids \<noteq> [] \<and> list_all (in_vocabulary (eo_vocab_size (ex_options x))) ids \<and>
       length ids \<le> unat (x_limit x - min (e_canonical (ex_engine x)) (x_limit x)) \<and> x_pending x \<le> 1)
    (\<lambda>_ y. sess y = sess x) t"
      using t by (auto simp: wp_simps x_limit_def x_pending_def not_less)
  qed
  then show ?thesis
    unfolding append_guards_def ensure_healthy_def wp_thenM [of "failIf ex_poisoned _"] wp_failIf
    by (auto elim!: wp_mono)
qed

text \<open>The token that is not evaluated yet, if there is one.\<close>

lemma pending_token:
  assumes "session_ok x" "x_pending x = 1"
  shows "token_at (ex_tokens x) (e_target (ex_engine x)) = Inr (last (ex_tokens x))"
    "drop (unat (e_target (ex_engine x))) (ex_tokens x) = [last (ex_tokens x)]"
    "unat (e_target (ex_engine x)) + 1 = length (ex_tokens x)"
proof -
  have "length (ex_tokens x) - unat (e_target (ex_engine x)) = 1"
    using session_okD(7) [OF assms(1)] assms(2) by simp
  then have l: "unat (e_target (ex_engine x)) + 1 = length (ex_tokens x)" by simp
  then show "unat (e_target (ex_engine x)) + 1 = length (ex_tokens x)" .
  have ne: "ex_tokens x \<noteq> []" using l by auto
  have i: "unat (e_target (ex_engine x)) = length (ex_tokens x) - 1" using l by simp
  show "token_at (ex_tokens x) (e_target (ex_engine x)) = Inr (last (ex_tokens x))"
    using ne by (simp add: token_at_def i last_conv_nth)
  show "drop (unat (e_target (ex_engine x))) (ex_tokens x) = [last (ex_tokens x)]"
    using ne unfolding i by (metis append_butlast_last_id append_eq_conv_conj length_butlast)
qed

text \<open>What a successful append, decode or speculative step leaves.\<close>

definition extended :: "('b0, 'b1) executor \<Rightarrow> i32 list \<Rightarrow> ('b0, 'b1) executor \<Rightarrow> bool" where
  "extended x us z \<longleftrightarrow> session_ok z \<and> ex_tokens z = ex_tokens x @ us \<and> us \<noteq> [] \<and>
     list_all (in_vocabulary (eo_vocab_size (ex_options x))) us \<and> ex_options z = ex_options x \<and>
     \<not> ex_poisoned x \<and> \<not> ex_poisoned z"

lemma extended_sess: "sess y = sess x \<Longrightarrow> extended y us z \<Longrightarrow> extended x us z"
  by (simp add: extended_def sess_def core_def)

lemma append_publish_wp:
  assumes ok: "session_ok x" and ids: "list_all (in_vocabulary (eo_vocab_size (ex_options x))) ids" "ids \<noteq> []"
    and len: "length (ex_tokens x) + length ids \<le> unat (eo_context_limit (ex_options x))"
    and adv: "advanced AppendKnown (word_of_nat (length ids)) (length (ex_tokens x) -
       unat (e_target (ex_engine x)) + length ids) x event (out_next_token out) z"
    and p: "\<not> ex_poisoned x"
  shows "wp (thenM (modifyM (\<lambda>x. x\<lparr>ex_tokens := ex_tokens x @ ids\<rparr>))
    (thenM (on_sampler (commit_tokens ids))
           (modifyM (\<lambda>x. x\<lparr>ex_last_sample := out_next_token out, ex_have_last_sample := True\<rparr>))))
    (\<lambda>_ u. extended x ids u \<and> e_target (ex_engine u) = e_canonical (ex_engine u) \<and> ex_have_last_sample u)
    (\<lambda>_ _. False) z"
proof -
  note D = session_okD [OF ok]
  obtain sc :: u32 and d where "AppendKnown \<noteq> Speculative \<longrightarrow> unat sc = length (ex_tokens x) -
      unat (e_target (ex_engine x)) + length ids"
    and t: "e_target (ex_engine z) = e_target (ex_engine x) + ucast sc"
    and c: "unat (e_canonical (ex_engine z)) = unat (e_canonical (ex_engine x)) +
      (if AppendKnown = AppendKnown then unat (word_of_nat (length ids) :: u32) else unat sc)"
    and z: "ex_options z = ex_options x" "ex_sampler z = draw_committed d (ex_sampler x)" "ex_tokens z = ex_tokens x"
    "ex_poisoned z = ex_poisoned x"
    using adv unfolding advanced_def by blast
  then have sc: "unat sc = length (ex_tokens x) - unat (e_target (ex_engine x)) + length ids" by simp
  have lim: "unat (eo_context_limit (ex_options x)) < 2 ^ 32" using unat_u32_lt by simp
  have ui: "unat (word_of_nat (length ids) :: u32) = length ids"
    using len lim by (intro unat_of_nat_u32) simp
  have can: "unat (e_canonical (ex_engine z)) = length (ex_tokens x) + length ids" using c ui D(2) by simp
  have "unat (e_target (ex_engine z)) = unat (e_target (ex_engine x)) + unat sc"
    unfolding t by (rule trans [OF unat_u64_add]) (use sc D(3) len lim in auto)
  then have tgt: "unat (e_target (ex_engine z)) = length (ex_tokens x) + length ids" using sc D(3) by simp
  have tr: "sampler_tracks (ex_sampler z) (ex_tokens z)" using ok z by (simp add: session_ok_def)
  have vz: "list_all (in_vocabulary (sa_vocabulary (ex_sampler z))) ids" using ids z D(9) by simp
  have fin: "session_ok (z\<lparr>ex_tokens := ex_tokens z @ ids, ex_sampler := fold count_token ids (ex_sampler z),
       ex_last_sample := out_next_token out, ex_have_last_sample := True\<rparr>)"
    by (rule session_ok_publish [OF ok adv ids(1) can len _ refl]) (simp add: tgt)
  have "wp (on_sampler (commit_tokens ids))
    (\<lambda>_ u. u = z\<lparr>ex_tokens := ex_tokens z @ ids, ex_sampler := fold count_token ids (ex_sampler z)\<rparr>)
    (\<lambda>_ _. False) (z\<lparr>ex_tokens := ex_tokens z @ ids\<rparr>)"
    by (rule wp_mono [OF commit_published_wp]) (use tr vz in auto)
  then show ?thesis
    unfolding wp_thenM [of "modifyM _"] wp_modifyM
    by (rule wp_thenI)
       (use fin p z ids can tgt in \<open>auto simp: wp_modifyM extended_def word_unat_eq_iff\<close>)
qed

lemma append_wp:
  assumes ok: "session_ok x"
  shows "wp (append E ids c)
    (\<lambda>_ z. extended x ids z \<and> e_target (ex_engine z) = e_canonical (ex_engine z) \<and> ex_have_last_sample z)
    (\<lambda>e z. failed x e z) x"
  unfolding append_def
proof (rule with_token_wp, rule wp_thenI [OF append_guards_wp], goal_cases)
  case (1 x' _ y)
  then have y: "sess y = sess x" by simp
  have oky: "session_ok y" by (rule session_ok_sess [OF y ok])
  note D = session_okD [OF oky]
  have same: "ex_options x' = ex_options y" "ex_engine x' = ex_engine y" "ex_poisoned x' = ex_poisoned y"
    "x_limit x' = x_limit y" "x_pending x' = x_pending y"
    using 1 core_eqD [of y x'] by (simp_all add: sess_eq x_limit_def x_pending_def)
  have "e_canonical (ex_engine y) \<le> x_limit y" using D(2,5,8) by (simp add: word_le_nat_alt)
  then have "length ids \<le> unat (eo_context_limit (ex_options y)) - length (ex_tokens y)"
    using 1 same D(2,8) by (simp add: min_def unat_u64_sub)
  then have len: "length (ex_tokens y) + length ids \<le> unat (eo_context_limit (ex_options y))"
    using D(5) by linarith
  let ?pend = "drop (unat (e_target (ex_engine y))) (ex_tokens y)"
  have pend: "(if x_pending y = 1 then map_sum id (\<lambda>t. [t]) (token_at (ex_tokens y) (e_target (ex_engine y)))
      else Inr []) = (Inr ?pend :: exn + i32 list)"
  proof (cases "x_pending y = 1")
    case True
    then show ?thesis using pending_token [OF oky] by simp
  next
    case False
    then have "unat (x_pending y) \<noteq> 1" by (metis unat_1 word_unat_eq_iff)
    then have "unat (x_pending y) = 0" using 1 same by (simp add: word_le_nat_alt)
    then show ?thesis using False D(7) by simp
  qed
  have lp: "length (?pend @ ids) = length (ex_tokens y) - unat (e_target (ex_engine y)) + length ids" by simp
  have small: "length (?pend @ ids) < 2 ^ 32"
    using len unat_u32_lt [of "eo_context_limit (ex_options y)"] by simp
  show ?case
    unfolding wp_bindM [of "liftE _"] wp_liftE pend sum.case wp_bindM [of "getM _"] wp_getM
  proof (rule wp_bindI [OF run_transaction_wp [OF D(1) _ small]], simp, clarify, goal_cases)
    case (1 event out ev' z)
    have "wp (thenM (modifyM (\<lambda>x. x\<lparr>ex_tokens := ex_tokens x @ ids\<rparr>)) (thenM (on_sampler (commit_tokens ids))
        (modifyM (\<lambda>x. x\<lparr>ex_last_sample := out_next_token out, ex_have_last_sample := True\<rparr>))))
      (\<lambda>_ u. extended y ids u \<and> e_target (ex_engine u) = e_canonical (ex_engine u) \<and> ex_have_last_sample u)
      (\<lambda>_ _. False) z"
      by (rule append_publish_wp [OF oky _ _ len 1(2) [unfolded lp] 1(3)])
         (use \<open>sess y = sess x' \<and> _\<close> same in auto)
    then show ?case by (rule wp_mono) (use extended_sess [OF y] in auto)
  next
    case (2 e z)
    then show ?case using failed_sess [OF y] by (simp add: failed_def)
  qed
qed (auto intro: failed_same)

lemma commit_one_wp:
  assumes "sampler_tracks (ex_sampler y) ts" "in_vocabulary (sa_vocabulary (ex_sampler y)) t"
  shows "wp (on_sampler (commit_token t)) (\<lambda>_ z. z = y\<lparr>ex_sampler := fold count_token [t] (ex_sampler y)\<rparr>)
    (\<lambda>_ _. False) y"
  unfolding on_sampler_def wp_zoomM
  by (rule wp_mono [OF commit_token_wp [OF assms(1)]]) (use assms in auto)

text \<open>Publishing decoded tokens after a decode or speculative commit.\<close>

lemma decoded_ok:
  assumes ok: "session_ok x" and pd: "x_pending x = 1" and adv: "advanced kind a n x event next z"
    and k: "kind \<noteq> AppendKnown" and us: "list_all (in_vocabulary (eo_vocab_size (ex_options x))) us"
      "length us = unat (ce_newly_published event)"
    and lim: "length (ex_tokens x) + n \<le> unat (eo_context_limit (ex_options x))" and p: "\<not> ex_poisoned x"
  shows "extended x us (z\<lparr>ex_tokens := ex_tokens z @ us, ex_sampler := fold count_token us (ex_sampler z),
       ex_last_sample := next\<rparr>)"
    and "sampler_tracks (ex_sampler z) (ex_tokens z)"
    and "list_all (in_vocabulary (sa_vocabulary (ex_sampler z))) us"
    and "x_pending (z\<lparr>ex_tokens := ts, ex_sampler := sa, ex_last_sample := t\<rparr>) = 1"
proof -
  note D = session_okD [OF ok]
  obtain sc :: u32 and d where sc: "sc \<noteq> 0" "unat sc \<le> n" "e_target (ex_engine z) = e_target (ex_engine x) + ucast sc"
    "unat (e_canonical (ex_engine z)) = unat (e_canonical (ex_engine x)) +
      (if kind = AppendKnown then unat a else unat sc)"
    "ce_newly_published event = (if kind = AppendKnown then 0 else sc)"
    and z: "ex_options z = ex_options x" "ex_sampler z = draw_committed d (ex_sampler x)" "ex_tokens z = ex_tokens x"
      "ex_poisoned z = ex_poisoned x" "idle z"
    using adv unfolding advanced_def by blast
  have lt: "unat (eo_context_limit (ex_options x)) < 2 ^ 32" using unat_u32_lt by simp
  have lu: "length us = unat sc" using us(2) sc(5) k by simp
  have can: "unat (e_canonical (ex_engine z)) = length (ex_tokens x) + length us" using sc(4) k lu D(2) by simp
  have "unat (e_target (ex_engine z)) = unat (e_target (ex_engine x)) + unat sc"
    unfolding sc(3) by (rule trans [OF unat_u64_add]) (use sc(2) D(3) lim lt in auto)
  then have tgt: "length (ex_tokens x) + length us = unat (e_target (ex_engine z)) + 1"
    using pending_token(3) [OF ok pd] lu by simp
  have le: "e_target (ex_engine z) \<le> e_canonical (ex_engine z)" using can tgt by (simp add: word_le_nat_alt)
  have "unat (e_canonical (ex_engine z) - e_target (ex_engine z)) = 1" using can tgt unat_u64_sub [OF le] by simp
  then show "x_pending (z\<lparr>ex_tokens := ts, ex_sampler := sa, ex_last_sample := t\<rparr>) = 1"
    by (simp add: x_pending_def word_unat_eq_iff)
  have "session_ok (z\<lparr>ex_tokens := ex_tokens z @ us, ex_sampler := fold count_token us (ex_sampler z),
       ex_last_sample := next, ex_have_last_sample := ex_have_last_sample z\<rparr>)"
    by (rule session_ok_publish [OF ok adv us(1) can _ _ refl]) (use lim lu sc(2) tgt in auto)
  then show "extended x us (z\<lparr>ex_tokens := ex_tokens z @ us, ex_sampler := fold count_token us (ex_sampler z),
       ex_last_sample := next\<rparr>)"
    using z us(1) lu sc(1) p unat_gt_0 [of sc] by (auto simp: extended_def)
  show "sampler_tracks (ex_sampler z) (ex_tokens z)" using ok z by (simp add: session_ok_def)
  show "list_all (in_vocabulary (sa_vocabulary (ex_sampler z))) us" using us z D(9) by simp
qed

text \<open>A decode result: the published tokens are the new canonical tokens, as many as the commit
  reports.\<close>

definition decoded :: "('b0, 'b1) executor \<Rightarrow> DecodeResult \<Rightarrow> ('b0, 'b1) executor \<Rightarrow> bool" where
  "decoded x r z \<longleftrightarrow> extended x (dr_published_tokens r) z \<and> x_pending z = 1 \<and>
     length (dr_published_tokens r) = unat (ce_newly_published (dr_commit r)) \<and>
     ex_last_sample z = last (dr_published_tokens r)"

lemma decode_body_wp:
  assumes ok: "session_ok x"
  shows "wp (decode_body E) (\<lambda>r z. decoded x r z \<and> length (dr_published_tokens r) = 1) (\<lambda>e z. failed x e z) x"
proof -
  note D = session_okD [OF ok]
  have run: "wp (bindM (liftE (\<lambda>x. token_at (ex_tokens x) (e_target (ex_engine x)))) (\<lambda>pending.
     bindM (run_transaction E Decode [pending] 1 0 None) (\<lambda>(event, stage1, eval).
     thenM (modifyM (\<lambda>x. x\<lparr>ex_tokens := ex_tokens x @ [out_next_token stage1]\<rparr>))
    (thenM (on_sampler (commit_token (out_next_token stage1)))
    (thenM (modifyM (\<lambda>x. x\<lparr>ex_last_sample := out_next_token stage1\<rparr>))
           (returnM \<lparr> dr_commit = event, dr_published_tokens = [out_next_token stage1] \<rparr>))))))
     (\<lambda>r z. decoded x r z \<and> length (dr_published_tokens r) = 1) (\<lambda>e z. failed x e z) x"
    if pd: "x_pending x = 1" and lim: "\<not> x_limit x \<le> e_canonical (ex_engine x)"
    unfolding wp_bindM [of "liftE _"] wp_liftE pending_token(1) [OF ok pd] sum.case
  proof (rule wp_bindI [OF run_transaction_wp [OF D(1)]], simp, simp, clarify, goal_cases)
    case (1 event out ev' z)
    let ?t = "out_next_token out"
    have voc: "list_all (in_vocabulary (eo_vocab_size (ex_options x))) [?t]" "length [?t] = unat (ce_newly_published event)"
      using 1(2) by (auto simp: advanced_def)
    have l: "length (ex_tokens x) + length [last (ex_tokens x)] \<le> unat (eo_context_limit (ex_options x))"
      using lim D(2,8) by (simp add: word_le_nat_alt)
    note dec = decoded_ok [OF ok pd 1(2) _ voc l 1(3)]
    have "wp (on_sampler (commit_token ?t))
      (\<lambda>_ u. u = z\<lparr>ex_tokens := ex_tokens z @ [?t], ex_sampler := fold count_token [?t] (ex_sampler z)\<rparr>)
      (\<lambda>_ _. False) (z\<lparr>ex_tokens := ex_tokens z @ [?t]\<rparr>)"
      by (rule wp_mono [OF commit_one_wp]) (use dec in auto)
    then show ?case
      unfolding wp_thenM [of "modifyM _"] wp_modifyM
      by (rule wp_thenI) (use dec(1,4) voc in \<open>auto simp: wp_simps decoded_def\<close>)
  qed (auto simp: failed_def)
  show ?thesis
    unfolding decode_body_def ensure_healthy_def wp_thenM [of "failIf _ _"] wp_failIf
    using run failed_same [of x x] by auto
qed

lemma decode_one_wp:
  assumes ok: "session_ok x"
  shows "wp (decode_one E c) (\<lambda>r z. decoded x r z \<and> length (dr_published_tokens r) = 1) (\<lambda>e z. failed x e z) x"
  unfolding decode_one_def
proof (rule with_token_wp, goal_cases)
  case (1 y)
  show ?case
    by (rule wp_mono [OF decode_body_wp [OF session_ok_sess [OF 1 ok]]])
       (use failed_sess [OF 1] extended_sess [OF 1] in \<open>auto simp: decoded_def\<close>)
qed

lemma seeded_wp:
  assumes "engine_ok e"
  shows "wp seed_decode_pending
    (\<lambda>_ t. t = set_canonical (e_canonical e + 1) e \<and> e_canonical e = e_target e \<and> engine_ok t) (\<lambda>_ t. t = e) e"
proof -
  have "wp seed_decode_pending
    (\<lambda>_ t. t = set_canonical (e_canonical e + 1) e \<and> e_canonical e = e_target e) (\<lambda>_ t. t = e) e"
    by (auto simp: seed_decode_pending_def wp_simps add_checked_Inr split: sum.splits)
  from wp_conj [OF this seed_decode_pending_ok [OF assms]] show ?thesis by (rule wp_mono) auto
qed

lemma seed_decode_wp:
  assumes ok: "session_ok x"
  shows "wp (seed_decode c) (\<lambda>t z. t = ex_last_sample x \<and> extended x [t] z \<and> x_pending z = 1)
    (\<lambda>_ z. sess z = sess x) x"
proof -
  have tail: "wp (thenM (failIf (\<lambda>x. \<not> ex_have_last_sample x)
              (RuntimeError ''append must produce logits before decode seed''))
    (thenM (failIf (\<lambda>x. e_canonical (ex_engine x) \<ge> x_limit x)
              (LengthError ''decode seed exceeds the context limit''))
    (thenM (on_engine (\<lambda>err. RuntimeError (''decode seed failed: '' @ err)) seed_decode_pending)
    (bindM (getM ex_last_sample) (\<lambda>token.
     thenM (modifyM (\<lambda>x. x\<lparr>ex_tokens := ex_tokens x @ [token]\<rparr>))
    (thenM (on_sampler (commit_token token))
    (thenM (add_stat xs_published_tokens_update 1)
           (returnM token))))))))
    (\<lambda>t z. t = ex_last_sample x \<and> extended x [t] z \<and> x_pending z = 1) (\<lambda>_ z. sess z = sess x) y"
    if y: "sess y = sess x" and p: "\<not> ex_poisoned x" for y
  proof -
    have oky: "session_ok y" by (rule session_ok_sess [OF y ok])
    note D = session_okD [OF oky]
    let ?t = "ex_last_sample y" and ?c = "e_canonical (ex_engine y)"
    let ?u = "y\<lparr>ex_engine := set_canonical (?c + 1) (ex_engine y)\<rparr>"
    have lt: "ex_last_sample y = ex_last_sample x" "ex_poisoned y = ex_poisoned x"
      using y by (simp_all add: sess_def core_def)
    have tr: "sampler_tracks (ex_sampler y) (ex_tokens y)" using oky by (simp add: session_ok_def)
    have seed: "wp (on_engine (\<lambda>err. RuntimeError (''decode seed failed: '' @ err)) seed_decode_pending)
      (\<lambda>_ z. z = ?u \<and> ?c = e_target (ex_engine y) \<and> engine_ok (ex_engine z)) (\<lambda>_ z. z = y) y"
      unfolding wp_on_engine
      by (rule wp_mono [OF seeded_wp]) (use D(1) in \<open>auto simp: idle_def\<close>)
    have commit: "wp (on_sampler (commit_token ?t))
      (\<lambda>_ z. z = ?u\<lparr>ex_tokens := ex_tokens y @ [?t], ex_sampler := count_token ?t (ex_sampler y)\<rparr>)
      (\<lambda>_ _. False) (?u\<lparr>ex_tokens := ex_tokens y @ [?t]\<rparr>)" if "ex_have_last_sample y"
      by (rule wp_mono [OF commit_one_wp [of _ "ex_tokens y"]])
         (use tr that oky D(9) in \<open>auto simp: session_ok_def\<close>)
    have fin: "extended x [?t] v \<and> x_pending v = 1"
      if v: "v = ex_stats_update f (?u\<lparr>ex_tokens := ex_tokens y @ [?t], ex_sampler := count_token ?t (ex_sampler y)\<rparr>)"
        "?c = e_target (ex_engine y)" "engine_ok (ex_engine ?u)" "ex_have_last_sample y"
        "\<not> x_limit y \<le> ?c" for v f
    proof -
      have voc: "in_vocabulary (eo_vocab_size (ex_options y)) ?t" using oky v(4) by (simp add: session_ok_def)
      have "unat (?c + 1) = length (ex_tokens y) + 1"
        using v(5) D(2) unat_u64_add [of ?c 1] unat_u64_lt [of "x_limit y"] by (simp add: word_le_nat_alt)
      moreover have "sampler_tracks (count_token ?t (ex_sampler y)) (ex_tokens y @ [?t])"
        using commit_token_wp [OF tr, of ?t] voc D(9) by (auto simp: wp_def split: prod.splits sum.splits)
      ultimately show ?thesis
        using v D oky voc extended_sess [OF y] p lt
        by (intro conjI extended_sess [OF y])
           (auto simp: extended_def session_ok_def idle_def set_canonical_def x_pending_def word_le_nat_alt)
    qed
    have "wp (thenM (on_engine (\<lambda>err. RuntimeError (''decode seed failed: '' @ err)) seed_decode_pending)
        (bindM (getM ex_last_sample) (\<lambda>token.
         thenM (modifyM (\<lambda>x. x\<lparr>ex_tokens := ex_tokens x @ [token]\<rparr>))
        (thenM (on_sampler (commit_token token))
        (thenM (add_stat xs_published_tokens_update 1) (returnM token))))))
        (\<lambda>t z. t = ex_last_sample x \<and> extended x [t] z \<and> x_pending z = 1) (\<lambda>_ z. sess z = sess x) y"
      if h: "ex_have_last_sample y" and l: "\<not> x_limit y \<le> ?c"
    proof (rule wp_thenI [OF seed], unfold wp_bindM [of "getM _"] wp_getM wp_thenM [of "modifyM _"] wp_modifyM,
        goal_cases)
      case (1 _ u)
      then have u: "ex_last_sample u = ?t" "ex_tokens u = ex_tokens y" "u = ?u" by auto
      show ?case
        unfolding u(1,2) unfolding u(3)
        by (rule wp_thenI [OF commit [OF h]], unfold add_stat_def wp_simps, intro conjI)
           (use fin [of _ "xs_published_tokens_update (\<lambda>v. v + 1)"] h 1 l lt in auto)
    qed (use y in auto)
    then show ?thesis
      unfolding wp_thenM [of "failIf _ _"] wp_failIf using y by simp
  qed
  show ?thesis
    unfolding seed_decode_def ensure_healthy_def
    apply (rule with_token_wp)
    apply (unfold wp_thenM [of "failIf ex_poisoned _"] wp_failIf)
    apply (rule if_split [THEN iffD2], intro conjI impI)
     apply simp
    apply (rule wp_then_keeps [OF keeps_check_cancel])
     apply (rule wp_then_keeps [OF keeps_seal_cancel])
      apply (rule tail)
       apply (auto simp: sess_eq core_outer)
    done
qed

lemma keeps_speculative_stats: "keeps sess (speculative_stats event n)"
  unfolding speculative_stats_def Let_def
  by (intro keeps_then keeps_add_stat keeps_modify) (simp add: sess_def core_def)

lemma speculative_stats_returns:
  "wp (speculative_stats event n) (\<lambda>_ z. sess z = sess y) (\<lambda>_ _. False) y"
  unfolding speculative_stats_def Let_def add_stat_def wp_thenM wp_modifyM
  by (simp add: sess_def core_def)

lemma advanced_result_sess:
  assumes "sess z' = sess z" "advanced k a n x event t z"
  shows "advanced k a n x event t z'"
proof -
  have c: "core z' = core z" and w: "ex_worker0 z' = ex_worker0 z" "ex_worker1 z' = ex_worker1 z"
    using assms(1) by (simp_all add: sess_eq)
  show ?thesis using assms(2) unfolding advanced_def idle_def core_eqD [OF c] w .
qed

lemma published_tokens:
  assumes adv: "advanced Speculative a (length ev) x event next z" and le: "length ev' = length ev"
    and ev: "\<And>j. 1 \<le> j \<Longrightarrow> j < length ev \<Longrightarrow> in_vocabulary (eo_vocab_size (ex_options x)) (ev' ! j)"
  defines "published \<equiv> take (unat (ce_newly_published event) - 1) (drop 1 ev') @ [next]"
  shows "list_all (in_vocabulary (eo_vocab_size (ex_options x))) published"
    "length published = unat (ce_newly_published event)"
proof -
  obtain sc :: u32 where sc: "sc \<noteq> 0" "unat sc \<le> length ev" "ce_newly_published event = sc"
    "in_vocabulary (eo_vocab_size (ex_options x)) next"
    using adv unfolding advanced_def by auto
  have "in_vocabulary (eo_vocab_size (ex_options x)) t" if "t \<in> set (drop 1 ev')" for t
    using that ev le by (auto simp: in_set_conv_nth)
  then show "list_all (in_vocabulary (eo_vocab_size (ex_options x))) published"
    using sc(4) by (auto simp: published_def list_all_iff dest: in_set_takeD)
  show "length published = unat (ce_newly_published event)"
    using sc le unat_gt_0 [of sc] by (auto simp: published_def min_def)
qed

lemma speculate_wp:
  assumes ok: "session_ok x" and pd: "x_pending x = 1"
    and lim: "length (ex_tokens x) + (unat capped + 1) \<le> unat (eo_context_limit (ex_options x))"
  shows "wp (speculate E capped) (\<lambda>r z. decoded x r z \<and> length (dr_published_tokens r) \<le> unat capped + 1)
    (\<lambda>e z. failed x e z) x"
proof -
  note D = session_okD [OF ok]
  let ?ev = "last (ex_tokens x) # replicate (unat capped) 0"
  have small: "length ?ev < 2 ^ 32" using lim unat_u32_lt [of "eo_context_limit (ex_options x)"] by simp
  have lim': "length (ex_tokens x) + length ?ev \<le> unat (eo_context_limit (ex_options x))" using lim by simp
  show ?thesis
    unfolding speculate_def wp_bindM [of "liftE _"] wp_liftE pending_token(1) [OF ok pd] sum.case
      wp_bindM [of "getM _"] wp_getM Let_def
  proof (rule wp_bindI [OF run_transaction_wp [OF D(1) _ small]], simp, clarify, goal_cases)
    case (1 event out ev' z)
    let ?t = "out_next_token out"
    let ?us = "take (unat (ce_newly_published event) - 1) (drop 1 ev') @ [?t]"
    have pub: "list_all (in_vocabulary (eo_vocab_size (ex_options x))) ?us"
      "length ?us = unat (ce_newly_published event)"
      using published_tokens [OF 1(2,1)] 1(4) by blast+
    have le: "length ?us \<le> unat capped + 1" unfolding pub(2) using 1(2) by (auto simp: advanced_def)
    show ?case
    proof (rule wp_thenI [OF speculative_stats_returns], unfold wp_thenM [of "modifyM _"] wp_modifyM)
      fix z' assume z': "sess z' = sess z"
      note dec = decoded_ok [OF ok pd advanced_result_sess [OF z' 1(2)] _ pub lim' 1(3)]
      have "wp (on_sampler (commit_tokens ?us))
        (\<lambda>_ u. u = z'\<lparr>ex_tokens := ex_tokens z' @ ?us, ex_sampler := fold count_token ?us (ex_sampler z')\<rparr>)
        (\<lambda>_ _. False) (z'\<lparr>ex_tokens := ex_tokens z' @ ?us\<rparr>)"
        by (rule wp_mono [OF commit_published_wp]) (use dec(2,3) in auto)
      then show "wp (thenM (on_sampler (commit_tokens ?us)) (thenM (modifyM (\<lambda>x. x\<lparr>ex_last_sample := ?t\<rparr>))
          (returnM \<lparr>dr_commit = event, dr_published_tokens = ?us\<rparr>)))
        (\<lambda>r z. decoded x r z \<and> length (dr_published_tokens r) \<le> unat capped + 1) (\<lambda>e z. failed x e z)
        (z'\<lparr>ex_tokens := ex_tokens z' @ ?us\<rparr>)"
        by (rule wp_thenI) (use dec(1,4) pub(2) le in \<open>auto simp: wp_simps decoded_def\<close>)
    qed simp
  qed (auto simp: failed_def)
qed

lemma speculative_step_wp:
  assumes ok: "session_ok x"
  shows "wp (speculative_step E m c)
    (\<lambda>r z. decoded x r z \<and> length (dr_published_tokens r) \<le> unat m + 1) (\<lambda>e z. failed x e z) x"
  unfolding speculative_step_def ensure_healthy_def
proof (rule with_token_wp, unfold wp_thenM [of "failIf ex_poisoned _"] wp_failIf, goal_cases)
  case (1 x')
  have body: "wp (thenM (failIf (\<lambda>_. m > kMaximumMtpDraftWidth) (InvalidArgument ''MTP draft width exceeds 64''))
    (bindM (getM (\<lambda>x. sampled (ex_sampler x))) (\<lambda>is_sampled.
     if is_sampled \<or> m = 0 then decode_body E
     else
       thenM (failIf (\<lambda>x. x_pending x \<noteq> 1)
                (RuntimeError ''speculative decode requires one pending token''))
      (thenM (failIf (\<lambda>x. e_canonical (ex_engine x) \<ge> x_limit x)
                (LengthError ''speculative decode would exceed the context limit''))
      (bindM (getM (capped_draft m)) (\<lambda>capped.
       if capped = 0 then decode_body E else speculate E capped))))))
    (\<lambda>r z. decoded x r z \<and> length (dr_published_tokens r) \<le> unat m + 1) (\<lambda>e z. failed x e z) y"
    if y: "sess y = sess x" for y
  proof -
    have oky: "session_ok y" by (rule session_ok_sess [OF y ok])
    note D = session_okD [OF oky]
    have ex: "\<And>r z. decoded y r z \<Longrightarrow> decoded x r z" "\<And>e z. failed y e z = failed x e z"
      using extended_sess [OF y] failed_sess [OF y] by (auto simp: decoded_def)
    have one: "wp (decode_body E)
      (\<lambda>r z. decoded x r z \<and> length (dr_published_tokens r) \<le> unat m + 1) (\<lambda>e z. failed x e z) y"
      by (rule wp_mono [OF decode_body_wp [OF oky]]) (use ex in auto)
    have spec: "wp (speculate E (capped_draft m y))
      (\<lambda>r z. decoded x r z \<and> length (dr_published_tokens r) \<le> unat m + 1) (\<lambda>e z. failed x e z) y"
      if pd: "x_pending y = 1" and lim: "\<not> x_limit y \<le> e_canonical (ex_engine y)"
    proof -
      note cap = capped_bounds [OF lim, of m]
      have "length (ex_tokens y) + (unat (capped_draft m y) + 1) \<le> unat (eo_context_limit (ex_options y))"
        using cap(1) D(2,8) by simp
      from speculate_wp [OF oky pd this] show ?thesis by (rule wp_mono) (use ex cap(2) in auto)
    qed
    show ?thesis
      using one spec failed_same [OF y] by (auto simp: wp_thenM wp_failIf wp_bindM wp_getM)
  qed
  show ?case
    using failed_same [OF 1] wp_then_keeps [OF keeps_check_cancel body] 1 failed_same by auto
qed

text \<open>Resetting an idle session cannot fail; the guards are the only errors.\<close>

definition fresh :: "('b0, 'b1) executor \<Rightarrow> bool" where
  "fresh z \<longleftrightarrow> session_ok z \<and> ex_tokens z = [] \<and> eng_frontiers (ex_engine z) = empty_frontiers \<and>
     \<not> ex_have_last_sample z \<and> ex_last_logit_snapshot z = None \<and> \<not> ex_poisoned z"

lemma reset_backends_wp:
  assumes ok: "session_ok x"
  shows "wp (bindM (submit0 (op_reset_session (ev_ops0 E))) (\<lambda>reset0.
         bindM (submit1 (op_reset_session (ev_ops1 E))) (\<lambda>reset1.
         case (reset0, reset1) of
           (Inl failure, _) \<Rightarrow> throwM failure
         | (Inr _, Inl failure) \<Rightarrow> throwM failure
         | _ \<Rightarrow> returnM ())))
    (\<lambda>_ z. core z = core x \<and> view_idle (view0 (ex_worker0 z)) 0 0 \<and> view_idle (view1 (ex_worker1 z)) 0 0)
    (\<lambda>_ _. False) x"
proof -
  have idle: "bv_open (view0 (ex_worker0 x)) = None" "bv_open (view1 (ex_worker1 x)) = None"
    using ok by (simp_all add: session_ok_def idle_def view_idle_def)
  have r0: "wp (submit0 (op_reset_session (ev_ops0 E)))
    (\<lambda>r z. (\<exists>v b. r = Inr v \<and> z = x\<lparr>ex_worker0 := b\<rparr> \<and> view_idle (view0 b) 0 0)) (\<lambda>_ _. False) x"
    unfolding wp_submit0 by (rule wp_mono [OF s0.reset_law [OF idle(1)]]) auto
  have r1: "wp (submit1 (op_reset_session (ev_ops1 E)))
    (\<lambda>r z. (\<exists>v b'. r = Inr v \<and> z = x\<lparr>ex_worker0 := b, ex_worker1 := b'\<rparr> \<and> view_idle (view1 b') 0 0)) (\<lambda>_ _. False)
    (x\<lparr>ex_worker0 := b\<rparr>)" for b
    unfolding wp_submit1
    by (rule wp_mono [where Q = "\<lambda>_ b'. view_idle (view1 b') 0 0" and E = "\<lambda>_ _. False"])
       (use s1.reset_law [OF idle(2)] in auto)
  show ?thesis
  proof (rule wp_bindI [OF r0], clarify, goal_cases)
    case (1 _ _ v b)
    show ?case by (rule wp_bindI [OF r1]) (use 1 in \<open>auto simp: wp_simps core_def\<close>)
  qed simp
qed

lemma reset_session_wp:
  assumes ok: "session_ok x"
  shows "wp (reset_session E) (\<lambda>_ z. fresh z \<and> ex_options z = ex_options x \<and> \<not> ex_poisoned x)
    (\<lambda>_ z. sess z = sess x \<and> ex_poisoned x) x"
proof -
  have act: "\<not> eng_active (ex_engine x)" using ok by (simp add: session_ok_def idle_def)
  have tail: "wp (thenM (on_engine LogicError engine_reset) (thenM (on_sampler sampler_reset)
       (modifyM (\<lambda>x. x\<lparr>ex_tokens := [], ex_last_sample := - 1, ex_have_last_sample := False,
          ex_last_logit_snapshot := None\<rparr>))))
     (\<lambda>_ z. fresh z \<and> ex_options z = ex_options x \<and> \<not> ex_poisoned x) (\<lambda>_ _. False) z"
    if z: "core z = core x" "view_idle (view0 (ex_worker0 z)) 0 0" "view_idle (view1 (ex_worker1 z)) 0 0"
      and p: "\<not> ex_poisoned x" for z
  proof -
    note c = core_eqD [OF z(1)]
    have tr: "sampler_tracks (ex_sampler z) (ex_tokens x)" using ok c by (simp add: session_ok_def)
    have "wp (on_engine LogicError engine_reset)
      (\<lambda>_ u. u = z\<lparr>ex_engine := new_engine (eng_session_hash (ex_engine z))\<rparr>) (\<lambda>_ _. False) z"
      unfolding wp_on_engine using act c by (auto simp: engine_reset_def wp_simps new_engine_def)
    then show ?thesis
    proof (rule wp_thenI, unfold wp_thenM on_sampler_def wp_zoomM wp_modifyM, goal_cases)
      case (1 _ u)
      have "sampler_tracks (ex_sampler u) (ex_tokens x)" using 1 tr by simp
      from sampler_reset_tracks [OF this] show ?case
        by (rule wp_mono)
           (use 1 z c p session_okD(9) [OF ok] new_engine_ok in
             \<open>auto simp: fresh_def session_ok_def idle_def new_engine_def empty_frontiers_def\<close>)
    qed simp
  qed
  have "wp (catchM (bindM (submit0 (op_reset_session (ev_ops0 E))) (\<lambda>reset0.
       bindM (submit1 (op_reset_session (ev_ops1 E))) (\<lambda>reset1.
       case (reset0, reset1) of
         (Inl failure, _) \<Rightarrow> throwM failure
       | (Inr _, Inl failure) \<Rightarrow> throwM failure
       | _ \<Rightarrow> returnM ())))
      (\<lambda>e. thenM (modifyM (ex_poisoned_update (\<lambda>_. True))) (thenM (add_stat xs_failures_update 1) (throwM e))))
    (\<lambda>_ z. core z = core x \<and> view_idle (view0 (ex_worker0 z)) 0 0 \<and> view_idle (view1 (ex_worker1 z)) 0 0)
    (\<lambda>_ _. False) x"
    unfolding wp_catchM by (rule wp_mono [OF reset_backends_wp [OF ok]]) auto
  from wp_thenI [OF this tail] act show ?thesis
    unfolding reset_session_def ensure_healthy_def wp_thenM [of "failIf _ _"] wp_failIf
    by (cases "ex_poisoned x") (auto elim!: wp_mono)
qed

end

end
