(* ===== verification/ExecutorRuns.thy ===== *)
theory ExecutorRuns
  imports ExecutorSession
begin

text \<open>
  Runs of the executor: any sequence of requests, each with its own cancellation token, its own
  timings and its own interleaving of cancellers. The invariant and the failure behaviour are
  proved once for every pair of backends that keep the contract, and stated here for the mock
  backends the repository runs without devices.
\<close>

section \<open>Requests and runs\<close>

datatype exec_op =
    OpAppend "i32 list" "CancellationToken option"
  | OpSeedDecode "CancellationToken option"
  | OpDecodeOne "CancellationToken option"
  | OpSpeculativeStep u32 "CancellationToken option"
  | OpResetSession
  | OpFailClosed

datatype exec_result = Done | Seeded i32 | Decoded DecodeResult

fun exec_do :: "('b0, 'b1, 'f, 'd) exec_env \<Rightarrow> exec_op \<Rightarrow> ('b0, 'b1, exec_result) execM" where
  "exec_do E (OpAppend token_ids c) = thenM (append E token_ids c) (returnM Done)"
| "exec_do E (OpSeedDecode c) = bindM (seed_decode c) (\<lambda>t. returnM (Seeded t))"
| "exec_do E (OpDecodeOne c) = bindM (decode_one E c) (\<lambda>r. returnM (Decoded r))"
| "exec_do E (OpSpeculativeStep m c) = bindM (speculative_step E m c) (\<lambda>r. returnM (Decoded r))"
| "exec_do E OpResetSession = thenM (reset_session E) (returnM Done)"
| "exec_do E OpFailClosed = thenM fail_closed (returnM Done)"

inductive exec_step :: "('b0, 'b1, 'f, 'd) exec_env \<Rightarrow> ('b0, 'b1) executor \<Rightarrow> ('b0, 'b1) executor \<Rightarrow> bool"
  for E where
  request: "exec_do E op x = (r, z) \<Longrightarrow> exec_step E x z"
| environment: "exec_step E x (x\<lparr>ex_elapsed := ns, ex_views := vs\<rparr>)"

inductive exec_reachable :: "('b0, 'b1, 'f, 'd) exec_env \<Rightarrow> ('b0, 'b1) executor \<Rightarrow> ('b0, 'b1) executor \<Rightarrow> bool"
  for E x0 where
  start: "exec_reachable E x0 x0"
| step: "exec_reachable E x0 x \<Longrightarrow> exec_step E x z \<Longrightarrow> exec_reachable E x0 z"

inductive_cases exec_stepE: "exec_step E x z"

context dual_stage
begin

text \<open>What a successful request does to the session.\<close>

fun performed :: "exec_op \<Rightarrow> ('b0, 'b1) executor \<Rightarrow> exec_result \<Rightarrow> ('b0, 'b1) executor \<Rightarrow> bool" where
  "performed (OpAppend ids c) x r z \<longleftrightarrow> r = Done \<and> extended x ids z \<and>
     e_target (ex_engine z) = e_canonical (ex_engine z) \<and> ex_have_last_sample z"
| "performed (OpSeedDecode c) x r z \<longleftrightarrow> r = Seeded (ex_last_sample x) \<and> extended x [ex_last_sample x] z \<and>
     x_pending z = 1"
| "performed (OpDecodeOne c) x r z \<longleftrightarrow> (\<exists>d. r = Decoded d \<and> decoded x d z \<and> length (dr_published_tokens d) = 1)"
| "performed (OpSpeculativeStep m c) x r z \<longleftrightarrow>
     (\<exists>d. r = Decoded d \<and> decoded x d z \<and> length (dr_published_tokens d) \<le> unat m + 1)"
| "performed OpResetSession x r z \<longleftrightarrow> r = Done \<and> fresh z \<and> ex_options z = ex_options x \<and> \<not> ex_poisoned x"
| "performed OpFailClosed x r z \<longleftrightarrow> r = Done \<and> z = x\<lparr>ex_poisoned := True\<rparr>"

lemma exec_do_wp:
  assumes ok: "session_ok x"
  shows "wp (exec_do E op) (\<lambda>r z. performed op x r z) (\<lambda>e z. failed x e z) x"
proof (cases op)
  case (OpAppend ids c)
  show ?thesis unfolding OpAppend exec_do.simps
    by (rule wp_thenI [OF append_wp [OF ok]]) (auto simp: wp_returnM)
next
  case (OpSeedDecode c)
  show ?thesis unfolding OpSeedDecode exec_do.simps
    by (rule wp_bindI [OF seed_decode_wp [OF ok]]) (auto simp: wp_returnM failed_def)
next
  case (OpDecodeOne c)
  show ?thesis unfolding OpDecodeOne exec_do.simps
    by (rule wp_bindI [OF decode_one_wp [OF ok]]) (auto simp: wp_returnM)
next
  case (OpSpeculativeStep m c)
  show ?thesis unfolding OpSpeculativeStep exec_do.simps
    by (rule wp_bindI [OF speculative_step_wp [OF ok]]) (auto simp: wp_returnM)
next
  case OpResetSession
  show ?thesis unfolding OpResetSession exec_do.simps
    by (rule wp_thenI [OF reset_session_wp [OF ok]]) (auto simp: wp_returnM failed_def)
next
  case OpFailClosed
  then show ?thesis by (simp add: fail_closed_def wp_simps)
qed

lemma performed_ok: "session_ok x \<Longrightarrow> performed op x r z \<Longrightarrow> session_ok z"
  by (cases op) (auto simp: extended_def decoded_def fresh_def session_ok_def idle_def)

lemma step_ok:
  assumes "exec_step E x z" "session_ok x"
  shows "session_ok z"
  using assms
proof (cases rule: exec_step.cases)
  case (request op r)
  then show ?thesis
    using exec_do_wp [OF assms(2), of op] performed_ok [OF assms(2)] session_ok_failed [OF assms(2)]
    by (auto simp: wp_def split: sum.splits)
next
  case (environment ns vs)
  then show ?thesis using session_ok_sess [of z x] assms(2) by (simp add: sess_def core_def)
qed

lemma reachable_ok: "exec_reachable E x0 x \<Longrightarrow> session_ok x0 \<Longrightarrow> session_ok x"
  by (induction rule: exec_reachable.induct) (auto intro: step_ok)

lemma new_executor_ok:
  assumes "new_executor E padding options b0 b1 = Inr x"
    "view_idle (view0 b0) 0 0" "view_idle (view1 b1) 0 0"
  shows "fresh x"
proof -
  obtain s where s: "new_sampler (ev_fops E) (eo_vocab_size options) (eo_sampling options) = Inr s"
    using assms(1) by (auto simp: new_executor_def split: sum.splits)
  note t = new_sampler_tracks [OF s]
  show ?thesis
    using assms t new_engine_ok
    by (auto simp: new_executor_def s fresh_def session_ok_def idle_def new_engine_def empty_frontiers_def Let_def
        split: if_splits sum.splits)
qed

text \<open>Poisoning needs a fatal failure.\<close>

lemma poisoned_only:
  assumes ok: "session_ok x" and p: "\<not> ex_poisoned x" and run: "exec_do E op x = (r, z)" and pz: "ex_poisoned z"
  shows "op = OpFailClosed \<or> eo_backend_failure_is_fatal (ex_options x) \<and>
    (\<exists>e. r = Inl e \<and> e \<noteq> ExecutionCancelled \<and> e \<noteq> ExecutionDeadlineExceeded)"
proof (cases r)
  case (Inl e)
  have "failed x e z" using exec_do_wp [OF ok, of op] run Inl by (simp add: wp_def)
  then show ?thesis using p pz Inl core_eqD(8) [of z x] by (auto simp: failed_def aborted_def sess_eq)
next
  case (Inr v)
  have "performed op x v z" using exec_do_wp [OF ok, of op] run Inr by (simp add: wp_def)
  then show ?thesis using p pz by (cases op) (auto simp: extended_def decoded_def fresh_def)
qed

end

section \<open>The mock executor\<close>

interpretation dual_mock: dual_stage "mock_env fo" mock_view mock_view
  for fo :: "('f, 'd) float_ops"
  by (rule dual_stage.intro) (simp_all add: mock_env_def mock.stage_backend_axioms)

lemma mock_idle: "view_idle (mock_view b) t e \<longleftrightarrow>
    mb_committed_frontier b = t \<and> mb_committed_epoch b = e \<and> mb_provisional_epoch b = 0"
  by (simp add: view_idle_def mock_view_def)

lemma make_mock_fresh:
  assumes "make_mock_executor fo padding options = Inr x"
  shows "dual_mock.fresh x"
proof -
  have "view_idle (mock_view b) 0 0" if "new_mock_backend st h v = Inr b" for st h v b
    using that by (auto simp: new_mock_backend_def mock_idle split: if_splits)
  then show ?thesis
    using assms
    by (auto simp: make_mock_executor_def split: sum.splits intro: dual_mock.new_executor_ok)
qed

lemma mock_session_ok:
  assumes "make_mock_executor fo padding options = Inr x0" "exec_reachable (mock_env fo) x0 x"
  shows "dual_mock.session_ok x"
  using dual_mock.reachable_ok [OF assms(2)] make_mock_fresh [OF assms(1)]
  by (simp add: dual_mock.fresh_def)

text \<open>Options under which the mock executor is constructed.\<close>

definition demo_options :: ExecutorOptions where
  "demo_options = default_options\<lparr>eo_session_hash := 7, eo_context_limit := 64, eo_vocab_size := 16, eo_hidden_width := 4,
     eo_append_chunk_tokens := 2\<rparr>"

lemma demo_executor:
  "\<exists>x. make_mock_executor int_float_ops [0, 0, 0, 0] demo_options = Inr x \<and> \<not> ex_poisoned x \<and>
     eo_backend_failure_is_fatal (ex_options x) = False"
proof -
  have "\<not> isl (new_sampler int_float_ops 16 default_sampling)" by code_simp
  then obtain s where s: "new_sampler int_float_ops 16 default_sampling = Inr s"
    by (cases "new_sampler int_float_ops 16 default_sampling") auto
  let ?id = "make_development_identity [0, 0, 0, 0] 7 64 default_sampling"
  have id: "validate_session_identity ?id = Inr ()"
    by (rule make_development_identity_valid) simp_all
  have fields: "si_session_hash ?id = 7" "si_context_limit ?id = 64"
    by (simp_all add: make_development_identity_def Let_def empty_identity_def)
  show ?thesis
    by (simp add: make_mock_executor_def new_mock_backend_def demo_options_def default_options_def
        new_executor_def mock_env_def mock_ops_def s id fields normalize_stops_def empty_identity_def Let_def)
qed

section \<open>The chunk loop ends\<close>

text \<open>A chunk as \<open>submit_stage0\<close> cuts it. The offsets grow strictly, so the loop runs at most once
  for each token that is left; this needs nothing of the backends.\<close>

definition chunk_at :: "SessionTxn \<Rightarrow> u32 \<Rightarrow> u32 \<Rightarrow> pending_stage0 \<Rightarrow> bool" where
  "chunk_at txn chunk off p \<longleftrightarrow> off < tx_evaluated_count txn \<and> pd_offset p = off \<and>
     pd_count p = min chunk (tx_evaluated_count txn - off)"

lemma wp_trivial: "wp m (\<lambda>_ _. True) (\<lambda>_ _. True) s"
  by (simp add: wp_def split: prod.splits sum.splits)

lemma submit_stage0_chunk:
  assumes "off < tx_evaluated_count txn"
  shows "wp (submit_stage0 E txn ev chunk off) (\<lambda>q _. chunk_at txn chunk off q) (\<lambda>_ _. True) s"
  unfolding submit_stage0_def Let_def
  by (rule wp_bindI [OF wp_trivial], rule wp_bindI [OF wp_trivial])
     (use assms in \<open>auto simp: wp_returnM chunk_at_def\<close>)

lemma run_chunk_next:
  "wp (run_chunk E kind txn ev chunk retained p)
    (\<lambda>(_, next0) _. \<forall>q. next0 = Some q \<longrightarrow> chunk_at txn chunk (pd_offset p + pd_count p) q) (\<lambda>_ _. True) s"
proof -
  let ?n = "pd_offset p + pd_count p"
  have look: "wp (if ?n < tx_evaluated_count txn
      then bindM (submit_stage0 E txn ev chunk ?n) (\<lambda>q. returnM (Some q)) else returnM None)
    (\<lambda>next0 _. \<forall>q. next0 = Some q \<longrightarrow> chunk_at txn chunk ?n q) (\<lambda>_ _. True) s" for s
  proof (cases "?n < tx_evaluated_count txn")
    case True
    then show ?thesis
      by (simp only: if_True) (rule wp_bindI [OF submit_stage0_chunk], auto simp: wp_returnM)
  qed (simp add: wp_returnM)
  show ?thesis
    unfolding run_chunk_def Let_def
    by (rule wp_thenI [OF wp_trivial], rule wp_bindI [OF wp_trivial], rule wp_thenI [OF wp_trivial],
        rule wp_thenI [OF wp_trivial], rule wp_bindI [OF wp_trivial], rule wp_thenI [OF wp_trivial],
        rule wp_bindI [OF look], rule wp_bindI [OF wp_trivial], rule wp_thenI [OF wp_trivial],
        rule wp_thenI [OF wp_trivial])
       (auto simp: wp_returnM)
qed

lemma bindM_cong:
  assumes "wp m P F s" "\<And>x t. P x t \<Longrightarrow> f x t = g x t"
  shows "bindM m f s = bindM m g s"
  using assms by (auto simp: bindM_def wp_def split: prod.splits sum.splits)

lemma chunk_loop_fuel:
  assumes "chunk_at txn chunk off p" "chunk \<noteq> 0" "unat (tx_evaluated_count txn) - unat off \<le> m" "m \<le> n"
  shows "chunk_loop n E kind txn ev chunk retained p s = chunk_loop m E kind txn ev chunk retained p s"
  using assms
proof (induction m arbitrary: n p off s)
  case 0
  then show ?case by (simp add: chunk_at_def word_less_nat_alt)
next
  case (Suc m)
  obtain n' where n': "n = Suc n'" "m \<le> n'" using Suc.prems(4) by (cases n) auto
  let ?n = "pd_offset p + pd_count p"
  have p: "off < tx_evaluated_count txn" "?n = off + min chunk (tx_evaluated_count txn - off)"
    using Suc.prems(1) by (auto simp: chunk_at_def)
  note nx = next_chunk [OF p(1) Suc.prems(2), folded p(2)]
  have left: "unat (tx_evaluated_count txn) - unat ?n \<le> m"
    using nx(1,2) Suc.prems(3) by linarith
  have IH: "chunk_loop n' E kind txn ev chunk retained q = chunk_loop m E kind txn ev chunk retained q"
    if "chunk_at txn chunk ?n q" for q
    by (rule ext) (rule Suc.IH [OF that Suc.prems(2) left n'(2)])
  show ?case
    unfolding n'(1) chunk_loop.simps
    by (rule bindM_cong [OF run_chunk_next]) (auto simp: IH split: option.splits)
qed

section \<open>Latency summaries\<close>

definition recorded :: "u64 list \<Rightarrow> LatencyTracker" where
  "recorded values = fold tracker_record values empty_tracker"

lemma recorded_snoc: "recorded (vs @ [v]) = tracker_record v (recorded vs)"
  by (simp add: recorded_def)

lemma recorded_facts:
  "length (lt_values (recorded vs)) = min 4096 (length vs) \<and>
   (\<forall>v \<in> set (lt_values (recorded vs)). lt_minimum (recorded vs) \<le> v \<and> v \<le> lt_maximum (recorded vs)) \<and>
   lt_count (recorded vs) = word_of_nat (length vs) \<and> lt_total (recorded vs) = sum_list vs"
proof (induction vs rule: rev_induct)
  case Nil
  then show ?case by (simp add: recorded_def empty_tracker_def)
next
  case (snoc v vs)
  let ?t = "recorded vs"
  have sub: "set (lt_values (tracker_record v ?t)) \<subseteq> insert v (set (lt_values ?t))"
    by (cases "lt_values ?t") (auto simp: tracker_record_def Let_def)
  have len: "length (lt_values (tracker_record v ?t)) = min 4096 (Suc (length vs))"
    using snoc by (auto simp: tracker_record_def Let_def)
  have mm: "lt_minimum (tracker_record v ?t) \<le> v" "v \<le> lt_maximum (tracker_record v ?t)"
    "lt_values ?t \<noteq> [] \<Longrightarrow> lt_minimum (tracker_record v ?t) \<le> lt_minimum ?t"
    "lt_values ?t \<noteq> [] \<Longrightarrow> lt_maximum ?t \<le> lt_maximum (tracker_record v ?t)"
    by (auto simp: tracker_record_def Let_def)
  have "lt_minimum (tracker_record v ?t) \<le> w \<and> w \<le> lt_maximum (tracker_record v ?t)"
    if w: "w \<in> set (lt_values (tracker_record v ?t))" for w
  proof (cases "w = v")
    case False
    then have "w \<in> set (lt_values ?t)" using sub w by auto
    then have "lt_minimum ?t \<le> w" "w \<le> lt_maximum ?t" "lt_values ?t \<noteq> []" using snoc by auto
    then show ?thesis using mm(3,4) by (blast intro: order_trans)
  qed (use mm in simp)
  then show ?case
    unfolding recorded_snoc using len snoc by (simp add: tracker_record_def Let_def add.commute)
qed

lemma percentile_index:
  fixes n k :: nat
  assumes "0 < n" "k \<le> 100"
  shows "(n * k + 99) div 100 - 1 < n"
proof -
  have "n * k + 99 \<le> n * 100 + 99" using assms(2) by simp
  then have "(n * k + 99) div 100 \<le> (n * 100 + 99) div 100" by (rule div_le_mono)
  also have "\<dots> = n" by simp
  finally show ?thesis using assms(1) by linarith
qed

lemma percentile_mono:
  assumes "sorted vs" "vs \<noteq> []" "j \<le> k" "k \<le> 100"
  shows "percentile vs j \<le> percentile vs k"
proof -
  have "length vs * j + 99 \<le> length vs * k + 99" using assms(3) by simp
  then have "(length vs * j + 99) div 100 - 1 \<le> (length vs * k + 99) div 100 - 1"
    by (intro diff_le_mono div_le_mono)
  then show ?thesis
    unfolding percentile_def
    by (rule sorted_nth_mono [OF assms(1)]) (use percentile_index [of "length vs" k] assms in simp)
qed

lemma percentile_in: "vs \<noteq> [] \<Longrightarrow> k \<le> 100 \<Longrightarrow> percentile vs k \<in> set vs"
  using percentile_index [of "length vs" k] by (simp add: percentile_def)

section \<open>Properties\<close>

text \<open>
  C6: The session invariant. After any sequence of appends, seeds, decodes, speculative steps,
  resets and failures, under every interleaving with cancellers and deadlines, no transaction is
  open, both backends have committed exactly the coordinator's target and epoch, the canonical
  frontier is the number of canonical tokens, at most one of them is not evaluated, they fit the
  context limit, they are tokens of the vocabulary, and the penalty counts are their occurrences.
\<close>

theorem executor_invariant:
  assumes "make_mock_executor fo padding options = Inr x0" and "exec_reachable (mock_env fo) x0 x"
  shows "engine_ok (ex_engine x) \<and> \<not> eng_active (ex_engine x) \<and>
    (\<forall>b \<in> {ex_worker0 x, ex_worker1 x}. mb_provisional_epoch b = 0 \<and>
       mb_committed_frontier b = e_target (ex_engine x) \<and> mb_committed_epoch b = e_epoch (ex_engine x)) \<and>
    unat (e_canonical (ex_engine x)) = length (ex_tokens x) \<and>
    unat (e_target (ex_engine x)) \<le> length (ex_tokens x) \<and>
    length (ex_tokens x) \<le> unat (e_target (ex_engine x)) + 1 \<and>
    length (ex_tokens x) \<le> unat (eo_context_limit (ex_options x)) \<and>
    sampler_tracks (ex_sampler x) (ex_tokens x)"
  using mock_session_ok [OF assms] dual_mock.session_okD(3) [OF mock_session_ok [OF assms]]
  by (simp add: dual_mock.session_ok_def dual_mock.idle_def mock_idle)

theorem executor_invariant_witness:
  "\<exists>x0. make_mock_executor int_float_ops [0, 0, 0, 0] demo_options = Inr x0 \<and>
     (let x = snd (exec_do (mock_env int_float_ops) (OpAppend [3, 1, 4] None) x0) in
      length (ex_tokens x) \<le> unat (eo_context_limit (ex_options x)) \<and>
      sampler_tracks (ex_sampler x) (ex_tokens x))"
proof -
  obtain x0 where x0: "make_mock_executor int_float_ops [0, 0, 0, 0] demo_options = Inr x0"
    using demo_executor by blast
  let ?r = "exec_do (mock_env int_float_ops) (OpAppend [3, 1, 4] None) x0"
  have "exec_reachable (mock_env int_float_ops) x0 (snd ?r)"
    by (rule exec_reachable.step [OF exec_reachable.start exec_step.request]) (rule surjective_pairing)
  from executor_invariant [OF x0 this] x0 show ?thesis by (auto simp: Let_def)
qed



text \<open>
  The executor fails closed only for a reason. A healthy executor is poisoned by a request only
  when it is told to fail closed, or when backend failures are configured fatal and the request
  ends in an error other than cancellation or an expired deadline.
\<close>

theorem executor_poisoned_only:
  assumes "make_mock_executor fo padding options = Inr x0" and "exec_reachable (mock_env fo) x0 x"
    and "\<not> ex_poisoned x" and "exec_do (mock_env fo) op x = (r, z)" and "ex_poisoned z"
  shows "op = OpFailClosed \<or> eo_backend_failure_is_fatal (ex_options x) \<and>
    (\<exists>e. r = Inl e \<and> e \<noteq> ExecutionCancelled \<and> e \<noteq> ExecutionDeadlineExceeded)"
  by (rule dual_mock.poisoned_only [OF mock_session_ok [OF assms(1,2)] assms(3-5)])

theorem executor_poisoned_only_witness:
  "\<exists>x0 z. make_mock_executor int_float_ops [0, 0, 0, 0] demo_options = Inr x0 \<and>
     exec_do (mock_env int_float_ops) OpFailClosed x0 = (Inr Done, z) \<and> ex_poisoned z"
proof -
  obtain x0 where x0: "make_mock_executor int_float_ops [0, 0, 0, 0] demo_options = Inr x0"
    and h: "\<not> ex_poisoned x0"
    using demo_executor by blast
  have run: "exec_do (mock_env int_float_ops) OpFailClosed x0 = (Inr Done, x0\<lparr>ex_poisoned := True\<rparr>)"
    by (simp add: fail_closed_def run_simps)
  have "ex_poisoned (x0\<lparr>ex_poisoned := True\<rparr>)" by simp
  from executor_poisoned_only [OF x0 exec_reachable.start h run this] x0 run this show ?thesis by blast
qed

text \<open>
  C37: A poisoned executor refuses everything: each request other than \<open>fail_closed\<close> ends with the
  fail-closed error and leaves the session, the backends and the poison as they are. This holds
  for every pair of backends.
\<close>

theorem executor_fail_closed:
  assumes "ex_poisoned x" and "op \<noteq> OpFailClosed"
  shows "fst (exec_do E op x) = Inl (RuntimeError ''executor is fail-closed'') \<and>
    sess (snd (exec_do E op x)) = sess x"
  using assms
  by (cases op)
     (auto simp: append_def append_guards_def seed_decode_def decode_one_def decode_body_def
       speculative_step_def reset_session_def with_token_def ensure_healthy_def run_simps
       sess_def core_def)

theorem executor_fail_closed_witness:
  "\<exists>x0. make_mock_executor int_float_ops [0, 0, 0, 0] demo_options = Inr x0 \<and>
     fst (exec_do (mock_env int_float_ops) (OpDecodeOne None) (snd (exec_do (mock_env int_float_ops) OpFailClosed x0)))
       = Inl (RuntimeError ''executor is fail-closed'')"
proof -
  obtain x0 where x0: "make_mock_executor int_float_ops [0, 0, 0, 0] demo_options = Inr x0"
    using demo_executor by blast
  have "ex_poisoned (snd (exec_do (mock_env int_float_ops) OpFailClosed x0))"
    by (simp add: fail_closed_def run_simps)
  from executor_fail_closed [OF this, of "OpDecodeOne None"] x0 show ?thesis by blast
qed

text \<open>
  C9: What success means. An append that returns has added exactly its tokens and evaluated all of
  them; a seed has published the sample the append left; a decode has published one token and a
  speculative step between one and \<open>max_draft + 1\<close>, as many as its commit event reports, all of
  the vocabulary, and left exactly one token pending; a reset has emptied the session.
\<close>

theorem executor_success_exact:
  assumes "make_mock_executor fo padding options = Inr x0" and "exec_reachable (mock_env fo) x0 x"
    and "exec_do (mock_env fo) op x = (Inr r, z)"
  shows "case op of
      OpAppend ids c \<Rightarrow> ex_tokens z = ex_tokens x @ ids \<and> e_target (ex_engine z) = e_canonical (ex_engine z)
    | OpSeedDecode c \<Rightarrow> r = Seeded (ex_last_sample x) \<and> ex_tokens z = ex_tokens x @ [ex_last_sample x] \<and> x_pending z = 1
    | OpDecodeOne c \<Rightarrow> (\<exists>d t. r = Decoded d \<and> dr_published_tokens d = [t] \<and> ex_tokens z = ex_tokens x @ [t] \<and>
        in_vocabulary (eo_vocab_size (ex_options x)) t \<and> x_pending z = 1)
    | OpSpeculativeStep m c \<Rightarrow> (\<exists>d. r = Decoded d \<and> ex_tokens z = ex_tokens x @ dr_published_tokens d \<and>
        1 \<le> length (dr_published_tokens d) \<and> length (dr_published_tokens d) \<le> unat m + 1 \<and>
        length (dr_published_tokens d) = unat (ce_newly_published (dr_commit d)) \<and>
        list_all (in_vocabulary (eo_vocab_size (ex_options x))) (dr_published_tokens d) \<and> x_pending z = 1)
    | OpResetSession \<Rightarrow> ex_tokens z = [] \<and> eng_frontiers (ex_engine z) = empty_frontiers
    | OpFailClosed \<Rightarrow> ex_poisoned z"
proof -
  have ok: "dual_mock.session_ok x" by (rule mock_session_ok [OF assms(1,2)])
  have "dual_mock.performed op x r z" by (rule wp_returns [OF dual_mock.exec_do_wp [OF ok] assms(3)])
  then show ?thesis
    by (cases op)
       (auto simp: dual_mock.extended_def dual_mock.decoded_def dual_mock.fresh_def length_Suc_conv
         Suc_le_eq simp del: length_greater_0_conv)
qed

theorem executor_success_exact_witness:
  "\<exists>x0 z. make_mock_executor int_float_ops [0, 0, 0, 0] demo_options = Inr x0 \<and>
     exec_do (mock_env int_float_ops) OpResetSession x0 = (Inr Done, z) \<and> ex_tokens z = []"
proof -
  obtain x0 where x0: "make_mock_executor int_float_ops [0, 0, 0, 0] demo_options = Inr x0"
    and h: "\<not> ex_poisoned x0"
    using demo_executor by blast
  have ok: "dual_mock.session_ok x0" by (rule mock_session_ok [OF x0 exec_reachable.start])
  have "wp (exec_do (mock_env int_float_ops) OpResetSession) (\<lambda>r _. r = Done) (\<lambda>_ _. False) x0"
    unfolding exec_do.simps by (rule wp_thenI [OF dual_mock.reset_session_wp [OF ok]]) (use h in \<open>auto simp: wp_simps\<close>)
  then obtain z where run: "exec_do (mock_env int_float_ops) OpResetSession x0 = (Inr Done, z)"
    by (auto simp: wp_def split: prod.splits sum.splits)
  from executor_success_exact [OF x0 exec_reachable.start run] x0 run show ?thesis by auto
qed

text \<open>
  C38: The chunk loop terminates for every backend. Started on the first chunk of a transaction,
  one turn for each evaluated token is enough: more fuel gives the same result in every state, so
  the loop of the source, which has no bound, ends with the model's result.
\<close>

theorem chunk_loop_terminates:
  assumes "chunk \<noteq> 0" and "tx_evaluated_count txn \<noteq> 0" and "pd_offset p = 0"
    and "pd_count p = min chunk (tx_evaluated_count txn)" and "unat (tx_evaluated_count txn) \<le> fuel"
  shows "chunk_loop fuel E kind txn ev chunk retained p s =
    chunk_loop (unat (tx_evaluated_count txn)) E kind txn ev chunk retained p s"
  by (rule chunk_loop_fuel [of txn chunk 0]) (use assms in \<open>simp_all add: chunk_at_def word_gt_0\<close>)

theorem chunk_loop_terminates_witness:
  "chunk_loop 1000 (mock_env int_float_ops) AppendKnown (empty_txn\<lparr>tx_evaluated_count := 3\<rparr>) [5, 6, 7] 2 False
     \<lparr> pd_offset = 0, pd_count = 2, pd_final_chunk = False, pd_tokens = [5, 6], pd_future = Inl OutOfRange \<rparr> =
   chunk_loop 3 (mock_env int_float_ops) AppendKnown (empty_txn\<lparr>tx_evaluated_count := 3\<rparr>) [5, 6, 7] 2 False
     \<lparr> pd_offset = 0, pd_count = 2, pd_final_chunk = False, pd_tokens = [5, 6], pd_future = Inl OutOfRange \<rparr>"
  by (rule ext, subst chunk_loop_terminates) simp_all

text \<open>
  Latency reports are sane. After any measurements the tracker keeps the last 4096 of them, every
  percentile index is in range, and minimum, median, 95th and 99th percentile and maximum are in
  order.
\<close>

theorem latency_summary_ordered:
  assumes "vs \<noteq> []"
  shows "let s = tracker_summary (recorded vs) in
    length (lt_values (recorded vs)) = min 4096 (length vs) \<and>
    ls_count s = word_of_nat (length vs) \<and> ls_total_ns s = sum_list vs \<and>
    ls_minimum_ns s \<le> ls_p50_ns s \<and> ls_p50_ns s \<le> ls_p95_ns s \<and> ls_p95_ns s \<le> ls_p99_ns s \<and>
    ls_p99_ns s \<le> ls_maximum_ns s"
proof -
  let ?v = "lt_values (recorded vs)"
  note f = recorded_facts [of vs]
  have ne: "?v \<noteq> []" using f assms by (metis length_0_conv length_greater_0_conv min_less_iff_conj zero_less_numeral)
  then have ns: "sort ?v \<noteq> []" by (metis set_empty set_sort)
  have "percentile (sort ?v) 50 \<in> set ?v" "percentile (sort ?v) 99 \<in> set ?v"
    using percentile_in [OF ns, of 50] percentile_in [OF ns, of 99] by simp_all
  then show ?thesis
    using f ne percentile_mono [OF sorted_sort ns, of 50 95] percentile_mono [OF sorted_sort ns, of 95 99]
    by (simp add: tracker_summary_def Let_def)
qed

theorem latency_summary_ordered_witness:
  "ls_p50_ns (tracker_summary (recorded [7, 3, 9])) \<le> ls_p99_ns (tracker_summary (recorded [7, 3, 9]))"
  using latency_summary_ordered [of "[7, 3, 9]"] by (auto simp: Let_def)

end
