(* ===== verification/Snapshot.thy ===== *)
theory Snapshot
  imports Identity
begin

text \<open>
  The snapshot journal of \<^verbatim>\<open>include/q38/snapshot.h\<close> and \<^verbatim>\<open>src/snapshot.cc\<close>: the 176-byte record
  header, the checksums, the validator, and the append-only journal with its recovery of a torn
  tail. The disk is the list of the file's bytes. Every \<open>read\<close> and \<open>write\<close> may be short,
  interrupted or fail, as a script of events says; the other system calls succeed or fail as a
  list of outcomes says.
\<close>

section \<open>Data\<close>

definition kStateSnapshotMagic :: u32 where
  "kStateSnapshotMagic = fourcc (CHR ''Q'') (CHR ''3'') (CHR ''8'') (CHR ''N'')"

definition kSnapshotColdRebuild :: u32 where "kSnapshotColdRebuild = 1"

definition kSnapshotHasLastSample :: u32 where "kSnapshotHasLastSample = 2"

record StateSnapshotHeader =
  sn_magic :: u32
  sn_version :: u16
  sn_header_bytes :: u16
  sn_identity_checksum :: u64
  sn_sequence :: u64
  sn_timestamp_ns :: u64
  sn_frontiers :: SessionFrontiers
  sn_sampler :: SamplerState
  sn_canonical_token_count :: u64
  sn_token_start :: u64
  sn_token_count :: u64
  sn_payload_bytes :: u64
  sn_canonical_checksum :: u64
  sn_last_sample :: i32
  sn_flags :: u32
  sn_record_checksum :: u64

definition empty_snapshot_header :: StateSnapshotHeader where
  "empty_snapshot_header = \<lparr> sn_magic = kStateSnapshotMagic, sn_version = kContractVersion,
     sn_header_bytes = 176, sn_identity_checksum = 0, sn_sequence = 0, sn_timestamp_ns = 0,
     sn_frontiers = empty_frontiers, sn_sampler = empty_sampler_state, sn_canonical_token_count = 0,
     sn_token_start = 0, sn_token_count = 0, sn_payload_bytes = 0, sn_canonical_checksum = 0,
     sn_last_sample = - 1, sn_flags = kSnapshotColdRebuild, sn_record_checksum = 0 \<rparr>"

record StateSnapshot =
  st_header :: StateSnapshotHeader
  st_canonical_tokens :: "i32 list"

definition empty_snapshot :: StateSnapshot where
  "empty_snapshot = \<lparr> st_header = empty_snapshot_header, st_canonical_tokens = [] \<rparr>"

section \<open>Memory images\<close>

text \<open>The structure has no padding: its 176 bytes are its fields in order.\<close>

definition frontiers_image :: "SessionFrontiers \<Rightarrow> u8 list" where
  "frontiers_image f = le_bytes 8 (fr_canonical f) @ le_bytes 8 (fr_target f) @ le_bytes 8 (fr_stage0 f) @
     le_bytes 8 (fr_stage1 f) @ le_bytes 8 (fr_draft f) @ le_bytes 8 (fr_epoch f)"

definition sampler_image :: "SamplerState \<Rightarrow> u8 list" where
  "sampler_image s = le_bytes 4 (ucast (ss_magic s)) @ le_bytes 2 (ucast (ss_version s)) @
     le_bytes 2 (ucast (ss_header_bytes s)) @ le_bytes 8 (ss_rng_state s) @ le_bytes 8 (ss_sampled_tokens s) @
     le_bytes 8 (ss_canonical_tokens s) @ le_bytes 8 (ss_penalty_checksum s)"

definition header_image :: "StateSnapshotHeader \<Rightarrow> u8 list" where
  "header_image h = le_bytes 4 (ucast (sn_magic h)) @ le_bytes 2 (ucast (sn_version h)) @
     le_bytes 2 (ucast (sn_header_bytes h)) @ le_bytes 8 (sn_identity_checksum h) @ le_bytes 8 (sn_sequence h) @
     le_bytes 8 (sn_timestamp_ns h) @ frontiers_image (sn_frontiers h) @ sampler_image (sn_sampler h) @
     le_bytes 8 (sn_canonical_token_count h) @ le_bytes 8 (sn_token_start h) @ le_bytes 8 (sn_token_count h) @
     le_bytes 8 (sn_payload_bytes h) @ le_bytes 8 (sn_canonical_checksum h) @ le_bytes 4 (ucast (sn_last_sample h)) @
     le_bytes 4 (ucast (sn_flags h)) @ le_bytes 8 (sn_record_checksum h)"

definition slice :: "nat \<Rightarrow> nat \<Rightarrow> u8 list \<Rightarrow> u64" where
  "slice offset n bs = le_word (take n (drop offset bs))"

definition header_of_image :: "u8 list \<Rightarrow> StateSnapshotHeader" where
  "header_of_image bs = \<lparr> sn_magic = ucast (slice 0 4 bs), sn_version = ucast (slice 4 2 bs),
     sn_header_bytes = ucast (slice 6 2 bs), sn_identity_checksum = slice 8 8 bs,
     sn_sequence = slice 16 8 bs, sn_timestamp_ns = slice 24 8 bs,
     sn_frontiers = \<lparr> fr_canonical = slice 32 8 bs, fr_target = slice 40 8 bs, fr_stage0 = slice 48 8 bs,
       fr_stage1 = slice 56 8 bs, fr_draft = slice 64 8 bs, fr_epoch = slice 72 8 bs \<rparr>,
     sn_sampler = \<lparr> ss_magic = ucast (slice 80 4 bs), ss_version = ucast (slice 84 2 bs),
       ss_header_bytes = ucast (slice 86 2 bs), ss_rng_state = slice 88 8 bs, ss_sampled_tokens = slice 96 8 bs,
       ss_canonical_tokens = slice 104 8 bs, ss_penalty_checksum = slice 112 8 bs \<rparr>,
     sn_canonical_token_count = slice 120 8 bs, sn_token_start = slice 128 8 bs,
     sn_token_count = slice 136 8 bs, sn_payload_bytes = slice 144 8 bs,
     sn_canonical_checksum = slice 152 8 bs, sn_last_sample = ucast (slice 160 4 bs),
     sn_flags = ucast (slice 164 4 bs), sn_record_checksum = slice 168 8 bs \<rparr>"

definition tokens_image :: "i32 list \<Rightarrow> u8 list" where
  "tokens_image tokens = concat (map (\<lambda>t. le_bytes 4 (ucast t)) tokens)"

fun tokens_of_image :: "u8 list \<Rightarrow> i32 list" where
  "tokens_of_image (a # b # c # d # bs) = ucast (le_word [a, b, c, d]) # tokens_of_image bs"
| "tokens_of_image _ = []"

section \<open>Checksums and validation\<close>

definition record_checksum :: "StateSnapshotHeader \<Rightarrow> i32 list \<Rightarrow> u64" where
  "record_checksum header suffix =
     hash_bytes (hash_bytes fnv_basis (header_image (header\<lparr>sn_record_checksum := 0\<rparr>))) (tokens_image suffix)"

definition canonical_token_checksum :: "i32 list \<Rightarrow> u64" where
  "canonical_token_checksum tokens =
     hash_bytes (hash_bytes fnv_basis (tokens_image tokens)) (le_bytes 8 (word_of_nat (length tokens)))"

definition validate_state_snapshot :: "StateSnapshot \<Rightarrow> SessionIdentity \<Rightarrow> string + unit" where
  "validate_state_snapshot snapshot identity =
     (let header = st_header snapshot; frontiers = sn_frontiers header in
      if sn_magic header \<noteq> kStateSnapshotMagic \<or> sn_version header \<noteq> kContractVersion \<or>
         sn_header_bytes header \<noteq> 176
        then Inl ''invalid snapshot header''
      else if sn_identity_checksum header \<noteq> si_identity_checksum identity
        then Inl ''snapshot identity differs''
      else if sn_sequence header = 0 \<or>
          sn_canonical_token_count header \<noteq> word_of_nat (length (st_canonical_tokens snapshot)) \<or>
          sn_canonical_token_count header > ucast (si_context_limit identity)
        then Inl ''snapshot token extent is invalid''
      else if fr_canonical frontiers \<noteq> sn_canonical_token_count header \<or>
          fr_target frontiers > fr_canonical frontiers \<or> fr_canonical frontiers - fr_target frontiers > 1
        then Inl ''snapshot frontiers are not cold-rebuildable''
      else if isl (validate_frontiers frontiers)
        then Inl ''snapshot stage frontiers diverge''
      else if sn_flags header AND kSnapshotColdRebuild = 0 \<or>
          sn_flags header AND NOT (kSnapshotColdRebuild OR kSnapshotHasLastSample) \<noteq> 0
        then Inl ''snapshot flags are invalid''
      else if sn_canonical_checksum header \<noteq> canonical_token_checksum (st_canonical_tokens snapshot)
        then Inl ''snapshot canonical checksum differs''
      else if ss_magic (sn_sampler header) \<noteq> kSamplerStateMagic \<or>
          ss_canonical_tokens (sn_sampler header) \<noteq> sn_canonical_token_count header
        then Inl ''snapshot sampler state differs from canonical tokens''
      else if sn_flags header AND kSnapshotHasLastSample \<noteq> 0 \<and> sint (sn_last_sample header) < 0
        then Inl ''snapshot last sample flag is inconsistent''
      else Inr ())"

section \<open>System calls\<close>

datatype io_event = IoCount nat | IoInterrupted | IoFailed

datatype ReadResult = ReadComplete | ReadEof | ReadPartial

text \<open>\<open>read_record_bytes\<close>: \<open>wanted\<close> bytes are still missing, \<open>got\<close> have been read. An empty script
  stands for undisturbed calls, which return all there is.\<close>

fun read_record_bytes :: "io_event list \<Rightarrow> nat \<Rightarrow> u8 list \<Rightarrow> u8 list \<Rightarrow>
    exn + ReadResult \<times> u8 list \<times> u8 list \<times> io_event list" where
  "read_record_bytes script 0 got rest = Inr (ReadComplete, got, rest, script)"
| "read_record_bytes [] wanted got rest =
     (let count = min wanted (length rest); got = got @ take count rest in
      Inr (if count = wanted then ReadComplete else if got = [] then ReadEof else ReadPartial,
           got, drop count rest, []))"
| "read_record_bytes (event # script) wanted got rest =
     (case event of
        IoInterrupted \<Rightarrow> read_record_bytes script wanted got rest
      | IoFailed \<Rightarrow> Inl (SystemError ''read snapshot journal'')
      | IoCount n \<Rightarrow>
          let count = min (max 1 n) (min wanted (length rest)) in
          if count = 0 then Inr (if got = [] then ReadEof else ReadPartial, got, rest, script)
          else read_record_bytes script (wanted - count) (got @ take count rest) (drop count rest))"

fun write_all :: "io_event list \<Rightarrow> u8 list \<Rightarrow> u8 list \<Rightarrow> (exn + unit) \<times> u8 list \<times> io_event list" where
  "write_all script [] file = (Inr (), file, script)"
| "write_all [] data file = (Inr (), file @ data, [])"
| "write_all (event # script) data file =
     (case event of
        IoInterrupted \<Rightarrow> write_all script data file
      | IoFailed \<Rightarrow> (Inl (SystemError ''write snapshot journal''), file, script)
      | IoCount n \<Rightarrow>
          let count = min n (length data) in
          if count = 0 then (Inl (RuntimeError ''snapshot journal write made no progress''), file, script)
          else write_all script (drop count data) (file @ take count data))"

section \<open>The journal\<close>

record snapshot_journal =
  jn_path :: string
  jn_identity :: SessionIdentity
  jn_current :: StateSnapshot
  jn_disk :: "u8 list option" \<comment> \<open>the file, if it exists\<close>
  jn_io :: "io_event list"
  jn_calls :: "bool list" \<comment> \<open>the outcomes of the other system calls\<close>

type_synonym 'a journalM = "(snapshot_journal, exn, 'a) M"

definition sys_call :: "string \<Rightarrow> unit journalM" where
  "sys_call message = (\<lambda>j. case jn_calls j of
       [] \<Rightarrow> (Inr (), j)
     | ok # calls \<Rightarrow> (if ok then Inr () else Inl (SystemError message), j\<lparr>jn_calls := calls\<rparr>))"

definition journal_header_ok :: "SessionIdentity \<Rightarrow> i32 list \<Rightarrow> u64 \<Rightarrow> StateSnapshotHeader \<Rightarrow> bool" where
  "journal_header_ok identity canonical last_sequence header \<longleftrightarrow>
     \<not> (sn_magic header \<noteq> kStateSnapshotMagic \<or> sn_version header \<noteq> kContractVersion \<or>
        sn_header_bytes header \<noteq> 176 \<or> sn_identity_checksum header \<noteq> si_identity_checksum identity \<or>
        sn_sequence header \<le> last_sequence \<or> unat (sn_token_start header) > length canonical \<or>
        sn_token_count header > ucast (si_context_limit identity) \<or>
        sn_token_start header + sn_token_count header \<noteq> sn_canonical_token_count header \<or>
        sn_payload_bytes header \<noteq> sn_token_count header * 4)"

text \<open>One turn of the loading loop: the next snapshot and what follows it, or nothing when the file
  ends, be it inside a record.\<close>

definition read_record :: "SessionIdentity \<Rightarrow> io_event list \<Rightarrow> u8 list \<Rightarrow> i32 list \<Rightarrow> u64 \<Rightarrow>
    exn + io_event list \<times> (StateSnapshot \<times> u8 list) option" where
  "read_record identity script rest canonical last_sequence =
     (case read_record_bytes script 176 [] rest of
        Inl e \<Rightarrow> Inl e
      | Inr (result, data, rest, script) \<Rightarrow>
          if result \<noteq> ReadComplete then Inr (script, None)
          else let header = header_of_image data in
          if \<not> journal_header_ok identity canonical last_sequence header
            then Inl (RuntimeError ''corrupt snapshot journal header'')
          else (case read_record_bytes script (unat (sn_token_count header) * 4) [] rest of
                  Inl e \<Rightarrow> Inl e
                | Inr (result, data, rest, script) \<Rightarrow>
                    if result \<noteq> ReadComplete then Inr (script, None)
                    else let suffix = tokens_of_image data in
                    if sn_record_checksum header \<noteq> record_checksum header suffix
                      then Inl (RuntimeError ''snapshot record checksum differs'')
                    else let candidate = \<lparr> st_header = header,
                        st_canonical_tokens = take (unat (sn_token_start header)) canonical @ suffix \<rparr> in
                    (case validate_state_snapshot candidate identity of
                       Inl err \<Rightarrow> Inl (RuntimeError (''invalid snapshot journal state: '' @ err))
                     | Inr _ \<Rightarrow> Inr (script, Some (candidate, rest)))))"

text \<open>Short and interrupted reads do not show: the result is a function of the bytes.\<close>

lemma read_count_step:
  fixes wanted n :: nat
  obtains c where
    "read_record_bytes (IoCount n # script) (Suc wanted) got rest =
       (if c = 0 then Inr (if got = [] then ReadEof else ReadPartial, got, rest, script)
        else read_record_bytes script (Suc wanted - c) (got @ take c rest) (drop c rest))"
    "c \<le> Suc wanted" "c \<le> length rest" "c = 0 \<longleftrightarrow> rest = []"
proof (rule that [of "min (max 1 n) (min (Suc wanted) (length rest))"])
  show "(min (max 1 n) (min (Suc wanted) (length rest)) = 0) = (rest = [])"
    by (cases rest) (simp_all add: min_def max_def)
qed (simp_all only: read_record_bytes.simps io_event.case Let_def min.cobounded1 min.cobounded2
      min.coboundedI2)

lemma read_record_bytes_exact:
  assumes "read_record_bytes script wanted got rest = Inr (result, data, rest', script')"
  shows "(if wanted \<le> length rest
      then result = ReadComplete \<and> data = got @ take wanted rest \<and> rest' = drop wanted rest
      else result \<noteq> ReadComplete) \<and> set script' \<subseteq> set script"
  using assms
proof (induction script arbitrary: wanted got rest)
  case Nil
  then show ?case by (cases wanted) (auto simp: Let_def split: if_splits)
next
  case (Cons event script)
  show ?case
  proof (cases wanted)
    case 0
    then show ?thesis using Cons.prems by simp
  next
    case (Suc w)
    show ?thesis
    proof (cases event)
      case (IoCount n)
      obtain c where c: "read_record_bytes (IoCount n # script) (Suc w) got rest =
         (if c = 0 then Inr (if got = [] then ReadEof else ReadPartial, got, rest, script)
          else read_record_bytes script (Suc w - c) (got @ take c rest) (drop c rest))"
        "c \<le> Suc w" "c \<le> length rest" "c = 0 \<longleftrightarrow> rest = []"
        by (rule read_count_step)
      show ?thesis
      proof (cases "c = 0")
        case True
        then show ?thesis using Cons.prems c Suc IoCount by (auto split: if_splits)
      next
        case False
        then have "read_record_bytes script (Suc w - c) (got @ take c rest) (drop c rest) =
            Inr (result, data, rest', script')" using Cons.prems c(1) Suc IoCount by simp
        moreover have "take c rest @ take (Suc w - c) (drop c rest) = take (Suc w) rest"
          using c(2) by (metis le_add_diff_inverse take_add)
        ultimately show ?thesis
          using Cons.IH [of "Suc w - c" "got @ take c rest" "drop c rest"] c(2,3) Suc
          by (auto simp: diff_le_mono split: if_splits)
      qed
    next
      case IoInterrupted
      then show ?thesis using Cons Suc by (auto split: if_splits)
    next
      case IoFailed
      then show ?thesis using Cons.prems Suc by simp
    qed
  qed
qed

lemma read_record_bytes_Inr:
  assumes "IoFailed \<notin> set script"
  shows "\<exists>x. read_record_bytes script wanted got rest = Inr x"
  using assms
proof (induction script arbitrary: wanted got rest)
  case Nil
  then show ?case by (cases wanted) (auto simp: Let_def)
next
  case (Cons event script)
  then show ?case by (cases wanted; cases event) (auto simp: Let_def)
qed

text \<open>The same turn on the bytes alone, as the journal format defines it.\<close>

definition parse_record :: "SessionIdentity \<Rightarrow> u8 list \<Rightarrow> i32 list \<Rightarrow> u64 \<Rightarrow> exn + (StateSnapshot \<times> u8 list) option" where
  "parse_record identity bytes canonical last_sequence =
     (let header = header_of_image (take 176 bytes); body = drop 176 bytes;
          n = unat (sn_token_count header) * 4; suffix = tokens_of_image (take n body);
          candidate = \<lparr> st_header = header,
            st_canonical_tokens = take (unat (sn_token_start header)) canonical @ suffix \<rparr> in
      if length bytes < 176 then Inr None
      else if \<not> journal_header_ok identity canonical last_sequence header
        then Inl (RuntimeError ''corrupt snapshot journal header'')
      else if length body < n then Inr None
      else if sn_record_checksum header \<noteq> record_checksum header suffix
        then Inl (RuntimeError ''snapshot record checksum differs'')
      else (case validate_state_snapshot candidate identity of
              Inl err \<Rightarrow> Inl (RuntimeError (''invalid snapshot journal state: '' @ err))
            | Inr _ \<Rightarrow> Inr (Some (candidate, drop n body))))"

lemma read_record_exact:
  assumes "IoFailed \<notin> set script"
  shows "\<exists>script'. set script' \<subseteq> set script \<and>
    read_record identity script rest canonical seq = map_sum id (Pair script') (parse_record identity rest canonical seq)"
proof -
  obtain r1 d1 t1 s1 where one: "read_record_bytes script 176 [] rest = Inr (r1, d1, t1, s1)"
    using read_record_bytes_Inr [OF assms] by (metis prod.exhaust)
  note f1 = read_record_bytes_exact [OF one]
  have "IoFailed \<notin> set s1" using f1 assms by auto
  then obtain r2 d2 t2 s2 where two: "read_record_bytes s1 (unat (sn_token_count (header_of_image d1)) * 4) [] t1 =
      Inr (r2, d2, t2, s2)"
    using read_record_bytes_Inr by (metis prod.exhaust)
  note f2 = read_record_bytes_exact [OF two]
  show ?thesis
  proof (cases "length rest < 176")
    case True
    then show ?thesis using one f1 by (intro exI [of _ s1]) (auto simp: read_record_def parse_record_def Let_def)
  next
    case False
    then have d1: "r1 = ReadComplete" "d1 = take 176 rest" "t1 = drop 176 rest" using f1 by auto
    let ?h = "header_of_image (take 176 rest)" and ?n = "unat (sn_token_count (header_of_image (take 176 rest))) * 4"
    show ?thesis
    proof (cases "length (drop 176 rest) < ?n")
      case short: True
      then have "r2 \<noteq> ReadComplete" using f2 d1 by (auto split: if_splits)
      then show ?thesis
        using one two d1 False short f1 f2
        by (cases "journal_header_ok identity canonical seq ?h", intro exI [of _ s2])
           (auto simp: read_record_def parse_record_def Let_def)
    next
      case full: False
      then have "r2 = ReadComplete" "d2 = take ?n (drop 176 rest)" "t2 = drop ?n (drop 176 rest)"
        using f2 d1 by (auto split: if_splits)
      then show ?thesis
        using one two d1 False full f1 f2
        by (intro exI [of _ s2]) (auto simp: read_record_def parse_record_def Let_def split: sum.splits)
    qed
  qed
qed

lemma read_record_parse:
  assumes "read_record identity script rest canonical seq = Inr (script', r)"
  shows "parse_record identity rest canonical seq = Inr r"
proof -
  obtain r1 d1 t1 s1 where one: "read_record_bytes script 176 [] rest = Inr (r1, d1, t1, s1)"
    using assms by (auto simp: read_record_def split: sum.splits)
  note f1 = read_record_bytes_exact [OF one]
  show ?thesis
  proof (cases "length rest < 176")
    case True
    then show ?thesis using one f1 assms by (auto simp: read_record_def parse_record_def Let_def)
  next
    case False
    then have d1: "r1 = ReadComplete" "d1 = take 176 rest" "t1 = drop 176 rest" using f1 by auto
    let ?h = "header_of_image (take 176 rest)" and ?n = "unat (sn_token_count (header_of_image (take 176 rest))) * 4"
    have ok: "journal_header_ok identity canonical seq ?h"
      using assms one d1 by (auto simp: read_record_def Let_def split: if_splits)
    then obtain r2 d2 t2 s2 where two: "read_record_bytes s1 ?n [] (drop 176 rest) = Inr (r2, d2, t2, s2)"
      using assms one d1 by (auto simp: read_record_def Let_def split: sum.splits if_splits)
    note f2 = read_record_bytes_exact [OF two]
    show ?thesis
      using assms one two d1 False ok f2
      by (auto simp: read_record_def parse_record_def Let_def split: sum.splits if_splits)
  qed
qed

lemma parse_record_Some:
  assumes "parse_record identity bytes canonical seq = Inr (Some (candidate, rest))"
  shows "bytes = take (176 + unat (sn_token_count (st_header candidate)) * 4) bytes @ rest"
    "176 + unat (sn_token_count (st_header candidate)) * 4 \<le> length bytes"
    "validate_state_snapshot candidate identity = Inr ()"
    "journal_header_ok identity canonical seq (st_header candidate)"
  using assms
  by (auto simp: parse_record_def Let_def split: if_splits sum.splits) (metis append_take_drop_id add.commute)

lemma read_record_shrinks:
  assumes "read_record identity script rest canonical seq = Inr (script', Some (candidate, rest'))"
  shows "length rest' < length rest"
proof -
  note f = parse_record_Some(1,2) [OF read_record_parse [OF assms]]
  have "length rest = length (take (176 + unat (sn_token_count (st_header candidate)) * 4) rest) + length rest'"
    using f(1) by (metis length_append)
  then show ?thesis using f(2) by simp
qed

text \<open>The loading loop. \<open>valid\<close> counts the bytes of the complete records; a file has fewer than 2^63
  bytes, so the 64-bit counter of the source does not wrap.\<close>

function load_records :: "SessionIdentity \<Rightarrow> io_event list \<Rightarrow> u8 list \<Rightarrow> i32 list \<Rightarrow> u64 \<Rightarrow> nat \<Rightarrow>
    StateSnapshot \<Rightarrow> exn + StateSnapshot \<times> nat \<times> io_event list" where
  "load_records identity script rest canonical last_sequence valid current =
     (case read_record identity script rest canonical last_sequence of
        Inl e \<Rightarrow> Inl e
      | Inr (script, None) \<Rightarrow> Inr (current, valid, script)
      | Inr (script, Some (candidate, rest)) \<Rightarrow>
          load_records identity script rest (st_canonical_tokens candidate)
            (sn_sequence (st_header candidate))
            (valid + 176 + unat (sn_payload_bytes (st_header candidate))) candidate)"
  by pat_completeness auto
termination
  by (relation "measure (\<lambda>(_, _, rest, _). length rest)") (auto dest: read_record_shrinks)

declare load_records.simps [simp del]

definition journal_load :: "unit journalM" where
  "journal_load =
     bindM (getM jn_disk) (\<lambda>disk.
     case disk of
       None \<Rightarrow> returnM ()
     | Some file \<Rightarrow>
         thenM (sys_call ''open snapshot journal'')
        (bindM (liftE (\<lambda>j. load_records (jn_identity j) (jn_io j) file [] 0 0 (jn_current j)))
           (\<lambda>(current, valid, script).
         thenM (modifyM (\<lambda>j. j\<lparr>jn_io := script, jn_current :=
                  (if sn_sequence (st_header current) \<noteq> 0
                   then current\<lparr>st_header := (st_header current)\<lparr>sn_token_start := 0\<rparr>\<rparr> else current)\<rparr>))
        (thenM (sys_call ''measure snapshot journal'')
        (whenM (\<lambda>_. length file > valid)
           (thenM (sys_call ''truncate partial snapshot tail'')
                  (modifyM (\<lambda>j. j\<lparr>jn_disk := Some (take valid file)\<rparr>))))))))"

definition open_journal :: "unit journalM" where
  "open_journal =
     thenM (failIf (\<lambda>j. jn_path j = [] \<or> isl (validate_session_identity (jn_identity j)))
              (InvalidArgument ''invalid snapshot journal identity/path''))
    (thenM journal_load
    (thenM (sys_call ''open snapshot journal for append'')
           (modifyM (\<lambda>j. j\<lparr>jn_disk := Some (case jn_disk j of None \<Rightarrow> [] | Some file \<Rightarrow> file)\<rparr>))))"

definition new_journal :: "string \<Rightarrow> SessionIdentity \<Rightarrow> u8 list option \<Rightarrow> io_event list \<Rightarrow> bool list \<Rightarrow>
    (exn + unit) \<times> snapshot_journal" where
  "new_journal path identity disk io calls = open_journal \<lparr> jn_path = path, jn_identity = identity,
     jn_current = empty_snapshot, jn_disk = disk, jn_io = io, jn_calls = calls \<rparr>"

fun common_prefix :: "i32 list \<Rightarrow> i32 list \<Rightarrow> nat" where
  "common_prefix (a # as) (b # bs) = (if a = b then Suc (common_prefix as bs) else 0)"
| "common_prefix _ _ = 0"

text \<open>What \<open>append\<close> fills in before it validates: the stamped snapshot and its suffix.\<close>

definition stamp_snapshot :: "SessionIdentity \<Rightarrow> StateSnapshot \<Rightarrow> u64 \<Rightarrow> StateSnapshot \<Rightarrow> StateSnapshot \<times> i32 list" where
  "stamp_snapshot identity current now snapshot =
     (let tokens = st_canonical_tokens snapshot;
          header = (st_header snapshot)\<lparr>
            sn_identity_checksum := si_identity_checksum identity,
            sn_sequence := sn_sequence (st_header current) + 1,
            sn_timestamp_ns := now,
            sn_canonical_token_count := word_of_nat (length tokens),
            sn_canonical_checksum := canonical_token_checksum tokens\<rparr>;
          common = common_prefix (st_canonical_tokens current) tokens;
          count = word_of_nat (length tokens - common);
          header = header\<lparr>sn_token_start := word_of_nat common, sn_token_count := count,
            sn_payload_bytes := count * 4\<rparr>;
          suffix = drop common tokens;
          header = header\<lparr>sn_record_checksum := record_checksum header suffix\<rparr> in
      (snapshot\<lparr>st_header := header\<rparr>, suffix))"

definition journal_write :: "u8 list \<Rightarrow> unit journalM" where
  "journal_write data = (\<lambda>j.
     case write_all (jn_io j) data (case jn_disk j of None \<Rightarrow> [] | Some file \<Rightarrow> file) of
       (r, file, script) \<Rightarrow> (r, j\<lparr>jn_disk := Some file, jn_io := script\<rparr>))"

definition journal_append :: "u64 \<Rightarrow> StateSnapshot \<Rightarrow> unit journalM" where
  "journal_append now snapshot =
     bindM (getM (\<lambda>j. stamp_snapshot (jn_identity j) (jn_current j) now snapshot)) (\<lambda>(snapshot, suffix).
     thenM (liftE (\<lambda>j. map_sum (\<lambda>err. InvalidArgument (''cannot append invalid snapshot: '' @ err)) id
              (validate_state_snapshot snapshot (jn_identity j))))
    (thenM (journal_write (header_image (st_header snapshot)))
    (thenM (if suffix \<noteq> [] then journal_write (tokens_image suffix) else returnM ())
    (thenM (sys_call ''sync snapshot journal'')
           (modifyM (\<lambda>j. j\<lparr>jn_current := snapshot\<lparr>st_header := (st_header snapshot)\<lparr>
              sn_token_start := 0,
              sn_token_count := word_of_nat (length (st_canonical_tokens snapshot)),
              sn_payload_bytes := word_of_nat (length (st_canonical_tokens snapshot)) * 4\<rparr>\<rparr>\<rparr>))))))"

definition journal_latest :: "StateSnapshot journalM" where
  "journal_latest =
     thenM (failIf (\<lambda>j. sn_sequence (st_header (jn_current j)) = 0) (RuntimeError ''snapshot journal is empty''))
           (getM jn_current)"

definition journal_empty :: "snapshot_journal \<Rightarrow> bool" where
  "journal_empty j \<longleftrightarrow> sn_sequence (st_header (jn_current j)) = 0"

section \<open>Images are faithful\<close>

lemma le_word_u64: "le_word (le_bytes 8 w) = w"
  by (simp add: le_word_le_bytes take_bit_word_eq_self)

lemma le_word_u32: "ucast (le_word (le_bytes 4 (ucast w))) = (w :: u32)"
  by (simp add: le_word_le_bytes) (rule bit_word_eqI, simp add: bit_simps)

lemma le_word_u16: "ucast (le_word (le_bytes 2 (ucast w))) = (w :: u16)"
  by (simp add: le_word_le_bytes) (rule bit_word_eqI, simp add: bit_simps)

lemma slice_here: "length a = offset \<Longrightarrow> length b = n \<Longrightarrow> slice offset n (a @ b @ c) = le_word b"
  by (simp add: slice_def)

lemma slice_skip: "length a \<le> offset \<Longrightarrow> slice offset n (a @ b) = slice (offset - length a) n b"
  by (simp add: slice_def)

lemma slice_0: "length b = n \<Longrightarrow> slice 0 n (b @ c) = le_word b"
  by (simp add: slice_def)

lemma slice_whole: "length b = n \<Longrightarrow> slice 0 n b = le_word b"
  by (simp add: slice_def)

lemma length_header_image [simp]: "length (header_image h) = 176"
  by (simp add: header_image_def frontiers_image_def sampler_image_def)

lemma header_of_header_image: "header_of_image (header_image h) = h"
  by (simp add: header_of_image_def header_image_def frontiers_image_def sampler_image_def slice_skip slice_0
      slice_whole le_word_u64 le_word_u32 le_word_u16)

lemma le_bytes4: "le_bytes 4 w = [ucast w, ucast (drop_bit 8 w), ucast (drop_bit 16 w), ucast (drop_bit 24 w)]"
  by (simp add: eval_nat_numeral)

lemma tokens_of_tokens_image: "tokens_of_image (tokens_image ts) = ts"
proof (induction ts)
  case (Cons t ts)
  have "ucast (le_word (le_bytes 4 (ucast t))) = t" by (rule le_word_u32)
  then show ?case using Cons by (simp add: tokens_image_def le_bytes4 del: le_word.simps)
qed (simp add: tokens_image_def)

lemma length_tokens_image [simp]: "length (tokens_image ts) = 4 * length ts"
  by (induction ts) (simp_all add: tokens_image_def)

section \<open>Reading a journal back\<close>

text \<open>Loading the bytes from a known state, undisturbed.\<close>

definition load_from :: "SessionIdentity \<Rightarrow> u8 list \<Rightarrow> nat \<Rightarrow> StateSnapshot \<Rightarrow> exn + StateSnapshot \<times> nat" where
  "load_from identity bytes valid current = map_sum id (\<lambda>(s, n, _). (s, n))
     (load_records identity [] bytes (st_canonical_tokens current) (sn_sequence (st_header current)) valid current)"

lemma load_records_quiet:
  assumes "IoFailed \<notin> set script" "canonical = st_canonical_tokens current" "seq = sn_sequence (st_header current)"
  shows "\<exists>script'. load_records identity script rest canonical seq valid current =
    map_sum id (\<lambda>(s, n). (s, n, script')) (load_from identity rest valid current)"
  using assms
proof (induction "length rest" arbitrary: script rest canonical seq valid current rule: less_induct)
  case less
  obtain script' where s': "set script' \<subseteq> set script"
    "read_record identity script rest canonical seq = map_sum id (Pair script') (parse_record identity rest canonical seq)"
    using read_record_exact [OF less.prems(1)] by blast
  obtain script0 where s0: "set script0 \<subseteq> {}"
    "read_record identity [] rest canonical seq = map_sum id (Pair script0) (parse_record identity rest canonical seq)"
    using read_record_exact [of "[]"] by fastforce
  then have s0': "script0 = []" by simp
  show ?case
  proof (cases "parse_record identity rest canonical seq")
    case (Inl e)
    then show ?thesis
      using s' s0 s0' less.prems by (simp add: load_from_def load_records.simps)
  next
    case (Inr r)
    show ?thesis
    proof (cases r)
      case None
      then show ?thesis
        using s' s0 s0' less.prems Inr by (auto simp: load_from_def load_records.simps)
    next
      case (Some cr)
      obtain cand rest' where cr: "cr = (cand, rest')" by (cases cr)
      have lt: "length rest' < length rest"
        using read_record_shrinks [of identity script rest canonical seq script' cand rest'] s' Inr Some cr by simp
      have ns: "IoFailed \<notin> set script'" using s'(1) less.prems(1) by auto
      obtain t where "load_records identity script' rest' (st_canonical_tokens cand) (sn_sequence (st_header cand))
          (valid + 176 + unat (sn_payload_bytes (st_header cand))) cand =
        map_sum id (\<lambda>(s, n). (s, n, t)) (load_from identity rest'
          (valid + 176 + unat (sn_payload_bytes (st_header cand))) cand)"
        using less.hyps [OF lt ns refl refl] by blast
      then show ?thesis
        using s' s0 s0' less.prems Inr Some cr
        by (intro exI [of _ t]) (simp add: load_from_def load_records.simps [of identity _ rest])
    qed
  qed
qed

lemma load_from_step:
  "load_from identity bytes valid current =
     (case parse_record identity bytes (st_canonical_tokens current) (sn_sequence (st_header current)) of
        Inl e \<Rightarrow> Inl e
      | Inr None \<Rightarrow> Inr (current, valid)
      | Inr (Some (candidate, rest)) \<Rightarrow>
          load_from identity rest (valid + 176 + unat (sn_payload_bytes (st_header candidate))) candidate)"
proof -
  obtain script0 where "set script0 \<subseteq> {}"
    and r: "read_record identity [] bytes (st_canonical_tokens current) (sn_sequence (st_header current)) =
      map_sum id (Pair script0) (parse_record identity bytes (st_canonical_tokens current) (sn_sequence (st_header current)))"
    using read_record_exact [of "[]"] by fastforce
  then have "script0 = []" by simp
  then show ?thesis
    using r by (simp add: load_from_def load_records.simps [of identity "[]" bytes] split: sum.splits option.splits)
qed

lemma payload_length:
  assumes "journal_header_ok identity canonical seq h"
  shows "unat (sn_payload_bytes h) = unat (sn_token_count h) * 4"
proof -
  have "unat (sn_token_count h) \<le> unat (si_context_limit identity)"
    using assms by (simp add: journal_header_ok_def word_le_nat_alt not_less)
  then have "unat (sn_token_count h) * 4 < 2 ^ 64" using unat_u32_lt [of "si_context_limit identity"] by simp
  then show ?thesis
    using assms unat_mult_lem [of "sn_token_count h" 4] by (simp add: journal_header_ok_def)
qed

lemma parse_record_short: "length bytes < 176 \<Longrightarrow> parse_record identity bytes canonical seq = Inr None"
  unfolding parse_record_def Let_def by (rule if_P)

lemma parse_record_append:
  assumes "parse_record identity xs canonical seq = Inr (Some (candidate, rest))"
  shows "parse_record identity (xs @ ys) canonical seq = Inr (Some (candidate, rest @ ys))"
  using assms by (auto simp: parse_record_def Let_def split: if_splits sum.splits)

lemma parse_record_alone:
  assumes parse: "parse_record identity xs canonical seq = Inr (Some (candidate, rest))"
  shows "parse_record identity (take (176 + unat (sn_token_count (st_header candidate)) * 4) xs) canonical seq =
    Inr (Some (candidate, []))"
proof -
  let ?n = "unat (sn_token_count (st_header candidate)) * 4"
  have hd: "st_header candidate = header_of_image (take 176 xs)"
    using parse by (auto simp: parse_record_def Let_def split: if_splits sum.splits)
  have a: "take 176 (take (176 + ?n) xs) = take 176 xs" by (simp add: min_def)
  have b: "drop 176 (take (176 + ?n) xs) = take ?n (drop 176 xs)" by (simp add: drop_take)
  have len: "length (take (176 + ?n) xs) = 176 + ?n" "length (take ?n (drop 176 xs)) = ?n"
    using parse_record_Some(2) [OF parse] by auto
  show ?thesis
    using parse unfolding parse_record_def Let_def a b hd [symmetric] len
    by (auto simp: hd split: if_splits sum.splits)
qed

text \<open>A loaded file is a sequence of complete records, and what follows is loaded from there.\<close>

lemma load_from_consumed:
  assumes "load_from identity xs valid current = Inr (s, n)"
  shows "\<exists>k. n = valid + k \<and> k \<le> length xs \<and> (\<forall>ys. load_from identity (take k xs @ ys) valid current = load_from identity ys n s)"
  using assms
proof (induction "length xs" arbitrary: xs valid current rule: less_induct)
  case less
  show ?case
  proof (cases "parse_record identity xs (st_canonical_tokens current) (sn_sequence (st_header current))")
    case (Inl e)
    then show ?thesis using less.prems by (simp add: load_from_step [of identity xs])
  next
    case (Inr r)
    show ?thesis
    proof (cases r)
      case None
      then show ?thesis using less.prems Inr by (auto simp: load_from_step [of identity xs] intro: exI [of _ 0])
    next
      case (Some cr)
      obtain cand rest where cr: "cr = (cand, rest)" by (cases cr)
      have parse: "parse_record identity xs (st_canonical_tokens current) (sn_sequence (st_header current)) =
        Inr (Some (cand, rest))" using Inr Some cr by simp
      note f = parse_record_Some [OF parse]
      let ?m = "176 + unat (sn_payload_bytes (st_header cand))"
      have m: "?m = 176 + unat (sn_token_count (st_header cand)) * 4" using payload_length [OF f(4)] by simp
      have xs: "xs = take ?m xs @ rest" and le: "?m \<le> length xs" unfolding m by (rule f(1), rule f(2))
      have lt: "length rest < length xs" using xs le by (metis length_append length_take less_add_same_cancel2
            min.absorb2 add_gr_0 zero_less_numeral)
      have rest: "load_from identity rest (valid + ?m) cand = Inr (s, n)"
        using less.prems parse by (simp add: load_from_step [of identity xs] add.assoc)
      obtain k where k: "n = valid + ?m + k" "k \<le> length rest"
        "\<forall>ys. load_from identity (take k rest @ ys) (valid + ?m) cand = load_from identity ys n s"
        using less.hyps [OF lt rest] by blast
      have head: "parse_record identity (take ?m xs) (st_canonical_tokens current) (sn_sequence (st_header current)) =
          Inr (Some (cand, []))"
        unfolding m by (rule parse_record_alone [OF parse])
      have tk: "take (?m + k) xs = take ?m xs @ take k rest"
        by (subst (1) xs) (simp add: le)
      have len: "?m + k \<le> length xs" using k(2) xs le by (metis add_le_cancel_left length_append length_take min.absorb2)
      have "load_from identity (take (?m + k) xs @ ys) valid current = load_from identity ys n s" for ys
        unfolding tk append_assoc using k(3) parse_record_append [OF head, of "take k rest @ ys"]
        by (simp add: load_from_step [of identity "take ?m xs @ take k rest @ ys"] add.assoc)
      then show ?thesis using k(1) len by (intro exI [of _ "?m + k"]) (simp add: add.assoc)
    qed
  qed
qed

lemma load_from_Nil [simp]: "load_from identity [] valid current = Inr (current, valid)"
  using parse_record_short [of "[]" identity] by (simp add: load_from_step [of identity "[]"])

section \<open>Appending\<close>

lemma common_prefix_le: "common_prefix as bs \<le> length as" "common_prefix as bs \<le> length bs"
  by (induction as bs rule: common_prefix.induct) auto

lemma common_prefix_take: "take (common_prefix as bs) as = take (common_prefix as bs) bs"
  by (induction as bs rule: common_prefix.induct) auto

lemma validate_extent:
  assumes "validate_state_snapshot s identity = Inr ()"
  shows "sn_sequence (st_header s) \<noteq> 0"
    "sn_canonical_token_count (st_header s) = word_of_nat (length (st_canonical_tokens s))"
    "sn_canonical_token_count (st_header s) \<le> ucast (si_context_limit identity)"
    "sn_magic (st_header s) = kStateSnapshotMagic" "sn_version (st_header s) = kContractVersion"
    "sn_header_bytes (st_header s) = 176"
  using assms by (auto simp: validate_state_snapshot_def Let_def not_less split: if_splits)

text \<open>The bytes of the record that \<open>append\<close> writes.\<close>

definition record_image :: "StateSnapshot \<times> i32 list \<Rightarrow> u8 list" where
  "record_image = (\<lambda>(s, suffix). header_image (st_header s) @ tokens_image suffix)"

lemma stamped_fields:
  assumes st: "stamp_snapshot identity current now snapshot = (s, suffix)"
    and v: "validate_state_snapshot s identity = Inr ()" and len: "length (st_canonical_tokens snapshot) < 2 ^ 64"
  shows "st_canonical_tokens s = st_canonical_tokens snapshot"
    "take (unat (sn_token_start (st_header s))) (st_canonical_tokens current) @ suffix = st_canonical_tokens s"
    "unat (sn_token_count (st_header s)) = length suffix"
    "journal_header_ok identity (st_canonical_tokens current) (sn_sequence (st_header current)) (st_header s)"
    "sn_record_checksum (st_header s) = record_checksum (st_header s) suffix"
proof -
  let ?ts = "st_canonical_tokens snapshot" and ?c = "common_prefix (st_canonical_tokens current) (st_canonical_tokens snapshot)"
  show ts: "st_canonical_tokens s = ?ts" using st by (auto simp: stamp_snapshot_def Let_def)
  have h: "sn_token_start (st_header s) = word_of_nat ?c" "sn_token_count (st_header s) = word_of_nat (length ?ts - ?c)"
    "sn_payload_bytes (st_header s) = sn_token_count (st_header s) * 4" "suffix = drop ?c ?ts"
    "sn_sequence (st_header s) = sn_sequence (st_header current) + 1"
    "sn_identity_checksum (st_header s) = si_identity_checksum identity"
    using st by (auto simp: stamp_snapshot_def Let_def)
  note e = validate_extent [OF v]
  have cl: "?c \<le> length ?ts" "?c \<le> length (st_canonical_tokens current)" by (rule common_prefix_le)+
  have small: "unat (word_of_nat n :: u64) = n" if "n \<le> length ?ts" for n
    using that len by (intro unat_of_nat_u64) simp
  have un: "unat (word_of_nat ?c :: u64) = ?c" "unat (word_of_nat (length ?ts - ?c) :: u64) = length ?ts - ?c"
    "unat (word_of_nat (length ?ts) :: u64) = length ?ts"
    by (rule small, use cl in simp)+
  show "take (unat (sn_token_start (st_header s))) (st_canonical_tokens current) @ suffix = st_canonical_tokens s"
    unfolding h(1) un(1) h(4) ts by (metis common_prefix_take append_take_drop_id)
  show cnt: "unat (sn_token_count (st_header s)) = length suffix" unfolding h(2) un(2) h(4) by simp
  have sum: "sn_token_start (st_header s) + sn_token_count (st_header s) = sn_canonical_token_count (st_header s)"
    unfolding h(1,2) e(2) ts of_nat_add [symmetric] using cl(1) by (simp only: le_add_diff_inverse)
  have le: "unat (sn_token_count (st_header s)) \<le> unat (si_context_limit identity)"
    using e(3) un(3) cnt h(4) unfolding e(2) ts by (simp add: word_le_nat_alt)
  have seq: "sn_sequence (st_header current) < sn_sequence (st_header s)"
  proof -
    have "sn_sequence (st_header current) \<noteq> u64_max" using e(1) h(5) by auto
    from unat_u64_Suc [OF this] show ?thesis by (simp add: word_less_nat_alt h(5))
  qed
  show "journal_header_ok identity (st_canonical_tokens current) (sn_sequence (st_header current)) (st_header s)"
    using e(4-6) h(3,6) sum le seq cl un(1) h(1)
    by (simp add: journal_header_ok_def word_le_nat_alt word_less_nat_alt not_less not_le)
  show "sn_record_checksum (st_header s) = record_checksum (st_header s) suffix"
    using st by (auto simp: stamp_snapshot_def Let_def record_checksum_def)
qed

text \<open>A complete record is read back; a torn one is not seen.\<close>

lemma parse_stamped:
  assumes st: "stamp_snapshot identity current now snapshot = (s, suffix)"
    and v: "validate_state_snapshot s identity = Inr ()" and len: "length (st_canonical_tokens snapshot) < 2 ^ 64"
  shows "parse_record identity (record_image (s, suffix)) (st_canonical_tokens current) (sn_sequence (st_header current)) =
    Inr (Some (s, []))"
proof -
  note f = stamped_fields [OF assms]
  have hd: "take 176 (record_image (s, suffix)) = header_image (st_header s)"
    "drop 176 (record_image (s, suffix)) = tokens_image suffix"
    by (simp_all add: record_image_def)
  have n: "take (unat (sn_token_count (st_header s)) * 4) (tokens_image suffix) = tokens_image suffix"
    "drop (unat (sn_token_count (st_header s)) * 4) (tokens_image suffix) = []"
    "\<not> length (tokens_image suffix) < unat (sn_token_count (st_header s)) * 4"
    using f(3) by simp_all
  have l: "\<not> length (record_image (s, suffix)) < 176" by (simp add: record_image_def)
  have cand: "\<lparr>st_header = st_header s, st_canonical_tokens = take (unat (sn_token_start (st_header s)))
      (st_canonical_tokens current) @ suffix\<rparr> = s"
    using f(2) by simp
  show ?thesis
    unfolding parse_record_def Let_def hd header_of_header_image n(1,2) tokens_of_tokens_image cand
    using l n(3) f(4,5) v by simp
qed

lemma parse_torn:
  assumes st: "stamp_snapshot identity current now snapshot = (s, suffix)"
    and v: "validate_state_snapshot s identity = Inr ()" and len: "length (st_canonical_tokens snapshot) < 2 ^ 64"
    and k: "k < length (record_image (s, suffix))"
  shows "parse_record identity (take k (record_image (s, suffix))) (st_canonical_tokens current)
    (sn_sequence (st_header current)) = Inr None"
proof (cases "k < 176")
  case True
  then show ?thesis by (intro parse_record_short) simp
next
  case False
  note f = stamped_fields [OF assms(1-3)]
  have hd: "take 176 (take k (record_image (s, suffix))) = header_image (st_header s)"
    using False by (simp add: record_image_def min_def)
  have short: "length (drop 176 (take k (record_image (s, suffix)))) < unat (sn_token_count (st_header s)) * 4"
    using k False f(3) by (simp add: record_image_def)
  have l: "\<not> length (take k (record_image (s, suffix))) < 176" using False k by simp
  show ?thesis
    unfolding parse_record_def Let_def hd header_of_header_image using l f(4) short by simp
qed

text \<open>What a snapshot holds, apart from how its record was cut.\<close>

definition content :: "StateSnapshot \<Rightarrow> i32 list \<times> StateSnapshotHeader" where
  "content s = (st_canonical_tokens s,
     (st_header s)\<lparr>sn_token_start := 0, sn_token_count := 0, sn_payload_bytes := 0\<rparr>)"

lemma contentD:
  assumes "content s = content t"
  shows "st_canonical_tokens s = st_canonical_tokens t" "sn_sequence (st_header s) = sn_sequence (st_header t)"
proof -
  show "st_canonical_tokens s = st_canonical_tokens t" using assms by (simp add: content_def)
  have "(st_header s)\<lparr>sn_token_start := 0, sn_token_count := 0, sn_payload_bytes := 0\<rparr> =
      (st_header t)\<lparr>sn_token_start := 0, sn_token_count := 0, sn_payload_bytes := 0\<rparr>"
    using assms by (simp add: content_def)
  from arg_cong [OF this, of sn_sequence] show "sn_sequence (st_header s) = sn_sequence (st_header t)" by simp
qed

text \<open>The file of an open journal is a sequence of complete records that load to its current
  snapshot.\<close>

definition journal_ok :: "snapshot_journal \<Rightarrow> bool" where
  "journal_ok j \<longleftrightarrow> (\<exists>file s. jn_disk j = Some file \<and>
     load_from (jn_identity j) file 0 empty_snapshot = Inr (s, length file) \<and> content s = content (jn_current j)) \<and>
     jn_path j \<noteq> [] \<and> validate_session_identity (jn_identity j) = Inr ()"

lemma stamp_content: "content c = content d \<Longrightarrow> stamp_snapshot identity c now s = stamp_snapshot identity d now s"
  using contentD [of c d] by (simp add: stamp_snapshot_def)

lemma load_after:
  assumes "load_from identity file 0 cur = Inr (s, length file)"
  shows "load_from identity (file @ ys) 0 cur = load_from identity ys (length file) s"
  using load_from_consumed [OF assms] by auto

lemma load_record:
  assumes st: "stamp_snapshot identity s now snapshot = (t, suffix)"
    and v: "validate_state_snapshot t identity = Inr ()" and len: "length (st_canonical_tokens snapshot) < 2 ^ 64"
    and k: "k \<le> length (record_image (t, suffix))"
  shows "load_from identity (take k (record_image (t, suffix))) n s =
    Inr (if k = length (record_image (t, suffix)) then (t, n + k) else (s, n))"
proof (cases "k = length (record_image (t, suffix))")
  case True
  have "length (record_image (t, suffix)) = 176 + unat (sn_payload_bytes (st_header t))"
    using stamped_fields(3,4) [OF assms(1-3)] payload_length by (simp add: record_image_def)
  then show ?thesis
    using True parse_stamped [OF assms(1-3)]
    by (simp add: load_from_step [of identity "record_image (t, suffix)"])
next
  case False
  then have "k < length (record_image (t, suffix))" using k by simp
  from parse_torn [OF assms(1-3) this] False show ?thesis
    by (simp add: load_from_step [of identity "take k (record_image (t, suffix))"])
qed

section \<open>Opening and appending keep the journal readable\<close>

lemma load_records_returns:
  assumes "load_records identity script rest (st_canonical_tokens current) (sn_sequence (st_header current)) valid current =
    Inr (s, n, script')"
  shows "load_from identity rest valid current = Inr (s, n)"
  using assms
proof (induction "length rest" arbitrary: script rest valid current rule: less_induct)
  case less
  obtain t r where rd: "read_record identity script rest (st_canonical_tokens current) (sn_sequence (st_header current)) =
      Inr (t, r)"
    using less.prems by (auto simp: load_records.simps [of identity script rest] split: sum.splits)
  note parse = read_record_parse [OF rd]
  show ?case
  proof (cases r)
    case None
    then show ?thesis
      using less.prems rd parse by (simp add: load_records.simps [of identity script rest] load_from_step [of identity rest])
  next
    case (Some cr)
    obtain cand rest' where cr: "cr = (cand, rest')" by (cases cr)
    have lt: "length rest' < length rest"
      using read_record_shrinks rd Some cr by blast
    have "load_records identity t rest' (st_canonical_tokens cand) (sn_sequence (st_header cand))
        (valid + 176 + unat (sn_payload_bytes (st_header cand))) cand = Inr (s, n, script')"
      using less.prems rd Some cr by (simp add: load_records.simps [of identity script rest])
    from less.hyps [OF lt this] show ?thesis
      using parse Some cr by (simp add: load_from_step [of identity rest])
  qed
qed

lemma sys_call_wp: "wp (sys_call m) (\<lambda>_ j'. \<exists>cs. j' = j\<lparr>jn_calls := cs\<rparr>) (\<lambda>_ j'. \<exists>cs. j' = j\<lparr>jn_calls := cs\<rparr>) j"
  by (cases "jn_calls j") (auto simp: sys_call_def wp_def intro: exI [of _ "[]"] exI [of _ "jn_calls j"])

lemma content_start [simp]: "content (s\<lparr>st_header := (st_header s)\<lparr>sn_token_start := k\<rparr>\<rparr>) = content s"
  by (simp add: content_def)

lemma content_cut [simp]: "content (s\<lparr>st_header := (st_header s)\<lparr>sn_token_start := a, sn_token_count := b,
    sn_payload_bytes := c\<rparr>\<rparr>) = content s"
  by (simp add: content_def)

text \<open>What loading leaves: the complete records and their state.\<close>

definition loaded :: "snapshot_journal \<Rightarrow> snapshot_journal \<Rightarrow> bool" where
  "loaded j j' \<longleftrightarrow> jn_path j' = jn_path j \<and> jn_identity j' = jn_identity j \<and>
     (case jn_disk j of None \<Rightarrow> jn_disk j' = None \<and> jn_current j' = jn_current j
      | Some file \<Rightarrow> \<exists>s n. load_from (jn_identity j) file 0 (jn_current j) = Inr (s, n) \<and>
          content (jn_current j') = content s \<and> jn_disk j' = Some (take n file))"

lemma journal_load_wp:
  assumes "jn_current j = empty_snapshot"
  shows "wp journal_load (\<lambda>_ j'. loaded j j') (\<lambda>_ _. True) j"
proof (cases "jn_disk j")
  case None
  then show ?thesis by (simp add: journal_load_def wp_simps loaded_def)
next
  case (Some bytes)
  have e: "st_canonical_tokens empty_snapshot = []" "sn_sequence (st_header empty_snapshot) = 0"
    by (simp_all add: empty_snapshot_def empty_snapshot_header_def)
  have tail: "wp (thenM (modifyM (\<lambda>j. j\<lparr>jn_io := script, jn_current :=
                  (if sn_sequence (st_header s) \<noteq> 0
                   then s\<lparr>st_header := (st_header s)\<lparr>sn_token_start := 0\<rparr>\<rparr> else s)\<rparr>))
        (thenM (sys_call ''measure snapshot journal'')
        (whenM (\<lambda>_. length bytes > n)
           (thenM (sys_call ''truncate partial snapshot tail'')
                  (modifyM (\<lambda>j. j\<lparr>jn_disk := Some (take n bytes)\<rparr>))))))
      (\<lambda>_ j'. loaded j j') (\<lambda>_ _. True) k"
    if ld: "load_from (jn_identity j) bytes 0 (jn_current j) = Inr (s, n)" and k: "\<exists>cs. k = j\<lparr>jn_calls := cs\<rparr>"
    for s n script k
    unfolding wp_thenM [of "modifyM _"] wp_modifyM
  proof (rule wp_thenI [OF sys_call_wp], unfold wp_whenM, clarify, goal_cases)
    case (1 _ j1 cs)
    show ?case
    proof (cases "n < length bytes")
      case True
      show ?thesis
        unfolding if_P [OF True]
        by (rule wp_thenI [OF sys_call_wp]) (use k ld Some in \<open>auto simp: wp_simps loaded_def\<close>)
    next
      case False
      then show ?thesis using k ld Some by (auto simp: loaded_def)
    qed
  qed simp
  show ?thesis
    unfolding journal_load_def wp_bindM [of "getM _"] wp_getM Some option.case
  proof (rule wp_thenI [OF sys_call_wp], unfold wp_bindM [of "liftE _"] wp_liftE, goal_cases)
    case (1 _ k)
    then obtain cs where k: "k = j\<lparr>jn_calls := cs\<rparr>" by blast
    show ?case
    proof (cases "load_records (jn_identity k) (jn_io k) bytes [] 0 0 (jn_current k)")
      case (Inl err)
      then show ?thesis by simp
    next
      case (Inr r)
      obtain s n script where r: "r = (s, n, script)" by (cases r)
      have "load_from (jn_identity j) bytes 0 (jn_current j) = Inr (s, n)"
        by (rule load_records_returns [of _ "jn_io k"]) (use Inr r k assms e in simp)
      then show ?thesis unfolding Inr r sum.case prod.case by (rule tail) (use k in blast)
    qed
  qed simp
qed

lemma loaded_ok:
  assumes l: "loaded j j'" and e: "jn_current j = empty_snapshot" and p: "jn_path j \<noteq> []"
    "validate_session_identity (jn_identity j) = Inr ()"
  shows "journal_ok (j'\<lparr>jn_calls := cs, jn_disk := Some (case jn_disk j' of None \<Rightarrow> [] | Some bytes \<Rightarrow> bytes)\<rparr>)"
proof (cases "jn_disk j")
  case None
  then show ?thesis using l e p by (simp add: journal_ok_def loaded_def)
next
  case (Some bytes)
  then obtain s n where s: "load_from (jn_identity j) bytes 0 empty_snapshot = Inr (s, n)"
    "content (jn_current j') = content s" "jn_disk j' = Some (take n bytes)" "jn_identity j' = jn_identity j"
    "jn_path j' = jn_path j"
    using l e by (auto simp: loaded_def)
  obtain k where "n = 0 + k" "k \<le> length bytes"
    and "\<forall>ys. load_from (jn_identity j) (take k bytes @ ys) 0 empty_snapshot = load_from (jn_identity j) ys n s"
    using load_from_consumed [OF s(1)] by blast
  from this(1,2) this(3) [rule_format, of "[]"]
  have "n \<le> length bytes" "load_from (jn_identity j) (take n bytes) 0 empty_snapshot = Inr (s, n)" by simp_all
  then show ?thesis using s p by (simp add: journal_ok_def)
qed

lemma new_journal_ok:
  assumes "new_journal path identity disk io calls = (Inr (), j)"
  shows "journal_ok j"
proof -
  let ?j = "\<lparr>jn_path = path, jn_identity = identity, jn_current = empty_snapshot, jn_disk = disk, jn_io = io, jn_calls = calls\<rparr>"
  have "wp open_journal (\<lambda>_ j. journal_ok j) (\<lambda>_ _. True) ?j"
  proof (cases "path = [] \<or> isl (validate_session_identity identity)")
    case True
    then show ?thesis by (auto simp: open_journal_def wp_thenM wp_failIf)
  next
    case False
    then have v: "validate_session_identity identity = Inr ()" "path \<noteq> []"
      by (cases "validate_session_identity identity"; simp)+
    have "wp (thenM journal_load (thenM (sys_call ''open snapshot journal for append'')
        (modifyM (\<lambda>j. j\<lparr>jn_disk := Some (case jn_disk j of None \<Rightarrow> [] | Some file \<Rightarrow> file)\<rparr>))))
      (\<lambda>_ j. journal_ok j) (\<lambda>_ _. True) ?j"
    proof (rule wp_thenI [OF journal_load_wp], simp, rule wp_thenI [OF sys_call_wp], clarify, goal_cases)
      case (1 _ j1 _ j2 cs)
      from loaded_ok [OF 1, of cs] v show ?case by (simp add: wp_modifyM)
    qed simp_all
    then show ?thesis using False by (simp add: open_journal_def wp_thenM [of "failIf _ _"] wp_failIf)
  qed
  then show ?thesis using assms by (simp add: new_journal_def wp_def)
qed

lemma write_all_prefix:
  assumes "write_all script data bytes = (r, bytes', script')"
  shows "\<exists>k \<le> length data. bytes' = bytes @ take k data \<and> (r = Inr () \<longleftrightarrow> k = length data)"
  using assms
proof (induction script arbitrary: data bytes)
  case Nil
  then show ?case by (cases data) auto
next
  case (Cons event script)
  show ?case
  proof (cases data)
    case Nil
    then show ?thesis using Cons.prems by simp
  next
    case (Cons b bs)
    show ?thesis
    proof (cases event)
      case (IoCount n)
      let ?c = "min n (length data)"
      show ?thesis
      proof (cases "?c = 0")
        case True
        then show ?thesis using Cons.prems IoCount \<open>data = b # bs\<close> by (auto simp: Let_def)
      next
        case False
        have E: "write_all (event # script) data bytes =
            (if ?c = 0 then (Inl (RuntimeError ''snapshot journal write made no progress''), bytes, script)
             else write_all script (drop ?c data) (bytes @ take ?c data))"
          by (simp only: \<open>data = b # bs\<close> IoCount write_all.simps io_event.case Let_def)
        have "write_all script (drop ?c data) (bytes @ take ?c data) = (r, bytes', script')"
          using trans [OF E [symmetric] Cons.prems] unfolding if_not_P [OF False] .
        from Cons.IH [OF this] obtain k where k: "k \<le> length (drop ?c data)"
          "bytes' = (bytes @ take ?c data) @ take k (drop ?c data)" "r = Inr () \<longleftrightarrow> k = length (drop ?c data)"
          by blast
        then show ?thesis by (intro exI [of _ "?c + k"]) (auto simp: take_add)
      qed
    next
      case IoInterrupted
      then show ?thesis using Cons.IH [of data bytes] Cons.prems \<open>data = b # bs\<close> by simp
    next
      case IoFailed
      then show ?thesis using Cons.prems \<open>data = b # bs\<close> by (auto intro: exI [of _ 0])
    qed
  qed
qed

lemma journal_write_wp:
  assumes "jn_disk j = Some bytes"
  shows "wp (journal_write data)
    (\<lambda>_ j'. \<exists>io. j' = j\<lparr>jn_disk := Some (bytes @ data), jn_io := io\<rparr>)
    (\<lambda>_ j'. \<exists>k io. k < length data \<and> j' = j\<lparr>jn_disk := Some (bytes @ take k data), jn_io := io\<rparr>) j"
proof -
  obtain r bytes' io where w: "write_all (jn_io j) data bytes = (r, bytes', io)"
    using prod_cases3 by blast
  from write_all_prefix [OF w] obtain k where "k \<le> length data" "bytes' = bytes @ take k data"
    "r = Inr () \<longleftrightarrow> k = length data" by blast
  then show ?thesis using w assms by (cases r) (auto simp: journal_write_def wp_def le_less)
qed

text \<open>An append writes its record, or a torn prefix of it.\<close>

definition partly_appended :: "snapshot_journal \<Rightarrow> u8 list \<Rightarrow> nat \<Rightarrow> snapshot_journal \<Rightarrow> bool" where
  "partly_appended j r k j' \<longleftrightarrow> jn_path j' = jn_path j \<and> jn_identity j' = jn_identity j \<and> k \<le> length r \<and>
     (\<exists>bytes. jn_disk j = Some bytes \<and> jn_disk j' = Some (bytes @ take k r))"

lemma journal_append_wp:
  assumes d: "jn_disk j = Some bytes" and st: "stamp_snapshot (jn_identity j) (jn_current j) now snapshot = (t, suffix)"
  shows "wp (journal_append now snapshot)
    (\<lambda>_ j'. validate_state_snapshot t (jn_identity j) = Inr () \<and> content (jn_current j') = content t \<and>
       partly_appended j (record_image (t, suffix)) (length (record_image (t, suffix))) j')
    (\<lambda>_ j'. jn_current j' = jn_current j \<and>
       (j' = j \<or> validate_state_snapshot t (jn_identity j) = Inr () \<and>
         (\<exists>k. partly_appended j (record_image (t, suffix)) k j'))) j"
proof (cases "validate_state_snapshot t (jn_identity j)")
  case (Inl err)
  then show ?thesis
    unfolding journal_append_def wp_bindM [of "getM _"] wp_getM st prod.case by (simp add: wp_thenM wp_liftE)
next
  case (Inr u)
  let ?h = "header_image (st_header t)" and ?b = "tokens_image suffix"
  let ?E = "\<lambda>_ j'. jn_current j' = jn_current j \<and> (\<exists>k. partly_appended j (record_image (t, suffix)) k j')"
  let ?Q = "\<lambda>_ j'. content (jn_current j') = content t \<and>
       partly_appended j (record_image (t, suffix)) (length (record_image (t, suffix))) j'"
  have tail: "wp (thenM (sys_call ''sync snapshot journal'')
           (modifyM (\<lambda>j. j\<lparr>jn_current := t\<lparr>st_header := (st_header t)\<lparr>
              sn_token_start := 0,
              sn_token_count := word_of_nat (length (st_canonical_tokens t)),
              sn_payload_bytes := word_of_nat (length (st_canonical_tokens t)) * 4\<rparr>\<rparr>\<rparr>))) ?Q ?E j1"
    if j1: "\<exists>io. j1 = j\<lparr>jn_disk := Some (bytes @ ?h @ ?b), jn_io := io\<rparr>" for j1
  proof (rule wp_thenI [OF sys_call_wp], goal_cases)
    case (1 _ k)
    then show ?case using j1 d by (auto simp: wp_modifyM partly_appended_def record_image_def)
  next
    case (2 _ k)
    then show ?case using j1 d
      by (auto simp: partly_appended_def record_image_def intro!: exI [of _ "length (?h @ ?b)"])
  qed
  have body: "wp (thenM (if suffix \<noteq> [] then journal_write ?b else returnM ()) (thenM (sys_call ''sync snapshot journal'')
           (modifyM (\<lambda>j. j\<lparr>jn_current := t\<lparr>st_header := (st_header t)\<lparr>
              sn_token_start := 0,
              sn_token_count := word_of_nat (length (st_canonical_tokens t)),
              sn_payload_bytes := word_of_nat (length (st_canonical_tokens t)) * 4\<rparr>\<rparr>\<rparr>)))) ?Q ?E j1"
    if j1: "\<exists>io. j1 = j\<lparr>jn_disk := Some (bytes @ ?h), jn_io := io\<rparr>" for j1
  proof (cases "suffix = []")
    case True
    then show ?thesis using tail [of j1] j1 by (simp add: wp_thenM wp_returnM tokens_image_def)
  next
    case False
    have dj: "jn_disk j1 = Some (bytes @ ?h)" using j1 by auto
    have "wp (thenM (journal_write ?b) (thenM (sys_call ''sync snapshot journal'')
           (modifyM (\<lambda>j. j\<lparr>jn_current := t\<lparr>st_header := (st_header t)\<lparr>
              sn_token_start := 0,
              sn_token_count := word_of_nat (length (st_canonical_tokens t)),
              sn_payload_bytes := word_of_nat (length (st_canonical_tokens t)) * 4\<rparr>\<rparr>\<rparr>)))) ?Q ?E j1"
    proof (rule wp_thenI [OF journal_write_wp [OF dj]], goal_cases)
      case (1 _ j2)
      then show ?case using j1 by (intro tail) auto
    next
      case (2 _ j2)
      then obtain k io where k: "k < length ?b" "j2 = j1\<lparr>jn_disk := Some ((bytes @ ?h) @ take k ?b), jn_io := io\<rparr>" by blast
      have "take (176 + k) (?h @ ?b) = ?h @ take k ?b" by simp
      then show ?case using k j1 d
        by (auto simp: partly_appended_def record_image_def intro!: exI [of _ "176 + k"])
    qed
    then show ?thesis using False by simp
  qed
  have "wp (thenM (journal_write ?h) (thenM (if suffix \<noteq> [] then journal_write ?b else returnM ())
         (thenM (sys_call ''sync snapshot journal'')
           (modifyM (\<lambda>j. j\<lparr>jn_current := t\<lparr>st_header := (st_header t)\<lparr>
              sn_token_start := 0,
              sn_token_count := word_of_nat (length (st_canonical_tokens t)),
              sn_payload_bytes := word_of_nat (length (st_canonical_tokens t)) * 4\<rparr>\<rparr>\<rparr>))))) ?Q ?E j"
  proof (rule wp_thenI [OF journal_write_wp [OF d]], goal_cases)
    case (1 _ j1)
    then show ?case by (rule body)
  next
    case (2 _ j1)
    then obtain k io where k: "k < length ?h" "j1 = j\<lparr>jn_disk := Some (bytes @ take k ?h), jn_io := io\<rparr>" by blast
    have "take k (?h @ ?b) = take k ?h" using k(1) by simp
    then show ?case using k d by (auto simp: partly_appended_def record_image_def intro!: exI [of _ k])
  qed
  then show ?thesis
    unfolding journal_append_def wp_bindM [of "getM _"] wp_getM st prod.case
    using Inr by (auto simp: wp_thenM [of "liftE _"] wp_liftE elim!: wp_mono)
qed

text \<open>Journals that were opened and appended to; system calls may fail in between.\<close>

inductive journal_reachable :: "snapshot_journal \<Rightarrow> bool" where
  opened: "new_journal path identity disk io calls = (Inr (), j) \<Longrightarrow> journal_reachable j"
| appended: "journal_reachable j \<Longrightarrow> journal_append now snapshot j = (Inr (), j') \<Longrightarrow>
    length (st_canonical_tokens snapshot) < 2 ^ 64 \<Longrightarrow> journal_reachable j'"
| environment: "journal_reachable j \<Longrightarrow> journal_reachable (j\<lparr>jn_io := io, jn_calls := calls\<rparr>)"

lemma partly_appended_load:
  assumes ok: "journal_ok j" and st: "stamp_snapshot (jn_identity j) (jn_current j) now snapshot = (t, suffix)"
    and v: "validate_state_snapshot t (jn_identity j) = Inr ()" and len: "length (st_canonical_tokens snapshot) < 2 ^ 64"
    and p: "partly_appended j (record_image (t, suffix)) k j'"
  shows "\<exists>bytes s. jn_disk j = Some bytes \<and> jn_disk j' = Some (bytes @ take k (record_image (t, suffix))) \<and>
    content s = content (jn_current j) \<and>
    load_from (jn_identity j) (bytes @ take k (record_image (t, suffix))) 0 empty_snapshot =
      Inr (if k = length (record_image (t, suffix)) then (t, length bytes + k) else (s, length bytes))"
proof -
  obtain bytes s where b: "jn_disk j = Some bytes"
    "load_from (jn_identity j) bytes 0 empty_snapshot = Inr (s, length bytes)" "content s = content (jn_current j)"
    using ok by (auto simp: journal_ok_def)
  have st': "stamp_snapshot (jn_identity j) s now snapshot = (t, suffix)" using stamp_content [OF b(3)] st by simp
  have k: "k \<le> length (record_image (t, suffix))" and d: "jn_disk j' = Some (bytes @ take k (record_image (t, suffix)))"
    using p b(1) by (auto simp: partly_appended_def)
  show ?thesis
    using b d load_after [OF b(2)] load_record [OF st' v len k] by auto
qed

lemma reachable_journal_ok: "journal_reachable j \<Longrightarrow> journal_ok j"
proof (induction rule: journal_reachable.induct)
  case (opened path identity disk io calls j)
  then show ?case by (rule new_journal_ok)
next
  case (appended j now snapshot j')
  obtain bytes where b: "jn_disk j = Some bytes" using appended.IH by (auto simp: journal_ok_def)
  obtain t suffix where st: "stamp_snapshot (jn_identity j) (jn_current j) now snapshot = (t, suffix)"
    by (metis prod.exhaust)
  have w: "validate_state_snapshot t (jn_identity j) = Inr ()" "content (jn_current j') = content t"
    "partly_appended j (record_image (t, suffix)) (length (record_image (t, suffix))) j'"
    using wp_returns [OF journal_append_wp [OF b st] appended.hyps(2)] by simp_all
  from partly_appended_load [OF appended.IH st w(1) appended.hyps(3) w(3)] w appended.IH show ?case
    by (auto simp: journal_ok_def partly_appended_def)
next
  case (environment j io calls)
  then show ?case by (simp add: journal_ok_def)
qed

text \<open>Opening a file that loads.\<close>

lemma reopen:
  assumes ld: "load_from identity bytes 0 empty_snapshot = Inr (s, n)" and io: "IoFailed \<notin> set io"
    and p: "path \<noteq> []" "validate_session_identity identity = Inr ()"
  shows "fst (new_journal path identity (Some bytes) io []) = Inr ()"
    "content (jn_current (snd (new_journal path identity (Some bytes) io []))) = content s"
    "jn_disk (snd (new_journal path identity (Some bytes) io [])) = Some (take n bytes)"
proof -
  have e: "st_canonical_tokens empty_snapshot = []" "sn_sequence (st_header empty_snapshot) = 0"
    by (simp_all add: empty_snapshot_def empty_snapshot_header_def)
  obtain io' where l: "load_records identity io bytes [] 0 0 empty_snapshot = Inr (s, n, io')"
    using load_records_quiet [OF io e(1) [symmetric] e(2) [symmetric], of identity bytes 0] ld by auto
  show "fst (new_journal path identity (Some bytes) io []) = Inr ()"
    "content (jn_current (snd (new_journal path identity (Some bytes) io []))) = content s"
    "jn_disk (snd (new_journal path identity (Some bytes) io [])) = Some (take n bytes)"
    using p l by (auto simp: new_journal_def open_journal_def journal_load_def sys_call_def run_simps)
qed

lemma reopen_error:
  assumes ld: "load_from identity bytes 0 empty_snapshot = Inl e"
    and p: "path \<noteq> []" "validate_session_identity identity = Inr ()"
  shows "fst (new_journal path identity (Some bytes) [] []) = Inl e"
proof -
  have s: "st_canonical_tokens empty_snapshot = []" "sn_sequence (st_header empty_snapshot) = 0"
    by (simp_all add: empty_snapshot_def empty_snapshot_header_def)
  have "load_records identity [] bytes [] 0 0 empty_snapshot = Inl e"
    using load_records_quiet [of "[]", OF _ s(1) [symmetric] s(2) [symmetric], of identity bytes 0] ld by auto
  then show ?thesis
    using p by (simp add: new_journal_def open_journal_def journal_load_def sys_call_def run_simps)
qed

lemma validate_content: "content s = content t \<Longrightarrow> validate_state_snapshot s identity = validate_state_snapshot t identity"
proof -
  assume c: "content s = content t"
  have h: "(st_header s)\<lparr>sn_token_start := 0, sn_token_count := 0, sn_payload_bytes := 0\<rparr> =
      (st_header t)\<lparr>sn_token_start := 0, sn_token_count := 0, sn_payload_bytes := 0\<rparr>"
    using c by (simp add: content_def)
  have v: "validate_state_snapshot s identity = validate_state_snapshot
      (s\<lparr>st_header := (st_header s)\<lparr>sn_token_start := 0, sn_token_count := 0, sn_payload_bytes := 0\<rparr>\<rparr>) identity" for s
    by (simp add: validate_state_snapshot_def Let_def)
  show ?thesis
    unfolding v [of s] v [of t] h
    by (rule arg_cong [of _ _ "\<lambda>u. validate_state_snapshot u identity"], rule StateSnapshot.equality)
       (use contentD(1) [OF c] in simp_all)
qed

lemma load_from_valid:
  assumes "load_from identity bytes valid current = Inr (s, n)"
  shows "s = current \<or> validate_state_snapshot s identity = Inr ()"
  using assms
proof (induction "length bytes" arbitrary: bytes valid current rule: less_induct)
  case less
  show ?case
  proof (cases "parse_record identity bytes (st_canonical_tokens current) (sn_sequence (st_header current))")
    case (Inl e)
    then show ?thesis using less.prems by (simp add: load_from_step [of identity bytes])
  next
    case (Inr r)
    show ?thesis
    proof (cases r)
      case None
      then show ?thesis using less.prems Inr by (simp add: load_from_step [of identity bytes])
    next
      case (Some cr)
      obtain cand rest where cr: "cr = (cand, rest)" by (cases cr)
      note f = parse_record_Some [OF Inr [unfolded Some cr]]
      have lt: "length rest < length bytes" using f(1,2)
        by (metis add_gr_0 length_append length_take less_add_same_cancel2 min.absorb2 zero_less_numeral)
      have "load_from identity rest (valid + 176 + unat (sn_payload_bytes (st_header cand))) cand = Inr (s, n)"
        using less.prems Inr Some cr by (simp add: load_from_step [of identity bytes])
      from less.hyps [OF lt this] f(3) show ?thesis by auto
    qed
  qed
qed

text \<open>A journal and a snapshot that can be appended to it.\<close>

definition demo_identity :: SessionIdentity where
  "demo_identity = make_development_identity [0, 0, 0, 0] 7 64 default_sampling"

lemma demo_identity_valid: "validate_session_identity demo_identity = Inr ()"
  unfolding demo_identity_def by (rule make_development_identity_valid) simp_all

lemma demo_journal: "new_journal ''j'' demo_identity None [] [] = (Inr (), \<lparr> jn_path = ''j'', jn_identity = demo_identity,
    jn_current = empty_snapshot, jn_disk = Some [], jn_io = [], jn_calls = [] \<rparr>)"
  by (simp add: new_journal_def open_journal_def journal_load_def sys_call_def run_simps demo_identity_valid)

lemma empty_snapshot_stamps:
  assumes "sn_sequence (st_header c) \<noteq> u64_max" "stamp_snapshot identity c now empty_snapshot = (t, suffix)"
  shows "validate_state_snapshot t identity = Inr ()"
proof -
  have seq: "sn_sequence (st_header c) + 1 \<noteq> 0" using assms(1) by (simp add: add_eq_0_iff2)
  have h: "st_canonical_tokens t = []" "sn_magic (st_header t) = kStateSnapshotMagic"
    "sn_version (st_header t) = kContractVersion" "sn_header_bytes (st_header t) = 176"
    "sn_identity_checksum (st_header t) = si_identity_checksum identity"
    "sn_sequence (st_header t) = sn_sequence (st_header c) + 1" "sn_canonical_token_count (st_header t) = 0"
    "sn_frontiers (st_header t) = empty_frontiers" "sn_flags (st_header t) = 1"
    "sn_canonical_checksum (st_header t) = canonical_token_checksum []"
    "sn_sampler (st_header t) = empty_sampler_state"
    using assms(2) by (auto simp: stamp_snapshot_def Let_def empty_snapshot_def empty_snapshot_header_def
        kSnapshotColdRebuild_def)
  have f: "validate_frontiers empty_frontiers = Inr ()" "fr_canonical empty_frontiers = 0" "fr_target empty_frontiers = 0"
    by (simp_all add: validate_frontiers_def empty_frontiers_def)
  show ?thesis
    unfolding validate_state_snapshot_def Let_def h f
    using seq by (simp add: kSnapshotColdRebuild_def kSnapshotHasLastSample_def empty_sampler_state_def)
qed

lemma write_all_quiet: "write_all [] data bytes = (Inr (), bytes @ data, [])"
  by (cases data) simp_all

lemma journal_append_quiet:
  assumes "jn_io j = []" "jn_calls j = []"
    and "stamp_snapshot (jn_identity j) (jn_current j) now snapshot = (t, suffix)"
    and "validate_state_snapshot t (jn_identity j) = Inr ()"
  shows "fst (journal_append now snapshot j) = Inr ()"
  using assms by (simp add: journal_append_def journal_write_def write_all_quiet run_simps sys_call_def)

text \<open>The first bytes of a record, and what a stray byte before it does.\<close>

lemma header_image_magic:
  assumes "sn_magic h = kStateSnapshotMagic"
  shows "take 4 (header_image h) = [0x51, 0x33, 0x38, 0x4E]"
proof -
  have "le_bytes 4 (ucast kStateSnapshotMagic) = [0x51, 0x33, 0x38, 0x4E]" by code_simp
  then show ?thesis using assms by (simp add: header_image_def)
qed

lemma shifted_record_corrupt:
  assumes "take 3 r = [0x51, 0x33, 0x38]" "176 \<le> length r"
  shows "load_from identity (0x51 # r) n s = Inl (RuntimeError ''corrupt snapshot journal header'')"
proof -
  let ?h = "header_of_image (take 176 (0x51 # r))"
  have "take 4 (take 176 (0x51 # r)) = 0x51 # take 3 r" by (simp add: take_Cons')
  then have "sn_magic ?h = ucast (le_word [0x51, 0x51, 0x33, 0x38])"
    using assms(1) by (simp add: header_of_image_def slice_def)
  also have "\<dots> \<noteq> kStateSnapshotMagic" by code_simp
  finally have bad: "\<not> journal_header_ok identity (st_canonical_tokens s) (sn_sequence (st_header s)) ?h"
    by (simp add: journal_header_ok_def)
  have "parse_record identity (0x51 # r) (st_canonical_tokens s) (sn_sequence (st_header s)) =
      Inl (RuntimeError ''corrupt snapshot journal header'')"
    unfolding parse_record_def Let_def using bad assms(2) by (simp only: list.size not_False_eq_True if_True) simp
  then show ?thesis by (simp add: load_from_step [of identity "0x51 # r"])
qed

section \<open>Properties\<close>

text \<open>
  Records survive the disk: decoding the 176-byte image of a header gives the header, and
  decoding the image of a token suffix gives the tokens.
\<close>

theorem snapshot_image_roundtrip:
  "header_of_image (header_image h) = h \<and> tokens_of_image (tokens_image ts) = ts"
  by (simp add: header_of_header_image tokens_of_tokens_image)

text \<open>
  C7: Appending to the journal is atomic. Whatever happens to an append (it succeeds, the snapshot
  is rejected, a write is short, interrupted or fails half way, the sync fails), opening the file
  afterwards succeeds and finds the old snapshot or the new one, never a mixture; after a
  successful append it finds the new one with exactly its tokens. Short and interrupted reads
  make no difference.
\<close>

theorem journal_append_atomic:
  assumes "journal_reachable j" and "length (st_canonical_tokens snapshot) < 2 ^ 64"
    and "journal_append now snapshot j = (r, j1)" and "IoFailed \<notin> set io"
  shows "case new_journal (jn_path j) (jn_identity j) (jn_disk j1) io [] of (r2, j2) \<Rightarrow>
    r2 = Inr () \<and>
    (content (jn_current j2) = content (jn_current j) \<or>
     content (jn_current j2) = content (fst (stamp_snapshot (jn_identity j) (jn_current j) now snapshot))) \<and>
    (r = Inr () \<longrightarrow> content (jn_current j2) = content (jn_current j1) \<and>
       st_canonical_tokens (jn_current j2) = st_canonical_tokens snapshot)"
proof -
  have ok: "journal_ok j" by (rule reachable_journal_ok [OF assms(1)])
  then obtain bytes s where b: "jn_disk j = Some bytes"
    and ld: "load_from (jn_identity j) bytes 0 empty_snapshot = Inr (s, length bytes)" "content s = content (jn_current j)"
    and p: "jn_path j \<noteq> []" "validate_session_identity (jn_identity j) = Inr ()"
    by (auto simp: journal_ok_def)
  obtain t suffix where st: "stamp_snapshot (jn_identity j) (jn_current j) now snapshot = (t, suffix)"
    by (metis prod.exhaust)
  let ?R = "record_image (t, suffix)"
  note w = journal_append_wp [OF b st, of]
  have torn: "fst (new_journal (jn_path j) (jn_identity j) (jn_disk j1) io []) = Inr () \<and>
      content (jn_current (snd (new_journal (jn_path j) (jn_identity j) (jn_disk j1) io []))) =
        (if k = length ?R then content t else content (jn_current j))"
    if v: "validate_state_snapshot t (jn_identity j) = Inr ()" and k: "partly_appended j ?R k j1" for k
  proof -
    obtain bytes' s' where l: "jn_disk j1 = Some (bytes' @ take k ?R)" "content s' = content (jn_current j)"
      "load_from (jn_identity j) (bytes' @ take k ?R) 0 empty_snapshot =
        Inr (if k = length ?R then (t, length bytes' + k) else (s', length bytes'))"
      using partly_appended_load [OF ok st v assms(2) k] by auto
    show ?thesis
    proof (cases "k = length ?R")
      case True
      then have "load_from (jn_identity j) (bytes' @ take k ?R) 0 empty_snapshot = Inr (t, length bytes' + k)"
        using l(3) by simp
      from reopen [OF this assms(4) p] show ?thesis using True l(1) by simp
    next
      case False
      then have "load_from (jn_identity j) (bytes' @ take k ?R) 0 empty_snapshot = Inr (s', length bytes')"
        using l(3) by simp
      from reopen [OF this assms(4) p] show ?thesis using False l(1,2) by simp
    qed
  qed
  show ?thesis
  proof (cases r)
    case (Inr u)
    then have run: "journal_append now snapshot j = (Inr (), j1)" using assms(3) by simp
    have f: "validate_state_snapshot t (jn_identity j) = Inr ()" "content (jn_current j1) = content t"
      "partly_appended j ?R (length ?R) j1"
      using wp_returns [OF w run] by simp_all
    have "st_canonical_tokens t = st_canonical_tokens snapshot" by (rule stamped_fields(1) [OF st f(1) assms(2)])
    moreover have j2: "content (jn_current (snd (new_journal (jn_path j) (jn_identity j) (jn_disk j1) io []))) = content t"
      using torn [OF f(1,3)] by simp
    ultimately show ?thesis
      using torn [OF f(1,3)] contentD(1) [OF j2] f(2) st by (simp add: split_beta)
  next
    case (Inl e)
    then have "j1 = j \<or> validate_state_snapshot t (jn_identity j) = Inr () \<and> (\<exists>k. partly_appended j ?R k j1)"
      using wp_fails [OF w, of e j1] assms(3) by simp
    then show ?thesis
    proof
      assume "j1 = j"
      then show ?thesis using reopen [OF ld(1) assms(4) p] ld(2) b Inl by (simp add: split_beta)
    next
      assume "validate_state_snapshot t (jn_identity j) = Inr () \<and> (\<exists>k. partly_appended j ?R k j1)"
      then obtain k where "validate_state_snapshot t (jn_identity j) = Inr ()" "partly_appended j ?R k j1" by blast
      from torn [OF this] st Inl show ?thesis by (simp add: split_beta split: if_splits)
    qed
  qed
qed

theorem journal_append_atomic_witness:
  "\<exists>j j1. new_journal ''j'' demo_identity None [] [] = (Inr (), j) \<and>
     j1 = snd (journal_append 5 empty_snapshot j) \<and>
     fst (new_journal ''j'' demo_identity (jn_disk j1) [IoInterrupted, IoCount 3] []) = Inr ()"
proof -
  let ?j = "\<lparr> jn_path = ''j'', jn_identity = demo_identity, jn_current = empty_snapshot, jn_disk = Some [], jn_io = [],
    jn_calls = [] \<rparr>"
  have r: "journal_reachable ?j" by (rule journal_reachable.opened [OF demo_journal])
  have "length (st_canonical_tokens empty_snapshot) < 2 ^ 64" by (simp add: empty_snapshot_def)
  from journal_append_atomic [OF r this surjective_pairing, where io = "[IoInterrupted, IoCount 3]" and now = 5] demo_journal
  show ?thesis by (auto simp: split_beta)
qed

text \<open>
  What a journal offers is valid: the latest snapshot of any journal that was opened on an
  arbitrary file and appended to satisfies the validator for the journal's identity.
\<close>

theorem journal_latest_valid:
  assumes "journal_reachable j" and "journal_latest j = (Inr s, j')"
  shows "validate_state_snapshot s (jn_identity j) = Inr ()"
proof -
  have l: "s = jn_current j" "sn_sequence (st_header (jn_current j)) \<noteq> 0"
    using assms(2) by (auto simp: journal_latest_def run_simps split: if_splits)
  obtain bytes t where t: "load_from (jn_identity j) bytes 0 empty_snapshot = Inr (t, length bytes)"
    "content t = content (jn_current j)"
    using reachable_journal_ok [OF assms(1)] by (auto simp: journal_ok_def)
  have "sn_sequence (st_header t) \<noteq> 0" using contentD(2) [OF t(2)] l by simp
  then have "t \<noteq> empty_snapshot" by (auto simp: empty_snapshot_def empty_snapshot_header_def)
  then show ?thesis using load_from_valid [OF t(1)] validate_content [OF t(2)] l(1) by simp
qed

theorem journal_latest_valid_witness:
  "\<exists>j s j'. journal_latest j = (Inr s, j') \<and> jn_identity j = demo_identity \<and>
     validate_state_snapshot s demo_identity = Inr ()"
proof -
  let ?j = "\<lparr> jn_path = ''j'', jn_identity = demo_identity, jn_current = empty_snapshot, jn_disk = Some [], jn_io = [],
    jn_calls = [] \<rparr>"
  have r: "journal_reachable ?j" by (rule journal_reachable.opened [OF demo_journal])
  obtain t suffix where st: "stamp_snapshot demo_identity empty_snapshot 5 empty_snapshot = (t, suffix)"
    by (metis prod.exhaust)
  have v: "validate_state_snapshot t demo_identity = Inr ()"
    by (rule empty_snapshot_stamps [OF _ st]) (simp add: empty_snapshot_def empty_snapshot_header_def)
  have "fst (journal_append 5 empty_snapshot ?j) = Inr ()"
    by (rule journal_append_quiet) (use st v in simp_all)
  then obtain j1 where run: "journal_append 5 empty_snapshot ?j = (Inr (), j1)"
    by (metis prod.collapse)
  have r1: "journal_reachable j1"
    by (rule journal_reachable.appended [OF r run]) (simp add: empty_snapshot_def)
  have d: "jn_disk ?j = Some []" by simp
  have st': "stamp_snapshot (jn_identity ?j) (jn_current ?j) 5 empty_snapshot = (t, suffix)" using st by simp
  from wp_returns [OF journal_append_wp [OF d st'] run]
  have c: "content (jn_current j1) = content t" "jn_identity j1 = demo_identity"
    by (simp_all add: partly_appended_def)
  have "sn_sequence (st_header (jn_current j1)) \<noteq> 0"
    using contentD(2) [OF c(1)] validate_extent(1) [OF v] by simp
  then have "journal_latest j1 = (Inr (jn_current j1), j1)" by (simp add: journal_latest_def run_simps)
  from journal_latest_valid [OF r1 this] this c(2) show ?thesis by metis
qed

text \<open>
  The journal does not recover from a failed write by itself. If a write stops after one byte and
  the caller, having seen the error, appends again on the same journal, the second append
  succeeds but the file can never be opened again: loading reports a corrupt header, so that
  snapshot and every later one are lost.
\<close>

theorem journal_append_after_error:
  assumes "journal_reachable j" and "jn_io j = [IoCount 1, IoFailed]"
    and "validate_state_snapshot (fst (stamp_snapshot (jn_identity j) (jn_current j) now snapshot)) (jn_identity j) = Inr ()"
    and "journal_append now snapshot j = (r, j1)" and "journal_append now' snapshot' j1 = (Inr (), j2)"
  shows "r = Inl (SystemError ''write snapshot journal'') \<and>
    fst (new_journal (jn_path j) (jn_identity j) (jn_disk j2) [] []) =
      Inl (RuntimeError ''corrupt snapshot journal header'')"
proof -
  obtain bytes s where b: "jn_disk j = Some bytes"
    and ld: "load_from (jn_identity j) bytes 0 empty_snapshot = Inr (s, length bytes)" "content s = content (jn_current j)"
    and p: "jn_path j \<noteq> []" "validate_session_identity (jn_identity j) = Inr ()"
    using reachable_journal_ok [OF assms(1)] by (auto simp: journal_ok_def)
  obtain t suffix where st: "stamp_snapshot (jn_identity j) (jn_current j) now snapshot = (t, suffix)"
    by (metis prod.exhaust)
  have v: "validate_state_snapshot t (jn_identity j) = Inr ()" using assms(3) st by simp
  have hd4: "take 4 (header_image (st_header t)) = [0x51, 0x33, 0x38, 0x4E]"
    by (rule header_image_magic [OF validate_extent(4) [OF v]])
  obtain hs where hs: "header_image (st_header t) = 0x51 # hs"
    using hd4 by (cases "header_image (st_header t)") auto
  have lhs: "hs \<noteq> []" using hs length_header_image [of "st_header t"] by auto
  have "journal_append now snapshot j = (Inl (SystemError ''write snapshot journal''),
      j\<lparr>jn_disk := Some (bytes @ [0x51]), jn_io := []\<rparr>)"
    using lhs st v b assms(2) by (cases hs) (simp_all add: journal_append_def journal_write_def run_simps hs Let_def)
  then have j1: "r = Inl (SystemError ''write snapshot journal'')" "j1 = j\<lparr>jn_disk := Some (bytes @ [0x51]), jn_io := []\<rparr>"
    using assms(4) by simp_all
  obtain t' suffix' where st': "stamp_snapshot (jn_identity j1) (jn_current j1) now' snapshot' = (t', suffix')"
    by (metis prod.exhaust)
  have d1: "jn_disk j1 = Some (bytes @ [0x51])" using j1 by simp
  from wp_returns [OF journal_append_wp [OF d1 st'] assms(5)]
  have v': "validate_state_snapshot t' (jn_identity j1) = Inr ()"
    and d2: "jn_disk j2 = Some ((bytes @ [0x51]) @ record_image (t', suffix'))"
    using d1 by (auto simp: partly_appended_def)
  have "take 4 (header_image (st_header t')) = [0x51, 0x33, 0x38, 0x4E]"
    by (rule header_image_magic [OF validate_extent(4) [OF v']])
  then have "take 3 (take 4 (header_image (st_header t'))) = [0x51, 0x33, 0x38]" by simp
  then have t3: "take 3 (record_image (t', suffix')) = [0x51, 0x33, 0x38]" by (simp add: record_image_def)
  have "load_from (jn_identity j) (bytes @ (0x51 # record_image (t', suffix'))) 0 empty_snapshot =
      Inl (RuntimeError ''corrupt snapshot journal header'')"
    unfolding load_after [OF ld(1)] by (rule shifted_record_corrupt [OF t3]) (simp add: record_image_def)
  from reopen_error [OF this p] j1(1) d2 show ?thesis by simp
qed

theorem journal_append_after_error_witness:
  "\<exists>j j1 j2. journal_append 5 empty_snapshot j = (Inl (SystemError ''write snapshot journal''), j1) \<and>
     journal_append 6 empty_snapshot j1 = (Inr (), j2) \<and>
     fst (new_journal ''j'' demo_identity (jn_disk j2) [] []) = Inl (RuntimeError ''corrupt snapshot journal header'')"
proof -
  let ?j0 = "\<lparr> jn_path = ''j'', jn_identity = demo_identity, jn_current = empty_snapshot, jn_disk = Some [], jn_io = [],
    jn_calls = [] \<rparr>"
  let ?j = "?j0\<lparr>jn_io := [IoCount 1, IoFailed], jn_calls := []\<rparr>"
  have r: "journal_reachable ?j"
    by (rule journal_reachable.environment [OF journal_reachable.opened [OF demo_journal]])
  have seq: "sn_sequence (st_header empty_snapshot) \<noteq> u64_max"
    by (simp add: empty_snapshot_def empty_snapshot_header_def)
  have v: "validate_state_snapshot (fst (stamp_snapshot demo_identity empty_snapshot n empty_snapshot)) demo_identity = Inr ()" for n
    by (rule empty_snapshot_stamps [OF seq surjective_pairing])
  obtain r1 j1 where run1: "journal_append 5 empty_snapshot ?j = (r1, j1)" by (metis prod.exhaust)
  have lh: "header_image h \<noteq> [] \<and> tl (header_image h) \<noteq> []" for h
    using length_header_image [of h] by (cases "header_image h") auto
  obtain b b' bs where hs: "header_image (st_header (fst (stamp_snapshot demo_identity empty_snapshot 5 empty_snapshot))) = b # b' # bs"
    using lh by (metis list.collapse)
  have "jn_current j1 = empty_snapshot" "jn_identity j1 = demo_identity" "jn_io j1 = []" "jn_calls j1 = []"
    using run1 v [of 5] hs
    by (auto simp: journal_append_def journal_write_def run_simps split_beta Let_def)
  then have "fst (journal_append 6 empty_snapshot j1) = Inr ()"
    using v [of 6] by (intro journal_append_quiet [where t = "fst (stamp_snapshot demo_identity empty_snapshot 6 empty_snapshot)"
        and suffix = "snd (stamp_snapshot demo_identity empty_snapshot 6 empty_snapshot)"]) simp_all
  then obtain j2 where run2: "journal_append 6 empty_snapshot j1 = (Inr (), j2)" by (metis prod.collapse)
  from journal_append_after_error [OF r _ _ run1 run2] v [of 5] run1 run2 show ?thesis by auto
qed

end
