(* ===== verification/Recovery.thy ===== *)
theory Recovery
  imports ExecutorRuns Snapshot
begin

text \<open>
  Where the executor meets the journal: \<open>DualStageExecutor::snapshot\<close> and the guarantee that what
  it returns between requests is a snapshot the journal accepts.
\<close>

definition executor_snapshot :: "('b0, 'b1) executor \<Rightarrow> exn + StateSnapshot" where
  "executor_snapshot x =
     (if eng_active (ex_engine x) then Inl (LogicError ''cannot snapshot an active transaction'')
      else Inr \<lparr> st_header = empty_snapshot_header\<lparr>
          sn_identity_checksum := si_identity_checksum (eo_identity (ex_options x)),
          sn_frontiers := eng_frontiers (ex_engine x),
          sn_sampler := sa_state (ex_sampler x),
          sn_canonical_token_count := word_of_nat (length (ex_tokens x)),
          sn_canonical_checksum := canonical_token_checksum (ex_tokens x),
          sn_last_sample := ex_last_sample x,
          sn_flags := kSnapshotColdRebuild OR
            (if ex_have_last_sample x then kSnapshotHasLastSample else 0)\<rparr>,
        st_canonical_tokens = ex_tokens x \<rparr>)"

section \<open>Options never change\<close>

context dual_stage
begin

lemma step_options:
  assumes "exec_step E x z" "session_ok x"
  shows "ex_options z = ex_options x"
  using assms(1)
proof (cases rule: exec_step.cases)
  case (request op r)
  show ?thesis
  proof (cases r)
    case (Inl e)
    have "failed x e z" using exec_do_wp [OF assms(2), of op] request Inl by (simp add: wp_def)
    then show ?thesis using core_eqD(1) [of z x] outer_eqD(1) [of z x] by (auto simp: failed_def aborted_def sess_eq)
  next
    case (Inr v)
    have "performed op x v z" using exec_do_wp [OF assms(2), of op] request Inr by (simp add: wp_def)
    then show ?thesis by (cases op) (auto simp: extended_def decoded_def)
  qed
next
  case (environment ns vs)
  then show ?thesis by simp
qed

lemma reachable_options: "exec_reachable E x0 x \<Longrightarrow> session_ok x0 \<Longrightarrow> ex_options x = ex_options x0"
  by (induction rule: exec_reachable.induct) (auto dest: step_options reachable_ok)

end

lemma new_executor_identity:
  assumes "new_executor E padding options b0 b1 = Inr x"
  shows "si_context_limit (eo_identity (ex_options x)) = eo_context_limit (ex_options x) \<and>
    validate_session_identity (eo_identity (ex_options x)) = Inr ()"
  using assms by (auto simp: new_executor_def Let_def split: sum.splits if_splits)

lemma mock_identity:
  assumes "make_mock_executor fo padding options = Inr x0" "exec_reachable (mock_env fo) x0 x"
  shows "si_context_limit (eo_identity (ex_options x)) = eo_context_limit (ex_options x)"
    "validate_session_identity (eo_identity (ex_options x)) = Inr ()"
proof -
  have "ex_options x = ex_options x0"
    by (rule dual_mock.reachable_options [OF assms(2) mock_session_ok [OF assms(1) exec_reachable.start]])
  moreover have "si_context_limit (eo_identity (ex_options x0)) = eo_context_limit (ex_options x0) \<and>
      validate_session_identity (eo_identity (ex_options x0)) = Inr ()"
    using assms(1) by (auto simp: make_mock_executor_def split: sum.splits dest: new_executor_identity)
  ultimately show "si_context_limit (eo_identity (ex_options x)) = eo_context_limit (ex_options x)"
    "validate_session_identity (eo_identity (ex_options x)) = Inr ()" by simp_all
qed

section \<open>Snapshots are accepted\<close>

lemma session_snapshot_valid:
  assumes eng: "engine_ok (ex_engine x)" "\<not> eng_active (ex_engine x)"
    and can: "unat (e_canonical (ex_engine x)) = length (ex_tokens x)"
      "length (ex_tokens x) \<le> unat (e_target (ex_engine x)) + 1"
      "length (ex_tokens x) \<le> unat (si_context_limit identity)"
    and smp: "sampler_tracks (ex_sampler x) (ex_tokens x)"
    and last: "ex_have_last_sample x \<Longrightarrow> 0 \<le> sint (ex_last_sample x)"
    and snap: "executor_snapshot x = Inr s" and seq: "sn_sequence (st_header c) \<noteq> u64_max"
  shows "validate_state_snapshot (fst (stamp_snapshot identity c now s)) identity = Inr ()"
proof -
  let ?t = "fst (stamp_snapshot identity c now s)"
  have h: "st_canonical_tokens ?t = ex_tokens x" "sn_magic (st_header ?t) = kStateSnapshotMagic"
    "sn_version (st_header ?t) = kContractVersion" "sn_header_bytes (st_header ?t) = 176"
    "sn_identity_checksum (st_header ?t) = si_identity_checksum identity"
    "sn_sequence (st_header ?t) = sn_sequence (st_header c) + 1"
    "sn_canonical_token_count (st_header ?t) = word_of_nat (length (ex_tokens x))"
    "sn_frontiers (st_header ?t) = eng_frontiers (ex_engine x)"
    "sn_flags (st_header ?t) = kSnapshotColdRebuild OR (if ex_have_last_sample x then kSnapshotHasLastSample else 0)"
    "sn_canonical_checksum (st_header ?t) = canonical_token_checksum (ex_tokens x)"
    "sn_sampler (st_header ?t) = sa_state (ex_sampler x)" "sn_last_sample (st_header ?t) = ex_last_sample x"
    using snap eng(2) by (auto simp: executor_snapshot_def stamp_snapshot_def Let_def empty_snapshot_header_def)
  have lt: "length (ex_tokens x) < 18446744073709551616"
    using can(1) unat_u64_lt [of "e_canonical (ex_engine x)"] by simp
  have cw: "e_canonical (ex_engine x) = word_of_nat (length (ex_tokens x))"
    using can(1) by (metis word_nat_cases unat_of_nat_u64 lt word_unat_eq_iff)
  have le: "e_target (ex_engine x) \<le> e_canonical (ex_engine x)" by (rule engine_okD(1) [OF eng(1)])
  have d: "\<not> e_canonical (ex_engine x) - e_target (ex_engine x) > 1"
    using can(1,2) unat_u64_sub [OF le] by (simp add: word_less_nat_alt)
  have l: "\<not> e_canonical (ex_engine x) > ucast (si_context_limit identity)"
    using can(1,3) by (simp add: word_less_nat_alt)
  have s: "ss_magic (sa_state (ex_sampler x)) = kSamplerStateMagic"
    "ss_canonical_tokens (sa_state (ex_sampler x)) = word_of_nat (length (ex_tokens x))"
    using smp by (simp_all add: sampler_tracks_def)
  have f: "validate_frontiers (eng_frontiers (ex_engine x)) = Inr ()"
    using engine_okD(3) [OF eng(1)] by simp
  have q: "sn_sequence (st_header c) + 1 \<noteq> 0" using seq by (simp add: add_eq_0_iff2)
  show ?thesis
    unfolding validate_state_snapshot_def Let_def h s f cw [symmetric]
    using le d l q last by (auto simp: kSnapshotColdRebuild_def kSnapshotHasLastSample_def not_less)
qed

lemma session_append_quiet:
  assumes "dual_mock.session_ok x" "si_context_limit (eo_identity (ex_options x)) = eo_context_limit (ex_options x)"
    "executor_snapshot x = Inr s" "jn_identity j = eo_identity (ex_options x)"
    "sn_sequence (st_header (jn_current j)) \<noteq> u64_max" "jn_io j = []" "jn_calls j = []"
  shows "fst (journal_append now s j) = Inr ()"
proof -
  have "validate_state_snapshot (fst (stamp_snapshot (jn_identity j) (jn_current j) now s)) (jn_identity j) = Inr ()"
    by (rule session_snapshot_valid [OF _ _ _ _ _ _ _ assms(3,5)])
       (use assms(1,2,4) in \<open>auto simp: dual_mock.session_ok_def dual_mock.idle_def in_vocabulary_def\<close>)
  then show ?thesis by (intro journal_append_quiet [OF assms(6,7) surjective_pairing]) simp
qed

section \<open>Properties\<close>

text \<open>
  C39: Every session can be saved. Between requests the executor's snapshot exists, holds exactly the
  canonical tokens, and is accepted by any journal opened for the session's identity, unless that
  journal's sequence number is exhausted: with the disk undisturbed the append succeeds.
\<close>

theorem executor_snapshot_accepted:
  assumes "make_mock_executor fo padding options = Inr x0" and "exec_reachable (mock_env fo) x0 x"
    and "journal_reachable j" and "jn_identity j = eo_identity (ex_options x)"
    and "sn_sequence (st_header (jn_current j)) \<noteq> u64_max" and "jn_io j = []" and "jn_calls j = []"
  shows "\<exists>s. executor_snapshot x = Inr s \<and> st_canonical_tokens s = ex_tokens x \<and>
    fst (journal_append now s j) = Inr ()"
proof -
  have ok: "dual_mock.session_ok x" by (rule mock_session_ok [OF assms(1,2)])
  obtain s where s: "executor_snapshot x = Inr s" "st_canonical_tokens s = ex_tokens x"
    using ok by (auto simp: executor_snapshot_def dual_mock.session_ok_def dual_mock.idle_def)
  have "fst (journal_append now s j) = Inr ()"
    by (rule session_append_quiet [OF ok mock_identity(1) [OF assms(1,2)] s(1) assms(4-7)])
  then show ?thesis using s by blast
qed

theorem executor_snapshot_accepted_witness:
  "\<exists>x0 j s. make_mock_executor int_float_ops [0, 0, 0, 0] demo_options = Inr x0 \<and>
     new_journal ''j'' (eo_identity (ex_options x0)) None [] [] = (Inr (), j) \<and>
     executor_snapshot x0 = Inr s \<and> fst (journal_append 5 s j) = Inr ()"
proof -
  obtain x0 where x0: "make_mock_executor int_float_ops [0, 0, 0, 0] demo_options = Inr x0"
    using demo_executor by blast
  let ?id = "eo_identity (ex_options x0)"
  let ?j = "\<lparr> jn_path = ''j'', jn_identity = ?id, jn_current = empty_snapshot, jn_disk = Some [], jn_io = [],
    jn_calls = [] \<rparr>"
  have j: "new_journal ''j'' ?id None [] [] = (Inr (), ?j)"
    using mock_identity(2) [OF x0 exec_reachable.start]
    by (simp add: new_journal_def open_journal_def journal_load_def sys_call_def run_simps)
  have "jn_identity ?j = ?id" "sn_sequence (st_header (jn_current ?j)) \<noteq> u64_max" "jn_io ?j = []" "jn_calls ?j = []"
    by (simp_all add: empty_snapshot_def empty_snapshot_header_def)
  from executor_snapshot_accepted [OF x0 exec_reachable.start journal_reachable.opened [OF j] this, of 5] x0 j
  show ?thesis by blast
qed

end
