(* ===== verification/Rpc.thy ===== *)
theory Rpc
  imports Recovery
begin

text \<open>
  The executor service of \<^verbatim>\<open>include/q38/rpc.h\<close> and \<^verbatim>\<open>src/rpc.cc\<close>: request validation, the request
  fingerprint, the diagnostic report, and \<open>handle\<close> with its three kinds of request. A writer request
  takes \<open>writer_mutex\<close> and works in phases (admission under \<open>state_mutex\<close>, execution without it,
  publication under it), between which cancel requests run; the phases are separate definitions,
  \<open>handle\<close> is their composition, and the step relation of the runs interleaves them.
\<close>

section \<open>Data\<close>

definition kExecutorRpcMagic :: u32 where
  "kExecutorRpcMagic = fourcc (CHR ''Q'') (CHR ''3'') (CHR ''8'') (CHR ''R'')"

definition kExecutorRpcVersion :: u16 where "kExecutorRpcVersion = 1"

definition kExecutorRpcMaximumPayload :: u64 where "kExecutorRpcMaximumPayload = push_bit 20 64"

definition kExecutorRpcFlagDeadline :: u32 where "kExecutorRpcFlagDeadline = 1"

text \<open>The enumeration of the wire; a client can send any 32-bit value.\<close>

datatype RpcOpcode = RpcInvalid | RpcPing | RpcState | RpcAppend | RpcSeed | RpcDecode | RpcSpeculative
  | RpcStats | RpcCancel | RpcReset | RpcLogits | RpcUnknown u32

definition opcode_code :: "RpcOpcode \<Rightarrow> u32" where
  "opcode_code opcode = (case opcode of RpcInvalid \<Rightarrow> 0 | RpcPing \<Rightarrow> 1 | RpcState \<Rightarrow> 2 | RpcAppend \<Rightarrow> 3
     | RpcSeed \<Rightarrow> 4 | RpcDecode \<Rightarrow> 5 | RpcSpeculative \<Rightarrow> 6 | RpcStats \<Rightarrow> 7 | RpcCancel \<Rightarrow> 8 | RpcReset \<Rightarrow> 9
     | RpcLogits \<Rightarrow> 10 | RpcUnknown n \<Rightarrow> n)"

definition opcode_of_code :: "u32 \<Rightarrow> RpcOpcode" where
  "opcode_of_code n = (if n = 0 then RpcInvalid else if n = 1 then RpcPing else if n = 2 then RpcState
     else if n = 3 then RpcAppend else if n = 4 then RpcSeed else if n = 5 then RpcDecode
     else if n = 6 then RpcSpeculative else if n = 7 then RpcStats else if n = 8 then RpcCancel
     else if n = 9 then RpcReset else if n = 10 then RpcLogits else RpcUnknown n)"

datatype RpcStatus = RpcOk | RpcBadRequest | RpcFailedPrecondition | RpcCapacityExhausted | RpcInternal
  | RpcPoisoned | RpcCancelled | RpcDeadlineExceeded

definition status_code :: "RpcStatus \<Rightarrow> u32" where
  "status_code status = (case status of RpcOk \<Rightarrow> 0 | RpcBadRequest \<Rightarrow> 1 | RpcFailedPrecondition \<Rightarrow> 2
     | RpcCapacityExhausted \<Rightarrow> 3 | RpcInternal \<Rightarrow> 4 | RpcPoisoned \<Rightarrow> 5 | RpcCancelled \<Rightarrow> 6 | RpcDeadlineExceeded \<Rightarrow> 7)"

record RpcRequestHeader =
  rq_magic :: u32
  rq_version :: u16
  rq_header_bytes :: u16
  rq_request_id :: u64
  rq_session_hash :: u64
  rq_opcode :: RpcOpcode
  rq_flags :: u32
  rq_token_count :: u32
  rq_argument0 :: u32
  rq_argument1 :: u32
  rq_timeout_ms :: u32
  rq_payload_bytes :: u64

definition empty_request_header :: RpcRequestHeader where
  "empty_request_header = \<lparr> rq_magic = kExecutorRpcMagic, rq_version = kExecutorRpcVersion, rq_header_bytes = 56,
     rq_request_id = 0, rq_session_hash = 0, rq_opcode = RpcInvalid, rq_flags = 0, rq_token_count = 0,
     rq_argument0 = 0, rq_argument1 = 0, rq_timeout_ms = 0, rq_payload_bytes = 0 \<rparr>"

record RpcResponseHeader =
  rp_magic :: u32
  rp_version :: u16
  rp_header_bytes :: u16
  rp_request_id :: u64
  rp_session_hash :: u64
  rp_status :: RpcStatus
  rp_opcode :: RpcOpcode
  rp_token_count :: u32
  rp_message_bytes :: u32
  rp_payload_bytes :: u64
  rp_frontiers :: SessionFrontiers

definition empty_response_header :: RpcResponseHeader where
  "empty_response_header = \<lparr> rp_magic = kExecutorRpcMagic, rp_version = kExecutorRpcVersion, rp_header_bytes = 96,
     rp_request_id = 0, rp_session_hash = 0, rp_status = RpcOk, rp_opcode = RpcInvalid, rp_token_count = 0,
     rp_message_bytes = 0, rp_payload_bytes = 0, rp_frontiers = empty_frontiers \<rparr>"

record RpcRequest =
  rq_header :: RpcRequestHeader
  rq_tokens :: "i32 list"

record RpcResponse =
  rp_header :: RpcResponseHeader
  rp_tokens :: "i32 list"
  rp_message :: string

section \<open>Validation\<close>

definition kMaximumStepsPerRequest :: u32 where "kMaximumStepsPerRequest = 1"

definition kMaximumTimeoutMs :: u32 where "kMaximumTimeoutMs = 24 * 60 * 60 * 1000"

definition kMaximumCachedWriterResponses :: nat where "kMaximumCachedWriterResponses = 4096"

definition valid_opcode :: "RpcOpcode \<Rightarrow> bool" where
  "valid_opcode opcode \<longleftrightarrow> (case opcode of RpcInvalid \<Rightarrow> False | RpcUnknown _ \<Rightarrow> False | _ \<Rightarrow> True)"

definition is_writer_opcode :: "RpcOpcode \<Rightarrow> bool" where
  "is_writer_opcode opcode \<longleftrightarrow> opcode = RpcAppend \<or> opcode = RpcSeed \<or> opcode = RpcDecode \<or>
     opcode = RpcSpeculative \<or> opcode = RpcReset"

definition validate_rpc_arguments :: "RpcRequest \<Rightarrow> string + unit" where
  "validate_rpc_arguments request =
     (let header = rq_header request; tokens = rq_tokens request in
      case rq_opcode header of
        RpcAppend \<Rightarrow>
          if tokens = [] then Inl ''append RPC requires tokens''
          else if rq_argument0 header \<noteq> 0 \<or> rq_argument1 header \<noteq> 0
            then Inl ''append RPC arguments must be zero''
          else Inr ()
      | RpcDecode \<Rightarrow>
          if tokens \<noteq> [] \<or> rq_argument0 header = 0 \<or> rq_argument0 header > kMaximumStepsPerRequest \<or>
             rq_argument1 header \<noteq> 0
            then Inl ''decode RPC arguments are invalid'' else Inr ()
      | RpcSpeculative \<Rightarrow>
          if tokens \<noteq> [] \<or> rq_argument0 header = 0 \<or> rq_argument0 header > kMaximumStepsPerRequest \<or>
             rq_argument1 header = 0 \<or> rq_argument1 header > kMaximumMtpDraftWidth
            then Inl ''speculative RPC arguments are invalid'' else Inr ()
      | RpcLogits \<Rightarrow>
          if tokens \<noteq> [] \<or> rq_argument0 header > 1 \<or> rq_argument1 header \<noteq> 0
            then Inl ''logits RPC arguments are invalid'' else Inr ()
      | RpcInvalid \<Rightarrow> Inl ''invalid executor RPC opcode''
      | RpcUnknown _ \<Rightarrow> Inr ()
      | _ \<Rightarrow>
          if tokens \<noteq> [] \<or> rq_argument0 header \<noteq> 0 \<or> rq_argument1 header \<noteq> 0
            then Inl ''executor RPC operation takes no payload'' else Inr ())"

definition validate_executor_rpc_request :: "RpcRequest \<Rightarrow> u64 \<Rightarrow> string + unit" where
  "validate_executor_rpc_request request expected_session_hash =
     (let header = rq_header request in
      if rq_magic header \<noteq> kExecutorRpcMagic then Inl ''invalid executor RPC magic''
      else if rq_version header \<noteq> kExecutorRpcVersion \<or> rq_header_bytes header \<noteq> 56
        then Inl ''unsupported executor RPC version''
      else if rq_session_hash header \<noteq> expected_session_hash then Inl ''executor RPC session does not match''
      else if rq_request_id header = 0 then Inl ''executor RPC request id must be nonzero''
      else if \<not> valid_opcode (rq_opcode header) then Inl ''invalid executor RPC opcode''
      else if rq_flags header AND NOT kExecutorRpcFlagDeadline \<noteq> 0 then Inl ''executor RPC flags are invalid''
      else if is_writer_opcode (rq_opcode header) \<and> rq_flags header AND kExecutorRpcFlagDeadline \<noteq> 0 \<and>
          (rq_timeout_ms header = 0 \<or> rq_timeout_ms header > kMaximumTimeoutMs)
        then Inl ''executor RPC timeout is invalid''
      else if is_writer_opcode (rq_opcode header) \<and> rq_flags header AND kExecutorRpcFlagDeadline = 0 \<and>
          rq_timeout_ms header \<noteq> 0
        then Inl ''executor RPC timeout requires deadline flag''
      else if \<not> is_writer_opcode (rq_opcode header) \<and> (rq_flags header \<noteq> 0 \<or> rq_timeout_ms header \<noteq> 0)
        then Inl ''read/cancel RPC cannot carry a deadline''
      else if rq_payload_bytes header > kExecutorRpcMaximumPayload then Inl ''executor RPC payload is too large''
      else if length (rq_tokens request) \<noteq> unat (rq_token_count header)
        then Inl ''executor RPC token count does not match payload''
      else if rq_payload_bytes header \<noteq> word_of_nat (length (rq_tokens request)) * 4
        then Inl ''executor RPC payload byte count is invalid''
      else validate_rpc_arguments request)"

section \<open>Fingerprints\<close>

record RequestFingerprint =
  fp_first :: u64
  fp_second :: u64

definition empty_fingerprint :: RequestFingerprint where
  "empty_fingerprint = \<lparr> fp_first = 1469598103934665603, fp_second = 1099511628211 \<rparr>"

definition fingerprint_byte :: "u8 \<Rightarrow> RequestFingerprint \<Rightarrow> RequestFingerprint" where
  "fingerprint_byte b f =
     (let second = fp_second f + (ucast b + 0x9e3779b97f4a7c15); second = second XOR drop_bit 29 second in
      \<lparr> fp_first = (fp_first f XOR ucast b) * 1099511628211, fp_second = second * 0xbf58476d1ce4e5b9 \<rparr>)"

definition fingerprint_bytes :: "u8 list \<Rightarrow> RequestFingerprint \<Rightarrow> RequestFingerprint" where
  "fingerprint_bytes = fold fingerprint_byte"

definition request_fingerprint :: "RpcRequest \<Rightarrow> RequestFingerprint" where
  "request_fingerprint request =
     (let header = rq_header request in
      fingerprint_bytes (tokens_image (rq_tokens request))
     (fingerprint_bytes (le_bytes 4 (ucast (rq_timeout_ms header)))
     (fingerprint_bytes (le_bytes 4 (ucast (rq_argument1 header)))
     (fingerprint_bytes (le_bytes 4 (ucast (rq_argument0 header)))
     (fingerprint_bytes (le_bytes 4 (ucast (rq_token_count header)))
     (fingerprint_bytes (le_bytes 4 (ucast (rq_flags header)))
     (fingerprint_bytes (le_bytes 4 (ucast (opcode_code (rq_opcode header))))
     (fingerprint_bytes (le_bytes 8 (rq_session_hash header)) empty_fingerprint))))))))"

section \<open>The diagnostic report\<close>

definition to_string_i32 :: "i32 \<Rightarrow> string" where
  "to_string_i32 t = (if sint t < 0 then CHR ''-'' # decimal (nat (- sint t)) else decimal (nat (sint t)))"

definition hex16 :: "u64 \<Rightarrow> string" where
  "hex16 w = concat (map (\<lambda>b. [hex_char (unat b div 16), hex_char (unat b mod 16)]) (rev (le_bytes 8 w)))"

definition transaction_kind_name :: "TxnKind \<Rightarrow> string" where
  "transaction_kind_name kind = (case kind of AppendKnown \<Rightarrow> ''append_known'' | Decode \<Rightarrow> ''decode''
     | Speculative \<Rightarrow> ''speculative'' | KindInvalid \<Rightarrow> ''invalid'')"

definition logit_bytes :: "u16 list \<Rightarrow> u8 list" where
  "logit_bytes logits = concat (map (\<lambda>v. [ucast v, ucast (drop_bit 8 v)]) logits)"

definition quoted :: "string \<Rightarrow> string" where "quoted s = CHR 0x22 # s @ [CHR 0x22]"

definition json_field :: "string \<Rightarrow> string \<Rightarrow> string" where "json_field name text = quoted name @ '':'' @ text"

definition logit_snapshot_json :: "LogitSnapshot \<Rightarrow> bool \<Rightarrow> string" where
  "logit_snapshot_json snapshot include_raw =
     (let checksum = hash_bytes 14695981039346656037 (logit_bytes (lg_logits_bf16 snapshot)) in
      ''{'' @ json_field ''schema'' (quoted ''q38.logits.bf16.v1'') @ '','' @
      json_field ''dtype'' (quoted ''bf16'') @ '','' @ json_field ''byte_order'' (quoted ''little'') @ '','' @
      json_field ''transaction_epoch'' (decimal (unat (lg_transaction_epoch snapshot))) @ '','' @
      json_field ''target_frontier'' (decimal (unat (lg_target_frontier snapshot))) @ '','' @
      json_field ''transaction_kind'' (quoted (transaction_kind_name (lg_transaction_kind snapshot))) @ '','' @
      json_field ''selected_token'' (to_string_i32 (lg_selected_token snapshot)) @ '','' @
      json_field ''element_count'' (decimal (length (lg_logits_bf16 snapshot))) @ '','' @
      json_field ''fnv1a64'' (quoted (hex16 checksum)) @
      (if include_raw
       then '','' @ json_field ''raw_bf16_le_hex'' (quoted (concat (map (\<lambda>b.
         [hex_char (unat b div 16), hex_char (unat b mod 16)]) (logit_bytes (lg_logits_bf16 snapshot)))))
       else []) @ ''}'')"

section \<open>The service\<close>

record CachedWriterResponse =
  cw_fingerprint :: RequestFingerprint
  cw_response :: RpcResponse

record ('b0, 'b1) rpc_service =
  rs_executor :: "('b0, 'b1) executor"
  rs_session_hash :: u64
  rs_enable_logit_diagnostics :: bool
  rs_highest_writer_request_id :: u64
  rs_writer_response_order :: "u64 list"
  rs_writer_responses :: "u64 \<rightharpoonup> CachedWriterResponse"
  rs_active_writer_request_id :: u64
  rs_active_cancellation :: "CancellationToken option"
  rs_published_frontiers :: SessionFrontiers
  rs_published_stats :: ExecutorStats
  rs_published_poisoned :: bool
  rs_snapshot_journal :: "snapshot_journal option"

text \<open>
  What the service is linked with: the executor's environment, the text of the metrics report, and
  \<open>what()\<close> of the exceptions whose text the C++ library makes up.
\<close>

record ('b0, 'b1, 'f, 'd) rpc_env =
  rv_exec :: "('b0, 'b1, 'f, 'd) exec_env"
  rv_metrics_json :: "('b0, 'b1) executor \<Rightarrow> string"
  rv_library_what :: "exn \<Rightarrow> string"

definition what :: "('b0, 'b1, 'f, 'd) rpc_env \<Rightarrow> exn \<Rightarrow> string" where
  "what R e = (case e of
       ExecutionCancelled \<Rightarrow> ''execution cancelled''
     | ExecutionDeadlineExceeded \<Rightarrow> ''execution deadline exceeded''
     | RuntimeError m \<Rightarrow> m
     | InvalidArgument m \<Rightarrow> m
     | LogicError m \<Rightarrow> m
     | LengthError m \<Rightarrow> m
     | _ \<Rightarrow> rv_library_what R e)"

definition new_rpc_service :: "('b0, 'b1) executor \<Rightarrow> u64 \<Rightarrow> string \<Rightarrow> bool \<Rightarrow> u8 list option \<Rightarrow> io_event list \<Rightarrow> bool list \<Rightarrow>
    exn + ('b0, 'b1) rpc_service" where
  "new_rpc_service executor session_hash snapshot_path enable_logits disk io calls =
     (let service = (\<lambda>journal. \<lparr> rs_executor = executor, rs_session_hash = session_hash,
        rs_enable_logit_diagnostics = enable_logits, rs_highest_writer_request_id = 0,
        rs_writer_response_order = [], rs_writer_responses = Map.empty, rs_active_writer_request_id = 0,
        rs_active_cancellation = None, rs_published_frontiers = eng_frontiers (ex_engine executor),
        rs_published_stats = ex_stats executor, rs_published_poisoned = ex_poisoned executor,
        rs_snapshot_journal = journal \<rparr>) in
      if snapshot_path = [] then Inr (service None)
      else (case new_journal snapshot_path (eo_identity (ex_options executor)) disk io calls of
              (Inl e, _) \<Rightarrow> Inl e
            | (Inr _, j) \<Rightarrow>
                if \<not> journal_empty j
                  then Inl (RuntimeError ''existing snapshot journal requires cold rebuild or a new session'')
                else Inr (service (Some j))))"

definition response_base :: "RpcRequest \<Rightarrow> u64 \<Rightarrow> RpcResponse" where
  "response_base request session_hash = \<lparr> rp_header = empty_response_header\<lparr>
     rp_request_id := rq_request_id (rq_header request), rp_session_hash := session_hash,
     rp_opcode := rq_opcode (rq_header request)\<rparr>, rp_tokens = [], rp_message = [] \<rparr>"

definition finalize_response :: "SessionFrontiers \<Rightarrow> RpcResponse \<Rightarrow> RpcResponse" where
  "finalize_response frontiers response = response\<lparr>rp_header := (rp_header response)\<lparr>
     rp_frontiers := frontiers,
     rp_token_count := word_of_nat (length (rp_tokens response)),
     rp_message_bytes := word_of_nat (length (rp_message response)),
     rp_payload_bytes := word_of_nat (length (rp_tokens response) * 4 + length (rp_message response))\<rparr>\<rparr>"

definition with_status :: "RpcStatus \<Rightarrow> string \<Rightarrow> RpcResponse \<Rightarrow> RpcResponse" where
  "with_status status message response =
     response\<lparr>rp_header := (rp_header response)\<lparr>rp_status := status\<rparr>, rp_message := message\<rparr>"

subsection \<open>Cancel\<close>

definition handle_cancel :: "RpcRequest \<Rightarrow> ('b0, 'b1) rpc_service \<Rightarrow> RpcResponse \<times> ('b0, 'b1) rpc_service" where
  "handle_cancel request s =
     (let response = response_base request (rs_session_hash s); request_id = rq_request_id (rq_header request);
          (response, s) =
            (case rs_active_cancellation s of
               Some token \<Rightarrow>
                 if rs_active_writer_request_id s = request_id then
                   (case request_cancel token of
                      (Inr True, token) \<Rightarrow> (with_status RpcOk ''cancellation requested'' response,
                        s\<lparr>rs_active_cancellation := Some token\<rparr>)
                    | (_, token) \<Rightarrow>
                        (if tk_state token = TkSealed
                         then with_status RpcFailedPrecondition ''writer passed its commit point'' response
                         else with_status RpcOk ''cancellation was already requested'' response,
                         s\<lparr>rs_active_cancellation := Some token\<rparr>))
                 else (with_status RpcFailedPrecondition
                   (if rs_writer_responses s request_id \<noteq> None then ''writer request already completed''
                    else ''writer request is not active'') response, s)
             | None \<Rightarrow> (with_status RpcFailedPrecondition
                 (if rs_writer_responses s request_id \<noteq> None then ''writer request already completed''
                  else ''writer request is not active'') response, s)) in
      (finalize_response (rs_published_frontiers s) response, s))"

subsection \<open>Writers\<close>

text \<open>Admission: a replay, a refusal, or the registered request. \<open>execute\<close> is false for a poisoned
  executor, whose refusal is cached like any other response.\<close>

datatype admission = Answered RpcResponse | Admitted bool

definition admit_writer :: "RpcRequest \<Rightarrow> CancellationToken \<Rightarrow> ('b0, 'b1) rpc_service \<Rightarrow>
    admission \<times> ('b0, 'b1) rpc_service" where
  "admit_writer request token s =
     (let response = response_base request (rs_session_hash s); request_id = rq_request_id (rq_header request);
          refuse = (\<lambda>status message.
            (Answered (finalize_response (rs_published_frontiers s) (with_status status message response)), s)) in
      case rs_writer_responses s request_id of
        Some cached \<Rightarrow>
          if cw_fingerprint cached = request_fingerprint request then (Answered (cw_response cached), s)
          else refuse RpcBadRequest ''request id was already used with different contents''
      | None \<Rightarrow>
          if request_id \<le> rs_highest_writer_request_id s
            then refuse RpcFailedPrecondition ''writer request id is stale''
          else let s = s\<lparr>rs_highest_writer_request_id := request_id\<rparr> in
            if rs_published_poisoned s then (Admitted False, s)
            else (Admitted True, s\<lparr>rs_active_writer_request_id := request_id,
                    rs_active_cancellation := Some token\<rparr>))"

text \<open>The dispatch inside the \<open>try\<close> block: the published tokens and the message of a success.\<close>

definition dispatch_writer :: "('b0, 'b1, 'f, 'd) rpc_env \<Rightarrow> RpcRequest \<Rightarrow> CancellationToken option \<Rightarrow>
    ('b0, 'b1, i32 list \<times> string) execM" where
  "dispatch_writer R request token =
     (let header = rq_header request; E = rv_exec R in
      case rq_opcode header of
        RpcAppend \<Rightarrow> thenM (append E (rq_tokens request) token) (returnM ([], []))
      | RpcSeed \<Rightarrow> bindM (seed_decode token) (\<lambda>t. returnM ([t], []))
      | RpcDecode \<Rightarrow> bindM (decode_one E token) (\<lambda>r. returnM (dr_published_tokens r, []))
      | RpcSpeculative \<Rightarrow> bindM (speculative_step E (rq_argument1 header) token)
          (\<lambda>r. returnM (dr_published_tokens r, []))
      | RpcReset \<Rightarrow> thenM (with_token token (thenM check_cancel seal_cancel))
         (thenM (reset_session E) (returnM ([], ''session state reset'')))
      | _ \<Rightarrow> throwM (LogicError ''non-writer entered writer dispatch''))"

definition status_of_exn :: "exn \<Rightarrow> bool \<Rightarrow> RpcStatus" where
  "status_of_exn e poisoned = (case e of
       ExecutionDeadlineExceeded \<Rightarrow> RpcDeadlineExceeded
     | ExecutionCancelled \<Rightarrow> RpcCancelled
     | LengthError _ \<Rightarrow> RpcCapacityExhausted
     | InvalidArgument _ \<Rightarrow> RpcBadRequest
     | LogicError _ \<Rightarrow> RpcFailedPrecondition
     | OutOfRange \<Rightarrow> RpcFailedPrecondition
     | _ \<Rightarrow> if poisoned then RpcPoisoned else RpcInternal)"

text \<open>Execution without \<open>state_mutex\<close>, on the registered token.\<close>

definition execute_writer :: "('b0, 'b1, 'f, 'd) rpc_env \<Rightarrow> RpcRequest \<Rightarrow> bool \<Rightarrow> ('b0, 'b1) rpc_service \<Rightarrow>
    RpcResponse \<times> ('b0, 'b1) rpc_service" where
  "execute_writer R request execute s =
     (let response = response_base request (rs_session_hash s) in
      if \<not> execute then (with_status RpcPoisoned ''executor is fail-closed'' response, s)
      else (case dispatch_writer R request (rs_active_cancellation s) (rs_executor s) of
              (Inr (tokens, message), x) \<Rightarrow>
                (response\<lparr>rp_tokens := tokens, rp_message := message\<rparr>, s\<lparr>rs_executor := x\<rparr>)
            | (Inl e, x) \<Rightarrow>
                (with_status (status_of_exn e (ex_poisoned x)) (what R e) response, s\<lparr>rs_executor := x\<rparr>)))"

text \<open>A successful writer is made durable before it is acknowledged.\<close>

definition journal_writer :: "('b0, 'b1, 'f, 'd) rpc_env \<Rightarrow> u64 \<Rightarrow> RpcResponse \<times> ('b0, 'b1) rpc_service \<Rightarrow>
    RpcResponse \<times> ('b0, 'b1) rpc_service" where
  "journal_writer R now = (\<lambda>(response, s).
     case rs_snapshot_journal s of
       Some j \<Rightarrow>
         if rp_status (rp_header response) = RpcOk then
           (let failed = (\<lambda>e s. (with_status RpcPoisoned
                  (''durable snapshot failed; session isolated: '' @ what R e) (response\<lparr>rp_tokens := []\<rparr>),
                  s\<lparr>rs_executor := snd (fail_closed (rs_executor s))\<rparr>)) in
            case executor_snapshot (rs_executor s) of
              Inl e \<Rightarrow> failed e s
            | Inr snapshot \<Rightarrow>
                (case journal_append now snapshot j of
                   (Inr _, j) \<Rightarrow> (response, s\<lparr>rs_snapshot_journal := Some j\<rparr>)
                 | (Inl e, j) \<Rightarrow> failed e (s\<lparr>rs_snapshot_journal := Some j\<rparr>)))
         else (response, s)
     | None \<Rightarrow> (response, s))"

definition cache_response :: "RpcRequest \<Rightarrow> RpcResponse \<Rightarrow> ('b0, 'b1) rpc_service \<Rightarrow> ('b0, 'b1) rpc_service" where
  "cache_response request response s =
     (let request_id = rq_request_id (rq_header request);
          reset = (rq_opcode (rq_header request) = RpcReset);
          order = (if reset then [] else rs_writer_response_order s) @ [request_id];
          responses = (if reset then Map.empty else rs_writer_responses s);
          responses = (if responses request_id = None
            then responses(request_id \<mapsto> \<lparr> cw_fingerprint = request_fingerprint request, cw_response = response \<rparr>)
            else responses) in
      if length order > kMaximumCachedWriterResponses
      then s\<lparr>rs_writer_response_order := tl order, rs_writer_responses := responses(hd order := None)\<rparr>
      else s\<lparr>rs_writer_response_order := order, rs_writer_responses := responses\<rparr>)"

definition publish_writer :: "RpcRequest \<Rightarrow> RpcResponse \<times> ('b0, 'b1) rpc_service \<Rightarrow>
    RpcResponse \<times> ('b0, 'b1) rpc_service" where
  "publish_writer request = (\<lambda>(response, s).
     let x = rs_executor s;
         s = s\<lparr>rs_published_frontiers := eng_frontiers (ex_engine x), rs_published_stats := ex_stats x,
           rs_published_poisoned := ex_poisoned x\<rparr>;
         s = (if rs_active_writer_request_id s = rq_request_id (rq_header request)
              then s\<lparr>rs_active_writer_request_id := 0, rs_active_cancellation := None\<rparr> else s);
         response = finalize_response (rs_published_frontiers s) response in
     (response, cache_response request response s))"

definition complete_writer :: "('b0, 'b1, 'f, 'd) rpc_env \<Rightarrow> u64 \<Rightarrow> RpcRequest \<Rightarrow> bool \<Rightarrow> ('b0, 'b1) rpc_service \<Rightarrow>
    RpcResponse \<times> ('b0, 'b1) rpc_service" where
  "complete_writer R now request execute s =
     publish_writer request (journal_writer R now (execute_writer R request execute s))"

definition handle_writer :: "('b0, 'b1, 'f, 'd) rpc_env \<Rightarrow> u64 \<Rightarrow> CancellationToken \<Rightarrow> RpcRequest \<Rightarrow> ('b0, 'b1) rpc_service \<Rightarrow>
    RpcResponse \<times> ('b0, 'b1) rpc_service" where
  "handle_writer R now token request s =
     (case admit_writer request token s of
        (Answered response, s) \<Rightarrow> (response, s)
      | (Admitted execute, s) \<Rightarrow> complete_writer R now request execute s)"

subsection \<open>Readers and the whole handler\<close>

definition handle_reader :: "('b0, 'b1, 'f, 'd) rpc_env \<Rightarrow> RpcRequest \<Rightarrow> ('b0, 'b1) rpc_service \<Rightarrow> RpcResponse" where
  "handle_reader R request s =
     (let response = response_base request (rs_session_hash s); x = rs_executor s;
          opcode = rq_opcode (rq_header request);
          response =
            (if ex_poisoned x then with_status RpcPoisoned ''executor is fail-closed'' response
             else if opcode = RpcStats then response\<lparr>rp_message := rv_metrics_json R x\<rparr>
             else if opcode = RpcLogits then
               if \<not> rs_enable_logit_diagnostics s
                 then with_status RpcFailedPrecondition ''logit diagnostics are disabled'' response
               else (case ex_last_logit_snapshot x of
                       None \<Rightarrow> with_status RpcFailedPrecondition
                         ''no committed target logit snapshot is available'' response
                     | Some snapshot \<Rightarrow> response\<lparr>rp_message :=
                         logit_snapshot_json snapshot (rq_argument0 (rq_header request) = 1)\<rparr>)
             else response) in
      finalize_response (eng_frontiers (ex_engine x)) response)"

definition handle :: "('b0, 'b1, 'f, 'd) rpc_env \<Rightarrow> u64 \<Rightarrow> CancellationToken \<Rightarrow> RpcRequest \<Rightarrow> ('b0, 'b1) rpc_service \<Rightarrow>
    RpcResponse \<times> ('b0, 'b1) rpc_service" where
  "handle R now token request s =
     (case validate_executor_rpc_request request (rs_session_hash s) of
        Inl error \<Rightarrow> (finalize_response (rs_published_frontiers s)
          (with_status RpcBadRequest error (response_base request (rs_session_hash s))), s)
      | Inr _ \<Rightarrow>
          if rq_opcode (rq_header request) = RpcCancel then handle_cancel request s
          else if is_writer_opcode (rq_opcode (rq_header request)) then handle_writer R now token request s
          else (handle_reader R request s, s))"

end
