(* ===== verification/RpcService.thy ===== *)
theory RpcService
  imports Rpc
begin

text \<open>
  Runs of the executor service: writers that hold \<open>writer_mutex\<close> from admission to publication,
  cancel requests between and during them, and failing system calls of the journal. The invariant
  ties together the idempotence cache, the published state, the session and the file of the
  journal; it is proved for every pair of backends that keep the contract.
\<close>

section \<open>Steps of the service\<close>

text \<open>
  A configuration is the service with the writer that holds the lock, if any, and its \<open>execute\<close>
  flag. Cancel requests that arrive while a writer executes are the script of its token. Readers
  and rejected requests change nothing and are not steps. (Admission is two critical sections in
  the source; a cancel request between them finds no active writer, exactly as before the first.)
\<close>

type_synonym ('b0, 'b1) rpc_config = "('b0, 'b1) rpc_service \<times> (RpcRequest \<times> bool) option"

inductive rpc_step :: "('b0, 'b1, 'f, 'd) rpc_env \<Rightarrow> ('b0, 'b1) rpc_config \<Rightarrow> ('b0, 'b1) rpc_config \<Rightarrow> bool"
  for R where
  admitted: "validate_executor_rpc_request request (rs_session_hash s) = Inr () \<Longrightarrow>
    is_writer_opcode (rq_opcode (rq_header request)) \<Longrightarrow>
    admit_writer request (new_token (rq_timeout_ms (rq_header request)) now env) s = (Admitted execute, s') \<Longrightarrow>
    rpc_step R (s, None) (s', Some (request, execute))"
| answered: "validate_executor_rpc_request request (rs_session_hash s) = Inr () \<Longrightarrow>
    is_writer_opcode (rq_opcode (rq_header request)) \<Longrightarrow>
    admit_writer request token s = (Answered response, s') \<Longrightarrow> rpc_step R (s, None) (s', None)"
| cancel: "validate_executor_rpc_request request (rs_session_hash s) = Inr () \<Longrightarrow>
    handle_cancel request s = (response, s') \<Longrightarrow> rpc_step R (s, p) (s', p)"
| completed: "complete_writer R now request execute s = (response, s') \<Longrightarrow>
    rpc_step R (s, Some (request, execute)) (s', None)"
| environment: "rpc_step R (s, p) (s\<lparr>rs_executor := (rs_executor s)\<lparr>ex_elapsed := ns, ex_views := vs\<rparr>,
    rs_snapshot_journal := map_option (\<lambda>j. j\<lparr>jn_io := io, jn_calls := calls\<rparr>) (rs_snapshot_journal s)\<rparr>, p)"

inductive rpc_reachable :: "('b0, 'b1, 'f, 'd) rpc_env \<Rightarrow> ('b0, 'b1) rpc_service \<Rightarrow> ('b0, 'b1) rpc_config \<Rightarrow> bool"
  for R s0 where
  start: "rpc_reachable R s0 (s0, None)"
| step: "rpc_reachable R s0 c \<Longrightarrow> rpc_step R c d \<Longrightarrow> rpc_reachable R s0 d"

inductive_cases rpc_stepE: "rpc_step R c d"

section \<open>The parts of the invariant\<close>

definition request_key :: "RpcRequest \<Rightarrow> u64" where
  "request_key request = rq_request_id (rq_header request)"

definition cache_ok :: "('b0, 'b1) rpc_service \<Rightarrow> bool" where
  "cache_ok s \<longleftrightarrow> sorted_wrt (<) (rs_writer_response_order s) \<and>
     length (rs_writer_response_order s) \<le> kMaximumCachedWriterResponses \<and>
     dom (rs_writer_responses s) = set (rs_writer_response_order s) \<and>
     (\<forall>i \<in> set (rs_writer_response_order s). i \<le> rs_highest_writer_request_id s) \<and>
     (\<forall>i c. rs_writer_responses s i = Some c \<longrightarrow> rp_request_id (rp_header (cw_response c)) = i)"

definition active_ok :: "('b0, 'b1) rpc_config \<Rightarrow> bool" where
  "active_ok c \<longleftrightarrow> (case c of
      (s, None) \<Rightarrow> rs_active_writer_request_id s = 0 \<and> rs_active_cancellation s = None
    | (s, Some (request, execute)) \<Rightarrow> is_writer_opcode (rq_opcode (rq_header request)) \<and>
        request_key request = rs_highest_writer_request_id s \<and> request_key request \<noteq> 0 \<and>
        rs_writer_responses s (request_key request) = None \<and>
        (if execute then rs_active_writer_request_id s = request_key request \<and> rs_active_cancellation s \<noteq> None
         else rs_active_writer_request_id s = 0 \<and> rs_active_cancellation s = None \<and> ex_poisoned (rs_executor s)))"

definition published_ok :: "('b0, 'b1) rpc_service \<Rightarrow> bool" where
  "published_ok s \<longleftrightarrow> rs_published_frontiers s = eng_frontiers (ex_engine (rs_executor s)) \<and>
     rs_published_stats s = ex_stats (rs_executor s) \<and> rs_published_poisoned s = ex_poisoned (rs_executor s)"

text \<open>A journal whose file can be opened.\<close>

definition recoverable :: "snapshot_journal \<Rightarrow> bool" where
  "recoverable j \<longleftrightarrow> (\<exists>bytes s n. jn_disk j = Some bytes \<and>
     load_from (jn_identity j) bytes 0 empty_snapshot = Inr (s, n)) \<and>
     jn_path j \<noteq> [] \<and> validate_session_identity (jn_identity j) = Inr ()"

definition durable :: "('b0, 'b1) rpc_service \<Rightarrow> bool" where
  "durable s \<longleftrightarrow> (\<forall>j. rs_snapshot_journal s = Some j \<longrightarrow>
       recoverable j \<and> (\<not> ex_poisoned (rs_executor s) \<longrightarrow>
         journal_ok j \<and> st_canonical_tokens (jn_current j) = ex_tokens (rs_executor s)))"

lemma journal_ok_recoverable: "journal_ok j \<Longrightarrow> recoverable j"
  by (auto simp: journal_ok_def recoverable_def)

lemma recoverable_env [simp]: "recoverable (j\<lparr>jn_io := io, jn_calls := calls\<rparr>) = recoverable j"
  by (simp add: recoverable_def)

lemma journal_ok_env [simp]: "journal_ok (j\<lparr>jn_io := io, jn_calls := calls\<rparr>) = journal_ok j"
  by (simp add: journal_ok_def)

text \<open>An append by the journal's owner: done and readable, or failed and still readable.\<close>

lemma journal_append_owner_wp:
  assumes ok: "journal_ok j" and len: "length (st_canonical_tokens snapshot) < 2 ^ 64"
  shows "wp (journal_append now snapshot)
    (\<lambda>_ j'. journal_ok j' \<and> st_canonical_tokens (jn_current j') = st_canonical_tokens snapshot)
    (\<lambda>_ j'. recoverable j') j"
proof -
  obtain bytes where b: "jn_disk j = Some bytes" using ok by (auto simp: journal_ok_def)
  obtain t suffix where st: "stamp_snapshot (jn_identity j) (jn_current j) now snapshot = (t, suffix)"
    by (metis prod.exhaust)
  let ?R = "record_image (t, suffix)"
  have good: "journal_ok j' \<and> st_canonical_tokens (jn_current j') = st_canonical_tokens snapshot"
    if v: "validate_state_snapshot t (jn_identity j) = Inr ()" and c: "content (jn_current j') = content t"
      and p: "partly_appended j ?R (length ?R) j'" for j'
    using partly_appended_load [OF ok st v len p] p ok c contentD(1) [OF c] stamped_fields(1) [OF st v len]
    by (auto simp: journal_ok_def partly_appended_def)
  have bad: "recoverable j'"
    if v: "validate_state_snapshot t (jn_identity j) = Inr ()" and p: "partly_appended j ?R k j'" for j' k
    using partly_appended_load [OF ok st v len p] p ok
    by (auto simp: recoverable_def journal_ok_def partly_appended_def split: if_splits)
  show ?thesis
    by (rule wp_mono [OF journal_append_wp [OF b st]]) (use good bad journal_ok_recoverable [OF ok] in auto)
qed

lemma recoverable_reopen:
  assumes "recoverable j" "IoFailed \<notin> set io"
  shows "fst (new_journal (jn_path j) (jn_identity j) (jn_disk j) io []) = Inr ()"
  using assms reopen(1) by (auto simp: recoverable_def)

lemma journal_ok_reopen:
  assumes "journal_ok j" "IoFailed \<notin> set io"
  shows "fst (new_journal (jn_path j) (jn_identity j) (jn_disk j) io []) = Inr ()"
    "content (jn_current (snd (new_journal (jn_path j) (jn_identity j) (jn_disk j) io []))) = content (jn_current j)"
  using assms reopen(1,2) by (auto simp: journal_ok_def)

section \<open>The idempotence cache\<close>

lemma cache_ok_frame:
  assumes "rs_writer_response_order s' = rs_writer_response_order s" "rs_writer_responses s' = rs_writer_responses s"
    "rs_highest_writer_request_id s \<le> rs_highest_writer_request_id s'" "cache_ok s"
  shows "cache_ok s'"
  using assms by (auto simp: cache_ok_def intro: order_trans)

lemma cache_response_fields [simp]:
  "rs_executor (cache_response request response s) = rs_executor s"
  "rs_highest_writer_request_id (cache_response request response s) = rs_highest_writer_request_id s"
  "rs_active_writer_request_id (cache_response request response s) = rs_active_writer_request_id s"
  "rs_active_cancellation (cache_response request response s) = rs_active_cancellation s"
  "rs_published_frontiers (cache_response request response s) = rs_published_frontiers s"
  "rs_published_stats (cache_response request response s) = rs_published_stats s"
  "rs_published_poisoned (cache_response request response s) = rs_published_poisoned s"
  "rs_snapshot_journal (cache_response request response s) = rs_snapshot_journal s"
  "rs_session_hash (cache_response request response s) = rs_session_hash s"
  by (simp_all add: cache_response_def Let_def)

text \<open>A new entry is the newest; at most the oldest one goes.\<close>

lemma cache_response_ok:
  assumes ok: "cache_ok s" and new: "rs_writer_responses s (request_key request) = None"
    and hi: "rs_highest_writer_request_id s = request_key request"
    and id: "rp_request_id (rp_header response) = request_key request"
  shows "cache_ok (cache_response request response s)"
    "rs_writer_responses (cache_response request response s) (request_key request) =
       Some \<lparr> cw_fingerprint = request_fingerprint request, cw_response = response \<rparr>"
proof -
  let ?k = "request_key request"
  define order where "order = (if rq_opcode (rq_header request) = RpcReset then [] else rs_writer_response_order s)"
  define resp where "resp = (if rq_opcode (rq_header request) = RpcReset then Map.empty else rs_writer_responses s)"
  let ?e = "\<lparr> cw_fingerprint = request_fingerprint request, cw_response = response \<rparr>"
  have base: "sorted_wrt (<) order" "length order \<le> kMaximumCachedWriterResponses" "dom resp = set order"
    "\<forall>i \<in> set order. i < ?k" "\<forall>i c. resp i = Some c \<longrightarrow> rp_request_id (rp_header (cw_response c)) = i" "resp ?k = None"
    using ok new hi by (auto simp: cache_ok_def order_def resp_def le_less)
  have new': "?k \<notin> set order" using base(4) by auto
  have c: "cache_response request response s =
     (if length (order @ [?k]) > kMaximumCachedWriterResponses
      then s\<lparr>rs_writer_response_order := tl (order @ [?k]), rs_writer_responses := (resp(?k \<mapsto> ?e))(hd (order @ [?k]) := None)\<rparr>
      else s\<lparr>rs_writer_response_order := order @ [?k], rs_writer_responses := resp(?k \<mapsto> ?e)\<rparr>)"
    using base(6) unfolding cache_response_def Let_def order_def resp_def request_key_def by simp
  show "cache_ok (cache_response request response s)"
  proof (cases "length (order @ [?k]) > kMaximumCachedWriterResponses")
    case True
    then obtain i rest where o: "order = i # rest"
      by (cases order) (auto simp: kMaximumCachedWriterResponses_def)
    have "i \<noteq> ?k" "i \<notin> set rest" using base(1) new' o by auto
    then show ?thesis
      using True base new' hi id o unfolding c by (auto simp: cache_ok_def sorted_wrt_append)
  next
    case False
    then show ?thesis
      using base new' hi id unfolding c by (auto simp: cache_ok_def sorted_wrt_append)
  qed
  have "hd (order @ [?k]) \<noteq> ?k" if "length (order @ [?k]) > kMaximumCachedWriterResponses"
    using that new' by (cases order) (auto simp: kMaximumCachedWriterResponses_def)
  then show "rs_writer_responses (cache_response request response s) ?k = Some ?e" unfolding c by auto
qed

text \<open>Entries other than the new one are kept as they are or dropped.\<close>

lemma cache_response_entry:
  assumes "i \<noteq> request_key request"
  shows "rs_writer_responses (cache_response request response s) i \<in> {None, rs_writer_responses s i}"
  using assms by (auto simp: cache_response_def Let_def request_key_def)

section \<open>Cancellation of a registered token\<close>

definition dead :: "CancellationToken option \<Rightarrow> bool" where
  "dead c \<longleftrightarrow> (\<exists>t. c = Some t \<and> tk_state t \<noteq> TkActive \<and> tk_state t \<noteq> TkSealed)"

lemma dead_check:
  assumes "dead (ex_cancellation x)"
  shows "wp check_cancel (\<lambda>_ _. False) (\<lambda>_ z. sess z = sess x) x"
proof -
  obtain t where t: "ex_cancellation x = Some t" "tk_state t \<noteq> TkActive" "tk_state t \<noteq> TkSealed"
    using assms by (auto simp: dead_def)
  obtain r t' where run: "throw_if_requested t = (r, t')" by (cases "throw_if_requested t")
  have "\<exists>e. r = Inl e"
  proof (cases r)
    case (Inr u)
    from wp_returns [OF throw_if_requested_wp run [unfolded Inr]] t show ?thesis
      by (auto simp: token_after_def)
  qed simp
  then show ?thesis using t run by (auto simp: check_cancel_def on_token_def wp_def sess_def core_def)
qed


text \<open>Every writer polls its token before it changes anything.\<close>

lemma dead_then:
  assumes "dead (ex_cancellation y)"
  shows "wp (thenM check_cancel k) Q (\<lambda>_ z. sess z = sess y) y"
  unfolding wp_thenM by (rule wp_mono [OF dead_check [OF assms]]) simp_all

lemma dead_run_transaction:
  assumes "dead (ex_cancellation y)"
  shows "wp (run_transaction E kind ev chunk n r) Q (\<lambda>_ z. sess z = sess y) y"
  unfolding run_transaction_def transaction_guards_def ensure_healthy_def thenM_assoc
  by (simp add: wp_thenM [of "failIf _ _"] wp_failIf dead_then [OF assms])

lemma dead_decode_body:
  assumes "dead (ex_cancellation y)"
  shows "wp (decode_body E) Q (\<lambda>_ z. sess z = sess y) y"
  unfolding decode_body_def ensure_healthy_def
  by (simp add: wp_thenM [of "failIf _ _"] wp_failIf wp_bindM wp_liftE dead_run_transaction [OF assms] split: sum.split)

lemma dead_with_token:
  assumes "dead c" and "\<And>y. dead (ex_cancellation y) \<Longrightarrow> wp m Q (\<lambda>_ z. sess z = sess y) y"
  shows "wp (with_token c m) Q (\<lambda>_ z. sess z = sess x) x"
proof -
  let ?y = "x\<lparr>ex_cancellation := c\<rparr>"
  have "wp m Q (\<lambda>_ z. sess z = sess ?y) ?y" by (rule assms(2)) (use assms(1) in simp)
  moreover have "sess ?y = sess x" by (simp add: sess_def core_def)
  ultimately show ?thesis by (simp add: with_token_def wp_thenM wp_modifyM)
qed

lemma dead_dispatch:
  assumes "dead c" "is_writer_opcode (rq_opcode (rq_header request))"
  shows "wp (dispatch_writer R request c) (\<lambda>_ _. False) (\<lambda>_ z. sess z = sess x) x"
proof -
  have a: "wp (append E ids c) Q (\<lambda>_ z. sess z = sess x) x" for E ids Q
    unfolding append_def append_guards_def ensure_healthy_def thenM_assoc
    by (rule dead_with_token [OF assms(1)]) (simp add: wp_thenM [of "failIf _ _"] wp_failIf dead_then)
  have s: "wp (seed_decode c) Q (\<lambda>_ z. sess z = sess x) x" for Q
    unfolding seed_decode_def ensure_healthy_def
    by (rule dead_with_token [OF assms(1)]) (simp add: wp_thenM [of "failIf _ _"] wp_failIf dead_then)
  have d: "wp (decode_one E c) Q (\<lambda>_ z. sess z = sess x) x" for E Q
    unfolding decode_one_def by (rule dead_with_token [OF assms(1) dead_decode_body])
  have p: "wp (speculative_step E m c) Q (\<lambda>_ z. sess z = sess x) x" for E m Q
    unfolding speculative_step_def ensure_healthy_def
    by (rule dead_with_token [OF assms(1)]) (simp add: wp_thenM [of "failIf _ _"] wp_failIf dead_then)
  have r: "wp (with_token c (thenM check_cancel seal_cancel)) Q (\<lambda>_ z. sess z = sess x) x" for Q
    by (rule dead_with_token [OF assms(1) dead_then])
  show ?thesis
    using assms(2) a s d p r
    by (cases "rq_opcode (rq_header request)")
       (auto simp: dispatch_writer_def is_writer_opcode_def Let_def wp_bindM wp_thenM)
qed

section \<open>What a writer does to the session\<close>

lemma admit_writer_admitted:
  assumes "admit_writer request token s = (Admitted execute, s')"
  shows "rs_writer_responses s (request_key request) = None" "rs_highest_writer_request_id s < request_key request"
    "execute \<longleftrightarrow> \<not> rs_published_poisoned s"
    "s' = (if execute then s\<lparr>rs_highest_writer_request_id := request_key request,
         rs_active_writer_request_id := request_key request, rs_active_cancellation := Some token\<rparr>
       else s\<lparr>rs_highest_writer_request_id := request_key request\<rparr>)"
  using assms
  by (auto simp: admit_writer_def Let_def request_key_def not_le split: option.splits if_splits)

lemma admit_writer_answered: "admit_writer request token s = (Answered response, s') \<Longrightarrow> s' = s"
  by (auto simp: admit_writer_def Let_def split: option.splits if_splits)

lemma validate_key: "validate_executor_rpc_request request h = Inr () \<Longrightarrow> request_key request \<noteq> 0"
  by (auto simp: validate_executor_rpc_request_def request_key_def Let_def split: if_splits)

lemma handle_cancel_frame:
  assumes "handle_cancel request s = (response, s')"
  shows "s' = s\<lparr>rs_active_cancellation := rs_active_cancellation s'\<rparr>"
    "rs_active_cancellation s' = None \<longleftrightarrow> rs_active_cancellation s = None"
    "dead (rs_active_cancellation s) \<Longrightarrow> dead (rs_active_cancellation s')"
    "rp_status (rp_header response) = RpcOk \<Longrightarrow>
      rs_active_writer_request_id s = request_key request \<and> dead (rs_active_cancellation s')"
  using assms
  by (auto simp: handle_cancel_def Let_def request_cancel_def cas_state_def with_status_def dead_def request_key_def
      finalize_response_def split: option.splits if_splits)

context dual_stage
begin

definition acknowledged :: "RpcRequest \<Rightarrow> ('b0, 'b1) executor \<Rightarrow> i32 list \<Rightarrow> ('b0, 'b1) executor \<Rightarrow> bool" where
  "acknowledged request x tokens z \<longleftrightarrow> session_ok z \<and> \<not> ex_poisoned x \<and> \<not> ex_poisoned z \<and> ex_options z = ex_options x \<and>
     (case rq_opcode (rq_header request) of
        RpcAppend \<Rightarrow> tokens = [] \<and> ex_tokens z = ex_tokens x @ rq_tokens request
      | RpcReset \<Rightarrow> tokens = [] \<and> ex_tokens z = []
      | _ \<Rightarrow> tokens \<noteq> [] \<and> ex_tokens z = ex_tokens x @ tokens)"

lemma failed_facts:
  assumes "failed x e z"
  shows "outer z = outer x" "ex_poisoned x \<Longrightarrow> ex_poisoned z"
  using assms core_outer [of z x] by (auto simp: failed_def aborted_def sess_eq)

lemma dispatch_writer_wp:
  assumes ok: "session_ok x" and R: "rv_exec R = E" and w: "is_writer_opcode (rq_opcode (rq_header request))"
  shows "wp (dispatch_writer R request c) (\<lambda>(tokens, _) z. acknowledged request x tokens z) (\<lambda>e z. failed x e z) x"
proof -
  note defs = dispatch_writer_def R Let_def
  consider "rq_opcode (rq_header request) = RpcAppend" | "rq_opcode (rq_header request) = RpcSeed"
    | "rq_opcode (rq_header request) = RpcDecode" | "rq_opcode (rq_header request) = RpcSpeculative"
    | "rq_opcode (rq_header request) = RpcReset"
    using w by (auto simp: is_writer_opcode_def)
  then show ?thesis
  proof cases
    case 1
    then show ?thesis
      by (simp add: defs) (rule wp_thenI [OF append_wp [OF ok]], auto simp: wp_returnM acknowledged_def extended_def)
  next
    case 2
    then show ?thesis
      by (simp add: defs) (rule wp_bindI [OF seed_decode_wp [OF ok]],
        auto simp: wp_returnM acknowledged_def extended_def failed_same)
  next
    case 3
    then show ?thesis
      by (simp add: defs) (rule wp_bindI [OF decode_one_wp [OF ok]],
        auto simp: wp_returnM acknowledged_def extended_def decoded_def)
  next
    case 4
    then show ?thesis
      by (simp add: defs) (rule wp_bindI [OF speculative_step_wp [OF ok]],
        auto simp: wp_returnM acknowledged_def extended_def decoded_def)
  next
    case 5
    have k: "keeps sess (with_token c (thenM check_cancel seal_cancel))"
      unfolding with_token_def by (intro keeps_then keeps_modify) (simp_all add: sess_def core_def)
    have reset: "wp (thenM (reset_session E) (returnM ([], ''session state reset'')))
        (\<lambda>(tokens, _) z. acknowledged request x tokens z) (\<lambda>e z. failed x e z) y" if "sess y = sess x" for y
      by (rule wp_thenI [OF reset_session_wp [OF session_ok_sess [OF that ok]]])
         (use that 5 in \<open>auto simp: wp_returnM acknowledged_def fresh_def failed_same sess_eq dest: core_eqD\<close>)
    show ?thesis
      using 5 by (simp add: defs) (rule wp_then_keeps [OF k], auto simp: reset failed_same)
  qed
qed

text \<open>The response after execution and after the journal, with the session it belongs to.\<close>

definition executed :: "RpcRequest \<Rightarrow> ('b0, 'b1) executor \<Rightarrow> RpcResponse \<Rightarrow> ('b0, 'b1) executor \<Rightarrow> bool" where
  "executed request x response z \<longleftrightarrow> rp_request_id (rp_header response) = request_key request \<and>
     (if rp_status (rp_header response) = RpcOk then acknowledged request x (rp_tokens response) z
      else rp_tokens response = [] \<and> (\<exists>e. failed x e z))"

definition isolated :: "RpcRequest \<Rightarrow> ('b0, 'b1) executor \<Rightarrow> RpcResponse \<Rightarrow> ('b0, 'b1) executor \<Rightarrow> bool" where
  "isolated request x response z \<longleftrightarrow> rp_request_id (rp_header response) = request_key request \<and>
     rp_status (rp_header response) = RpcPoisoned \<and> rp_tokens response = [] \<and>
     (\<exists>us y. acknowledged request x us y \<and> z = y\<lparr>ex_poisoned := True\<rparr>)"

lemma executed_ok: "session_ok x \<Longrightarrow> executed request x response z \<Longrightarrow> session_ok z"
  by (auto simp: executed_def acknowledged_def intro: session_ok_failed split: if_splits)

lemma isolated_ok: "isolated request x response z \<Longrightarrow> session_ok z"
  by (auto simp: isolated_def acknowledged_def session_ok_def idle_def)

lemma status_of_exn_not_ok [simp]: "status_of_exn e p \<noteq> RpcOk"
  by (simp add: status_of_exn_def split: exn.split)

lemma execute_writer_facts:
  assumes run: "execute_writer R request execute s = (response, s1)" and R: "rv_exec R = E"
    and ok: "session_ok (rs_executor s)" and w: "is_writer_opcode (rq_opcode (rq_header request))"
  shows "\<exists>x1. s1 = s\<lparr>rs_executor := x1\<rparr> \<and> executed request (rs_executor s) response x1"
proof (cases execute)
  case False
  then show ?thesis using run failed_same [of "rs_executor s"]
    by (auto simp: execute_writer_def executed_def with_status_def response_base_def request_key_def
        intro!: exI [of _ "rs_executor s"])
next
  case True
  note f = dispatch_writer_wp [OF ok R w, of "rs_active_cancellation s"]
  obtain r x1 where d: "dispatch_writer R request (rs_active_cancellation s) (rs_executor s) = (r, x1)"
    by (metis prod.exhaust)
  show ?thesis
  proof (cases r)
    case (Inl e)
    then show ?thesis using run True d wp_fails [OF f d [unfolded Inl]]
      by (auto simp: execute_writer_def executed_def with_status_def response_base_def request_key_def)
  next
    case (Inr v)
    then show ?thesis using run True d wp_returns [OF f d [unfolded Inr]]
      by (auto simp: execute_writer_def executed_def response_base_def request_key_def empty_response_header_def
          split: prod.splits)
  qed
qed

lemma dead_execute_writer:
  assumes "execute_writer R request True s = (response, s1)" "dead (rs_active_cancellation s)"
    "is_writer_opcode (rq_opcode (rq_header request))"
  shows "rp_status (rp_header response) \<noteq> RpcOk \<and> (\<exists>x1. s1 = s\<lparr>rs_executor := x1\<rparr> \<and> sess x1 = sess (rs_executor s))"
proof -
  obtain r x1 where d: "dispatch_writer R request (rs_active_cancellation s) (rs_executor s) = (r, x1)"
    by (metis prod.exhaust)
  from dead_dispatch [OF assms(2,3), of R "rs_executor s"] d
  obtain e where "r = Inl e" "sess x1 = sess (rs_executor s)" by (cases r) (auto simp: wp_def)
  then show ?thesis using assms(1) d by (auto simp: execute_writer_def with_status_def Let_def)
qed

lemma executed_durable:
  assumes "durable s" "executed request (rs_executor s) response x1"
    "rs_snapshot_journal s = None \<or> rp_status (rp_header response) \<noteq> RpcOk"
  shows "durable (s\<lparr>rs_executor := x1\<rparr>)"
  using assms failed_facts [of "rs_executor s" _ x1] outer_eqD(3) [of x1 "rs_executor s"]
  by (auto simp: durable_def executed_def split: option.splits if_splits)

lemma journal_writer_facts:
  assumes run: "journal_writer R now (response, s\<lparr>rs_executor := x1\<rparr>) = (response', s')"
    and ex: "executed request (rs_executor s) response x1" and dur: "durable s" and ok: "session_ok (rs_executor s)"
  shows "\<exists>x2 j2. s' = s\<lparr>rs_executor := x2, rs_snapshot_journal := j2\<rparr> \<and> durable s' \<and>
    (j2 = None \<longleftrightarrow> rs_snapshot_journal s = None) \<and>
    (executed request (rs_executor s) response' x2 \<and> response' = response \<and> x2 = x1 \<or>
     j2 \<noteq> None \<and> isolated request (rs_executor s) response' x2)"
proof (cases "rs_snapshot_journal s = None \<or> rp_status (rp_header response) \<noteq> RpcOk")
  case True
  then have "response' = response" "s' = s\<lparr>rs_executor := x1\<rparr>"
    using run by (auto simp: journal_writer_def split: option.splits)
  then show ?thesis using ex executed_durable [OF dur ex True]
    by (intro exI [of _ x1] exI [of _ "rs_snapshot_journal s"]) simp
next
  case False
  then obtain j where j: "rs_snapshot_journal s = Some j" and st: "rp_status (rp_header response) = RpcOk" by auto
  have ack: "acknowledged request (rs_executor s) (rp_tokens response) x1" "rp_request_id (rp_header response) = request_key request"
    using ex st by (auto simp: executed_def)
  have jok: "journal_ok j" using dur j ack(1) by (simp add: durable_def acknowledged_def)
  have x1: "\<not> eng_active (ex_engine x1)" "length (ex_tokens x1) < 2 ^ 64"
    using ack(1) unat_u64_lt [of "e_canonical (ex_engine x1)"] by (simp_all add: acknowledged_def session_ok_def idle_def)
  obtain snap where sn: "executor_snapshot x1 = Inr snap" "st_canonical_tokens snap = ex_tokens x1"
    using x1(1) by (auto simp: executor_snapshot_def)
  obtain r j2 where ap: "journal_append now snap j = (r, j2)" by (metis prod.exhaust)
  have w: "wp (journal_append now snap) (\<lambda>_ j'. journal_ok j' \<and> st_canonical_tokens (jn_current j') = ex_tokens x1)
      (\<lambda>_ j'. recoverable j') j"
    using journal_append_owner_wp [OF jok, of snap now] sn(2) x1(2) by simp
  show ?thesis
  proof (cases r)
    case (Inr u)
    then have o2: "journal_ok j2" "st_canonical_tokens (jn_current j2) = ex_tokens x1"
      using wp_returns [OF w, of u j2] ap by simp_all
    have "response' = response" "s' = s\<lparr>rs_executor := x1, rs_snapshot_journal := Some j2\<rparr>"
      using run j st sn ap Inr by (auto simp: journal_writer_def)
    then show ?thesis using ex o2 j journal_ok_recoverable [OF o2(1)]
      by (intro exI [of _ x1] exI [of _ "Some j2"]) (simp add: durable_def)
  next
    case (Inl e)
    then have o2: "recoverable j2" using wp_fails [OF w, of e j2] ap by simp
    let ?x2 = "x1\<lparr>ex_poisoned := True\<rparr>"
    have "response' = with_status RpcPoisoned (''durable snapshot failed; session isolated: '' @ what R e)
        (response\<lparr>rp_tokens := []\<rparr>)" "s' = s\<lparr>rs_executor := ?x2, rs_snapshot_journal := Some j2\<rparr>"
      using run j st sn ap Inl by (auto simp: journal_writer_def fail_closed_def modifyM_def)
    then show ?thesis using ack o2 j
      by (intro exI [of _ ?x2] exI [of _ "Some j2"]) (auto simp: durable_def isolated_def with_status_def)
  qed
qed

text \<open>The invariant of a configuration.\<close>

definition service_ok :: "('b0, 'b1) rpc_config \<Rightarrow> bool" where
  "service_ok c \<longleftrightarrow> session_ok (rs_executor (fst c)) \<and> cache_ok (fst c) \<and> active_ok c \<and> published_ok (fst c) \<and>
     durable (fst c)"

text \<open>What a finished writer leaves behind.\<close>

definition settled :: "RpcRequest \<Rightarrow> ('b0, 'b1) rpc_service \<Rightarrow> RpcResponse \<Rightarrow> ('b0, 'b1) rpc_service \<Rightarrow> bool" where
  "settled request s response s' \<longleftrightarrow> service_ok (s', None) \<and>
     (executed request (rs_executor s) response (rs_executor s') \<or>
      rs_snapshot_journal s \<noteq> None \<and> isolated request (rs_executor s) response (rs_executor s')) \<and>
     rp_frontiers (rp_header response) = eng_frontiers (ex_engine (rs_executor s')) \<and>
     rs_writer_responses s' (request_key request) =
       Some \<lparr> cw_fingerprint = request_fingerprint request, cw_response = response \<rparr> \<and>
     rs_highest_writer_request_id s' = request_key request \<and>
     (\<forall>i. i \<noteq> request_key request \<longrightarrow> rs_writer_responses s' i \<in> {None, rs_writer_responses s i})"

lemma finalize_fields [simp]:
  "rp_request_id (rp_header (finalize_response f r)) = rp_request_id (rp_header r)"
  "rp_status (rp_header (finalize_response f r)) = rp_status (rp_header r)"
  "rp_frontiers (rp_header (finalize_response f r)) = f"
  "rp_tokens (finalize_response f r) = rp_tokens r" "rp_message (finalize_response f r) = rp_message r"
  by (simp_all add: finalize_response_def)

lemma complete_writer_settled:
  assumes ok: "service_ok (s, Some (request, execute))" and R: "rv_exec R = E"
    and run: "complete_writer R now request execute s = (response, s')"
  shows "settled request s response s'"
proof -
  have o: "session_ok (rs_executor s)" "cache_ok s" "durable s" and
    a: "is_writer_opcode (rq_opcode (rq_header request))" "request_key request = rs_highest_writer_request_id s"
      "request_key request \<noteq> 0" "rs_writer_responses s (request_key request) = None"
      "rs_active_writer_request_id s \<in> {0, request_key request}"
      "rs_active_writer_request_id s = 0 \<Longrightarrow> rs_active_cancellation s = None"
    using ok by (auto simp: service_ok_def active_ok_def split: if_splits)
  obtain r1 s1 where e1: "execute_writer R request execute s = (r1, s1)" by (metis prod.exhaust)
  obtain x1 where x1: "s1 = s\<lparr>rs_executor := x1\<rparr>" "executed request (rs_executor s) r1 x1"
    using execute_writer_facts [OF e1 R o(1) a(1)] by blast
  obtain r2 s2 where e2: "journal_writer R now (r1, s\<lparr>rs_executor := x1\<rparr>) = (r2, s2)" by (metis prod.exhaust)
  obtain x2 j2 where s2: "s2 = s\<lparr>rs_executor := x2, rs_snapshot_journal := j2\<rparr>" "durable s2"
    "j2 = None \<longleftrightarrow> rs_snapshot_journal s = None"
    and out: "executed request (rs_executor s) r2 x2 \<or> j2 \<noteq> None \<and> isolated request (rs_executor s) r2 x2"
    using journal_writer_facts [OF e2 x1(2) o(3,1)] by metis
  define s3 where "s3 = s2\<lparr>rs_published_frontiers := eng_frontiers (ex_engine x2), rs_published_stats := ex_stats x2,
    rs_published_poisoned := ex_poisoned x2, rs_active_writer_request_id := 0, rs_active_cancellation := None\<rparr>"
  define r3 where "r3 = finalize_response (eng_frontiers (ex_engine x2)) r2"
  have "publish_writer request (r2, s2) = (r3, cache_response request r3 s3)"
    using a(5,6) s2(1) by (cases s) (auto simp: publish_writer_def Let_def s3_def r3_def request_key_def)
  then have res: "response = r3" "s' = cache_response request r3 s3"
    using run e1 e2 x1(1) by (auto simp: complete_writer_def)
  have sx: "session_ok x2" using out executed_ok [OF o(1)] isolated_ok by blast
  have id: "rp_request_id (rp_header r3) = request_key request" using out by (auto simp: r3_def executed_def isolated_def)
  have f3: "rs_writer_response_order s3 = rs_writer_response_order s" "rs_writer_responses s3 = rs_writer_responses s"
    "rs_highest_writer_request_id s3 = rs_highest_writer_request_id s" "rs_executor s3 = x2" "rs_snapshot_journal s3 = j2"
    by (simp_all add: s3_def s2(1))
  have c3: "cache_ok s3" by (rule cache_ok_frame [OF f3(1,2) _ o(2)]) (simp add: f3)
  note c = cache_response_ok [OF c3 _ _ id, unfolded f3, OF a(4) a(2) [symmetric]]
  have "durable (cache_response request r3 s3)" using s2(2) by (simp add: durable_def s3_def s2(1))
  moreover have "published_ok (cache_response request r3 s3)" by (simp add: published_ok_def s3_def s2(1))
  moreover have "active_ok (cache_response request r3 s3, None)" by (simp add: active_ok_def s3_def)
  ultimately have "service_ok (s', None)" unfolding service_ok_def res(2) using c(1) sx by (simp add: f3)
  moreover have "executed request (rs_executor s) r3 x2 \<or> j2 \<noteq> None \<and> isolated request (rs_executor s) r3 x2"
    using out by (auto simp: r3_def executed_def isolated_def)
  ultimately show ?thesis
    using c(2) a(2) s2(3) cache_response_entry [of _ request r3 s3]
    unfolding settled_def res by (simp add: f3 r3_def)
qed

lemma step_service_ok:
  assumes "rpc_step R c d" "service_ok c" "rv_exec R = E"
  shows "service_ok d"
  using assms(1)
proof (cases rule: rpc_step.cases)
  case (admitted request s now env execute s')
  note a = admit_writer_admitted [OF admitted(5)] validate_key [OF admitted(3)]
  have o: "session_ok (rs_executor s)" "cache_ok s" "published_ok s" "durable s" "active_ok (s, None)"
    using assms(2) admitted(1) by (simp_all add: service_ok_def)
  have "cache_ok s'" by (rule cache_ok_frame [OF _ _ _ o(2)]) (use a in \<open>simp_all add: less_imp_le\<close>)
  then show ?thesis
    using o a admitted(2,4)
    by (cases execute) (simp_all add: service_ok_def active_ok_def published_ok_def durable_def split: option.splits)
next
  case (answered request s token response s')
  then show ?thesis
    using assms(2) admit_writer_answered by blast
next
  case (cancel request s response s' p)
  define c where "c = rs_active_cancellation s'"
  have s': "s' = s\<lparr>rs_active_cancellation := c\<rparr>" "c = None \<longleftrightarrow> rs_active_cancellation s = None"
    using handle_cancel_frame(1,2) [OF cancel(4)] by (simp_all add: c_def)
  show ?thesis using assms(2) s'(2) unfolding cancel(1,2) s'(1)
    by (auto simp: service_ok_def active_ok_def published_ok_def durable_def cache_ok_def split: option.splits)
next
  case (completed now request execute s response s')
  then show ?thesis
    using complete_writer_settled [OF _ assms(3) completed(3)] assms(2) by (simp add: settled_def)
next
  case (environment s p ns vs io calls)
  have "session_ok x \<Longrightarrow> session_ok (x\<lparr>ex_elapsed := ns', ex_views := vs'\<rparr>)" for x ns' vs'
    by (rule session_ok_sess) (simp_all add: sess_def core_def)
  then show ?thesis
    using assms(2) environment
    by (auto simp: service_ok_def active_ok_def published_ok_def durable_def cache_ok_def split: option.splits)
qed

lemma reachable_service_ok:
  "rpc_reachable R s0 c \<Longrightarrow> service_ok (s0, None) \<Longrightarrow> rv_exec R = E \<Longrightarrow> service_ok c"
  by (induction rule: rpc_reachable.induct) (auto intro: step_service_ok)

lemma new_rpc_service_ok:
  assumes "new_rpc_service x hash path logits disk io calls = Inr s" "fresh x"
  shows "service_ok (s, None)"
proof -
  have e: "st_canonical_tokens (jn_current j) = []" if "journal_ok j" "journal_empty j" for j
  proof -
    from that(1) obtain bytes t where t: "load_from (jn_identity j) bytes 0 empty_snapshot = Inr (t, length bytes)"
      "content t = content (jn_current j)" by (auto simp: journal_ok_def)
    have "sn_sequence (st_header t) = 0" using contentD(2) [OF t(2)] that(2) by (simp add: journal_empty_def)
    then have "t = empty_snapshot" using load_from_valid [OF t(1)] validate_extent(1) [of t "jn_identity j"] by auto
    then show ?thesis using contentD(1) [OF t(2)] by (simp add: empty_snapshot_def)
  qed
  have j: "durable s"
  proof (cases "rs_snapshot_journal s")
    case None
    then show ?thesis by (simp add: durable_def)
  next
    case (Some j)
    then have j: "new_journal path (eo_identity (ex_options x)) disk io calls = (Inr (), j)" "journal_empty j"
      "rs_executor s = x"
      using assms(1) by (auto simp: new_rpc_service_def Let_def split: if_splits sum.splits prod.splits)
    have "journal_ok j" by (rule new_journal_ok [OF j(1)])
    with e [OF this j(2)] journal_ok_recoverable [OF this] Some j(3) assms(2) show ?thesis
      by (simp add: durable_def fresh_def)
  qed
  show ?thesis
    using assms j
    by (auto simp: new_rpc_service_def Let_def service_ok_def fresh_def cache_ok_def active_ok_def published_ok_def
        kMaximumCachedWriterResponses_def split: if_splits sum.splits prod.splits)
qed

text \<open>A finished request is never executed again, and its answer never changes.\<close>

definition spent :: "u64 \<Rightarrow> CachedWriterResponse \<Rightarrow> ('b0, 'b1) rpc_config \<Rightarrow> bool" where
  "spent k entry c \<longleftrightarrow> k \<le> rs_highest_writer_request_id (fst c) \<and>
     rs_writer_responses (fst c) k \<in> {None, Some entry} \<and>
     (\<forall>request execute. snd c = Some (request, execute) \<longrightarrow> request_key request \<noteq> k)"

lemma step_spent:
  assumes "rpc_step R c d" "service_ok c" "rv_exec R = E" "spent k entry c"
  shows "spent k entry d"
  using assms(1)
proof (cases rule: rpc_step.cases)
  case (admitted request s now env execute s')
  note a = admit_writer_admitted [OF admitted(5)]
  have "k < request_key request" using a(2) assms(4) admitted(1) by (auto simp: spent_def)
  then show ?thesis using a(4) assms(4) admitted(1,2) by (auto simp: spent_def)
next
  case (answered request s token response s')
  then show ?thesis using assms(4) admit_writer_answered by blast
next
  case (cancel request s response s' p)
  define c' where "c' = rs_active_cancellation s'"
  have "s' = s\<lparr>rs_active_cancellation := c'\<rparr>" using handle_cancel_frame(1) [OF cancel(4)] by (simp add: c'_def)
  then show ?thesis using assms(4) cancel(1,2) by (auto simp: spent_def)
next
  case (completed now request execute s response s')
  have "settled request s response s'"
    using complete_writer_settled [OF _ assms(3) completed(3)] assms(2) completed(1) by simp
  moreover have "k \<le> request_key request" "k \<noteq> request_key request"
    using assms(2,4) completed(1) by (auto simp: spent_def service_ok_def active_ok_def split: if_splits)
  ultimately show ?thesis using assms(4) completed(1,2) by (auto simp: settled_def spent_def)
qed (use assms(4) in \<open>auto simp: spent_def\<close>)

lemma steps_spent:
  assumes "(rpc_step R)\<^sup>*\<^sup>* c d" "service_ok c" "rv_exec R = E" "spent k entry c"
  shows "spent k entry d \<and> service_ok d"
  using assms by (induction rule: rtranclp_induct) (auto intro: step_spent step_service_ok)

lemma spent_answer:
  assumes "spent k entry (s, None)" "request_key request = k" "cache_ok s"
  shows "case handle_writer R now token request s of (answer, s') \<Rightarrow> s' = s \<and>
    (if k \<notin> set (rs_writer_response_order s) then rp_status (rp_header answer) = RpcFailedPrecondition
     else if request_fingerprint request = cw_fingerprint entry then answer = cw_response entry
     else rp_status (rp_header answer) = RpcBadRequest)"
proof -
  have "k \<in> set (rs_writer_response_order s) \<longleftrightarrow> rs_writer_responses s k \<noteq> None"
    using assms(3) by (auto simp: cache_ok_def)
  then show ?thesis
    using assms(1,2)
    by (auto simp: spent_def handle_writer_def admit_writer_def Let_def request_key_def with_status_def split: option.splits)
qed

text \<open>A cancelled writer waits for nothing but its refusal.\<close>

definition condemned :: "('b0, 'b1) rpc_service \<Rightarrow> ('b0, 'b1) rpc_service \<Rightarrow> bool" where
  "condemned s s' \<longleftrightarrow> dead (rs_active_cancellation s') \<and> sess (rs_executor s') = sess (rs_executor s) \<and>
     map_option jn_disk (rs_snapshot_journal s') = map_option jn_disk (rs_snapshot_journal s)"

lemma step_condemned:
  assumes "rpc_step R (a, Some p) (b, Some p)" "condemned s a"
  shows "condemned s b"
  using assms(1)
proof (cases rule: rpc_step.cases)
  case (cancel request response)
  define c where "c = rs_active_cancellation b"
  have "b = a\<lparr>rs_active_cancellation := c\<rparr>" "dead c"
    using handle_cancel_frame(1,3) [OF cancel(2)] assms(2) by (simp_all add: c_def condemned_def)
  then show ?thesis using assms(2) by (simp add: condemned_def)
next
  case (environment ns vs io calls)
  then show ?thesis using assms(2)
    by (cases "rs_snapshot_journal a") (simp_all add: condemned_def sess_def core_def)
qed

lemma condemned_complete:
  assumes "complete_writer R now request True a = (response, s')" "condemned s a"
    "is_writer_opcode (rq_opcode (rq_header request))"
  shows "rp_status (rp_header response) \<noteq> RpcOk \<and> sess (rs_executor s') = sess (rs_executor s) \<and>
    map_option jn_disk (rs_snapshot_journal s') = map_option jn_disk (rs_snapshot_journal s)"
proof -
  obtain r1 s1 where e1: "execute_writer R request True a = (r1, s1)" by (metis prod.exhaust)
  from dead_execute_writer [OF e1 _ assms(3)] assms(2)
  obtain x1 where x1: "rp_status (rp_header r1) \<noteq> RpcOk" "s1 = a\<lparr>rs_executor := x1\<rparr>" "sess x1 = sess (rs_executor s)"
    by (auto simp: condemned_def)
  have "journal_writer R now (r1, s1) = (r1, s1)" using x1(1) by (simp add: journal_writer_def split: option.split)
  then show ?thesis
    using assms(1,2) e1 x1 by (auto simp: complete_writer_def publish_writer_def Let_def condemned_def split: if_splits)
qed

end

section \<open>The service on the mock executor\<close>

lemma mock_service_ok:
  assumes "make_mock_executor fo padding options = Inr x0" "new_rpc_service x0 hash path logits disk io calls = Inr s0"
    "rpc_reachable R s0 c" "rv_exec R = mock_env fo"
  shows "dual_mock.service_ok c"
  by (rule dual_mock.reachable_service_ok [OF assms(3) dual_mock.new_rpc_service_ok [OF assms(2) make_mock_fresh [OF assms(1)]] assms(4)])

lemma mock_settled:
  assumes "make_mock_executor fo padding options = Inr x0" "new_rpc_service x0 hash path logits disk io calls = Inr s0"
    "rpc_reachable R s0 (s, Some (request, execute))" "rv_exec R = mock_env fo"
    "complete_writer R now request execute s = (response, s')"
  shows "dual_mock.settled request s response s'"
  by (rule dual_mock.complete_writer_settled [OF mock_service_ok [OF assms(1-4)] assms(4,5)])

text \<open>Concrete requests on the mock executor of \<open>demo_options\<close>.\<close>

definition demo_env :: "(mock_backend, mock_backend, int, int) rpc_env" where
  "demo_env = \<lparr> rv_exec = mock_env int_float_ops, rv_metrics_json = \<lambda>_. [], rv_library_what = \<lambda>_. [] \<rparr>"

definition demo_request :: "RpcOpcode \<Rightarrow> u64 \<Rightarrow> i32 list \<Rightarrow> RpcRequest" where
  "demo_request opcode k tokens = \<lparr> rq_header = empty_request_header\<lparr>rq_request_id := k, rq_session_hash := 7,
     rq_opcode := opcode, rq_token_count := word_of_nat (length tokens), rq_argument0 := (if opcode = RpcDecode then 1 else 0),
     rq_payload_bytes := word_of_nat (length tokens) * 4\<rparr>, rq_tokens = tokens \<rparr>"

lemma demo_env_exec [simp]: "rv_exec demo_env = mock_env int_float_ops"
  by (simp add: demo_env_def)

lemma demo_request_fields [simp]:
  "rq_request_id (rq_header (demo_request opcode k tokens)) = k" "rq_opcode (rq_header (demo_request opcode k tokens)) = opcode"
  "request_key (demo_request opcode k tokens) = k" "rq_timeout_ms (rq_header (demo_request opcode k tokens)) = 0"
  "rq_tokens (demo_request opcode k tokens) = tokens"
  by (simp_all add: demo_request_def request_key_def empty_request_header_def)

lemma demo_request_valid:
  "k \<noteq> 0 \<Longrightarrow> validate_executor_rpc_request (demo_request RpcAppend k [3, 1]) 7 = Inr ()"
  "k \<noteq> 0 \<Longrightarrow> validate_executor_rpc_request (demo_request RpcDecode k []) 7 = Inr ()"
  "k \<noteq> 0 \<Longrightarrow> validate_executor_rpc_request (demo_request RpcReset k []) 7 = Inr ()"
  "k \<noteq> 0 \<Longrightarrow> validate_executor_rpc_request (demo_request RpcCancel k []) 7 = Inr ()"
  by (simp_all add: validate_executor_rpc_request_def validate_rpc_arguments_def demo_request_def empty_request_header_def
      valid_opcode_def is_writer_opcode_def kExecutorRpcMaximumPayload_def kMaximumStepsPerRequest_def)

lemma demo_service:
  assumes "path = [] \<or> path = ''j''"
  shows "\<exists>x0 s0. make_mock_executor int_float_ops [0, 0, 0, 0] demo_options = Inr x0 \<and>
    new_rpc_service x0 7 path False None [] [] = Inr s0 \<and> rs_session_hash s0 = 7 \<and> rs_executor s0 = x0 \<and>
    rs_writer_responses s0 = Map.empty \<and> rs_highest_writer_request_id s0 = 0 \<and> \<not> rs_published_poisoned s0 \<and>
    (rs_snapshot_journal s0 = None \<longleftrightarrow> path = []) \<and>
    (\<forall>j. rs_snapshot_journal s0 = Some j \<longrightarrow> jn_io j = [] \<and> jn_calls j = [] \<and>
       jn_identity j = eo_identity (ex_options x0) \<and> sn_sequence (st_header (jn_current j)) = 0)"
proof -
  obtain x0 where x0: "make_mock_executor int_float_ops [0, 0, 0, 0] demo_options = Inr x0" "\<not> ex_poisoned x0"
    using demo_executor by blast
  let ?id = "eo_identity (ex_options x0)"
  have j: "new_journal ''j'' ?id None [] [] = (Inr (), \<lparr> jn_path = ''j'', jn_identity = ?id, jn_current = empty_snapshot,
      jn_disk = Some [], jn_io = [], jn_calls = [] \<rparr>)"
    using mock_identity(2) [OF x0(1) exec_reachable.start]
    by (simp add: new_journal_def open_journal_def journal_load_def sys_call_def run_simps)
  show ?thesis
    using assms x0 j
    by (auto simp: new_rpc_service_def Let_def journal_empty_def empty_snapshot_def empty_snapshot_header_def)
qed

text \<open>A fresh valid writer is admitted.\<close>

lemma demo_admit:
  assumes "validate_executor_rpc_request request (rs_session_hash s) = Inr ()" "is_writer_opcode (rq_opcode (rq_header request))"
    "rs_writer_responses s (request_key request) = None" "rs_highest_writer_request_id s < request_key request"
    "\<not> rs_published_poisoned s" "rq_timeout_ms (rq_header request) = 0"
  shows "rpc_step R (s, None) (s\<lparr>rs_highest_writer_request_id := request_key request,
    rs_active_writer_request_id := request_key request, rs_active_cancellation := Some (new_token 0 0 [])\<rparr>, Some (request, True))"
  by (rule rpc_step.admitted [OF assms(1,2), where now = 0 and env = "[]"])
     (use assms(3-6) in \<open>simp add: admit_writer_def Let_def request_key_def not_le\<close>)

lemma demo_running:
  assumes "path = [] \<or> path = ''j''" "validate_executor_rpc_request request 7 = Inr ()"
    "is_writer_opcode (rq_opcode (rq_header request))" "rq_timeout_ms (rq_header request) = 0"
  shows "\<exists>x0 s0 s. make_mock_executor int_float_ops [0, 0, 0, 0] demo_options = Inr x0 \<and>
    new_rpc_service x0 7 path False None [] [] = Inr s0 \<and> rpc_reachable demo_env s0 (s, Some (request, True)) \<and>
    rs_executor s = x0 \<and> rs_session_hash s = 7 \<and> rs_active_writer_request_id s = request_key request \<and>
    rs_active_cancellation s = Some (new_token 0 0 []) \<and> (rs_snapshot_journal s = None \<longleftrightarrow> path = []) \<and>
    (\<forall>j. rs_snapshot_journal s = Some j \<longrightarrow> jn_io j = [] \<and> jn_calls j = [] \<and>
       jn_identity j = eo_identity (ex_options x0) \<and> sn_sequence (st_header (jn_current j)) = 0)"
proof -
  obtain x0 s0 where x: "make_mock_executor int_float_ops [0, 0, 0, 0] demo_options = Inr x0"
    "new_rpc_service x0 7 path False None [] [] = Inr s0" "rs_session_hash s0 = 7" "rs_writer_responses s0 = Map.empty"
    "rs_highest_writer_request_id s0 = 0" "\<not> rs_published_poisoned s0" "rs_executor s0 = x0"
    "rs_snapshot_journal s0 = None \<longleftrightarrow> path = []"
    "\<forall>j. rs_snapshot_journal s0 = Some j \<longrightarrow> jn_io j = [] \<and> jn_calls j = [] \<and>
       jn_identity j = eo_identity (ex_options x0) \<and> sn_sequence (st_header (jn_current j)) = 0"
    using demo_service [OF assms(1)] by (elim exE conjE) metis
  have "rs_highest_writer_request_id s0 < request_key request"
    using validate_key [OF assms(2)] x(5) by (simp add: word_gt_0)
  from demo_admit [of request s0 demo_env, OF _ assms(3) _ this x(6) assms(4)] assms(2) x(3,4)
  have "rpc_reachable demo_env s0 (s0\<lparr>rs_highest_writer_request_id := request_key request,
      rs_active_writer_request_id := request_key request, rs_active_cancellation := Some (new_token 0 0 [])\<rparr>, Some (request, True))"
    by (intro rpc_reachable.step [OF rpc_reachable.start]) simp
  then show ?thesis using x by (intro exI conjI) (assumption | simp)+
qed

text \<open>A decode before any append is refused.\<close>

lemma demo_decode:
  assumes "make_mock_executor fo padding options = Inr x0" "rs_executor s = x0" "rs_snapshot_journal s = None"
    "complete_writer demo_env 9 (demo_request RpcDecode k []) True s = (response, s')"
  shows "rp_status (rp_header response) = RpcInternal" "rs_session_hash s' = rs_session_hash s"
    "\<not> rs_published_poisoned s'" "rs_snapshot_journal s' = None"
proof -
  have "\<not> ex_poisoned x0" "x_pending x0 = 0"
    using make_mock_fresh [OF assms(1)] by (simp_all add: dual_mock.fresh_def x_pending_def empty_frontiers_def)
  then show "rp_status (rp_header response) = RpcInternal" "rs_session_hash s' = rs_session_hash s"
    "\<not> rs_published_poisoned s'" "rs_snapshot_journal s' = None"
    using assms(2-4)
    by (auto simp: complete_writer_def execute_writer_def dispatch_writer_def decode_one_def decode_body_def with_token_def
        ensure_healthy_def x_pending_def run_simps journal_writer_def publish_writer_def with_status_def status_of_exn_def Let_def
        split: if_splits)
qed

section \<open>Properties\<close>



text \<open>
  C1: An acknowledged writer is done, published and durable. When an admitted writer answers with
  status OK, the canonical tokens grew by exactly the appended or returned tokens (or are empty
  after a reset), the frontiers of the answer are the session's, the executor is healthy, and
  opening the journal's file afterwards, however reads are cut or interrupted, finds exactly these
  tokens.
\<close>

theorem writer_acknowledged:
  assumes "make_mock_executor fo padding options = Inr x0" and "new_rpc_service x0 hash path logits disk io calls = Inr s0"
    and "rpc_reachable R s0 (s, Some (request, execute))" and "rv_exec R = mock_env fo"
    and "complete_writer R now request execute s = (response, s')" and "rp_status (rp_header response) = RpcOk"
  shows "ex_tokens (rs_executor s') =
      (case rq_opcode (rq_header request) of RpcReset \<Rightarrow> []
       | RpcAppend \<Rightarrow> ex_tokens (rs_executor s) @ rq_tokens request
       | _ \<Rightarrow> ex_tokens (rs_executor s) @ rp_tokens response) \<and>
    rp_frontiers (rp_header response) = eng_frontiers (ex_engine (rs_executor s')) \<and>
    \<not> ex_poisoned (rs_executor s') \<and>
    (\<forall>j io'. rs_snapshot_journal s' = Some j \<and> IoFailed \<notin> set io' \<longrightarrow>
       (case new_journal (jn_path j) (jn_identity j) (jn_disk j) io' [] of (r, j2) \<Rightarrow>
          r = Inr () \<and> st_canonical_tokens (jn_current j2) = ex_tokens (rs_executor s')))"
proof -
  have st: "dual_mock.settled request s response s'" by (rule mock_settled [OF assms(1-5)])
  then have a: "dual_mock.acknowledged request (rs_executor s) (rp_tokens response) (rs_executor s')"
    using assms(6) by (auto simp: dual_mock.settled_def dual_mock.executed_def dual_mock.isolated_def)
  have d: "durable s'" using st by (simp add: dual_mock.settled_def dual_mock.service_ok_def)
  have "case new_journal (jn_path j) (jn_identity j) (jn_disk j) io' [] of (r, j2) \<Rightarrow>
      r = Inr () \<and> st_canonical_tokens (jn_current j2) = ex_tokens (rs_executor s')"
    if "rs_snapshot_journal s' = Some j" "IoFailed \<notin> set io'" for j io'
  proof -
    have j: "journal_ok j" "st_canonical_tokens (jn_current j) = ex_tokens (rs_executor s')"
      using d a that(1) by (simp_all add: durable_def dual_mock.acknowledged_def)
    show ?thesis
      using journal_ok_reopen [OF j(1) that(2)] contentD(1) [OF journal_ok_reopen(2) [OF j(1) that(2)]] j(2)
      by (simp add: split_beta)
  qed
  then show ?thesis
    using a st by (auto simp: dual_mock.acknowledged_def dual_mock.settled_def split: RpcOpcode.splits)
qed

theorem writer_acknowledged_witness:
  "\<exists>x0 s0 s response s' j. make_mock_executor int_float_ops [0, 0, 0, 0] demo_options = Inr x0 \<and>
     new_rpc_service x0 7 ''j'' False None [] [] = Inr s0 \<and>
     complete_writer demo_env 9 (demo_request RpcReset 5 []) True s = (response, s') \<and>
     rp_status (rp_header response) = RpcOk \<and> rs_snapshot_journal s' = Some j \<and>
     fst (new_journal (jn_path j) (jn_identity j) (jn_disk j) [IoCount 1] []) = Inr ()"
proof -
  let ?q = "demo_request RpcReset 5 []"
  obtain x0 s0 s where x: "make_mock_executor int_float_ops [0, 0, 0, 0] demo_options = Inr x0"
    "new_rpc_service x0 7 ''j'' False None [] [] = Inr s0" "rpc_reachable demo_env s0 (s, Some (?q, True))"
    "rs_executor s = x0" "rs_active_cancellation s = Some (new_token 0 0 [])" "rs_snapshot_journal s \<noteq> None"
    and jq: "\<forall>j. rs_snapshot_journal s = Some j \<longrightarrow> jn_io j = [] \<and> jn_calls j = [] \<and>
       jn_identity j = eo_identity (ex_options x0) \<and> sn_sequence (st_header (jn_current j)) = 0"
    using demo_running [of "''j''", OF _ demo_request_valid(3) [of 5]] by (auto simp: is_writer_opcode_def)
  have ok: "dual_mock.session_ok x0" "\<not> ex_poisoned x0"
    using make_mock_fresh [OF x(1)] by (simp_all add: dual_mock.fresh_def)
  have tok: "with_token (Some (new_token 0 0 [])) (thenM check_cancel seal_cancel) x0 =
      (Inr (), x0\<lparr>ex_cancellation := Some ((new_token 0 0 [])\<lparr>tk_state := TkSealed\<rparr>)\<rparr>)"
    by (simp add: with_token_def check_cancel_def seal_cancel_def on_token_def token_seal_def throw_if_requested_def
        expire_deadline_def env_turn_def cas_state_def new_token_def run_simps)
  let ?x = "x0\<lparr>ex_cancellation := Some ((new_token 0 0 [])\<lparr>tk_state := TkSealed\<rparr>)\<rparr>"
  have "sess ?x = sess x0" by (simp add: sess_def core_def)
  from dual_mock.reset_session_wp [where fo = int_float_ops, OF dual_mock.session_ok_sess [OF this ok(1)]] ok(2)
  obtain z where z: "reset_session (mock_env int_float_ops) ?x = (Inr (), z)" "dual_mock.fresh z" "ex_options z = ex_options x0"
    by (cases "reset_session (mock_env int_float_ops) ?x") (auto simp: wp_def split: sum.splits)
  obtain j where j: "rs_snapshot_journal s = Some j" using x(6) by blast
  have q: "jn_io j = []" "jn_calls j = []" "jn_identity j = eo_identity (ex_options z)"
    "sn_sequence (st_header (jn_current j)) = 0" using jq j z(3) by simp_all
  obtain snap where sn: "executor_snapshot z = Inr snap"
    using z(2) by (auto simp: executor_snapshot_def dual_mock.fresh_def dual_mock.session_ok_def dual_mock.idle_def)
  have "fst (journal_append 9 snap j) = Inr ()"
    by (rule session_append_quiet [OF _ _ sn q(3) _ q(1,2)])
       (use z(2,3) q(4) mock_identity(1) [OF x(1) exec_reachable.start] in \<open>simp_all add: dual_mock.fresh_def\<close>)
  then obtain j2 where ap: "journal_append 9 snap j = (Inr (), j2)" by (metis prod.collapse)
  obtain response s' where run: "complete_writer demo_env 9 ?q True s = (response, s')" by (metis prod.exhaust)
  have st: "rp_status (rp_header response) = RpcOk" "rs_snapshot_journal s' = Some j2"
    using run x(4,5) tok z(1) sn ap j
    by (auto simp: complete_writer_def execute_writer_def dispatch_writer_def thenM_def bindM_def returnM_def journal_writer_def
        publish_writer_def response_base_def empty_response_header_def Let_def)
  from writer_acknowledged [OF x(1-3) demo_env_exec run st(1)] st x(1,2) run show ?thesis by (fastforce simp: split_beta)
qed

text \<open>
  C11: A writer that is not acknowledged has no effect. Any other status means that no tokens are
  returned and the session (tokens, sampler, pending sample, options) is as before, with one
  exception: the step was executed but its snapshot could not be made durable; then the executor is
  fail-closed, so nothing can build on the unacknowledged tokens.
\<close>

theorem writer_refused:
  assumes "make_mock_executor fo padding options = Inr x0" and "new_rpc_service x0 hash path logits disk io calls = Inr s0"
    and "rpc_reachable R s0 (s, Some (request, execute))" and "rv_exec R = mock_env fo"
    and "complete_writer R now request execute s = (response, s')" and "rp_status (rp_header response) \<noteq> RpcOk"
  shows "rp_tokens response = [] \<and>
    (outer (rs_executor s') = outer (rs_executor s) \<or>
     rs_snapshot_journal s \<noteq> None \<and> rp_status (rp_header response) = RpcPoisoned \<and> ex_poisoned (rs_executor s'))"
proof -
  have "dual_mock.settled request s response s'" by (rule mock_settled [OF assms(1-5)])
  then show ?thesis
    using assms(6) dual_mock.failed_facts(1) [of "rs_executor s" _ "rs_executor s'"]
    by (auto simp: dual_mock.settled_def dual_mock.executed_def dual_mock.isolated_def)
qed

theorem writer_refused_witness:
  "\<exists>x0 s0 s response s'. make_mock_executor int_float_ops [0, 0, 0, 0] demo_options = Inr x0 \<and>
     new_rpc_service x0 7 [] False None [] [] = Inr s0 \<and>
     complete_writer demo_env 9 (demo_request RpcDecode 5 []) True s = (response, s') \<and>
     rp_status (rp_header response) = RpcInternal \<and> rp_tokens response = [] \<and>
     outer (rs_executor s') = outer (rs_executor s)"
proof -
  let ?q = "demo_request RpcDecode 5 []"
  obtain x0 s0 s where x: "make_mock_executor int_float_ops [0, 0, 0, 0] demo_options = Inr x0"
    "new_rpc_service x0 7 [] False None [] [] = Inr s0" "rpc_reachable demo_env s0 (s, Some (?q, True))"
    "rs_executor s = x0" "rs_snapshot_journal s = None"
    using demo_running [of "[]", OF _ demo_request_valid(2) [of 5]] by (auto simp: is_writer_opcode_def)
  obtain response s' where run: "complete_writer demo_env 9 ?q True s = (response, s')" by (metis prod.exhaust)
  have "rp_status (rp_header response) = RpcInternal" by (rule demo_decode(1) [OF x(1,4,5) run])
  with writer_refused [OF x(1-3) demo_env_exec run] x(1,2,5) run show ?thesis by fastforce
qed





text \<open>
  C8: The service never loses its journal. In every reachable state, also after failed writes and
  syncs, the journal's file can be opened again; while the executor is healthy it holds exactly the
  canonical tokens. The file that an append after a failed write would make unreadable is never
  written, because the failure isolates the session.
\<close>

theorem service_journal_recoverable:
  assumes "make_mock_executor fo padding options = Inr x0" and "new_rpc_service x0 hash path logits disk io calls = Inr s0"
    and "rpc_reachable R s0 (s, p)" and "rv_exec R = mock_env fo"
    and "rs_snapshot_journal s = Some j" and "IoFailed \<notin> set io'"
  shows "case new_journal (jn_path j) (jn_identity j) (jn_disk j) io' [] of (r, j2) \<Rightarrow> r = Inr () \<and>
    (\<not> ex_poisoned (rs_executor s) \<longrightarrow> st_canonical_tokens (jn_current j2) = ex_tokens (rs_executor s))"
proof -
  have d: "durable s" using mock_service_ok [OF assms(1-4)] by (simp add: dual_mock.service_ok_def)
  then have r: "fst (new_journal (jn_path j) (jn_identity j) (jn_disk j) io' []) = Inr ()"
    using recoverable_reopen [OF _ assms(6)] assms(5) by (simp add: durable_def)
  have "st_canonical_tokens (jn_current (snd (new_journal (jn_path j) (jn_identity j) (jn_disk j) io' []))) =
      ex_tokens (rs_executor s)" if "\<not> ex_poisoned (rs_executor s)"
  proof -
    have j: "journal_ok j" "st_canonical_tokens (jn_current j) = ex_tokens (rs_executor s)"
      using d assms(5) that by (simp_all add: durable_def)
    show ?thesis using contentD(1) [OF journal_ok_reopen(2) [OF j(1) assms(6)]] j(2) by simp
  qed
  then show ?thesis using r by (simp add: split_beta)
qed

theorem service_journal_recoverable_witness:
  "\<exists>x0 s0 s s1 j. make_mock_executor int_float_ops [0, 0, 0, 0] demo_options = Inr x0 \<and>
     new_rpc_service x0 7 ''j'' False None [] [] = Inr s0 \<and>
     rpc_reachable demo_env s0 (s, Some (demo_request RpcAppend 5 [3, 1], True)) \<and> rs_snapshot_journal s = Some j \<and>
     fst (new_journal (jn_path j) (jn_identity j) (jn_disk j) [IoCount 1] []) = Inr ()"
proof -
  let ?q = "demo_request RpcAppend 5 [3, 1]"
  obtain x0 s0 s j where x: "make_mock_executor int_float_ops [0, 0, 0, 0] demo_options = Inr x0"
    "new_rpc_service x0 7 ''j'' False None [] [] = Inr s0" "rpc_reachable demo_env s0 (s, Some (?q, True))"
    "rs_snapshot_journal s = Some j"
    using demo_running [of "''j''", OF _ demo_request_valid(1) [of 5]] by (auto simp: is_writer_opcode_def)
  have "IoFailed \<notin> set [IoCount 1]" by simp
  from service_journal_recoverable [OF x(1-3) demo_env_exec x(4) this] x show ?thesis by (fastforce simp: split_beta)
qed

text \<open>
  A reset that fails still empties the idempotence cache. When a reset request is refused
  (cancelled, expired or fail-closed) without a journal, the session is unchanged, yet every earlier
  writer is forgotten: retrying one that had been answered is refused as stale instead of
  getting its answer.
\<close>

theorem failed_reset_forgets:
  assumes "make_mock_executor fo padding options = Inr x0" and "new_rpc_service x0 hash path logits disk io calls = Inr s0"
    and "rpc_reachable R s0 (s, Some (request, execute))" and "rv_exec R = mock_env fo"
    and "rq_opcode (rq_header request) = RpcReset" and "rs_snapshot_journal s = None"
    and "complete_writer R now request execute s = (response, s')" and "rp_status (rp_header response) \<noteq> RpcOk"
    and "rs_writer_responses s (rq_request_id (rq_header earlier)) = Some c"
  shows "outer (rs_executor s') = outer (rs_executor s) \<and>
    rp_status (rp_header (fst (handle_writer R now' token earlier s'))) = RpcFailedPrecondition"
proof -
  have st: "dual_mock.settled request s response s'" by (rule mock_settled [OF assms(1-4,7)])
  have ok: "cache_ok s" "active_ok (s, Some (request, execute))"
    using mock_service_ok [OF assms(1-4)] by (simp_all add: dual_mock.service_ok_def)
  have ne: "request_key earlier \<noteq> request_key request" "request_key earlier \<le> request_key request"
    using ok assms(9) by (auto simp: active_ok_def cache_ok_def request_key_def)
  have "rs_writer_responses (cache_response request r t) (request_key earlier) = None"
    for r and t :: "(mock_backend, mock_backend) rpc_service"
    using assms(5) ne(1) by (auto simp: cache_response_def Let_def request_key_def kMaximumCachedWriterResponses_def)
  then have "rs_writer_responses s' (request_key earlier) = None"
    using assms(7) by (auto simp: complete_writer_def publish_writer_def Let_def split: prod.splits)
  then have "rp_status (rp_header (fst (handle_writer R now' token earlier s'))) = RpcFailedPrecondition"
    using st ne(2)
    by (auto simp: handle_writer_def admit_writer_def Let_def request_key_def with_status_def dual_mock.settled_def)
  moreover have "outer (rs_executor s') = outer (rs_executor s)"
    using st assms(6,8) dual_mock.failed_facts(1) [of "rs_executor s" _ "rs_executor s'"]
    by (auto simp: dual_mock.settled_def dual_mock.executed_def dual_mock.isolated_def)
  ultimately show ?thesis by blast
qed

theorem failed_reset_forgets_witness:
  "\<exists>x0 s0 s1 s2. make_mock_executor int_float_ops [0, 0, 0, 0] demo_options = Inr x0 \<and>
     new_rpc_service x0 7 [] False None [] [] = Inr s0 \<and> rs_writer_responses s1 5 \<noteq> None \<and>
     complete_writer demo_env 9 (demo_request RpcReset 6 []) True s1 = s2 \<and> rp_status (rp_header (fst s2)) \<noteq> RpcOk \<and>
     rp_status (rp_header (fst (handle_writer demo_env 10 (new_token 0 0 []) (demo_request RpcDecode 5 []) (snd s2)))) =
       RpcFailedPrecondition"
proof -
  let ?a = "demo_request RpcDecode 5 []" and ?q = "demo_request RpcReset 6 []" and ?c = "demo_request RpcCancel 6 []"
  obtain x0 s0 s where x: "make_mock_executor int_float_ops [0, 0, 0, 0] demo_options = Inr x0"
    "new_rpc_service x0 7 [] False None [] [] = Inr s0" "rpc_reachable demo_env s0 (s, Some (?a, True))"
    "rs_executor s = x0" "rs_snapshot_journal s = None" "rs_session_hash s = 7"
    using demo_running [of "[]", OF _ demo_request_valid(2) [of 5]] by (auto simp: is_writer_opcode_def)
  obtain r1 s1 where run: "complete_writer demo_env 9 ?a True s = (r1, s1)" by (metis prod.exhaust)
  note d = demo_decode [OF x(1,4,5) run]
  have st: "rs_highest_writer_request_id s1 = 5" "rs_writer_responses s1 5 \<noteq> None" "cache_ok s1"
    using mock_settled [OF x(1-3) demo_env_exec run] by (simp_all add: dual_mock.settled_def dual_mock.service_ok_def)
  then have "6 \<notin> set (rs_writer_response_order s1)" "dom (rs_writer_responses s1) = set (rs_writer_response_order s1)"
    by (auto simp: cache_ok_def)
  then have "rs_writer_responses s1 6 = None" by (metis domIff)
  let ?s2 = "s1\<lparr>rs_highest_writer_request_id := 6, rs_active_writer_request_id := 6,
    rs_active_cancellation := Some (new_token 0 0 [])\<rparr>"
  have r2: "rpc_reachable demo_env s0 (?s2, Some (?q, True))"
    by (rule rpc_reachable.step [OF rpc_reachable.step [OF x(3) rpc_step.completed [OF run]]])
       (use demo_admit [of ?q s1 demo_env] demo_request_valid(3) [of 6] d x(6) st(1) \<open>rs_writer_responses s1 6 = None\<close>
        in \<open>simp add: is_writer_opcode_def\<close>)
  obtain r3 s3 where c: "handle_cancel ?c ?s2 = (r3, s3)" by (metis prod.exhaust)
  have v: "validate_executor_rpc_request ?c (rs_session_hash ?s2) = Inr ()"
    using demo_request_valid(4) [of 6] d(2) x(6) by simp
  note r3 = rpc_reachable.step [OF r2 rpc_step.cancel [OF v c]]
  have "s3 = s1\<lparr>rs_highest_writer_request_id := 6, rs_active_writer_request_id := 6,
      rs_active_cancellation := Some ((new_token 0 0 [])\<lparr>tk_state := TkCancelled\<rparr>)\<rparr>"
    using c by (auto simp: handle_cancel_def Let_def request_cancel_def cas_state_def new_token_def)
  then have s3: "rs_writer_responses s3 5 \<noteq> None" "rs_snapshot_journal s3 = None" "dual_mock.condemned s3 s3"
    using st(2) d(4) by (simp_all add: dual_mock.condemned_def dead_def)
  obtain r4 s4 where run2: "complete_writer demo_env 9 ?q True s3 = (r4, s4)" by (metis prod.exhaust)
  have bad: "rp_status (rp_header r4) \<noteq> RpcOk"
    using dual_mock.condemned_complete [OF run2 s3(3)] by (simp add: is_writer_opcode_def)
  obtain e where "rs_writer_responses s3 (rq_request_id (rq_header ?a)) = Some e" using s3(1) by auto
  from failed_reset_forgets [OF x(1,2) r3 demo_env_exec _ s3(2) run2 bad this, of 10 "new_token 0 0 []"] x(1,2) s3(1) run2 bad
  show ?thesis by fastforce
qed

end
