(* ===== verification/RpcWire.thy ===== *)
theory RpcWire
  imports RpcService
begin

text \<open>
  The frames of the executor service on a client's socket: \<open>read_exact_or_eof\<close>, \<open>write_exact\<close>,
  \<open>write_response\<close> and the loop \<open>serve_rpc_client\<close> of \<^verbatim>\<open>src/rpc.cc\<close>. The socket is what the client
  sends before it closes its end, what it has received, and two scripts of short, interrupted and
  failing calls. The service is the argument \<open>h\<close> of the loop; \<open>handle\<close> is such a function.
\<close>

section \<open>Images\<close>

definition request_header_image :: "RpcRequestHeader \<Rightarrow> u8 list" where
  "request_header_image h = le_bytes 4 (ucast (rq_magic h)) @ le_bytes 2 (ucast (rq_version h)) @
     le_bytes 2 (ucast (rq_header_bytes h)) @ le_bytes 8 (rq_request_id h) @ le_bytes 8 (rq_session_hash h) @
     le_bytes 4 (ucast (opcode_code (rq_opcode h))) @ le_bytes 4 (ucast (rq_flags h)) @
     le_bytes 4 (ucast (rq_token_count h)) @ le_bytes 4 (ucast (rq_argument0 h)) @
     le_bytes 4 (ucast (rq_argument1 h)) @ le_bytes 4 (ucast (rq_timeout_ms h)) @ le_bytes 8 (rq_payload_bytes h)"

definition request_header_of_image :: "u8 list \<Rightarrow> RpcRequestHeader" where
  "request_header_of_image bs = \<lparr> rq_magic = ucast (slice 0 4 bs), rq_version = ucast (slice 4 2 bs),
     rq_header_bytes = ucast (slice 6 2 bs), rq_request_id = slice 8 8 bs, rq_session_hash = slice 16 8 bs,
     rq_opcode = opcode_of_code (ucast (slice 24 4 bs)), rq_flags = ucast (slice 28 4 bs),
     rq_token_count = ucast (slice 32 4 bs), rq_argument0 = ucast (slice 36 4 bs),
     rq_argument1 = ucast (slice 40 4 bs), rq_timeout_ms = ucast (slice 44 4 bs),
     rq_payload_bytes = slice 48 8 bs \<rparr>"

definition response_header_image :: "RpcResponseHeader \<Rightarrow> u8 list" where
  "response_header_image h = le_bytes 4 (ucast (rp_magic h)) @ le_bytes 2 (ucast (rp_version h)) @
     le_bytes 2 (ucast (rp_header_bytes h)) @ le_bytes 8 (rp_request_id h) @ le_bytes 8 (rp_session_hash h) @
     le_bytes 4 (ucast (status_code (rp_status h))) @ le_bytes 4 (ucast (opcode_code (rp_opcode h))) @
     le_bytes 4 (ucast (rp_token_count h)) @ le_bytes 4 (ucast (rp_message_bytes h)) @
     le_bytes 8 (rp_payload_bytes h) @ frontiers_image (rp_frontiers h)"

definition message_image :: "string \<Rightarrow> u8 list" where
  "message_image message = map (\<lambda>c. word_of_nat (code_of c)) message"

section \<open>The socket\<close>

record socket =
  sk_input :: "u8 list"
  sk_reads :: "io_event list"
  sk_output :: "u8 list"
  sk_sends :: "io_event list"

text \<open>\<open>read_exact_or_eof\<close>: \<open>wanted\<close> bytes are missing, \<open>got\<close> were read; \<open>None\<close> is the end of the stream
  before the first byte. A script that is used up stands for calls that return all there is.\<close>

fun read_exact_or_eof :: "io_event list \<Rightarrow> nat \<Rightarrow> u8 list \<Rightarrow> u8 list \<Rightarrow>
    exn + (u8 list option \<times> u8 list \<times> io_event list)" where
  "read_exact_or_eof script 0 got rest = Inr (Some got, rest, script)"
| "read_exact_or_eof [] wanted got rest =
     (if wanted \<le> length rest then Inr (Some (got @ take wanted rest), drop wanted rest, [])
      else if got @ rest = [] then Inr (None, [], [])
      else Inl (RuntimeError ''executor RPC frame ended early''))"
| "read_exact_or_eof (event # script) wanted got rest =
     (case event of
        IoInterrupted \<Rightarrow> read_exact_or_eof script wanted got rest
      | IoFailed \<Rightarrow> Inl (SystemError ''read executor RPC'')
      | IoCount n \<Rightarrow>
          let count = min (max 1 n) (min wanted (length rest)) in
          if count = 0 then
            if got = [] then Inr (None, rest, script) else Inl (RuntimeError ''executor RPC frame ended early'')
          else read_exact_or_eof script (wanted - count) (got @ take count rest) (drop count rest))"

fun write_exact :: "io_event list \<Rightarrow> u8 list \<Rightarrow> u8 list \<Rightarrow> (exn + unit) \<times> u8 list \<times> io_event list" where
  "write_exact script [] sent = (Inr (), sent, script)"
| "write_exact [] data sent = (Inr (), sent @ data, [])"
| "write_exact (event # script) data sent =
     (case event of
        IoInterrupted \<Rightarrow> write_exact script data sent
      | IoFailed \<Rightarrow> (Inl (SystemError ''write executor RPC''), sent, script)
      | IoCount n \<Rightarrow>
          let count = min n (length data) in
          if count = 0 then (Inl (RuntimeError ''executor RPC write made no progress''), sent, script)
          else write_exact script (drop count data) (sent @ take count data))"

definition send_all :: "u8 list \<Rightarrow> (socket, exn, unit) M" where
  "send_all data = (\<lambda>sk. case write_exact (sk_sends sk) data (sk_output sk) of
     (r, sent, script) \<Rightarrow> (r, sk\<lparr>sk_output := sent, sk_sends := script\<rparr>))"

definition write_response :: "RpcResponse \<Rightarrow> (socket, exn, unit) M" where
  "write_response response =
     thenM (send_all (response_header_image (rp_header response)))
    (thenM (if rp_tokens response \<noteq> [] then send_all (tokens_image (rp_tokens response)) else returnM ())
           (if rp_message response \<noteq> [] then send_all (message_image (rp_message response)) else returnM ()))"

text \<open>One turn of the loop up to the call of \<open>handle\<close>.\<close>

definition receive :: "nat \<Rightarrow> (socket, exn, u8 list option) M" where
  "receive bytes = (\<lambda>sk. case read_exact_or_eof (sk_reads sk) bytes [] (sk_input sk) of
     Inl e \<Rightarrow> (Inl e, sk)
   | Inr (data, rest, script) \<Rightarrow> (Inr data, sk\<lparr>sk_input := rest, sk_reads := script\<rparr>))"

definition read_request :: "(socket, exn, RpcRequest option) M" where
  "read_request =
     bindM (receive 56) (\<lambda>bytes. case bytes of
       None \<Rightarrow> returnM None
     | Some bytes \<Rightarrow>
         let header = request_header_of_image bytes in
         thenM (failIf (\<lambda>_. rq_payload_bytes header > kExecutorRpcMaximumPayload \<or> rq_payload_bytes header mod 4 \<noteq> 0)
                  (RuntimeError ''executor RPC wire payload is invalid''))
        (let count = unat (rq_payload_bytes header div 4) in
         if count = 0 then returnM (Some \<lparr> rq_header = header, rq_tokens = [] \<rparr>)
         else bindM (receive (count * 4)) (\<lambda>payload. case payload of
             None \<Rightarrow> throwM (RuntimeError ''executor RPC payload ended early'')
           | Some payload \<Rightarrow> returnM (Some \<lparr> rq_header = header, rq_tokens = tokens_of_image payload \<rparr>))))"

lemma read_exact_consumes:
  assumes "read_exact_or_eof script wanted got rest = Inr (data, rest', script')"
  shows "(case data of None \<Rightarrow> got @ rest = [] \<and> wanted \<noteq> 0
     | Some bytes \<Rightarrow> wanted \<le> length rest \<and> bytes = got @ take wanted rest \<and> rest' = drop wanted rest) \<and>
    set script' \<subseteq> set script"
  using assms
proof (induction script wanted got rest rule: read_exact_or_eof.induct)
  case (3 event script w got rest)
  show ?case
  proof (cases event)
    case (IoCount n)
    define c where "c = min (max 1 n) (min (Suc w) (length rest))"
    have c: "c \<le> Suc w" "c \<le> length rest" "c = 0 \<longleftrightarrow> rest = []"
      unfolding c_def by (cases rest; simp add: min_def max_def)+
    have run: "(if c = 0 then if got = [] then Inr (None, rest, script)
          else Inl (RuntimeError ''executor RPC frame ended early'')
        else read_exact_or_eof script (Suc w - c) (got @ take c rest) (drop c rest)) = Inr (data, rest', script')"
      using "3.prems" unfolding IoCount read_exact_or_eof.simps io_event.case Let_def c_def .
    show ?thesis
    proof (cases "c = 0")
      case True
      then show ?thesis using run c(3) by (auto split: if_splits)
    next
      case False
      then have "read_exact_or_eof script (Suc w - c) (got @ take c rest) (drop c rest) = Inr (data, rest', script')"
        using run by simp
      note IH = "3.IH"(1) [OF IoCount c_def False this]
      have "take c rest @ take (Suc w - c) (drop c rest) = take (Suc w) rest"
        using c(1) by (metis le_add_diff_inverse take_add)
      moreover have "drop (Suc w - c) (drop c rest) = drop (Suc w) rest" using c(1) by simp
      ultimately show ?thesis
        using IH False c le_diff_iff [OF c(1,2)] by (cases data) auto
    qed
  next
    case IoInterrupted
    then show ?thesis using "3.IH"(2) "3.prems" by (auto split: option.splits)
  qed (use "3.prems" in simp)
qed (auto split: if_splits)

lemma read_exact_returns:
  assumes "IoFailed \<notin> set script" "wanted \<le> length rest"
  shows "\<exists>script'. read_exact_or_eof script wanted got rest = Inr (Some (got @ take wanted rest), drop wanted rest, script')"
proof -
  have "read_exact_or_eof script wanted got rest \<noteq> Inl e" for e
    using assms
  proof (induction script wanted got rest rule: read_exact_or_eof.induct)
    case (3 event script w got rest)
    show ?case
    proof (cases event)
      case (IoCount n)
      define c where "c = min (max 1 n) (min (Suc w) (length rest))"
      have c: "c \<noteq> 0" using "3.prems" by (auto simp: c_def)
      have "read_exact_or_eof (event # script) (Suc w) got rest =
          read_exact_or_eof script (Suc w - c) (got @ take c rest) (drop c rest)"
        unfolding IoCount read_exact_or_eof.simps io_event.case Let_def c_def [symmetric] if_not_P [OF c] ..
      moreover have "Suc w - c \<le> length (drop c rest)" using "3.prems"(2) by simp
      ultimately show ?thesis using "3.IH"(1) [OF IoCount c_def c] "3.prems"(1) by simp
    qed (use 3 in simp_all)
  qed auto
  then obtain data rest' script' where run: "read_exact_or_eof script wanted got rest = Inr (data, rest', script')"
    by (metis prod_cases3 sumE)
  from read_exact_consumes [OF this] assms(2) run show ?thesis by (cases data) auto
qed

section \<open>The loop of a client\<close>

lemma read_request_shorter:
  assumes "read_request sk = (Inr (Some request), sk')"
  shows "length (sk_input sk') < length (sk_input sk)"
proof -
  have r: "receive n sk = (Inr (Some bs), sk1) \<Longrightarrow> n \<le> length (sk_input sk) \<and> sk_input sk1 = drop n (sk_input sk)"
    for n bs sk sk1
    using read_exact_consumes [of "sk_reads sk" n "[]" "sk_input sk"]
    by (fastforce simp: receive_def split: sum.splits prod.splits)
  obtain bytes sk1 where s1: "receive 56 sk = (Inr (Some bytes), sk1)"
    using assms by (auto simp: read_request_def bindM_def returnM_def split: prod.splits sum.splits option.splits)
  have "length (sk_input sk') \<le> length (sk_input sk1)"
    using assms s1 r
    by (fastforce simp: read_request_def run_simps Let_def split: prod.splits sum.splits option.splits if_splits)
  then show ?thesis using r [OF s1] by auto
qed

text \<open>\<open>serve_rpc_client\<close>: the service's state is threaded through; an exception or the end of the
  stream ends the loop and closes the socket.\<close>

function serve_rpc_client :: "(RpcRequest \<Rightarrow> 's \<Rightarrow> RpcResponse \<times> 's) \<Rightarrow> socket \<Rightarrow> 's \<Rightarrow> socket \<times> 's" where
  "serve_rpc_client h sk s =
     (case read_request sk of
        (Inr (Some request), sk) \<Rightarrow>
          (case h request s of (response, s) \<Rightarrow>
             (case write_response response sk of
                (Inr _, sk) \<Rightarrow> serve_rpc_client h sk s
              | (Inl _, sk) \<Rightarrow> (sk, s)))
      | (_, sk) \<Rightarrow> (sk, s))"
  by pat_completeness auto

lemma write_response_input: "sk_input (snd (write_response response sk)) = sk_input sk"
  by (simp add: write_response_def send_all_def run_simps split: prod.splits sum.splits)

lemma read_request_shorter':
  "Inr (Some request) = fst (read_request sk) \<Longrightarrow> length (sk_input (snd (read_request sk))) < length (sk_input sk)"
  by (rule read_request_shorter [of sk request]) (simp add: prod_eq_iff)

termination serve_rpc_client
proof (relation "measure (\<lambda>(h, sk, s). length (sk_input sk))", goal_cases)
  case 2
  then show ?case
    by (auto simp: prod_eq_iff write_response_input intro: read_request_shorter')
qed simp

declare serve_rpc_client.simps [simp del]

section \<open>Frames\<close>

text \<open>What a stream of bytes means: the complete, well-formed frames at its start.\<close>

definition parse_frame :: "u8 list \<Rightarrow> (RpcRequest \<times> u8 list) option" where
  "parse_frame bytes =
     (if length bytes < 56 then None
      else let header = request_header_of_image (take 56 bytes); n = unat (rq_payload_bytes header) in
        if rq_payload_bytes header > kExecutorRpcMaximumPayload \<or> n mod 4 \<noteq> 0 \<or> length bytes < 56 + n then None
        else Some (\<lparr> rq_header = header, rq_tokens = tokens_of_image (take n (drop 56 bytes)) \<rparr>, drop (56 + n) bytes))"

function frames :: "u8 list \<Rightarrow> RpcRequest list" where
  "frames bytes = (case parse_frame bytes of None \<Rightarrow> [] | Some (request, rest) \<Rightarrow> request # frames rest)"
  by pat_completeness auto

termination frames
  by (relation "measure length") (auto simp: parse_frame_def Let_def split: if_splits)

declare frames.simps [simp del]

definition request_image :: "RpcRequest \<Rightarrow> u8 list" where
  "request_image request = request_header_image (rq_header request) @ tokens_image (rq_tokens request)"

definition response_image :: "RpcResponse \<Rightarrow> u8 list" where
  "response_image response = response_header_image (rp_header response) @ tokens_image (rp_tokens response) @
     message_image (rp_message response)"

text \<open>Serving a list of requests.\<close>

fun serve_all :: "(RpcRequest \<Rightarrow> 's \<Rightarrow> RpcResponse \<times> 's) \<Rightarrow> RpcRequest list \<Rightarrow> 's \<Rightarrow> RpcResponse list \<times> 's" where
  "serve_all h [] s = ([], s)"
| "serve_all h (request # requests) s =
     (case h request s of (response, s) \<Rightarrow>
        (case serve_all h requests s of (responses, s) \<Rightarrow> (response # responses, s)))"

text \<open>Requests a client can encode: a code of its own for the opcode, and the byte count of its tokens.\<close>

definition encodable :: "RpcRequest \<Rightarrow> bool" where
  "encodable request \<longleftrightarrow> opcode_of_code (opcode_code (rq_opcode (rq_header request))) = rq_opcode (rq_header request) \<and>
     unat (rq_payload_bytes (rq_header request)) = 4 * length (rq_tokens request) \<and>
     rq_payload_bytes (rq_header request) \<le> kExecutorRpcMaximumPayload"

lemma length_request_header_image [simp]: "length (request_header_image h) = 56"
  by (simp add: request_header_image_def)

lemma request_header_of_request_header_image:
  "opcode_of_code (opcode_code (rq_opcode h)) = rq_opcode h \<Longrightarrow> request_header_of_image (request_header_image h) = h"
  by (simp add: request_header_of_image_def request_header_image_def slice_skip slice_0 slice_whole
      le_word_u64 le_word_u32 le_word_u16)

lemma parse_frame_image:
  assumes "encodable request"
  shows "parse_frame (request_image request @ rest) = Some (request, rest)"
  using assms
  by (simp add: parse_frame_def encodable_def request_image_def request_header_of_request_header_image Let_def
      tokens_of_tokens_image not_less)

lemma mod4_u64: "(w :: u64) mod 4 = 0 \<longleftrightarrow> unat w mod 4 = 0"
  by (simp add: word_unat_eq_iff unat_mod_distrib)

lemma div4_u64: "unat ((w :: u64) div 4) = unat w div 4"
  by (simp add: unat_div_distrib)

text \<open>The reader agrees with the specification, whatever the scripts do.\<close>

lemma receive_cases:
  "case receive n sk of
     (Inr (Some bytes), sk') \<Rightarrow> n \<le> length (sk_input sk) \<and> bytes = take n (sk_input sk) \<and>
       sk_input sk' = drop n (sk_input sk) \<and> set (sk_reads sk') \<subseteq> set (sk_reads sk) \<and>
       sk_output sk' = sk_output sk \<and> sk_sends sk' = sk_sends sk
   | (_, sk') \<Rightarrow> sk_output sk' = sk_output sk \<and> sk_sends sk' = sk_sends sk \<and>
       (IoFailed \<in> set (sk_reads sk) \<or> length (sk_input sk) < n)"
proof (cases "read_exact_or_eof (sk_reads sk) n [] (sk_input sk)")
  case (Inl e)
  then show ?thesis
    using read_exact_returns [of "sk_reads sk" n "sk_input sk" "[]"] by (auto simp: receive_def not_le [symmetric])
next
  case (Inr r)
  obtain data rest script where r: "r = (data, rest, script)" by (cases r)
  show ?thesis
    using read_exact_consumes [OF Inr [unfolded r]] Inr r by (cases data) (auto simp: receive_def)
qed

lemma read_request_cases:
  "case read_request sk of
     (Inr (Some request), sk') \<Rightarrow> parse_frame (sk_input sk) = Some (request, sk_input sk') \<and>
       set (sk_reads sk') \<subseteq> set (sk_reads sk) \<and> sk_output sk' = sk_output sk \<and> sk_sends sk' = sk_sends sk
   | (_, sk') \<Rightarrow> sk_output sk' = sk_output sk \<and> sk_sends sk' = sk_sends sk \<and>
       (IoFailed \<in> set (sk_reads sk) \<or> parse_frame (sk_input sk) = None)"
proof -
  note r = receive_cases [where n = 56 and sk = sk]
  obtain res sk1 where s1: "receive 56 sk = (res, sk1)" by (metis prod.exhaust)
  consider (some) bytes where "res = Inr (Some bytes)" | (none) "res = Inr None" | (err) e where "res = Inl e"
    by (metis sumE option.exhaust)
  then show ?thesis
  proof cases
    case (some bytes)
    let ?h = "request_header_of_image bytes" and ?n = "unat (rq_payload_bytes (request_header_of_image bytes))"
    have f: "56 \<le> length (sk_input sk)" "bytes = take 56 (sk_input sk)" "sk_input sk1 = drop 56 (sk_input sk)"
      "set (sk_reads sk1) \<subseteq> set (sk_reads sk)" "sk_output sk1 = sk_output sk" "sk_sends sk1 = sk_sends sk"
      using r s1 some by simp_all
    note r2 = receive_cases [where n = ?n and sk = sk1]
    show ?thesis
    proof (cases "rq_payload_bytes ?h > kExecutorRpcMaximumPayload \<or> ?n mod 4 \<noteq> 0")
      case True
      then show ?thesis
        using s1 some f by (auto simp: read_request_def run_simps Let_def mod4_u64 parse_frame_def)
    next
      case False
      then have n: "?n div 4 * 4 = ?n" by auto
      have run: "read_request sk = (if ?n = 0 then (Inr (Some \<lparr> rq_header = ?h, rq_tokens = [] \<rparr>), sk1)
          else (case receive ?n sk1 of
              (Inr (Some payload), sk2) \<Rightarrow> (Inr (Some \<lparr> rq_header = ?h, rq_tokens = tokens_of_image payload \<rparr>), sk2)
            | (Inr None, sk2) \<Rightarrow> (Inl (RuntimeError ''executor RPC payload ended early''), sk2)
            | (Inl e, sk2) \<Rightarrow> (Inl e, sk2)))"
        using s1 some False n
        by (auto simp: read_request_def run_simps Let_def mod4_u64 div4_u64 split: prod.splits sum.splits option.splits)
      have p: "parse_frame (sk_input sk) = (if length (sk_input sk1) < ?n then None
          else Some (\<lparr> rq_header = ?h, rq_tokens = tokens_of_image (take ?n (sk_input sk1)) \<rparr>, drop ?n (sk_input sk1)))"
        using f False by (auto simp: parse_frame_def Let_def add.commute)
      show ?thesis
        using r2 f p unfolding run
        by (auto split: prod.splits sum.splits option.splits if_splits)
    qed
  next
    case none
    then show ?thesis using r s1 by (auto simp: read_request_def run_simps parse_frame_def)
  next
    case err
    then show ?thesis using r s1 by (auto simp: read_request_def run_simps parse_frame_def)
  qed
qed

text \<open>The writer sends a prefix, all of it when no call fails or stalls.\<close>

definition sends_ok :: "io_event list \<Rightarrow> bool" where
  "sends_ok script \<longleftrightarrow> IoFailed \<notin> set script \<and> IoCount 0 \<notin> set script"

lemma write_exact_prefix:
  assumes "write_exact script data sent = (r, sent', script')"
  shows "\<exists>k \<le> length data. sent' = sent @ take k data \<and> (r = Inr () \<longleftrightarrow> k = length data) \<and>
    (sends_ok script \<longrightarrow> r = Inr () \<and> sends_ok script')"
  using assms
proof (induction script data sent rule: write_exact.induct)
  case (3 event script b bs sent)
  show ?case
  proof (cases event)
    case (IoCount n)
    define c where "c = min n (length (b # bs))"
    have run: "(if c = 0 then (Inl (RuntimeError ''executor RPC write made no progress''), sent, script)
        else write_exact script (drop c (b # bs)) (sent @ take c (b # bs))) = (r, sent', script')"
      using "3.prems" unfolding IoCount write_exact.simps io_event.case Let_def c_def .
    show ?thesis
    proof (cases "c = 0")
      case True
      then have "n = 0" by (simp add: c_def)
      then show ?thesis using run True IoCount by (auto simp: sends_ok_def)
    next
      case False
      then have "write_exact script (drop c (b # bs)) (sent @ take c (b # bs)) = (r, sent', script')"
        using run by simp
      from "3.IH"(1) [OF IoCount c_def False this] obtain k where k: "k \<le> length (drop c (b # bs))"
        "sent' = (sent @ take c (b # bs)) @ take k (drop c (b # bs))" "r = Inr () \<longleftrightarrow> k = length (drop c (b # bs))"
        "sends_ok script \<longrightarrow> r = Inr () \<and> sends_ok script'" by blast
      have "c \<le> length (b # bs)" by (simp add: c_def)
      then have "c + k \<le> length (b # bs)" "sent' = sent @ take (c + k) (b # bs)" "r = Inr () \<longleftrightarrow> c + k = length (b # bs)"
        using k(1-3) by (auto simp: take_add)
      moreover have "sends_ok (event # script) \<longrightarrow> sends_ok script" by (simp add: sends_ok_def)
      ultimately show ?thesis using k(4) by blast
    qed
  next
    case IoInterrupted
    then show ?thesis using "3.IH"(2) "3.prems" by (auto simp: sends_ok_def)
  qed (use "3.prems" in \<open>auto simp: sends_ok_def\<close>)
qed (auto simp: sends_ok_def)

lemma send_all_cases:
  assumes "send_all data sk = (r, sk')"
  shows "\<exists>k \<le> length data. sk' = sk\<lparr>sk_output := sk_output sk @ take k data, sk_sends := sk_sends sk'\<rparr> \<and>
    (r = Inr () \<longleftrightarrow> k = length data) \<and> (sends_ok (sk_sends sk) \<longrightarrow> r = Inr () \<and> sends_ok (sk_sends sk'))"
proof -
  obtain r' sent script where w: "write_exact (sk_sends sk) data (sk_output sk) = (r', sent, script)" by (metis prod_cases3)
  from write_exact_prefix [OF w] w assms show ?thesis by (auto simp: send_all_def)
qed

text \<open>Sending two pieces is sending them together.\<close>

definition sent :: "u8 list \<Rightarrow> socket \<Rightarrow> exn + unit \<Rightarrow> socket \<Rightarrow> bool" where
  "sent data sk r sk' \<longleftrightarrow> (\<exists>k \<le> length data. sk_output sk' = sk_output sk @ take k data \<and> (r = Inr () \<longleftrightarrow> k = length data)) \<and>
     (sends_ok (sk_sends sk) \<longrightarrow> r = Inr () \<and> sends_ok (sk_sends sk')) \<and>
     sk_input sk' = sk_input sk \<and> sk_reads sk' = sk_reads sk"

lemma send_all_sent:
  assumes "send_all data sk = (r, sk')"
  shows "sent data sk r sk'"
proof -
  define out where "out = sk_sends sk'"
  from send_all_cases [OF assms] obtain k where k: "k \<le> length data" "(r = Inr ()) = (k = length data)"
    "sends_ok (sk_sends sk) \<longrightarrow> r = Inr () \<and> sends_ok out" "sk' = sk\<lparr>sk_output := sk_output sk @ take k data, sk_sends := out\<rparr>"
    unfolding out_def by blast
  then show ?thesis by (auto simp: sent_def)
qed

lemma send_optional_sent:
  assumes "(if data \<noteq> [] then send_all data else returnM ()) sk = (r, sk')"
  shows "sent data sk r sk'"
  using assms send_all_sent [of data sk r sk'] by (cases "data = []") (auto simp: sent_def returnM_def)

lemma sent_thenM:
  assumes m: "\<And>sk r sk'. m sk = (r, sk') \<Longrightarrow> sent a sk r sk'" and n: "\<And>sk r sk'. n sk = (r, sk') \<Longrightarrow> sent b sk r sk'"
    and run: "thenM m n sk = (r, sk')"
  shows "sent (a @ b) sk r sk'"
proof -
  obtain r1 sk1 where s1: "m sk = (r1, sk1)" by (metis prod.exhaust)
  note f = m [OF s1]
  show ?thesis
  proof (cases r1)
    case (Inl e)
    then have *: "r = Inl e" "sk' = sk1" using run s1 by (simp_all add: thenM_def bindM_def)
    from f Inl obtain k where "k < length a" "sk_output sk1 = sk_output sk @ take k a"
      by (auto simp: sent_def le_less)
    then show ?thesis using f Inl * by (auto simp: sent_def intro!: exI [of _ k])
  next
    case (Inr u)
    then have s2: "n sk1 = (r, sk')" using run s1 by (simp add: thenM_def bindM_def)
    from f Inr have o: "sk_output sk1 = sk_output sk @ a" by (auto simp: sent_def)
    from n [OF s2] obtain k where k: "k \<le> length b" "sk_output sk' = sk_output sk1 @ take k b" "r = Inr () \<longleftrightarrow> k = length b"
      by (auto simp: sent_def)
    then have "sk_output sk' = sk_output sk @ take (length a + k) (a @ b)" using o by simp
    then show ?thesis using f n [OF s2] k(1,3) unfolding sent_def by (auto intro!: exI [of _ "length a + k"])
  qed
qed

lemma image_empty [simp]: "tokens_image ts = [] \<longleftrightarrow> ts = []" "message_image m = [] \<longleftrightarrow> m = []"
  by (cases ts) (simp_all add: tokens_image_def le_bytes4 message_image_def)

lemma write_response_sent: "write_response response sk = (r, sk') \<Longrightarrow> sent (response_image response) sk r sk'"
  unfolding write_response_def response_image_def
  by (erule sent_thenM [OF send_all_sent sent_thenM [OF send_optional_sent send_optional_sent], rotated -1]) simp_all

text \<open>A served client: some requests of its stream, in order, and the bytes of their responses.\<close>

definition served :: "(RpcRequest \<Rightarrow> 's \<Rightarrow> RpcResponse \<times> 's) \<Rightarrow> socket \<Rightarrow> 's \<Rightarrow> socket \<Rightarrow> 's \<Rightarrow> RpcRequest list \<Rightarrow> bool" where
  "served h sk s sk' s' requests \<longleftrightarrow> s' = snd (serve_all h requests s) \<and>
     (\<exists>n. requests = take n (frames (sk_input sk))) \<and>
     (\<exists>k. sk_output sk' = sk_output sk @ take k (concat (map response_image (fst (serve_all h requests s))))) \<and>
     (IoFailed \<notin> set (sk_reads sk) \<and> sends_ok (sk_sends sk) \<longrightarrow> requests = frames (sk_input sk) \<and>
       sk_output sk' = sk_output sk @ concat (map response_image (fst (serve_all h requests s))))"

lemma served_Cons:
  assumes h: "h request s = (response, s1)" and p: "parse_frame (sk_input sk) = Some (request, sk_input sk2)"
    and o: "sk_output sk2 = sk_output sk @ response_image response"
    and q: "IoFailed \<notin> set (sk_reads sk) \<Longrightarrow> IoFailed \<notin> set (sk_reads sk2)"
      "sends_ok (sk_sends sk) \<Longrightarrow> sends_ok (sk_sends sk2)"
    and IH: "served h sk2 s1 sk' s' requests"
  shows "served h sk s sk' s' (request # requests)"
proof -
  obtain k n where k: "sk_output sk' = sk_output sk2 @ take k (concat (map response_image (fst (serve_all h requests s1))))"
    "requests = take n (frames (sk_input sk2))" using IH by (auto simp: served_def)
  have f: "frames (sk_input sk) = request # frames (sk_input sk2)" using p by (simp add: frames.simps [of "sk_input sk"])
  have "s' = snd (serve_all h (request # requests) s)" using IH h by (simp add: served_def split_beta)
  moreover have "request # requests = take (Suc n) (frames (sk_input sk))" using k(2) f by simp
  moreover have "sk_output sk' = sk_output sk @ take (length (response_image response) + k)
      (concat (map response_image (fst (serve_all h (request # requests) s))))"
    using k(1) o h by (simp add: split_beta)
  moreover have "IoFailed \<notin> set (sk_reads sk) \<and> sends_ok (sk_sends sk) \<longrightarrow> request # requests = frames (sk_input sk) \<and>
      sk_output sk' = sk_output sk @ concat (map response_image (fst (serve_all h (request # requests) s)))"
    using IH h o q f by (simp add: served_def split_beta)
  ultimately show ?thesis unfolding served_def by blast
qed

lemma serve_rpc_client_served:
  assumes "serve_rpc_client h sk s = (sk', s')"
  shows "\<exists>requests. served h sk s sk' s' requests"
  using assms
proof (induction h sk s rule: serve_rpc_client.induct)
  case (1 h sk s)
  note c = read_request_cases [of sk]
  obtain res sk1 where r1: "read_request sk = (res, sk1)" by (metis prod.exhaust)
  show ?case
  proof (cases "\<exists>request. res = Inr (Some request)")
    case True
    then obtain request where res: "res = Inr (Some request)" by blast
    have f: "parse_frame (sk_input sk) = Some (request, sk_input sk1)" "set (sk_reads sk1) \<subseteq> set (sk_reads sk)"
      "sk_output sk1 = sk_output sk" "sk_sends sk1 = sk_sends sk" using c r1 res by simp_all
    obtain response s1 where h: "h request s = (response, s1)" by (metis prod.exhaust)
    obtain r2 sk2 where w: "write_response response sk1 = (r2, sk2)" by (metis prod.exhaust)
    note g = write_response_sent [OF w, unfolded sent_def]
    have fr: "frames (sk_input sk) = request # frames (sk_input sk1)" using f(1) by (simp add: frames.simps [of "sk_input sk"])
    show ?thesis
    proof (cases r2)
      case (Inl e)
      then have "sk' = sk2" "s' = s1"
        using "1.prems" r1 res h w by (simp_all add: serve_rpc_client.simps [of h sk s])
      moreover obtain k where "sk_output sk2 = sk_output sk @ take k (response_image response)" using g f(3) by auto
      moreover have "\<exists>n. [request] = take n (frames (sk_input sk))" using fr by (intro exI [of _ 1]) simp
      moreover have "\<not> sends_ok (sk_sends sk)" using g Inl f(4) by auto
      moreover have "serve_all h [request] s = ([response], s1)" using h by simp
      ultimately have "served h sk s sk' s' [request]" unfolding served_def by auto
      then show ?thesis by blast
    next
      case (Inr u)
      then have "serve_rpc_client h sk2 s1 = (sk', s')"
        using "1.prems" r1 res h w by (simp add: serve_rpc_client.simps [of h sk s])
      from "1.IH" [OF r1 [symmetric] res refl h [symmetric] w [symmetric] Inr this]
      obtain requests where rq: "served h sk2 s1 sk' s' requests" by blast
      have "served h sk s sk' s' (request # requests)"
        by (rule served_Cons [OF h _ _ _ _ rq]) (use g Inr f in auto)
      then show ?thesis by blast
    qed
  next
    case False
    then have *: "sk' = sk1" "s' = s"
      using "1.prems" r1 by (auto simp: serve_rpc_client.simps [of h sk s] split: sum.splits option.splits)
    have "sk_output sk1 = sk_output sk \<and> (IoFailed \<in> set (sk_reads sk) \<or> parse_frame (sk_input sk) = None)"
      using c r1 False by (auto split: sum.splits option.splits)
    then have "served h sk s sk' s' []"
      using * by (auto simp: served_def frames.simps [of "sk_input sk"] intro!: exI [of _ 0])
    then show ?thesis by blast
  qed
qed

section \<open>Properties\<close>

text \<open>
  C14: The loop of a client refines serving its requests one by one. Whatever bytes the client sends and
  whatever short, interrupted or failing calls the socket makes, the service sees only complete
  frames of the stream, in order, and the client receives a prefix of the bytes of their responses;
  bytes that are not a frame never reach the service. If no call fails or stalls, every frame is
  served and every response is sent whole.
\<close>

theorem client_loop_refines:
  "\<exists>n. case serve_all h (take n (frames (sk_input sk))) s of (responses, s') \<Rightarrow>
     snd (serve_rpc_client h sk s) = s' \<and>
     (\<exists>k. sk_output (fst (serve_rpc_client h sk s)) = sk_output sk @ take k (concat (map response_image responses))) \<and>
     (IoFailed \<notin> set (sk_reads sk) \<and> IoFailed \<notin> set (sk_sends sk) \<and> IoCount 0 \<notin> set (sk_sends sk) \<longrightarrow>
        take n (frames (sk_input sk)) = frames (sk_input sk) \<and>
        sk_output (fst (serve_rpc_client h sk s)) = sk_output sk @ concat (map response_image responses))"
  using serve_rpc_client_served [of h sk s, OF surjective_pairing] by (auto simp: served_def sends_ok_def split_beta)

theorem client_loop_refines_witness:
  "\<exists>n. snd (serve_rpc_client (\<lambda>request count. (response_base request 7, count + 1))
      \<lparr> sk_input = request_image (demo_request RpcPing 1 []) @ [1, 2, 3], sk_reads = [IoCount 5, IoInterrupted], sk_output = [],
        sk_sends = [] \<rparr> 0) =
    snd (serve_all (\<lambda>request count. (response_base request 7, count + (1 :: nat)))
      (take n (frames (request_image (demo_request RpcPing 1 []) @ [1, 2, 3]))) 0)"
  using client_loop_refines [of "\<lambda>request count. (response_base request 7, count + (1 :: nat))"
      "\<lparr> sk_input = request_image (demo_request RpcPing 1 []) @ [1, 2, 3], sk_reads = [IoCount 5, IoInterrupted], sk_output = [],
        sk_sends = [] \<rparr>" 0]
  by (auto simp: split_beta)



end
