(* ===== verification/FieldText.thy ===== *)
theory FieldText
  imports Identity
begin

text \<open>
  What the text formats of the weight artifacts share: fields cut at a separator, decimal integers,
  hexadecimal digests, and the facts that printing and reading them are inverse.
\<close>

section \<open>Reading\<close>

text \<open>\<open>std::getline(input, field, separator)\<close> over a string: a trailing empty field is not yielded.\<close>

fun split_fields :: "char \<Rightarrow> string \<Rightarrow> string list" where
  "split_fields separator [] = []"
| "split_fields separator (c # cs) = (if c = separator then [] # split_fields separator cs
     else (case split_fields separator cs of
             [] \<Rightarrow> [[c]]
           | f # fs \<Rightarrow> (c # f) # fs))"

definition guardE :: "bool \<Rightarrow> exn \<Rightarrow> exn + unit" where
  "guardE ok e = (if ok then Inr () else Inl e)"

text \<open>The helpers \<open>parse_u64\<close> differ only in the subject of their messages.\<close>

definition parse_u64_field :: "string \<Rightarrow> string \<Rightarrow> string \<Rightarrow> exn + u64" where
  "parse_u64_field subject name value =
     (case stoull 10 value of
        Inl _ \<Rightarrow> Inl (RuntimeError (subject @ name @ '' is not an integer''))
      | Inr (parsed, used) \<Rightarrow>
          if used \<noteq> length value then Inl (RuntimeError (subject @ name @ '' has trailing bytes''))
          else Inr parsed)"

definition is_hex :: "string \<Rightarrow> nat \<Rightarrow> bool" where
  "is_hex value n \<longleftrightarrow> length value = n \<and> list_all (\<lambda>c. digit_value c < 16) value"

text \<open>The check of an extent in a file, written so that it cannot wrap.\<close>

definition within :: "u64 \<Rightarrow> u64 \<Rightarrow> u64 \<Rightarrow> bool" where
  "within offset bytes extent \<longleftrightarrow> \<not> (offset > extent \<or> bytes > extent - offset)"

fun mapE :: "('a \<Rightarrow> 'e + 'b) \<Rightarrow> 'a list \<Rightarrow> 'e + 'b list" where
  "mapE f [] = Inr []"
| "mapE f (x # xs) = bindE (f x) (\<lambda>y. bindE (mapE f xs) (\<lambda>ys. Inr (y # ys)))"

lemma bindE_Inr_iff: "bindE r f = Inr y \<longleftrightarrow> (\<exists>x. r = Inr x \<and> f x = Inr y)"
  by (cases r) (simp_all add: bindE_def)

lemma guardE_Inr_iff [simp]: "guardE ok e = Inr u \<longleftrightarrow> ok"
  by (simp add: guardE_def)

lemma bindE_simps [simp]: "bindE (Inl e) f = Inl e" "bindE (Inr x) f = f x"
  by (simp_all add: bindE_def)

lemma guardE_simps [simp]: "guardE True e = Inr ()" "guardE False e = Inl e"
  by (simp_all add: guardE_def)

lemma within_iff: "within offset bytes extent \<longleftrightarrow> unat offset + unat bytes \<le> unat extent"
proof (cases "offset \<le> extent")
  case True
  then show ?thesis using unat_u64_sub [OF True]
    by (auto simp: within_def word_less_nat_alt word_le_nat_alt)
qed (auto simp: within_def not_le word_less_nat_alt)

lemma mapE_map: "mapE (\<lambda>x. Inr (f x)) xs = Inr (map f xs)"
  by (induction xs) simp_all

lemma mapE_cong: "(\<And>x. x \<in> set xs \<Longrightarrow> f x = g x) \<Longrightarrow> mapE f xs = mapE g xs"
  by (induction xs) simp_all

section \<open>Printing\<close>

fun join_fields :: "char \<Rightarrow> string list \<Rightarrow> string" where
  "join_fields separator [] = []"
| "join_fields separator [f] = f"
| "join_fields separator (f # g # fs) = f @ separator # join_fields separator (g # fs)"

definition print_lines :: "string list \<Rightarrow> string" where
  "print_lines ls = concat (map (\<lambda>l. l @ [CHR 0x0A]) ls)"

lemma split_fields_step: "separator \<notin> set f \<Longrightarrow> split_fields separator (f @ separator # cs) = f # split_fields separator cs"
  by (induction f) (auto split: list.splits)

lemma split_fields_last: "separator \<notin> set f \<Longrightarrow> f \<noteq> [] \<Longrightarrow> split_fields separator f = [f]"
proof (induction f)
  case (Cons c f)
  then show ?case by (cases "f = []") auto
qed simp

lemma split_join:
  assumes "\<forall>f \<in> set fs. separator \<notin> set f" "fs \<noteq> []" "last fs \<noteq> []"
  shows "split_fields separator (join_fields separator fs) = fs"
  using assms
proof (induction separator fs rule: join_fields.induct)
  case (2 separator f)
  then show ?case by (simp add: split_fields_last)
next
  case (3 separator f g fs)
  then show ?case by (simp add: split_fields_step)
qed simp

lemma getlines_split: "getlines cs = split_fields (CHR 0x0A) cs"
  by (induction cs) (simp_all split: list.splits)

lemma getlines_print: "\<forall>l \<in> set ls. CHR 0x0A \<notin> set l \<Longrightarrow> getlines (print_lines ls) = ls"
  by (induction ls) (simp_all add: print_lines_def getlines_split split_fields_step)

text \<open>Decimal numbers.\<close>

lemma code_of_char_of [simp]: "n < 256 \<Longrightarrow> code_of (char_of n) = n"
  by (simp add: code_of_def)

definition decimal_digit :: "char \<Rightarrow> bool" where "decimal_digit c \<longleftrightarrow> 48 \<le> code_of c \<and> code_of c \<le> 57"

lemma decimal_digits: "decimal n \<noteq> [] \<and> (\<forall>c \<in> set (decimal n). decimal_digit c)"
  by (induction n rule: decimal.induct) (subst (1 2) decimal.simps, auto simp: decimal_digit_def)

lemma digits_value_append: "digits_value base acc (xs @ ys) = digits_value base (digits_value base acc xs) ys"
  by (induction xs arbitrary: acc) simp_all

lemma digit_value_char [simp]: "d < 10 \<Longrightarrow> digit_value (char_of (48 + d)) = d"
  by (simp add: digit_value_def Let_def)

lemma digits_value_decimal: "digits_value 10 0 (decimal n) = n"
proof (induction n rule: decimal.induct)
  case (1 n)
  show ?case
  proof (cases "n < 10")
    case False
    then have "digits_value 10 0 (decimal n) = n div 10 * 10 + n mod 10"
      using 1 by (subst decimal.simps) (simp add: digits_value_append)
    then show ?thesis by simp
  qed (subst decimal.simps, simp)
qed

lemma decimal_digit_value: "decimal_digit c \<Longrightarrow> digit_value c < 10"
  by (auto simp: decimal_digit_def digit_value_def Let_def)

lemma decimal_digit_not: "decimal_digit c \<Longrightarrow> \<not> is_space c \<and> c \<noteq> CHR ''-'' \<and> c \<noteq> CHR ''+''"
  by (auto simp: decimal_digit_def is_space_def code_of_def)

lemma stoull_decimal:
  assumes "n < 18446744073709551616"
  shows "stoull 10 (decimal n) = Inr (word_of_nat n, length (decimal n))"
proof -
  obtain c cs where d: "decimal n = c # cs" using decimal_digits [of n] by (cases "decimal n") auto
  have all: "\<forall>x \<in> set (decimal n). decimal_digit x" using decimal_digits by blast
  have c: "\<not> is_space c" "c \<noteq> CHR ''-''" "c \<noteq> CHR ''+''" using all d decimal_digit_not [of c] by auto
  have "takeWhile is_space (decimal n) = []" using c d by simp
  moreover have "takeWhile (\<lambda>x. digit_value x < 10) (decimal n) = decimal n"
    using all by (intro takeWhile_eq_all_conv [THEN iffD2]) (auto dest: decimal_digit_value)
  ultimately show ?thesis
    using c d assms digits_value_decimal [of n] by (simp add: stoull_def Let_def)
qed

lemma parse_u64_decimal: "parse_u64_field subject name (decimal (unat w)) = Inr w"
  using stoull_decimal [of "unat w"] unat_u64_lt [of w] by (simp add: parse_u64_field_def)

lemma decimal_clean: "c \<in> set (decimal n) \<Longrightarrow> c \<noteq> CHR 0x0A \<and> c \<noteq> CHR 0x09 \<and> c \<noteq> CHR '',''"
  using decimal_digits [of n] by (auto simp: decimal_digit_def code_of_def)

lemma set_join_fields: "set (join_fields separator fs) \<subseteq> insert separator (\<Union> (set ` set fs))"
  by (induction separator fs rule: join_fields.induct) auto

lemma join_nonempty: "fs \<noteq> [] \<Longrightarrow> hd fs \<noteq> [] \<Longrightarrow> join_fields separator fs \<noteq> []"
  by (induction separator fs rule: join_fields.induct) auto

lemma dims_text_clean:
  "c \<in> set (join_fields (CHR '','') (map (\<lambda>d. decimal (unat d)) dims)) \<Longrightarrow> c \<noteq> CHR 0x09 \<and> c \<noteq> CHR 0x0A"
  using set_join_fields [of "CHR '',''" "map (\<lambda>d. decimal (unat d)) dims"] decimal_clean by fastforce

lemma ucast_back: "(ucast (ucast (w :: u32) :: u64) :: u32) = w"
  by (rule bit_word_eqI) (simp add: bit_simps)

text \<open>Lists of numbers.\<close>

definition number_list :: "u64 list \<Rightarrow> string" where
  "number_list ws = join_fields (CHR '','') (map (\<lambda>w. decimal (unat w)) ws)"

lemma number_list_clean: "c \<in> set (number_list ws) \<Longrightarrow> c \<noteq> CHR 0x09 \<and> c \<noteq> CHR 0x0A"
  unfolding number_list_def by (rule dims_text_clean)

lemma split_number_list:
  assumes "ws \<noteq> []"
  shows "split_fields (CHR '','') (number_list ws) = map (\<lambda>w. decimal (unat w)) ws"
  unfolding number_list_def
proof (rule split_join)
  show "\<forall>f \<in> set (map (\<lambda>w. decimal (unat w)) ws). CHR '','' \<notin> set f" using decimal_clean by auto
  show "last (map (\<lambda>w. decimal (unat w)) ws) \<noteq> []" using assms decimal_digits by (simp add: last_map)
qed (use assms in simp)

lemma number_list_nonempty: "ws \<noteq> [] \<Longrightarrow> number_list ws \<noteq> []"
  unfolding number_list_def by (rule join_nonempty) (use decimal_digits in \<open>simp_all add: hd_map\<close>)

end
