(* ===== verification/TensorIndex.thy ===== *)
theory TensorIndex
  imports FieldText
begin

text \<open>
  The tensor index of a stage, \<^verbatim>\<open>include/q38/tensor_index.h\<close> and \<^verbatim>\<open>src/tensor_index.cc\<close>: the reader of
  the index file and the check of a pair of stages. The contents of the file and the sizes of the
  shards (\<open>std::filesystem::file_size\<close>, \<open>Inl\<close> the system's message) are arguments.
\<close>

section \<open>Data\<close>

record IndexedTensor =
  it_name :: string
  it_type_name :: string
  it_payload_bytes :: u64
  it_absolute_offset :: u64
  it_shard_path :: string
  it_dims :: "u64 list"

record TensorIndex =
  ix_stage :: u32
  ix_cut :: u32
  ix_layout_sha256 :: string
  ix_tensors :: "IndexedTensor list"
  ix_payload_bytes :: u64

definition empty_index :: TensorIndex where
  "empty_index = \<lparr> ix_stage = 0, ix_cut = 0, ix_layout_sha256 = [], ix_tensors = [], ix_payload_bytes = 0 \<rparr>"

text \<open>The locals of \<open>load_tensor_index\<close>.\<close>

record index_reader =
  ir_index :: TensorIndex
  ir_saw_stage :: bool
  ir_saw_cut :: bool
  ir_saw_layout :: bool
  ir_names :: "string set"
  ir_file_sizes :: "string \<rightharpoonup> u64"

definition new_index_reader :: index_reader where
  "new_index_reader = \<lparr> ir_index = empty_index, ir_saw_stage = False, ir_saw_cut = False, ir_saw_layout = False,
     ir_names = {}, ir_file_sizes = Map.empty \<rparr>"

section \<open>Reading\<close>

definition index_u64 :: "string \<Rightarrow> string \<Rightarrow> exn + u64" where
  "index_u64 = parse_u64_field ''tensor index ''"

definition is_sha256 :: "string \<Rightarrow> bool" where
  "is_sha256 value \<longleftrightarrow> is_hex value 64"

definition index_stage_line :: "string \<Rightarrow> index_reader \<Rightarrow> exn + index_reader" where
  "index_stage_line line r =
     bindE (guardE (\<not> ir_saw_stage r) (RuntimeError ''duplicate tensor index stage'')) (\<lambda>_.
     bindE (index_u64 ''stage'' (drop 6 line)) (\<lambda>value.
     bindE (guardE (value \<le> 1) (RuntimeError ''tensor index stage must be 0 or 1'')) (\<lambda>_.
     Inr (r\<lparr>ir_index := (ir_index r)\<lparr>ix_stage := ucast value\<rparr>, ir_saw_stage := True\<rparr>))))"

definition index_cut_line :: "string \<Rightarrow> index_reader \<Rightarrow> exn + index_reader" where
  "index_cut_line line r =
     bindE (guardE (\<not> ir_saw_cut r) (RuntimeError ''duplicate tensor index cut'')) (\<lambda>_.
     bindE (index_u64 ''cut'' (drop 4 line)) (\<lambda>value.
     bindE (guardE (\<not> (value = 0 \<or> value > 0xffffffff)) (RuntimeError ''tensor index cut is invalid'')) (\<lambda>_.
     Inr (r\<lparr>ir_index := (ir_index r)\<lparr>ix_cut := ucast value\<rparr>, ir_saw_cut := True\<rparr>))))"

definition index_layout_line :: "string \<Rightarrow> index_reader \<Rightarrow> exn + index_reader" where
  "index_layout_line line r =
     bindE (guardE (\<not> ir_saw_layout r) (RuntimeError ''duplicate tensor index layout hash'')) (\<lambda>_.
     bindE (guardE (is_sha256 (drop 14 line)) (RuntimeError ''tensor index layout hash is invalid'')) (\<lambda>_.
     Inr (r\<lparr>ir_index := (ir_index r)\<lparr>ix_layout_sha256 := drop 14 line\<rparr>, ir_saw_layout := True\<rparr>)))"

definition parse_tensor :: "u32 \<Rightarrow> string \<Rightarrow> exn + IndexedTensor" where
  "parse_tensor line_number line =
     (let fields = split_fields (CHR 0x09) line in
      bindE (guardE (length fields = 7 \<and> fields ! 0 = ''tensor'')
        (RuntimeError (''tensor index line '' @ decimal (unat line_number) @ '' has an invalid record''))) (\<lambda>_.
      bindE (index_u64 ''payload_bytes'' (fields ! 3)) (\<lambda>payload_bytes.
      bindE (index_u64 ''absolute_offset'' (fields ! 4)) (\<lambda>absolute_offset.
      bindE (mapE (index_u64 ''dimension'') (split_fields (CHR '','') (fields ! 6))) (\<lambda>dims.
      Inr \<lparr> it_name = fields ! 1, it_type_name = fields ! 2, it_payload_bytes = payload_bytes,
        it_absolute_offset = absolute_offset, it_shard_path = fields ! 5, it_dims = dims \<rparr>)))))"

text \<open>The size of a shard, asked of the file system once.\<close>

definition shard_size :: "(string \<Rightarrow> string + u64) \<Rightarrow> string \<Rightarrow> (string \<rightharpoonup> u64) \<Rightarrow> exn + u64 \<times> (string \<rightharpoonup> u64)" where
  "shard_size file_size path sizes =
     (case sizes path of
        Some extent \<Rightarrow> Inr (extent, sizes)
      | None \<Rightarrow> (case file_size path of
            Inl message \<Rightarrow> Inl (RuntimeError (''cannot stat tensor shard '' @ path @ '': '' @ message))
          | Inr extent \<Rightarrow> Inr (extent, sizes(path \<mapsto> extent))))"

definition check_extent :: "(string \<Rightarrow> string + u64) \<Rightarrow> bool \<Rightarrow> IndexedTensor \<Rightarrow> (string \<rightharpoonup> u64) \<Rightarrow> exn + (string \<rightharpoonup> u64)" where
  "check_extent file_size verify tensor sizes =
     (if verify
      then bindE (shard_size file_size (it_shard_path tensor) sizes) (\<lambda>(extent, sizes).
        bindE (guardE (within (it_absolute_offset tensor) (it_payload_bytes tensor) extent)
          (RuntimeError (''tensor '' @ it_name tensor @ '' exceeds its source shard''))) (\<lambda>_. Inr sizes))
      else Inr sizes)"

definition index_tensor_line :: "(string \<Rightarrow> string + u64) \<Rightarrow> bool \<Rightarrow> u32 \<Rightarrow> string \<Rightarrow> index_reader \<Rightarrow> exn + index_reader" where
  "index_tensor_line file_size verify line_number line r =
     bindE (parse_tensor line_number line) (\<lambda>tensor.
     bindE (guardE (\<not> (it_name tensor = [] \<or> it_type_name tensor = [] \<or> it_payload_bytes tensor = 0 \<or>
         it_shard_path tensor = [] \<or> it_dims tensor = []))
       (RuntimeError ''tensor index contains an empty tensor field'')) (\<lambda>_.
     bindE (guardE (it_name tensor \<notin> ir_names r)
       (RuntimeError (''tensor index contains duplicate tensor '' @ it_name tensor))) (\<lambda>_.
     bindE (guardE (\<not> ix_payload_bytes (ir_index r) > u64_max - it_payload_bytes tensor)
       (RuntimeError ''tensor index payload byte count overflows'')) (\<lambda>_.
     bindE (check_extent file_size verify tensor (ir_file_sizes r)) (\<lambda>sizes.
     Inr (r\<lparr>ir_names := insert (it_name tensor) (ir_names r), ir_file_sizes := sizes,
       ir_index := (ir_index r)\<lparr>ix_payload_bytes := ix_payload_bytes (ir_index r) + it_payload_bytes tensor,
         ix_tensors := ix_tensors (ir_index r) @ [tensor]\<rparr>\<rparr>))))))"

definition index_line :: "(string \<Rightarrow> string + u64) \<Rightarrow> bool \<Rightarrow> u32 \<Rightarrow> string \<Rightarrow> index_reader \<Rightarrow> exn + index_reader" where
  "index_line file_size verify line_number line r =
     (if line = [] \<or> hd line = CHR ''#'' then Inr r
      else if take 6 line = ''stage='' then index_stage_line line r
      else if take 4 line = ''cut='' then index_cut_line line r
      else if take 14 line = ''layout_sha256='' then index_layout_line line r
      else index_tensor_line file_size verify line_number line r)"

fun index_lines :: "(string \<Rightarrow> string + u64) \<Rightarrow> bool \<Rightarrow> u32 \<Rightarrow> string list \<Rightarrow> index_reader \<Rightarrow> exn + index_reader" where
  "index_lines file_size verify line_number [] r = Inr r"
| "index_lines file_size verify line_number (line # lines) r =
     bindE (index_line file_size verify (line_number + 1) line r)
       (index_lines file_size verify (line_number + 1) lines)"

definition load_tensor_index :: "(string \<Rightarrow> string + u64) \<Rightarrow> string \<Rightarrow> string option \<Rightarrow> bool \<Rightarrow> exn + TensorIndex" where
  "load_tensor_index file_size path contents verify =
     (case contents of
        None \<Rightarrow> Inl (RuntimeError (''cannot open tensor index: '' @ path))
      | Some text \<Rightarrow>
          (case getlines text of
             [] \<Rightarrow> Inl (RuntimeError ''tensor index has an invalid magic/version'')
           | magic # lines \<Rightarrow>
               bindE (guardE (magic = ''Q38_TENSOR_INDEX_V1'')
                 (RuntimeError ''tensor index has an invalid magic/version'')) (\<lambda>_.
               bindE (index_lines file_size verify 1 lines new_index_reader) (\<lambda>r.
               bindE (guardE (ir_saw_stage r \<and> ir_saw_cut r \<and> ir_saw_layout r)
                 (RuntimeError ''tensor index is missing required headers'')) (\<lambda>_.
               bindE (guardE (ix_tensors (ir_index r) \<noteq> []) (RuntimeError ''tensor index is empty'')) (\<lambda>_.
               Inr (ir_index r)))))))"

fun disjoint_names :: "IndexedTensor list \<Rightarrow> string set \<Rightarrow> exn + unit" where
  "disjoint_names [] names = Inr ()"
| "disjoint_names (tensor # tensors) names =
     bindE (guardE (it_name tensor \<notin> names) (RuntimeError (''tensor appears in both stages: '' @ it_name tensor)))
       (\<lambda>_. disjoint_names tensors (insert (it_name tensor) names))"

definition validate_tensor_index_pair :: "TensorIndex \<Rightarrow> TensorIndex \<Rightarrow> exn + unit" where
  "validate_tensor_index_pair stage0 stage1 =
     bindE (guardE (\<not> (ix_stage stage0 \<noteq> 0 \<or> ix_stage stage1 \<noteq> 1))
       (RuntimeError ''tensor index pair has reversed stage ownership'')) (\<lambda>_.
     bindE (guardE (ix_cut stage0 = ix_cut stage1) (RuntimeError ''tensor index pair has different cuts'')) (\<lambda>_.
     bindE (guardE (ix_layout_sha256 stage0 = ix_layout_sha256 stage1)
       (RuntimeError ''tensor index pair has different layouts'')) (\<lambda>_.
     disjoint_names (ix_tensors stage1) (it_name ` set (ix_tensors stage0)))))"

section \<open>What an index is\<close>

definition tensor_ok :: "(string \<Rightarrow> string + u64) \<Rightarrow> bool \<Rightarrow> IndexedTensor \<Rightarrow> bool" where
  "tensor_ok file_size verify tensor \<longleftrightarrow> it_name tensor \<noteq> [] \<and> it_type_name tensor \<noteq> [] \<and> it_payload_bytes tensor \<noteq> 0 \<and>
     it_shard_path tensor \<noteq> [] \<and> it_dims tensor \<noteq> [] \<and>
     (verify \<longrightarrow> (\<exists>extent. file_size (it_shard_path tensor) = Inr extent \<and>
        unat (it_absolute_offset tensor) + unat (it_payload_bytes tensor) \<le> unat extent))"

definition total_bytes :: "IndexedTensor list \<Rightarrow> nat" where
  "total_bytes tensors = sum_list (map (\<lambda>t. unat (it_payload_bytes t)) tensors)"

definition index_ok :: "(string \<Rightarrow> string + u64) \<Rightarrow> bool \<Rightarrow> TensorIndex \<Rightarrow> bool" where
  "index_ok file_size verify index \<longleftrightarrow> ix_stage index \<le> 1 \<and> ix_cut index \<noteq> 0 \<and> is_sha256 (ix_layout_sha256 index) \<and>
     ix_tensors index \<noteq> [] \<and> distinct (map it_name (ix_tensors index)) \<and>
     list_all (tensor_ok file_size verify) (ix_tensors index) \<and>
     unat (ix_payload_bytes index) = total_bytes (ix_tensors index)"

definition reader_ok :: "(string \<Rightarrow> string + u64) \<Rightarrow> bool \<Rightarrow> index_reader \<Rightarrow> bool" where
  "reader_ok file_size verify r \<longleftrightarrow> ir_names r = it_name ` set (ix_tensors (ir_index r)) \<and>
     (\<forall>path extent. ir_file_sizes r path = Some extent \<longrightarrow> file_size path = Inr extent) \<and>
     (ir_saw_stage r \<longrightarrow> ix_stage (ir_index r) \<le> 1) \<and> (ir_saw_cut r \<longrightarrow> ix_cut (ir_index r) \<noteq> 0) \<and>
     (ir_saw_layout r \<longrightarrow> is_sha256 (ix_layout_sha256 (ir_index r))) \<and>
     distinct (map it_name (ix_tensors (ir_index r))) \<and>
     list_all (tensor_ok file_size verify) (ix_tensors (ir_index r)) \<and>
     unat (ix_payload_bytes (ir_index r)) = total_bytes (ix_tensors (ir_index r))"

lemma ucast_u32_nonzero: "(value :: u64) \<noteq> 0 \<Longrightarrow> \<not> value > 0xffffffff \<Longrightarrow> (ucast value :: u32) \<noteq> 0"
proof -
  assume "value \<noteq> 0" "\<not> value > 0xffffffff"
  then have "unat value \<noteq> 0" "unat value < 4294967296" by (auto simp: word_less_nat_alt unat_eq_zero)
  then have "unat (ucast value :: u32) \<noteq> 0" by (simp add: unsigned_ucast_eq take_bit_nat_eq_self)
  then show ?thesis by (metis unat_0)
qed

lemma ucast_le_1: "(value :: u64) \<le> 1 \<Longrightarrow> (ucast value :: u32) \<le> 1"
proof -
  assume "value \<le> 1"
  then have "unat value \<le> 1" by (simp add: word_le_nat_alt)
  then show ?thesis by (simp add: word_le_nat_alt unsigned_ucast_eq take_bit_nat_eq_self)
qed

lemma shard_size_ok:
  assumes "shard_size file_size path sizes = Inr (extent, sizes')"
    "\<forall>path extent. sizes path = Some extent \<longrightarrow> file_size path = Inr extent"
  shows "file_size path = Inr extent \<and> (\<forall>path extent. sizes' path = Some extent \<longrightarrow> file_size path = Inr extent)"
  using assms by (auto simp: shard_size_def split: option.splits sum.splits if_splits)

lemma index_tensor_line_ok:
  assumes run: "index_tensor_line file_size verify n line r = Inr r'" and ok: "reader_ok file_size verify r"
  shows "reader_ok file_size verify r'"
proof -
  obtain t sizes where t: "it_name t \<noteq> []" "it_type_name t \<noteq> []" "it_payload_bytes t \<noteq> 0" "it_shard_path t \<noteq> []"
    "it_dims t \<noteq> []" "it_name t \<notin> ir_names r" "\<not> ix_payload_bytes (ir_index r) > u64_max - it_payload_bytes t"
    and sz: "check_extent file_size verify t (ir_file_sizes r) = Inr sizes"
    and r': "r' = r\<lparr>ir_names := insert (it_name t) (ir_names r), ir_file_sizes := sizes,
       ir_index := (ir_index r)\<lparr>ix_payload_bytes := ix_payload_bytes (ir_index r) + it_payload_bytes t,
         ix_tensors := ix_tensors (ir_index r) @ [t]\<rparr>\<rparr>"
    using run by (auto simp: index_tensor_line_def bindE_Inr_iff)
  have s: "\<forall>path extent. ir_file_sizes r path = Some extent \<longrightarrow> file_size path = Inr extent"
    using ok by (simp add: reader_ok_def)
  have "(\<forall>path extent. sizes path = Some extent \<longrightarrow> file_size path = Inr extent) \<and> tensor_ok file_size verify t"
    using sz s t(1-5)
    by (auto simp: check_extent_def tensor_ok_def bindE_Inr_iff within_iff split: if_splits dest: shard_size_ok [OF _ s])
  moreover have "unat (ix_payload_bytes (ir_index r) + it_payload_bytes t) =
      unat (ix_payload_bytes (ir_index r)) + unat (it_payload_bytes t)"
    using t(7) by (intro unat_u64_add) (simp add: u64_overflow_guard not_le)
  ultimately show ?thesis
    using ok t(6) unfolding r' by (auto simp: reader_ok_def total_bytes_def)
qed

lemma index_line_ok:
  assumes "index_line file_size verify n line r = Inr r'" "reader_ok file_size verify r"
  shows "reader_ok file_size verify r'"
proof -
  have "reader_ok file_size verify r'" if "index_stage_line line r = Inr r'"
    using that assms(2) ucast_le_1 by (auto simp: index_stage_line_def bindE_Inr_iff reader_ok_def)
  moreover have "reader_ok file_size verify r'" if "index_cut_line line r = Inr r'"
    using that assms(2) ucast_u32_nonzero by (auto simp: index_cut_line_def bindE_Inr_iff reader_ok_def)
  moreover have "reader_ok file_size verify r'" if "index_layout_line line r = Inr r'"
    using that assms(2) by (auto simp: index_layout_line_def bindE_Inr_iff reader_ok_def)
  ultimately show ?thesis
    using assms index_tensor_line_ok by (auto simp: index_line_def split: if_splits)
qed

lemma index_lines_ok:
  "index_lines file_size verify n lines r = Inr r' \<Longrightarrow> reader_ok file_size verify r \<Longrightarrow> reader_ok file_size verify r'"
  by (induction lines arbitrary: n r) (auto simp: bindE_Inr_iff dest: index_line_ok)

lemma load_tensor_index_ok:
  assumes "load_tensor_index file_size path contents verify = Inr index"
  shows "index_ok file_size verify index"
proof -
  obtain lines r where r: "index_lines file_size verify 1 lines new_index_reader = Inr r" "ir_saw_stage r" "ir_saw_cut r"
    "ir_saw_layout r" "ix_tensors (ir_index r) \<noteq> []" "index = ir_index r"
    using assms unfolding load_tensor_index_def by (auto simp only: bindE_Inr_iff guardE_Inr_iff split: option.splits list.splits)
  have "reader_ok file_size verify new_index_reader"
    by (simp add: reader_ok_def new_index_reader_def empty_index_def total_bytes_def)
  from index_lines_ok [OF r(1) this] r(2-6) show ?thesis by (simp add: index_ok_def reader_ok_def)
qed

lemma disjoint_names_iff:
  "disjoint_names tensors names = Inr () \<longleftrightarrow> distinct (map it_name tensors) \<and> it_name ` set tensors \<inter> names = {}"
  by (induction tensors arbitrary: names) (auto simp: bindE_Inr_iff)

section \<open>Writing\<close>

text \<open>The writer of the ledger tool, \<^verbatim>\<open>tools/q38_ledger.py\<close>.\<close>

definition print_tensor :: "IndexedTensor \<Rightarrow> string" where
  "print_tensor t = join_fields (CHR 0x09) [''tensor'', it_name t, it_type_name t, decimal (unat (it_payload_bytes t)),
     decimal (unat (it_absolute_offset t)), it_shard_path t, join_fields (CHR '','') (map (\<lambda>d. decimal (unat d)) (it_dims t))]"

definition print_index :: "TensorIndex \<Rightarrow> string" where
  "print_index index = print_lines ([''Q38_TENSOR_INDEX_V1'', ''stage='' @ decimal (unat (ix_stage index)),
     ''cut='' @ decimal (unat (ix_cut index)), ''layout_sha256='' @ ix_layout_sha256 index] @
     map print_tensor (ix_tensors index))"

definition printable :: "IndexedTensor \<Rightarrow> bool" where
  "printable t \<longleftrightarrow> (\<forall>text \<in> {it_name t, it_type_name t, it_shard_path t}. CHR 0x09 \<notin> set text \<and> CHR 0x0A \<notin> set text)"

lemma mapE_index_u64: "mapE (index_u64 name) (map (\<lambda>d. decimal (unat d)) ds) = Inr ds"
  by (induction ds) (simp_all add: index_u64_def parse_u64_decimal)

lemma parse_dims: "dims \<noteq> [] \<Longrightarrow>
    mapE (index_u64 name) (split_fields (CHR '','') (join_fields (CHR '','') (map (\<lambda>d. decimal (unat d)) dims))) = Inr dims"
  using split_join [of "map (\<lambda>d. decimal (unat d)) dims" "CHR '',''"] decimal_clean decimal_digits
  by (fastforce simp: mapE_index_u64 last_map)

lemma split_print_tensor:
  assumes "printable t" "it_dims t \<noteq> []"
  shows "split_fields (CHR 0x09) (print_tensor t) = [''tensor'', it_name t, it_type_name t, decimal (unat (it_payload_bytes t)),
     decimal (unat (it_absolute_offset t)), it_shard_path t, join_fields (CHR '','') (map (\<lambda>d. decimal (unat d)) (it_dims t))]"
  unfolding print_tensor_def
proof (rule split_join)
  show "\<forall>f \<in> set [''tensor'', it_name t, it_type_name t, decimal (unat (it_payload_bytes t)),
     decimal (unat (it_absolute_offset t)), it_shard_path t, join_fields (CHR '','') (map (\<lambda>d. decimal (unat d)) (it_dims t))].
     CHR 0x09 \<notin> set f"
    using assms(1) decimal_clean dims_text_clean by (auto simp: printable_def)
qed (use assms(2) join_nonempty [of "map (\<lambda>d. decimal (unat d)) (it_dims t)" "CHR '',''"] decimal_digits in \<open>simp_all add: hd_map\<close>)

lemma parse_print_tensor:
  assumes "printable t" "it_dims t \<noteq> []"
  shows "parse_tensor n (print_tensor t) = Inr t"
  using parse_dims [OF assms(2)]
  by (simp add: parse_tensor_def split_print_tensor [OF assms] index_u64_def parse_u64_decimal)

lemma index_line_print_tensor:
  "index_line file_size verify n (print_tensor t) r = index_tensor_line file_size verify n (print_tensor t) r"
proof -
  obtain rest where "print_tensor t = ''tensor'' @ CHR 0x09 # rest" by (simp add: print_tensor_def)
  then show ?thesis by (simp add: index_line_def)
qed

lemma index_tensor_line_print:
  assumes ok: "reader_ok file_size verify r" and t: "tensor_ok file_size verify t" "printable t" "it_name t \<notin> ir_names r"
    and sum: "unat (ix_payload_bytes (ir_index r)) + unat (it_payload_bytes t) < 2 ^ 64"
  shows "\<exists>sizes. index_tensor_line file_size verify n (print_tensor t) r =
    Inr (r\<lparr>ir_names := insert (it_name t) (ir_names r), ir_file_sizes := sizes,
       ir_index := (ir_index r)\<lparr>ix_payload_bytes := ix_payload_bytes (ir_index r) + it_payload_bytes t,
         ix_tensors := ix_tensors (ir_index r) @ [t]\<rparr>\<rparr>)"
proof -
  have f: "it_name t \<noteq> []" "it_type_name t \<noteq> []" "it_payload_bytes t \<noteq> 0" "it_shard_path t \<noteq> []" "it_dims t \<noteq> []"
    using t(1) by (simp_all add: tensor_ok_def)
  have o: "\<not> ix_payload_bytes (ir_index r) > u64_max - it_payload_bytes t"
    using sum by (simp add: u64_overflow_guard)
  have "\<exists>sizes. check_extent file_size verify t (ir_file_sizes r) = Inr sizes"
  proof (cases verify)
    case True
    then obtain extent where e: "file_size (it_shard_path t) = Inr extent"
      "unat (it_absolute_offset t) + unat (it_payload_bytes t) \<le> unat extent" using t(1) by (auto simp: tensor_ok_def)
    have "\<exists>sizes. shard_size file_size (it_shard_path t) (ir_file_sizes r) = Inr (extent, sizes)"
      using ok e(1) by (fastforce simp: shard_size_def reader_ok_def split: option.splits)
    then show ?thesis using e(2) True by (auto simp: check_extent_def within_iff)
  qed (simp add: check_extent_def)
  then obtain sizes where "check_extent file_size verify t (ir_file_sizes r) = Inr sizes" by blast
  then show ?thesis
    using t(3) o f by (intro exI [of _ sizes]) (simp add: index_tensor_line_def parse_print_tensor [OF t(2) f(5)])
qed

lemma read_tensors:
  assumes "reader_ok file_size verify r" "list_all (tensor_ok file_size verify) ts" "list_all printable ts"
    "distinct (map it_name ts)" "it_name ` set ts \<inter> ir_names r = {}"
    "unat (ix_payload_bytes (ir_index r)) + total_bytes ts < 2 ^ 64"
  shows "\<exists>names sizes. index_lines file_size verify n (map print_tensor ts) r =
    Inr (r\<lparr>ir_names := names, ir_file_sizes := sizes,
       ir_index := (ir_index r)\<lparr>ix_payload_bytes := ix_payload_bytes (ir_index r) + word_of_nat (total_bytes ts),
         ix_tensors := ix_tensors (ir_index r) @ ts\<rparr>\<rparr>)"
  using assms
proof (induction ts arbitrary: n r)
  case Nil
  show ?case by (intro exI [of _ "ir_names r"] exI [of _ "ir_file_sizes r"]) (simp add: total_bytes_def)
next
  case (Cons t ts)
  have tot: "total_bytes (t # ts) = unat (it_payload_bytes t) + total_bytes ts" by (simp add: total_bytes_def)
  obtain sizes where line: "index_tensor_line file_size verify (n + 1) (print_tensor t) r =
    Inr (r\<lparr>ir_names := insert (it_name t) (ir_names r), ir_file_sizes := sizes,
       ir_index := (ir_index r)\<lparr>ix_payload_bytes := ix_payload_bytes (ir_index r) + it_payload_bytes t,
         ix_tensors := ix_tensors (ir_index r) @ [t]\<rparr>\<rparr>)" (is "_ = Inr ?r")
    using index_tensor_line_print [OF Cons.prems(1), of t "n + 1"] Cons.prems tot by auto
  have ok: "reader_ok file_size verify ?r" by (rule index_tensor_line_ok [OF line Cons.prems(1)])
  have s: "unat (ix_payload_bytes (ir_index r) + it_payload_bytes t) =
      unat (ix_payload_bytes (ir_index r)) + unat (it_payload_bytes t)"
    using Cons.prems(6) tot by (intro unat_u64_add) simp
  obtain names sizes' where "index_lines file_size verify (n + 1) (map print_tensor ts) ?r =
    Inr (?r\<lparr>ir_names := names, ir_file_sizes := sizes',
       ir_index := (ir_index ?r)\<lparr>ix_payload_bytes := ix_payload_bytes (ir_index ?r) + word_of_nat (total_bytes ts),
         ix_tensors := ix_tensors (ir_index ?r) @ ts\<rparr>\<rparr>)"
    using Cons.IH [OF ok, of "n + 1"] Cons.prems s tot by auto
  then show ?case
    using line by (simp add: index_line_print_tensor tot add.assoc del: unat_of_nat) blast
qed

lemma sha256_clean: "is_sha256 text \<Longrightarrow> CHR 0x0A \<notin> set text"
proof -
  have "\<not> digit_value (CHR 0x0A) < 16" by code_simp
  then show "is_sha256 text \<Longrightarrow> CHR 0x0A \<notin> set text" by (auto simp: is_sha256_def is_hex_def list_all_iff)
qed

lemma print_tensor_clean:
  assumes "printable t"
  shows "CHR 0x0A \<notin> set (print_tensor t)"
proof -
  have "CHR 0x0A \<notin> set f" if "f \<in> set [''tensor'', it_name t, it_type_name t, decimal (unat (it_payload_bytes t)),
     decimal (unat (it_absolute_offset t)), it_shard_path t, join_fields (CHR '','') (map (\<lambda>d. decimal (unat d)) (it_dims t))]" for f
    using that assms decimal_clean dims_text_clean by (auto simp: printable_def)
  then show ?thesis unfolding print_tensor_def using set_join_fields by fastforce
qed

lemma index_u64_u32: "index_u64 name (decimal (unat (w :: u32))) = Inr (ucast w)"
  using parse_u64_decimal [of "''tensor index ''" name "ucast w"] by (simp add: index_u64_def)

lemma header_lines:
  assumes "is_sha256 (ix_layout_sha256 index)" "ix_stage index \<le> 1" "ix_cut index \<noteq> 0"
  shows "index_lines file_size verify 1 [''stage='' @ decimal (unat (ix_stage index)), ''cut='' @ decimal (unat (ix_cut index)),
      ''layout_sha256='' @ ix_layout_sha256 index] new_index_reader =
    Inr (new_index_reader\<lparr>ir_saw_stage := True, ir_saw_cut := True, ir_saw_layout := True,
      ir_index := empty_index\<lparr>ix_stage := ix_stage index, ix_cut := ix_cut index, ix_layout_sha256 := ix_layout_sha256 index\<rparr>\<rparr>)"
proof -
  have "(ucast (ix_stage index) :: u64) \<le> 1" using assms(2) by (simp add: word_le_nat_alt)
  moreover have "(ucast (ix_cut index) :: u64) \<noteq> 0" using assms(3) by (simp add: word_unat_eq_iff)
  moreover have "\<not> (ucast (ix_cut index) :: u64) > 0xffffffff"
    using unat_u32_lt [of "ix_cut index"] by (simp add: word_less_nat_alt)
  ultimately show ?thesis
    using assms(1)
    by (simp add: index_line_def index_stage_line_def index_cut_line_def index_layout_line_def index_u64_u32 ucast_back
        new_index_reader_def)
qed

lemma index_lines_append:
  "index_lines file_size verify n (xs @ ys) r =
     bindE (index_lines file_size verify n xs r) (index_lines file_size verify (n + word_of_nat (length xs)) ys)"
  by (induction xs arbitrary: n r) (simp_all add: bindE_def add.assoc split: sum.split)

lemma load_print_index:
  assumes ok: "index_ok file_size verify index" and clean: "list_all printable (ix_tensors index)"
  shows "load_tensor_index file_size path (Some (print_index index)) verify = Inr index"
proof -
  let ?hs = "[''stage='' @ decimal (unat (ix_stage index)), ''cut='' @ decimal (unat (ix_cut index)),
      ''layout_sha256='' @ ix_layout_sha256 index]"
  let ?r = "new_index_reader\<lparr>ir_saw_stage := True, ir_saw_cut := True, ir_saw_layout := True,
      ir_index := empty_index\<lparr>ix_stage := ix_stage index, ix_cut := ix_cut index, ix_layout_sha256 := ix_layout_sha256 index\<rparr>\<rparr>"
  have o: "is_sha256 (ix_layout_sha256 index)" "ix_stage index \<le> 1" "ix_cut index \<noteq> 0" "ix_tensors index \<noteq> []"
    "distinct (map it_name (ix_tensors index))" "list_all (tensor_ok file_size verify) (ix_tensors index)"
    "unat (ix_payload_bytes index) = total_bytes (ix_tensors index)"
    using ok by (simp_all add: index_ok_def)
  have lines: "getlines (print_index index) = ''Q38_TENSOR_INDEX_V1'' # ?hs @ map print_tensor (ix_tensors index)"
    unfolding print_index_def
    by (subst getlines_print) (use clean sha256_clean [OF o(1)] decimal_clean print_tensor_clean in \<open>auto simp: list_all_iff\<close>)
  have r: "reader_ok file_size verify ?r"
    using o(1-3) by (simp add: reader_ok_def new_index_reader_def empty_index_def total_bytes_def)
  obtain names sizes where ts: "index_lines file_size verify 4 (map print_tensor (ix_tensors index)) ?r =
    Inr (?r\<lparr>ir_names := names, ir_file_sizes := sizes,
       ir_index := (ir_index ?r)\<lparr>ix_payload_bytes := ix_payload_bytes (ir_index ?r) + word_of_nat (total_bytes (ix_tensors index)),
         ix_tensors := ix_tensors (ir_index ?r) @ ix_tensors index\<rparr>\<rparr>)"
    using read_tensors [OF r o(6) clean o(5), of 4] o(7) unat_u64_lt [of "ix_payload_bytes index"]
    by (auto simp: new_index_reader_def empty_index_def)
  have p: "word_of_nat (total_bytes (ix_tensors index)) = ix_payload_bytes index" by (simp flip: o(7))
  have all: "index_lines file_size verify 1 (?hs @ map print_tensor (ix_tensors index)) new_index_reader =
    Inr (?r\<lparr>ir_names := names, ir_file_sizes := sizes,
       ir_index := (ir_index ?r)\<lparr>ix_payload_bytes := ix_payload_bytes (ir_index ?r) + word_of_nat (total_bytes (ix_tensors index)),
         ix_tensors := ix_tensors (ir_index ?r) @ ix_tensors index\<rparr>\<rparr>)"
    unfolding index_lines_append header_lines [OF o(1-3)] using ts by simp
  show ?thesis
    unfolding load_tensor_index_def option.case lines list.case all using o(4) by (simp add: p empty_index_def)
qed

section \<open>Properties\<close>

text \<open>
  What the index reader returns is well formed, whatever the file holds: a stage of two, a nonzero
  cut, a digest of 64 hexadecimal digits, at least one tensor, distinct names, no empty field, a
  byte count that is the exact sum of the payloads, and, when extents are verified, every payload
  inside its shard.
\<close>

theorem tensor_index_well_formed:
  assumes "load_tensor_index file_size path contents verify = Inr index"
  shows "ix_stage index \<le> 1 \<and> ix_cut index \<noteq> 0 \<and> is_sha256 (ix_layout_sha256 index) \<and> ix_tensors index \<noteq> [] \<and>
    distinct (map it_name (ix_tensors index)) \<and>
    unat (ix_payload_bytes index) = sum_list (map (\<lambda>t. unat (it_payload_bytes t)) (ix_tensors index)) \<and>
    (\<forall>t \<in> set (ix_tensors index). it_name t \<noteq> [] \<and> it_payload_bytes t \<noteq> 0 \<and> it_dims t \<noteq> [] \<and>
       (verify \<longrightarrow> (\<exists>extent. file_size (it_shard_path t) = Inr extent \<and>
          unat (it_absolute_offset t) + unat (it_payload_bytes t) \<le> unat extent)))"
  using load_tensor_index_ok [OF assms]
  by (auto simp: index_ok_def total_bytes_def list_all_iff tensor_ok_def)

text \<open>
  The runtime reads what the ledger tool writes. Every well-formed index whose texts hold no tab
  and no line break is printed to a file that is accepted, with or without verification of the
  extents, and read back as the same index.
\<close>

theorem tensor_index_roundtrip:
  assumes "index_ok file_size verify index" and "list_all printable (ix_tensors index)"
  shows "load_tensor_index file_size path (Some (print_index index)) verify = Inr index"
  by (rule load_print_index [OF assms])

definition demo_tensor :: "string \<Rightarrow> u64 \<Rightarrow> IndexedTensor" where
  "demo_tensor name offset = \<lparr> it_name = name, it_type_name = ''F32'', it_payload_bytes = 40, it_absolute_offset = offset,
     it_shard_path = ''a.gguf'', it_dims = [10, 1] \<rparr>"

definition demo_index :: TensorIndex where
  "demo_index = \<lparr> ix_stage = 1, ix_cut = 25, ix_layout_sha256 = replicate 64 (CHR ''a''),
     ix_tensors = [demo_tensor ''x'' 0, demo_tensor ''y'' 40], ix_payload_bytes = 80 \<rparr>"

lemma demo_index_ok: "index_ok (\<lambda>_. Inr 80) True demo_index" "list_all printable (ix_tensors demo_index)"
proof -
  have "is_sha256 (ix_layout_sha256 demo_index)"
    by (simp add: is_sha256_def is_hex_def demo_index_def list_all_iff digit_value_def code_of_def Let_def)
  then show "index_ok (\<lambda>_. Inr 80) True demo_index" "list_all printable (ix_tensors demo_index)"
    by (simp_all add: index_ok_def demo_index_def demo_tensor_def tensor_ok_def total_bytes_def printable_def)
qed

theorem tensor_index_well_formed_witness:
  "\<exists>index. load_tensor_index (\<lambda>_. Inr 80) ''i'' (Some (print_index demo_index)) True = Inr index \<and>
     distinct (map it_name (ix_tensors index))"
proof -
  have l: "load_tensor_index (\<lambda>_. Inr 80) ''i'' (Some (print_index demo_index)) True = Inr demo_index"
    by (rule load_print_index [OF demo_index_ok])
  from tensor_index_well_formed [OF l] l show ?thesis by blast
qed

theorem tensor_index_roundtrip_witness:
  "load_tensor_index (\<lambda>_. Inr 80) ''i'' (Some (print_index demo_index)) True = Inr demo_index"
  by (rule tensor_index_roundtrip [OF demo_index_ok])

end
