(* ===== verification/ModelPlan.thy ===== *)
theory ModelPlan
  imports TensorIndex "HOL-Library.Multiset"
begin

text \<open>
  The stage plan of the model, \<^verbatim>\<open>include/q38/model_plan.h\<close> and \<^verbatim>\<open>src/model_plan.cc\<close>: which tensors the
  layers of a stage need, with their types and dimensions, and the assignment of the tensors of an
  index to them. A plan refers to the descriptors of its index; the model holds the descriptors.
\<close>

section \<open>Data\<close>

definition kLayers :: u32 where "kLayers = 48"
definition kHidden :: u64 where "kHidden = 2560"
definition kHcWidth :: u64 where "kHcWidth = 10240"
definition kHcLowRank :: u64 where "kHcLowRank = 320"
definition kVocabulary :: u64 where "kVocabulary = 248320"

datatype TypeClass = ClassF32 | ClassBf16 | ClassI64 | ClassPlain | ClassMatrix

record Requirement =
  re_suffix :: string
  re_type :: TypeClass
  re_dims :: "u64 list"

datatype AttentionKind = GatedDeltaNet | QwenSparseAttention

record LayerPlan =
  lp_layer :: u32
  lp_attention :: AttentionKind
  lp_tensors :: "IndexedTensor list"

record StagePlan =
  sp_stage :: u32
  sp_cut :: u32
  sp_first_layer :: u32
  sp_layer_count :: u32
  sp_global_tensors :: "IndexedTensor list"
  sp_layers :: "LayerPlan list"
  sp_auxiliary_tensors :: "IndexedTensor list"
  sp_required_payload_bytes :: u64
  sp_auxiliary_payload_bytes :: u64

definition type_matches :: "TypeClass \<Rightarrow> string \<Rightarrow> bool" where
  "type_matches expected actual = (case expected of
       ClassF32 \<Rightarrow> actual = ''F32''
     | ClassBf16 \<Rightarrow> actual = ''BF16''
     | ClassI64 \<Rightarrow> actual = ''I64''
     | ClassPlain \<Rightarrow> actual = ''F32'' \<or> actual = ''BF16''
     | ClassMatrix \<Rightarrow> actual \<in> set [''BF16'', ''Q8_0'', ''Q6_K'', ''Q5_K'', ''Q5_0'', ''Q4_K'', ''Q4_0'', ''Q3_K'', ''Q2_K'', ''IQ2_XXS''])"

section \<open>Requirements\<close>

text \<open>The calls of \<open>add_required\<close> in the order of the source, as data.\<close>

definition req :: "string \<Rightarrow> TypeClass \<Rightarrow> u64 list \<Rightarrow> Requirement" where
  "req suffix type dims = \<lparr> re_suffix = suffix, re_type = type, re_dims = dims \<rparr>"

definition hyper_connection :: "string \<Rightarrow> bool \<Rightarrow> Requirement list" where
  "hyper_connection prefix inject =
     [req (prefix @ ''.norm.weight'') ClassPlain [kHcWidth],
      req (prefix @ ''.mix_down.weight'') ClassBf16 [kHcWidth, kHcLowRank],
      req (prefix @ ''.mix_up.weight'') ClassBf16 [kHcLowRank, kHcWidth]] @
     (if inject then [req (prefix @ ''.inject.weight'') ClassBf16 [kHcWidth, 4]] else [])"

definition attention :: "AttentionKind \<Rightarrow> string \<Rightarrow> Requirement list" where
  "attention kind prefix =
     (if kind = QwenSparseAttention then
        [req (prefix @ ''attn_index_qk.weight'') ClassMatrix [kHidden, 640],
         req (prefix @ ''attn_index_q_norm.weight'') ClassPlain [128],
         req (prefix @ ''attn_index_k_norm.weight'') ClassPlain [128],
         req (prefix @ ''attn_q.weight'') ClassMatrix [kHidden, 12288],
         req (prefix @ ''attn_q_norm.weight'') ClassPlain [256],
         req (prefix @ ''attn_k.weight'') ClassMatrix [kHidden, 512],
         req (prefix @ ''attn_k_norm.weight'') ClassPlain [256],
         req (prefix @ ''attn_v.weight'') ClassMatrix [kHidden, 512],
         req (prefix @ ''attn_output.weight'') ClassMatrix [6144, kHidden]]
      else
        [req (prefix @ ''linear_attn.a_log'') ClassPlain [48],
         req (prefix @ ''linear_attn.conv.weight'') ClassBf16 [4, 1, 10240],
         req (prefix @ ''linear_attn.dt_bias'') ClassPlain [48],
         req (prefix @ ''linear_attn.in_a.weight'') ClassMatrix [kHidden, 48],
         req (prefix @ ''linear_attn.in_b.weight'') ClassMatrix [kHidden, 48],
         req (prefix @ ''linear_attn.qkv.weight'') ClassMatrix [kHidden, 10240],
         req (prefix @ ''linear_attn.z.weight'') ClassMatrix [kHidden, 6144],
         req (prefix @ ''linear_attn.norm.weight'') ClassPlain [128],
         req (prefix @ ''linear_attn.out.weight'') ClassMatrix [6144, kHidden]])"

definition moe :: "string \<Rightarrow> Requirement list" where
  "moe prefix =
     [req (prefix @ ''ffn_gate_inp.weight'') ClassPlain [kHidden, 512],
      req (prefix @ ''ffn_gate_exps.weight'') ClassMatrix [kHidden, 640, 512],
      req (prefix @ ''ffn_up_exps.weight'') ClassMatrix [kHidden, 640, 512],
      req (prefix @ ''ffn_down_exps.main.weight'') ClassMatrix [512, kHidden, 512],
      req (prefix @ ''ffn_down_exps.tail.weight'') ClassMatrix [128, kHidden, 512],
      req (prefix @ ''ffn_gate_shexp.weight'') ClassMatrix [kHidden, 640],
      req (prefix @ ''ffn_up_shexp.weight'') ClassMatrix [kHidden, 640],
      req (prefix @ ''ffn_down_shexp.weight'') ClassMatrix [640, kHidden],
      req (prefix @ ''ffn_shexp_gate_inp.weight'') ClassPlain [kHidden, 1]]"

definition ple :: "string \<Rightarrow> Requirement list" where
  "ple prefix =
     [req (prefix @ ''ple.conv.weight'') ClassBf16 [4, 1, kHcWidth],
      req (prefix @ ''ple.key.weight'') ClassMatrix [kHidden, kHcWidth],
      req (prefix @ ''ple.value.weight'') ClassMatrix [kHidden, kHidden],
      req (prefix @ ''ple.conv_norm.weight'') ClassPlain [kHcWidth],
      req (prefix @ ''ple.key_norm.weight'') ClassPlain [kHcWidth],
      req (prefix @ ''ple.query_norm.weight'') ClassPlain [kHcWidth],
      req (prefix @ ''ple.layer_multipliers'') ClassI64 [3],
      req (prefix @ ''ple.head_offsets'') ClassI64 [16],
      req (prefix @ ''ple.head_vocab_sizes'') ClassI64 [16]]"

definition qwen38_layer_is_qsa :: "u32 \<Rightarrow> exn + bool" where
  "qwen38_layer_is_qsa layer = (if layer \<ge> kLayers then Inl OutOfRange else Inr (layer mod 4 = 3))"

definition layer_requirements :: "u32 \<Rightarrow> AttentionKind \<Rightarrow> Requirement list" where
  "layer_requirements layer kind =
     (let prefix = ''blk.'' @ decimal (unat layer) @ ''.'' in
      hyper_connection (prefix @ ''hc_attn'') True @ attention kind prefix @
      (if layer = 1 then ple prefix else []) @ moe prefix @ hyper_connection (prefix @ ''hc_ffn'') True)"

definition global_requirements :: "u32 \<Rightarrow> Requirement list" where
  "global_requirements stage =
     (if stage = 0
      then req ''token_embd.weight'' ClassMatrix [kHidden, kVocabulary] # hyper_connection ''hc_input'' False
      else [req ''output.weight'' ClassMatrix [kHidden, kVocabulary]])"

section \<open>Building\<close>

type_synonym tensor_map = "string \<rightharpoonup> IndexedTensor"

definition require_tensor :: "tensor_map \<Rightarrow> Requirement \<Rightarrow> exn + IndexedTensor" where
  "require_tensor tensors r =
     (case tensors (re_suffix r) of
        None \<Rightarrow> Inl (RuntimeError (''Qwen3.8 stage plan is missing '' @ re_suffix r))
      | Some tensor \<Rightarrow>
          bindE (guardE (type_matches (re_type r) (it_type_name tensor))
            (RuntimeError (''Qwen3.8 tensor '' @ re_suffix r @ '' has type '' @ it_type_name tensor))) (\<lambda>_.
          bindE (guardE (re_dims r = it_dims tensor)
            (RuntimeError (''Qwen3.8 tensor '' @ re_suffix r @ '' has unexpected dimensions''))) (\<lambda>_.
          Inr tensor)))"

text \<open>The destination, the consumed names and the byte count that \<open>add_required\<close> updates.\<close>

record plan_builder =
  pb_destination :: "IndexedTensor list"
  pb_consumed :: "string set"
  pb_bytes :: u64

definition add_required :: "tensor_map \<Rightarrow> Requirement \<Rightarrow> plan_builder \<Rightarrow> exn + plan_builder" where
  "add_required tensors r b =
     bindE (require_tensor tensors r) (\<lambda>tensor.
     Inr (b\<lparr>pb_destination := pb_destination b @ [tensor], pb_consumed := insert (re_suffix r) (pb_consumed b),
       pb_bytes := pb_bytes b + it_payload_bytes tensor\<rparr>))"

fun add_all :: "tensor_map \<Rightarrow> Requirement list \<Rightarrow> plan_builder \<Rightarrow> exn + plan_builder" where
  "add_all tensors [] b = Inr b"
| "add_all tensors (r # rs) b = bindE (add_required tensors r b) (add_all tensors rs)"

definition build_layer :: "tensor_map \<Rightarrow> u32 \<Rightarrow> plan_builder \<Rightarrow> exn + LayerPlan \<times> plan_builder" where
  "build_layer tensors layer b =
     bindE (qwen38_layer_is_qsa layer) (\<lambda>qsa.
     let kind = (if qsa then QwenSparseAttention else GatedDeltaNet) in
     bindE (add_all tensors (layer_requirements layer kind) (b\<lparr>pb_destination := []\<rparr>)) (\<lambda>b.
     Inr (\<lparr> lp_layer = layer, lp_attention = kind, lp_tensors = pb_destination b \<rparr>, b)))"

fun build_layers :: "tensor_map \<Rightarrow> u32 list \<Rightarrow> plan_builder \<Rightarrow> exn + LayerPlan list \<times> plan_builder" where
  "build_layers tensors [] b = Inr ([], b)"
| "build_layers tensors (layer # layers) b =
     bindE (build_layer tensors layer b) (\<lambda>(plan, b).
     bindE (build_layers tensors layers b) (\<lambda>(plans, b). Inr (plan # plans, b)))"

text \<open>The tensors nothing asked for.\<close>

definition auxiliary :: "TensorIndex \<Rightarrow> string set \<Rightarrow> IndexedTensor list" where
  "auxiliary index consumed = filter (\<lambda>t. it_name t \<notin> consumed) (ix_tensors index)"

definition sum_bytes :: "IndexedTensor list \<Rightarrow> u64" where
  "sum_bytes tensors = sum_list (map it_payload_bytes tensors)"

definition first_layer :: "TensorIndex \<Rightarrow> u32" where
  "first_layer index = (if ix_stage index = 0 then 0 else ix_cut index)"

definition end_layer :: "TensorIndex \<Rightarrow> u32" where
  "end_layer index = (if ix_stage index = 0 then ix_cut index else kLayers)"

definition layer_range :: "u32 \<Rightarrow> u32 \<Rightarrow> u32 list" where
  "layer_range first stop = map word_of_nat [unat first ..< unat stop]"

definition build_qwen38_stage_plan :: "TensorIndex \<Rightarrow> exn + StagePlan" where
  "build_qwen38_stage_plan index =
     bindE (guardE (\<not> (ix_stage index > 1 \<or> ix_cut index = 0 \<or> ix_cut index \<ge> kLayers))
       (RuntimeError ''invalid Qwen3.8 stage/cut'')) (\<lambda>_.
     let tensors = map_of (map (\<lambda>t. (it_name t, t)) (ix_tensors index)) in
     bindE (add_all tensors (global_requirements (ix_stage index)) \<lparr> pb_destination = [], pb_consumed = {}, pb_bytes = 0 \<rparr>) (\<lambda>b.
     let globals = pb_destination b in
     bindE (build_layers tensors (layer_range (first_layer index) (end_layer index)) b) (\<lambda>(layers, b).
     let aux = auxiliary index (pb_consumed b); aux_bytes = sum_bytes aux in
     bindE (guardE (pb_bytes b + aux_bytes = ix_payload_bytes index)
       (RuntimeError ''Qwen3.8 stage byte census mismatch'')) (\<lambda>_.
     Inr \<lparr> sp_stage = ix_stage index, sp_cut = ix_cut index, sp_first_layer = first_layer index,
       sp_layer_count = end_layer index - first_layer index, sp_global_tensors = globals, sp_layers = layers,
       sp_auxiliary_tensors = aux, sp_required_payload_bytes = pb_bytes b, sp_auxiliary_payload_bytes = aux_bytes \<rparr>))))"

section \<open>What building does\<close>

definition layer_kind :: "u32 \<Rightarrow> AttentionKind" where
  "layer_kind layer = (if layer mod 4 = 3 then QwenSparseAttention else GatedDeltaNet)"

definition layers_requirements :: "u32 list \<Rightarrow> Requirement list" where
  "layers_requirements layers = concat (map (\<lambda>l. layer_requirements l (layer_kind l)) layers)"

definition satisfied :: "tensor_map \<Rightarrow> Requirement \<Rightarrow> bool" where
  "satisfied tensors r \<longleftrightarrow> (\<exists>t. tensors (re_suffix r) = Some t \<and> type_matches (re_type r) (it_type_name t) \<and> re_dims r = it_dims t)"

definition chosen :: "tensor_map \<Rightarrow> Requirement list \<Rightarrow> IndexedTensor list" where
  "chosen tensors rs = map (\<lambda>r. the (tensors (re_suffix r))) rs"

lemma require_tensor_iff: "require_tensor tensors r = Inr t \<longleftrightarrow> satisfied tensors r \<and> t = the (tensors (re_suffix r))"
  by (auto simp: require_tensor_def satisfied_def bindE_Inr_iff split: option.splits)

lemma sum_bytes_simps [simp]: "sum_bytes [] = 0" "sum_bytes (t # ts) = it_payload_bytes t + sum_bytes ts"
  "sum_bytes (ts @ us) = sum_bytes ts + sum_bytes us"
  by (simp_all add: sum_bytes_def)

lemma add_all_iff:
  "add_all tensors rs b = Inr b' \<longleftrightarrow> list_all (satisfied tensors) rs \<and>
     b' = b\<lparr>pb_destination := pb_destination b @ chosen tensors rs, pb_consumed := pb_consumed b \<union> re_suffix ` set rs,
       pb_bytes := pb_bytes b + sum_bytes (chosen tensors rs)\<rparr>"
proof (induction rs arbitrary: b)
  case Nil
  then show ?case by (auto simp: chosen_def)
next
  case (Cons r rs)
  then show ?case
    by (auto simp: add_required_def bindE_Inr_iff require_tensor_iff chosen_def add.assoc)
qed

definition plan_of :: "tensor_map \<Rightarrow> u32 \<Rightarrow> LayerPlan" where
  "plan_of tensors l = \<lparr> lp_layer = l, lp_attention = layer_kind l,
     lp_tensors = chosen tensors (layer_requirements l (layer_kind l)) \<rparr>"

lemma build_layer_iff:
  assumes "l < kLayers"
  shows "build_layer tensors l b = Inr (plan, b') \<longleftrightarrow> list_all (satisfied tensors) (layer_requirements l (layer_kind l)) \<and>
    plan = plan_of tensors l \<and>
    b' = b\<lparr>pb_destination := chosen tensors (layer_requirements l (layer_kind l)),
      pb_consumed := pb_consumed b \<union> re_suffix ` set (layer_requirements l (layer_kind l)),
      pb_bytes := pb_bytes b + sum_bytes (chosen tensors (layer_requirements l (layer_kind l)))\<rparr>"
  using assms
  by (auto simp: build_layer_def qwen38_layer_is_qsa_def bindE_Inr_iff add_all_iff Let_def layer_kind_def plan_of_def not_less [symmetric])

lemma build_layers_facts:
  assumes "build_layers tensors ls b = Inr (plans, b')" "\<forall>l \<in> set ls. l < kLayers"
  shows "list_all (satisfied tensors) (layers_requirements ls) \<and> plans = map (plan_of tensors) ls \<and>
    pb_consumed b' = pb_consumed b \<union> re_suffix ` set (layers_requirements ls) \<and>
    pb_bytes b' = pb_bytes b + sum_bytes (chosen tensors (layers_requirements ls))"
  using assms
proof (induction ls arbitrary: b plans)
  case (Cons l ls)
  obtain plan b1 plans' where s: "build_layer tensors l b = Inr (plan, b1)" "build_layers tensors ls b1 = Inr (plans', b')"
    "plans = plan # plans'" using Cons.prems(1) by (auto simp: bindE_Inr_iff)
  from Cons.IH [OF s(2)] s(1,3) Cons.prems(2) show ?case
    by (auto simp: build_layer_iff layers_requirements_def chosen_def add.assoc)
qed (simp add: layers_requirements_def chosen_def)

lemma build_layers_succeeds:
  assumes "list_all (satisfied tensors) (layers_requirements ls)" "\<forall>l \<in> set ls. l < kLayers"
  shows "\<exists>plans b'. build_layers tensors ls b = Inr (plans, b')"
  using assms
proof (induction ls arbitrary: b)
  case (Cons l ls)
  obtain b1 where b1: "build_layer tensors l b = Inr (plan_of tensors l, b1)"
    using Cons.prems by (auto simp: build_layer_iff layers_requirements_def)
  then show ?case using Cons.IH [of b1] Cons.prems by (auto simp: layers_requirements_def)
qed simp

section \<open>No tensor is asked for twice\<close>

definition layer_tails :: "bool \<Rightarrow> AttentionKind \<Rightarrow> string list" where
  "layer_tails with_ple kind = map re_suffix (hyper_connection ''hc_attn'' True @ attention kind [] @
     (if with_ple then ple [] else []) @ moe [] @ hyper_connection ''hc_ffn'' True)"

definition layer_prefix :: "u32 \<Rightarrow> string" where
  "layer_prefix l = ''blk.'' @ decimal (unat l) @ ''.''"

lemma layer_names: "map re_suffix (layer_requirements l kind) = map ((@) (layer_prefix l)) (layer_tails (l = 1) kind)"
  by (simp add: layer_requirements_def layer_tails_def layer_prefix_def hyper_connection_def attention_def ple_def moe_def req_def Let_def)

lemma layer_tails_distinct: "distinct (layer_tails with_ple kind)"
proof -
  have "distinct (layer_tails True QwenSparseAttention)" "distinct (layer_tails True GatedDeltaNet)"
    "distinct (layer_tails False QwenSparseAttention)" "distinct (layer_tails False GatedDeltaNet)" by code_simp+
  then show ?thesis by (cases with_ple; cases kind) simp_all
qed

lemma decimal_inj: "decimal m = decimal n \<Longrightarrow> m = n"
  by (metis digits_value_decimal)

lemma layer_prefix_inj:
  assumes "layer_prefix l @ x = layer_prefix m @ y"
  shows "l = m"
proof -
  have tw: "takeWhile (\<lambda>c. c \<noteq> CHR ''.'') (decimal n @ CHR ''.'' # z) = decimal n" for n z
    using decimal_digits [of n] by (subst takeWhile_append2) (auto simp: decimal_digit_def code_of_def)
  have "decimal (unat l) @ CHR ''.'' # x = decimal (unat m) @ CHR ''.'' # y" using assms by (simp add: layer_prefix_def)
  from arg_cong [OF this, of "takeWhile (\<lambda>c. c \<noteq> CHR ''.'')"] have "decimal (unat l) = decimal (unat m)" by (simp only: tw)
  then show ?thesis using decimal_inj by (simp add: word_unat_eq_iff)
qed

lemma layers_names_distinct: "distinct ls \<Longrightarrow> distinct (map re_suffix (layers_requirements ls))"
proof (induction ls)
  case (Cons l ls)
  have "inj_on ((@) (layer_prefix l)) A" for A by (simp add: inj_on_def)
  then have d: "distinct (map re_suffix (layer_requirements l (layer_kind l)))"
    by (simp add: layer_names distinct_map layer_tails_distinct)
  have "re_suffix ` set (layer_requirements l (layer_kind l)) \<inter> re_suffix ` set (layers_requirements ls) = {}"
  proof -
    have p: "\<exists>t. x = layer_prefix m @ t" if "x \<in> re_suffix ` set (layer_requirements m k)" for x m k
      using that arg_cong [OF layer_names [of m k], of set] by auto
    have "x \<notin> re_suffix ` set (layer_requirements m (layer_kind m))"
      if x: "x \<in> re_suffix ` set (layer_requirements l (layer_kind l))" and m: "m \<in> set ls" for x m
    proof
      assume "x \<in> re_suffix ` set (layer_requirements m (layer_kind m))"
      from p [OF x] p [OF this] have "l = m" by (metis layer_prefix_inj)
      then show False using m Cons.prems by simp
    qed
    then show ?thesis by (auto simp: layers_requirements_def)
  qed
  then show ?case using d Cons by (auto simp: layers_requirements_def)
qed (simp add: layers_requirements_def)

lemma global_name_head: "x \<in> re_suffix ` set (global_requirements stage) \<Longrightarrow> hd x \<noteq> CHR ''b''"
  by (auto simp: global_requirements_def hyper_connection_def req_def split: if_splits)

lemma layer_name_head:
  assumes "x \<in> re_suffix ` set (layers_requirements ls)"
  shows "hd x = CHR ''b''"
proof -
  from assms obtain l where "x \<in> set (map re_suffix (layer_requirements l (layer_kind l)))"
    by (auto simp: layers_requirements_def)
  then show ?thesis unfolding layer_names by (auto simp: layer_prefix_def)
qed

lemma global_layer_names: "re_suffix ` set (global_requirements stage) \<inter> re_suffix ` set (layers_requirements ls) = {}"
  using global_name_head layer_name_head by blast

lemma all_names_distinct:
  assumes "distinct ls"
  shows "distinct (map re_suffix (global_requirements stage @ layers_requirements ls))"
proof -
  have "distinct (map re_suffix (global_requirements stage))"
    by (simp add: global_requirements_def hyper_connection_def req_def)
  then show ?thesis
    unfolding map_append distinct_append set_map
    using layers_names_distinct [OF assms] global_layer_names by blast
qed

section \<open>The plan of an index\<close>

definition tensor_table :: "TensorIndex \<Rightarrow> tensor_map" where
  "tensor_table index = map_of (map (\<lambda>t. (it_name t, t)) (ix_tensors index))"

definition stage_layers :: "TensorIndex \<Rightarrow> u32 list" where
  "stage_layers index = layer_range (first_layer index) (end_layer index)"

definition stage_requirements :: "TensorIndex \<Rightarrow> Requirement list" where
  "stage_requirements index = global_requirements (ix_stage index) @ layers_requirements (stage_layers index)"

definition stage_cut_ok :: "TensorIndex \<Rightarrow> bool" where
  "stage_cut_ok index \<longleftrightarrow> ix_stage index \<le> 1 \<and> ix_cut index \<noteq> 0 \<and> ix_cut index < kLayers"

lemma layer_range_facts:
  assumes "stop \<le> kLayers"
  shows "distinct (layer_range first stop)" "\<forall>l \<in> set (layer_range first stop). l < kLayers"
proof -
  have u: "unat stop \<le> 48" using assms by (simp add: kLayers_def word_le_nat_alt)
  have "inj_on (word_of_nat :: nat \<Rightarrow> u32) {unat first ..< unat stop}"
    by (rule inj_on_inverseI [of _ unat]) (use u in \<open>simp add: unat_of_nat_u32\<close>)
  then show "distinct (layer_range first stop)" by (simp add: layer_range_def distinct_map)
  show "\<forall>l \<in> set (layer_range first stop). l < kLayers"
    using u by (auto simp: layer_range_def kLayers_def word_less_nat_alt unat_of_nat_u32)
qed

lemma stage_layers_facts:
  assumes "stage_cut_ok index"
  shows "distinct (stage_layers index)" "\<forall>l \<in> set (stage_layers index). l < kLayers"
  using layer_range_facts [of "end_layer index" "first_layer index"] assms
  by (auto simp: stage_layers_def end_layer_def stage_cut_ok_def)

lemma tensor_table_iff:
  assumes "distinct (map it_name (ix_tensors index))"
  shows "tensor_table index name = Some t \<longleftrightarrow> t \<in> set (ix_tensors index) \<and> it_name t = name"
proof -
  have "distinct (map fst (map (\<lambda>t. (it_name t, t)) (ix_tensors index)))" using assms by (simp add: comp_def)
  from map_of_eq_Some_iff [OF this, of name t] show ?thesis
    unfolding tensor_table_def by (simp only: set_map image_iff) auto
qed

lemma chosen_partition:
  assumes names: "distinct (map it_name (ix_tensors index))" and sat: "list_all (satisfied (tensor_table index)) rs"
    and rs: "distinct (map re_suffix rs)"
  shows "mset (chosen (tensor_table index) rs @ auxiliary index (re_suffix ` set rs)) = mset (ix_tensors index)"
proof -
  let ?c = "chosen (tensor_table index) rs" and ?P = "\<lambda>t. it_name t \<in> re_suffix ` set rs"
  have c: "the (tensor_table index (re_suffix r)) \<in> set (ix_tensors index) \<and>
      it_name (the (tensor_table index (re_suffix r))) = re_suffix r" if "r \<in> set rs" for r
  proof -
    from sat that obtain t where "tensor_table index (re_suffix r) = Some t"
      by (auto simp: list_all_iff satisfied_def)
    with tensor_table_iff [OF names, of "re_suffix r" t] show ?thesis by simp
  qed
  have "map it_name ?c = map re_suffix rs" using c by (simp add: chosen_def)
  then have d: "distinct ?c" using rs by (metis distinct_map)
  have "set ?c = set (filter ?P (ix_tensors index))"
  proof
    show "set ?c \<subseteq> set (filter ?P (ix_tensors index))" using c by (auto simp: chosen_def)
    show "set (filter ?P (ix_tensors index)) \<subseteq> set ?c"
    proof
      fix t
      assume "t \<in> set (filter ?P (ix_tensors index))"
      then obtain r where r: "r \<in> set rs" "it_name t = re_suffix r" and "t \<in> set (ix_tensors index)"
        by auto
      then have "tensor_table index (re_suffix r) = Some t" by (simp add: tensor_table_iff [OF names])
      then show "t \<in> set ?c" using r(1) unfolding chosen_def by (simp add: image_iff) (metis option.sel)
    qed
  qed
  moreover have "distinct (ix_tensors index)" using names by (simp add: distinct_map)
  ultimately have "mset ?c = mset (filter ?P (ix_tensors index))"
    using set_eq_iff_mset_eq_distinct [OF d, of "filter ?P (ix_tensors index)"] by (simp only: distinct_filter)
  then show ?thesis by (simp add: auxiliary_def)
qed

lemma sum_bytes_total: "sum_bytes ts = word_of_nat (total_bytes ts)"
  by (induction ts) (simp_all add: total_bytes_def)

lemma total_bytes_mset: "mset ts = mset us \<Longrightarrow> total_bytes ts = total_bytes us"
  unfolding total_bytes_def by (metis mset_map sum_mset_sum_list)

lemma total_bytes_append: "total_bytes (ts @ us) = total_bytes ts + total_bytes us"
  by (simp add: total_bytes_def)

text \<open>Building, in one equation: the check of the byte census cannot fail on a well-formed index.\<close>

lemma build_iff:
  assumes ok: "index_ok file_size verify index"
  shows "build_qwen38_stage_plan index = Inr plan \<longleftrightarrow>
    stage_cut_ok index \<and> list_all (satisfied (tensor_table index)) (stage_requirements index) \<and>
    plan = \<lparr> sp_stage = ix_stage index, sp_cut = ix_cut index, sp_first_layer = first_layer index,
       sp_layer_count = end_layer index - first_layer index,
       sp_global_tensors = chosen (tensor_table index) (global_requirements (ix_stage index)),
       sp_layers = map (plan_of (tensor_table index)) (stage_layers index),
       sp_auxiliary_tensors = auxiliary index (re_suffix ` set (stage_requirements index)),
       sp_required_payload_bytes = sum_bytes (chosen (tensor_table index) (stage_requirements index)),
       sp_auxiliary_payload_bytes = sum_bytes (auxiliary index (re_suffix ` set (stage_requirements index))) \<rparr>"
  (is "?build \<longleftrightarrow> ?cut \<and> ?sat \<and> ?plan")
proof (cases ?cut)
  case True
  let ?T = "tensor_table index" and ?g = "global_requirements (ix_stage index)" and ?ls = "stage_layers index"
  note L = stage_layers_facts [OF True]
  have names: "distinct (map it_name (ix_tensors index))" using ok by (simp add: index_ok_def)
  have "word_of_nat (unat (ix_payload_bytes index)) = ix_payload_bytes index" by simp
  moreover have "unat (ix_payload_bytes index) = total_bytes (ix_tensors index)" using ok by (simp add: index_ok_def)
  ultimately have total: "ix_payload_bytes index = word_of_nat (total_bytes (ix_tensors index))" by metis
  let ?b = "\<lparr> pb_destination = chosen ?T ?g, pb_consumed = re_suffix ` set ?g, pb_bytes = sum_bytes (chosen ?T ?g) \<rparr>"
  have start: "?build \<longleftrightarrow> list_all (satisfied ?T) ?g \<and> (\<exists>plans b'. build_layers ?T ?ls ?b = Inr (plans, b') \<and>
      pb_bytes b' + sum_bytes (auxiliary index (pb_consumed b')) = ix_payload_bytes index \<and>
      plan = \<lparr> sp_stage = ix_stage index, sp_cut = ix_cut index, sp_first_layer = first_layer index,
       sp_layer_count = end_layer index - first_layer index, sp_global_tensors = chosen ?T ?g, sp_layers = plans,
       sp_auxiliary_tensors = auxiliary index (pb_consumed b'), sp_required_payload_bytes = pb_bytes b',
       sp_auxiliary_payload_bytes = sum_bytes (auxiliary index (pb_consumed b')) \<rparr>)"
    using True
    by (auto simp: build_qwen38_stage_plan_def tensor_table_def stage_layers_def stage_cut_ok_def bindE_Inr_iff add_all_iff
        Let_def not_le not_less)
  have census: "sum_bytes (chosen ?T (stage_requirements index)) +
      sum_bytes (auxiliary index (re_suffix ` set (stage_requirements index))) = ix_payload_bytes index" if "?sat"
  proof -
    have "distinct (map re_suffix (stage_requirements index))"
      unfolding stage_requirements_def by (rule all_names_distinct [OF L(1)])
    from total_bytes_mset [OF chosen_partition [OF names that this]] show ?thesis
      unfolding total by (simp only: sum_bytes_total flip: of_nat_add total_bytes_append)
  qed
  have req: "?sat \<longleftrightarrow> list_all (satisfied ?T) ?g \<and> list_all (satisfied ?T) (layers_requirements ?ls)"
    by (simp add: stage_requirements_def)
  have b': "re_suffix ` set ?g \<union> re_suffix ` set (layers_requirements ?ls) = re_suffix ` set (stage_requirements index)"
    "sum_bytes (chosen ?T ?g) + sum_bytes (chosen ?T (layers_requirements ?ls)) = sum_bytes (chosen ?T (stage_requirements index))"
    by (auto simp: stage_requirements_def chosen_def)
  show ?thesis
  proof
    assume ?build
    then obtain plans b1 where p: "list_all (satisfied ?T) ?g" "build_layers ?T ?ls ?b = Inr (plans, b1)"
      "plan = \<lparr> sp_stage = ix_stage index, sp_cut = ix_cut index, sp_first_layer = first_layer index,
       sp_layer_count = end_layer index - first_layer index, sp_global_tensors = chosen ?T ?g, sp_layers = plans,
       sp_auxiliary_tensors = auxiliary index (pb_consumed b1), sp_required_payload_bytes = pb_bytes b1,
       sp_auxiliary_payload_bytes = sum_bytes (auxiliary index (pb_consumed b1)) \<rparr>"
      unfolding start by blast
    from build_layers_facts [OF p(2) L(2)] p(1,3) req b' True show "?cut \<and> ?sat \<and> ?plan" by simp
  next
    assume a: "?cut \<and> ?sat \<and> ?plan"
    then obtain plans b1 where p: "build_layers ?T ?ls ?b = Inr (plans, b1)"
      using build_layers_succeeds [OF _ L(2), of ?T ?b] req by blast
    from build_layers_facts [OF p L(2)] census a req b' p show ?build unfolding start by auto
  qed
next
  case False
  then show ?thesis by (auto simp: build_qwen38_stage_plan_def stage_cut_ok_def bindE_Inr_iff not_le not_less)
qed

section \<open>A sample index\<close>

text \<open>For any stage and cut, an index that holds one tensor of one byte for every requirement.\<close>

definition type_of_class :: "TypeClass \<Rightarrow> string" where
  "type_of_class c = (case c of ClassF32 \<Rightarrow> ''F32'' | ClassBf16 \<Rightarrow> ''BF16'' | ClassI64 \<Rightarrow> ''I64'' | ClassPlain \<Rightarrow> ''F32'' | ClassMatrix \<Rightarrow> ''Q4_K'')"

definition sample_tensor :: "Requirement \<Rightarrow> IndexedTensor" where
  "sample_tensor r = \<lparr> it_name = re_suffix r, it_type_name = type_of_class (re_type r), it_payload_bytes = 1,
     it_absolute_offset = 0, it_shard_path = ''a.gguf'', it_dims = re_dims r \<rparr>"

definition sample_shell :: "u32 \<Rightarrow> u32 \<Rightarrow> TensorIndex" where
  "sample_shell stage point = empty_index\<lparr>ix_stage := stage, ix_cut := point\<rparr>"

definition sample_index :: "u32 \<Rightarrow> u32 \<Rightarrow> TensorIndex" where
  "sample_index stage point = (sample_shell stage point)\<lparr>ix_layout_sha256 := replicate 64 (CHR ''a''),
     ix_tensors := map sample_tensor (stage_requirements (sample_shell stage point)),
     ix_payload_bytes := word_of_nat (length (stage_requirements (sample_shell stage point)))\<rparr>"

lemma sample_layers:
  "first_layer (sample_index stage point) = first_layer (sample_shell stage point)"
  "stage_layers (sample_index stage point) = stage_layers (sample_shell stage point)"
  "stage_requirements (sample_index stage point) = stage_requirements (sample_shell stage point)"
  "stage_cut_ok (sample_index stage point) = stage_cut_ok (sample_shell stage point)"
  by (simp_all add: sample_index_def first_layer_def stage_layers_def end_layer_def stage_requirements_def stage_cut_ok_def)

definition requirement_ok :: "Requirement \<Rightarrow> bool" where
  "requirement_ok r \<longleftrightarrow> re_suffix r \<noteq> [] \<and> re_dims r \<noteq> [] \<and> CHR 0x09 \<notin> set (re_suffix r) \<and> CHR 0x0A \<notin> set (re_suffix r)"

lemma requirement_ok_global: "list_all requirement_ok (global_requirements stage)"
proof -
  have "list_all requirement_ok (global_requirements 0)" "list_all requirement_ok (global_requirements 1)" by code_simp+
  then show ?thesis by (cases "stage = 0") (simp_all add: global_requirements_def)
qed

lemma requirement_ok_layer: "list_all requirement_ok (layer_requirements l kind)"
  using decimal_clean [of "CHR 0x09" "unat l"] decimal_clean [of "CHR 0x0A" "unat l"]
  by (auto simp: layer_requirements_def Let_def hyper_connection_def attention_def moe_def ple_def req_def requirement_ok_def)

lemma requirement_ok_stage: "r \<in> set (stage_requirements index) \<Longrightarrow> requirement_ok r"
  using requirement_ok_global requirement_ok_layer
  by (auto simp: stage_requirements_def layers_requirements_def list_all_iff)

lemma length_layers_requirements: "length (layers_requirements ls) \<le> 40 * length ls"
proof (induction ls)
  case (Cons l ls)
  have "length (layer_requirements l (layer_kind l)) \<le> 40"
    by (simp add: layer_requirements_def Let_def hyper_connection_def attention_def moe_def ple_def)
  then show ?case using Cons by (simp add: layers_requirements_def)
qed (simp add: layers_requirements_def)

lemma length_stage_requirements:
  assumes "stage_cut_ok index"
  shows "length (stage_requirements index) < 2 ^ 64" "stage_requirements index \<noteq> []"
proof -
  have "length (global_requirements (ix_stage index)) \<le> 4" by (simp add: global_requirements_def hyper_connection_def)
  moreover have "length (stage_layers index) \<le> 48"
    using assms by (auto simp: stage_layers_def layer_range_def end_layer_def stage_cut_ok_def kLayers_def word_less_nat_alt)
  ultimately show "length (stage_requirements index) < 2 ^ 64"
    using length_layers_requirements [of "stage_layers index"] by (simp add: stage_requirements_def)
qed (simp add: stage_requirements_def global_requirements_def)

lemma sample_index_ok:
  assumes "stage_cut_ok (sample_shell stage point)"
  shows "index_ok file_size False (sample_index stage point)" "list_all printable (ix_tensors (sample_index stage point))"
proof -
  let ?rs = "stage_requirements (sample_shell stage point)"
  have sha: "is_sha256 (replicate 64 (CHR ''a''))"
    by (simp add: is_sha256_def is_hex_def list_all_iff digit_value_def code_of_def Let_def)
  have names: "map it_name (map sample_tensor ?rs) = map re_suffix ?rs" by (simp add: sample_tensor_def)
  have d: "distinct (map re_suffix ?rs)"
    unfolding stage_requirements_def by (rule all_names_distinct [OF stage_layers_facts(1) [OF assms]])
  have t: "type_of_class c \<noteq> []" "CHR 0x09 \<notin> set (type_of_class c)" "CHR 0x0A \<notin> set (type_of_class c)" for c
    by (cases c; simp add: type_of_class_def)+
  have total: "total_bytes (map sample_tensor ?rs) = length ?rs"
    by (simp add: total_bytes_def sample_tensor_def comp_def sum_list_triv)
  show "index_ok file_size False (sample_index stage point)"
    using assms sha d names t total length_stage_requirements [OF assms] requirement_ok_stage [of _ "sample_shell stage point"]
    by (simp add: index_ok_def sample_index_def sample_shell_def stage_cut_ok_def tensor_ok_def list_all_iff sample_tensor_def
        requirement_ok_def unat_of_nat take_bit_nat_eq_self comp_def)
  show "list_all printable (ix_tensors (sample_index stage point))"
    using t requirement_ok_stage [of _ "sample_shell stage point"]
    by (simp add: sample_index_def list_all_iff printable_def sample_tensor_def requirement_ok_def)
qed

lemma sample_loads:
  assumes "stage_cut_ok (sample_shell stage point)"
  shows "load_tensor_index file_size path (Some (print_index (sample_index stage point))) False = Inr (sample_index stage point)"
  by (rule load_print_index [OF sample_index_ok [OF assms]])

lemma sample_satisfied:
  assumes "stage_cut_ok (sample_shell stage point)"
  shows "list_all (satisfied (tensor_table (sample_index stage point))) (stage_requirements (sample_index stage point))"
proof -
  have names: "distinct (map it_name (ix_tensors (sample_index stage point)))"
    using sample_index_ok(1) [OF assms] by (simp add: index_ok_def)
  have "type_matches c (type_of_class c)" for c by (cases c) (simp_all add: type_matches_def type_of_class_def)
  then have "satisfied (tensor_table (sample_index stage point)) r" if "r \<in> set (stage_requirements (sample_index stage point))" for r
    unfolding satisfied_def tensor_table_iff [OF names]
  proof (intro exI conjI)
    show "sample_tensor r \<in> set (ix_tensors (sample_index stage point))"
      using that by (simp add: sample_layers) (simp add: sample_index_def)
  qed (simp_all add: sample_tensor_def \<open>\<And>c. type_matches c (type_of_class c)\<close>)
  then show ?thesis by (simp add: list_all_iff)
qed

lemma sample_builds:
  assumes "stage_cut_ok (sample_shell stage point)"
  shows "\<exists>plan. build_qwen38_stage_plan (sample_index stage point) = Inr plan"
  unfolding build_iff [OF sample_index_ok(1) [OF assms]]
  using assms sample_satisfied [OF assms] by (simp add: sample_layers)

lemma layer_range_append:
  assumes "a \<le> b" "b \<le> c"
  shows "layer_range a b @ layer_range b c = layer_range a c"
  using assms upt_add_eq_append [of "unat a" "unat b" "unat c - unat b"]
  by (simp add: layer_range_def word_le_nat_alt flip: map_append)

section \<open>Properties\<close>

text \<open>
  C22: A stage plan built from a file assigns every tensor of the index exactly once: the globals, the
  tensors of the layers and the auxiliary tensors are together a permutation of the index. The
  layers are those of the stage in order, each sparse exactly at the positions 3 modulo 4, and the
  two byte counts add up to the byte count of the index without wrapping.
\<close>

theorem stage_plan_partition:
  assumes "load_tensor_index file_size path contents verify = Inr index" and "build_qwen38_stage_plan index = Inr plan"
  shows "mset (sp_global_tensors plan @ concat (map lp_tensors (sp_layers plan)) @ sp_auxiliary_tensors plan) = mset (ix_tensors index) \<and>
    map lp_layer (sp_layers plan) = map word_of_nat [unat (first_layer index) ..< unat (end_layer index)] \<and>
    length (sp_layers plan) = unat (sp_layer_count plan) \<and>
    (\<forall>l \<in> set (sp_layers plan). lp_attention l = QwenSparseAttention \<longleftrightarrow> lp_layer l mod 4 = 3) \<and>
    unat (sp_required_payload_bytes plan) + unat (sp_auxiliary_payload_bytes plan) = unat (ix_payload_bytes index)"
proof -
  note ok = load_tensor_index_ok [OF assms(1)]
  from build_iff [OF ok] assms(2) have c: "stage_cut_ok index" and
    sat: "list_all (satisfied (tensor_table index)) (stage_requirements index)" and
    plan: "plan = \<lparr> sp_stage = ix_stage index, sp_cut = ix_cut index, sp_first_layer = first_layer index,
       sp_layer_count = end_layer index - first_layer index,
       sp_global_tensors = chosen (tensor_table index) (global_requirements (ix_stage index)),
       sp_layers = map (plan_of (tensor_table index)) (stage_layers index),
       sp_auxiliary_tensors = auxiliary index (re_suffix ` set (stage_requirements index)),
       sp_required_payload_bytes = sum_bytes (chosen (tensor_table index) (stage_requirements index)),
       sp_auxiliary_payload_bytes = sum_bytes (auxiliary index (re_suffix ` set (stage_requirements index))) \<rparr>"
    by blast+
  have names: "distinct (map it_name (ix_tensors index))" using ok by (simp add: index_ok_def)
  have "distinct (map re_suffix (stage_requirements index))"
    unfolding stage_requirements_def by (rule all_names_distinct [OF stage_layers_facts(1) [OF c]])
  note part = chosen_partition [OF names sat this]
  have tensors: "concat (map lp_tensors (sp_layers plan)) = chosen (tensor_table index) (layers_requirements (stage_layers index))"
    by (simp add: plan plan_of_def layers_requirements_def chosen_def comp_def map_concat)
  have le: "first_layer index \<le> end_layer index"
    using c by (auto simp: first_layer_def end_layer_def stage_cut_ok_def)
  have "length (stage_layers index) = unat (end_layer index - first_layer index)"
    using le by (simp add: stage_layers_def layer_range_def unat_sub)
  then have "length (sp_layers plan) = unat (sp_layer_count plan)" by (simp add: plan)
  moreover have "unat (sum_bytes ts) + unat (sum_bytes us) = unat (ix_payload_bytes index)"
    if "mset (ts @ us) = mset (ix_tensors index)" for ts us
    using total_bytes_mset [OF that] ok unat_u64_lt [of "ix_payload_bytes index"]
    by (simp add: index_ok_def sum_bytes_total total_bytes_append unat_of_nat take_bit_nat_eq_self)
  from this [OF part] have "unat (sp_required_payload_bytes plan) + unat (sp_auxiliary_payload_bytes plan) = unat (ix_payload_bytes index)"
    by (simp add: plan)
  moreover have "mset (sp_global_tensors plan @ concat (map lp_tensors (sp_layers plan)) @ sp_auxiliary_tensors plan) = mset (ix_tensors index)"
    unfolding tensors using part by (simp add: plan stage_requirements_def chosen_def)
  moreover have "map lp_layer (sp_layers plan) = map word_of_nat [unat (first_layer index) ..< unat (end_layer index)]"
    by (simp add: plan plan_of_def stage_layers_def layer_range_def comp_def)
  moreover have "\<forall>l \<in> set (sp_layers plan). lp_attention l = QwenSparseAttention \<longleftrightarrow> lp_layer l mod 4 = 3"
    by (simp add: plan plan_of_def layer_kind_def)
  ultimately show ?thesis by blast
qed


text \<open>
  C24: The plans of a validated pair cover the model: the layers of the two stages, one after the other,
  are the 48 layers in order, none missing and none twice, and no tensor name is owned by both
  stages.
\<close>

theorem stage_pair_covers:
  assumes "load_tensor_index file_size path0 contents0 verify = Inr index0"
    and "load_tensor_index file_size path1 contents1 verify = Inr index1"
    and "validate_tensor_index_pair index0 index1 = Inr ()"
    and "build_qwen38_stage_plan index0 = Inr plan0" and "build_qwen38_stage_plan index1 = Inr plan1"
  shows "map lp_layer (sp_layers plan0 @ sp_layers plan1) = map word_of_nat [0 ..< 48] \<and>
    it_name ` set (ix_tensors index0) \<inter> it_name ` set (ix_tensors index1) = {}"
proof -
  have v: "ix_stage index0 = 0" "ix_stage index1 = 1" "ix_cut index0 = ix_cut index1"
    "it_name ` set (ix_tensors index0) \<inter> it_name ` set (ix_tensors index1) = {}"
    using assms(3) by (auto simp: validate_tensor_index_pair_def bindE_Inr_iff disjoint_names_iff)
  have layers: "stage_cut_ok index \<and> map lp_layer (sp_layers plan) = stage_layers index"
    if "load_tensor_index file_size path contents verify = Inr index" "build_qwen38_stage_plan index = Inr plan"
    for path contents index plan
    using build_iff [OF load_tensor_index_ok [OF that(1)], of plan] that(2) by (auto simp: plan_of_def comp_def)
  have "ix_cut index1 \<le> kLayers" using layers [OF assms(1,4)] v(3) by (simp add: stage_cut_ok_def less_imp_le)
  then have "layer_range 0 (ix_cut index1) @ layer_range (ix_cut index1) kLayers = layer_range 0 kLayers"
    by (intro layer_range_append) simp_all
  then show ?thesis
    using v layers [OF assms(1,4)] layers [OF assms(2,5)]
    by (simp add: stage_layers_def first_layer_def end_layer_def) (simp add: layer_range_def kLayers_def)
qed

lemma sample_cut_ok: "stage_cut_ok (sample_shell 0 25)" "stage_cut_ok (sample_shell 1 25)"
  by (simp_all add: stage_cut_ok_def sample_shell_def kLayers_def)

lemma sample_pair: "validate_tensor_index_pair (sample_index 0 25) (sample_index 1 25) = Inr ()"
proof -
  let ?n = "\<lambda>stage. re_suffix ` set (stage_requirements (sample_shell stage 25))"
  have names: "it_name ` set (ix_tensors (sample_index stage 25)) = ?n stage" for stage
    by (simp add: sample_index_def sample_tensor_def image_image)
  have "layer_range 0 25 @ layer_range 25 48 = layer_range 0 48" by (rule layer_range_append) simp_all
  then have "distinct (layer_range 0 25 @ layer_range 25 48)"
    using layer_range_facts(1) [of 48 0] by (simp add: kLayers_def)
  from layers_names_distinct [OF this]
  have "re_suffix ` set (layers_requirements (layer_range 0 25)) \<inter> re_suffix ` set (layers_requirements (layer_range 25 48)) = {}"
    by (simp add: layers_requirements_def)
  moreover have "re_suffix ` set (global_requirements 0) \<inter> re_suffix ` set (global_requirements 1) = {}"
    by (simp add: global_requirements_def hyper_connection_def req_def)
  ultimately have "?n 1 \<inter> ?n 0 = {}"
    using global_layer_names by (simp add: stage_requirements_def sample_shell_def stage_layers_def first_layer_def end_layer_def
      kLayers_def image_Un Int_Un_distrib Int_Un_distrib2 Int_commute)
  moreover have "distinct (map it_name (ix_tensors (sample_index 1 25)))"
    using sample_index_ok(1) [OF sample_cut_ok(2)] by (simp add: index_ok_def)
  ultimately have "disjoint_names (ix_tensors (sample_index 1 25)) (it_name ` set (ix_tensors (sample_index 0 25))) = Inr ()"
    unfolding disjoint_names_iff names by simp
  moreover have "ix_stage (sample_index stage point) = stage" "ix_cut (sample_index stage point) = point"
    "ix_layout_sha256 (sample_index stage point) = replicate 64 (CHR ''a'')" for stage point
    by (simp_all add: sample_index_def sample_shell_def)
  ultimately show ?thesis by (simp add: validate_tensor_index_pair_def)
qed

theorem stage_plan_partition_witness:
  "\<exists>plan. build_qwen38_stage_plan (sample_index 1 25) = Inr plan \<and> length (sp_layers plan) = unat (sp_layer_count plan)"
proof -
  obtain plan where "build_qwen38_stage_plan (sample_index 1 25) = Inr plan" using sample_builds [OF sample_cut_ok(2)] by blast
  with stage_plan_partition [OF sample_loads [OF sample_cut_ok(2)] this] show ?thesis by blast
qed


theorem stage_pair_covers_witness:
  "\<exists>plan0 plan1. build_qwen38_stage_plan (sample_index 0 25) = Inr plan0 \<and> build_qwen38_stage_plan (sample_index 1 25) = Inr plan1 \<and>
     map lp_layer (sp_layers plan0 @ sp_layers plan1) = map word_of_nat [0 ..< 48]"
proof -
  obtain plan0 plan1 where p: "build_qwen38_stage_plan (sample_index 0 25) = Inr plan0"
    "build_qwen38_stage_plan (sample_index 1 25) = Inr plan1"
    using sample_builds [OF sample_cut_ok(1)] sample_builds [OF sample_cut_ok(2)] by blast
  with stage_pair_covers [OF sample_loads [OF sample_cut_ok(1)] sample_loads [OF sample_cut_ok(2)] sample_pair p] show ?thesis by blast
qed

end
