(* ===== verification/PleTables.thy ===== *)
theory PleTables
  imports FieldText
begin

text \<open>
  The layout of the n-gram embedding tables, the first half of \<^verbatim>\<open>include/q38/ple.h\<close> and
  \<^verbatim>\<open>src/ple.cc\<close>: the reader of the layout file, its validation, the hash from tokens to table rows
  and the lookup of the part that holds a row. The contents of the layout file and the sizes of the
  table files (\<open>std::filesystem::file_size\<close>, \<open>Inl\<close> the system's message) are arguments.
\<close>

section \<open>Data\<close>

definition kPleHeads :: nat where "kPleHeads = 16"
definition kPleHeadsPerNgram :: nat where "kPleHeadsPerNgram = 8"

record PleHashConfig =
  hc_unigram_vocab_size :: u32
  hc_eos_token_id :: u32
  hc_multipliers :: "u64 list"
  hc_head_vocab_sizes :: "u64 list"
  hc_head_offsets :: "u64 list"

record PleFile =
  pf_index :: u32
  pf_path :: string
  pf_file_bytes :: u64
  pf_payload_bytes :: u64

record PlePart =
  pp_logical_part :: u32
  pp_file_index :: u32
  pp_global_row_start :: u64
  pp_rows :: u64
  pp_file_offset :: u64
  pp_payload_bytes :: u64
  pp_scale_file_index :: u32
  pp_scale_file_offset :: u64
  pp_scale_bytes :: u64

record PleLayout =
  pl_storage_dtype :: DType
  pl_alignment_bytes :: u32
  pl_row_stride_bytes :: u32
  pl_row_dimension :: u32
  pl_usable_rows :: u64
  pl_padded_rows :: u64
  pl_hash :: PleHashConfig
  pl_files :: "PleFile list"
  pl_parts :: "PlePart list"

definition empty_layout :: PleLayout where
  "empty_layout = \<lparr> pl_storage_dtype = DInvalid, pl_alignment_bytes = 0, pl_row_stride_bytes = 0, pl_row_dimension = 0,
     pl_usable_rows = 0, pl_padded_rows = 0,
     pl_hash = \<lparr> hc_unigram_vocab_size = 0, hc_eos_token_id = 0, hc_multipliers = replicate 3 0,
       hc_head_vocab_sizes = replicate kPleHeads 0, hc_head_offsets = replicate kPleHeads 0 \<rparr>,
     pl_files = [], pl_parts = [] \<rparr>"

section \<open>Reading\<close>

definition ple_u64 :: "string \<Rightarrow> string \<Rightarrow> exn + u64" where
  "ple_u64 = parse_u64_field ''PLE layout ''"

definition ple_u32 :: "string \<Rightarrow> string \<Rightarrow> exn + u32" where
  "ple_u32 name value =
     bindE (ple_u64 name value) (\<lambda>parsed.
     bindE (guardE (\<not> parsed > 0xffffffff) (RuntimeError (''PLE layout '' @ name @ '' exceeds uint32''))) (\<lambda>_.
     Inr (ucast parsed)))"

definition parse_array :: "nat \<Rightarrow> string \<Rightarrow> string \<Rightarrow> exn + u64 list" where
  "parse_array n name value =
     (let columns = split_fields (CHR '','') value in
      bindE (guardE (length columns = n) (RuntimeError (''PLE layout '' @ name @ '' has wrong length''))) (\<lambda>_.
      mapE (ple_u64 name) columns))"

definition parse_dtype :: "string \<Rightarrow> exn + DType" where
  "parse_dtype value =
     (if value = ''bf16'' then Inr BFloat16
      else if value = ''fp8_e4m3'' then Inr Fp8E4M3
      else Inl (RuntimeError ''PLE layout has unsupported storage dtype''))"

definition parse_file :: "string list \<Rightarrow> exn + PleFile" where
  "parse_file columns =
     bindE (ple_u32 ''file index'' (columns ! 1)) (\<lambda>index.
     bindE (ple_u64 ''file bytes'' (columns ! 3)) (\<lambda>file_bytes.
     bindE (ple_u64 ''file payload'' (columns ! 4)) (\<lambda>payload_bytes.
     Inr \<lparr> pf_index = index, pf_path = columns ! 2, pf_file_bytes = file_bytes, pf_payload_bytes = payload_bytes \<rparr>)))"

definition parse_part :: "string list \<Rightarrow> exn + PlePart" where
  "parse_part columns =
     bindE (ple_u32 ''part index'' (columns ! 1)) (\<lambda>logical_part.
     bindE (ple_u32 ''part file'' (columns ! 2)) (\<lambda>file_index.
     bindE (ple_u64 ''part row start'' (columns ! 3)) (\<lambda>row_start.
     bindE (ple_u64 ''part rows'' (columns ! 4)) (\<lambda>rows.
     bindE (ple_u64 ''part file offset'' (columns ! 5)) (\<lambda>file_offset.
     bindE (ple_u64 ''part payload'' (columns ! 6)) (\<lambda>payload_bytes.
     let part = \<lparr> pp_logical_part = logical_part, pp_file_index = file_index, pp_global_row_start = row_start, pp_rows = rows,
       pp_file_offset = file_offset, pp_payload_bytes = payload_bytes, pp_scale_file_index = 0, pp_scale_file_offset = 0,
       pp_scale_bytes = 0 \<rparr> in
     if length columns = 10 then
       bindE (ple_u32 ''part scale file'' (columns ! 7)) (\<lambda>scale_file_index.
       bindE (ple_u64 ''part scale offset'' (columns ! 8)) (\<lambda>scale_file_offset.
       bindE (ple_u64 ''part scale bytes'' (columns ! 9)) (\<lambda>scale_bytes.
       Inr (part\<lparr>pp_scale_file_index := scale_file_index, pp_scale_file_offset := scale_file_offset, pp_scale_bytes := scale_bytes\<rparr>))))
     else Inr part))))))"

definition tab_record :: "string list \<Rightarrow> PleLayout \<Rightarrow> exn + PleLayout" where
  "tab_record columns layout =
     (if columns ! 0 = ''file'' \<and> length columns = 5
      then bindE (parse_file columns) (\<lambda>f. Inr (layout\<lparr>pl_files := pl_files layout @ [f]\<rparr>))
      else if columns ! 0 = ''part'' \<and> (length columns = 7 \<or> length columns = 10)
      then bindE (parse_part columns) (\<lambda>p. Inr (layout\<lparr>pl_parts := pl_parts layout @ [p]\<rparr>))
      else Inl (RuntimeError ''PLE layout has invalid tab record''))"

definition key_record :: "string \<Rightarrow> string \<Rightarrow> PleLayout \<Rightarrow> exn + PleLayout" where
  "key_record key value layout =
     (if key = ''dtype'' then bindE (parse_dtype value) (\<lambda>v. Inr (layout\<lparr>pl_storage_dtype := v\<rparr>))
      else if key = ''alignment'' then bindE (ple_u32 key value) (\<lambda>v. Inr (layout\<lparr>pl_alignment_bytes := v\<rparr>))
      else if key = ''row_stride'' then bindE (ple_u32 key value) (\<lambda>v. Inr (layout\<lparr>pl_row_stride_bytes := v\<rparr>))
      else if key = ''row_dimension'' then bindE (ple_u32 key value) (\<lambda>v. Inr (layout\<lparr>pl_row_dimension := v\<rparr>))
      else if key = ''usable_rows'' then bindE (ple_u64 key value) (\<lambda>v. Inr (layout\<lparr>pl_usable_rows := v\<rparr>))
      else if key = ''padded_rows'' then bindE (ple_u64 key value) (\<lambda>v. Inr (layout\<lparr>pl_padded_rows := v\<rparr>))
      else if key = ''unigram_vocab'' then bindE (ple_u32 key value) (\<lambda>v.
        Inr (layout\<lparr>pl_hash := (pl_hash layout)\<lparr>hc_unigram_vocab_size := v\<rparr>\<rparr>))
      else if key = ''eos_token'' then bindE (ple_u32 key value) (\<lambda>v.
        Inr (layout\<lparr>pl_hash := (pl_hash layout)\<lparr>hc_eos_token_id := v\<rparr>\<rparr>))
      else if key = ''multipliers'' then bindE (parse_array 3 key value) (\<lambda>v.
        Inr (layout\<lparr>pl_hash := (pl_hash layout)\<lparr>hc_multipliers := v\<rparr>\<rparr>))
      else if key = ''head_vocab_sizes'' then bindE (parse_array kPleHeads key value) (\<lambda>v.
        Inr (layout\<lparr>pl_hash := (pl_hash layout)\<lparr>hc_head_vocab_sizes := v\<rparr>\<rparr>))
      else if key = ''head_offsets'' then bindE (parse_array kPleHeads key value) (\<lambda>v.
        Inr (layout\<lparr>pl_hash := (pl_hash layout)\<lparr>hc_head_offsets := v\<rparr>\<rparr>))
      else Inl (RuntimeError (''PLE layout has unknown key '' @ key)))"

definition layout_line :: "string \<Rightarrow> PleLayout \<times> string set \<Rightarrow> exn + PleLayout \<times> string set" where
  "layout_line line = (\<lambda>(layout, headers).
     if line = [] \<or> hd line = CHR ''#'' then Inr (layout, headers)
     else let columns = split_fields (CHR 0x09) line in
     if length columns > 1 then bindE (tab_record columns layout) (\<lambda>layout. Inr (layout, headers))
     else
       bindE (guardE (CHR ''='' \<in> set line) (RuntimeError (''PLE layout line has no '' @ [CHR 0x27, CHR ''='', CHR 0x27]))) (\<lambda>_.
       let key = takeWhile (\<lambda>c. c \<noteq> CHR ''='') line; value = drop (length key + 1) line in
       bindE (guardE (key \<notin> headers) (RuntimeError (''PLE layout has duplicate key '' @ key))) (\<lambda>_.
       bindE (key_record key value layout) (\<lambda>layout. Inr (layout, insert key headers)))))"

fun layout_lines :: "string list \<Rightarrow> PleLayout \<times> string set \<Rightarrow> exn + PleLayout \<times> string set" where
  "layout_lines [] s = Inr s"
| "layout_lines (line # lines) s = bindE (layout_line line s) (layout_lines lines)"

section \<open>Validating\<close>

definition check_dimensions :: "PleLayout \<Rightarrow> exn + unit" where
  "check_dimensions layout =
     (let element_bytes = dtype_bytes (pl_storage_dtype layout) in
      bindE (guardE (\<not> (element_bytes = 0 \<or> pl_alignment_bytes layout = 0 \<or> pl_row_stride_bytes layout = 0 \<or>
          pl_row_dimension layout = 0 \<or> pl_usable_rows layout = 0 \<or> pl_padded_rows layout < pl_usable_rows layout))
        (RuntimeError ''PLE layout has invalid dimensions'')) (\<lambda>_.
      bindE (guardE (ucast (pl_row_dimension layout) * element_bytes = ucast (pl_row_stride_bytes layout))
        (RuntimeError ''PLE row stride does not match dtype and dimension'')) (\<lambda>_.
      bindE (guardE (\<not> (pl_files layout = [] \<or> pl_parts layout = []))
        (RuntimeError ''PLE layout has no files or logical parts'')) (\<lambda>_.
      guardE (\<not> (hc_unigram_vocab_size (pl_hash layout) = 0 \<or>
          hc_eos_token_id (pl_hash layout) \<ge> hc_unigram_vocab_size (pl_hash layout)))
        (RuntimeError ''PLE hash token configuration is invalid'')))))"

text \<open>The loops of \<open>validate_layout\<close>; the heads are pairs of a size and an offset.\<close>

fun check_heads :: "u64 \<Rightarrow> (u64 \<times> u64) list \<Rightarrow> exn + u64" where
  "check_heads expected_offset [] = Inr expected_offset"
| "check_heads expected_offset ((extent, offset) # heads) =
     bindE (guardE (\<not> (extent = 0 \<or> offset \<noteq> expected_offset))
       (RuntimeError ''PLE hash head ranges are not contiguous'')) (\<lambda>_.
     check_heads (expected_offset + extent) heads)"

fun check_files :: "(string \<Rightarrow> string + u64) \<Rightarrow> bool \<Rightarrow> nat \<Rightarrow> PleFile list \<Rightarrow> exn + unit" where
  "check_files file_size verify i [] = Inr ()"
| "check_files file_size verify i (f # fs) =
     bindE (guardE (\<not> (unat (pf_index f) \<noteq> i \<or> pf_path f = [] \<or> pf_file_bytes f = 0 \<or> pf_payload_bytes f > pf_file_bytes f))
       (RuntimeError ''PLE physical file table is invalid'')) (\<lambda>_.
     bindE (guardE (verify \<longrightarrow> file_size (pf_path f) = Inr (pf_file_bytes f))
       (RuntimeError (''PLE physical file size mismatch: '' @ pf_path f))) (\<lambda>_.
     check_files file_size verify (i + 1) fs))"

definition check_scales :: "PleLayout \<Rightarrow> PlePart \<Rightarrow> exn + unit" where
  "check_scales layout part =
     (if pl_storage_dtype layout = Fp8E4M3 then
        bindE (guardE (\<not> (unat (pp_scale_file_index part) \<ge> length (pl_files layout) \<or> pp_scale_bytes part \<noteq> pp_rows part * 2))
          (RuntimeError ''PLE row-scale table is invalid'')) (\<lambda>_.
        guardE (within (pp_scale_file_offset part) (pp_scale_bytes part)
            (pf_file_bytes (pl_files layout ! unat (pp_scale_file_index part))))
          (RuntimeError ''PLE row-scale extent exceeds its file''))
      else guardE (pp_scale_bytes part = 0) (RuntimeError ''non-FP8 PLE part has row scales''))"

definition check_part :: "PleLayout \<Rightarrow> nat \<Rightarrow> u64 \<Rightarrow> PlePart \<Rightarrow> exn + unit" where
  "check_part layout i next_row part =
     bindE (guardE (\<not> (unat (pp_logical_part part) \<noteq> i \<or> unat (pp_file_index part) \<ge> length (pl_files layout) \<or>
         pp_global_row_start part \<noteq> next_row \<or> pp_rows part = 0 \<or>
         pp_payload_bytes part \<noteq> pp_rows part * ucast (pl_row_stride_bytes layout)))
       (RuntimeError ''PLE logical part table is invalid'')) (\<lambda>_.
     bindE (guardE (within (pp_file_offset part) (pp_payload_bytes part)
         (pf_file_bytes (pl_files layout ! unat (pp_file_index part))))
       (RuntimeError ''PLE logical part exceeds its physical file'')) (\<lambda>_.
     check_scales layout part))"

fun check_parts :: "PleLayout \<Rightarrow> nat \<Rightarrow> u64 \<Rightarrow> PlePart list \<Rightarrow> exn + u64" where
  "check_parts layout i next_row [] = Inr next_row"
| "check_parts layout i next_row (part # parts) =
     bindE (check_part layout i next_row part) (\<lambda>_. check_parts layout (i + 1) (next_row + pp_rows part) parts)"

text \<open>\<open>std::sort\<close> on both tables. The order of equal keys, which \<open>std::sort\<close> leaves open, does not
  matter: two files of one index, or two parts of one start, are rejected in either order.\<close>

definition validate_layout :: "(string \<Rightarrow> string + u64) \<Rightarrow> bool \<Rightarrow> PleLayout \<Rightarrow> exn + PleLayout" where
  "validate_layout file_size verify layout =
     bindE (check_dimensions layout) (\<lambda>_.
     bindE (check_heads 0 (zip (hc_head_vocab_sizes (pl_hash layout)) (hc_head_offsets (pl_hash layout)))) (\<lambda>expected_offset.
     bindE (guardE (expected_offset = pl_usable_rows layout)
       (RuntimeError ''PLE hash head rows do not equal usable rows'')) (\<lambda>_.
     let layout = layout\<lparr>pl_files := sort_key (\<lambda>f. unat (pf_index f)) (pl_files layout)\<rparr> in
     bindE (check_files file_size verify 0 (pl_files layout)) (\<lambda>_.
     let layout = layout\<lparr>pl_parts := sort_key (\<lambda>p. unat (pp_global_row_start p)) (pl_parts layout)\<rparr> in
     bindE (check_parts layout 0 0 (pl_parts layout)) (\<lambda>next_row.
     bindE (guardE (next_row = pl_padded_rows layout)
       (RuntimeError ''PLE logical parts do not cover padded rows'')) (\<lambda>_.
     Inr layout))))))"

definition load_ple_layout :: "(string \<Rightarrow> string + u64) \<Rightarrow> string \<Rightarrow> string option \<Rightarrow> bool \<Rightarrow> exn + PleLayout" where
  "load_ple_layout file_size path contents verify =
     (case contents of
        None \<Rightarrow> Inl (RuntimeError (''cannot open PLE layout: '' @ path))
      | Some text \<Rightarrow>
          (case getlines text of
             [] \<Rightarrow> Inl (RuntimeError ''PLE layout has invalid magic/version'')
           | magic # lines \<Rightarrow>
               bindE (guardE (magic = ''Q38_PLE_LAYOUT_V1'')
                 (RuntimeError ''PLE layout has invalid magic/version'')) (\<lambda>_.
               bindE (layout_lines lines (empty_layout, {})) (\<lambda>(layout, headers).
               bindE (guardE (card headers = 11) (RuntimeError ''PLE layout is missing required headers'')) (\<lambda>_.
               validate_layout file_size verify layout)))))"

section \<open>Hashing\<close>

text \<open>The history holds 64-bit signed integers; only tokens, which are not negative, are stored. The head
  sizes of a validated layout are not zero, so the remainders are defined.\<close>

record PleHashState =
  hs_config :: PleHashConfig
  hs_older :: u64
  hs_newer :: u64

definition hash_reset :: "PleHashState \<Rightarrow> PleHashState" where
  "hash_reset s = s\<lparr>hs_older := ucast (hc_eos_token_id (hs_config s)), hs_newer := ucast (hc_eos_token_id (hs_config s))\<rparr>"

definition new_hash_state :: "PleHashConfig \<Rightarrow> PleHashState" where
  "new_hash_state config = hash_reset \<lparr> hs_config = config, hs_older = 0, hs_newer = 0 \<rparr>"

definition hash_token_ok :: "PleHashConfig \<Rightarrow> i32 \<Rightarrow> bool" where
  "hash_token_ok config token \<longleftrightarrow> \<not> (sint token < 0 \<or> token \<ge> hc_unigram_vocab_size config)"

definition bigram :: "PleHashConfig \<Rightarrow> u64 \<Rightarrow> i32 \<Rightarrow> u64" where
  "bigram config newer token = scast token * hc_multipliers config ! 0 XOR newer * hc_multipliers config ! 1"

definition trigram :: "PleHashConfig \<Rightarrow> u64 \<Rightarrow> u64 \<Rightarrow> i32 \<Rightarrow> u64" where
  "trigram config older newer token =
     (let eos = ucast (hc_eos_token_id config) in
      bigram config newer token XOR (if newer = eos then eos else older) * hc_multipliers config ! 2)"

definition token_rows :: "PleHashConfig \<Rightarrow> u64 \<Rightarrow> u64 \<Rightarrow> i32 \<Rightarrow> u64 list" where
  "token_rows config older newer token =
     map (\<lambda>head. (if head < kPleHeadsPerNgram then bigram config newer token else trigram config older newer token) mod
         hc_head_vocab_sizes config ! head + hc_head_offsets config ! head) [0 ..< kPleHeads]"

fun hash_loop :: "PleHashConfig \<Rightarrow> u64 \<Rightarrow> u64 \<Rightarrow> i32 list \<Rightarrow> u64 list \<times> u64 \<times> u64" where
  "hash_loop config older newer [] = ([], older, newer)"
| "hash_loop config older newer (token # tokens) =
     (case hash_loop config newer (scast token) tokens of
        (rows, older', newer') \<Rightarrow> (token_rows config older newer token @ rows, older', newer'))"

definition hash_rows :: "i32 list \<Rightarrow> PleHashState \<Rightarrow> exn + u64 list \<times> PleHashState" where
  "hash_rows token_ids s =
     bindE (guardE (list_all (hash_token_ok (hs_config s)) token_ids)
       (RuntimeError ''PLE hash token is outside vocabulary'')) (\<lambda>_.
     case hash_loop (hs_config s) (hs_older s) (hs_newer s) token_ids of
       (rows, older, newer) \<Rightarrow> Inr (rows, s\<lparr>hs_older := older, hs_newer := newer\<rparr>))"

section \<open>Finding a row\<close>

text \<open>\<open>std::upper_bound\<close> on the parts, which validation sorted by their starts: the parts before the first one
  that starts after the row.\<close>

definition find_part :: "PleLayout \<Rightarrow> u64 \<Rightarrow> exn + PlePart" where
  "find_part layout global_row =
     bindE (guardE (\<not> global_row \<ge> pl_usable_rows layout) (RuntimeError ''PLE row is outside usable vocabulary'')) (\<lambda>_.
     let before = takeWhile (\<lambda>part. \<not> global_row < pp_global_row_start part) (pl_parts layout) in
     bindE (guardE (before \<noteq> []) (RuntimeError ''PLE row has no logical part'')) (\<lambda>_.
     let part = before ! (length before - 1) in
     bindE (guardE (\<not> global_row \<ge> pp_global_row_start part + pp_rows part)
       (RuntimeError ''PLE row falls in a logical part gap'')) (\<lambda>_.
     Inr part)))"

definition row_offset :: "PleLayout \<Rightarrow> PlePart \<Rightarrow> u64 \<Rightarrow> u64" where
  "row_offset layout part global_row =
     pp_file_offset part + (global_row - pp_global_row_start part) * ucast (pl_row_stride_bytes layout)"

section \<open>What a layout is\<close>

definition arrays_ok :: "PleLayout \<Rightarrow> bool" where
  "arrays_ok layout \<longleftrightarrow> length (hc_multipliers (pl_hash layout)) = 3 \<and>
     length (hc_head_vocab_sizes (pl_hash layout)) = kPleHeads \<and> length (hc_head_offsets (pl_hash layout)) = kPleHeads"

text \<open>The rows of the parts before the position \<open>k\<close>, and the bytes of the whole table, as numbers that do not wrap.\<close>

definition rows_upto :: "PlePart list \<Rightarrow> nat" where
  "rows_upto parts = sum_list (map (\<lambda>p. unat (pp_rows p)) parts)"

definition table_bytes :: "PleLayout \<Rightarrow> nat" where
  "table_bytes layout = rows_upto (pl_parts layout) * unat (pl_row_stride_bytes layout)"

definition head_rows :: "PleLayout \<Rightarrow> nat" where
  "head_rows layout = sum_list (map unat (hc_head_vocab_sizes (pl_hash layout)))"

definition layout_ok :: "PleLayout \<Rightarrow> bool" where
  "layout_ok layout \<longleftrightarrow> arrays_ok layout \<and> pl_row_stride_bytes layout \<noteq> 0 \<and> pl_usable_rows layout \<noteq> 0 \<and>
     pl_usable_rows layout \<le> pl_padded_rows layout \<and>
     check_heads 0 (zip (hc_head_vocab_sizes (pl_hash layout)) (hc_head_offsets (pl_hash layout))) = Inr (pl_usable_rows layout) \<and>
     check_parts layout 0 0 (pl_parts layout) = Inr (pl_padded_rows layout) \<and>
     (\<forall>i < length (pl_files layout). unat (pf_index (pl_files layout ! i)) = i)"

lemma mapE_length: "mapE f xs = Inr ys \<Longrightarrow> length ys = length xs"
  by (induction xs arbitrary: ys) (auto simp: bindE_Inr_iff)

lemma parse_array_length: "parse_array n name value = Inr v \<Longrightarrow> length v = n"
  by (auto simp: parse_array_def bindE_Inr_iff Let_def dest: mapE_length)

lemma key_record_arrays: "key_record key value layout = Inr layout' \<Longrightarrow> arrays_ok layout \<Longrightarrow> arrays_ok layout'"
  by (auto simp: key_record_def bindE_Inr_iff arrays_ok_def dest: parse_array_length split: if_splits)

lemma tab_record_arrays: "tab_record columns layout = Inr layout' \<Longrightarrow> arrays_ok layout \<Longrightarrow> arrays_ok layout'"
  by (auto simp: tab_record_def bindE_Inr_iff arrays_ok_def split: if_splits)

lemma layout_line_arrays: "layout_line line (layout, hs) = Inr (layout', hs') \<Longrightarrow> arrays_ok layout \<Longrightarrow> arrays_ok layout'"
  by (auto simp: layout_line_def bindE_Inr_iff Let_def dest: key_record_arrays tab_record_arrays split: if_splits)

lemma layout_lines_arrays: "layout_lines lines (layout, hs) = Inr (layout', hs') \<Longrightarrow> arrays_ok layout \<Longrightarrow> arrays_ok layout'"
proof (induction lines arbitrary: layout hs)
  case (Cons line lines)
  from Cons.prems(1) obtain layout1 hs1 where "layout_line line (layout, hs) = Inr (layout1, hs1)"
    "layout_lines lines (layout1, hs1) = Inr (layout', hs')" by (auto simp: bindE_Inr_iff)
  then show ?case using Cons.IH Cons.prems(2) layout_line_arrays by blast
qed simp

lemma check_files_index:
  "check_files file_size verify i fs = Inr () \<Longrightarrow> k < length fs \<Longrightarrow> unat (pf_index (fs ! k)) = i + k"
proof (induction fs arbitrary: i k)
  case (Cons f fs)
  then show ?case by (cases k) (auto simp: bindE_Inr_iff)
qed simp

lemma validate_layout_ok:
  assumes "validate_layout file_size verify layout = Inr layout'" "arrays_ok layout"
  shows "layout_ok layout'"
  using assms check_files_index [where i = 0]
  by (auto simp: validate_layout_def check_dimensions_def bindE_Inr_iff Let_def layout_ok_def arrays_ok_def not_less)

lemma load_ple_layout_ok:
  assumes "load_ple_layout file_size path contents verify = Inr layout"
  shows "layout_ok layout"
proof -
  from assms obtain lines layout0 headers where "layout_lines lines (empty_layout, {}) = Inr (layout0, headers)"
    and v: "validate_layout file_size verify layout0 = Inr layout"
    by (auto simp: load_ple_layout_def bindE_Inr_iff split: option.splits list.splits)
  then have "arrays_ok layout0" using layout_lines_arrays by (auto simp: arrays_ok_def empty_layout_def)
  with v show ?thesis by (rule validate_layout_ok)
qed

section \<open>Heads and parts without wrap-around\<close>

lemma check_heads_facts:
  assumes "check_heads e (zip sizes offsets) = Inr u" "length offsets = length sizes" "unat e + sum_list (map unat sizes) < 2 ^ 64"
  shows "unat u = unat e + sum_list (map unat sizes)" and
    "k < length sizes \<Longrightarrow> sizes ! k \<noteq> 0 \<and> unat (offsets ! k) + unat (sizes ! k) \<le> unat u"
proof -
  have "unat u = unat e + sum_list (map unat sizes) \<and>
    (\<forall>k < length sizes. sizes ! k \<noteq> 0 \<and> unat (offsets ! k) + unat (sizes ! k) \<le> unat u)"
    using assms
  proof (induction sizes arbitrary: e offsets)
    case (Cons x xs)
    then obtain y ys where o: "offsets = y # ys" by (cases offsets) auto
    have s: "unat (e + x) = unat e + unat x" using Cons.prems(3) by (intro unat_u64_add) simp
    from Cons.prems(1) have h: "x \<noteq> 0" "y = e" "check_heads (e + x) (zip xs ys) = Inr u" by (auto simp: o bindE_Inr_iff)
    from Cons.IH [OF h(3)] Cons.prems(2,3) s o have i: "unat u = unat e + unat x + sum_list (map unat xs)"
      "\<forall>k < length xs. xs ! k \<noteq> 0 \<and> unat (ys ! k) + unat (xs ! k) \<le> unat u" by auto
    then show ?case by (auto simp: o h(1,2) nth_Cons split: nat.split)
  qed simp
  then show "unat u = unat e + sum_list (map unat sizes)"
    "k < length sizes \<Longrightarrow> sizes ! k \<noteq> 0 \<and> unat (offsets ! k) + unat (sizes ! k) \<le> unat u" by blast+
qed

text \<open>A part, and the row \<open>row\<close> of the table in it.\<close>

definition part_holds :: "PleLayout \<Rightarrow> PlePart \<Rightarrow> u64 \<Rightarrow> bool" where
  "part_holds layout part row \<longleftrightarrow> part \<in> set (pl_parts layout) \<and>
     unat (pp_global_row_start part) \<le> unat row \<and> unat row < unat (pp_global_row_start part) + unat (pp_rows part)"

definition part_ok :: "PleLayout \<Rightarrow> PlePart \<Rightarrow> bool" where
  "part_ok layout part \<longleftrightarrow> unat (pp_file_index part) < length (pl_files layout) \<and> pp_rows part \<noteq> 0 \<and>
     pp_payload_bytes part = pp_rows part * ucast (pl_row_stride_bytes layout) \<and>
     unat (pp_file_offset part) + unat (pp_payload_bytes part) \<le> unat (pf_file_bytes (pl_files layout ! unat (pp_file_index part)))"

lemma check_part_facts:
  assumes "check_part layout i e part = Inr ()"
  shows "part_ok layout part" "pp_global_row_start part = e" "unat (pp_logical_part part) = i"
  using assms by (auto simp: check_part_def part_ok_def bindE_Inr_iff within_iff not_le)

lemma check_parts_ok: "check_parts layout i e ps = Inr u \<Longrightarrow> part \<in> set ps \<Longrightarrow> part_ok layout part"
  by (induction ps arbitrary: i e) (auto simp: bindE_Inr_iff dest: check_part_facts)

lemma check_parts_index: "check_parts layout i e ps = Inr u \<Longrightarrow> k < length ps \<Longrightarrow> unat (pp_logical_part (ps ! k)) = i + k"
proof (induction ps arbitrary: i e k)
  case (Cons p ps)
  then show ?case by (cases k) (auto simp: bindE_Inr_iff dest: check_part_facts)
qed simp

lemma check_parts_end:
  "check_parts layout i e ps = Inr u \<Longrightarrow> unat e + rows_upto ps < 2 ^ 64 \<Longrightarrow> unat u = unat e + rows_upto ps"
proof (induction ps arbitrary: i e)
  case (Cons p ps)
  then have "unat (e + pp_rows p) = unat e + unat (pp_rows p)" by (intro unat_u64_add) (simp add: rows_upto_def)
  then show ?case using Cons by (auto simp: bindE_Inr_iff rows_upto_def)
qed (simp add: rows_upto_def)

lemma parts_before:
  assumes "check_parts layout i e ps = Inr u" "unat e + rows_upto ps < 2 ^ 64" "e \<le> row" "unat row < unat e + rows_upto ps"
  defines "before \<equiv> takeWhile (\<lambda>part. \<not> row < pp_global_row_start part) ps"
  shows "before \<noteq> [] \<and> last before \<in> set ps \<and> pp_global_row_start (last before) \<le> row \<and>
    unat row < unat (pp_global_row_start (last before)) + unat (pp_rows (last before)) \<and>
    unat (pp_global_row_start (last before) + pp_rows (last before)) =
      unat (pp_global_row_start (last before)) + unat (pp_rows (last before))"
  using assms(1-4) unfolding before_def
proof (induction ps arbitrary: i e)
  case (Cons p ps)
  let ?w = "takeWhile (\<lambda>part. \<not> row < pp_global_row_start part) ps"
  from Cons.prems(1) have p: "pp_global_row_start p = e" and rest: "check_parts layout (i + 1) (e + pp_rows p) ps = Inr u"
    by (auto simp: bindE_Inr_iff dest: check_part_facts)
  have s: "unat (e + pp_rows p) = unat e + unat (pp_rows p)" using Cons.prems(2) by (intro unat_u64_add) (simp add: rows_upto_def)
  have w: "takeWhile (\<lambda>part. \<not> row < pp_global_row_start part) (p # ps) = p # ?w" using Cons.prems(3) p by simp
  show ?case
  proof (cases "unat row < unat e + unat (pp_rows p)")
    case True
    have "?w = []"
    proof (cases ps)
      case (Cons q qs)
      then have "pp_global_row_start q = e + pp_rows p" using rest by (auto simp: bindE_Inr_iff dest: check_part_facts)
      then show ?thesis using True s by (simp add: Cons word_less_nat_alt)
    qed simp
    then show ?thesis unfolding w using True p s Cons.prems(3) by simp
  next
    case False
    then have "e + pp_rows p \<le> row" using s by (simp add: word_le_nat_alt)
    from Cons.IH [OF rest _ this] Cons.prems(2,4) s show ?thesis
      unfolding w by (auto simp: rows_upto_def)
  qed
qed (simp add: rows_upto_def word_le_nat_alt)

lemma rows_le_table:
  assumes "layout_ok layout" "table_bytes layout < 2 ^ 64"
  shows "rows_upto (pl_parts layout) < 2 ^ 64"
proof -
  have "unat (pl_row_stride_bytes layout) \<noteq> 0" using assms(1) by (simp add: layout_ok_def unat_eq_0)
  then have "rows_upto (pl_parts layout) \<le> table_bytes layout" by (simp add: table_bytes_def)
  then show ?thesis using assms(2) by simp
qed

lemma find_part_total:
  assumes ok: "layout_ok layout" and b: "table_bytes layout < 2 ^ 64" and row: "row < pl_usable_rows layout"
  shows "\<exists>part. find_part layout row = Inr part \<and> part_holds layout part row"
proof -
  have c: "check_parts layout 0 0 (pl_parts layout) = Inr (pl_padded_rows layout)" using ok by (simp add: layout_ok_def)
  have n: "rows_upto (pl_parts layout) < 2 ^ 64" by (rule rows_le_table [OF ok b])
  have "unat row < rows_upto (pl_parts layout)"
    using check_parts_end [OF c] n ok row by (simp add: layout_ok_def word_less_nat_alt word_le_nat_alt)
  with parts_before [OF c, of row] n row show ?thesis
    by (auto simp: find_part_def Let_def part_holds_def word_le_nat_alt not_le word_less_nat_alt last_conv_nth)
qed

lemma rows_upto_mem: "part \<in> set parts \<Longrightarrow> unat (pp_rows part) \<le> rows_upto parts"
  unfolding rows_upto_def by (rule member_le_sum_list) simp_all

text \<open>The extent of a row is computed without wrap-around and lies inside the file of its part.\<close>

lemma row_extent:
  assumes ok: "layout_ok layout" and b: "table_bytes layout < 2 ^ 64" and h: "part_holds layout part row"
  shows "unat (pp_file_index part) < length (pl_files layout) \<and>
    unat (row_offset layout part row) = unat (pp_file_offset part) +
      (unat row - unat (pp_global_row_start part)) * unat (pl_row_stride_bytes layout) \<and>
    unat (row_offset layout part row) + unat (pl_row_stride_bytes layout) \<le>
      unat (pf_file_bytes (pl_files layout ! unat (pp_file_index part)))"
proof -
  let ?s = "unat (pl_row_stride_bytes layout)" and ?l = "unat row - unat (pp_global_row_start part)"
    and ?n = "unat (pf_file_bytes (pl_files layout ! unat (pp_file_index part)))"
  have p: "part_ok layout part"
    using h ok check_parts_ok unfolding part_holds_def layout_ok_def by blast
  have "unat (pp_rows part) * ?s \<le> table_bytes layout"
    using h rows_upto_mem by (simp add: part_holds_def table_bytes_def)
  then have "unat (pp_payload_bytes part) = unat (pp_rows part) * ?s"
    using p b by (simp add: part_ok_def unat_word_ariths)
  moreover have l: "?l < unat (pp_rows part)" using h by (auto simp: part_holds_def)
  then have "(?l + 1) * ?s \<le> unat (pp_rows part) * ?s" by (intro mult_le_mono1) simp
  ultimately have e: "unat (pp_file_offset part) + ?l * ?s + ?s \<le> ?n"
    using p by (simp add: part_ok_def algebra_simps)
  have "unat (row - pp_global_row_start part) = ?l"
    using h by (intro unat_u64_sub) (simp add: part_holds_def word_le_nat_alt)
  moreover have "?n < 2 ^ 64" using unat_u64_lt by simp
  ultimately have "unat (row_offset layout part row) = unat (pp_file_offset part) + ?l * ?s"
    using e by (simp add: row_offset_def unat_word_ariths)
  then show ?thesis using e p by (simp add: part_ok_def)
qed

section \<open>Rows of tokens\<close>

lemma token_rows_in_heads:
  assumes "layout_ok layout" "head_rows layout < 2 ^ 64" "row \<in> set (token_rows (pl_hash layout) older newer token)"
  shows "row < pl_usable_rows layout"
proof -
  let ?c = "pl_hash layout"
  from assms(3) obtain v k where k: "k < kPleHeads" and row: "row = v mod hc_head_vocab_sizes ?c ! k + hc_head_offsets ?c ! k"
    by (auto simp: token_rows_def)
  have "hc_head_vocab_sizes ?c ! k \<noteq> 0 \<and>
      unat (hc_head_offsets ?c ! k) + unat (hc_head_vocab_sizes ?c ! k) \<le> unat (pl_usable_rows layout)"
    using check_heads_facts(2) [of 0 "hc_head_vocab_sizes ?c" "hc_head_offsets ?c" "pl_usable_rows layout" k] assms(1,2) k
    by (simp add: layout_ok_def arrays_ok_def head_rows_def)
  moreover from this have "unat (v mod hc_head_vocab_sizes ?c ! k) < unat (hc_head_vocab_sizes ?c ! k)"
    by (simp add: unat_mod unat_gt_0)
  moreover from calculation have "unat row = unat (v mod hc_head_vocab_sizes ?c ! k) + unat (hc_head_offsets ?c ! k)"
    unfolding row using unat_u64_lt [of "pl_usable_rows layout"] by (intro unat_u64_add) simp
  ultimately show ?thesis by (simp add: word_less_nat_alt)
qed

lemma hash_loop_rows:
  "hash_loop config older newer tokens = (rows, t) \<Longrightarrow> length rows = kPleHeads * length tokens \<and>
     (\<forall>row \<in> set rows. \<exists>older newer token. row \<in> set (token_rows config older newer token))"
proof (induction tokens arbitrary: older newer rows t)
  case (Cons token tokens)
  obtain rows' s' where h: "hash_loop config newer (scast token) tokens = (rows', s')"
    by (cases "hash_loop config newer (scast token) tokens")
  have r: "rows = token_rows config older newer token @ rows'" using Cons.prems h by simp
  have "length (token_rows config older newer token) = kPleHeads" by (simp add: token_rows_def)
  with Cons.IH [OF h] show ?case unfolding r by auto
qed simp

lemma hash_loop_append:
  "hash_loop config older newer (xs @ ys) = (case hash_loop config older newer xs of (rows, older', newer') \<Rightarrow>
     case hash_loop config older' newer' ys of (rows', s) \<Rightarrow> (rows @ rows', s))"
  by (induction xs arbitrary: older newer) (auto split: prod.split)

section \<open>Writing\<close>

text \<open>The writers of the layout tools, \<^verbatim>\<open>tools/q38_ple_index.py\<close> for tables without row scales and
  \<^verbatim>\<open>tools/q38_ple_device_layout.py\<close> for tables with them.\<close>

definition dtype_text :: "DType \<Rightarrow> string" where
  "dtype_text d = (case d of BFloat16 \<Rightarrow> ''bf16'' | Fp8E4M3 \<Rightarrow> ''fp8_e4m3'' | _ \<Rightarrow> [])"

definition header_lines :: "PleLayout \<Rightarrow> (string \<times> string) list" where
  "header_lines l = [(''dtype'', dtype_text (pl_storage_dtype l)), (''alignment'', decimal (unat (pl_alignment_bytes l))),
     (''row_stride'', decimal (unat (pl_row_stride_bytes l))), (''row_dimension'', decimal (unat (pl_row_dimension l))),
     (''usable_rows'', decimal (unat (pl_usable_rows l))), (''padded_rows'', decimal (unat (pl_padded_rows l))),
     (''unigram_vocab'', decimal (unat (hc_unigram_vocab_size (pl_hash l)))),
     (''eos_token'', decimal (unat (hc_eos_token_id (pl_hash l)))), (''multipliers'', number_list (hc_multipliers (pl_hash l))),
     (''head_vocab_sizes'', number_list (hc_head_vocab_sizes (pl_hash l))),
     (''head_offsets'', number_list (hc_head_offsets (pl_hash l)))]"

definition print_key :: "string \<times> string \<Rightarrow> string" where
  "print_key kv = fst kv @ CHR ''='' # snd kv"

definition print_file :: "PleFile \<Rightarrow> string" where
  "print_file f = join_fields (CHR 0x09) [''file'', decimal (unat (pf_index f)), pf_path f,
     decimal (unat (pf_file_bytes f)), decimal (unat (pf_payload_bytes f))]"

definition print_part :: "bool \<Rightarrow> PlePart \<Rightarrow> string" where
  "print_part scaled p = join_fields (CHR 0x09) ([''part'', decimal (unat (pp_logical_part p)), decimal (unat (pp_file_index p)),
     decimal (unat (pp_global_row_start p)), decimal (unat (pp_rows p)), decimal (unat (pp_file_offset p)),
     decimal (unat (pp_payload_bytes p))] @
     (if scaled then [decimal (unat (pp_scale_file_index p)), decimal (unat (pp_scale_file_offset p)),
       decimal (unat (pp_scale_bytes p))] else []))"

definition print_layout :: "PleLayout \<Rightarrow> string" where
  "print_layout l = print_lines (''Q38_PLE_LAYOUT_V1'' # map print_key (header_lines l) @ map print_file (pl_files l) @
     map (print_part (pl_storage_dtype l = Fp8E4M3)) (pl_parts l))"

definition layout_printable :: "PleLayout \<Rightarrow> bool" where
  "layout_printable l \<longleftrightarrow> (pl_storage_dtype l = BFloat16 \<or> pl_storage_dtype l = Fp8E4M3) \<and> arrays_ok l \<and>
     (\<forall>f \<in> set (pl_files l). CHR 0x09 \<notin> set (pf_path f) \<and> CHR 0x0A \<notin> set (pf_path f)) \<and>
     (pl_storage_dtype l = BFloat16 \<longrightarrow>
       (\<forall>p \<in> set (pl_parts l). pp_scale_file_index p = 0 \<and> pp_scale_file_offset p = 0 \<and> pp_scale_bytes p = 0))"

lemma ple_u64_decimal [simp]: "ple_u64 name (decimal (unat (w :: u64))) = Inr w"
  by (simp add: ple_u64_def parse_u64_decimal)

lemma ple_u32_decimal [simp]: "ple_u32 name (decimal (unat (w :: u32))) = Inr w"
proof -
  have "ple_u64 name (decimal (unat w)) = Inr (ucast w)" using ple_u64_decimal [of name "ucast w"] by simp
  moreover have "\<not> (ucast w :: u64) > 0xffffffff" using unat_u32_lt [of w] by (simp add: word_less_nat_alt)
  ultimately show ?thesis by (simp add: ple_u32_def ucast_back)
qed

lemma parse_array_number_list:
  assumes "length ws = n" "n \<noteq> 0"
  shows "parse_array n name (number_list ws) = Inr ws"
proof -
  have "ws \<noteq> []" using assms by auto
  moreover have "mapE (ple_u64 name) (map (\<lambda>w. decimal (unat w)) ws) = Inr ws" by (induction ws) simp_all
  ultimately show ?thesis using assms by (simp add: parse_array_def split_number_list)
qed

lemma layout_line_key:
  assumes "key \<noteq> []" "hd key \<noteq> CHR ''#''" "CHR ''='' \<notin> set key" "CHR 0x09 \<notin> set key" "CHR 0x09 \<notin> set value" "key \<notin> hs"
  shows "layout_line (print_key (key, value)) (l, hs) = bindE (key_record key value l) (\<lambda>l. Inr (l, insert key hs))"
proof -
  have s: "split_fields (CHR 0x09) (key @ CHR ''='' # value) = [key @ CHR ''='' # value]"
    using assms by (intro split_fields_last) auto
  have t: "takeWhile (\<lambda>c. c \<noteq> CHR ''='') (key @ CHR ''='' # value) = key"
    using assms(3) by (subst takeWhile_append2) auto
  show ?thesis using assms(1,2,6) s t by (simp add: layout_line_def print_key_def Let_def)
qed

lemma layout_lines_append: "layout_lines (xs @ ys) s = bindE (layout_lines xs s) (layout_lines ys)"
  by (induction xs arbitrary: s) (simp_all add: bindE_def split: sum.split)

lemma layout_header:
  assumes "layout_printable l"
  shows "\<exists>hs. card hs = 11 \<and> layout_lines (map print_key (header_lines l)) (empty_layout, {}) = Inr (l\<lparr>pl_files := [], pl_parts := []\<rparr>, hs)"
proof -
  have d: "CHR 0x09 \<notin> set (decimal n)" for n using decimal_clean by blast
  have n: "CHR 0x09 \<notin> set (number_list ws)" for ws using number_list_clean by blast
  have t: "CHR 0x09 \<notin> set (dtype_text t)" for t by (cases t) (simp_all add: dtype_text_def)
  have p: "parse_dtype (dtype_text (pl_storage_dtype l)) = Inr (pl_storage_dtype l)"
    using assms by (auto simp: layout_printable_def parse_dtype_def dtype_text_def)
  have a: "parse_array 3 name (number_list (hc_multipliers (pl_hash l))) = Inr (hc_multipliers (pl_hash l))"
    "parse_array kPleHeads name (number_list (hc_head_vocab_sizes (pl_hash l))) = Inr (hc_head_vocab_sizes (pl_hash l))"
    "parse_array kPleHeads name (number_list (hc_head_offsets (pl_hash l))) = Inr (hc_head_offsets (pl_hash l))" for name
    using assms by (auto simp: layout_printable_def arrays_ok_def kPleHeads_def intro!: parse_array_number_list)
  show ?thesis
  proof (intro exI conjI)
    let ?hs = "set (map fst (header_lines l))"
    show "card ?hs = 11" by (simp add: header_lines_def)
    show "layout_lines (map print_key (header_lines l)) (empty_layout, {}) = Inr (l\<lparr>pl_files := [], pl_parts := []\<rparr>, ?hs)"
      by (simp add: header_lines_def layout_line_key d n t key_record_def p a empty_layout_def insert_commute)
  qed
qed

lemma layout_line_tab:
  assumes "\<forall>f \<in> set fs. CHR 0x09 \<notin> set f" "length fs > 1" "last fs \<noteq> []" "hd fs \<noteq> []" "hd (hd fs) \<noteq> CHR ''#''"
  shows "layout_line (join_fields (CHR 0x09) fs) (l, hs) = bindE (tab_record fs l) (\<lambda>l. Inr (l, hs))"
proof -
  obtain f g fs' where f: "fs = f # g # fs'" using assms(2) by (cases fs; cases "tl fs") auto
  have "split_fields (CHR 0x09) (join_fields (CHR 0x09) fs) = fs" using assms by (intro split_join) auto
  moreover have "join_fields (CHR 0x09) fs \<noteq> []" "hd (join_fields (CHR 0x09) fs) \<noteq> CHR ''#''" using assms(4,5) by (simp_all add: f)
  ultimately show ?thesis using assms(2) by (simp add: layout_line_def Let_def)
qed

lemma layout_line_file:
  assumes "CHR 0x09 \<notin> set (pf_path f)"
  shows "layout_line (print_file f) (l, hs) = Inr (l\<lparr>pl_files := pl_files l @ [f]\<rparr>, hs)"
proof -
  have d: "CHR 0x09 \<notin> set (decimal n)" "decimal n \<noteq> []" for n using decimal_clean decimal_digits by blast+
  show ?thesis
    unfolding print_file_def by (subst layout_line_tab) (use assms d in \<open>simp_all add: tab_record_def parse_file_def\<close>)
qed

lemma layout_line_part:
  assumes "\<not> scaled \<longrightarrow> pp_scale_file_index p = 0 \<and> pp_scale_file_offset p = 0 \<and> pp_scale_bytes p = 0"
  shows "layout_line (print_part scaled p) (l, hs) = Inr (l\<lparr>pl_parts := pl_parts l @ [p]\<rparr>, hs)"
proof -
  have d: "CHR 0x09 \<notin> set (decimal n)" "decimal n \<noteq> []" for n using decimal_clean decimal_digits by blast+
  show ?thesis
    unfolding print_part_def
    by (subst layout_line_tab; use assms d in \<open>cases scaled; simp add: tab_record_def parse_part_def Let_def\<close>)
qed

lemma layout_lines_files:
  "\<forall>f \<in> set fs. CHR 0x09 \<notin> set (pf_path f) \<Longrightarrow>
     layout_lines (map print_file fs) (l, hs) = Inr (l\<lparr>pl_files := pl_files l @ fs\<rparr>, hs)"
  by (induction fs arbitrary: l) (simp_all add: layout_line_file)

lemma layout_lines_parts:
  "\<forall>p \<in> set ps. \<not> scaled \<longrightarrow> pp_scale_file_index p = 0 \<and> pp_scale_file_offset p = 0 \<and> pp_scale_bytes p = 0 \<Longrightarrow>
     layout_lines (map (print_part scaled) ps) (l, hs) = Inr (l\<lparr>pl_parts := pl_parts l @ ps\<rparr>, hs)"
  by (induction ps arbitrary: l) (simp_all add: layout_line_part)

lemma print_layout_clean:
  assumes "layout_printable l" "line \<in> set (map print_key (header_lines l) @ map print_file (pl_files l) @ map (print_part scaled) (pl_parts l))"
  shows "CHR 0x0A \<notin> set line"
proof -
  have d: "CHR 0x0A \<notin> set (decimal n)" for n using decimal_clean by blast
  have n: "CHR 0x0A \<notin> set (number_list ws)" for ws using number_list_clean by blast
  have t: "CHR 0x0A \<notin> set (dtype_text t)" for t by (cases t) (simp_all add: dtype_text_def)
  show ?thesis using assms d n t
    by (cases scaled) (auto simp: header_lines_def print_key_def print_file_def print_part_def layout_printable_def)
qed

lemma load_print_layout:
  assumes "layout_printable l"
  shows "load_ple_layout file_size path (Some (print_layout l)) verify = validate_layout file_size verify l"
proof -
  obtain hs where hs: "card hs = 11"
    "layout_lines (map print_key (header_lines l)) (empty_layout, {}) = Inr (l\<lparr>pl_files := [], pl_parts := []\<rparr>, hs)"
    using layout_header [OF assms] by blast
  have "getlines (print_layout l) = ''Q38_PLE_LAYOUT_V1'' # map print_key (header_lines l) @ map print_file (pl_files l) @
     map (print_part (pl_storage_dtype l = Fp8E4M3)) (pl_parts l)"
    unfolding print_layout_def by (rule getlines_print) (use print_layout_clean [OF assms] in auto)
  moreover have "layout_lines (map print_key (header_lines l) @ map print_file (pl_files l) @
     map (print_part (pl_storage_dtype l = Fp8E4M3)) (pl_parts l)) (empty_layout, {}) = Inr (l, hs)"
    using assms by (auto simp: layout_lines_append hs(2) layout_lines_files layout_lines_parts layout_printable_def)
  ultimately show ?thesis using hs(1) by (simp add: load_ple_layout_def)
qed

section \<open>Properties\<close>

text \<open>
  C19: Every row that the hash computes can be read. With a layout that was accepted from a file, whose
  table and head ranges are smaller than the 64-bit range, the hash yields 16 rows for each token;
  every one is a usable row, is found in a part, and its extent, computed without wrap-around,
  lies inside the file of that part.
\<close>

theorem ple_lookup_total:
  assumes "load_ple_layout file_size path contents verify = Inr layout"
    and "table_bytes layout < 2 ^ 64" and "head_rows layout < 2 ^ 64"
    and "hs_config s = pl_hash layout" and "hash_rows tokens s = Inr (rows, s')"
  shows "length rows = 16 * length tokens \<and>
    (\<forall>row \<in> set rows. row < pl_usable_rows layout \<and>
      (\<exists>part. find_part layout row = Inr part \<and> unat (pp_file_index part) < length (pl_files layout) \<and>
        unat (row_offset layout part row) = unat (pp_file_offset part) +
          (unat row - unat (pp_global_row_start part)) * unat (pl_row_stride_bytes layout) \<and>
        unat (row_offset layout part row) + unat (pl_row_stride_bytes layout) \<le>
          unat (pf_file_bytes (pl_files layout ! unat (pp_file_index part)))))"
proof -
  note ok = load_ple_layout_ok [OF assms(1)]
  from assms(4,5) obtain t where "hash_loop (pl_hash layout) (hs_older s) (hs_newer s) tokens = (rows, t)"
    by (auto simp: hash_rows_def bindE_Inr_iff split: prod.splits)
  from hash_loop_rows [OF this] have l: "length rows = 16 * length tokens" and
    r: "\<forall>row \<in> set rows. row < pl_usable_rows layout" using token_rows_in_heads [OF ok assms(3)] by (auto simp: kPleHeads_def)
  have "\<exists>part. find_part layout row = Inr part \<and> unat (pp_file_index part) < length (pl_files layout) \<and>
        unat (row_offset layout part row) = unat (pp_file_offset part) +
          (unat row - unat (pp_global_row_start part)) * unat (pl_row_stride_bytes layout) \<and>
        unat (row_offset layout part row) + unat (pl_row_stride_bytes layout) \<le>
          unat (pf_file_bytes (pl_files layout ! unat (pp_file_index part)))" if "row \<in> set rows" for row
    using find_part_total [OF ok assms(2), of row] r that row_extent [OF ok assms(2)] by blast
  with l r show ?thesis by blast
qed

text \<open>
  The runtime reads what the layout tools write. The file printed for a layout with a supported type,
  complete arrays, paths without tab or line break, and row scales exactly for the FP8 type, is
  read as that layout and handed to validation; a layout that validation leaves as it is comes
  back unchanged.
\<close>

theorem ple_layout_roundtrip:
  assumes "layout_printable layout" and "validate_layout file_size verify layout = Inr layout"
  shows "load_ple_layout file_size path (Some (print_layout layout)) verify = Inr layout"
  unfolding load_print_layout [OF assms(1)] by (rule assms(2))

text \<open>
  Hashing in chunks is hashing at once. The rows of two runs of tokens, one after the other, and the
  history they leave are those of the tokens in one run, and the one is refused exactly when the
  other is: the boundaries of the chunks cannot be seen in the rows.
\<close>

theorem ple_hash_chunks:
  "hash_rows (xs @ ys) s =
     bindE (hash_rows xs s) (\<lambda>(rows, s1). bindE (hash_rows ys s1) (\<lambda>(rows', s2). Inr (rows @ rows', s2)))"
  by (auto simp: hash_rows_def hash_loop_append bindE_def guardE_def split: sum.splits prod.splits)

definition wrap_part :: PlePart where
  "wrap_part = \<lparr> pp_logical_part = 0, pp_file_index = 0, pp_global_row_start = 0, pp_rows = 0x8000000000000000, pp_file_offset = 0,
     pp_payload_bytes = 0, pp_scale_file_index = 0, pp_scale_file_offset = 0, pp_scale_bytes = 0 \<rparr>"

definition wrap_layout :: PleLayout where
  "wrap_layout = \<lparr> pl_storage_dtype = BFloat16, pl_alignment_bytes = 4, pl_row_stride_bytes = 4, pl_row_dimension = 2,
     pl_usable_rows = 0x4000000000000010, pl_padded_rows = 0x8000000000000000,
     pl_hash = \<lparr> hc_unigram_vocab_size = 2, hc_eos_token_id = 0, hc_multipliers = [1, 1, 1],
       hc_head_vocab_sizes = [1, 1, 1, 1, 1, 1, 1, 1, 1, 1, 1, 1, 1, 1, 1, 0x4000000000000001], hc_head_offsets = [0, 1, 2, 3, 4, 5, 6, 7, 8, 9, 10, 11, 12, 13, 14, 15] \<rparr>,
     pl_files = [\<lparr> pf_index = 0, pf_path = ''t'', pf_file_bytes = 4, pf_payload_bytes = 4 \<rparr>], pl_parts = [wrap_part] \<rparr>"

text \<open>
  The product of rows and row stride in the part check wraps. A layout is accepted whose only part
  claims \<open>2 ^ 63\<close> rows of four bytes in a file of four bytes, because the product is zero modulo
  \<open>2 ^ 64\<close>; the usable rows \<open>0\<close> and \<open>2 ^ 62\<close> are then read from one and the same place.
\<close>

theorem ple_layout_wrap_accepted:
  "validate_layout (\<lambda>_. Inr 4) True wrap_layout = Inr wrap_layout \<and>
   find_part wrap_layout 0 = Inr wrap_part \<and> find_part wrap_layout 0x4000000000000000 = Inr wrap_part \<and>
   row_offset wrap_layout wrap_part 0x4000000000000000 = row_offset wrap_layout wrap_part 0 \<and>
   unat (pf_file_bytes (hd (pl_files wrap_layout))) < table_bytes wrap_layout"
  by (simp add: validate_layout_def check_dimensions_def wrap_layout_def wrap_part_def check_part_def check_scales_def within_def
      find_part_def row_offset_def table_bytes_def rows_upto_def upt_rec Let_def)

definition demo_layout :: PleLayout where
  "demo_layout = \<lparr> pl_storage_dtype = BFloat16, pl_alignment_bytes = 4, pl_row_stride_bytes = 4, pl_row_dimension = 2,
     pl_usable_rows = 16, pl_padded_rows = 17,
     pl_hash = \<lparr> hc_unigram_vocab_size = 9, hc_eos_token_id = 0, hc_multipliers = [3, 5, 7],
       hc_head_vocab_sizes = [1, 1, 1, 1, 1, 1, 1, 1, 1, 1, 1, 1, 1, 1, 1, 1],
       hc_head_offsets = [0, 1, 2, 3, 4, 5, 6, 7, 8, 9, 10, 11, 12, 13, 14, 15] \<rparr>,
     pl_files = [\<lparr> pf_index = 0, pf_path = ''t.bin'', pf_file_bytes = 68, pf_payload_bytes = 68 \<rparr>],
     pl_parts = [\<lparr> pp_logical_part = 0, pp_file_index = 0, pp_global_row_start = 0, pp_rows = 17, pp_file_offset = 0,
       pp_payload_bytes = 68, pp_scale_file_index = 0, pp_scale_file_offset = 0, pp_scale_bytes = 0 \<rparr>] \<rparr>"

lemma demo_layout_facts:
  "layout_printable demo_layout" "validate_layout (\<lambda>_. Inr 68) True demo_layout = Inr demo_layout"
  "table_bytes demo_layout < 2 ^ 64" "head_rows demo_layout < 2 ^ 64"
proof -
  show "layout_printable demo_layout" by (simp add: layout_printable_def demo_layout_def arrays_ok_def kPleHeads_def)
  show "validate_layout (\<lambda>_. Inr 68) True demo_layout = Inr demo_layout"
    by (simp add: validate_layout_def check_dimensions_def demo_layout_def check_part_def check_scales_def within_def
      Let_def)
  show "table_bytes demo_layout < 2 ^ 64" by (simp add: table_bytes_def rows_upto_def demo_layout_def)
  show "head_rows demo_layout < 2 ^ 64" by (simp add: head_rows_def demo_layout_def)
qed

theorem ple_layout_roundtrip_witness:
  "load_ple_layout (\<lambda>_. Inr 68) ''l'' (Some (print_layout demo_layout)) True = Inr demo_layout"
  by (rule ple_layout_roundtrip [OF demo_layout_facts(1,2)])

theorem ple_lookup_total_witness:
  "\<exists>rows s. hash_rows [3, 8] (new_hash_state (pl_hash demo_layout)) = Inr (rows, s) \<and> length rows = 32"
proof -
  have load: "load_ple_layout (\<lambda>_. Inr 68) [] (Some (print_layout demo_layout)) True = Inr demo_layout"
    using load_print_layout [OF demo_layout_facts(1)] demo_layout_facts(2) by simp
  have "list_all (hash_token_ok (pl_hash demo_layout)) [3, 8]" by (simp add: hash_token_ok_def demo_layout_def)
  then obtain rows s where h: "hash_rows [3, 8] (new_hash_state (pl_hash demo_layout)) = Inr (rows, s)"
    by (auto simp: hash_rows_def new_hash_state_def hash_reset_def split: prod.splits)
  have "hs_config (new_hash_state (pl_hash demo_layout)) = pl_hash demo_layout" by (simp add: new_hash_state_def hash_reset_def)
  from ple_lookup_total [OF load demo_layout_facts(3,4) this h] h show ?thesis by simp
qed

end
