(* ===== verification/IoUring.thy ===== *)
theory IoUring
  imports Snapshot FieldText
begin

text \<open>
  The batched direct reads of the n-gram tables, \<open>PleStore::IoUringProvider::read\<close> of \<^verbatim>\<open>src/ple.cc\<close>:
  a sliding window of reads over a fixed set of registered buffers, whose completions arrive in any
  order. The files do not change. The kernel is a script: the outcomes of the submitting calls, and
  the completions that each waiting call finds. A script that is used up stands for a kernel that
  accepts all submissions and completes all reads in flight. Reads belong to the ring, not to the
  call: those that a failing call leaves behind are completed to a later one. A read counts as
  the kernel's when it is put on the submission ring.
\<close>

section \<open>Data\<close>

text \<open>A request names the contents of its file instead of a descriptor; its output is the page at its index.\<close>

record ReadRequest =
  rr_data :: "u8 list"
  rr_offset :: u64
  rr_expected_bytes :: nat

text \<open>A completion: the user data of its submission, and the error text or the count of bytes.\<close>

type_synonym cqe = "nat \<times> (string + nat)"

datatype wait_event = WaitInterrupted | WaitFailed | Completed "cqe list"

record uring =
  ur_queue_depth :: nat
  ur_page_bytes :: nat
  ur_sq_entries :: nat
  ur_enters :: "io_event list"
  ur_waits :: "wait_event list"
  ur_in_flight :: "(nat \<times> ReadRequest) list" \<comment> \<open>the buffer and the read, oldest first\<close>
  ur_errno :: string \<comment> \<open>the text of a failing call\<close>

text \<open>The locals of \<open>read\<close>. The free buffers are a stack, its back first.\<close>

record uring_state =
  us_active :: "nat option list"
  us_free_buffers :: "nat list"
  us_next_request :: nat
  us_completed :: nat
  us_in_flight :: nat
  us_physical_bytes :: u64
  us_pages :: "u8 list list"
  us_kernel :: "(nat \<times> ReadRequest) list"

section \<open>Reading\<close>

definition new_uring_state :: "uring \<Rightarrow> nat \<Rightarrow> uring_state" where
  "new_uring_state u n = \<lparr> us_active = replicate (ur_queue_depth u) None, us_free_buffers = [0 ..< ur_queue_depth u],
     us_next_request = 0, us_completed = 0, us_in_flight = 0, us_physical_bytes = 0,
     us_pages = replicate n (replicate (ur_page_bytes u) 0), us_kernel = ur_in_flight u \<rparr>"

text \<open>The submission loop; \<open>room\<close> entries of the submission ring are free.\<close>

fun queue_reads :: "ReadRequest list \<Rightarrow> nat \<Rightarrow> nat \<Rightarrow> uring_state \<Rightarrow> nat \<times> uring_state" where
  "queue_reads requests 0 queued s = (queued, s)"
| "queue_reads requests (Suc room) queued s =
     (if us_next_request s < length requests
      then (case us_free_buffers s of
              [] \<Rightarrow> (queued, s)
            | buffer_index # buffers \<Rightarrow>
                queue_reads requests room (queued + 1) (s\<lparr>us_free_buffers := buffers,
                  us_active := (us_active s)[buffer_index := Some (us_next_request s)],
                  us_kernel := us_kernel s @ [(buffer_index, requests ! us_next_request s)],
                  us_next_request := us_next_request s + 1\<rparr>))
      else (queued, s))"

fun submit_reads :: "string \<Rightarrow> io_event list \<Rightarrow> nat \<Rightarrow> (exn + unit) \<times> io_event list" where
  "submit_reads errno script 0 = (Inr (), script)"
| "submit_reads errno [] (Suc n) = (Inr (), [])"
| "submit_reads errno (event # script) (Suc n) =
     (case event of
        IoInterrupted \<Rightarrow> submit_reads errno script (Suc n)
      | IoFailed \<Rightarrow> (Inl (RuntimeError (''io_uring_enter failed: '' @ errno)), script)
      | IoCount k \<Rightarrow>
          if k = 0 then (Inl (RuntimeError ''io_uring submitted no PLE reads''), script)
          else submit_reads errno script (Suc n - min k (Suc n)))"

text \<open>Waiting until the completion ring is not empty.\<close>

fun wait_reads :: "string \<Rightarrow> cqe list \<Rightarrow> wait_event list \<Rightarrow> (exn + cqe list) \<times> wait_event list" where
  "wait_reads errno in_order [] = (Inr in_order, [])"
| "wait_reads errno in_order (event # script) =
     (case event of
        WaitInterrupted \<Rightarrow> wait_reads errno in_order script
      | WaitFailed \<Rightarrow> (Inl (RuntimeError (''io_uring completion wait failed: '' @ errno)), script)
      | Completed [] \<Rightarrow> wait_reads errno in_order script
      | Completed cs \<Rightarrow> (Inr cs, script))"

definition request_bytes :: "ReadRequest \<Rightarrow> u8 list" where
  "request_bytes r = drop (unat (rr_offset r)) (rr_data r)"

text \<open>One completion. The buffer holds what the oldest read of the kernel into it reads, at most the bytes up to
  the end of the file.\<close>

definition buffer_bytes :: "nat \<Rightarrow> uring_state \<Rightarrow> u8 list" where
  "buffer_bytes buffer_index s = (case map_of (us_kernel s) buffer_index of None \<Rightarrow> [] | Some r \<Rightarrow> request_bytes r)"

fun drop_first :: "nat \<Rightarrow> (nat \<times> 'a) list \<Rightarrow> (nat \<times> 'a) list" where
  "drop_first k [] = []"
| "drop_first k (e # es) = (if fst e = k then es else e # drop_first k es)"

definition complete_read :: "ReadRequest list \<Rightarrow> nat \<Rightarrow> cqe \<Rightarrow> uring_state \<Rightarrow> exn + uring_state" where
  "complete_read requests page_bytes completion s =
     (case completion of (buffer_index, res) \<Rightarrow>
      let request_index = (if buffer_index < length (us_active s) then us_active s ! buffer_index else None) in
      case res of
        Inl message \<Rightarrow> Inl (RuntimeError (''PLE io_uring read failed: '' @ message))
      | Inr count \<Rightarrow>
          (case request_index of
             None \<Rightarrow> Inl (RuntimeError ''PLE io_uring completion identity is invalid'')
           | Some i \<Rightarrow>
               if i \<ge> length requests then Inl (RuntimeError ''PLE io_uring completion identity is invalid'')
               else let buffer = buffer_bytes buffer_index s; bytes = min count (length buffer) in
               if bytes < rr_expected_bytes (requests ! i) \<or> bytes > page_bytes
               then Inl (RuntimeError ''PLE io_uring direct read was short'')
               else Inr (s\<lparr>us_pages := (us_pages s)[i := take bytes buffer @ drop bytes (us_pages s ! i)],
                 us_physical_bytes := us_physical_bytes s + word_of_nat bytes,
                 us_active := (us_active s)[buffer_index := None],
                 us_free_buffers := buffer_index # us_free_buffers s,
                 us_completed := us_completed s + 1,
                 us_in_flight := us_in_flight s - 1,
                 us_kernel := drop_first buffer_index (us_kernel s)\<rparr>)))"

fun complete_reads :: "ReadRequest list \<Rightarrow> nat \<Rightarrow> cqe list \<Rightarrow> uring_state \<Rightarrow> exn + uring_state" where
  "complete_reads requests page_bytes [] s = Inr s"
| "complete_reads requests page_bytes (c # cs) s =
     bindE (complete_read requests page_bytes c s) (complete_reads requests page_bytes cs)"

text \<open>The main loop. Every round completes a read, so as many rounds as there are requests are enough. The head of
  the completion ring is moved after a whole batch, so a batch that fails is seen again.\<close>

fun uring_loop :: "nat \<Rightarrow> ReadRequest list \<Rightarrow> uring_state \<Rightarrow> uring \<Rightarrow> (exn + uring_state) \<times> uring" where
  "uring_loop 0 requests s u = (if us_completed s < length requests then Inl Diverges else Inr s, u\<lparr>ur_in_flight := us_kernel s\<rparr>)"
| "uring_loop (Suc fuel) requests s u =
     (if us_completed s < length requests then
        (case queue_reads requests (ur_sq_entries u) 0 s of (queued, s) \<Rightarrow>
         case submit_reads (ur_errno u) (ur_enters u) queued of
           (Inl e, script) \<Rightarrow> (Inl e, u\<lparr>ur_enters := script, ur_in_flight := us_kernel s\<rparr>)
         | (Inr _, script) \<Rightarrow>
             let u = u\<lparr>ur_enters := script\<rparr>; s = s\<lparr>us_in_flight := us_in_flight s + queued\<rparr> in
             if us_in_flight s = 0 then (Inl (RuntimeError ''PLE io_uring made no progress''), u\<lparr>ur_in_flight := us_kernel s\<rparr>)
             else (case wait_reads (ur_errno u) (map (\<lambda>k. (fst k, Inr (ur_page_bytes u))) (us_kernel s)) (ur_waits u) of
                 (Inl e, script) \<Rightarrow> (Inl e, u\<lparr>ur_waits := script, ur_in_flight := us_kernel s\<rparr>)
               | (Inr cs, script) \<Rightarrow>
                   let u = u\<lparr>ur_waits := script\<rparr> in
                   (case complete_reads requests (ur_page_bytes u) cs s of
                      Inl e \<Rightarrow> (Inl e, u\<lparr>ur_in_flight := us_kernel s\<rparr>)
                    | Inr s \<Rightarrow> uring_loop fuel requests s u)))
      else (Inr s, u\<lparr>ur_in_flight := us_kernel s\<rparr>))"

definition uring_read :: "ReadRequest list \<Rightarrow> uring \<Rightarrow> (exn + u8 list list \<times> u64) \<times> uring" where
  "uring_read requests u =
     (if requests = [] then (Inl (InvalidArgument ''PLE io_uring batch size is invalid''), u)
      else (case uring_loop (length requests) requests
                   (new_uring_state u (length requests)) u of
              (Inl e, u) \<Rightarrow> (Inl e, u)
            | (Inr s, u) \<Rightarrow> (Inr (us_pages s, us_physical_bytes s), u)))"

section \<open>The window invariant\<close>

definition outstanding :: "uring_state \<Rightarrow> nat \<Rightarrow> bool" where
  "outstanding s i \<longleftrightarrow> Some i \<in> set (us_active s)"

definition finished :: "uring_state \<Rightarrow> nat set" where
  "finished s = {i. i < us_next_request s \<and> \<not> outstanding s i}"

definition request_page :: "nat \<Rightarrow> ReadRequest \<Rightarrow> u8 list" where
  "request_page page_bytes r = take page_bytes (request_bytes r) @ replicate (page_bytes - length (request_bytes r)) 0"

definition requests_ok :: "nat \<Rightarrow> ReadRequest list \<Rightarrow> bool" where
  "requests_ok page_bytes requests \<longleftrightarrow> (\<forall>r \<in> set requests. rr_expected_bytes r = min page_bytes (length (request_bytes r)))"

text \<open>Every buffer is free or holds the read of one request; \<open>queued\<close> reads are not counted as in flight yet.\<close>

definition window_ok :: "nat \<Rightarrow> uring_state \<Rightarrow> bool" where
  "window_ok queued s \<longleftrightarrow> distinct (us_free_buffers s) \<and> set (us_free_buffers s) \<subseteq> {..< length (us_active s)} \<and>
     (\<forall>b < length (us_active s). us_active s ! b = None \<longleftrightarrow> b \<in> set (us_free_buffers s)) \<and>
     (\<forall>b < length (us_active s). \<forall>c < length (us_active s). us_active s ! b \<noteq> None \<longrightarrow> us_active s ! b = us_active s ! c \<longrightarrow> b = c) \<and>
     (\<forall>i. outstanding s i \<longrightarrow> i < us_next_request s) \<and>
     us_in_flight s + queued + length (us_free_buffers s) = length (us_active s) \<and>
     us_completed s + us_in_flight s + queued = us_next_request s"

definition pages_ok :: "ReadRequest list \<Rightarrow> nat \<Rightarrow> uring_state \<Rightarrow> bool" where
  "pages_ok requests page_bytes s \<longleftrightarrow> length (us_pages s) = length requests \<and> us_next_request s \<le> length requests \<and>
     (\<forall>i < length requests. us_pages s ! i =
        (if i \<in> finished s then request_page page_bytes (requests ! i) else replicate page_bytes 0)) \<and>
     us_physical_bytes s = (\<Sum>i \<in> finished s. word_of_nat (rr_expected_bytes (requests ! i)))"

text \<open>On a ring that was idle at the start, the kernel has exactly the reads of the buffers in use.\<close>

definition kernel_ok :: "ReadRequest list \<Rightarrow> uring_state \<Rightarrow> bool" where
  "kernel_ok requests s \<longleftrightarrow> distinct (map fst (us_kernel s)) \<and>
     (\<forall>b r. (b, r) \<in> set (us_kernel s) \<longleftrightarrow> (\<exists>i. b < length (us_active s) \<and> us_active s ! b = Some i \<and> r = requests ! i))"

lemma kernel_buffer:
  assumes "kernel_ok requests s" "b < length (us_active s)" "us_active s ! b = Some i"
  shows "buffer_bytes b s = request_bytes (requests ! i)"
proof -
  have "(b, requests ! i) \<in> set (us_kernel s)" using assms by (auto simp: kernel_ok_def)
  then have "map_of (us_kernel s) b = Some (requests ! i)" using assms(1) by (simp add: kernel_ok_def)
  then show ?thesis by (simp add: buffer_bytes_def)
qed

lemma drop_first_filter: "distinct (map fst es) \<Longrightarrow> drop_first k es = filter (\<lambda>e. fst e \<noteq> k) es"
proof (induction es)
  case (Cons e es)
  have "filter (\<lambda>x. fst x \<noteq> fst e) es = es" using Cons.prems by (intro filter_True) (auto simp: image_iff)
  then show ?case using Cons by auto
qed simp

lemma kernel_drop:
  assumes "kernel_ok requests s" "us_kernel s' = drop_first b (us_kernel s)" "us_active s' = (us_active s)[b := None]"
    "b < length (us_active s)"
  shows "kernel_ok requests s'"
proof -
  have "us_kernel s' = filter (\<lambda>e. fst e \<noteq> b) (us_kernel s)" using assms(1,2) by (simp add: kernel_ok_def drop_first_filter)
  then show ?thesis using assms(1,3,4) by (auto simp: kernel_ok_def distinct_map_filter nth_list_update split: if_splits)
qed

lemma kernel_push:
  assumes "kernel_ok requests s" "b < length (us_active s)" "us_active s ! b = None"
    "us_kernel s' = us_kernel s @ [(b, requests ! i)]" "us_active s' = (us_active s)[b := Some i]"
  shows "kernel_ok requests s'"
proof -
  have "b \<notin> fst ` set (us_kernel s)" using assms(1,3) by (force simp: kernel_ok_def)
  then show ?thesis using assms by (auto simp: kernel_ok_def nth_list_update split: if_splits)
qed

lemma outstanding_update:
  assumes "window_ok q s" "b < length (us_active s)" "us_active s ! b = Some i"
  shows "Some k \<in> set ((us_active s)[b := None]) \<longleftrightarrow> outstanding s k \<and> k \<noteq> i"
proof -
  have u: "c = b" if "c < length (us_active s)" "us_active s ! c = Some i" for c
    using assms that unfolding window_ok_def by (metis option.distinct(1))
  show ?thesis
    using assms(2,3) u unfolding outstanding_def in_set_conv_nth length_list_update
    by (metis nth_list_update_eq nth_list_update_neq option.distinct(1) option.inject)
qed

lemma queue_reads_ok:
  assumes "queue_reads requests room queued s = (queued', s')" "window_ok queued s" "pages_ok requests page_bytes s" "kernel_ok requests s"
  shows "window_ok queued' s' \<and> pages_ok requests page_bytes s' \<and> kernel_ok requests s' \<and> us_completed s' = us_completed s \<and>
    us_in_flight s' = us_in_flight s \<and> length (us_active s') = length (us_active s)"
  using assms
proof (induction requests room queued s rule: queue_reads.induct)
  case (2 requests room queued s)
  show ?case
  proof (cases "us_next_request s < length requests \<and> us_free_buffers s \<noteq> []")
    case True
    then obtain b bs where f: "us_free_buffers s = b # bs" by (cases "us_free_buffers s") auto
    let ?t = "s\<lparr>us_free_buffers := bs, us_active := (us_active s)[b := Some (us_next_request s)],
      us_kernel := us_kernel s @ [(b, requests ! us_next_request s)], us_next_request := us_next_request s + 1\<rparr>"
    have w: "window_ok queued s" by (rule 2)
    have b: "b < length (us_active s)" "us_active s ! b = None" "b \<notin> set bs" using w f by (auto simp: window_ok_def)
    have fresh: "us_active s ! c \<noteq> Some (us_next_request s)" if "c < length (us_active s)" for c
      using w that unfolding window_ok_def outstanding_def by (metis nth_mem less_irrefl)
    have o: "outstanding ?t k \<longleftrightarrow> outstanding s k \<or> k = us_next_request s" for k
      using b(1,2) unfolding outstanding_def in_set_conv_nth
      by simp (metis nth_list_update_eq nth_list_update_neq option.distinct(1) option.inject)
    have "window_ok (queued + 1) ?t"
      unfolding window_ok_def
    proof (intro conjI allI impI)
      fix c d
      assume a: "c < length (us_active ?t)" "d < length (us_active ?t)" "us_active ?t ! c \<noteq> None" "us_active ?t ! c = us_active ?t ! d"
      then show "c = d" using fresh w b(1) by (auto simp: nth_list_update window_ok_def split: if_splits)
    qed (use w f b o in \<open>auto simp: window_ok_def nth_list_update\<close>)
    moreover have fin: "finished ?t = finished s"
      using o w by (auto simp: finished_def window_ok_def less_Suc_eq)
    then have "pages_ok requests page_bytes ?t" using 2(4) True by (auto simp: pages_ok_def)
    moreover have "kernel_ok requests ?t" by (rule kernel_push [OF 2(5) b(1,2)]) simp_all
    ultimately show ?thesis using 2(1) [of b bs] 2(2) True f by simp
  next
    case False
    then show ?thesis using 2(2-5) by (auto split: list.splits if_splits)
  qed
qed simp

lemma complete_read_ok:
  assumes c: "complete_read requests page_bytes c s = Inr s'" and w: "window_ok 0 s" and p: "pages_ok requests page_bytes s"
    and r: "requests_ok page_bytes requests" and k: "kernel_ok requests s"
  shows "window_ok 0 s' \<and> pages_ok requests page_bytes s' \<and> kernel_ok requests s' \<and> us_completed s' = us_completed s + 1"
proof -
  obtain b count i where b: "c = (b, Inr count)" "b < length (us_active s)" "us_active s ! b = Some i" "i < length requests"
    using c by (auto simp: complete_read_def Let_def split: prod.splits sum.splits option.splits if_splits)
  define data where "data = request_bytes (requests ! i)"
  define bytes where "bytes = min count (length data)"
  have e: "rr_expected_bytes (requests ! i) = min page_bytes (length data)" using r b(4) by (simp add: requests_ok_def data_def)
  have s': "s' = s\<lparr>us_pages := (us_pages s)[i := take bytes data @ drop bytes (us_pages s ! i)],
      us_physical_bytes := us_physical_bytes s + word_of_nat bytes, us_active := (us_active s)[b := None],
      us_free_buffers := b # us_free_buffers s, us_completed := us_completed s + 1, us_in_flight := us_in_flight s - 1,
      us_kernel := drop_first b (us_kernel s)\<rparr>"
    and n: "\<not> (bytes < rr_expected_bytes (requests ! i) \<or> bytes > page_bytes)"
    using c b by (auto simp: complete_read_def Let_def bytes_def data_def kernel_buffer [OF k b(2,3)] split: if_splits)
  have bytes: "bytes = min page_bytes (length data)" using n e by (auto simp: bytes_def)
  have out: "outstanding s' k \<longleftrightarrow> outstanding s k \<and> k \<noteq> i" for k
    using outstanding_update [OF w b(2,3)] by (simp add: s' outstanding_def)
  have oi: "outstanding s i" using b(2,3) unfolding outstanding_def by (metis nth_mem)
  have i: "i < us_next_request s" using oi w by (simp add: window_ok_def)
  have bf: "b \<notin> set (us_free_buffers s)" using b(2,3) w by (auto simp: window_ok_def)
  have inflight: "us_in_flight s \<noteq> 0"
  proof
    assume "us_in_flight s = 0"
    then have "card (set (us_free_buffers s)) = card {..< length (us_active s)}" using w by (simp add: window_ok_def distinct_card)
    then have "set (us_free_buffers s) = {..< length (us_active s)}" using w by (intro card_subset_eq) (auto simp: window_ok_def)
    then show False using bf b(2) by blast
  qed
  have "window_ok 0 s'"
    unfolding window_ok_def
  proof (intro conjI allI impI)
    fix d e
    assume "d < length (us_active s')" "e < length (us_active s')" "us_active s' ! d \<noteq> None" "us_active s' ! d = us_active s' ! e"
    then show "d = e" using w b(2) by (auto simp: s' nth_list_update window_ok_def split: if_splits)
  qed (use w b bf inflight out in \<open>auto simp: s' window_ok_def nth_list_update outstanding_def\<close>)
  moreover have fin: "finished s' = insert i (finished s)" "i \<notin> finished s" "finite (finished s)"
    using out oi i by (auto simp: finished_def s')
  moreover have "pages_ok requests page_bytes s'"
  proof -
    have pi: "us_pages s ! i = replicate page_bytes 0" using p fin(2) b(4) by (simp add: pages_ok_def)
    then have "take bytes data @ drop bytes (us_pages s ! i) = request_page page_bytes (requests ! i)"
      by (auto simp: bytes request_page_def data_def [symmetric] min_def)
    moreover have "us_physical_bytes s' = (\<Sum>i \<in> finished s'. word_of_nat (rr_expected_bytes (requests ! i)))"
      using p fin e bytes by (simp add: pages_ok_def s' add.commute)
    ultimately show ?thesis
      using p fin(1) b(4) by (auto simp: pages_ok_def nth_list_update s' simp del: list_update.simps)
  qed
  moreover have "kernel_ok requests s'" by (rule kernel_drop [OF k, of _ b]) (simp_all add: s' b(2))
  ultimately show ?thesis by (simp add: s')
qed

lemma complete_reads_ok:
  assumes "complete_reads requests page_bytes cs s = Inr s'" "window_ok 0 s" "pages_ok requests page_bytes s" "requests_ok page_bytes requests"
    "kernel_ok requests s"
  shows "window_ok 0 s' \<and> pages_ok requests page_bytes s' \<and> kernel_ok requests s' \<and> us_completed s' = us_completed s + length cs"
  using assms
proof (induction cs arbitrary: s)
  case (Cons c cs)
  from Cons.prems(1) obtain s1 where s1: "complete_read requests page_bytes c s = Inr s1"
    "complete_reads requests page_bytes cs s1 = Inr s'" by (auto simp: bindE_def split: sum.splits)
  from complete_read_ok [OF s1(1) Cons.prems(2-5)] Cons.IH [OF s1(2) _ _ Cons.prems(4)] show ?case by simp
qed simp

lemma kernel_nonempty:
  assumes "window_ok 0 s" "kernel_ok requests s" "us_in_flight s \<noteq> 0"
  shows "us_kernel s \<noteq> []"
proof
  assume "us_kernel s = []"
  then have "us_active s ! b = None" if "b < length (us_active s)" for b
    using assms(2) that by (cases "us_active s ! b") (auto simp: kernel_ok_def)
  then have "{..< length (us_active s)} = set (us_free_buffers s)" using assms(1) by (auto simp: window_ok_def)
  then have "length (us_free_buffers s) = length (us_active s)" using assms(1)
    by (metis card_lessThan distinct_card window_ok_def)
  then show False using assms by (simp add: window_ok_def)
qed

lemma wait_reads_nonempty: "wait_reads errno in_order script = (Inr cs, script') \<Longrightarrow> in_order \<noteq> [] \<Longrightarrow> cs \<noteq> []"
  by (induction script) (auto split: wait_event.splits list.splits)

lemma wait_reads_not_diverges: "fst (wait_reads errno in_order script) \<noteq> Inl Diverges"
  by (induction script) (auto split: wait_event.splits list.splits)

lemma submit_reads_not_diverges: "fst (submit_reads errno script n) \<noteq> Inl Diverges"
  by (induction errno script n rule: submit_reads.induct) (auto split: io_event.splits)

lemma complete_reads_not_diverges: "complete_reads requests page_bytes cs s \<noteq> Inl Diverges"
proof (induction cs arbitrary: s)
  case (Cons c cs)
  have "complete_read requests page_bytes c s \<noteq> Inl Diverges"
    by (auto simp: complete_read_def Let_def split: prod.splits sum.splits option.splits)
  then show ?case using Cons by (auto simp: bindE_def split: sum.splits)
qed simp

lemma count_in_flight:
  "us_active (s\<lparr>us_in_flight := n\<rparr>) = us_active s" "us_free_buffers (s\<lparr>us_in_flight := n\<rparr>) = us_free_buffers s"
  "us_next_request (s\<lparr>us_in_flight := n\<rparr>) = us_next_request s" "us_completed (s\<lparr>us_in_flight := n\<rparr>) = us_completed s"
  "us_in_flight (s\<lparr>us_in_flight := n\<rparr>) = n" "us_physical_bytes (s\<lparr>us_in_flight := n\<rparr>) = us_physical_bytes s"
  "us_pages (s\<lparr>us_in_flight := n\<rparr>) = us_pages s"
  "us_kernel (s\<lparr>us_in_flight := n\<rparr>) = us_kernel s"
  by simp_all

lemma count_queued:
  assumes "window_ok q t" "pages_ok requests page_bytes t" "kernel_ok requests t"
  shows "window_ok 0 (t\<lparr>us_in_flight := us_in_flight t + q\<rparr>)" "pages_ok requests page_bytes (t\<lparr>us_in_flight := us_in_flight t + q\<rparr>)"
    "kernel_ok requests (t\<lparr>us_in_flight := us_in_flight t + q\<rparr>)"
  using assms unfolding window_ok_def pages_ok_def kernel_ok_def outstanding_def finished_def count_in_flight add.assoc add_0_left add_0_right
  by blast+

text \<open>One round of the loop that does not fail leads to a state with more reads completed.\<close>

lemma uring_loop_ok:
  assumes "window_ok 0 s" "pages_ok requests (ur_page_bytes u) s" "requests_ok (ur_page_bytes u) requests"
    "kernel_ok requests s" "length requests \<le> us_completed s + fuel"
  shows "case uring_loop fuel requests s u of
      (Inl e, u') \<Rightarrow> e \<noteq> Diverges
    | (Inr s', u') \<Rightarrow> window_ok 0 s' \<and> pages_ok requests (ur_page_bytes u) s' \<and> kernel_ok requests s' \<and>
        ur_in_flight u' = us_kernel s' \<and> length requests \<le> us_completed s'"
  using assms
proof (induction fuel arbitrary: s u)
  case (Suc fuel)
  show ?case
  proof (cases "us_completed s < length requests")
    case True
    obtain q t where q: "queue_reads requests (ur_sq_entries u) 0 s = (q, t)" by fastforce
    from queue_reads_ok [OF q Suc.prems(1,2,4)] have t: "window_ok q t" "pages_ok requests (ur_page_bytes u) t" "us_completed t = us_completed s"
      "kernel_ok requests t" by simp_all
    let ?t = "t\<lparr>us_in_flight := us_in_flight t + q\<rparr>"
    have w: "window_ok 0 ?t" "pages_ok requests (ur_page_bytes u) ?t" "kernel_ok requests ?t"
      by (rule count_queued [OF t(1,2,4)])+
    obtain o1 script1 where su: "submit_reads (ur_errno u) (ur_enters u) q = (o1, script1)" by fastforce
    define u1 where "u1 = u\<lparr>ur_enters := script1\<rparr>"
    obtain o2 script2 where wa: "wait_reads (ur_errno u1) (map (\<lambda>k. (fst k, Inr (ur_page_bytes u1))) (us_kernel ?t)) (ur_waits u1) = (o2, script2)"
      by fastforce
    define u2 where "u2 = u1\<lparr>ur_waits := script2\<rparr>"
    have u: "ur_page_bytes u1 = ur_page_bytes u" "ur_page_bytes u2 = ur_page_bytes u" by (simp_all add: u1_def u2_def)
    note run = True q su wa u1_def u2_def
    consider e where "o1 = Inl e" "e \<noteq> Diverges" | "o1 = Inr ()" "us_in_flight ?t = 0"
      | e where "o1 = Inr ()" "us_in_flight ?t \<noteq> 0" "o2 = Inl e" "e \<noteq> Diverges"
      | cs where "o1 = Inr ()" "us_in_flight ?t \<noteq> 0" "o2 = Inr cs"
      using submit_reads_not_diverges [of "ur_errno u" "ur_enters u" q] su wa
        wait_reads_not_diverges [of "ur_errno u1" "map (\<lambda>k. (fst k, Inr (ur_page_bytes u1))) (us_kernel ?t)" "ur_waits u1"]
      by (cases o1; cases o2; cases "us_in_flight ?t = 0") auto
    then show ?thesis
    proof cases
      case (4 cs)
      have cs: "cs \<noteq> []" using wait_reads_nonempty [OF wa [unfolded 4(3)]] kernel_nonempty [OF w(1,3)] 4(2) by simp
      show ?thesis
      proof (cases "complete_reads requests (ur_page_bytes u2) cs ?t")
        case (Inl e)
        then have "e \<noteq> Diverges" using complete_reads_not_diverges by metis
        then show ?thesis using run 4 Inl by (simp add: Let_def)
      next
        case (Inr s2)
        from complete_reads_ok [OF this [unfolded u] w(1,2) Suc.prems(3) w(3)] t(3) have
          s2: "window_ok 0 s2" "pages_ok requests (ur_page_bytes u) s2" "us_completed s2 = us_completed s + length cs"
          "kernel_ok requests s2" by simp_all
        have "length requests \<le> us_completed s2 + fuel" using s2(3) Suc.prems(5) cs by (cases cs) simp_all
        moreover have "requests_ok (ur_page_bytes u2) requests" "pages_ok requests (ur_page_bytes u2) s2" using Suc.prems(3) s2(2) by (simp_all add: u)
        ultimately have "case uring_loop fuel requests s2 u2 of (Inl e, u') \<Rightarrow> e \<noteq> Diverges
            | (Inr s', u') \<Rightarrow> window_ok 0 s' \<and> pages_ok requests (ur_page_bytes u2) s' \<and> kernel_ok requests s' \<and>
              ur_in_flight u' = us_kernel s' \<and> length requests \<le> us_completed s'"
          using s2(1,4) by (intro Suc.IH)
        from this [unfolded u(2)] show ?thesis using run 4 Inr u by (simp add: Let_def)
      qed
    qed (use run in \<open>simp_all add: Let_def\<close>)
  qed (use Suc.prems in simp)
qed simp

lemma new_uring_state_ok:
  assumes "ur_in_flight u = []"
  shows "window_ok 0 (new_uring_state u (length requests))" "pages_ok requests (ur_page_bytes u) (new_uring_state u (length requests))"
    "kernel_ok requests (new_uring_state u (length requests))"
proof -
  have "Some i \<notin> set (replicate depth None)" for i depth :: nat by simp
  then show "window_ok 0 (new_uring_state u (length requests))" "pages_ok requests (ur_page_bytes u) (new_uring_state u (length requests))"
    "kernel_ok requests (new_uring_state u (length requests))"
    using assms by (auto simp: window_ok_def pages_ok_def kernel_ok_def outstanding_def finished_def new_uring_state_def)
qed

lemma uring_read_result:
  assumes "requests_ok (ur_page_bytes u) requests" "ur_in_flight u = []"
  shows "case uring_read requests u of
      (Inl e, u') \<Rightarrow> e \<noteq> Diverges
    | (Inr (pages, physical), u') \<Rightarrow> pages = map (request_page (ur_page_bytes u)) requests \<and>
        physical = sum_list (map (\<lambda>r. word_of_nat (rr_expected_bytes r)) requests) \<and> ur_in_flight u' = []"
proof (cases "requests = []")
  case False
  let ?s = "new_uring_state u (length requests)"
  have final: "us_pages s = map (request_page (ur_page_bytes u)) requests \<and>
      us_physical_bytes s = sum_list (map (\<lambda>r. word_of_nat (rr_expected_bytes r)) requests) \<and> us_kernel s = []"
    if "window_ok 0 s" "pages_ok requests (ur_page_bytes u) s" "kernel_ok requests s" "length requests \<le> us_completed s" for s
  proof -
    note kernel = that(3)
    have n: "us_in_flight s = 0" "us_next_request s = length requests" using that by (auto simp: window_ok_def pages_ok_def)
    have none: "\<not> outstanding s i" for i
    proof
      assume "outstanding s i"
      then obtain b where b: "b < length (us_active s)" "us_active s ! b = Some i" by (auto simp: outstanding_def in_set_conv_nth)
      then have "b \<notin> set (us_free_buffers s)" using that(1) by (auto simp: window_ok_def)
      moreover have "set (us_free_buffers s) = {..< length (us_active s)}"
        using that(1) n(1) by (intro card_subset_eq) (auto simp: window_ok_def distinct_card)
      ultimately show False using b(1) by blast
    qed
    then have f: "finished s = {..< length requests}" by (auto simp: finished_def n(2) none)
    have "us_pages s = map (request_page (ur_page_bytes u)) requests"
      using that(2) by (intro nth_equalityI) (auto simp: pages_ok_def f)
    moreover have "us_physical_bytes s = sum_list (map (\<lambda>r. word_of_nat (rr_expected_bytes r)) requests)"
      using that(2) by (simp add: pages_ok_def f sum_list_sum_nth atLeast0LessThan)
    moreover have "us_kernel s = []"
    proof (cases "us_kernel s")
      case (Cons e es)
      then have "(fst e, snd e) \<in> set (us_kernel s)" by simp
      then obtain i where "fst e < length (us_active s)" "us_active s ! fst e = Some i"
        using kernel unfolding kernel_ok_def by blast
      then have "outstanding s i" unfolding outstanding_def by (metis nth_mem)
      then show ?thesis using none by blast
    qed simp
    ultimately show ?thesis by simp
  qed
  have "case uring_loop (length requests) requests ?s u of
      (Inl e, u') \<Rightarrow> e \<noteq> Diverges
    | (Inr s', u') \<Rightarrow> window_ok 0 s' \<and> pages_ok requests (ur_page_bytes u) s' \<and> kernel_ok requests s' \<and>
        ur_in_flight u' = us_kernel s' \<and> length requests \<le> us_completed s'"
    using new_uring_state_ok [OF assms(2)] assms(1) by (intro uring_loop_ok) simp_all
  then show ?thesis using False final by (auto simp: uring_read_def split: prod.splits sum.splits)
qed (simp add: uring_read_def)

lemma uring_loop_page: "ur_page_bytes (snd (uring_loop fuel requests s u)) = ur_page_bytes u"
proof (induction fuel arbitrary: s u)
  case (Suc fuel)
  then show ?case by (auto simp: Let_def split: prod.splits sum.splits)
qed simp

lemma uring_read_page: "ur_page_bytes (snd (uring_read requests u)) = ur_page_bytes u"
  using uring_loop_page [of "length requests" requests "new_uring_state u (length requests)" u]
  by (auto simp: uring_read_def split: prod.splits sum.splits)

section \<open>Progress\<close>

text \<open>A kernel whose submitting calls do not fail, but may be interrupted or take a part, and whose waiting calls
  may be interrupted or return early, and then complete what is in flight.\<close>

definition benign :: "uring \<Rightarrow> bool" where
  "benign u \<longleftrightarrow> list_all (\<lambda>e. e \<noteq> IoFailed \<and> e \<noteq> IoCount 0) (ur_enters u) \<and>
     list_all (\<lambda>w. w = WaitInterrupted \<or> w = Completed []) (ur_waits u)"

lemma submit_reads_benign:
  "list_all (\<lambda>e. e \<noteq> IoFailed \<and> e \<noteq> IoCount 0) script \<Longrightarrow> \<exists>script'. submit_reads errno script n = (Inr (), script') \<and>
     list_all (\<lambda>e. e \<noteq> IoFailed \<and> e \<noteq> IoCount 0) script'"
  by (induction errno script n rule: submit_reads.induct) (auto split: io_event.splits)

lemma wait_reads_benign:
  "list_all (\<lambda>w. w = WaitInterrupted \<or> w = Completed []) script \<Longrightarrow> wait_reads errno in_order script = (Inr in_order, [])"
  by (induction script) auto

lemma complete_reads_in_flight:
  assumes "distinct bs" "\<forall>b \<in> set bs. b < length (us_active s) \<and> us_active s ! b \<noteq> None"
    "window_ok 0 s" "pages_ok requests page_bytes s" "requests_ok page_bytes requests" "kernel_ok requests s"
  shows "\<exists>s'. complete_reads requests page_bytes (map (\<lambda>b. (b, Inr page_bytes)) bs) s = Inr s' \<and> length (us_active s') = length (us_active s)"
  using assms
proof (induction bs arbitrary: s)
  case (Cons b bs)
  from Cons.prems(2) obtain i where b: "b < length (us_active s)" "us_active s ! b = Some i" by auto
  then have "outstanding s i" unfolding outstanding_def by (metis nth_mem)
  then have i: "i < length requests" using Cons.prems(3,4) by (auto simp: window_ok_def pages_ok_def)
  then have "rr_expected_bytes (requests ! i) = min page_bytes (length (request_bytes (requests ! i)))"
    using Cons.prems(5) by (simp add: requests_ok_def)
  with b i kernel_buffer [OF Cons.prems(6) b] obtain s1 where s1: "complete_read requests page_bytes (b, Inr page_bytes) s = Inr s1"
    "us_active s1 = (us_active s)[b := None]" by (auto simp: complete_read_def Let_def)
  from complete_read_ok [OF s1(1) Cons.prems(3-6)] have ok: "window_ok 0 s1" "pages_ok requests page_bytes s1" "kernel_ok requests s1"
    by simp_all
  have "\<forall>c \<in> set bs. c < length (us_active s1) \<and> us_active s1 ! c \<noteq> None"
    using Cons.prems(1,2) s1(2) by (auto simp: nth_list_update)
  from Cons.IH [OF _ this ok(1,2) Cons.prems(5) ok(3)] Cons.prems(1) s1 show ?case by auto
qed simp

lemma queue_reads_progress:
  assumes "queue_reads requests room queued s = (queued', s')" "0 < room" "us_next_request s < length requests" "us_free_buffers s \<noteq> []"
  shows "queued < queued'"
proof -
  have mono: "queue_reads requests room queued s = (queued', s') \<Longrightarrow> queued \<le> queued'" for room queued s queued' s'
    by (induction requests room queued s rule: queue_reads.induct) (auto split: if_splits list.splits)
  from assms show ?thesis by (cases room) (auto split: list.splits dest!: mono)
qed

lemma uring_loop_benign:
  assumes "window_ok 0 s" "pages_ok requests (ur_page_bytes u) s" "requests_ok (ur_page_bytes u) requests" "benign u"
    "0 < ur_sq_entries u" "0 < length (us_active s)" "kernel_ok requests s"
  shows "\<exists>s' u'. uring_loop fuel requests s u = (Inr s', u') \<or> uring_loop fuel requests s u = (Inl Diverges, u')"
  using assms
proof (induction fuel arbitrary: s u)
  case (Suc fuel)
  show ?case
  proof (cases "us_completed s < length requests")
    case True
    obtain q t where q: "queue_reads requests (ur_sq_entries u) 0 s = (q, t)" by fastforce
    from queue_reads_ok [OF q Suc.prems(1,2,7)] have t: "window_ok q t" "pages_ok requests (ur_page_bytes u) t"
      "length (us_active t) = length (us_active s)" "us_completed t = us_completed s" "us_in_flight t = us_in_flight s" "kernel_ok requests t"
      by simp_all
    let ?t = "t\<lparr>us_in_flight := us_in_flight t + q\<rparr>"
    have w: "window_ok 0 ?t" "pages_ok requests (ur_page_bytes u) ?t" "kernel_ok requests ?t"
      by (rule count_queued [OF t(1,2,6)])+
    have flight: "us_in_flight t + q \<noteq> 0"
    proof
      assume "us_in_flight t + q = 0"
      then have z: "us_in_flight s = 0" "q = 0" using t(5) by simp_all
      then have "us_next_request s < length requests" "us_free_buffers s \<noteq> []"
        using Suc.prems(1,6) True by (auto simp: window_ok_def)
      from queue_reads_progress [OF q Suc.prems(5) this] z(2) show False by simp
    qed
    obtain script where su: "submit_reads (ur_errno u) (ur_enters u) q = (Inr (), script)"
      "list_all (\<lambda>e. e \<noteq> IoFailed \<and> e \<noteq> IoCount 0) script"
      using submit_reads_benign [of "ur_enters u" "ur_errno u" q] Suc.prems(4) unfolding benign_def by blast
    have wa: "wait_reads errno cs (ur_waits u) = (Inr cs, [])" for errno cs
      using Suc.prems(4) by (auto simp: benign_def intro: wait_reads_benign)
    obtain s2 where s2: "complete_reads requests (ur_page_bytes u) (map (\<lambda>k. (fst k, Inr (ur_page_bytes u))) (us_kernel ?t)) ?t = Inr s2"
      "length (us_active s2) = length (us_active ?t)"
      using complete_reads_in_flight [of "map fst (us_kernel ?t)" ?t, OF _ _ w(1,2) Suc.prems(3) w(3)] w(3)
      by (force simp: kernel_ok_def comp_def)
    let ?u = "u\<lparr>ur_enters := script, ur_waits := []\<rparr>"
    have "uring_loop (Suc fuel) requests s u = uring_loop fuel requests s2 ?u"
      using True q su(1) wa flight s2(1) by (auto simp: Let_def)
    moreover have "window_ok 0 s2" "pages_ok requests (ur_page_bytes ?u) s2" "kernel_ok requests s2"
      using complete_reads_ok [OF s2(1) w(1,2) Suc.prems(3) w(3)] by simp_all
    ultimately show ?thesis
      using Suc.IH [of s2 ?u] Suc.prems(3,5,6) su(2) s2(2) t(3) by (simp add: benign_def)
  qed simp
qed simp

lemma uring_read_benign:
  assumes "requests_ok (ur_page_bytes u) requests" "ur_in_flight u = []" "requests \<noteq> []" "benign u" "0 < ur_sq_entries u" "0 < ur_queue_depth u"
  shows "\<exists>r. fst (uring_read requests u) = Inr r"
proof -
  let ?s = "new_uring_state u (length requests)"
  have "0 < length (us_active ?s)" using assms(6) by (simp add: new_uring_state_def)
  from uring_loop_benign [OF new_uring_state_ok(1,2) [OF assms(2)] assms(1,4,5) this new_uring_state_ok(3) [OF assms(2)], of "length requests"]
  obtain s' u' where "uring_loop (length requests) requests ?s u = (Inr s', u') \<or>
    uring_loop (length requests) requests ?s u = (Inl Diverges, u')" by blast
  then show ?thesis using uring_read_result [OF assms(1,2)] assms(3) by (auto simp: uring_read_def)
qed

section \<open>Properties\<close>


definition demo_requests :: "ReadRequest list" where
  "demo_requests = map (\<lambda>p. \<lparr> rr_data = [1, 2, 3, 4, 5], rr_offset = p, rr_expected_bytes = (if p = 4 then 1 else 2) \<rparr>) [0, 2, 4]"

definition demo_uring :: uring where
  "demo_uring = \<lparr> ur_queue_depth = 2, ur_page_bytes = 2, ur_sq_entries = 2, ur_enters = [IoInterrupted, IoCount 1],
     ur_waits = [Completed [(1, Inr 2)], WaitInterrupted], ur_in_flight = [], ur_errno = [] \<rparr>"


definition stale_uring :: uring where
  "stale_uring = \<lparr> ur_queue_depth = 1, ur_page_bytes = 2, ur_sq_entries = 1, ur_enters = [],
     ur_waits = [WaitFailed, Completed [(0, Inr 2)]], ur_in_flight = [], ur_errno = [] \<rparr>"

text \<open>
  A batch that fails leaves its reads in flight, and the next batch takes their completions for its own.
  After a failed wait for a read of one file, the batch that follows succeeds for a read of
  another file and returns the bytes of the first.
\<close>

theorem uring_stale_completion:
  "fst (uring_read [\<lparr> rr_data = [1, 2], rr_offset = 0, rr_expected_bytes = 2 \<rparr>] stale_uring) =
     Inl (RuntimeError ''io_uring completion wait failed: '') \<and>
   fst (uring_read [\<lparr> rr_data = [3, 4], rr_offset = 0, rr_expected_bytes = 2 \<rparr>]
     (snd (uring_read [\<lparr> rr_data = [1, 2], rr_offset = 0, rr_expected_bytes = 2 \<rparr>] stale_uring))) = Inr ([[1, 2]], 2)"
  by code_simp

end
