(* ===== verification/PleStore.thy ===== *)
theory PleStore
  imports PleTables IoUring
begin

text \<open>
  The store of the n-gram tables, class \<open>PleStore\<close> of \<^verbatim>\<open>include/q38/ple.h\<close> and the second half of
  \<^verbatim>\<open>src/ple.cc\<close>: opening the table files, the page cache with its LRU list and page pool, and the
  reading of rows and row scales, uncached, through buffered reads or through the ring. The table
  files do not change while the store is open; the outcomes of the reading calls are a script, as
  in the journal. The lock of the cache is held during a whole batch, so batches are steps.
\<close>

section \<open>Data\<close>

record PleCacheStats =
  cs_requested_rows :: u64
  cs_unique_page_requests :: u64
  cs_useful_bytes :: u64
  cs_hits :: u64
  cs_misses :: u64
  cs_evictions :: u64
  cs_physical_read_bytes :: u64
  cs_capacity_bytes :: u64
  cs_resident_bytes :: u64
  cs_read_operations :: u64
  cs_read_batches :: u64
  cs_io_uring_submissions :: u64
  cs_io_uring_completions :: u64
  cs_direct_read_bytes :: u64
  cs_read_errors :: u64
  cs_maximum_queue_depth :: u64
  cs_read_latency_p50_ns :: u64
  cs_read_latency_p95_ns :: u64
  cs_read_latency_p99_ns :: u64
  cs_io_uring_enabled :: u64
  cs_direct_io_enabled :: u64
  cs_scale_resident_bytes :: u64

definition zero_cache_stats :: PleCacheStats where
  "zero_cache_stats = \<lparr> cs_requested_rows = 0, cs_unique_page_requests = 0, cs_useful_bytes = 0, cs_hits = 0, cs_misses = 0,
     cs_evictions = 0, cs_physical_read_bytes = 0, cs_capacity_bytes = 0, cs_resident_bytes = 0, cs_read_operations = 0,
     cs_read_batches = 0, cs_io_uring_submissions = 0, cs_io_uring_completions = 0, cs_direct_read_bytes = 0,
     cs_read_errors = 0, cs_maximum_queue_depth = 0, cs_read_latency_p50_ns = 0, cs_read_latency_p95_ns = 0,
     cs_read_latency_p99_ns = 0, cs_io_uring_enabled = 0, cs_direct_io_enabled = 0, cs_scale_resident_bytes = 0 \<rparr>"

text \<open>The pages of the cache are numbered; \<open>pc_memory\<close> holds their bytes, \<open>pc_entries\<close> the page of each key,
  and the free pages are a stack, its back first.\<close>

record page_cache =
  pc_capacity_bytes :: u64
  pc_page_bytes :: u32
  pc_max_pages :: nat
  pc_entries :: "(u64 \<times> nat) list"
  pc_lru :: "u64 list"
  pc_memory :: "u8 list list"
  pc_free_pages :: "nat list"
  pc_stats :: PleCacheStats
  pc_read_latencies :: "u64 list"

datatype PleIoMode = IoAuto | IoBuffered | IoUringDirect

record PleStoreOptions =
  so_cache_bytes :: u64
  so_cache_page_bytes :: u32
  so_io_mode :: PleIoMode
  so_queue_depth :: u32

record OpenFile =
  of_index :: u32
  of_data :: "u8 list" \<comment> \<open>the file behind the descriptor\<close>
  of_direct :: bool \<comment> \<open>a second, direct descriptor is open\<close>

record PleReadExtent =
  ex_file_index :: u32
  ex_offset :: u64
  ex_output_offset :: nat
  ex_bytes :: nat

record PleStore =
  st_layout :: PleLayout
  st_files :: "OpenFile list"
  st_scale_parts :: "u16 list list"
  st_cache :: "page_cache option"
  st_io_uring :: "uring option"
  st_scale_resident_bytes :: u64
  st_io :: "io_event list" \<comment> \<open>the outcomes of the reading calls\<close>
  st_errno :: string \<comment> \<open>the text of a failing call\<close>
  st_clock :: "u64 list" \<comment> \<open>the durations of the batches, in nanoseconds\<close>

section \<open>The page pool\<close>

definition new_cache :: "u64 \<Rightarrow> u32 \<Rightarrow> page_cache" where
  "new_cache capacity page_bytes = \<lparr> pc_capacity_bytes = capacity, pc_page_bytes = page_bytes,
     pc_max_pages = unat (capacity div ucast page_bytes), pc_entries = [], pc_lru = [], pc_memory = [], pc_free_pages = [],
     pc_stats = zero_cache_stats\<lparr>cs_capacity_bytes := capacity\<rparr>, pc_read_latencies = [] \<rparr>"

definition count_in :: "((u64 \<Rightarrow> u64) \<Rightarrow> PleCacheStats \<Rightarrow> PleCacheStats) \<Rightarrow> u64 \<Rightarrow> page_cache \<Rightarrow> page_cache" where
  "count_in upd n c = c\<lparr>pc_stats := upd (\<lambda>v. v + n) (pc_stats c)\<rparr>"

definition note_queue_depth :: "u64 \<Rightarrow> page_cache \<Rightarrow> page_cache" where
  "note_queue_depth depth c = c\<lparr>pc_stats := cs_maximum_queue_depth_update (\<lambda>v. max v depth) (pc_stats c)\<rparr>"

text \<open>The pool grows by chunks of 64 MiB; the bytes of a new page are arbitrary, here zero.\<close>

definition grow_pages :: "page_cache \<Rightarrow> page_cache" where
  "grow_pages c =
     (if pc_free_pages c = [] \<and> length (pc_memory c) < pc_max_pages c
      then let target_pages = max 1 (67108864 div unat (pc_page_bytes c));
             chunk_pages = min target_pages (pc_max_pages c - length (pc_memory c)) in
           c\<lparr>pc_free_pages := rev [length (pc_memory c) ..< length (pc_memory c) + chunk_pages],
             pc_memory := pc_memory c @ replicate chunk_pages (replicate (unat (pc_page_bytes c)) 0)\<rparr>
      else c)"

definition acquire_page :: "(page_cache, exn, nat) M" where
  "acquire_page c0 =
     (let c = grow_pages c0 in
      case pc_free_pages c of
        page # pages \<Rightarrow> (Inr page, c\<lparr>pc_free_pages := pages\<rparr>)
      | [] \<Rightarrow>
          if pc_lru c = [] then (Inl (LogicError ''PLE page cache has no reusable page''), c)
          else let victim = last (pc_lru c) in
          (case map_of (pc_entries c) victim of
             None \<Rightarrow> (Inl (LogicError ''PLE page cache LRU is inconsistent''), c)
           | Some page \<Rightarrow> (Inr page, count_in cs_evictions_update 1
               (c\<lparr>pc_lru := butlast (pc_lru c), pc_entries := filter (\<lambda>e. fst e \<noteq> victim) (pc_entries c)\<rparr>))))"

section \<open>Files\<close>

definition file_data :: "PleStore \<Rightarrow> u32 \<Rightarrow> exn + OpenFile" where
  "file_data st file_index =
     (case find (\<lambda>f. of_index f = file_index) (st_files st) of
        None \<Rightarrow> Inl (RuntimeError ''PLE file is not open'')
      | Some f \<Rightarrow> Inr f)"

definition ple_file_size :: "PleLayout \<Rightarrow> u32 \<Rightarrow> exn + u64" where
  "ple_file_size layout file_index =
     (case find (\<lambda>f. pf_index f = file_index) (pl_files layout) of
        None \<Rightarrow> Inl (RuntimeError ''PLE physical file metadata is missing'')
      | Some f \<Rightarrow> Inr (pf_file_bytes f))"

text \<open>The loops around \<open>pread\<close>: \<open>wanted\<close> bytes are missing, \<open>got\<close> were read, \<open>rest\<close> follows in the file. An empty
  script stands for undisturbed calls.\<close>

fun pread_loop :: "exn \<Rightarrow> io_event list \<Rightarrow> nat \<Rightarrow> u8 list \<Rightarrow> u8 list \<Rightarrow> (exn + u8 list) \<times> io_event list" where
  "pread_loop failure script 0 got rest = (Inr got, script)"
| "pread_loop failure [] (Suc wanted) got rest =
     (if Suc wanted \<le> length rest then Inr (got @ take (Suc wanted) rest) else Inl failure, [])"
| "pread_loop failure (event # script) (Suc wanted) got rest =
     (case event of
        IoInterrupted \<Rightarrow> pread_loop failure script (Suc wanted) got rest
      | IoFailed \<Rightarrow> (Inl failure, script)
      | IoCount n \<Rightarrow>
          let count = min n (min (Suc wanted) (length rest)) in
          if count = 0 then (Inl failure, script)
          else pread_loop failure script (Suc wanted - count) (got @ take count rest) (drop count rest))"

definition pread_exact :: "string \<Rightarrow> u32 \<Rightarrow> u64 \<Rightarrow> nat \<Rightarrow> (PleStore, exn, u8 list) M" where
  "pread_exact message file_index offset n st =
     (case file_data st file_index of
        Inl e \<Rightarrow> (if n = 0 then Inr [] else Inl e, st)
      | Inr f \<Rightarrow>
          (case pread_loop (RuntimeError (message @ st_errno st)) (st_io st) n [] (drop (unat offset) (of_data f)) of
             (r, script) \<Rightarrow> (r, st\<lparr>st_io := script\<rparr>)))"

section \<open>Scanning a batch\<close>

record page_load =
  ld_key :: u64
  ld_file_index :: u32
  ld_page_offset :: u64
  ld_physical_bytes :: nat

record pending_copy =
  cp_load :: nat
  cp_in_page :: nat
  cp_output_offset :: nat
  cp_bytes :: nat

record batch =
  ba_cache :: page_cache
  ba_loads :: "page_load list"
  ba_pending :: "pending_copy list"
  ba_load_by_key :: "u64 \<rightharpoonup> nat"
  ba_request_pages :: "u64 set"
  ba_output :: "u8 list"

text \<open>\<open>std::copy_n\<close> to a place of the output.\<close>

definition blit :: "nat \<Rightarrow> u8 list \<Rightarrow> u8 list \<Rightarrow> u8 list" where
  "blit at bytes out = take at out @ bytes @ drop (at + length bytes) out"

definition page_of :: "u32 \<Rightarrow> u64 \<Rightarrow> u64" where
  "page_of page_bytes absolute = absolute AND NOT (ucast (page_bytes - 1))"

definition page_key :: "u32 \<Rightarrow> u32 \<Rightarrow> u64 \<Rightarrow> u64" where
  "page_key page_bytes file_index page_offset = push_bit 56 (ucast file_index) OR (page_offset div ucast page_bytes)"

definition touch_page :: "u64 \<Rightarrow> page_cache \<Rightarrow> page_cache" where
  "touch_page key c = count_in cs_hits_update 1 (c\<lparr>pc_lru := key # remove1 key (pc_lru c)\<rparr>)"

definition queue_load :: "PleLayout \<Rightarrow> u32 \<Rightarrow> u64 \<Rightarrow> u64 \<Rightarrow> (batch, exn, nat) M" where
  "queue_load layout file_index page_offset key b =
     (case ba_load_by_key b key of
        Some index \<Rightarrow> (Inr index, b\<lparr>ba_cache := count_in cs_hits_update 1 (ba_cache b)\<rparr>)
      | None \<Rightarrow>
          let b = b\<lparr>ba_cache := count_in cs_misses_update 1 (ba_cache b)\<rparr> in
          (case ple_file_size layout file_index of
             Inl e \<Rightarrow> (Inl e, b)
           | Inr extent \<Rightarrow>
               let load = \<lparr> ld_key = key, ld_file_index = file_index, ld_page_offset = page_offset,
                 ld_physical_bytes = unat (min (extent - page_offset) (ucast (pc_page_bytes (ba_cache b)))) \<rparr>;
                 index = length (ba_loads b) in
               (Inr index, b\<lparr>ba_loads := ba_loads b @ [load], ba_load_by_key := (ba_load_by_key b)(key \<mapsto> index)\<rparr>)))"

text \<open>One round of the inner loop; the result is the count of bytes it dealt with.\<close>

definition scan_piece :: "PleLayout \<Rightarrow> PleReadExtent \<Rightarrow> nat \<Rightarrow> (batch, exn, nat) M" where
  "scan_piece layout extent copied b =
     (let page_bytes = pc_page_bytes (ba_cache b); absolute = ex_offset extent + word_of_nat copied;
        page_offset = page_of page_bytes absolute; in_page = unat (absolute - page_offset);
        amount = min (ex_bytes extent - copied) (unat page_bytes - in_page) in
      if ex_file_index extent \<ge> 256 then (Inl (RuntimeError ''PLE cache file index exceeds V1 key space''), b)
      else let key = page_key page_bytes (ex_file_index extent) page_offset;
             b = b\<lparr>ba_request_pages := insert key (ba_request_pages b)\<rparr> in
      (case map_of (pc_entries (ba_cache b)) key of
         Some page \<Rightarrow>
           (Inr amount, b\<lparr>ba_cache := touch_page key (ba_cache b),
              ba_output := blit (ex_output_offset extent + copied)
                (take amount (drop in_page (pc_memory (ba_cache b) ! page))) (ba_output b)\<rparr>)
       | None \<Rightarrow>
           (case queue_load layout (ex_file_index extent) page_offset key b of
              (Inl e, b) \<Rightarrow> (Inl e, b)
            | (Inr index, b) \<Rightarrow>
                (Inr amount, b\<lparr>ba_pending := ba_pending b @
                   [\<lparr> cp_load = index, cp_in_page = in_page, cp_output_offset = ex_output_offset extent + copied,
                      cp_bytes = amount \<rparr>]\<rparr>))))"

text \<open>Every round deals with at least one byte, so the bytes of the extent are fuel enough.\<close>

fun scan_extent :: "nat \<Rightarrow> PleLayout \<Rightarrow> PleReadExtent \<Rightarrow> nat \<Rightarrow> (batch, exn, unit) M" where
  "scan_extent 0 layout extent copied b = (if copied < ex_bytes extent then Inl Diverges else Inr (), b)"
| "scan_extent (Suc fuel) layout extent copied b =
     (if copied < ex_bytes extent
      then (case scan_piece layout extent copied b of
              (Inl e, b) \<Rightarrow> (Inl e, b)
            | (Inr amount, b) \<Rightarrow> scan_extent fuel layout extent (copied + amount) b)
      else (Inr (), b))"

definition scan_batch :: "PleLayout \<Rightarrow> PleReadExtent list \<Rightarrow> (batch, exn, unit) M" where
  "scan_batch layout = mapM_list (\<lambda>extent. scan_extent (ex_bytes extent) layout extent 0)"

section \<open>Loading the missing pages\<close>

definition on_cache :: "(page_cache \<Rightarrow> page_cache) \<Rightarrow> PleStore \<Rightarrow> PleStore" where
  "on_cache f st = st\<lparr>st_cache := map_option f (st_cache st)\<rparr>"

definition pad_page :: "nat \<Rightarrow> u8 list \<Rightarrow> u8 list" where
  "pad_page page_bytes bytes = bytes @ replicate (page_bytes - length bytes) 0"

definition load_buffered :: "nat \<Rightarrow> page_load \<Rightarrow> (PleStore, exn, u8 list) M" where
  "load_buffered page_bytes load st =
     (let st = on_cache (note_queue_depth 1 \<circ> count_in cs_read_batches_update 1) st in
      case pread_exact ''PLE page read failed: '' (ld_file_index load) (ld_page_offset load) (ld_physical_bytes load) st of
        (Inl e, st) \<Rightarrow> (Inl e, st)
      | (Inr bytes, st) \<Rightarrow>
          (Inr (pad_page page_bytes bytes), on_cache (count_in cs_physical_read_bytes_update (word_of_nat (ld_physical_bytes load))) st))"

fun load_all_buffered :: "nat \<Rightarrow> page_load list \<Rightarrow> (PleStore, exn, u8 list list) M" where
  "load_all_buffered page_bytes [] st = (Inr [], st)"
| "load_all_buffered page_bytes (load # loads) st =
     (case load_buffered page_bytes load st of
        (Inl e, st) \<Rightarrow> (Inl e, st)
      | (Inr page, st) \<Rightarrow>
          (case load_all_buffered page_bytes loads st of
             (Inl e, st) \<Rightarrow> (Inl e, st)
           | (Inr pages, st) \<Rightarrow> (Inr (page # pages), st)))"

definition direct_request :: "PleStore \<Rightarrow> page_load \<Rightarrow> exn + ReadRequest" where
  "direct_request st load =
     (case find (\<lambda>f. of_index f = ld_file_index load) (st_files st) of
        None \<Rightarrow> Inl (RuntimeError ''PLE direct file descriptor is unavailable'')
      | Some f \<Rightarrow>
          if of_direct f then Inr \<lparr> rr_data = of_data f, rr_offset = ld_page_offset load, rr_expected_bytes = ld_physical_bytes load \<rparr>
          else Inl (RuntimeError ''PLE direct file descriptor is unavailable''))"

definition load_all_direct :: "uring \<Rightarrow> page_load list \<Rightarrow> (PleStore, exn, u8 list list) M" where
  "load_all_direct u loads st =
     (let st = on_cache (note_queue_depth (word_of_nat (min (length loads) (ur_queue_depth u))) \<circ> count_in cs_read_batches_update 1) st in
      case mapE (direct_request st) loads of
        Inl e \<Rightarrow> (Inl e, st)
      | Inr requests \<Rightarrow>
          (case uring_read requests u of
             (Inl e, u) \<Rightarrow> (Inl e, st\<lparr>st_io_uring := Some u\<rparr>)
           | (Inr (pages, physical), u) \<Rightarrow>
               (Inr pages, on_cache (count_in cs_io_uring_completions_update (word_of_nat (length requests)) \<circ>
                  count_in cs_io_uring_submissions_update (word_of_nat (length requests)) \<circ>
                  count_in cs_direct_read_bytes_update physical \<circ> count_in cs_physical_read_bytes_update physical)
                  (st\<lparr>st_io_uring := Some u\<rparr>))))"

definition note_latency :: "u64 \<Rightarrow> page_cache \<Rightarrow> page_cache" where
  "note_latency latency c = c\<lparr>pc_read_latencies :=
     (if length (pc_read_latencies c) = 4096 then tl (pc_read_latencies c) else pc_read_latencies c) @ [latency]\<rparr>"

definition load_pages :: "nat \<Rightarrow> page_load list \<Rightarrow> (PleStore, exn, u8 list list) M" where
  "load_pages page_bytes loads st =
     (case (case st_io_uring st of
              Some u \<Rightarrow> load_all_direct u loads st
            | None \<Rightarrow> load_all_buffered page_bytes loads st) of
        (Inl e, st) \<Rightarrow> (Inl e, on_cache (count_in cs_read_errors_update 1) st)
      | (Inr pages, st) \<Rightarrow>
          (Inr pages, on_cache (note_latency (case st_clock st of [] \<Rightarrow> 0 | t # _ \<Rightarrow> t) \<circ>
             count_in cs_read_operations_update (word_of_nat (length loads))) (st\<lparr>st_clock := tl (st_clock st)\<rparr>)))"

fun copy_pending :: "u8 list list \<Rightarrow> pending_copy list \<Rightarrow> u8 list \<Rightarrow> u8 list" where
  "copy_pending pages [] out = out"
| "copy_pending pages (c # cs) out =
     copy_pending pages cs (blit (cp_output_offset c) (take (cp_bytes c) (drop (cp_in_page c) (pages ! cp_load c))) out)"

definition insert_page :: "u64 \<Rightarrow> u8 list \<Rightarrow> (page_cache, exn, unit) M" where
  "insert_page key bytes c =
     (case acquire_page c of
        (Inl e, c) \<Rightarrow> (Inl e, c)
      | (Inr page, c) \<Rightarrow>
          (Inr (), c\<lparr>pc_memory := (pc_memory c)[page := bytes], pc_lru := key # pc_lru c,
             pc_entries := (if map_of (pc_entries c) key = None then (key, page) # pc_entries c else pc_entries c)\<rparr>))"

fun insert_pages :: "(u64 \<times> u8 list) list \<Rightarrow> (page_cache, exn, unit) M" where
  "insert_pages [] c = (Inr (), c)"
| "insert_pages ((key, bytes) # pages) c =
     (case insert_page key bytes c of
        (Inl e, c) \<Rightarrow> (Inl e, c)
      | (Inr _, c) \<Rightarrow> insert_pages pages c)"

section \<open>Reading extents\<close>

definition extent_ok :: "PleLayout \<Rightarrow> nat \<Rightarrow> PleReadExtent \<Rightarrow> exn + unit" where
  "extent_ok layout output_bytes extent =
     bindE (guardE (\<not> (ex_bytes extent = 0 \<or> ex_output_offset extent > output_bytes \<or> ex_bytes extent > output_bytes - ex_output_offset extent))
       (InvalidArgument ''PLE read extent is invalid'')) (\<lambda>_.
     bindE (ple_file_size layout (ex_file_index extent)) (\<lambda>extent_bytes.
     guardE (\<not> (ex_offset extent > extent_bytes \<or> ex_bytes extent > unat (extent_bytes - ex_offset extent)))
       (InvalidArgument ''PLE read extent is invalid'')))"

fun read_uncached :: "PleReadExtent list \<Rightarrow> u8 list \<Rightarrow> (PleStore, exn, u8 list) M" where
  "read_uncached [] out st = (Inr out, st)"
| "read_uncached (extent # extents) out st =
     (case pread_exact ''PLE read failed: '' (ex_file_index extent) (ex_offset extent) (ex_bytes extent) st of
        (Inl e, st) \<Rightarrow> (Inl e, st)
      | (Inr bytes, st) \<Rightarrow> read_uncached extents (blit (ex_output_offset extent) bytes out) st)"

definition read_cached :: "page_cache \<Rightarrow> PleReadExtent list \<Rightarrow> u8 list \<Rightarrow> (PleStore, exn, u8 list) M" where
  "read_cached c extents out st =
     (let b = \<lparr> ba_cache = c, ba_loads = [], ba_pending = [], ba_load_by_key = Map.empty, ba_request_pages = {}, ba_output = out \<rparr> in
      case scan_batch (st_layout st) extents b of
        (Inl e, b) \<Rightarrow> (Inl e, st\<lparr>st_cache := Some (ba_cache b)\<rparr>)
      | (Inr _, b) \<Rightarrow>
          let st = st\<lparr>st_cache := Some (count_in cs_unique_page_requests_update (word_of_nat (card (ba_request_pages b))) (ba_cache b))\<rparr>;
            page_bytes = unat (pc_page_bytes c) in
          if ba_loads b = [] then (Inr (ba_output b), st)
          else if length (ba_loads b) > 18446744073709551615 div page_bytes
          then (Inl (RuntimeError ''PLE page-read batch size overflows''), st)
          else (case load_pages page_bytes (ba_loads b) st of
              (Inl e, st) \<Rightarrow> (Inl e, st)
            | (Inr pages, st) \<Rightarrow>
                (case insert_pages (zip (map ld_key (ba_loads b)) pages) (the (st_cache st)) of
                   (Inl e, c) \<Rightarrow> (Inl e, st\<lparr>st_cache := Some c\<rparr>)
                 | (Inr _, c) \<Rightarrow> (Inr (copy_pending pages (ba_pending b) (ba_output b)), st\<lparr>st_cache := Some c\<rparr>))))"

text \<open>\<open>out\<close> is the output buffer; the result is its contents after the call.\<close>

definition read_extents :: "PleReadExtent list \<Rightarrow> u8 list \<Rightarrow> (PleStore, exn, u8 list) M" where
  "read_extents extents out st =
     (case mapE (extent_ok (st_layout st) (length out)) extents of
        Inl e \<Rightarrow> (Inl e, st)
      | Inr _ \<Rightarrow>
          if extents = [] \<and> out \<noteq> [] then (Inl (InvalidArgument ''PLE read output is invalid''), st)
          else (case st_cache st of
                  None \<Rightarrow> read_uncached extents out st
                | Some c \<Rightarrow> read_cached c extents out st))"

section \<open>Reading rows\<close>

definition row_extent_at :: "PleLayout \<Rightarrow> nat \<Rightarrow> u64 \<Rightarrow> exn + PleReadExtent" where
  "row_extent_at layout index row =
     bindE (find_part layout row) (\<lambda>part.
     Inr \<lparr> ex_file_index = pp_file_index part, ex_offset = row_offset layout part row,
       ex_output_offset = index * unat (pl_row_stride_bytes layout), ex_bytes = unat (pl_row_stride_bytes layout) \<rparr>)"

definition read_row :: "u64 \<Rightarrow> (PleStore, exn, u8 list) M" where
  "read_row row st =
     (case row_extent_at (st_layout st) 0 row of
        Inl e \<Rightarrow> (Inl e, st)
      | Inr extent \<Rightarrow> read_extents [extent] (replicate (unat (pl_row_stride_bytes (st_layout st))) 0) st)"

definition read_rows_into :: "u64 list \<Rightarrow> u8 list \<Rightarrow> (PleStore, exn, u8 list) M" where
  "read_rows_into rows out st =
     (let layout = st_layout st; stride = unat (pl_row_stride_bytes layout) in
      if length rows > 18446744073709551615 div stride then (Inl (RuntimeError ''PLE row batch byte size overflows''), st)
      else if length out \<noteq> length rows * stride then (Inl (InvalidArgument ''PLE output extent differs from row batch''), st)
      else (case mapE (\<lambda>(index, row). row_extent_at layout index row) (zip [0 ..< length rows] rows) of
              Inl e \<Rightarrow> (Inl e, st)
            | Inr extents \<Rightarrow>
                read_extents extents out (on_cache (count_in cs_useful_bytes_update (word_of_nat (length rows * stride)) \<circ>
                  count_in cs_requested_rows_update (word_of_nat (length rows))) st)))"

definition read_rows :: "u64 list \<Rightarrow> (PleStore, exn, u8 list) M" where
  "read_rows rows st =
     (let stride = unat (pl_row_stride_bytes (st_layout st)) in
      if length rows > 18446744073709551615 div stride then (Inl (RuntimeError ''PLE row batch byte size overflows''), st)
      else read_rows_into rows (replicate (length rows * stride) 0) st)"

definition row_scale :: "PleStore \<Rightarrow> u64 \<Rightarrow> exn + u16" where
  "row_scale st row =
     bindE (find_part (st_layout st) row) (\<lambda>part.
     Inr (st_scale_parts st ! unat (pp_logical_part part) ! unat (row - pp_global_row_start part)))"

definition read_row_scales_into :: "u64 list \<Rightarrow> nat \<Rightarrow> PleStore \<Rightarrow> exn + u16 list" where
  "read_row_scales_into rows output_scales st =
     bindE (guardE (output_scales = length rows) (InvalidArgument ''PLE scale output extent differs'')) (\<lambda>_.
     bindE (guardE (\<not> (pl_storage_dtype (st_layout st) \<noteq> Fp8E4M3 \<or> length (st_scale_parts st) \<noteq> length (pl_parts (st_layout st))))
       (LogicError ''PLE row scales are unavailable'')) (\<lambda>_.
     mapE (row_scale st) rows))"

section \<open>Statistics\<close>

definition latency_percentile :: "u64 list \<Rightarrow> nat \<Rightarrow> u64" where
  "latency_percentile vs percent = vs ! ((length vs * percent + 99) div 100 - 1)"

definition cache_stats :: "PleStore \<Rightarrow> PleCacheStats" where
  "cache_stats st =
     (case st_cache st of
        None \<Rightarrow> zero_cache_stats\<lparr>cs_scale_resident_bytes := st_scale_resident_bytes st\<rparr>
      | Some c \<Rightarrow>
          let stats = (pc_stats c)\<lparr>cs_resident_bytes := word_of_nat (length (pc_entries c)) * ucast (pc_page_bytes c),
                cs_scale_resident_bytes := st_scale_resident_bytes st\<rparr>; vs = sort (pc_read_latencies c) in
          if pc_read_latencies c = [] then stats
          else stats\<lparr>cs_read_latency_p50_ns := latency_percentile vs 50, cs_read_latency_p95_ns := latency_percentile vs 95,
            cs_read_latency_p99_ns := latency_percentile vs 99\<rparr>)"

section \<open>Opening\<close>

text \<open>The file system: the contents of the files that can be opened, those that can be opened a second time for
  direct reads, and the ring, if it can be set up.\<close>

record ple_system =
  sy_files :: "string \<rightharpoonup> u8 list"
  sy_direct :: "string \<Rightarrow> bool"
  sy_uring :: "uring option"
  sy_io :: "io_event list"
  sy_errno :: string
  sy_clock :: "u64 list"

definition open_file :: "ple_system \<Rightarrow> PleFile \<Rightarrow> exn + OpenFile" where
  "open_file sys f =
     (case sy_files sys (pf_path f) of
        None \<Rightarrow> Inl (RuntimeError (''cannot open PLE file '' @ pf_path f @ '': '' @ sy_errno sys))
      | Some data \<Rightarrow> Inr \<lparr> of_index = pf_index f, of_data = data, of_direct = False \<rparr>)"

fun u16_list :: "u8 list \<Rightarrow> u16 list" where
  "u16_list (a # b # bs) = ucast (le_word [a, b]) # u16_list bs"
| "u16_list _ = []"

text \<open>The row scales of one part, at its place in the table of the parts.\<close>

definition read_scales :: "PlePart \<Rightarrow> (PleStore, exn, unit) M" where
  "read_scales part st =
     (let st = st\<lparr>st_scale_resident_bytes := st_scale_resident_bytes st + pp_rows part * 2\<rparr> in
      case pread_exact ''PLE row-scale read failed: '' (pp_scale_file_index part) (pp_scale_file_offset part) (unat (pp_scale_bytes part)) st of
        (Inl e, st) \<Rightarrow> (Inl e, st)
      | (Inr bytes, st) \<Rightarrow>
          (Inr (), st\<lparr>st_scale_parts := (st_scale_parts st)[unat (pp_logical_part part) := u16_list bytes]\<rparr>))"

definition open_cache :: "PleStoreOptions \<Rightarrow> exn + page_cache option" where
  "open_cache options =
     (if so_cache_bytes options = 0 then Inr None
      else bindE (guardE (\<not> (so_cache_page_bytes options = 0 \<or>
          so_cache_page_bytes options AND (so_cache_page_bytes options - 1) \<noteq> 0 \<or>
          so_cache_bytes options < ucast (so_cache_page_bytes options)))
        (InvalidArgument ''PLE cache page/capacity is invalid'')) (\<lambda>_.
      Inr (Some (new_cache (so_cache_bytes options) (so_cache_page_bytes options)))))"

text \<open>The ring needs a page cache of 4 KiB pages and a direct descriptor for every file; only the direct mode
  insists on it.\<close>

definition open_direct :: "ple_system \<Rightarrow> PleStoreOptions \<Rightarrow> PleStore \<Rightarrow> exn + PleStore" where
  "open_direct sys options st =
     (let candidate = so_io_mode options \<noteq> IoBuffered \<and> (case st_cache st of None \<Rightarrow> False | Some c \<Rightarrow> pc_page_bytes c = 4096) in
      bindE (guardE (so_io_mode options = IoUringDirect \<longrightarrow> candidate)
        (InvalidArgument ''direct PLE I/O requires a nonzero 4 KiB page cache'')) (\<lambda>_.
      if \<not> candidate then Inr st
      else (case sy_uring sys of
          Some u \<Rightarrow>
            if list_all (\<lambda>f. sy_direct sys (pf_path f)) (pl_files (st_layout st))
            then Inr (on_cache (\<lambda>c. c\<lparr>pc_stats := (pc_stats c)\<lparr>cs_io_uring_enabled := 1, cs_direct_io_enabled := 1\<rparr>\<rparr>)
              (st\<lparr>st_files := map (\<lambda>f. f\<lparr>of_direct := True\<rparr>) (st_files st),
                 st_io_uring := Some (u\<lparr>ur_queue_depth := unat (so_queue_depth options), ur_page_bytes := 4096\<rparr>)\<rparr>))
            else if so_io_mode options = IoUringDirect
            then Inl (RuntimeError (''open PLE O_DIRECT file failed: '' @ sy_errno sys)) else Inr st
        | None \<Rightarrow>
            if so_io_mode options = IoUringDirect
            then Inl (RuntimeError (''io_uring_setup failed: '' @ sy_errno sys)) else Inr st)))"

definition open_store :: "ple_system \<Rightarrow> PleLayout \<Rightarrow> PleStoreOptions \<Rightarrow> exn + PleStore" where
  "open_store sys layout options =
     bindE (guardE (\<not> (so_queue_depth options = 0 \<or> so_queue_depth options > 4096))
       (InvalidArgument ''PLE I/O queue depth is invalid'')) (\<lambda>_.
     bindE (open_cache options) (\<lambda>c.
     bindE (mapE (open_file sys) (pl_files layout)) (\<lambda>files.
     let st = \<lparr> st_layout = layout, st_files = files, st_scale_parts = [], st_cache = c, st_io_uring = None,
       st_scale_resident_bytes = 0, st_io = sy_io sys, st_errno = sy_errno sys, st_clock = sy_clock sys \<rparr> in
     bindE (if pl_storage_dtype layout = Fp8E4M3
        then (case mapM_list read_scales (pl_parts layout) (st\<lparr>st_scale_parts := replicate (length (pl_parts layout)) []\<rparr>) of
                (Inl e, _) \<Rightarrow> Inl e
              | (Inr _, st) \<Rightarrow> Inr st)
        else Inr st) (open_direct sys options))))"

end
