(* ===== verification/PleReads.thy ===== *)
theory PleReads
  imports PleStore
begin

text \<open>
  What reading the n-gram tables returns: the page pool and the LRU list stay consistent, every cached
  page holds the bytes of its file, and a batch of rows, however it is read, is the rows of the files.
\<close>

section \<open>Pages\<close>

lemma and_not_eq_diff: "x AND NOT y = x - (x AND y)" for x y :: u64
  by (metis (no_types, lifting) bit.conj_disj_distrib bit.de_Morgan_conj disjunctive_diff_eq_and_not word_and_not
      word_ao_absorbs(8) word_bw_comms(1))

lemma power_of_two:
  fixes p :: u32
  assumes "p \<noteq> 0" "p AND (p - 1) = 0"
  shows "\<exists>k < 32. unat p = 2 ^ k"
proof -
  obtain k where k: "2 ^ k \<le> unat p" "unat p < 2 ^ (k + 1)" using ex_power_ivl1 [of 2 "unat p"] assms(1) by (auto simp: unat_gt_0 Suc_le_eq)
  have k32: "k < 32"
  proof (rule ccontr)
    assume "\<not> k < 32"
    then have "(2 :: nat) ^ 32 \<le> 2 ^ k" by (intro power_increasing) simp_all
    then show False using k(1) unat_u32_lt [of p] by simp
  qed
  have "unat p = 2 ^ k"
  proof (rule ccontr)
    assume "unat p \<noteq> 2 ^ k"
    then have r: "2 ^ k \<le> unat p - 1" "unat p - 1 < 2 ^ (k + 1)" using k by simp_all
    have odd: "bit n k" if "2 ^ k \<le> n" "n < 2 ^ (k + 1)" for n :: nat
    proof -
      have "n div 2 ^ k = 1" using that by (intro div_nat_eqI) simp_all
      then show ?thesis by (simp add: bit_iff_odd)
    qed
    have "unat (p - 1) = unat p - 1" using assms(1) by (simp add: unat_minus_one)
    then have "bit (unat p) k" "bit (unat (p - 1)) k" using odd [OF k] odd [OF r] by simp_all
    then have "bit (p AND (p - 1)) k" by (simp add: bit_simps)
    then show False using assms(2) by simp
  qed
  then show ?thesis using k32 by blast
qed

lemma page_of_facts:
  assumes "unat p = 2 ^ k" "k < 32"
  shows "unat (page_of p a) = unat a - unat a mod unat p" "unat (a - page_of p a) = unat a mod unat p"
proof -
  have "word_of_nat (unat p) = (word_of_nat (2 ^ k) :: u32)" by (simp only: assms(1))
  then have p: "p = 2 ^ k" by simp
  have "(ucast (p - 1) :: u64) = mask k"
    using assms(2) by (intro bit_word_eqI) (auto simp: p bit_simps simp flip: mask_eq_exp_minus_1)
  then have o: "page_of p a = a - take_bit k a" by (simp add: page_of_def and_not_eq_diff take_bit_eq_mask)
  have t: "unat (take_bit k a) = unat a mod unat p" by (simp only: unsigned_take_bit_eq) (simp only: take_bit_nat_def assms(1))
  have le: "take_bit k a \<le> a" by (simp add: word_le_nat_alt t)
  show "unat (page_of p a) = unat a - unat a mod unat p" by (simp add: o unat_u64_sub [OF le] t)
  show "unat (a - page_of p a) = unat a mod unat p" by (simp add: o t)
qed

lemma page_key_inj:
  assumes "page_key p f a = page_key p g b" "f < 256" "g < 256" "unat a div unat p < 2 ^ 56" "unat b div unat p < 2 ^ 56"
    "unat p dvd unat a" "unat p dvd unat b"
  shows "f = g \<and> a = b"
proof -
  have n: "take_bit 56 (c div ucast p) = c div ucast p" if "unat c div unat p < 2 ^ 56" for c :: u64
    using that by (simp add: word_unat_eq_iff unsigned_take_bit_eq unat_div take_bit_nat_eq_self)
  have h: "take_bit 8 g = g" if "g < 256" for g :: u32
    using that by (simp add: word_unat_eq_iff unsigned_take_bit_eq take_bit_nat_eq_self word_less_nat_alt)
  have low: "take_bit 56 (page_key p f c) = c div ucast p" if "unat c div unat p < 2 ^ 56" for f c
    using n [OF that] by (simp add: page_key_def take_bit_push_bit)
  have high: "drop_bit 56 (page_key p f c) = ucast f" if "unat c div unat p < 2 ^ 56" "f < 256" for f c
  proof -
    have "drop_bit 56 (c div ucast p) = 0" by (subst n [OF that(1), symmetric]) (simp add: drop_bit_take_bit)
    moreover have "drop_bit 56 (push_bit 56 (ucast f :: u64)) = ucast f"
      by (subst (1 2) h [OF that(2), symmetric], intro bit_word_eqI) (auto simp: bit_simps)
    ultimately show ?thesis by (simp add: page_key_def)
  qed
  have "(ucast f :: u64) = ucast g" using high [OF assms(4,2)] high [OF assms(5,3)] assms(1) by simp
  then have "f = g" using ucast_back by metis
  moreover have "a div ucast p = b div ucast p" using low [OF assms(4)] low [OF assms(5)] assms(1) by metis
  then have "unat (a div ucast p) = unat (b div ucast p)" by simp
  then have "unat a div unat p = unat b div unat p" by (simp add: unat_div)
  then have "unat a = unat b" using assms(6,7) by (metis dvd_div_eq_cancel)
  ultimately show ?thesis by (simp add: word_unat_eq_iff)
qed

section \<open>The page pool\<close>

definition pool_ok :: "page_cache \<Rightarrow> bool" where
  "pool_ok c \<longleftrightarrow> distinct (map fst (pc_entries c)) \<and> distinct (pc_lru c) \<and> set (pc_lru c) = fst ` set (pc_entries c) \<and>
     distinct (map snd (pc_entries c) @ pc_free_pages c) \<and>
     set (map snd (pc_entries c) @ pc_free_pages c) = {..< length (pc_memory c)} \<and>
     length (pc_memory c) \<le> pc_max_pages c \<and> 1 \<le> pc_max_pages c \<and>
     pc_max_pages c * unat (pc_page_bytes c) \<le> unat (pc_capacity_bytes c) \<and>
     (\<forall>m \<in> set (pc_memory c). length m = unat (pc_page_bytes c))"

definition contents :: "page_cache \<Rightarrow> (u64 \<times> u8 list) set" where
  "contents c = (\<lambda>(key, page). (key, pc_memory c ! page)) ` set (pc_entries c)"

definition same_pages :: "page_cache \<Rightarrow> page_cache \<Rightarrow> bool" where
  "same_pages c c' \<longleftrightarrow> pc_page_bytes c' = pc_page_bytes c \<and> pc_max_pages c' = pc_max_pages c \<and>
     pc_capacity_bytes c' = pc_capacity_bytes c"

lemma contents_keys: "fst ` contents c = fst ` set (pc_entries c)"
  by (auto simp: contents_def image_iff) force+

lemma grow_pages_ok:
  assumes "pool_ok c"
  shows "pool_ok (grow_pages c) \<and> contents (grow_pages c) = contents c \<and> same_pages c (grow_pages c) \<and>
    (pc_free_pages (grow_pages c) = [] \<longrightarrow> pc_lru (grow_pages c) \<noteq> [])"
proof (cases "pc_free_pages c = [] \<and> length (pc_memory c) < pc_max_pages c")
  case True
  define n where "n = min (max 1 (67108864 div unat (pc_page_bytes c))) (pc_max_pages c - length (pc_memory c))"
  let ?m = "length (pc_memory c)"
  have g: "grow_pages c = c\<lparr>pc_free_pages := rev [?m ..< ?m + n], pc_memory := pc_memory c @ replicate n (replicate (unat (pc_page_bytes c)) 0)\<rparr>"
    using True by (simp add: grow_pages_def n_def Let_def)
  have n: "1 \<le> n" "?m + n \<le> pc_max_pages c" using True by (auto simp: n_def)
  have e: "set (map snd (pc_entries c)) = {..< ?m}" "distinct (map snd (pc_entries c))" using assms True by (auto simp: pool_ok_def)
  then have "contents (grow_pages c) = contents c"
    by (auto simp: contents_def g nth_append image_iff split: prod.splits) force+
  moreover have "pool_ok (grow_pages c)"
    using assms True n e by (auto simp: pool_ok_def g)
  ultimately show ?thesis using n(1) by (simp add: same_pages_def g)
next
  case False
  have "pc_lru c \<noteq> []" if "pc_free_pages c = []"
  proof
    assume "pc_lru c = []"
    then have "{..< length (pc_memory c)} = {}" using assms that by (auto simp: pool_ok_def)
    then have "length (pc_memory c) = 0" by (simp only: lessThan_empty_iff)
    then show False using False that assms by (auto simp: pool_ok_def)
  qed
  moreover have "grow_pages c = c" using False by (auto simp: grow_pages_def)
  ultimately show ?thesis using assms by (simp add: same_pages_def)
qed

text \<open>A page that is acquired is in use nowhere else.\<close>

lemma acquire_page_ok:
  assumes "pool_ok c"
  shows "\<exists>page c'. acquire_page c = (Inr page, c') \<and> same_pages c c' \<and> contents c' \<subseteq> contents c \<and>
    page < length (pc_memory c') \<and> length (pc_memory c') \<le> pc_max_pages c' \<and> 1 \<le> pc_max_pages c' \<and>
    (\<forall>m \<in> set (pc_memory c'). length m = unat (pc_page_bytes c')) \<and>
    distinct (map fst (pc_entries c')) \<and> distinct (pc_lru c') \<and> set (pc_lru c') = fst ` set (pc_entries c') \<and>
    distinct (page # map snd (pc_entries c') @ pc_free_pages c') \<and>
    insert page (set (map snd (pc_entries c') @ pc_free_pages c')) = {..< length (pc_memory c')}"
proof -
  define g where "g = grow_pages c"
  have g: "pool_ok g" "contents g = contents c" "same_pages c g" "pc_free_pages g = [] \<longrightarrow> pc_lru g \<noteq> []"
    using grow_pages_ok [OF assms] by (simp_all add: g_def)
  show ?thesis
  proof (cases "pc_free_pages g")
    case (Cons page pages)
    then have "acquire_page c = (Inr page, g\<lparr>pc_free_pages := pages\<rparr>)" by (simp add: acquire_page_def g_def)
    moreover have "contents (g\<lparr>pc_free_pages := pages\<rparr>) = contents c" using g(2) by (simp add: contents_def)
    ultimately show ?thesis using g(1,3) Cons by (auto simp: pool_ok_def same_pages_def)
  next
    case Nil
    define v where "v = last (pc_lru g)"
    have lru: "pc_lru g = butlast (pc_lru g) @ [v]" using g(4) Nil by (simp add: v_def)
    have "v \<in> set (pc_lru g)" by (subst lru) simp
    then have "v \<in> fst ` set (pc_entries g)" using g(1) by (simp add: pool_ok_def)
    then obtain page where page: "(v, page) \<in> set (pc_entries g)" by auto
    have m: "map_of (pc_entries g) v = Some page" using g(1) page by (simp add: pool_ok_def)
    define es where "es = filter (\<lambda>e. fst e \<noteq> v) (pc_entries g)"
    define c' where "c' = count_in cs_evictions_update 1 (g\<lparr>pc_lru := butlast (pc_lru g), pc_entries := es\<rparr>)"
    have a: "acquire_page c = (Inr page, c')"
      using Nil g(4) m by (simp add: acquire_page_def g_def c'_def es_def v_def Let_def)
    have c': "pc_entries c' = es" "pc_lru c' = butlast (pc_lru g)" "pc_memory c' = pc_memory g" "pc_free_pages c' = []"
      "pc_page_bytes c' = pc_page_bytes g" "pc_max_pages c' = pc_max_pages g" "pc_capacity_bytes c' = pc_capacity_bytes g" using Nil by (simp_all add: c'_def count_in_def)
    have d: "distinct (map fst (pc_entries g))" "distinct (map snd (pc_entries g))" "distinct (pc_lru g)"
      "set (pc_lru g) = fst ` set (pc_entries g)" "snd ` set (pc_entries g) = {..< length (pc_memory g)}"
      using g(1) Nil by (simp_all add: pool_ok_def)
    have es: "set es = set (pc_entries g) - {(v, page)}"
      using page m by (auto simp: es_def) (metis d(1) eq_key_imp_eq_value)
    have fe: "fst ` set es = fst ` set (pc_entries g) - {v}" by (force simp: es_def)
    have se: "snd ` set es = snd ` set (pc_entries g) - {page}"
    proof -
      have "inj_on snd (set (pc_entries g))" using d(2) by (simp add: distinct_map)
      then show ?thesis unfolding es using page by (subst inj_on_image_set_diff [where C = "set (pc_entries g)"]) auto
    qed
    have bl: "distinct (ks @ [k]) \<Longrightarrow> distinct ks \<and> set ks = set (ks @ [k]) - {k}" for ks and k :: u64 by auto
    have "distinct (butlast (pc_lru g))" "set (butlast (pc_lru g)) = set (pc_lru g) - {v}"
      using bl [of "butlast (pc_lru g)" v] d(3) by (simp_all only: flip: lru)
    then have "set (pc_lru c') = fst ` set (pc_entries c')" "distinct (pc_lru c')" by (simp_all add: c' fe d(4))
    moreover have "contents c' \<subseteq> contents g" unfolding contents_def c' es by (intro image_mono) blast
    then have "contents c' \<subseteq> contents c" by (simp only: g(2))
    moreover have "page \<in> snd ` set (pc_entries g)" using page by force
    moreover have "distinct (map fst es)" "distinct (map snd es)" using d(1,2) by (simp_all add: es_def distinct_map_filter)
    ultimately show ?thesis
      using g(1,3) d(5) by (auto simp: a c' se pool_ok_def same_pages_def)
  qed
qed

lemma insert_page_ok:
  assumes "pool_ok c" "key \<notin> fst ` set (pc_entries c)" "length bytes = unat (pc_page_bytes c)"
  shows "\<exists>c'. insert_page key bytes c = (Inr (), c') \<and> pool_ok c' \<and> same_pages c c' \<and> contents c' \<subseteq> insert (key, bytes) (contents c)"
proof -
  obtain page c1 where a: "acquire_page c = (Inr page, c1)" "same_pages c c1" "contents c1 \<subseteq> contents c" "page < length (pc_memory c1)"
    "length (pc_memory c1) \<le> pc_max_pages c1" "1 \<le> pc_max_pages c1" "\<forall>m \<in> set (pc_memory c1). length m = unat (pc_page_bytes c1)"
    "distinct (map fst (pc_entries c1))" "distinct (pc_lru c1)" "set (pc_lru c1) = fst ` set (pc_entries c1)"
    "distinct (page # map snd (pc_entries c1) @ pc_free_pages c1)"
    "insert page (set (map snd (pc_entries c1) @ pc_free_pages c1)) = {..< length (pc_memory c1)}"
    using acquire_page_ok [OF assms(1)] by blast
  have k: "key \<notin> fst ` set (pc_entries c1)" using assms(2) a(3) contents_keys [of c1] contents_keys [of c] by blast
  then have none: "map_of (pc_entries c1) key = None" by (simp add: map_of_eq_None_iff)
  define c' where "c' = c1\<lparr>pc_memory := (pc_memory c1)[page := bytes], pc_lru := key # pc_lru c1, pc_entries := (key, page) # pc_entries c1\<rparr>"
  have r: "insert_page key bytes c = (Inr (), c')" by (simp add: insert_page_def a(1) none c'_def)
  have "\<forall>m \<in> set ((pc_memory c1)[page := bytes]). length m = unat (pc_page_bytes c1)"
    using a(2,7) assms(3) by (auto simp: same_pages_def dest!: set_update_subset_insert [THEN subsetD])
  moreover have "pc_max_pages c1 * unat (pc_page_bytes c1) \<le> unat (pc_capacity_bytes c1)"
    using assms(1) a(2) by (simp add: pool_ok_def same_pages_def)
  ultimately have "pool_ok c'" using a k by (auto simp: pool_ok_def c'_def)
  moreover have "contents c' \<subseteq> insert (key, bytes) (contents c)"
  proof -
    have "(k, (pc_memory c1)[page := bytes] ! q) \<in> contents c" if "(k, q) \<in> set (pc_entries c1)" for k q
    proof -
      have "q \<noteq> page" using a(11) that by force
      then show ?thesis using a(3) that by (force simp: contents_def)
    qed
    then show ?thesis using a(4) by (auto simp: contents_def c'_def)
  qed
  ultimately show ?thesis using r a(2) by (auto simp: same_pages_def c'_def)
qed

lemma insert_pages_ok:
  assumes "pool_ok c" "distinct (map fst pages)" "fst ` set pages \<inter> fst ` set (pc_entries c) = {}"
    "\<forall>p \<in> set pages. length (snd p) = unat (pc_page_bytes c)"
  shows "\<exists>c'. insert_pages pages c = (Inr (), c') \<and> pool_ok c' \<and> same_pages c c' \<and> contents c' \<subseteq> set pages \<union> contents c"
  using assms
proof (induction pages arbitrary: c)
  case (Cons p pages)
  obtain key bytes where p: "p = (key, bytes)" by force
  obtain c1 where c1: "insert_page key bytes c = (Inr (), c1)" "pool_ok c1" "same_pages c c1" "contents c1 \<subseteq> insert (key, bytes) (contents c)"
    using insert_page_ok [of c key bytes] Cons.prems p by auto
  have "fst ` contents c1 \<subseteq> insert key (fst ` contents c)" using c1(4) by force
  then have "fst ` set (pc_entries c1) \<subseteq> insert key (fst ` set (pc_entries c))" by (simp add: contents_keys)
  moreover have "key \<notin> fst ` set pages" "fst ` set pages \<inter> fst ` set (pc_entries c) = {}" using Cons.prems(2,3) p by simp_all
  ultimately have "fst ` set pages \<inter> fst ` set (pc_entries c1) = {}" by blast
  with Cons.IH [OF c1(2)] Cons.prems(2,4) c1(3) p obtain c' where
    "insert_pages pages c1 = (Inr (), c')" "pool_ok c'" "same_pages c1 c'" "contents c' \<subseteq> set pages \<union> contents c1"
    by (auto simp: same_pages_def)
  then show ?case using c1 by (auto simp: p same_pages_def)
qed (simp add: same_pages_def)

section \<open>Scanning a batch\<close>

text \<open>The files are a function \<open>B\<close> from indexes to bytes; \<open>exp\<close> gives the byte that belongs at a place of the output.\<close>

definition page_at :: "(u32 \<Rightarrow> u8 list) \<Rightarrow> nat \<Rightarrow> u32 \<Rightarrow> nat \<Rightarrow> u8 list" where
  "page_at B page_bytes f offset = pad_page page_bytes (take page_bytes (drop offset (B f)))"

definition names_page :: "(u32 \<Rightarrow> u8 list) \<Rightarrow> u32 \<Rightarrow> u64 \<Rightarrow> u32 \<Rightarrow> u64 \<Rightarrow> bool" where
  "names_page B p key f offset \<longleftrightarrow> f < 256 \<and> unat p dvd unat offset \<and> unat offset < length (B f) \<and> key = page_key p f offset"

definition contents_ok :: "(u32 \<Rightarrow> u8 list) \<Rightarrow> u32 \<Rightarrow> (u64 \<times> u8 list) set \<Rightarrow> bool" where
  "contents_ok B p C \<longleftrightarrow> (\<forall>(key, bytes) \<in> C. \<exists>f offset. names_page B p key f offset \<and> bytes = page_at B (unat p) f (unat offset))"

definition load_ok :: "(u32 \<Rightarrow> u8 list) \<Rightarrow> u32 \<Rightarrow> page_load \<Rightarrow> bool" where
  "load_ok B p l \<longleftrightarrow> names_page B p (ld_key l) (ld_file_index l) (ld_page_offset l) \<and>
     ld_physical_bytes l = min (unat p) (length (B (ld_file_index l)) - unat (ld_page_offset l))"

definition load_page :: "(u32 \<Rightarrow> u8 list) \<Rightarrow> u32 \<Rightarrow> page_load \<Rightarrow> u8 list" where
  "load_page B p l = page_at B (unat p) (ld_file_index l) (unat (ld_page_offset l))"

definition copy_ok :: "(u32 \<Rightarrow> u8 list) \<Rightarrow> u32 \<Rightarrow> page_load list \<Rightarrow> (nat \<Rightarrow> u8) \<Rightarrow> nat \<Rightarrow> pending_copy \<Rightarrow> bool" where
  "copy_ok B p loads exp n c \<longleftrightarrow> cp_load c < length loads \<and> cp_in_page c + cp_bytes c \<le> unat p \<and> cp_output_offset c + cp_bytes c \<le> n \<and>
     (\<forall>i < cp_bytes c. load_page B p (loads ! cp_load c) ! (cp_in_page c + i) = exp (cp_output_offset c + i))"

definition covers :: "pending_copy \<Rightarrow> nat \<Rightarrow> bool" where
  "covers c j \<longleftrightarrow> cp_output_offset c \<le> j \<and> j < cp_output_offset c + cp_bytes c"

definition scan_cache_ok :: "page_cache \<Rightarrow> page_cache \<Rightarrow> bool" where
  "scan_cache_ok c0 c \<longleftrightarrow> pool_ok c \<and> pc_entries c = pc_entries c0 \<and> pc_memory c = pc_memory c0 \<and> same_pages c0 c"

definition loads_ok :: "(u32 \<Rightarrow> u8 list) \<Rightarrow> page_cache \<Rightarrow> batch \<Rightarrow> bool" where
  "loads_ok B c0 b \<longleftrightarrow> list_all (load_ok B (pc_page_bytes c0)) (ba_loads b) \<and> distinct (map ld_key (ba_loads b)) \<and>
     ld_key ` set (ba_loads b) \<inter> fst ` set (pc_entries c0) = {} \<and>
     (\<forall>k i. ba_load_by_key b k = Some i \<longleftrightarrow> i < length (ba_loads b) \<and> ld_key (ba_loads b ! i) = k)"

definition batch_ok :: "(u32 \<Rightarrow> u8 list) \<Rightarrow> page_cache \<Rightarrow> (nat \<Rightarrow> u8) \<Rightarrow> nat \<Rightarrow> nat set \<Rightarrow> batch \<Rightarrow> bool" where
  "batch_ok B c0 exp n D b \<longleftrightarrow> scan_cache_ok c0 (ba_cache b) \<and> loads_ok B c0 b \<and>
     list_all (copy_ok B (pc_page_bytes c0) (ba_loads b) exp n) (ba_pending b) \<and> length (ba_output b) = n \<and>
     (\<forall>j \<in> D. j < n \<and> (ba_output b ! j = exp j \<or> (\<exists>c \<in> set (ba_pending b). covers c j)))"

definition extent_in :: "(u32 \<Rightarrow> u8 list) \<Rightarrow> (nat \<Rightarrow> u8) \<Rightarrow> nat \<Rightarrow> PleReadExtent \<Rightarrow> bool" where
  "extent_in B exp n e \<longleftrightarrow> unat (ex_offset e) + ex_bytes e \<le> length (B (ex_file_index e)) \<and> ex_output_offset e + ex_bytes e \<le> n \<and>
     (\<forall>i < ex_bytes e. exp (ex_output_offset e + i) = B (ex_file_index e) ! (unat (ex_offset e) + i))"

text \<open>What the store relies on: the table of the files is true, and page numbers leave the top byte of a key free.\<close>

definition files_true :: "PleLayout \<Rightarrow> (u32 \<Rightarrow> u8 list) \<Rightarrow> bool" where
  "files_true layout B \<longleftrightarrow> (\<forall>f extent. ple_file_size layout f = Inr extent \<longrightarrow> length (B f) = unat extent) \<and> (\<forall>f. length (B f) < 2 ^ 64)"

definition keys_fit :: "(u32 \<Rightarrow> u8 list) \<Rightarrow> u32 \<Rightarrow> bool" where
  "keys_fit B p \<longleftrightarrow> (\<forall>f. length (B f) \<le> 2 ^ 56 * unat p)"

lemma length_page_at [simp]: "length (page_at B n f offset) = n"
  by (simp add: page_at_def pad_page_def)

lemma page_at_nth:
  assumes "offset + i < length (B f)" "i < n"
  shows "page_at B n f offset ! i = B f ! (offset + i)"
proof -
  have "i < length (B f) - offset" using assms(1) by simp
  then show ?thesis using assms by (simp add: page_at_def pad_page_def nth_append)
qed

lemma blit_length [simp]: "at + length bytes \<le> length out \<Longrightarrow> length (blit at bytes out) = length out"
  by (simp add: blit_def)

lemma blit_nth:
  assumes "at + length bytes \<le> length out" "j < length out"
  shows "blit at bytes out ! j = (if at \<le> j \<and> j < at + length bytes then bytes ! (j - at) else out ! j)"
  using assms by (auto simp: blit_def nth_append)

lemma names_page_inj:
  assumes "names_page B p key f a" "names_page B p key g b" "keys_fit B p" "unat p \<noteq> 0"
  shows "f = g \<and> a = b"
proof -
  have "unat c div unat p < 2 ^ 56" if "names_page B p key h c" for h c
  proof -
    have "unat c < 2 ^ 56 * unat p" using that assms(3) unfolding names_page_def keys_fit_def by (metis order_less_le_trans)
    then show ?thesis by (simp add: less_mult_imp_div_less)
  qed
  from page_key_inj [of p f a g b] this [OF assms(1)] this [OF assms(2)] assms(1,2) show ?thesis by (simp add: names_page_def)
qed

text \<open>The piece of an extent that a round deals with lies in one page, and its bytes are those of the output.\<close>

lemma piece_facts:
  assumes e: "extent_in B exp n e" and t: "files_true layout B" and copied: "copied < ex_bytes e" and p: "unat p = 2 ^ k" "k < 32"
  defines "absolute \<equiv> ex_offset e + word_of_nat copied"
  defines "offset \<equiv> page_of p absolute"
  defines "in_page \<equiv> unat (absolute - offset)"
  defines "amount \<equiv> min (ex_bytes e - copied) (unat p - in_page)"
  shows "0 < amount \<and> copied + amount \<le> ex_bytes e \<and> in_page + amount \<le> unat p \<and> unat p dvd unat offset \<and>
    unat offset < length (B (ex_file_index e)) \<and>
    (\<forall>i < amount. page_at B (unat p) (ex_file_index e) (unat offset) ! (in_page + i) = exp (ex_output_offset e + copied + i))"
proof -
  have "unat (ex_offset e) + ex_bytes e < 2 ^ 64"
    using e t unfolding extent_in_def files_true_def by (metis order_le_less_trans)
  then have a: "unat absolute = unat (ex_offset e) + copied"
    using copied unfolding absolute_def by (subst unat_u64_add) (simp_all add: unat_of_nat take_bit_nat_eq_self)
  have o: "unat offset = unat absolute - unat absolute mod unat p" "in_page = unat absolute mod unat p"
    using page_of_facts [OF p] by (simp_all add: offset_def in_page_def)
  then have oi: "unat offset + in_page = unat absolute" "in_page < unat p" "unat p dvd unat offset"
    using p(1) by (simp_all add: dvd_minus_mod)
  have am: "0 < amount" "copied + amount \<le> ex_bytes e" "in_page + amount \<le> unat p"
    using copied oi(2) by (auto simp: amount_def)
  have len: "unat (ex_offset e) + ex_bytes e \<le> length (B (ex_file_index e))" using e by (simp add: extent_in_def)
  have "page_at B (unat p) (ex_file_index e) (unat offset) ! (in_page + i) = exp (ex_output_offset e + copied + i)" if "i < amount" for i
  proof -
    have s: "unat offset + (in_page + i) = unat (ex_offset e) + (copied + i)" using oi(1) a by simp
    have i: "copied + i < ex_bytes e" "in_page + i < unat p" using that am by simp_all
    then have "page_at B (unat p) (ex_file_index e) (unat offset) ! (in_page + i) = B (ex_file_index e) ! (unat (ex_offset e) + (copied + i))"
      using len by (subst page_at_nth) (simp_all only: s)
    then show ?thesis using e i(1) by (simp add: extent_in_def add.assoc)
  qed
  then show ?thesis using am oi(1,3) a copied len by auto
qed

lemma count_in_fields [simp]:
  "pc_entries (count_in upd n c) = pc_entries c" "pc_memory (count_in upd n c) = pc_memory c" "pc_lru (count_in upd n c) = pc_lru c"
  "pc_free_pages (count_in upd n c) = pc_free_pages c" "pc_page_bytes (count_in upd n c) = pc_page_bytes c"
  "pc_max_pages (count_in upd n c) = pc_max_pages c" "pc_capacity_bytes (count_in upd n c) = pc_capacity_bytes c"
  by (simp_all add: count_in_def)

lemma pool_ok_cong:
  assumes "pool_ok c" "pc_entries c' = pc_entries c" "pc_memory c' = pc_memory c" "pc_free_pages c' = pc_free_pages c"
    "pc_page_bytes c' = pc_page_bytes c" "pc_max_pages c' = pc_max_pages c" "pc_capacity_bytes c' = pc_capacity_bytes c"
    "distinct (pc_lru c')" "set (pc_lru c') = set (pc_lru c)"
  shows "pool_ok c'"
  using assms(1,8) unfolding pool_ok_def assms(2-7,9) by blast

lemma pool_ok_count:
  assumes "pool_ok c"
  shows "pool_ok (count_in upd n c)"
proof (rule pool_ok_cong [OF assms])
  show "distinct (pc_lru (count_in upd n c))" using assms by (simp add: pool_ok_def)
qed simp_all

lemma loads_ok_cache [simp]: "loads_ok B c0 (b\<lparr>ba_cache := c\<rparr>) = loads_ok B c0 b"
  by (simp add: loads_ok_def)

lemma scan_cache_count: "scan_cache_ok c0 c \<Longrightarrow> scan_cache_ok c0 (count_in upd n c)"
  unfolding scan_cache_ok_def same_pages_def count_in_fields using pool_ok_count by blast

lemma scan_cache_touch:
  assumes c: "scan_cache_ok c0 c" and k: "map_of (pc_entries c) key = Some page"
  shows "scan_cache_ok c0 (touch_page key c)"
proof -
  have pool: "pool_ok c" using c by (simp add: scan_cache_ok_def)
  have "key \<in> fst ` set (pc_entries c)" using map_of_SomeD [OF k] by force
  then have "key \<in> set (pc_lru c)" "distinct (pc_lru c)" using pool by (simp_all add: pool_ok_def)
  then have d: "distinct (key # remove1 key (pc_lru c))" "set (key # remove1 key (pc_lru c)) = set (pc_lru c)" by auto
  have "pool_ok (touch_page key c)" by (rule pool_ok_cong [OF pool]) (use d in \<open>simp_all add: touch_page_def\<close>)
  then show ?thesis using c by (simp add: scan_cache_ok_def same_pages_def touch_page_def)
qed

lemma queue_load_ok:
  assumes q: "queue_load layout f offset key b = (r, b')" and b: "scan_cache_ok c0 (ba_cache b)" "loads_ok B c0 b"
    and n: "names_page B (pc_page_bytes c0) key f offset" and t: "files_true layout B" and new: "key \<notin> fst ` set (pc_entries c0)"
    and fit: "keys_fit B (pc_page_bytes c0)" "unat (pc_page_bytes c0) \<noteq> 0"
  shows "scan_cache_ok c0 (ba_cache b') \<and> loads_ok B c0 b' \<and> ba_pending b' = ba_pending b \<and> ba_output b' = ba_output b \<and>
    (\<exists>extra. ba_loads b' = ba_loads b @ extra) \<and>
    (case r of
       Inl e \<Rightarrow> e \<noteq> Diverges \<and> (\<exists>e. ple_file_size layout f = Inl e)
     | Inr i \<Rightarrow> i < length (ba_loads b') \<and> load_page B (pc_page_bytes c0) (ba_loads b' ! i) = page_at B (unat (pc_page_bytes c0)) f (unat offset))"
proof (cases "ba_load_by_key b key")
  case (Some i)
  then have i: "i < length (ba_loads b)" "ld_key (ba_loads b ! i) = key" using b(2) by (auto simp: loads_ok_def)
  have "load_ok B (pc_page_bytes c0) (ba_loads b ! i)" using b(2) i(1) by (simp add: loads_ok_def list_all_length)
  then have "ld_file_index (ba_loads b ! i) = f \<and> ld_page_offset (ba_loads b ! i) = offset"
    using names_page_inj [OF _ n fit] i(2) unfolding load_ok_def by metis
  then have "load_page B (pc_page_bytes c0) (ba_loads b ! i) = page_at B (unat (pc_page_bytes c0)) f (unat offset)"
    by (simp add: load_page_def)
  then show ?thesis using q Some b i(1) by (auto simp: queue_load_def scan_cache_count)
next
  case None
  show ?thesis
  proof (cases "ple_file_size layout f")
    case (Inl e)
    moreover have "e \<noteq> Diverges" using Inl by (auto simp: ple_file_size_def split: option.splits)
    ultimately show ?thesis using q None b by (auto simp: queue_load_def scan_cache_count)
  next
    case (Inr extent)
    have len: "length (B f) = unat extent" using t Inr by (simp add: files_true_def)
    define l where "l = \<lparr> ld_key = key, ld_file_index = f, ld_page_offset = offset,
      ld_physical_bytes = unat (min (extent - offset) (ucast (pc_page_bytes (ba_cache b)))) \<rparr>"
    have b': "r = Inr (length (ba_loads b))" "b' = b\<lparr>ba_cache := count_in cs_misses_update 1 (ba_cache b), ba_loads := ba_loads b @ [l],
        ba_load_by_key := (ba_load_by_key b)(key \<mapsto> length (ba_loads b))\<rparr>"
      using q None Inr by (auto simp: queue_load_def l_def count_in_def Let_def)
    have "offset \<le> extent" using n len by (simp add: names_page_def word_le_nat_alt)
    then have "unat (extent - offset) = length (B f) - unat offset" by (simp add: unat_u64_sub len)
    then have "load_ok B (pc_page_bytes c0) l"
      using n b(1) by (simp add: load_ok_def l_def scan_cache_ok_def same_pages_def min_def word_le_nat_alt)
    moreover have fresh: "key \<notin> ld_key ` set (ba_loads b)"
      using None b(2) unfolding loads_ok_def by (metis image_iff in_set_conv_nth option.distinct(1))
    ultimately have "loads_ok B c0 b'"
      using b(2) new unfolding loads_ok_def b'(2)
      by (auto simp: l_def nth_append less_Suc_eq image_iff)
    moreover have "load_page B (pc_page_bytes c0) l = page_at B (unat (pc_page_bytes c0)) f (unat offset)"
      by (simp add: load_page_def l_def)
    ultimately show ?thesis using b(1) by (simp add: b' scan_cache_count)
  qed
qed

lemma copy_ok_more: "copy_ok B p loads exp n c \<Longrightarrow> copy_ok B p (loads @ extra) exp n c"
  by (auto simp: copy_ok_def nth_append)

text \<open>The standing assumptions of a scan.\<close>

definition scan_setting :: "(u32 \<Rightarrow> u8 list) \<Rightarrow> PleLayout \<Rightarrow> page_cache \<Rightarrow> bool" where
  "scan_setting B layout c0 \<longleftrightarrow> files_true layout B \<and> keys_fit B (pc_page_bytes c0) \<and> (\<exists>k < 32. unat (pc_page_bytes c0) = 2 ^ k) \<and>
     contents_ok B (pc_page_bytes c0) (contents c0)"

lemma scan_piece_ok:
  assumes S: "scan_setting B layout c0" and e: "extent_in B exp n e" and copied: "copied < ex_bytes e" and b: "batch_ok B c0 exp n D b"
  shows "case scan_piece layout e copied b of
      (Inl err, b') \<Rightarrow> err \<noteq> Diverges \<and> scan_cache_ok c0 (ba_cache b') \<and>
        (ex_file_index e < 256 \<longrightarrow> (\<exists>err. ple_file_size layout (ex_file_index e) = Inl err))
    | (Inr amount, b') \<Rightarrow> 0 < amount \<and> copied + amount \<le> ex_bytes e \<and>
        batch_ok B c0 exp n (D \<union> {ex_output_offset e + copied ..< ex_output_offset e + copied + amount}) b'"
proof (cases "ex_file_index e \<ge> 256")
  case True
  then show ?thesis using b by (auto simp: scan_piece_def Let_def batch_ok_def)
next
  case False
  let ?p = "pc_page_bytes c0"
  obtain k where k: "unat ?p = 2 ^ k" "k < 32" using S by (auto simp: scan_setting_def)
  have t: "files_true layout B" and fit: "keys_fit B ?p" "unat ?p \<noteq> 0" using S k by (auto simp: scan_setting_def)
  have p: "pc_page_bytes (ba_cache b) = ?p" "pc_entries (ba_cache b) = pc_entries c0" "pc_memory (ba_cache b) = pc_memory c0"
    using b by (simp_all add: batch_ok_def scan_cache_ok_def same_pages_def)
  define absolute where "absolute = ex_offset e + word_of_nat copied"
  define offset where "offset = page_of ?p absolute"
  define in_page where "in_page = unat (absolute - offset)"
  define amount where "amount = min (ex_bytes e - copied) (unat ?p - in_page)"
  define key where "key = page_key ?p (ex_file_index e) offset"
  define at where "at = ex_output_offset e + copied"
  have f: "0 < amount" "copied + amount \<le> ex_bytes e" "in_page + amount \<le> unat ?p" "unat ?p dvd unat offset"
    "unat offset < length (B (ex_file_index e))"
    "\<forall>i < amount. page_at B (unat ?p) (ex_file_index e) (unat offset) ! (in_page + i) = exp (at + i)"
    using piece_facts [OF e t copied k] unfolding absolute_def offset_def in_page_def amount_def at_def by blast+
  have name: "names_page B ?p key (ex_file_index e) offset" using f(4,5) False by (simp add: names_page_def key_def not_le)
  have at: "at + amount \<le> n" using e f(2) by (simp add: extent_in_def at_def)
  define b1 where "b1 = b\<lparr>ba_request_pages := insert key (ba_request_pages b)\<rparr>"
  have b1: "batch_ok B c0 exp n D b1" using b by (simp add: batch_ok_def loads_ok_def b1_def)
  show ?thesis
  proof (cases "map_of (pc_entries c0) key")
    case (Some page)
    define bytes where "bytes = take amount (drop in_page (pc_memory c0 ! page))"
    define b2 where "b2 = b1\<lparr>ba_cache := touch_page key (ba_cache b1), ba_output := blit at bytes (ba_output b1)\<rparr>"
    have "scan_piece layout e copied b = (Inr amount, b2)"
      using False Some p by (simp add: scan_piece_def Let_def b2_def b1_def bytes_def at_def key_def amount_def in_page_def offset_def absolute_def)
    moreover have "batch_ok B c0 exp n (D \<union> {at ..< at + amount}) b2"
    proof -
      have "(key, pc_memory c0 ! page) \<in> contents c0" using map_of_SomeD [OF Some] by (force simp: contents_def)
      then obtain g o2 where g: "names_page B ?p key g o2" "pc_memory c0 ! page = page_at B (unat ?p) g (unat o2)"
        using S by (fastforce simp: scan_setting_def contents_ok_def)
      have m: "pc_memory c0 ! page = page_at B (unat ?p) (ex_file_index e) (unat offset)"
        using names_page_inj [OF name g(1) fit] g(2) by simp
      have len: "length bytes = amount" using f(3) by (simp add: bytes_def m)
      have byte: "bytes ! i = exp (at + i)" if "i < amount" for i
        using f(3,6) that by (simp add: bytes_def m)
      have out: "length (ba_output b1) = n" using b1 by (simp add: batch_ok_def)
      have "blit at bytes (ba_output b1) ! j = exp j \<or> (\<exists>c \<in> set (ba_pending b1). covers c j)"
        if j: "j \<in> D \<union> {at ..< at + amount}" for j
      proof (cases "at \<le> j \<and> j < at + amount")
        case True
        then have "j - at < amount" by auto
        then show ?thesis using True byte [of "j - at"] at by (simp add: blit_nth len out)
      next
        case outside: False
        then have "j \<in> D" using j by auto
        then have "j < n" "ba_output b1 ! j = exp j \<or> (\<exists>c \<in> set (ba_pending b1). covers c j)" using b1 by (simp_all add: batch_ok_def)
        then show ?thesis using outside at by (auto simp: blit_nth len out)
      qed
      moreover have "scan_cache_ok c0 (touch_page key (ba_cache b1))"
        using scan_cache_touch [of c0 "ba_cache b1" key page] b1 Some p(2) by (simp add: batch_ok_def b1_def)
      moreover have "loads_ok B c0 b2" using b1 by (simp add: batch_ok_def loads_ok_def b2_def)
      moreover have "\<forall>j \<in> D \<union> {at ..< at + amount}. j < n" using b1 at by (auto simp: batch_ok_def)
      ultimately show ?thesis using b1 at len out by (simp add: batch_ok_def b2_def)
    qed
    ultimately show ?thesis using f(1,2) by (simp add: at_def)
  next
    case None
    then have new: "key \<notin> fst ` set (pc_entries c0)" by (simp add: map_of_eq_None_iff)
    obtain r b2 where q: "queue_load layout (ex_file_index e) offset key b1 = (r, b2)" by fastforce
    have b1': "scan_cache_ok c0 (ba_cache b1)" "loads_ok B c0 b1" using b1 by (simp_all add: batch_ok_def)
    note Q = queue_load_ok [OF q b1' name t new fit]
    define cp where "cp i = \<lparr> cp_load = i, cp_in_page = in_page, cp_output_offset = at, cp_bytes = amount \<rparr>" for i
    have sp: "scan_piece layout e copied b = (case r of Inl err \<Rightarrow> (Inl err, b2)
        | Inr i \<Rightarrow> (Inr amount, b2\<lparr>ba_pending := ba_pending b2 @ [cp i]\<rparr>))"
      using False None p q
      by (simp add: scan_piece_def Let_def b1_def at_def key_def amount_def in_page_def offset_def absolute_def cp_def split: sum.split)
    show ?thesis
    proof (cases r)
      case (Inl err)
      then show ?thesis using sp Q by auto
    next
      case (Inr i)
      obtain extra where extra: "ba_loads b2 = ba_loads b1 @ extra" using Q by blast
      have "copy_ok B ?p (ba_loads b2) exp n (cp i)"
        using Q Inr f(3,6) at by (simp add: copy_ok_def cp_def)
      moreover have "list_all (copy_ok B ?p (ba_loads b2) exp n) (ba_pending b1)"
        using b1 copy_ok_more by (auto simp: batch_ok_def extra list_all_iff)
      moreover have "covers (cp i) j \<and> j < n" if "j \<in> {at ..< at + amount}" for j using that at by (simp add: covers_def cp_def)
      ultimately have "batch_ok B c0 exp n (D \<union> {at ..< at + amount}) (b2\<lparr>ba_pending := ba_pending b2 @ [cp i]\<rparr>)"
        using Q b1 by (auto simp: batch_ok_def loads_ok_def)
      then show ?thesis using sp Inr f(1,2) by (simp add: at_def)
    qed
  qed
qed

lemma scan_extent_ok:
  assumes S: "scan_setting B layout c0" and e: "extent_in B exp n e" and b: "batch_ok B c0 exp n D b"
    and copied: "copied \<le> ex_bytes e" "{ex_output_offset e ..< ex_output_offset e + copied} \<subseteq> D" and fuel: "ex_bytes e \<le> copied + fuel"
  shows "case scan_extent fuel layout e copied b of
      (Inl err, b') \<Rightarrow> err \<noteq> Diverges \<and> scan_cache_ok c0 (ba_cache b') \<and>
        (ex_file_index e < 256 \<longrightarrow> (\<exists>err. ple_file_size layout (ex_file_index e) = Inl err))
    | (Inr _, b') \<Rightarrow> batch_ok B c0 exp n (D \<union> {ex_output_offset e ..< ex_output_offset e + ex_bytes e}) b'"
  using b copied fuel
proof (induction fuel arbitrary: copied b D)
  case 0
  then show ?case by (simp add: Un_absorb2)
next
  case (Suc fuel)
  show ?case
  proof (cases "copied < ex_bytes e")
    case True
    note P = scan_piece_ok [OF S e True Suc.prems(1)]
    show ?thesis
    proof (cases "scan_piece layout e copied b")
      case (Pair r b')
      show ?thesis
      proof (cases r)
        case (Inl err)
        then show ?thesis using P Pair True by simp
      next
        case (Inr amount)
        let ?o = "ex_output_offset e" and ?D = "D \<union> {ex_output_offset e + copied ..< ex_output_offset e + copied + amount}"
        have a: "0 < amount" "copied + amount \<le> ex_bytes e" "batch_ok B c0 exp n ?D b'" using P Pair Inr by simp_all
        have "{?o ..< ?o + (copied + amount)} \<subseteq> ?D" using Suc.prems(3) by auto
        moreover have "ex_bytes e \<le> copied + amount + fuel" using Suc.prems(4) a(1) by simp
        moreover have u: "?D \<union> {?o ..< ?o + ex_bytes e} = D \<union> {?o ..< ?o + ex_bytes e}" using a(2) by auto
        ultimately show ?thesis
          using Suc.IH [OF a(3,2), unfolded u] True Pair Inr by simp
      qed
    qed
  next
    case False
    then show ?thesis using Suc.prems by (simp add: Un_absorb2)
  qed
qed

text \<open>The places of the output that a batch of extents covers.\<close>

definition covered :: "PleReadExtent list \<Rightarrow> nat set" where
  "covered es = (\<Union>e \<in> set es. {ex_output_offset e ..< ex_output_offset e + ex_bytes e})"

lemma scan_batch_ok:
  assumes "scan_setting B layout c0" "\<forall>e \<in> set es. extent_in B exp n e" "batch_ok B c0 exp n D b"
  shows "case scan_batch layout es b of
      (Inl err, b') \<Rightarrow> err \<noteq> Diverges \<and> scan_cache_ok c0 (ba_cache b') \<and>
        (\<exists>e \<in> set es. ex_file_index e < 256 \<longrightarrow> (\<exists>err. ple_file_size layout (ex_file_index e) = Inl err))
    | (Inr _, b') \<Rightarrow> batch_ok B c0 exp n (D \<union> covered es) b'"
  using assms
proof (induction es arbitrary: b D)
  case Nil
  then show ?case by (simp add: scan_batch_def covered_def run_simps)
next
  case (Cons e es)
  let ?E = "{ex_output_offset e ..< ex_output_offset e + ex_bytes e}"
  have x: "case scan_extent (ex_bytes e) layout e 0 b of
      (Inl err, b') \<Rightarrow> err \<noteq> Diverges \<and> scan_cache_ok c0 (ba_cache b') \<and>
        (ex_file_index e < 256 \<longrightarrow> (\<exists>err. ple_file_size layout (ex_file_index e) = Inl err))
    | (Inr _, b') \<Rightarrow> batch_ok B c0 exp n (D \<union> ?E) b'"
    using Cons.prems by (intro scan_extent_ok) simp_all
  have run: "scan_batch layout (e # es) b = (case scan_extent (ex_bytes e) layout e 0 b of
      (Inl err, b') \<Rightarrow> (Inl err, b') | (Inr _, b') \<Rightarrow> scan_batch layout es b')"
    by (simp add: scan_batch_def thenM_def bindM_def split: prod.split sum.split)
  obtain r b' where s: "scan_extent (ex_bytes e) layout e 0 b = (r, b')" by fastforce
  show ?case
  proof (cases r)
    case (Inl err)
    then show ?thesis using x s run by auto
  next
    case (Inr u)
    have c: "covered (e # es) = ?E \<union> covered es" by (simp add: covered_def)
    have "batch_ok B c0 exp n (D \<union> ?E) b'" using x s Inr by simp
    from Cons.IH [OF Cons.prems(1) _ this] Cons.prems(2) run s Inr show ?thesis
      unfolding c Un_assoc by (simp split: prod.splits sum.splits)
  qed
qed

lemma copy_pending_ok:
  assumes "pages = map (load_page B p) loads" "list_all (copy_ok B p loads exp n) cs" "length out = n"
  shows "length (copy_pending pages cs out) = n \<and>
    (\<forall>j < n. out ! j = exp j \<or> (\<exists>c \<in> set cs. covers c j) \<longrightarrow> copy_pending pages cs out ! j = exp j)"
  using assms(2,3)
proof (induction cs arbitrary: out)
  case (Cons c cs)
  let ?bytes = "take (cp_bytes c) (drop (cp_in_page c) (pages ! cp_load c))"
  let ?out = "blit (cp_output_offset c) ?bytes out"
  have c: "cp_load c < length loads" "cp_in_page c + cp_bytes c \<le> unat p" "cp_output_offset c + cp_bytes c \<le> n"
    "\<forall>i < cp_bytes c. load_page B p (loads ! cp_load c) ! (cp_in_page c + i) = exp (cp_output_offset c + i)"
    using Cons.prems(1) by (simp_all add: copy_ok_def)
  have len: "length ?bytes = cp_bytes c" using c(1,2) by (simp add: assms(1) load_page_def)
  have byte: "?bytes ! i = exp (cp_output_offset c + i)" if "i < cp_bytes c" for i
    using c that by (simp add: assms(1) load_page_def)
  have at: "?out ! j = (if covers c j then exp j else out ! j)" if "j < n" for j
  proof -
    have "?out ! j = (if covers c j then ?bytes ! (j - cp_output_offset c) else out ! j)"
      using that c(3) Cons.prems(2) by (subst blit_nth) (simp_all only: len covers_def)
    then show ?thesis using byte [of "j - cp_output_offset c"] by (auto simp: covers_def)
  qed
  have "length ?out = n" using c(3) Cons.prems(2) by (simp only: blit_length len)
  from Cons.IH [OF _ this] Cons.prems(1) show ?case using at by auto
qed simp

section \<open>Reading files\<close>

lemma pread_loop_exact:
  assumes "pread_loop failure script wanted got rest = (r, script')"
  shows "case r of Inl e \<Rightarrow> e = failure | Inr bytes \<Rightarrow> bytes = got @ take wanted rest \<and> wanted \<le> length rest"
  using assms
proof (induction failure script wanted got rest rule: pread_loop.induct)
  case (3 failure event script wanted got rest)
  show ?case
  proof (cases event)
    case (IoCount n)
    define c where "c = min n (min (Suc wanted) (length rest))"
    show ?thesis
    proof (cases "c = 0")
      case False
      have s: "c \<le> Suc wanted" "c \<le> length rest" by (simp_all add: c_def)
      have "pread_loop failure script (Suc wanted - c) (got @ take c rest) (drop c rest) = (r, script')"
        using "3.prems" IoCount False by (simp add: c_def [symmetric] Let_def)
      from "3.IH"(1) [OF IoCount c_def, OF False this] s show ?thesis
        by (auto simp: take_add [symmetric] split: sum.splits)
    qed (use 3 IoCount in \<open>auto simp: c_def [symmetric] Let_def\<close>)
  qed (use 3 in auto)
qed (auto split: if_splits)

lemma pread_loop_benign:
  "list_all (\<lambda>e. e \<noteq> IoFailed \<and> e \<noteq> IoCount 0) script \<Longrightarrow> wanted \<le> length rest \<Longrightarrow>
     \<exists>bytes script'. pread_loop failure script wanted got rest = (Inr bytes, script') \<and>
       list_all (\<lambda>e. e \<noteq> IoFailed \<and> e \<noteq> IoCount 0) script'"
proof (induction failure script wanted got rest rule: pread_loop.induct)
  case (3 failure event script wanted got rest)
  show ?case
  proof (cases event)
    case (IoCount n)
    define c where "c = min n (min (Suc wanted) (length rest))"
    have "c \<noteq> 0" using 3(3,4) IoCount by (auto simp: c_def)
    moreover have "Suc wanted - c \<le> length (drop c rest)" using 3(4) by (simp add: c_def)
    ultimately show ?thesis
      using "3.IH"(1) [OF IoCount c_def] 3(3) IoCount by (auto simp: c_def [symmetric] Let_def)
  qed (use 3 in auto)
qed auto

section \<open>The store\<close>

definition bytes_of :: "PleStore \<Rightarrow> u32 \<Rightarrow> u8 list" where
  "bytes_of st f = (case find (\<lambda>x. of_index x = f) (st_files st) of None \<Rightarrow> [] | Some x \<Rightarrow> of_data x)"

definition files_ok :: "PleStore \<Rightarrow> bool" where
  "files_ok st \<longleftrightarrow> list_all2 (\<lambda>x f. of_index x = pf_index f \<and> length (of_data x) = unat (pf_file_bytes f)) (st_files st) (pl_files (st_layout st))"

definition cache_true :: "PleStore \<Rightarrow> bool" where
  "cache_true st \<longleftrightarrow> (\<forall>c. st_cache st = Some c \<longrightarrow> pool_ok c \<and> (\<exists>k < 32. unat (pc_page_bytes c) = 2 ^ k) \<and>
     keys_fit (bytes_of st) (pc_page_bytes c) \<and> contents_ok (bytes_of st) (pc_page_bytes c) (contents c))"

definition ring_idle :: "PleStore \<Rightarrow> bool" where
  "ring_idle st \<longleftrightarrow> (\<forall>u. st_io_uring st = Some u \<longrightarrow> ur_in_flight u = [] \<and> list_all of_direct (st_files st) \<and>
     (\<exists>c. st_cache st = Some c \<and> ur_page_bytes u = unat (pc_page_bytes c)))"

definition store_ok :: "PleStore \<Rightarrow> bool" where
  "store_ok st \<longleftrightarrow> files_ok st \<and> cache_true st \<and> ring_idle st"

text \<open>What reading never changes.\<close>

definition framed :: "PleStore \<Rightarrow> PleStore \<Rightarrow> bool" where
  "framed st st' \<longleftrightarrow> st_layout st' = st_layout st \<and> st_files st' = st_files st \<and> st_scale_parts st' = st_scale_parts st \<and>
     (st_io_uring st = None \<longrightarrow> st_io_uring st' = None) \<and>
     (st_cache st = None \<longrightarrow> st_cache st' = None) \<and>
     (\<forall>c. st_cache st = Some c \<longrightarrow> pool_ok c \<longrightarrow>
       (\<exists>c'. st_cache st' = Some c' \<and> pool_ok c' \<and> pc_capacity_bytes c' = pc_capacity_bytes c))"

lemma framed_refl [simp]: "framed st st"
  by (simp add: framed_def)

lemma framed_trans: "framed a b \<Longrightarrow> framed b c \<Longrightarrow> framed a c"
  unfolding framed_def by metis

lemma framed_bytes: "framed st st' \<Longrightarrow> bytes_of st' = bytes_of st"
  by (simp add: framed_def bytes_of_def [abs_def])

lemma framed_files: "framed st st' \<Longrightarrow> files_ok st' = files_ok st"
  by (simp add: framed_def files_ok_def)

lemma find_all2:
  assumes "list_all2 (\<lambda>x f. of_index x = pf_index f \<and> Q x f) xs fs" "find (\<lambda>f. pf_index f = i) fs = Some f"
  shows "\<exists>x. find (\<lambda>x. of_index x = i) xs = Some x \<and> Q x f"
  using assms by (induction rule: list_all2_induct) (auto split: if_splits)

lemma find_all2_None:
  assumes "list_all2 (\<lambda>x f. of_index x = pf_index f \<and> Q x f) xs fs" "find (\<lambda>f. pf_index f = i) fs = None"
  shows "find (\<lambda>x. of_index x = i) xs = None"
  using assms by (induction rule: list_all2_induct) (auto split: if_splits)

lemma file_size_bytes:
  assumes "files_ok st" "ple_file_size (st_layout st) f = Inr extent"
  shows "\<exists>x. find (\<lambda>x. of_index x = f) (st_files st) = Some x \<and> of_data x = bytes_of st f \<and> length (bytes_of st f) = unat extent"
proof -
  from assms(2) obtain m where "find (\<lambda>m. pf_index m = f) (pl_files (st_layout st)) = Some m" "extent = pf_file_bytes m"
    by (auto simp: ple_file_size_def split: option.splits)
  with find_all2 [OF assms(1) [unfolded files_ok_def]] show ?thesis by (fastforce simp: bytes_of_def)
qed

lemma files_ok_true: "files_ok st \<Longrightarrow> files_true (st_layout st) (bytes_of st)"
proof -
  assume ok: "files_ok st"
  have "length (bytes_of st f) < 2 ^ 64" for f
  proof (cases "ple_file_size (st_layout st) f")
    case (Inl e)
    then have "find (\<lambda>m. pf_index m = f) (pl_files (st_layout st)) = None" by (auto simp: ple_file_size_def split: option.splits)
    then have "bytes_of st f = []" using find_all2_None [OF ok [unfolded files_ok_def]] by (simp add: bytes_of_def)
    then show ?thesis by simp
  next
    case (Inr extent)
    then show ?thesis using file_size_bytes [OF ok] unat_u64_lt [of extent] by fastforce
  qed
  then show ?thesis using file_size_bytes [OF ok] by (fastforce simp: files_true_def)
qed

lemma pread_exact_ok:
  assumes "pread_exact message f offset n st = (r, st')" "find (\<lambda>x. of_index x = f) (st_files st) = Some x"
  shows "(\<exists>script. st' = st\<lparr>st_io := script\<rparr>) \<and> (case r of Inl e \<Rightarrow> e \<noteq> Diverges
    | Inr bytes \<Rightarrow> bytes = take n (drop (unat offset) (of_data x)) \<and> n \<le> length (of_data x) - unat offset)"
  using assms pread_loop_exact [of "RuntimeError (message @ st_errno st)" "st_io st" n "[]" "drop (unat offset) (of_data x)"]
  by (auto simp: pread_exact_def file_data_def split: prod.splits sum.splits)

section \<open>Loading pages\<close>

text \<open>A step that reads: the cache keeps its pages, only its statistics change.\<close>

definition counted :: "PleStore \<Rightarrow> PleStore \<Rightarrow> bool" where
  "counted st st' \<longleftrightarrow> framed st st' \<and> (\<forall>c. st_cache st = Some c \<longrightarrow> pool_ok c \<longrightarrow> (\<exists>c'. st_cache st' = Some c' \<and> scan_cache_ok c c')) \<and>
     (st_cache st = None \<longrightarrow> st_cache st' = None)"

lemma scan_cache_ok_refl: "pool_ok c \<Longrightarrow> scan_cache_ok c c"
  by (simp add: scan_cache_ok_def same_pages_def)

lemma scan_cache_ok_trans: "scan_cache_ok a b \<Longrightarrow> scan_cache_ok b c \<Longrightarrow> scan_cache_ok a c"
  by (simp add: scan_cache_ok_def same_pages_def)

lemma counted_refl [simp]: "counted st st"
  by (auto simp: counted_def scan_cache_ok_refl)

lemma counted_trans:
  assumes "counted a b" "counted b c"
  shows "counted a c"
  unfolding counted_def
proof (intro conjI allI impI)
  fix x
  assume x: "st_cache a = Some x" "pool_ok x"
  then obtain y where y: "st_cache b = Some y" "scan_cache_ok x y" using assms(1) by (auto simp: counted_def)
  then obtain z where "st_cache c = Some z" "scan_cache_ok y z" using assms(2) by (auto simp: counted_def scan_cache_ok_def)
  then show "\<exists>z. st_cache c = Some z \<and> scan_cache_ok x z" using y scan_cache_ok_trans by blast
qed (use assms in \<open>auto simp: counted_def dest: framed_trans\<close>)

lemma counted_other:
  "counted st (st\<lparr>st_io := script\<rparr>)" "st_io_uring st \<noteq> None \<Longrightarrow> counted st (st\<lparr>st_io_uring := u\<rparr>)" "counted st (st\<lparr>st_clock := ts\<rparr>)"
  by (auto simp: counted_def framed_def scan_cache_ok_refl)

lemma counted_cache:
  assumes "\<And>c. pool_ok c \<Longrightarrow> scan_cache_ok c (f c)"
  shows "counted st (on_cache f st)"
  using assms by (fastforce simp: counted_def on_cache_def framed_def scan_cache_ok_def same_pages_def)

lemma scan_cache_stats:
  "pool_ok c \<Longrightarrow> scan_cache_ok c (count_in upd n c)" "pool_ok c \<Longrightarrow> scan_cache_ok c (note_queue_depth d c)"
  "pool_ok c \<Longrightarrow> scan_cache_ok c (note_latency t c)"
  by (auto simp: scan_cache_ok_def same_pages_def note_queue_depth_def note_latency_def intro: pool_ok_count)
    (auto simp: pool_ok_def)

lemma scan_cache_comp:
  assumes "\<And>c. pool_ok c \<Longrightarrow> scan_cache_ok c (f c)" "\<And>c. pool_ok c \<Longrightarrow> scan_cache_ok c (g c)" "pool_ok c"
  shows "scan_cache_ok c ((f \<circ> g) c)"
  using assms(1) [of "g c"] assms(2) [OF assms(3)] scan_cache_ok_trans by (auto simp: scan_cache_ok_def same_pages_def)

lemmas counted_stats = counted_cache counted_cache [OF scan_cache_comp] scan_cache_stats scan_cache_comp

lemma bytes_found: "bytes_of st f \<noteq> [] \<Longrightarrow> \<exists>x. find (\<lambda>x. of_index x = f) (st_files st) = Some x \<and> of_data x = bytes_of st f"
  by (auto simp: bytes_of_def split: option.splits)

lemma load_ok_page:
  assumes "load_ok B p l"
  shows "load_page B p l = pad_page (unat p) (take (ld_physical_bytes l) (drop (unat (ld_page_offset l)) (B (ld_file_index l))))"
    and "B (ld_file_index l) \<noteq> []"
  using assms by (auto simp: load_ok_def load_page_def page_at_def names_page_def min_def)

lemma load_buffered_ok:
  assumes l: "load_buffered (unat p) l st = (r, st')" and ok: "load_ok (bytes_of st) p l"
  shows "counted st st' \<and> st_io_uring st' = st_io_uring st \<and>
    (case r of Inl e \<Rightarrow> e \<noteq> Diverges | Inr page \<Rightarrow> page = load_page (bytes_of st) p l)"
proof -
  obtain x where x: "find (\<lambda>x. of_index x = ld_file_index l) (st_files st) = Some x" "of_data x = bytes_of st (ld_file_index l)"
    using bytes_found load_ok_page(2) [OF ok] by blast
  define st1 where "st1 = on_cache (note_queue_depth 1 \<circ> count_in cs_read_batches_update 1) st"
  have c1: "counted st st1" unfolding st1_def by (rule counted_cache) (intro counted_stats)
  have s1: "st_files st1 = st_files st" "st_io_uring st1 = st_io_uring st" by (simp_all add: st1_def on_cache_def)
  obtain r1 st2 where p: "pread_exact ''PLE page read failed: '' (ld_file_index l) (ld_page_offset l) (ld_physical_bytes l) st1 = (r1, st2)"
    by fastforce
  note P = pread_exact_ok [OF p x(1) [folded s1(1)]]
  then obtain script where st2: "st2 = st1\<lparr>st_io := script\<rparr>" by blast
  then have c2: "counted st1 st2" "st_io_uring st2 = st_io_uring st" by (simp_all add: counted_other s1)
  show ?thesis
  proof (cases r1)
    case (Inl e)
    then show ?thesis using l p P c1 c2 by (auto simp: load_buffered_def st1_def [symmetric] dest: counted_trans)
  next
    case (Inr bytes)
    let ?st3 = "on_cache (count_in cs_physical_read_bytes_update (word_of_nat (ld_physical_bytes l))) st2"
    have "r = Inr (pad_page (unat p) bytes)" "st' = ?st3" using l p Inr by (simp_all add: load_buffered_def st1_def [symmetric])
    moreover have "counted st2 ?st3" by (intro counted_stats)
    moreover have "st_io_uring ?st3 = st_io_uring st" using c2(2) by (simp add: on_cache_def)
    ultimately show ?thesis
      using P Inr c1 c2(1) x(2) load_ok_page(1) [OF ok] by (auto dest: counted_trans)
  qed
qed

lemma counted_bytes: "counted st st' \<Longrightarrow> bytes_of st' = bytes_of st"
  by (simp add: counted_def framed_bytes)

lemma load_all_buffered_ok:
  assumes "load_all_buffered (unat p) ls st = (r, st')" "list_all (load_ok (bytes_of st) p) ls"
  shows "counted st st' \<and> st_io_uring st' = st_io_uring st \<and>
    (case r of Inl e \<Rightarrow> e \<noteq> Diverges | Inr pages \<Rightarrow> pages = map (load_page (bytes_of st) p) ls)"
  using assms
proof (induction ls arbitrary: st r st')
  case (Cons l ls)
  obtain r1 st1 where l: "load_buffered (unat p) l st = (r1, st1)" by fastforce
  have L: "counted st st1" "st_io_uring st1 = st_io_uring st"
    "case r1 of Inl e \<Rightarrow> e \<noteq> Diverges | Inr page \<Rightarrow> page = load_page (bytes_of st) p l"
    using load_buffered_ok [OF l] Cons.prems(2) by simp_all
  show ?case
  proof (cases r1)
    case (Inl e)
    then show ?thesis using Cons.prems(1) l L by auto
  next
    case (Inr page)
    obtain r2 st2 where rest: "load_all_buffered (unat p) ls st1 = (r2, st2)" by fastforce
    have "list_all (load_ok (bytes_of st1) p) ls" using Cons.prems(2) counted_bytes [OF L(1)] by simp
    from Cons.IH [OF rest this] counted_bytes [OF L(1)] show ?thesis
      using Cons.prems(1) l rest Inr L by (cases r2) (auto dest: counted_trans)
  qed
qed simp

lemma direct_requests:
  assumes "mapE (direct_request st) ls = Inr requests" "list_all (load_ok (bytes_of st) p) ls"
  shows "requests_ok (unat p) requests \<and> map (request_page (unat p)) requests = map (load_page (bytes_of st) p) ls"
  using assms
proof (induction ls arbitrary: requests)
  case (Cons l ls)
  then obtain q qs where q: "direct_request st l = Inr q" "mapE (direct_request st) ls = Inr qs" "requests = q # qs"
    by (auto simp: bindE_Inr_iff)
  have ok: "load_ok (bytes_of st) p l" using Cons.prems(2) by simp
  have "rr_data q = bytes_of st (ld_file_index l)" "rr_offset q = ld_page_offset l" "rr_expected_bytes q = ld_physical_bytes l"
    using q(1) by (auto simp: direct_request_def bytes_of_def split: option.splits if_splits)
  then have "rr_expected_bytes q = min (unat p) (length (request_bytes q))" "request_page (unat p) q = load_page (bytes_of st) p l"
    using ok by (auto simp: request_bytes_def load_ok_def request_page_def load_page_def page_at_def pad_page_def)
  then show ?case using Cons.IH [OF q(2)] Cons.prems(2) q(3) by (simp add: requests_ok_def)
qed (simp add: requests_ok_def)

lemma load_all_direct_ok:
  assumes d: "load_all_direct u ls st = (r, st')" and ls: "list_all (load_ok (bytes_of st) p) ls"
    and u: "ur_in_flight u = []" "ur_page_bytes u = unat p" "st_io_uring st = Some u"
  shows "counted st st' \<and>
    (case r of Inl e \<Rightarrow> e \<noteq> Diverges
     | Inr pages \<Rightarrow> pages = map (load_page (bytes_of st) p) ls \<and>
         (\<exists>u'. st_io_uring st' = Some u' \<and> ur_in_flight u' = [] \<and> ur_page_bytes u' = unat p))"
proof -
  define st1 where "st1 = on_cache (note_queue_depth (word_of_nat (min (length ls) (ur_queue_depth u))) \<circ> count_in cs_read_batches_update 1) st"
  have c1: "counted st st1" unfolding st1_def by (rule counted_cache) (intro counted_stats)
  have s1: "st_io_uring st1 \<noteq> None" using u(3) by (simp add: st1_def on_cache_def)
  show ?thesis
  proof (cases "mapE (direct_request st1) ls")
    case (Inl e)
    have "e \<noteq> Diverges" using Inl
      by (induction ls arbitrary: e) (auto simp: bindE_def direct_request_def split: sum.splits option.splits if_splits)
    then show ?thesis using d Inl c1 by (auto simp: load_all_direct_def st1_def [symmetric])
  next
    case (Inr requests)
    from direct_requests [OF Inr, of p] ls counted_bytes [OF c1] have
      q: "requests_ok (unat p) requests" "map (request_page (unat p)) requests = map (load_page (bytes_of st) p) ls" by simp_all
    obtain r1 u1 where ur: "uring_read requests u = (r1, u1)" by fastforce
    note U = uring_read_result [of u requests, unfolded u(2), OF q(1) u(1)] uring_read_page [of requests u, unfolded u(2)]
    show ?thesis
    proof (cases r1)
      case err: (Inl e)
      then show ?thesis
        using d Inr ur U c1 counted_trans [OF c1 counted_other(2)] s1 by (auto simp: load_all_direct_def st1_def [symmetric])
    next
      case res: (Inr pp)
      obtain pages physical where pp: "pp = (pages, physical)" by fastforce
      define f where "f = count_in cs_io_uring_completions_update (word_of_nat (length requests)) \<circ>
          count_in cs_io_uring_submissions_update (word_of_nat (length requests)) \<circ>
          count_in cs_direct_read_bytes_update physical \<circ> count_in cs_physical_read_bytes_update physical"
      have st': "st' = on_cache f (st1\<lparr>st_io_uring := Some u1\<rparr>)" "r = Inr pages"
        using d Inr ur res pp by (simp_all add: load_all_direct_def st1_def [symmetric] f_def)
      have "counted (st1\<lparr>st_io_uring := Some u1\<rparr>) (on_cache f (st1\<lparr>st_io_uring := Some u1\<rparr>))"
        unfolding f_def by (rule counted_cache) (intro counted_stats)
      then have "counted st st'" unfolding st'(1) using counted_trans [OF counted_trans [OF c1 counted_other(2)]] s1 by blast
      moreover have "st_io_uring st' = Some u1" by (simp add: st'(1) on_cache_def)
      ultimately show ?thesis using U ur res pp q(2) st'(2) by simp
    qed
  qed
qed

lemma load_pages_ok:
  assumes l: "load_pages (unat p) ls st = (r, st')" and ls: "list_all (load_ok (bytes_of st) p) ls"
    and ring: "ring_idle st" and c: "st_cache st = Some c" "pc_page_bytes c = p" "pool_ok c"
  shows "counted st st' \<and>
    (case r of Inl e \<Rightarrow> e \<noteq> Diverges | Inr pages \<Rightarrow> pages = map (load_page (bytes_of st) p) ls \<and> ring_idle st')"
proof -
  obtain r1 st1 where m: "(case st_io_uring st of Some u \<Rightarrow> load_all_direct u ls st | None \<Rightarrow> load_all_buffered (unat p) ls st) = (r1, st1)"
    by fastforce
  have "counted st st1 \<and> (case r1 of Inl e \<Rightarrow> e \<noteq> Diverges
     | Inr pages \<Rightarrow> pages = map (load_page (bytes_of st) p) ls \<and>
         (\<forall>u'. st_io_uring st1 = Some u' \<longrightarrow> st_io_uring st \<noteq> None \<and> ur_in_flight u' = [] \<and> ur_page_bytes u' = unat p))"
  proof (cases "st_io_uring st")
    case None
    then show ?thesis using load_all_buffered_ok [of p ls st r1 st1] m ls by (auto split: sum.splits)
  next
    case (Some u)
    have "ur_in_flight u = []" "ur_page_bytes u = unat p" using ring Some c by (auto simp: ring_idle_def)
    from load_all_direct_ok [OF _ ls this Some, of r1 st1] m Some show ?thesis by (auto split: sum.splits)
  qed
  then have M: "counted st st1" "case r1 of Inl e \<Rightarrow> e \<noteq> Diverges
     | Inr pages \<Rightarrow> pages = map (load_page (bytes_of st) p) ls \<and>
         (\<forall>u'. st_io_uring st1 = Some u' \<longrightarrow> st_io_uring st \<noteq> None \<and> ur_in_flight u' = [] \<and> ur_page_bytes u' = unat p)"
    by blast+
  show ?thesis
  proof (cases r1)
    case (Inl e)
    let ?st2 = "on_cache (count_in cs_read_errors_update 1) st1"
    have "counted st1 ?st2" by (intro counted_stats)
    then show ?thesis using l m Inl M counted_trans [OF M(1)] by (auto simp: load_pages_def)
  next
    case (Inr pages)
    define f where "f = note_latency (case st_clock st1 of [] \<Rightarrow> 0 | t # _ \<Rightarrow> t) \<circ> count_in cs_read_operations_update (word_of_nat (length ls))"
    have st': "st' = on_cache f (st1\<lparr>st_clock := tl (st_clock st1)\<rparr>)" "r = Inr pages"
      using l m Inr by (simp_all add: load_pages_def f_def)
    have "counted (st1\<lparr>st_clock := tl (st_clock st1)\<rparr>) st'"
      unfolding st'(1) f_def by (rule counted_cache) (intro counted_stats)
    then have k: "counted st st'" using counted_trans [OF counted_trans [OF M(1) counted_other(3)]] by blast
    then obtain c' where c': "st_cache st' = Some c'" "pc_page_bytes c' = p"
      using c by (auto simp: counted_def scan_cache_ok_def same_pages_def)
    have "ring_idle st'"
      using M(2) Inr k ring c' by (auto simp: ring_idle_def st'(1) on_cache_def counted_def framed_def split: option.splits)
    then show ?thesis using k M(2) Inr st'(2) by simp
  qed
qed

end
