(* ===== verification/PleRows.thy ===== *)
theory PleRows
  imports PleReads
begin

text \<open>
  Batches of rows of the n-gram tables: what a batch returns is what the files hold, with and without
  the cache, the cache stays within its capacity, and an open store satisfies all of this.
\<close>

section \<open>Extents\<close>

lemma read_uncached_ok:
  assumes "read_uncached es out st = (r, st')" "\<forall>e \<in> set es. extent_in (bytes_of st) exp n e \<and> 0 < ex_bytes e" "length out = n"
  shows "counted st st' \<and> st_io_uring st' = st_io_uring st \<and> (case r of Inl e \<Rightarrow> e \<noteq> Diverges
    | Inr out' \<Rightarrow> length out' = n \<and> (\<forall>j < n. out ! j = exp j \<or> j \<in> covered es \<longrightarrow> out' ! j = exp j))"
  using assms
proof (induction es arbitrary: out st r st')
  case Nil
  then show ?case by (auto simp: covered_def)
next
  case (Cons e es)
  have e: "extent_in (bytes_of st) exp n e" "0 < ex_bytes e" using Cons.prems(2) by simp_all
  have len: "unat (ex_offset e) + ex_bytes e \<le> length (bytes_of st (ex_file_index e))" "ex_output_offset e + ex_bytes e \<le> n"
    using e(1) by (simp_all add: extent_in_def)
  then have "bytes_of st (ex_file_index e) \<noteq> []" using e(2) by auto
  then obtain x where x: "find (\<lambda>x. of_index x = ex_file_index e) (st_files st) = Some x" "of_data x = bytes_of st (ex_file_index e)"
    using bytes_found by blast
  obtain r1 st1 where p: "pread_exact ''PLE read failed: '' (ex_file_index e) (ex_offset e) (ex_bytes e) st = (r1, st1)" by fastforce
  note P = pread_exact_ok [OF p x(1)]
  then obtain script where "st1 = st\<lparr>st_io := script\<rparr>" by blast
  then have c1: "counted st st1" "st_io_uring st1 = st_io_uring st" by (simp_all add: counted_other)
  show ?case
  proof (cases r1)
    case (Inl err)
    then show ?thesis using Cons.prems(1) p P c1 by auto
  next
    case (Inr bytes)
    let ?out = "blit (ex_output_offset e) bytes out"
    have b: "bytes = take (ex_bytes e) (drop (unat (ex_offset e)) (bytes_of st (ex_file_index e)))" using P Inr x(2) by simp
    have bl: "length bytes = ex_bytes e" using len(1) by (simp add: b)
    have byte: "bytes ! i = exp (ex_output_offset e + i)" if "i < ex_bytes e" for i
      using e(1) that len(1) by (simp add: b extent_in_def)
    have at: "?out ! j = exp j" if "j < n" "out ! j = exp j \<or> j \<in> {ex_output_offset e ..< ex_output_offset e + ex_bytes e}" for j
      using that len(2) Cons.prems(3) byte [of "j - ex_output_offset e"] by (subst blit_nth) (auto simp: bl)
    have "length ?out = n" using len(2) Cons.prems(3) by (simp only: blit_length bl)
    moreover have "\<forall>e \<in> set es. extent_in (bytes_of st1) exp n e \<and> 0 < ex_bytes e"
      using Cons.prems(2) counted_bytes [OF c1(1)] by simp
    moreover have "read_uncached es ?out st1 = (r, st')" using Cons.prems(1) p Inr by simp
    ultimately have I: "counted st1 st'" "st_io_uring st' = st_io_uring st1" "case r of Inl e \<Rightarrow> e \<noteq> Diverges
      | Inr out' \<Rightarrow> length out' = n \<and> (\<forall>j < n. ?out ! j = exp j \<or> j \<in> covered es \<longrightarrow> out' ! j = exp j)"
      using Cons.IH by blast+
    have "covered (e # es) = {ex_output_offset e ..< ex_output_offset e + ex_bytes e} \<union> covered es" by (simp add: covered_def)
    then show ?thesis using I c1 counted_trans [OF c1(1) I(1)] at by (cases r) auto
  qed
qed

text \<open>Pages that were loaded are inserted, and the cache still tells the truth.\<close>

lemma insert_loads_ok:
  assumes c: "pool_ok c" "scan_cache_ok c0 c" and l: "loads_ok B c0 b" and p: "pc_page_bytes c0 = p"
    and t: "contents_ok B p (contents c0)"
  shows "\<exists>c'. insert_pages (zip (map ld_key (ba_loads b)) (map (load_page B p) (ba_loads b))) c = (Inr (), c') \<and>
    pool_ok c' \<and> same_pages c c' \<and> contents_ok B p (contents c')"
proof -
  let ?ps = "zip (map ld_key (ba_loads b)) (map (load_page B p) (ba_loads b))"
  have eq: "?ps = map (\<lambda>x. (ld_key x, load_page B p x)) (ba_loads b)" by (simp add: zip_map_map zip_same_conv_map)
  have f: "pc_entries c = pc_entries c0" "pc_memory c = pc_memory c0" "pc_page_bytes c = p"
    using c(2) p by (simp_all add: scan_cache_ok_def same_pages_def)
  have k: "map fst ?ps = map ld_key (ba_loads b)" by (simp add: eq comp_def)
  from arg_cong [OF k, of set] have "fst ` set ?ps = ld_key ` set (ba_loads b)" by (simp only: set_map)
  then have "distinct (map fst ?ps)" "fst ` set ?ps \<inter> fst ` set (pc_entries c) = {}"
    using l unfolding k f(1) by (simp_all add: loads_ok_def)
  moreover have "\<forall>q \<in> set ?ps. length (snd q) = unat (pc_page_bytes c)" by (auto simp: eq f(3) load_page_def)
  ultimately obtain c' where c': "insert_pages ?ps c = (Inr (), c')" "pool_ok c'" "same_pages c c'" "contents c' \<subseteq> set ?ps \<union> contents c"
    using insert_pages_ok [OF c(1)] by blast
  have "contents c = contents c0" using f by (simp add: contents_def)
  moreover have "contents_ok B p (set ?ps)"
    unfolding contents_ok_def
  proof (rule ballI)
    fix q
    assume "q \<in> set ?ps"
    then obtain x where x: "x \<in> set (ba_loads b)" "q = (ld_key x, load_page B p x)" by (auto simp: eq)
    then have "load_ok B p x" using l p by (simp add: loads_ok_def list_all_iff)
    then have "names_page B p (ld_key x) (ld_file_index x) (ld_page_offset x)" by (simp add: load_ok_def)
    then show "case q of (key, bytes) \<Rightarrow> \<exists>f offset. names_page B p key f offset \<and> bytes = page_at B (unat p) f (unat offset)"
      unfolding x(2) load_page_def by auto
  qed
  ultimately have "contents_ok B p (contents c')" using c'(4) t unfolding contents_ok_def by blast
  then show ?thesis using c' by blast
qed

lemma read_cached_ok:
  assumes r: "read_cached c es out st = (r, st')" and ok: "store_ok st" and c: "st_cache st = Some c"
    and es: "\<forall>e \<in> set es. extent_in (bytes_of st) exp n e" and out: "length out = n"
  shows "framed st st' \<and> cache_true st' \<and> (case r of Inl e \<Rightarrow> e \<noteq> Diverges
    | Inr out' \<Rightarrow> ring_idle st' \<and> length out' = n \<and> (\<forall>j \<in> covered es. out' ! j = exp j))"
proof -
  let ?B = "bytes_of st" and ?p = "pc_page_bytes c"
  have C: "pool_ok c" "\<exists>k < 32. unat ?p = 2 ^ k" "keys_fit ?B ?p" "contents_ok ?B ?p (contents c)"
    using ok c by (auto simp: store_ok_def cache_true_def)
  have S: "scan_setting ?B (st_layout st) c"
    using C ok files_ok_true by (simp add: scan_setting_def store_ok_def)
  define b0 where "b0 = \<lparr> ba_cache = c, ba_loads = [], ba_pending = [], ba_load_by_key = Map.empty, ba_request_pages = {}, ba_output = out \<rparr>"
  have b0: "batch_ok ?B c exp n {} b0"
    using C(1) out by (simp add: batch_ok_def b0_def loads_ok_def scan_cache_ok_refl)
  have true: "cache_true (st2\<lparr>st_cache := Some c'\<rparr>)" if "framed st st2" "pool_ok c'" "pc_page_bytes c' = ?p" "contents_ok ?B ?p (contents c')" for st2 c'
  proof -
    have "bytes_of (st2\<lparr>st_cache := Some c'\<rparr>) = ?B" using that(1) by (simp add: bytes_of_def [abs_def] framed_def)
    then show ?thesis using that C by (simp add: cache_true_def)
  qed
  have fr: "framed st (st2\<lparr>st_cache := Some c'\<rparr>)" if "framed st st2" "pool_ok c'" "pc_capacity_bytes c' = pc_capacity_bytes c" for st2 c'
    using that c by (simp add: framed_def)
  have same: "contents c' = contents c" "pc_page_bytes c' = ?p" "pool_ok c'" "pc_capacity_bytes c' = pc_capacity_bytes c" if "scan_cache_ok c c'" for c'
    using that by (simp_all add: scan_cache_ok_def contents_def same_pages_def)
  obtain r1 b where s: "scan_batch (st_layout st) es b0 = (r1, b)" by fastforce
  note B = scan_batch_ok [OF S es b0]
  show ?thesis
  proof (cases r1)
    case (Inl e)
    then have "scan_cache_ok c (ba_cache b)" "e \<noteq> Diverges" using B s by simp_all
    then show ?thesis using r s Inl true [of st] fr [of st] same C(4) by (auto simp: read_cached_def b0_def [symmetric])
  next
    case (Inr u)
    have b: "batch_ok ?B c exp n (covered es) b" using B s Inr by simp
    define c1 where "c1 = count_in cs_unique_page_requests_update (word_of_nat (card (ba_request_pages b))) (ba_cache b)"
    define st1 where "st1 = st\<lparr>st_cache := Some c1\<rparr>"
    have c1: "scan_cache_ok c c1" using b by (simp add: batch_ok_def c1_def scan_cache_count)
    have st1: "framed st st1" "cache_true st1" "bytes_of st1 = ?B" "ring_idle st1" "st_cache st1 = Some c1"
      using true [of st c1] fr [of st c1] same [OF c1] C(4) ok c by (simp_all add: st1_def bytes_of_def [abs_def] store_ok_def ring_idle_def)
    have oute: "ba_output b ! j = exp j \<or> (\<exists>c \<in> set (ba_pending b). covers c j)" "j < n" if "j \<in> covered es" for j
      using b that by (simp_all add: batch_ok_def)
    have body: "read_cached c es out st = (if ba_loads b = [] then (Inr (ba_output b), st1)
        else if length (ba_loads b) > 18446744073709551615 div unat ?p
        then (Inl (RuntimeError ''PLE page-read batch size overflows''), st1)
        else (case load_pages (unat ?p) (ba_loads b) st1 of
            (Inl e, st) \<Rightarrow> (Inl e, st)
          | (Inr pages, st) \<Rightarrow>
              (case insert_pages (zip (map ld_key (ba_loads b)) pages) (the (st_cache st)) of
                 (Inl e, c) \<Rightarrow> (Inl e, st\<lparr>st_cache := Some c\<rparr>)
               | (Inr _, c) \<Rightarrow> (Inr (copy_pending pages (ba_pending b) (ba_output b)), st\<lparr>st_cache := Some c\<rparr>))))"
      using s Inr by (simp add: read_cached_def b0_def [symmetric] c1_def [symmetric] st1_def [symmetric] Let_def)
    show ?thesis
    proof (cases "ba_loads b = []")
      case True
      then have "ba_pending b = []" using b by (cases "ba_pending b") (auto simp: batch_ok_def copy_ok_def)
      then show ?thesis using r body True st1 oute b by (auto simp: batch_ok_def)
    next
      case loads: False
      show ?thesis
      proof (cases "length (ba_loads b) > 18446744073709551615 div unat ?p")
        case True
        then show ?thesis using r body loads st1 by auto
      next
        case small: False
        obtain r2 st2 where l: "load_pages (unat ?p) (ba_loads b) st1 = (r2, st2)" by fastforce
        have lo: "loads_ok ?B c b" "list_all (load_ok (bytes_of st1) ?p) (ba_loads b)" using b st1(3) by (simp_all add: batch_ok_def loads_ok_def)
        note L = load_pages_ok [OF l lo(2) st1(4,5) same(2,3) [OF c1]]
        obtain c2 where c2: "st_cache st2 = Some c2" "scan_cache_ok c1 c2" using L st1(5) same(3) [OF c1] by (auto simp: counted_def)
        have cc: "scan_cache_ok c c2" by (rule scan_cache_ok_trans [OF c1 c2(2)])
        have f2: "framed st st2" using L st1(1) framed_trans by (auto simp: counted_def)
        show ?thesis
        proof (cases r2)
          case (Inl e)
          have "st2 = st2\<lparr>st_cache := Some c2\<rparr>" using c2(1) by simp
          then have "cache_true st2" using true [OF f2, of c2] same [OF cc] C(4) by metis
          then show ?thesis using r body loads small l Inl L f2 by auto
        next
          case res: (Inr pages)
          have pages: "pages = map (load_page ?B ?p) (ba_loads b)" "ring_idle st2" using L res st1(3) by simp_all
          obtain c3 where c3: "insert_pages (zip (map ld_key (ba_loads b)) pages) c2 = (Inr (), c3)" "pool_ok c3" "same_pages c2 c3"
            "contents_ok ?B ?p (contents c3)"
            using insert_loads_ok [OF same(3) [OF cc] cc lo(1) refl C(4)] by (auto simp: pages(1))
          have st': "st' = st2\<lparr>st_cache := Some c3\<rparr>" "r = Inr (copy_pending pages (ba_pending b) (ba_output b))"
            using r body loads small l res c2(1) c3(1) by simp_all
          have p3: "pc_page_bytes c3 = ?p" using c3(3) same(2) [OF cc] by (simp add: same_pages_def)
          have "ring_idle st'" using pages(2) c2(1) p3 same(2) [OF cc] by (auto simp: st'(1) ring_idle_def)
          moreover have "cache_true st'" unfolding st'(1) by (rule true [OF f2 c3(2) p3 c3(4)])
          moreover have "framed st st'" unfolding st'(1) using fr [OF f2 c3(2)] c3(3) same(4) [OF cc] by (simp add: same_pages_def)
          moreover have "length (ba_output b) = n" "list_all (copy_ok ?B ?p (ba_loads b) exp n) (ba_pending b)"
            using b by (simp_all add: batch_ok_def)
          note copy_pending_ok [OF pages(1) this(2,1)]
          ultimately show ?thesis using oute st'(2) by auto
        qed
      qed
    qed
  qed
qed

lemma mapE_Inr: "mapE f xs = Inr ys \<Longrightarrow> list_all2 (\<lambda>x y. f x = Inr y) xs ys"
  by (induction xs arbitrary: ys) (auto simp: bindE_Inr_iff)

lemma extent_ok_in:
  assumes "files_ok st" "extent_ok (st_layout st) n e = Inr ()"
  shows "unat (ex_offset e) + ex_bytes e \<le> length (bytes_of st (ex_file_index e)) \<and> ex_output_offset e + ex_bytes e \<le> n \<and> 0 < ex_bytes e"
proof -
  from assms(2) obtain x where x: "ple_file_size (st_layout st) (ex_file_index e) = Inr x" "\<not> ex_offset e > x"
    "ex_bytes e \<le> unat (x - ex_offset e)" "ex_bytes e \<noteq> 0" "ex_output_offset e \<le> n" "ex_bytes e \<le> n - ex_output_offset e"
    by (auto simp: extent_ok_def bindE_Inr_iff)
  then have "unat (x - ex_offset e) = unat x - unat (ex_offset e)" by (intro unat_u64_sub) simp
  then show ?thesis using x file_size_bytes [OF assms(1) x(1)] by (auto simp: word_less_nat_alt)
qed

lemma read_extents_ok:
  assumes r: "read_extents es out st = (r, st')" and ok: "store_ok st" and out: "length out = n"
    and exp: "\<And>e i. e \<in> set es \<Longrightarrow> i < ex_bytes e \<Longrightarrow>
      exp (ex_output_offset e + i) = bytes_of st (ex_file_index e) ! (unat (ex_offset e) + i)"
  shows "framed st st' \<and> cache_true st' \<and> (case r of Inl e \<Rightarrow> e \<noteq> Diverges
    | Inr out' \<Rightarrow> store_ok st' \<and> length out' = n \<and> (\<forall>j \<in> covered es. out' ! j = exp j))"
proof (cases "mapE (extent_ok (st_layout st) (length out)) es")
  case (Inl e)
  have "extent_ok l m x \<noteq> Inl Diverges" for l m x
    by (auto simp: extent_ok_def bindE_def guardE_def ple_file_size_def split: sum.splits option.splits if_splits)
  then have "e \<noteq> Diverges" using Inl by (induction es arbitrary: e) (auto simp: bindE_def split: sum.splits)
  then show ?thesis using r Inl ok by (auto simp: read_extents_def store_ok_def)
next
  case (Inr us)
  have "extent_ok (st_layout st) n e = Inr ()" if "e \<in> set es" for e
    using mapE_Inr [OF Inr] that out by (auto simp: list_all2_conv_all_nth in_set_conv_nth)
  then have es: "\<forall>e \<in> set es. extent_in (bytes_of st) exp n e \<and> 0 < ex_bytes e"
    using extent_ok_in [of st n] ok exp by (simp add: extent_in_def store_ok_def)
  show ?thesis
  proof (cases "es = [] \<and> out \<noteq> []")
    case True
    then show ?thesis using r ok by (auto simp: read_extents_def store_ok_def)
  next
    case False
    show ?thesis
    proof (cases "st_cache st")
      case None
      then have u: "read_uncached es out st = (r, st')" using r Inr False by (simp add: read_extents_def)
      note U = read_uncached_ok [OF u es out]
      have n: "st_cache st' = None" "framed st st'" "st_io_uring st' = st_io_uring st" using U None by (simp_all add: counted_def)
      then have s: "cache_true st'" "ring_idle st'" using ok None by (auto simp: store_ok_def cache_true_def ring_idle_def)
      have "j < n" if "j \<in> covered es" for j using that es by (auto simp: covered_def extent_in_def)
      then show ?thesis using U n s ok framed_files [OF n(2)] by (cases r) (auto simp: store_ok_def)
    next
      case (Some c)
      then have u: "read_cached c es out st = (r, st')" using r Inr False by (simp add: read_extents_def)
      have "\<forall>e \<in> set es. extent_in (bytes_of st) exp n e" using es by blast
      note U = read_cached_ok [OF u ok Some this out]
      have "framed st st'" using U by blast
      then show ?thesis using U ok framed_files by (cases r) (auto simp: store_ok_def)
    qed
  qed
qed

section \<open>Rows\<close>

text \<open>The bytes of a row, read off the file of its part.\<close>

definition row_bytes :: "PleStore \<Rightarrow> u64 \<Rightarrow> u8 list" where
  "row_bytes st row = (case find_part (st_layout st) row of Inl _ \<Rightarrow> []
     | Inr part \<Rightarrow> take (unat (pl_row_stride_bytes (st_layout st)))
         (drop (unat (row_offset (st_layout st) part row)) (bytes_of st (pp_file_index part))))"

lemma concat_same_length:
  assumes "\<forall>i < length xss. length (xss ! i) = n" "length ys = length xss * n"
    "\<forall>i < length xss. \<forall>k < n. ys ! (i * n + k) = xss ! i ! k"
  shows "ys = concat xss"
  using assms
proof (induction xss arbitrary: ys)
  case (Cons xs xss)
  have len: "length xs = n" using Cons.prems(1) by force
  have "drop n ys = concat xss"
  proof (rule Cons.IH)
    show "\<forall>i < length xss. length (xss ! i) = n" using Cons.prems(1) by force
    show "\<forall>i < length xss. \<forall>k < n. drop n ys ! (i * n + k) = xss ! i ! k"
      using Cons.prems(2,3) by (force simp: add.assoc [symmetric])
  qed (use Cons.prems(2) in simp)
  moreover have "take n ys = xs"
    using Cons.prems(2,3) len by (intro nth_equalityI) (force+)
  ultimately show ?case using append_take_drop_id [of n ys] by simp
qed simp

lemma read_extents_checked:
  assumes "read_extents es out st = (Inr out', st')" "e \<in> set es"
  shows "extent_ok (st_layout st) (length out) e = Inr ()"
proof -
  from assms(1) obtain us where "mapE (extent_ok (st_layout st) (length out)) es = Inr us"
    by (auto simp: read_extents_def split: sum.splits)
  then show ?thesis using mapE_Inr assms(2) by (fastforce simp: list_all2_conv_all_nth in_set_conv_nth)
qed

lemma count_rows_ok:
  assumes "store_ok st" and st1_def: "st1 = on_cache (count_in upd n \<circ> count_in upd' n') st"
  shows "store_ok st1" "framed st st1"
proof -
  have c: "counted st st1" unfolding st1_def by (rule counted_cache) (intro counted_stats)
  then show f: "framed st st1" by (simp add: counted_def)
  have "st_io_uring st1 = st_io_uring st" "st_files st1 = st_files st" by (simp_all add: st1_def on_cache_def)
  moreover have "\<exists>c'. st_cache st = Some c' \<and> pc_page_bytes c' = pc_page_bytes c1 \<and> contents c' = contents c1 \<and> pool_ok c1"
    if "st_cache st1 = Some c1" for c1
    using that c assms(1) by (cases "st_cache st") (auto simp: counted_def scan_cache_ok_def same_pages_def contents_def store_ok_def cache_true_def)
  moreover have "\<exists>c'. st_cache st1 = Some c' \<and> pc_page_bytes c' = pc_page_bytes c1" if "st_cache st = Some c1" for c1
    using that by (simp add: st1_def on_cache_def count_in_def)
  ultimately show "store_ok st1"
    using assms(1) framed_files [OF f] framed_bytes [OF f] unfolding store_ok_def cache_true_def ring_idle_def by metis
qed

lemma row_extents:
  assumes "mapE (\<lambda>(index, row). row_extent_at (st_layout st) index row) (zip [0 ..< length rows] rows) = Inr es"
  defines "stride \<equiv> unat (pl_row_stride_bytes (st_layout st))"
  shows "length es = length rows \<and> (\<forall>i < length rows. ex_output_offset (es ! i) = i * stride \<and> ex_bytes (es ! i) = stride \<and>
    row_bytes st (rows ! i) = take stride (drop (unat (ex_offset (es ! i))) (bytes_of st (ex_file_index (es ! i)))))"
proof -
  have a: "list_all2 (\<lambda>(index, row) e. row_extent_at (st_layout st) index row = Inr e) (zip [0 ..< length rows] rows) es"
    using mapE_Inr [OF assms(1)] by (simp add: case_prod_unfold)
  have at: "row_extent_at (st_layout st) i (rows ! i) = Inr (es ! i)" if "i < length rows" for i
    using a that by (auto simp: list_all2_conv_all_nth)
  have "ex_output_offset (es ! i) = i * stride \<and> ex_bytes (es ! i) = stride \<and>
    row_bytes st (rows ! i) = take stride (drop (unat (ex_offset (es ! i))) (bytes_of st (ex_file_index (es ! i))))"
    if "i < length rows" for i
  proof -
    note found = at [OF that]
    obtain part where "find_part (st_layout st) (rows ! i) = Inr part"
      "es ! i = \<lparr> ex_file_index = pp_file_index part, ex_offset = row_offset (st_layout st) part (rows ! i),
         ex_output_offset = i * stride, ex_bytes = stride \<rparr>"
      using found unfolding row_extent_at_def bindE_Inr_iff stride_def by (metis sum.inject(2))
    then show ?thesis by (simp add: row_bytes_def stride_def)
  qed
  then show ?thesis using list_all2_lengthD [OF a] by simp
qed

lemma read_rows_into_ok:
  assumes r: "read_rows_into rows out st = (r, st')" and ok: "store_ok st"
  shows "framed st st' \<and> cache_true st' \<and> (case r of Inl e \<Rightarrow> e \<noteq> Diverges
    | Inr out' \<Rightarrow> store_ok st' \<and> out' = concat (map (row_bytes st) rows))"
proof -
  define stride where "stride = unat (pl_row_stride_bytes (st_layout st))"
  define g where "g = (\<lambda>(index, row). row_extent_at (st_layout st) index row)"
  define st1 where "st1 = on_cache (count_in cs_useful_bytes_update (word_of_nat (length rows * stride)) \<circ>
    count_in cs_requested_rows_update (word_of_nat (length rows))) st"
  have st1: "store_ok st1" "framed st st1" using count_rows_ok [OF ok st1_def] by simp_all
  have body: "read_rows_into rows out st = (if length rows > 18446744073709551615 div stride
      then (Inl (RuntimeError ''PLE row batch byte size overflows''), st)
      else if length out \<noteq> length rows * stride then (Inl (InvalidArgument ''PLE output extent differs from row batch''), st)
      else (case mapE g (zip [0 ..< length rows] rows) of Inl e \<Rightarrow> (Inl e, st) | Inr es \<Rightarrow> read_extents es out st1))"
    unfolding read_rows_into_def stride_def g_def st1_def Let_def by (rule refl)
  have gd: "g x \<noteq> Inl Diverges" for x
    by (auto simp: g_def row_extent_at_def bindE_def find_part_def guardE_def Let_def split: sum.splits option.splits if_splits prod.splits)
  have inl: "mapE g xs = Inl e \<Longrightarrow> e \<noteq> Diverges" for xs e
    using gd by (induction xs arbitrary: e) (auto simp: bindE_def split: sum.splits)
  consider (error) e where "read_rows_into rows out st = (Inl e, st)" "e \<noteq> Diverges"
    | (run) es where "length out = length rows * stride" "mapE g (zip [0 ..< length rows] rows) = Inr es" "read_rows_into rows out st = read_extents es out st1"
  proof (cases "length rows > 18446744073709551615 div stride \<or> length out \<noteq> length rows * stride")
    case True
    then show ?thesis using body
      by (cases "length rows > 18446744073709551615 div stride") (auto intro: error)
  next
    case False
    then have b: "read_rows_into rows out st = (case mapE g (zip [0 ..< length rows] rows) of Inl e \<Rightarrow> (Inl e, st) | Inr es \<Rightarrow> read_extents es out st1)"
      using body by simp
    show ?thesis
    proof (cases "mapE g (zip [0 ..< length rows] rows)")
      case (Inl e)
      show ?thesis by (rule error [of e]) (use b Inl inl in simp_all)
    next
      case (Inr es)
      show ?thesis by (rule run [of es]) (use b Inr False in simp_all)
    qed
  qed
  then show ?thesis
  proof cases
    case error
    then show ?thesis using r ok by (auto simp: store_ok_def)
  next
    case run
    note E = row_extents [of st rows es, folded stride_def g_def, OF run(2)]
    define exp where "exp = (\<lambda>j. let e = es ! (j div stride) in bytes_of st (ex_file_index e) ! (unat (ex_offset e) + j mod stride))"
    have re: "read_extents es out st1 = (r, st')" using r run(3) by simp
    have B: "bytes_of st1 = bytes_of st" by (rule framed_bytes [OF st1(2)])
    have "exp (ex_output_offset e + i) = bytes_of st1 (ex_file_index e) ! (unat (ex_offset e) + i)"
      if "e \<in> set es" "i < ex_bytes e" for e i
    proof -
      note e = that(1)
      obtain k where "k < length rows" "e = es ! k" using e E by (auto simp: in_set_conv_nth)
      then show ?thesis using that(2) E by (simp add: exp_def B div_add1_eq Let_def)
    qed
    note R = read_extents_ok [OF re st1(1) refl this]
    show ?thesis
    proof (cases r)
      case (Inl e)
      then show ?thesis using R st1(2) by (auto dest: framed_trans)
    next
      case (Inr out')
      have len: "length (row_bytes st (rows ! i)) = stride \<and> (\<forall>k < stride. row_bytes st (rows ! i) ! k = exp (i * stride + k))"
        if "i < length rows" for i
      proof -
        have "extent_ok (st_layout st1) (length out) (es ! i) = Inr ()" using read_extents_checked re Inr E that by auto
        then have "unat (ex_offset (es ! i)) + stride \<le> length (bytes_of st (ex_file_index (es ! i)))"
          using extent_ok_in [of st1] st1(1) E that B by (auto simp: store_ok_def)
        then show ?thesis using E that by (simp add: exp_def div_add1_eq Let_def)
      qed
      have "i * stride + k \<in> covered es" if "i < length rows" "k < stride" for i k
        using E that by (auto simp: covered_def intro!: bexI [of _ "es ! i"])
      then have "out' = concat (map (row_bytes st) rows)"
        using R Inr run(1) len by (intro concat_same_length [where n = stride]) auto
      then show ?thesis using R Inr st1(2) by (auto dest: framed_trans)
    qed
  qed
qed

lemma read_rows_ok:
  assumes "read_rows rows st = (r, st')" "store_ok st"
  shows "framed st st' \<and> cache_true st' \<and> (case r of Inl e \<Rightarrow> e \<noteq> Diverges
    | Inr out \<Rightarrow> store_ok st' \<and> out = concat (map (row_bytes st) rows))"
proof (cases "length rows > 18446744073709551615 div unat (pl_row_stride_bytes (st_layout st))")
  case True
  then show ?thesis using assms by (auto simp: read_rows_def Let_def store_ok_def)
next
  case False
  then have "read_rows_into rows (replicate (length rows * unat (pl_row_stride_bytes (st_layout st))) 0) st = (r, st')"
    using assms(1) by (simp add: read_rows_def Let_def)
  from read_rows_into_ok [OF this assms(2)] show ?thesis .
qed

section \<open>Opening\<close>

lemma new_cache_ok:
  assumes "open_cache options = Inr (Some c)"
  shows "pool_ok c" "\<exists>k < 32. unat (pc_page_bytes c) = 2 ^ k" "contents c = {}" "pc_page_bytes c = so_cache_page_bytes options"
    "pc_capacity_bytes c = so_cache_bytes options"
proof -
  let ?p = "so_cache_page_bytes options" and ?n = "so_cache_bytes options"
  from assms have c: "c = new_cache ?n ?p" "?p \<noteq> 0" "?p AND (?p - 1) = 0" "ucast ?p \<le> ?n"
    by (auto simp: open_cache_def bindE_Inr_iff guardE_def split: if_splits)
  have p: "unat (ucast ?p :: u64) = unat ?p" by simp
  have "unat ?p \<le> unat ?n" "0 < unat ?p" using c(2,4) by (simp_all add: word_le_nat_alt unat_gt_0)
  then have "1 \<le> unat ?n div unat ?p" by (simp add: Suc_le_eq div_greater_zero_iff)
  then show "pool_ok c" by (simp add: c(1) pool_ok_def new_cache_def unat_div p)
  show "\<exists>k < 32. unat (pc_page_bytes c) = 2 ^ k" using power_of_two [OF c(2,3)] by (simp add: c(1) new_cache_def)
  show "contents c = {}" "pc_page_bytes c = ?p" "pc_capacity_bytes c = ?n" by (simp_all add: c(1) new_cache_def contents_def)
qed

lemma read_scales_frame:
  assumes "mapM_list read_scales parts st = (r, st')"
  shows "st_layout st' = st_layout st \<and> st_files st' = st_files st \<and> st_cache st' = st_cache st \<and> st_io_uring st' = st_io_uring st"
  using assms
proof (induction parts arbitrary: st)
  case (Cons part parts)
  obtain r1 st1 where r1: "read_scales part st = (r1, st1)" by fastforce
  then have "st_layout st1 = st_layout st \<and> st_files st1 = st_files st \<and> st_cache st1 = st_cache st \<and> st_io_uring st1 = st_io_uring st"
    by (auto simp: read_scales_def pread_exact_def Let_def split: prod.splits sum.splits)
  then show ?case using Cons r1 by (cases r1) (auto simp: thenM_def bindM_def)
qed (simp add: returnM_def)

text \<open>The file system agrees with the table of the files, and page numbers fit their field of a key.\<close>

definition system_ok :: "ple_system \<Rightarrow> PleLayout \<Rightarrow> PleStoreOptions \<Rightarrow> bool" where
  "system_ok sys layout options \<longleftrightarrow>
     (\<forall>f \<in> set (pl_files layout). \<forall>data. sy_files sys (pf_path f) = Some data \<longrightarrow>
        length data = unat (pf_file_bytes f) \<and> length data \<le> 2 ^ 56 * unat (so_cache_page_bytes options)) \<and>
     (\<forall>u. sy_uring sys = Some u \<longrightarrow> ur_in_flight u = [])"

text \<open>The row of a table, read off the file system.\<close>

definition file_row :: "ple_system \<Rightarrow> PleLayout \<Rightarrow> u64 \<Rightarrow> u8 list" where
  "file_row sys layout row =
     (case find_part layout row of Inl _ \<Rightarrow> []
      | Inr part \<Rightarrow>
          (case find (\<lambda>f. pf_index f = pp_file_index part) (pl_files layout) of None \<Rightarrow> []
           | Some f \<Rightarrow> take (unat (pl_row_stride_bytes layout))
               (drop (unat (row_offset layout part row)) (the (sy_files sys (pf_path f))))))"

definition opened :: "ple_system \<Rightarrow> PleLayout \<Rightarrow> PleStore \<Rightarrow> bool" where
  "opened sys layout st \<longleftrightarrow> st_layout st = layout \<and>
     list_all2 (\<lambda>x f. of_index x = pf_index f \<and> sy_files sys (pf_path f) = Some (of_data x)) (st_files st) (pl_files layout)"

lemma opened_row_bytes:
  assumes "opened sys layout st"
  shows "row_bytes st = file_row sys layout"
proof
  fix row
  have o: "st_layout st = layout"
    "list_all2 (\<lambda>x f. of_index x = pf_index f \<and> sy_files sys (pf_path f) = Some (of_data x)) (st_files st) (pl_files layout)"
    using assms by (simp_all add: opened_def)
  show "row_bytes st row = file_row sys layout row"
  proof (cases "find_part layout row")
    case (Inr part)
    show ?thesis
    proof (cases "find (\<lambda>f. pf_index f = pp_file_index part) (pl_files layout)")
      case None
      then show ?thesis using find_all2_None [OF o(2) None] Inr o(1) by (simp add: row_bytes_def file_row_def bytes_of_def)
    next
      case (Some f)
      then show ?thesis using find_all2 [OF o(2) Some] Inr o(1) by (auto simp: row_bytes_def file_row_def bytes_of_def)
    qed
  qed (simp add: row_bytes_def file_row_def o(1))
qed

lemma open_files_opened:
  assumes "mapE (open_file sys) fs = Inr files"
  shows "list_all2 (\<lambda>x f. of_index x = pf_index f \<and> sy_files sys (pf_path f) = Some (of_data x)) files fs"
  using mapE_Inr [OF assms]
  by (auto simp: list_all2_conv_all_nth open_file_def split: option.splits) (metis OpenFile.select_convs sum.inject(2))+

text \<open>What \<open>open_direct\<close> changes: the descriptors, the statistics, and the ring.\<close>

lemma open_direct_result:
  assumes "open_direct sys options st = Inr st'" "st_io_uring st = None"
  shows "st' = st \<or> so_io_mode options \<noteq> IoBuffered \<and> (\<exists>u c. sy_uring sys = Some u \<and> st_cache st = Some c \<and> pc_page_bytes c = 4096 \<and>
    st' = on_cache (\<lambda>c. c\<lparr>pc_stats := (pc_stats c)\<lparr>cs_io_uring_enabled := 1, cs_direct_io_enabled := 1\<rparr>\<rparr>)
              (st\<lparr>st_files := map (\<lambda>f. f\<lparr>of_direct := True\<rparr>) (st_files st),
                 st_io_uring := Some (u\<lparr>ur_queue_depth := unat (so_queue_depth options), ur_page_bytes := 4096\<rparr>)\<rparr>))"
  using assms by (auto simp: open_direct_def Let_def bindE_Inr_iff split: if_splits option.splits)

lemma opened_files_ok:
  assumes "opened sys layout st" "system_ok sys layout options"
  shows "files_ok st"
  using assms unfolding opened_def files_ok_def system_ok_def
  by (auto simp: list_all2_conv_all_nth)

lemma opened_keys_fit:
  assumes "opened sys layout st" "system_ok sys layout options"
  shows "keys_fit (bytes_of st) (so_cache_page_bytes options)"
proof -
  have "length (of_data x) \<le> 2 ^ 56 * unat (so_cache_page_bytes options)" if "x \<in> set (st_files st)" for x
  proof -
    from assms(1) have l: "list_all2 (\<lambda>x f. of_index x = pf_index f \<and> sy_files sys (pf_path f) = Some (of_data x)) (st_files st) (pl_files layout)"
      by (simp add: opened_def)
    from that obtain i where i: "i < length (st_files st)" "x = st_files st ! i" by (auto simp: in_set_conv_nth)
    define f where "f = pl_files layout ! i"
    have "f \<in> set (pl_files layout)" "sy_files sys (pf_path f) = Some (of_data x)"
      using list_all2_lengthD [OF l] list_all2_nthD [OF l i(1)] i by (simp_all add: f_def)
    then show ?thesis using assms(2) unfolding system_ok_def by blast
  qed
  then show ?thesis by (auto simp: keys_fit_def bytes_of_def find_Some_iff split: option.splits)
qed

lemma bindE_const: "bindE r (\<lambda>_. x) = Inr y \<Longrightarrow> x = Inr y"
  by (cases r) simp_all

lemma open_store_steps:
  assumes "open_store sys layout options = Inr st"
  shows "\<exists>c files st1. open_cache options = Inr c \<and> mapE (open_file sys) (pl_files layout) = Inr files \<and> st_layout st1 = layout \<and>
    st_files st1 = files \<and> st_cache st1 = c \<and> st_io_uring st1 = None \<and> open_direct sys options st1 = Inr st"
proof -
  from assms obtain c files where c: "open_cache options = Inr c" and f: "mapE (open_file sys) (pl_files layout) = Inr files"
    unfolding open_store_def bindE_Inr_iff by blast
  define st0 where "st0 = \<lparr> st_layout = layout, st_files = files, st_scale_parts = [], st_cache = c, st_io_uring = None,
       st_scale_resident_bytes = 0, st_io = sy_io sys, st_errno = sy_errno sys, st_clock = sy_clock sys \<rparr>"
  obtain r2 st2 where r2: "mapM_list read_scales (pl_parts layout) (st0\<lparr>st_scale_parts := replicate (length (pl_parts layout)) []\<rparr>) = (r2, st2)"
    by fastforce
  have "bindE (if pl_storage_dtype layout = Fp8E4M3 then (case (r2, st2) of (Inl e, _) \<Rightarrow> Inl e | (Inr _, st) \<Rightarrow> Inr st) else Inr st0)
      (open_direct sys options) = Inr st"
  proof -
    have "open_store sys layout options = bindE (guardE (\<not> (so_queue_depth options = 0 \<or> so_queue_depth options > 4096))
        (InvalidArgument ''PLE I/O queue depth is invalid'')) (\<lambda>_.
      bindE (if pl_storage_dtype layout = Fp8E4M3 then (case (r2, st2) of (Inl e, _) \<Rightarrow> Inl e | (Inr _, st) \<Rightarrow> Inr st) else Inr st0)
      (open_direct sys options))"
      unfolding open_store_def c f Let_def bindE_simps(2) st0_def [symmetric] r2 by (rule refl)
    from bindE_const [OF this [symmetric, THEN trans, OF assms]] show ?thesis .
  qed
  then have "open_direct sys options st2 = Inr st \<or> open_direct sys options st0 = Inr st"
    by (auto simp: bindE_Inr_iff split: if_splits sum.splits)
  moreover have "st_layout st0 = layout" "st_files st0 = files" "st_cache st0 = c" "st_io_uring st0 = None" by (simp_all add: st0_def)
  moreover from this have "st_layout st2 = layout" "st_files st2 = files" "st_cache st2 = c" "st_io_uring st2 = None"
    using read_scales_frame [OF r2] by simp_all
  ultimately show ?thesis using c f by metis
qed

lemma open_store_ok:
  assumes o: "open_store sys layout options = Inr st" and s: "system_ok sys layout options"
  shows "store_ok st \<and> opened sys layout st \<and> (so_io_mode options = IoBuffered \<longrightarrow> st_io_uring st = None) \<and>
    (\<forall>c. st_cache st = Some c \<longrightarrow> pc_capacity_bytes c = so_cache_bytes options)"
proof -
  from open_store_steps [OF o] obtain c files st1 where c: "open_cache options = Inr c" and f: "mapE (open_file sys) (pl_files layout) = Inr files"
    and st1: "st_layout st1 = layout" "st_files st1 = files" "st_cache st1 = c" "st_io_uring st1 = None" and d: "open_direct sys options st1 = Inr st"
    by blast
  have op1: "opened sys layout st1" using open_files_opened [OF f] st1 by (simp add: opened_def)
  have direct: "map (\<lambda>f. f\<lparr>of_direct := True\<rparr>) files ! i = (files ! i)\<lparr>of_direct := True\<rparr>" if "i < length files" for i using that by simp
  have cache: "pool_ok x" "\<exists>k < 32. unat (pc_page_bytes x) = 2 ^ k" "contents x = {}" "pc_page_bytes x = so_cache_page_bytes options"
    "pc_capacity_bytes x = so_cache_bytes options" if "c = Some x" for x
    using new_cache_ok c that by blast+
  have ok: "store_ok st'" if "opened sys layout st'" "ring_idle st'"
    "\<forall>y. st_cache st' = Some y \<longrightarrow> (\<exists>x. c = Some x \<and> scan_cache_ok x y)" for st'
  proof -
    have "pool_ok y \<and> (\<exists>k < 32. unat (pc_page_bytes y) = 2 ^ k) \<and> contents y = {} \<and> pc_page_bytes y = so_cache_page_bytes options"
      if y: "st_cache st' = Some y" for y
      using that \<open>\<forall>y. st_cache st' = Some y \<longrightarrow> _\<close> cache by (auto simp: scan_cache_ok_def same_pages_def contents_def)
    then show ?thesis
      using opened_files_ok [OF that(1) s] opened_keys_fit [OF that(1) s] that(2) by (auto simp: store_ok_def cache_true_def contents_ok_def)
  qed
  show ?thesis
  proof (cases "st = st1")
    case True
    have "ring_idle st1" using st1(4) by (simp add: ring_idle_def)
    then have "store_ok st1" using ok [OF op1] cache(1) st1(3) scan_cache_ok_refl by blast
    then show ?thesis using True op1 st1(3,4) cache(5) by simp
  next
    case False
    then obtain u x where u: "so_io_mode options \<noteq> IoBuffered" "sy_uring sys = Some u" "c = Some x" "pc_page_bytes x = 4096"
      and st: "st = on_cache (\<lambda>c. c\<lparr>pc_stats := (pc_stats c)\<lparr>cs_io_uring_enabled := 1, cs_direct_io_enabled := 1\<rparr>\<rparr>)
              (st1\<lparr>st_files := map (\<lambda>f. f\<lparr>of_direct := True\<rparr>) (st_files st1),
                 st_io_uring := Some (u\<lparr>ur_queue_depth := unat (so_queue_depth options), ur_page_bytes := 4096\<rparr>)\<rparr>)"
      using open_direct_result [OF d st1(4)] st1(3) by blast
    define y where "y = x\<lparr>pc_stats := (pc_stats x)\<lparr>cs_io_uring_enabled := 1, cs_direct_io_enabled := 1\<rparr>\<rparr>"
    have f: "st_layout st = layout" "st_files st = map (\<lambda>f. f\<lparr>of_direct := True\<rparr>) files" "st_cache st = Some y"
      "st_io_uring st = Some (u\<lparr>ur_queue_depth := unat (so_queue_depth options), ur_page_bytes := 4096\<rparr>)"
      using st1 u(3) by (simp_all add: st on_cache_def y_def)
    have op: "opened sys layout st" using op1 unfolding opened_def f st1 by (simp add: list_all2_map1)
    have "ur_in_flight u = []" using s u(2) by (simp add: system_ok_def)
    then have ring: "ring_idle st" unfolding ring_idle_def f using u(4) by (simp add: y_def list_all_iff)
    have xy: "scan_cache_ok x y" using cache(1) [OF u(3)] by (simp add: scan_cache_ok_def same_pages_def y_def pool_ok_def)
    have "store_ok st" by (rule ok [OF op ring]) (use f(3) u(3) xy in simp)
    then show ?thesis using op u f(3) cache(5) [OF u(3)] by (simp add: y_def)
  qed
qed

section \<open>Batches\<close>

text \<open>A sequence of batches with the result of each; the store is used on after an error.\<close>

fun read_batches :: "u64 list list \<Rightarrow> PleStore \<Rightarrow> (exn + u8 list) list \<times> PleStore" where
  "read_batches [] st = ([], st)"
| "read_batches (rows # batches) st =
     (case read_rows rows st of (r, st) \<Rightarrow>
      case read_batches batches st of (rs, st) \<Rightarrow> (r # rs, st))"

definition batch_exact :: "(u64 \<Rightarrow> u8 list) \<Rightarrow> u64 list \<Rightarrow> exn + u8 list \<Rightarrow> bool" where
  "batch_exact table rows r \<longleftrightarrow> (case r of Inl e \<Rightarrow> e \<noteq> Diverges | Inr bytes \<Rightarrow> bytes = concat (map table rows))"

lemma framed_row_bytes: "framed st st' \<Longrightarrow> row_bytes st' = row_bytes st"
proof -
  assume f: "framed st st'"
  then have "st_layout st' = st_layout st" by (simp add: framed_def)
  then show ?thesis unfolding row_bytes_def [abs_def] by (simp only: framed_bytes [OF f])
qed

lemma store_ok_after:
  assumes "read_rows rows st = (r, st')" "store_ok st" "st_io_uring st = None \<or> (\<exists>out. r = Inr out)"
  shows "store_ok st'"
proof -
  have R: "framed st st'" "cache_true st'" "case r of Inl e \<Rightarrow> e \<noteq> Diverges
    | Inr out \<Rightarrow> store_ok st' \<and> out = concat (map (row_bytes st) rows)"
    using read_rows_ok [OF assms(1,2)] by blast+
  show ?thesis
  proof (cases "st_io_uring st")
    case None
    then have "st_io_uring st' = None" using R(1) by (simp add: framed_def)
    then show ?thesis using R(2) assms(2) framed_files [OF R(1)] by (simp add: store_ok_def ring_idle_def)
  next
    case (Some u)
    then show ?thesis using R(3) assms(3) by auto
  qed
qed

lemma read_batches_exact:
  assumes "read_batches batches st = (rs, st')" "store_ok st" "st_io_uring st = None"
  shows "list_all2 (batch_exact (row_bytes st)) batches rs \<and> store_ok st' \<and> framed st st'"
  using assms
proof (induction batches arbitrary: st rs)
  case (Cons rows batches)
  obtain r st1 where r: "read_rows rows st = (r, st1)" by fastforce
  obtain rs1 where rs: "read_batches batches st1 = (rs1, st')" "rs = r # rs1" using Cons.prems(1) r by (auto split: prod.splits)
  have R: "framed st st1" "case r of Inl e \<Rightarrow> e \<noteq> Diverges | Inr out \<Rightarrow> store_ok st1 \<and> out = concat (map (row_bytes st) rows)"
    using read_rows_ok [OF r Cons.prems(2)] by blast+
  have s1: "store_ok st1" by (rule store_ok_after [OF r Cons.prems(2)]) (simp add: Cons.prems(3))
  have "st_io_uring st1 = None" using R(1) Cons.prems(3) by (simp add: framed_def)
  from Cons.IH [OF rs(1) s1 this] have "list_all2 (batch_exact (row_bytes st)) batches rs1 \<and> store_ok st' \<and> framed st1 st'"
    by (simp add: framed_row_bytes [OF R(1)])
  moreover have "batch_exact (row_bytes st) rows r" using R(2) by (cases r) (simp_all add: batch_exact_def)
  ultimately show ?case using rs(2) framed_trans [OF R(1)] by simp
qed simp

lemma resident_bound:
  assumes "store_ok st" "st_cache st = Some c"
  shows "cs_resident_bytes (cache_stats st) \<le> pc_capacity_bytes c"
proof -
  have p: "pool_ok c" using assms by (auto simp: store_ok_def cache_true_def)
  have "length (pc_entries c) = card (set (map snd (pc_entries c)))"
    using p distinct_card [of "map snd (pc_entries c)"] by (simp add: pool_ok_def)
  also have "\<dots> \<le> card {..< length (pc_memory c)}" using p by (intro card_mono) (auto simp: pool_ok_def)
  also have "\<dots> \<le> pc_max_pages c" using p by (simp add: pool_ok_def)
  finally have n: "length (pc_entries c) \<le> pc_max_pages c" .
  have "length (pc_entries c) * unat (pc_page_bytes c) \<le> pc_max_pages c * unat (pc_page_bytes c)" by (rule mult_le_mono1 [OF n])
  also have "\<dots> \<le> unat (pc_capacity_bytes c)" using p by (simp add: pool_ok_def)
  finally have b: "length (pc_entries c) * unat (pc_page_bytes c) \<le> unat (pc_capacity_bytes c)" .
  have "word_of_nat (length (pc_entries c)) * ucast (pc_page_bytes c) = (word_of_nat (length (pc_entries c) * unat (pc_page_bytes c)) :: u64)"
    by (simp add: word_unat_eq_iff unat_word_ariths unsigned_of_nat take_bit_nat_def mod_mult_left_eq)
  then have r: "cs_resident_bytes (cache_stats st) = word_of_nat (length (pc_entries c) * unat (pc_page_bytes c))"
    using assms(2) by (simp add: cache_stats_def Let_def)
  have "length (pc_entries c) * unat (pc_page_bytes c) < 2 ^ LENGTH(64)" by (rule le_less_trans [OF b]) (use unat_u64_lt [of "pc_capacity_bytes c"] in simp)
  then have "unat (cs_resident_bytes (cache_stats st)) = length (pc_entries c) * unat (pc_page_bytes c)"
    unfolding r unsigned_of_nat by (simp only: take_bit_nat_eq_self of_nat_id)
  then show ?thesis using b by (simp add: word_le_nat_alt)
qed

lemma framed_opened: "framed st st' \<Longrightarrow> opened sys layout st \<Longrightarrow> opened sys layout st'"
  by (simp add: framed_def opened_def)

section \<open>Properties\<close>

text \<open>
  C15: The page cache cannot be seen. A store that was opened on files as long as the layout says, and that
  does not use the ring, answers any sequence of batches as the files do: whatever the capacity
  and the page size of the cache and whatever calls are interrupted, short or failing, every batch
  is either refused with an exception or is the rows of the files, one after the other. The
  invariant of the store holds after the batches, failed ones included.
\<close>

theorem ple_cache_transparent:
  assumes "open_store sys layout options = Inr st" and "system_ok sys layout options" and "st_io_uring st = None"
    and "read_batches batches st = (results, st')"
  shows "list_all2 (batch_exact (file_row sys layout)) batches results \<and> store_ok st'"
proof -
  have o: "store_ok st" "opened sys layout st" using open_store_ok [OF assms(1,2)] by blast+
  from read_batches_exact [OF assms(4) o(1) assms(3)] show ?thesis by (simp add: opened_row_bytes [OF o(2)])
qed


text \<open>
  C21: The cache stays within its capacity. However many batches a store without ring has served, failed ones
  included, the resident bytes it reports are at most the bytes it was opened with.
\<close>

theorem ple_cache_bounded:
  assumes "open_store sys layout options = Inr st" and "system_ok sys layout options" and "st_io_uring st = None"
    and "read_batches batches st = (results, st')"
  shows "cs_resident_bytes (cache_stats st') \<le> so_cache_bytes options"
proof -
  have o: "store_ok st" "\<forall>c. st_cache st = Some c \<longrightarrow> pc_capacity_bytes c = so_cache_bytes options"
    using open_store_ok [OF assms(1,2)] by blast+
  have R: "store_ok st'" "framed st st'" using read_batches_exact [OF assms(4) o(1) assms(3)] by blast+
  show ?thesis
  proof (cases "st_cache st")
    case None
    then have "st_cache st' = None" using R(2) by (simp add: framed_def)
    then show ?thesis by (simp add: cache_stats_def zero_cache_stats_def)
  next
    case (Some c)
    then have "pool_ok c" "pc_capacity_bytes c = so_cache_bytes options" using o by (simp_all add: store_ok_def cache_true_def)
    then obtain c' where "st_cache st' = Some c'" "pc_capacity_bytes c' = so_cache_bytes options"
      using R(2) Some by (auto simp: framed_def)
    then show ?thesis using resident_bound [OF R(1)] by simp
  qed
qed

definition demo_system :: ple_system where
  "demo_system = \<lparr> sy_files = [''t.bin'' \<mapsto> map word_of_nat [0 ..< 68]], sy_direct = (\<lambda>_. True), sy_uring = None,
     sy_io = [IoInterrupted, IoCount 3, IoCount 13, IoCount 16, IoFailed], sy_errno = ''EIO'', sy_clock = [5, 6, 7] \<rparr>"

definition demo_options :: PleStoreOptions where
  "demo_options = \<lparr> so_cache_bytes = 32, so_cache_page_bytes = 16, so_io_mode = IoBuffered, so_queue_depth = 1 \<rparr>"

definition demo_store :: PleStore where
  "demo_store = (case open_store demo_system demo_layout demo_options of Inr st \<Rightarrow> st)"

lemma demo_store_open:
  "open_store demo_system demo_layout demo_options = Inr demo_store" "system_ok demo_system demo_layout demo_options"
  "st_io_uring demo_store = None"
proof -
  have "\<not> isl (open_store demo_system demo_layout demo_options)" by code_simp
  then show o: "open_store demo_system demo_layout demo_options = Inr demo_store"
    by (cases "open_store demo_system demo_layout demo_options") (simp_all add: demo_store_def)
  show s: "system_ok demo_system demo_layout demo_options" by (simp add: system_ok_def demo_system_def demo_layout_def demo_options_def)
  show "st_io_uring demo_store = None" using open_store_ok [OF o s] by (simp add: demo_options_def)
qed

lemma scan_extent_numeral:
  "scan_extent (numeral k) layout extent copied b =
     (if copied < ex_bytes extent
      then (case scan_piece layout extent copied b of
              (Inl e, b) \<Rightarrow> (Inl e, b)
            | (Inr amount, b) \<Rightarrow> scan_extent (pred_numeral k) layout extent (copied + amount) b)
      else (Inr (), b))"
  by (simp add: numeral_eq_Suc)

lemma pread_loop_numeral:
  "pread_loop failure [] (numeral k) got rest =
     (if numeral k \<le> length rest then Inr (got @ take (numeral k) rest) else Inl failure, [])"
  "pread_loop failure (event # script) (numeral k) got rest =
     (case event of
        IoInterrupted \<Rightarrow> pread_loop failure script (numeral k) got rest
      | IoFailed \<Rightarrow> (Inl failure, script)
      | IoCount n \<Rightarrow>
          let count = min n (min (numeral k) (length rest)) in
          if count = 0 then (Inl failure, script)
          else pread_loop failure script (numeral k - count) (got @ take count rest) (drop count rest))"
  by (simp_all only: numeral_eq_Suc pread_loop.simps)

lemmas demo_eval = demo_store_def demo_system_def demo_layout_def demo_options_def open_store_def open_cache_def open_file_def
  open_direct_def new_cache_def read_rows_def read_rows_into_def row_extent_at_def find_part_def row_offset_def on_cache_def count_in_def
  read_extents_def extent_ok_def ple_file_size_def read_cached_def scan_batch_def scan_piece_def page_of_def page_key_def queue_load_def
  blit_def load_pages_def load_buffered_def pread_exact_def file_data_def note_queue_depth_def pad_page_def note_latency_def
  insert_page_def acquire_page_def grow_pages_def zero_cache_stats_def thenM_def bindM_def returnM_def upt_rec Let_def guardE_def
  scan_extent_numeral pread_loop_numeral touch_page_def

theorem ple_cache_transparent_witness:
  "list_all2 (batch_exact (file_row demo_system demo_layout)) [[0, 5, 1], [9], [5, 9], [16]] (fst (read_batches [[0, 5, 1], [9], [5, 9], [16]] demo_store)) \<and>
   fst (read_batches [[0, 5, 1], [9], [5, 9], [16]] demo_store) =
     [Inr [0, 1, 2, 3, 20, 21, 22, 23, 4, 5, 6, 7], Inl (RuntimeError ''PLE page read failed: EIO''),
      Inr [20, 21, 22, 23, 36, 37, 38, 39], Inl (RuntimeError ''PLE row is outside usable vocabulary'')]"
proof
  show "list_all2 (batch_exact (file_row demo_system demo_layout)) [[0, 5, 1], [9], [5, 9], [16]] (fst (read_batches [[0, 5, 1], [9], [5, 9], [16]] demo_store))"
    using ple_cache_transparent [OF demo_store_open prod.collapse [symmetric]] by blast
qed (simp add: demo_eval word_le_nat_alt)


theorem ple_cache_bounded_witness:
  "cs_resident_bytes (cache_stats (snd (read_batches [[0, 5, 1], [9], [5, 9], [16]] demo_store))) \<le> 32"
proof -
  have "so_cache_bytes demo_options = 32" by (simp add: demo_options_def)
  then show ?thesis using ple_cache_bounded [OF demo_store_open prod.collapse [symmetric]] by metis
qed

end
