(* ===== verification/PleBackend.thy ===== *)
theory PleBackend
  imports PleRows MockBackend
begin

text \<open>
  The decorator of stage 0 that keeps the n-gram history, class \<open>PleStage0Backend\<close> of
  \<^verbatim>\<open>include/q38/ple_backend.h\<close> and \<^verbatim>\<open>src/ple_backend.cc\<close>, over an arbitrary inner backend. It hashes the
  tokens of every chunk, reads their table rows, and keeps a candidate history per token, which only a
  commit makes final. The theory shows that the history follows exactly the accepted tokens, that the digest
  depends on the table files and not on the cache, and what a speculative stop does.
\<close>

section \<open>State\<close>

text \<open>\<open>pb_during\<close> holds what happens to the shared token during the calls of the inner backend, a batch per call.\<close>

record 'b ple_backend =
  pb_inner :: 'b
  pb_store :: PleStore
  pb_committed_hash :: PleHashState
  pb_candidate_hashes :: "PleHashState list"
  pb_provisional_epoch :: u64
  pb_provisional_expected :: u32
  pb_provisional_processed :: u32
  pb_during :: "env_event list list"

type_synonym ('b, 'a) pleM = "('b ple_backend, exn, 'a) M"

definition new_ple_backend :: "'b stage_backend_ops \<Rightarrow> 'b option \<Rightarrow> PleStore option \<Rightarrow> PleHashConfig \<Rightarrow> exn + 'b ple_backend" where
  "new_ple_backend I inner store hash_config =
     (case (inner, store) of
        (Some b, Some st) \<Rightarrow>
          if op_stage I b \<noteq> Stage0 then Inl (InvalidArgument ''PLE backend requires stage0 and a store'')
          else Inr \<lparr> pb_inner = b, pb_store = st, pb_committed_hash = new_hash_state hash_config, pb_candidate_hashes = [],
            pb_provisional_epoch = 0, pb_provisional_expected = 0, pb_provisional_processed = 0, pb_during = [] \<rparr>
      | _ \<Rightarrow> Inl (InvalidArgument ''PLE backend requires stage0 and a store''))"

definition on_inner :: "('b, exn, 'a) M \<Rightarrow> ('b, 'a) pleM" where
  "on_inner m = zoomM pb_inner (\<lambda>b s. s\<lparr>pb_inner := b\<rparr>) id m"

definition on_store :: "(PleStore, exn, 'a) M \<Rightarrow> ('b, 'a) pleM" where
  "on_store m = zoomM pb_store (\<lambda>st s. s\<lparr>pb_store := st\<rparr>) id m"

section \<open>Methods\<close>

definition ple_prefetch_transaction :: "'b stage_backend_ops \<Rightarrow> SessionTxn \<Rightarrow> i32 list \<Rightarrow> CancellationToken option \<Rightarrow> ('b, unit) pleM" where
  "ple_prefetch_transaction I txn token_ids cancellation = on_inner (op_prefetch_transaction I txn token_ids cancellation)"

text \<open>The token as the worker finds it after the call of the inner backend.\<close>

definition token_during :: "CancellationToken option \<Rightarrow> ('b, CancellationToken option) pleM" where
  "token_during c = (\<lambda>s. case pb_during s of
       [] \<Rightarrow> (Inr c, s)
     | batch # rest \<Rightarrow> (Inr (map_option (apply_env batch) c), s\<lparr>pb_during := rest\<rparr>))"

definition ple_contiguous :: "StageInput \<Rightarrow> 'b ple_backend \<Rightarrow> bool" where
  "ple_contiguous inp s =
     (let first = (pb_provisional_epoch s = 0) in
      \<not> (\<not> first \<and> (tx_epoch (in_txn inp) \<noteq> pb_provisional_epoch s \<or> tx_evaluated_count (in_txn inp) \<noteq> pb_provisional_expected s \<or>
           in_chunk_offset inp \<noteq> pb_provisional_processed s) \<or>
         first \<and> in_chunk_offset inp \<noteq> 0))"

definition ple_begin :: "StageInput \<Rightarrow> 'b ple_backend \<Rightarrow> 'b ple_backend" where
  "ple_begin inp s =
     (if pb_provisional_epoch s = 0
      then s\<lparr>pb_candidate_hashes := [], pb_provisional_epoch := tx_epoch (in_txn inp),
        pb_provisional_expected := tx_evaluated_count (in_txn inp)\<rparr>
      else s)"

text \<open>The loop over the tokens, with the candidate history and the digest as its locals.\<close>

fun ple_tokens :: "CancellationToken option \<Rightarrow> i32 list \<Rightarrow> PleHashState \<Rightarrow> u64 \<Rightarrow> ('b, u64) pleM" where
  "ple_tokens c [] candidate digest = thenM (poll c) (returnM digest)"
| "ple_tokens c (token # tokens) candidate digest =
     bindM (poll c) (\<lambda>c.
     bindM (liftE (\<lambda>_. hash_rows [token] candidate)) (\<lambda>(rows, candidate).
     bindM (on_store (read_rows rows)) (\<lambda>bytes.
     thenM (modifyM (\<lambda>s. s\<lparr>pb_candidate_hashes := pb_candidate_hashes s @ [candidate]\<rparr>))
       (ple_tokens c tokens candidate (hash_bytes digest bytes)))))"

definition ple_last_hash :: "'b ple_backend \<Rightarrow> PleHashState" where
  "ple_last_hash s = (if pb_candidate_hashes s = [] then pb_committed_hash s else last (pb_candidate_hashes s))"

definition ple_absorb :: "StageInput \<Rightarrow> CancellationToken option \<Rightarrow> StageOutput \<Rightarrow> ('b, StageOutput) pleM" where
  "ple_absorb inp c output =
     thenM (modifyM (ple_begin inp))
    (bindM (getM ple_last_hash) (\<lambda>candidate.
     bindM (ple_tokens c (in_token_ids inp) candidate (out_state_digest output)) (\<lambda>digest.
     thenM (modifyM (\<lambda>s. s\<lparr>pb_provisional_processed := pb_provisional_processed s + word_of_nat (length (in_token_ids inp))\<rparr>))
       (returnM (output\<lparr>out_state_digest := digest\<rparr>)))))"

definition ple_execute :: "'b stage_backend_ops \<Rightarrow> StageInput \<Rightarrow> ('b, StageOutput) pleM" where
  "ple_execute I inp =
     thenM (failIf (\<lambda>s. \<not> ple_contiguous inp s) (RuntimeError ''PLE backend received a noncontiguous chunk''))
    (bindM (on_inner (op_execute I inp)) (\<lambda>output.
     bindM (token_during (in_cancellation inp)) (\<lambda>c.
     catchM (ple_absorb inp c output)
       (\<lambda>e. thenM (modifyM (\<lambda>s. s\<lparr>pb_candidate_hashes := []\<rparr>)) (throwM e)))))"

definition ple_draft :: "'b stage_backend_ops \<Rightarrow> i32 \<Rightarrow> u64 \<Rightarrow> u32 \<Rightarrow> CancellationToken option \<Rightarrow> ('b, i32 list) pleM" where
  "ple_draft I pending_token position max_draft cancellation = on_inner (op_draft I pending_token position max_draft cancellation)"

definition ple_close :: "'b ple_backend \<Rightarrow> 'b ple_backend" where
  "ple_close s = s\<lparr>pb_candidate_hashes := [], pb_provisional_epoch := 0, pb_provisional_expected := 0, pb_provisional_processed := 0\<rparr>"

definition ple_commit :: "'b stage_backend_ops \<Rightarrow> u64 \<Rightarrow> u32 \<Rightarrow> ('b, unit) pleM" where
  "ple_commit I epo state_commit_count =
     thenM (failIf (\<lambda>s. epo \<noteq> pb_provisional_epoch s \<or> state_commit_count = 0 \<or>
         pb_provisional_processed s \<noteq> pb_provisional_expected s \<or> unat state_commit_count > length (pb_candidate_hashes s))
       (RuntimeError ''PLE commit does not match candidate state''))
    (thenM (on_inner (op_commit I epo state_commit_count))
       (modifyM (\<lambda>s. (ple_close s)\<lparr>pb_committed_hash := pb_candidate_hashes s ! unat (state_commit_count - 1)\<rparr>)))"

definition ple_rollback :: "'b stage_backend_ops \<Rightarrow> u64 \<Rightarrow> ('b, unit) pleM" where
  "ple_rollback I epo =
     thenM (on_inner (op_rollback I epo))
    (thenM (failIf (\<lambda>s. pb_provisional_epoch s \<noteq> 0 \<and> epo \<noteq> pb_provisional_epoch s) (RuntimeError ''PLE rollback epoch mismatch''))
       (modifyM ple_close))"

definition ple_reset_session :: "'b stage_backend_ops \<Rightarrow> ('b, unit) pleM" where
  "ple_reset_session I =
     thenM (failIf (\<lambda>s. pb_provisional_epoch s \<noteq> 0) (LogicError ''cannot reset an active PLE transaction''))
    (thenM (on_inner (op_reset_session I))
       (modifyM (\<lambda>s. (ple_close s)\<lparr>pb_committed_hash := hash_reset (pb_committed_hash s)\<rparr>)))"

text \<open>The metrics of the inner backend and the fields copied from the statistics of the store.\<close>

definition ple_metrics :: "'b stage_backend_ops \<Rightarrow> 'b ple_backend \<Rightarrow> StageBackendMetrics \<times> PleCacheStats" where
  "ple_metrics I s = (op_metrics I (pb_inner s), cache_stats (pb_store s))"

text \<open>The virtual table; the methods that the class does not override are inherited and do not reach the inner
  backend.\<close>

definition ple_ops :: "'b stage_backend_ops \<Rightarrow> 'b ple_backend stage_backend_ops" where
  "ple_ops I = \<lparr>
     op_stage = (\<lambda>_. Stage0),
     op_prefetch_transaction = ple_prefetch_transaction I,
     op_execute = ple_execute I,
     op_draft = ple_draft I,
     op_draft_retained = default_draft_retained (ple_draft I),
     op_checkpoint_speculative_prefix = default_checkpoint_speculative_prefix,
     op_reconcile_retained_draft = default_reconcile_retained_draft,
     op_abandon_retained_draft = default_abandon_retained_draft,
     op_commit = ple_commit I,
     op_rollback = ple_rollback I,
     op_reset_session = ple_reset_session I,
     op_metrics = (\<lambda>s. fst (ple_metrics I s)) \<rparr>"

section \<open>The history\<close>

text \<open>The history after a run of tokens.\<close>

definition hash_after :: "PleHashState \<Rightarrow> i32 list \<Rightarrow> PleHashState" where
  "hash_after s tokens = (case hash_loop (hs_config s) (hs_older s) (hs_newer s) tokens of
     (rows, older, newer) \<Rightarrow> s\<lparr>hs_older := older, hs_newer := newer\<rparr>)"

definition table_rows :: "PleHashState \<Rightarrow> i32 list \<Rightarrow> u64 list" where
  "table_rows s tokens = fst (hash_loop (hs_config s) (hs_older s) (hs_newer s) tokens)"

lemma hash_after_Nil [simp]: "hash_after s [] = s"
  by (simp add: hash_after_def)

lemma hash_after_append: "hash_after s (xs @ ys) = hash_after (hash_after s xs) ys"
  by (auto simp: hash_after_def hash_loop_append split: prod.splits)

lemma table_rows_append: "table_rows s (xs @ ys) = table_rows s xs @ table_rows (hash_after s xs) ys"
  by (auto simp: hash_after_def table_rows_def hash_loop_append split: prod.splits)

lemma hash_rows_result: "hash_rows ts s = Inr (rows, s') \<Longrightarrow> rows = table_rows s ts \<and> s' = hash_after s ts"
  by (auto simp: hash_rows_def bindE_Inr_iff hash_after_def table_rows_def split: prod.splits)

text \<open>The candidate histories of a run of tokens, one per token.\<close>

definition histories :: "PleHashState \<Rightarrow> i32 list \<Rightarrow> PleHashState list" where
  "histories s ts = map (\<lambda>k. hash_after s (take (Suc k) ts)) [0 ..< length ts]"

lemma length_histories [simp]: "length (histories s ts) = length ts"
  by (simp add: histories_def)

lemma histories_append: "histories s (xs @ ys) = histories s xs @ histories (hash_after s xs) ys"
  by (rule nth_equalityI) (auto simp: histories_def nth_append hash_after_append Suc_diff_le not_less)

lemma histories_Cons: "histories s (t # ts) = hash_after s [t] # histories (hash_after s [t]) ts"
  using histories_append [of s "[t]" ts] by (simp add: histories_def)

lemma histories_last: "ts \<noteq> [] \<Longrightarrow> last (histories s ts) = hash_after s ts"
  by (simp add: histories_def last_map)

text \<open>A store in its invariant that was opened on the files of a layout.\<close>

definition table_open :: "ple_system \<Rightarrow> PleLayout \<Rightarrow> PleStore \<Rightarrow> bool" where
  "table_open sys layout st \<longleftrightarrow> store_ok st \<and> opened sys layout st"

definition rows_content :: "ple_system \<Rightarrow> PleLayout \<Rightarrow> PleHashState \<Rightarrow> i32 list \<Rightarrow> u8 list" where
  "rows_content sys layout s ts = concat (map (file_row sys layout) (table_rows s ts))"

definition ple_frame :: "'b ple_backend \<Rightarrow> 'b ple_backend \<Rightarrow> bool" where
  "ple_frame s s' \<longleftrightarrow> pb_inner s' = pb_inner s \<and> pb_committed_hash s' = pb_committed_hash s \<and>
     pb_provisional_epoch s' = pb_provisional_epoch s \<and> pb_provisional_expected s' = pb_provisional_expected s \<and>
     pb_provisional_processed s' = pb_provisional_processed s"

lemma read_rows_wp:
  "wp (read_rows rows) (\<lambda>bytes st'. table_open sys layout st \<longrightarrow>
      table_open sys layout st' \<and> bytes = concat (map (file_row sys layout) rows)) (\<lambda>_ _. True) st"
proof -
  obtain r st' where r: "read_rows rows st = (r, st')" by fastforce
  show ?thesis
  proof (cases "table_open sys layout st")
    case True
    then have o: "store_ok st" "opened sys layout st" by (simp_all add: table_open_def)
    have "framed st st'" "case r of Inl e \<Rightarrow> e \<noteq> Diverges | Inr out \<Rightarrow> store_ok st' \<and> out = concat (map (row_bytes st) rows)"
      using read_rows_ok [OF r o(1)] by blast+
    then show ?thesis using r framed_opened [OF _ o(2)] opened_row_bytes [OF o(2)] by (cases r) (simp_all add: wp_def table_open_def)
  qed (simp add: wp_def r split: sum.splits)
qed

lemma ple_tokens_wp:
  "wp (ple_tokens c ts candidate digest)
     (\<lambda>digest' s'. ple_frame s s' \<and> pb_candidate_hashes s' = pb_candidate_hashes s @ histories candidate ts \<and>
        (table_open sys layout (pb_store s) \<longrightarrow> table_open sys layout (pb_store s') \<and>
          digest' = hash_bytes digest (rows_content sys layout candidate ts)))
     (\<lambda>_ s'. ple_frame s s') s"
proof (induction ts arbitrary: c candidate digest s)
  case Nil
  show ?case unfolding ple_tokens.simps
    by (rule wp_thenI [OF poll_wp]) (auto simp: wp_returnM ple_frame_def histories_def rows_content_def table_rows_def)
next
  case (Cons t ts)
  let ?c = "hash_after candidate [t]" and ?rows = "table_rows candidate [t]"
  have split: "rows_content sys layout candidate (t # ts) = concat (map (file_row sys layout) ?rows) @ rows_content sys layout ?c ts"
    using table_rows_append [of candidate "[t]" ts] by (simp add: rows_content_def)
  show ?case unfolding ple_tokens.simps
  proof (rule wp_bindI [OF poll_wp])
    fix c' s1
    assume "s1 = s"
    moreover have "wp (bindM (on_store (read_rows ?rows)) (\<lambda>bytes.
       thenM (modifyM (\<lambda>s. s\<lparr>pb_candidate_hashes := pb_candidate_hashes s @ [?c]\<rparr>)) (ple_tokens c' ts ?c (hash_bytes digest bytes))))
      (\<lambda>digest' s'. ple_frame s s' \<and> pb_candidate_hashes s' = pb_candidate_hashes s @ histories candidate (t # ts) \<and>
        (table_open sys layout (pb_store s) \<longrightarrow> table_open sys layout (pb_store s') \<and>
          digest' = hash_bytes digest (rows_content sys layout candidate (t # ts)))) (\<lambda>_ s'. ple_frame s s') s"
      unfolding wp_bindM on_store_def wp_zoomM wp_thenM wp_modifyM
    proof (rule wp_mono [OF read_rows_wp])
      fix bytes st
      assume st: "table_open sys layout (pb_store s) \<longrightarrow> table_open sys layout st \<and> bytes = concat (map (file_row sys layout) ?rows)"
      show "wp (ple_tokens c' ts ?c (hash_bytes digest bytes))
        (\<lambda>digest' s'. ple_frame s s' \<and> pb_candidate_hashes s' = pb_candidate_hashes s @ histories candidate (t # ts) \<and>
        (table_open sys layout (pb_store s) \<longrightarrow> table_open sys layout (pb_store s') \<and>
          digest' = hash_bytes digest (rows_content sys layout candidate (t # ts)))) (\<lambda>_ s'. ple_frame s s')
        (s\<lparr>pb_store := st, pb_candidate_hashes := pb_candidate_hashes (s\<lparr>pb_store := st\<rparr>) @ [?c]\<rparr>)"
        by (rule wp_mono [OF Cons.IH]) (use st in \<open>auto simp: ple_frame_def histories_Cons split hash_bytes_append\<close>)
    qed (simp add: ple_frame_def)
    ultimately show "wp (bindM (liftE (\<lambda>_. hash_rows [t] candidate)) (\<lambda>(rows, candidate).
         bindM (on_store (read_rows rows)) (\<lambda>bytes.
         thenM (modifyM (\<lambda>s. s\<lparr>pb_candidate_hashes := pb_candidate_hashes s @ [candidate]\<rparr>)) (ple_tokens c' ts candidate (hash_bytes digest bytes)))))
      (\<lambda>digest' s'. ple_frame s s' \<and> pb_candidate_hashes s' = pb_candidate_hashes s @ histories candidate (t # ts) \<and>
        (table_open sys layout (pb_store s) \<longrightarrow> table_open sys layout (pb_store s') \<and>
          digest' = hash_bytes digest (rows_content sys layout candidate (t # ts)))) (\<lambda>_ s'. ple_frame s s') s1"
      using hash_rows_result [of "[t]" candidate]
      by (cases "hash_rows [t] candidate") (auto simp: wp_bindM wp_liftE ple_frame_def)
  qed (simp add: ple_frame_def)
qed

section \<open>Transactions\<close>

text \<open>The tokens of the open transaction, as far as they were processed.\<close>

definition ple_history :: "i32 list \<Rightarrow> 'b ple_backend \<Rightarrow> bool" where
  "ple_history ts s \<longleftrightarrow> pb_candidate_hashes s = histories (pb_committed_hash s) ts \<and>
     pb_provisional_processed s = word_of_nat (length ts) \<and> (pb_provisional_epoch s = 0 \<longrightarrow> ts = [])"

definition ple_idle :: "'b ple_backend \<Rightarrow> bool" where
  "ple_idle s \<longleftrightarrow> pb_provisional_epoch s = 0 \<and> ple_history [] s"

lemma ple_close_idle: "ple_idle (ple_close s)" "pb_committed_hash (ple_close s) = pb_committed_hash s"
  by (simp_all add: ple_idle_def ple_history_def ple_close_def histories_def)

lemma histories_Nil [simp]: "histories s ts = [] \<longleftrightarrow> ts = []" "histories s [] = []"
  by (simp_all add: histories_def)

lemma ple_last_history:
  assumes "ple_history ts s"
  shows "ple_last_hash s = hash_after (pb_committed_hash s) ts"
proof -
  have "pb_candidate_hashes s = histories (pb_committed_hash s) ts" using assms by (simp add: ple_history_def)
  then show ?thesis by (cases "ts = []") (simp_all add: ple_last_hash_def histories_last)
qed

lemma ple_absorb_wp:
  assumes h: "ple_history ts s" and e: "tx_epoch (in_txn inp) \<noteq> 0" and k: "pb_provisional_epoch s \<in> {0, tx_epoch (in_txn inp)}"
  shows "wp (ple_absorb inp c output)
    (\<lambda>out s'. ple_history (ts @ in_token_ids inp) s' \<and> pb_committed_hash s' = pb_committed_hash s \<and> pb_inner s' = pb_inner s \<and>
       pb_provisional_epoch s' = tx_epoch (in_txn inp) \<and>
       (table_open sys layout (pb_store s) \<longrightarrow> table_open sys layout (pb_store s') \<and>
         out = output\<lparr>out_state_digest := hash_bytes (out_state_digest output)
           (rows_content sys layout (hash_after (pb_committed_hash s) ts) (in_token_ids inp))\<rparr>))
    (\<lambda>_ s'. pb_committed_hash s' = pb_committed_hash s) s"
proof -
  define b where "b = ple_begin inp s"
  have b: "ple_history ts b" "pb_provisional_epoch b = tx_epoch (in_txn inp)" "pb_committed_hash b = pb_committed_hash s"
    "pb_store b = pb_store s" "pb_inner b = pb_inner s"
    using h k by (auto simp: b_def ple_begin_def ple_history_def histories_def)
  have l: "ple_last_hash b = hash_after (pb_committed_hash s) ts" using ple_last_history [OF b(1)] b(3) by simp
  show ?thesis
    unfolding ple_absorb_def wp_thenM wp_modifyM wp_bindM wp_getM wp_returnM b_def [symmetric] l
    by (rule wp_mono [OF ple_tokens_wp [where sys = sys and layout = layout]])
      (use b e in \<open>auto simp: ple_frame_def ple_history_def histories_append\<close>)
qed

lemma ple_execute_wp:
  assumes h: "ple_history ts s" and e: "tx_epoch (in_txn inp) \<noteq> 0"
  shows "wp (ple_execute I inp)
    (\<lambda>out s'. ple_history (ts @ in_token_ids inp) s' \<and> pb_committed_hash s' = pb_committed_hash s \<and>
       pb_provisional_epoch s' = tx_epoch (in_txn inp) \<and>
       (\<exists>output. op_execute I inp (pb_inner s) = (Inr output, pb_inner s') \<and>
         (table_open sys layout (pb_store s) \<longrightarrow> table_open sys layout (pb_store s') \<and>
           out = output\<lparr>out_state_digest := hash_bytes (out_state_digest output)
             (rows_content sys layout (hash_after (pb_committed_hash s) ts) (in_token_ids inp))\<rparr>)))
    (\<lambda>_ s'. pb_committed_hash s' = pb_committed_hash s) s"
proof (cases "ple_contiguous inp s")
  case True
  then have k: "pb_provisional_epoch s \<in> {0, tx_epoch (in_txn inp)}" by (auto simp: ple_contiguous_def Let_def)
  obtain r b where r: "op_execute I inp (pb_inner s) = (r, b)" by fastforce
  show ?thesis
  proof (cases r)
    case (Inl err)
    then show ?thesis using True r by (simp add: ple_execute_def wp_simps on_inner_def) (simp add: wp_def)
  next
    case (Inr produced)
    obtain c s1 where c: "token_during (in_cancellation inp) (s\<lparr>pb_inner := b\<rparr>) = (Inr c, s1)"
      and s1: "pb_candidate_hashes s1 = pb_candidate_hashes s" "pb_committed_hash s1 = pb_committed_hash s" "pb_store s1 = pb_store s"
        "pb_inner s1 = b" "pb_provisional_epoch s1 = pb_provisional_epoch s" "pb_provisional_processed s1 = pb_provisional_processed s"
      by (cases "pb_during s") (auto simp: token_during_def)
    have h1: "ple_history ts s1" using h s1 by (simp add: ple_history_def)
    have k1: "pb_provisional_epoch s1 \<in> {0, tx_epoch (in_txn inp)}" using k s1 by simp
    have run: "ple_execute I inp s = catchM (ple_absorb inp c produced)
       (\<lambda>e. thenM (modifyM (\<lambda>s. s\<lparr>pb_candidate_hashes := []\<rparr>)) (throwM e)) s1"
      using True r Inr c by (simp add: ple_execute_def thenM_def bindM_def failIf_def on_inner_def zoomM_def)
    have "wp (catchM (ple_absorb inp c produced) (\<lambda>e. thenM (modifyM (\<lambda>s. s\<lparr>pb_candidate_hashes := []\<rparr>)) (throwM e)))
      (\<lambda>out s'. ple_history (ts @ in_token_ids inp) s' \<and> pb_committed_hash s' = pb_committed_hash s \<and>
       pb_provisional_epoch s' = tx_epoch (in_txn inp) \<and>
       (\<exists>output. op_execute I inp (pb_inner s) = (Inr output, pb_inner s') \<and>
         (table_open sys layout (pb_store s) \<longrightarrow> table_open sys layout (pb_store s') \<and>
           out = output\<lparr>out_state_digest := hash_bytes (out_state_digest output)
             (rows_content sys layout (hash_after (pb_committed_hash s) ts) (in_token_ids inp))\<rparr>)))
      (\<lambda>_ s'. pb_committed_hash s' = pb_committed_hash s) s1"
      unfolding wp_catchM wp_thenM wp_modifyM wp_throwM
      by (rule wp_mono [OF ple_absorb_wp [OF h1 e k1, where sys = sys and layout = layout]]) (use s1 r Inr in simp_all)
    then show ?thesis by (simp add: wp_def run)
  qed
qed (simp add: ple_execute_def wp_simps)

text \<open>The chunks of a transaction, one after the other.\<close>

fun ple_chunks :: "'b stage_backend_ops \<Rightarrow> StageInput list \<Rightarrow> ('b, StageOutput list) pleM" where
  "ple_chunks I [] = returnM []"
| "ple_chunks I (inp # inps) = bindM (ple_execute I inp) (\<lambda>out. bindM (ple_chunks I inps) (\<lambda>outs. returnM (out # outs)))"

lemma ple_chunks_wp:
  assumes "ple_history ts s" "\<forall>inp \<in> set inps. tx_epoch (in_txn inp) \<noteq> 0"
  shows "wp (ple_chunks I inps)
    (\<lambda>_ s'. ple_history (ts @ concat (map in_token_ids inps)) s' \<and> pb_committed_hash s' = pb_committed_hash s)
    (\<lambda>_ s'. pb_committed_hash s' = pb_committed_hash s) s"
  using assms
proof (induction inps arbitrary: ts s)
  case (Cons inp inps)
  have e: "tx_epoch (in_txn inp) \<noteq> 0" "\<forall>inp \<in> set inps. tx_epoch (in_txn inp) \<noteq> 0" using Cons.prems(2) by simp_all
  show ?case unfolding ple_chunks.simps
  proof (rule wp_bindI [OF ple_execute_wp [OF Cons.prems(1) e(1)]])
    fix out s1
    assume s1: "ple_history (ts @ in_token_ids inp) s1 \<and> pb_committed_hash s1 = pb_committed_hash s \<and>
       pb_provisional_epoch s1 = tx_epoch (in_txn inp) \<and>
       (\<exists>output. op_execute I inp (pb_inner s) = (Inr output, pb_inner s1) \<and>
         (table_open undefined undefined (pb_store s) \<longrightarrow> table_open undefined undefined (pb_store s1) \<and>
           out = output\<lparr>out_state_digest := hash_bytes (out_state_digest output)
             (rows_content undefined undefined (hash_after (pb_committed_hash s) ts) (in_token_ids inp))\<rparr>))"
    show "wp (bindM (ple_chunks I inps) (\<lambda>outs. returnM (out # outs)))
      (\<lambda>_ s'. ple_history (ts @ concat (map in_token_ids (inp # inps))) s' \<and> pb_committed_hash s' = pb_committed_hash s)
      (\<lambda>_ s'. pb_committed_hash s' = pb_committed_hash s) s1"
      unfolding wp_bindM wp_returnM by (rule wp_mono [OF Cons.IH [OF _ e(2)]]) (use s1 in auto)
  qed simp
qed (simp add: wp_returnM)

lemma ple_commit_wp:
  assumes "ple_history ts s"
  shows "wp (ple_commit I epo n)
    (\<lambda>_ s'. ple_idle s' \<and> unat n \<le> length ts \<and> pb_committed_hash s' = hash_after (pb_committed_hash s) (take (unat n) ts))
    (\<lambda>_ s'. pb_committed_hash s' = pb_committed_hash s \<and> ple_history ts s') s"
proof -
  have h: "pb_candidate_hashes s = histories (pb_committed_hash s) ts" using assms by (simp add: ple_history_def)
  have nth: "histories (pb_committed_hash s) ts ! unat (n - 1) = hash_after (pb_committed_hash s) (take (unat n) ts)"
    if "n \<noteq> 0" "unat n \<le> length ts"
  proof -
    have "unat (n - 1) = unat n - 1" "0 < unat n" using that(1) by (simp_all add: unat_minus_one unat_gt_0)
    then show ?thesis using that(2) by (simp add: histories_def)
  qed
  have put: "ple_history ts (s\<lparr>pb_inner := b\<rparr>)" for b using assms by (simp add: ple_history_def)
  show ?thesis
    unfolding ple_commit_def wp_thenM wp_failIf on_inner_def wp_zoomM wp_modifyM
    using h nth put assms by (auto simp: wp_iff ple_close_idle ple_close_def ple_idle_def ple_history_def)
qed

lemma ple_rollback_wp:
  "wp (ple_rollback I epo) (\<lambda>_ s'. ple_idle s' \<and> pb_committed_hash s' = pb_committed_hash s)
     (\<lambda>_ s'. pb_committed_hash s' = pb_committed_hash s) s"
  unfolding ple_rollback_def wp_thenM wp_failIf on_inner_def wp_zoomM wp_modifyM
  by (auto simp: wp_iff ple_close_idle)

section \<open>Properties\<close>

text \<open>
  C16: The n-gram history follows the accepted tokens and nothing else. Starting between transactions, for any
  inner backend and any store, whatever chunks a transaction is split into: a commit of \<open>n\<close> rows leaves the
  history of the tokens so far followed by the first \<open>n\<close> tokens of the transaction, and a rollback, after any
  chunk and any failure, leaves the history as it was before the transaction.
\<close>

theorem ple_history_exact:
  assumes "ple_idle s" and "\<forall>inp \<in> set inps. tx_epoch (in_txn inp) \<noteq> 0" and "ple_chunks I inps s = (r, s1)"
  shows "(\<forall>outs n s2. r = Inr outs \<and> ple_commit I epo n s1 = (Inr (), s2) \<longrightarrow>
      ple_idle s2 \<and> unat n \<le> length (concat (map in_token_ids inps)) \<and>
      pb_committed_hash s2 = hash_after (pb_committed_hash s) (take (unat n) (concat (map in_token_ids inps)))) \<and>
    (\<forall>s2. ple_rollback I epo s1 = (Inr (), s2) \<longrightarrow> ple_idle s2 \<and> pb_committed_hash s2 = pb_committed_hash s)"
proof -
  have "ple_history [] s" using assms(1) by (simp add: ple_idle_def)
  from ple_chunks_wp [OF this assms(2), where I = I] have
    c: "pb_committed_hash s1 = pb_committed_hash s" "\<And>outs. r = Inr outs \<Longrightarrow> ple_history (concat (map in_token_ids inps)) s1"
    using assms(3) by (cases r; simp add: wp_def)+
  show ?thesis
  proof (intro conjI allI impI)
    fix outs n s2
    assume "r = Inr outs \<and> ple_commit I epo n s1 = (Inr (), s2)"
    with wp_returns [OF ple_commit_wp [OF c(2)]] show "ple_idle s2" "unat n \<le> length (concat (map in_token_ids inps))"
      "pb_committed_hash s2 = hash_after (pb_committed_hash s) (take (unat n) (concat (map in_token_ids inps)))"
      by (metis c(1))+
  next
    fix s2
    assume "ple_rollback I epo s1 = (Inr (), s2)"
    with wp_returns [OF ple_rollback_wp] show "ple_idle s2" "pb_committed_hash s2 = pb_committed_hash s" by (metis c(1))+
  qed
qed

text \<open>
  C17: The digest is that of the table files. A chunk that the decorator accepts carries the output of the inner
  backend with its digest extended by the bytes of the table rows of the chunk's tokens, in the order of the
  tokens and hashed with the history of the session and of the chunks before, as the files of the layout hold
  them: neither the contents of the cache nor the course of the reads can be seen in it.
\<close>

theorem ple_digest_exact:
  assumes "ple_history ts s" and "tx_epoch (in_txn inp) \<noteq> 0" and "table_open sys layout (pb_store s)"
    and "ple_execute I inp s = (Inr out, s')"
  shows "\<exists>output. op_execute I inp (pb_inner s) = (Inr output, pb_inner s') \<and>
    out = output\<lparr>out_state_digest := hash_bytes (out_state_digest output)
      (rows_content sys layout (hash_after (pb_committed_hash s) ts) (in_token_ids inp))\<rparr> \<and>
    ple_history (ts @ in_token_ids inp) s' \<and> table_open sys layout (pb_store s')"
  using wp_returns [OF ple_execute_wp [OF assms(1,2), where sys = sys and layout = layout] assms(4)] assms(3) by blast

definition plain_system :: ple_system where
  "plain_system = demo_system\<lparr>sy_io := []\<rparr>"

definition plain_store :: PleStore where
  "plain_store = \<lparr> st_layout = demo_layout, st_files = [\<lparr> of_index = 0, of_data = map word_of_nat [0 ..< 68], of_direct = False \<rparr>],
     st_scale_parts = [], st_cache = None, st_io_uring = None, st_scale_resident_bytes = 0, st_io = [], st_errno = ''EIO'', st_clock = [5, 6, 7] \<rparr>"

definition demo_ple :: "mock_backend ple_backend" where
  "demo_ple = (case new_mock_backend Stage0 1 9 of Inr b \<Rightarrow>
     (case new_ple_backend mock_ops (Some b) (Some plain_store) (pl_hash demo_layout) of Inr s \<Rightarrow> s))"

definition demo_chunk :: StageInput where
  "demo_chunk = \<lparr> in_txn = empty_txn\<lparr>tx_epoch := 1, tx_evaluated_count := 2, tx_kind := AppendKnown, tx_status := Prepared\<rparr>, in_token_ids = [3, 8],
     in_boundary = empty_boundary_buffer, in_chunk_offset = 0, in_final_chunk = True, in_need_logits = False, in_cancellation = None \<rparr>"

lemma plain_open: "table_open plain_system demo_layout plain_store"
proof -
  have "files_ok plain_store" by (simp add: files_ok_def plain_store_def demo_layout_def)
  then show ?thesis
    by (simp add: table_open_def store_ok_def cache_true_def ring_idle_def opened_def plain_store_def plain_system_def demo_system_def demo_layout_def)
qed

lemma demo_rows:
  assumes "hs_config s = pl_hash demo_layout" "hash_token_ok (pl_hash demo_layout) t"
  shows "hash_rows [t] s = Inr ([0, 1, 2, 3, 4, 5, 6, 7, 8, 9, 10, 11, 12, 13, 14, 15], hash_after s [t])"
proof -
  have "token_rows (pl_hash demo_layout) a b t = [0, 1, 2, 3, 4, 5, 6, 7, 8, 9, 10, 11, 12, 13, 14, 15]" for a b
    by (simp add: token_rows_def kPleHeads_def kPleHeadsPerNgram_def demo_layout_def upt_rec)
  then show ?thesis using assms by (simp add: hash_rows_def hash_after_def)
qed

lemma plain_rows: "read_rows [0, 1, 2, 3, 4, 5, 6, 7, 8, 9, 10, 11, 12, 13, 14, 15] plain_store = (Inr (map word_of_nat [0 ..< 64]), plain_store)"
  by (simp add: plain_store_def demo_eval word_le_nat_alt)

definition demo_mock :: mock_backend where
  "demo_mock = (case new_mock_backend Stage0 1 9 of Inr b \<Rightarrow> b)"

lemma demo_ple_fields:
  "pb_inner demo_ple = demo_mock" "pb_store demo_ple = plain_store" "pb_committed_hash demo_ple = new_hash_state (pl_hash demo_layout)"
  "pb_candidate_hashes demo_ple = []" "pb_provisional_epoch demo_ple = 0" "pb_provisional_expected demo_ple = 0"
  "pb_provisional_processed demo_ple = 0" "pb_during demo_ple = []"
  by (simp_all add: demo_ple_def demo_mock_def new_mock_backend_def new_ple_backend_def mock_ops_def)

lemma demo_ple_idle: "ple_idle demo_ple" "tx_epoch (in_txn demo_chunk) \<noteq> 0"
  by (simp_all add: ple_idle_def ple_history_def demo_ple_fields demo_chunk_def)

lemma demo_inner: "\<exists>out b. op_execute mock_ops demo_chunk demo_mock = (Inr out, b) \<and> fst (op_commit mock_ops 1 1 b) = Inr ()"
proof -
  have "\<not> isl (fst (op_execute mock_ops demo_chunk demo_mock))" by code_simp
  moreover have "\<not> isl (fst (op_commit mock_ops 1 1 (snd (op_execute mock_ops demo_chunk demo_mock))))" by code_simp
  ultimately show ?thesis
    by (cases "op_execute mock_ops demo_chunk demo_mock"; cases "fst (op_execute mock_ops demo_chunk demo_mock)";
        cases "fst (op_commit mock_ops 1 1 (snd (op_execute mock_ops demo_chunk demo_mock)))") auto
qed

lemma demo_execute:
  "\<exists>out s. ple_execute mock_ops demo_chunk demo_ple = (Inr out, s) \<and> fst (ple_commit mock_ops 1 1 s) = Inr ()"
proof -
  obtain out b where b: "op_execute mock_ops demo_chunk demo_mock = (Inr out, b)" "fst (op_commit mock_ops 1 1 b) = Inr ()"
    using demo_inner by blast
  have t: "hash_token_ok (pl_hash demo_layout) 3" "hash_token_ok (pl_hash demo_layout) 8" by (simp_all add: hash_token_ok_def demo_layout_def)
  have cfg: "hs_config (hash_after s ts) = hs_config s" for s ts by (simp add: hash_after_def split: prod.splits)
  define h where "h = new_hash_state (pl_hash demo_layout)"
  have h: "hs_config h = pl_hash demo_layout" by (simp add: h_def new_hash_state_def hash_reset_def)
  have run: "\<exists>d s'. ple_tokens None [3, 8] h digest s = (Inr d, s') \<and> ple_frame s s' \<and> length (pb_candidate_hashes s') = length (pb_candidate_hashes s) + 2"
    if "pb_store s = plain_store" for s :: "mock_backend ple_backend" and digest
    using that plain_rows
    by (simp add: demo_rows h cfg t poll_def run_simps liftE_def on_store_def zoomM_def ple_frame_def)
  define s0 where "s0 = ple_begin demo_chunk (demo_ple\<lparr>pb_inner := b\<rparr>)"
  have s0: "pb_store s0 = plain_store" "ple_last_hash s0 = h" "pb_candidate_hashes s0 = []" "pb_provisional_epoch s0 = 1"
    "pb_provisional_expected s0 = 2" "pb_provisional_processed s0 = 0" "pb_inner s0 = b"
    by (simp_all add: s0_def ple_begin_def demo_ple_fields ple_last_hash_def h_def demo_chunk_def)
  obtain d s' where s': "ple_tokens None [3, 8] h (out_state_digest out) s0 = (Inr d, s')" "ple_frame s0 s'" "length (pb_candidate_hashes s') = 2"
    using run [OF s0(1)] s0(3) by fastforce
  have f: "pb_inner s' = b" "pb_provisional_epoch s' = 1" "pb_provisional_expected s' = 2" "pb_provisional_processed s' = 0"
    using s'(2) s0 by (simp_all add: ple_frame_def)
  have c: "ple_contiguous demo_chunk demo_ple" "in_token_ids demo_chunk = [3, 8]" "in_cancellation demo_chunk = None"
    by (simp_all add: ple_contiguous_def demo_ple_fields demo_chunk_def)
  have "ple_execute mock_ops demo_chunk demo_ple =
      (Inr (out\<lparr>out_state_digest := d\<rparr>), s'\<lparr>pb_provisional_processed := 2\<rparr>)"
    using b(1) c s'(1) s0(2) f
    by (simp add: ple_execute_def run_simps on_inner_def zoomM_def demo_ple_fields token_during_def catchM_def ple_absorb_def s0_def [symmetric]
        del: ple_tokens.simps)
  moreover obtain b' where "op_commit mock_ops 1 1 b = (Inr (), b')" using b(2) by (metis prod.collapse)
  then have "fst (ple_commit mock_ops 1 1 (s'\<lparr>pb_provisional_processed := 2\<rparr>)) = Inr ()"
    using f s'(3) by (auto simp: ple_commit_def run_simps on_inner_def zoomM_def)
  ultimately show ?thesis by blast
qed

theorem ple_history_exact_witness:
  "\<exists>out s1 s2. ple_chunks mock_ops [demo_chunk] demo_ple = (Inr [out], s1) \<and> ple_commit mock_ops 1 1 s1 = (Inr (), s2) \<and>
     pb_committed_hash s2 = hash_after (pb_committed_hash demo_ple) [3]"
proof -
  obtain out s1 where s1: "ple_execute mock_ops demo_chunk demo_ple = (Inr out, s1)" "fst (ple_commit mock_ops 1 1 s1) = Inr ()"
    using demo_execute by blast
  then obtain s2 where s2: "ple_commit mock_ops 1 1 s1 = (Inr (), s2)" by (metis prod.collapse)
  have run: "ple_chunks mock_ops [demo_chunk] demo_ple = (Inr [out], s1)" using s1(1) by (simp add: run_simps)
  have "\<forall>inp \<in> set [demo_chunk]. tx_epoch (in_txn inp) \<noteq> 0" using demo_ple_idle(2) by simp
  from ple_history_exact [OF demo_ple_idle(1) this run, of 1] s2 have
    "pb_committed_hash s2 = hash_after (pb_committed_hash demo_ple) (take (unat (1 :: u32)) (in_token_ids demo_chunk))" by fastforce
  then show ?thesis using run s2 by (simp add: demo_chunk_def)
qed

theorem ple_digest_exact_witness:
  "\<exists>out s output. ple_execute mock_ops demo_chunk demo_ple = (Inr out, s) \<and> op_execute mock_ops demo_chunk demo_mock = (Inr output, pb_inner s) \<and>
     out_state_digest out = hash_bytes (out_state_digest output) (rows_content plain_system demo_layout (pb_committed_hash demo_ple) [3, 8])"
proof -
  obtain out s where s: "ple_execute mock_ops demo_chunk demo_ple = (Inr out, s)" using demo_execute by blast
  have h: "ple_history [] demo_ple" using demo_ple_idle(1) by (simp add: ple_idle_def)
  have "table_open plain_system demo_layout (pb_store demo_ple)" using plain_open by (simp add: demo_ple_fields)
  from ple_digest_exact [OF h demo_ple_idle(2) this s] s show ?thesis
    by (auto simp: demo_ple_fields demo_chunk_def)
qed

end
