(* ===== verification/DeviceArtifact.thy ===== *)
theory DeviceArtifact
  imports FieldText
begin

text \<open>
  The index of a stage's device weights and the store that maps them, \<^verbatim>\<open>include/q38/device_artifact.h\<close> and
  \<^verbatim>\<open>src/device_artifact.cc\<close>. The contents of the index file, the directory it lies in, the sizes of the segment
  files and what mapping them yields are arguments. A pointer into a mapping is the bytes from it to the end of
  the mapping.
\<close>

section \<open>Data\<close>

datatype DeviceWeightFormat = FormatInvalid | Preserve | W4A16SymG128 | W8A16SymG128 | Fp8E4M3Fn

record DeviceSegment =
  dg_relative_path :: string
  dg_bytes :: u64
  dg_sha256 :: string

record DeviceTensor =
  dt_name :: string
  dt_source_name :: string
  dt_source_dtype :: string
  dt_format :: DeviceWeightFormat
  dt_group_size :: u32
  dt_segment :: u32
  dt_data_offset :: u64
  dt_data_bytes :: u64
  dt_data_sha256 :: string
  dt_scale_offset :: u64
  dt_scale_bytes :: u64
  dt_scale_sha256 :: string
  dt_shape :: "u64 list"

record DeviceStageIndex =
  dx_stage :: u32
  dx_cut :: u32
  dx_source_repo :: string
  dx_source_commit :: string
  dx_policy_sha256 :: string
  dx_artifact_sha256 :: string
  dx_index_directory :: string
  dx_segments :: "DeviceSegment list"
  dx_tensors :: "DeviceTensor list"
  dx_mapped_bytes :: u64

definition empty_device_index :: "string \<Rightarrow> DeviceStageIndex" where
  "empty_device_index directory = \<lparr> dx_stage = 0, dx_cut = 0, dx_source_repo = [], dx_source_commit = [], dx_policy_sha256 = [],
     dx_artifact_sha256 = [], dx_index_directory = directory, dx_segments = [], dx_tensors = [], dx_mapped_bytes = 0 \<rparr>"

section \<open>Reading\<close>

definition device_u64 :: "string \<Rightarrow> string \<Rightarrow> exn + u64" where
  "device_u64 = parse_u64_field ''device index ''"

definition parse_format :: "string \<Rightarrow> exn + DeviceWeightFormat" where
  "parse_format value =
     (if value = ''preserve'' then Inr Preserve
      else if value = ''w4a16_sym_g128'' then Inr W4A16SymG128
      else if value = ''w8a16_sym_g128'' then Inr W8A16SymG128
      else if value = ''fp8_e4m3fn'' then Inr Fp8E4M3Fn
      else Inl (RuntimeError (''device index has unknown format '' @ value)))"

fun elements_loop :: "u64 \<Rightarrow> u64 list \<Rightarrow> exn + u64" where
  "elements_loop result [] = Inr result"
| "elements_loop result (dimension # shape) =
     bindE (guardE (\<not> (dimension = 0 \<or> result > u64_max div dimension)) (RuntimeError ''device tensor shape overflows'')) (\<lambda>_.
     elements_loop (result * dimension) shape)"

definition checked_elements :: "u64 list \<Rightarrow> exn + u64" where
  "checked_elements shape =
     bindE (guardE (shape \<noteq> []) (RuntimeError ''device tensor shape is empty'')) (\<lambda>_. elements_loop 1 shape)"

definition source_dtype_bytes :: "string \<Rightarrow> exn + u64" where
  "source_dtype_bytes dtype =
     (if dtype = ''BF16'' \<or> dtype = ''F16'' then Inr 2
      else if dtype = ''F32'' \<or> dtype = ''I32'' then Inr 4
      else if dtype = ''I64'' then Inr 8
      else if dtype = ''U8'' \<or> dtype = ''I8'' \<or> dtype = ''F8_E4M3'' then Inr 1
      else Inl (RuntimeError (''device tensor has unknown source dtype '' @ dtype)))"

definition check_preserved :: "u64 \<Rightarrow> DeviceTensor \<Rightarrow> exn + unit" where
  "check_preserved elements t =
     bindE (guardE (dt_group_size t = 0 \<and> dt_scale_bytes t = 0) (RuntimeError ''preserved device tensor layout is invalid'')) (\<lambda>_.
     bindE (source_dtype_bytes (dt_source_dtype t)) (\<lambda>element_bytes.
     guardE (dt_data_bytes t = elements * element_bytes) (RuntimeError ''preserved device tensor layout is invalid'')))"

definition check_groupwise :: "u64 \<Rightarrow> u64 \<Rightarrow> DeviceTensor \<Rightarrow> exn + unit" where
  "check_groupwise bits elements t =
     bindE (guardE (\<not> (dt_group_size t \<noteq> 128 \<or> last (dt_shape t) mod 128 \<noteq> 0 \<or> \<not> is_hex (dt_scale_sha256 t) 64))
       (RuntimeError ''groupwise device tensor layout is invalid'')) (\<lambda>_.
     guardE (\<not> (elements > u64_max div bits \<or> dt_data_bytes t \<noteq> elements * bits div 8 \<or> dt_scale_bytes t \<noteq> elements div 128 * 2))
       (RuntimeError ''groupwise device tensor byte census is invalid''))"

definition check_fp8 :: "u64 \<Rightarrow> DeviceTensor \<Rightarrow> exn + unit" where
  "check_fp8 elements t =
     guardE (\<not> (dt_group_size t \<noteq> 0 \<or> length (dt_shape t) < 2 \<or> \<not> is_hex (dt_scale_sha256 t) 64 \<or>
         dt_data_bytes t \<noteq> elements \<or> dt_scale_bytes t \<noteq> elements div last (dt_shape t) * 2))
       (RuntimeError ''FP8 device tensor layout is invalid'')"

definition validate_tensor_layout :: "DeviceTensor \<Rightarrow> exn + unit" where
  "validate_tensor_layout t =
     bindE (checked_elements (dt_shape t)) (\<lambda>elements.
     bindE (guardE (is_hex (dt_data_sha256 t) 64) (RuntimeError ''device tensor data hash is invalid'')) (\<lambda>_.
     bindE (guardE (dt_data_bytes t \<noteq> 0) (RuntimeError ''device tensor data extent is empty'')) (\<lambda>_.
     case dt_format t of
       Preserve \<Rightarrow> check_preserved elements t
     | W4A16SymG128 \<Rightarrow> check_groupwise 4 elements t
     | W8A16SymG128 \<Rightarrow> check_groupwise 8 elements t
     | Fp8E4M3Fn \<Rightarrow> check_fp8 elements t
     | FormatInvalid \<Rightarrow> Inl (RuntimeError ''device tensor format is invalid''))))"

text \<open>\<open>std::filesystem::path::operator/\<close>.\<close>

definition path_join :: "string \<Rightarrow> string \<Rightarrow> string" where
  "path_join directory relative =
     (if relative \<noteq> [] \<and> hd relative = CHR ''/'' then relative
      else if directory = [] \<or> last directory = CHR ''/'' then directory @ relative
      else directory @ CHR ''/'' # relative)"

record device_reader =
  dr_index :: DeviceStageIndex
  dr_headers :: "string set"
  dr_names :: "string set"

definition device_header :: "string \<Rightarrow> string \<Rightarrow> DeviceStageIndex \<Rightarrow> exn + DeviceStageIndex" where
  "device_header key value index =
     (if key = ''stage'' then
        bindE (device_u64 key value) (\<lambda>parsed.
        bindE (guardE (\<not> parsed > 1) (RuntimeError ''device stage must be 0 or 1'')) (\<lambda>_.
        Inr (index\<lparr>dx_stage := ucast parsed\<rparr>)))
      else if key = ''cut'' then
        bindE (device_u64 key value) (\<lambda>parsed.
        bindE (guardE (\<not> (parsed = 0 \<or> parsed \<ge> 48)) (RuntimeError ''device cut must be in 1..47'')) (\<lambda>_.
        Inr (index\<lparr>dx_cut := ucast parsed\<rparr>)))
      else if key = ''source_repo'' then Inr (index\<lparr>dx_source_repo := value\<rparr>)
      else if key = ''source_commit'' then Inr (index\<lparr>dx_source_commit := value\<rparr>)
      else if key = ''policy_sha256'' then Inr (index\<lparr>dx_policy_sha256 := value\<rparr>)
      else if key = ''artifact_sha256'' then Inr (index\<lparr>dx_artifact_sha256 := value\<rparr>)
      else Inl (RuntimeError (''unknown device index header '' @ key)))"

definition device_header_line :: "string \<Rightarrow> device_reader \<Rightarrow> exn + device_reader" where
  "device_header_line line r =
     (let key = takeWhile (\<lambda>c. c \<noteq> CHR ''='') line; value = drop (length key + 1) line in
      bindE (guardE (key \<notin> dr_headers r) (RuntimeError (''duplicate device index header '' @ key))) (\<lambda>_.
      bindE (device_header key value (dr_index r)) (\<lambda>index.
      Inr (r\<lparr>dr_index := index, dr_headers := insert key (dr_headers r)\<rparr>))))"

definition device_segment_line :: "(string \<Rightarrow> string + u64) \<Rightarrow> bool \<Rightarrow> u32 \<Rightarrow> string list \<Rightarrow> device_reader \<Rightarrow> exn + device_reader" where
  "device_segment_line file_size verify line_number columns r =
     (let index = dr_index r in
      bindE (guardE (length columns = 4) (RuntimeError (''invalid device segment record at line '' @ decimal (unat line_number)))) (\<lambda>_.
      bindE (device_u64 ''segment bytes'' (columns ! 2)) (\<lambda>bytes.
      let segment = \<lparr> dg_relative_path = columns ! 1, dg_bytes = bytes, dg_sha256 = columns ! 3 \<rparr> in
      bindE (guardE (\<not> (dg_relative_path segment = [] \<or> bytes = 0 \<or> \<not> is_hex (dg_sha256 segment) 64))
        (RuntimeError ''invalid device segment fields'')) (\<lambda>_.
      let resolved = path_join (dx_index_directory index) (dg_relative_path segment) in
      bindE (guardE (verify \<longrightarrow> file_size resolved = Inr bytes) (RuntimeError (''device segment extent differs: '' @ resolved))) (\<lambda>_.
      bindE (guardE (\<not> dx_mapped_bytes index > u64_max - bytes) (RuntimeError ''device segment byte census overflows'')) (\<lambda>_.
      Inr (r\<lparr>dr_index := index\<lparr>dx_mapped_bytes := dx_mapped_bytes index + bytes, dx_segments := dx_segments index @ [segment]\<rparr>\<rparr>)))))))"

definition parse_device_tensor :: "string list \<Rightarrow> exn + DeviceTensor" where
  "parse_device_tensor columns =
     bindE (parse_format (columns ! 4)) (\<lambda>weight_format.
     bindE (device_u64 ''group size'' (columns ! 5)) (\<lambda>group_size.
     bindE (device_u64 ''segment index'' (columns ! 6)) (\<lambda>segment.
     bindE (device_u64 ''data offset'' (columns ! 7)) (\<lambda>data_offset.
     bindE (device_u64 ''data bytes'' (columns ! 8)) (\<lambda>data_bytes.
     bindE (device_u64 ''scale offset'' (columns ! 10)) (\<lambda>scale_offset.
     bindE (device_u64 ''scale bytes'' (columns ! 11)) (\<lambda>scale_bytes.
     bindE (mapE (device_u64 ''shape'') (split_fields (CHR '','') (columns ! 13))) (\<lambda>shape.
     Inr \<lparr> dt_name = columns ! 1, dt_source_name = columns ! 2, dt_source_dtype = columns ! 3, dt_format = weight_format,
       dt_group_size = ucast group_size, dt_segment = ucast segment, dt_data_offset = data_offset, dt_data_bytes = data_bytes,
       dt_data_sha256 = columns ! 9, dt_scale_offset = scale_offset, dt_scale_bytes = scale_bytes,
       dt_scale_sha256 = (if columns ! 12 = ''-'' then [] else columns ! 12), dt_shape = shape \<rparr>))))))))"

definition device_tensor_line :: "u32 \<Rightarrow> string list \<Rightarrow> device_reader \<Rightarrow> exn + device_reader" where
  "device_tensor_line line_number columns r =
     (let index = dr_index r in
      bindE (guardE (length columns = 14 \<and> columns ! 0 = ''tensor'')
        (RuntimeError (''invalid device tensor record at line '' @ decimal (unat line_number)))) (\<lambda>_.
      bindE (parse_device_tensor columns) (\<lambda>t.
      bindE (guardE (\<not> (dt_name t = [] \<or> dt_source_name t = [] \<or> dt_name t \<in> dr_names r \<or> unat (dt_segment t) \<ge> length (dx_segments index)))
        (RuntimeError ''invalid or duplicate device tensor identity'')) (\<lambda>_.
      let segment_bytes = dg_bytes (dx_segments index ! unat (dt_segment t)) in
      bindE (guardE (within (dt_data_offset t) (dt_data_bytes t) segment_bytes \<and> within (dt_scale_offset t) (dt_scale_bytes t) segment_bytes)
        (RuntimeError ''device tensor exceeds its segment'')) (\<lambda>_.
      bindE (validate_tensor_layout t) (\<lambda>_.
      Inr (r\<lparr>dr_index := index\<lparr>dx_tensors := dx_tensors index @ [t]\<rparr>, dr_names := insert (dt_name t) (dr_names r)\<rparr>)))))))"

definition device_line :: "(string \<Rightarrow> string + u64) \<Rightarrow> bool \<Rightarrow> u32 \<Rightarrow> string \<Rightarrow> device_reader \<Rightarrow> exn + device_reader" where
  "device_line file_size verify line_number line r =
     (if line = [] \<or> hd line = CHR ''#'' then Inr r
      else if CHR ''='' \<in> set line \<and> CHR 0x09 \<notin> set line then device_header_line line r
      else let columns = split_fields (CHR 0x09) line in
      if columns \<noteq> [] \<and> columns ! 0 = ''segment'' then device_segment_line file_size verify line_number columns r
      else device_tensor_line line_number columns r)"

fun device_lines :: "(string \<Rightarrow> string + u64) \<Rightarrow> bool \<Rightarrow> u32 \<Rightarrow> string list \<Rightarrow> device_reader \<Rightarrow> exn + device_reader" where
  "device_lines file_size verify line_number [] r = Inr r"
| "device_lines file_size verify line_number (line # lines) r =
     bindE (device_line file_size verify (line_number + 1) line r) (device_lines file_size verify (line_number + 1) lines)"

definition required_headers :: "string set" where
  "required_headers = {''stage'', ''cut'', ''source_repo'', ''source_commit'', ''policy_sha256'', ''artifact_sha256''}"

definition load_device_stage_index :: "(string \<Rightarrow> string + u64) \<Rightarrow> string \<Rightarrow> string \<Rightarrow> string option \<Rightarrow> bool \<Rightarrow> exn + DeviceStageIndex" where
  "load_device_stage_index file_size directory path contents verify =
     (case contents of
        None \<Rightarrow> Inl (RuntimeError (''cannot open device stage index: '' @ path))
      | Some text \<Rightarrow>
          (case getlines text of
             [] \<Rightarrow> Inl (RuntimeError ''device stage index has invalid magic/version'')
           | magic # lines \<Rightarrow>
               bindE (guardE (magic = ''Q38_DEVICE_INDEX_V1'') (RuntimeError ''device stage index has invalid magic/version'')) (\<lambda>_.
               bindE (device_lines file_size verify 1 lines \<lparr> dr_index = empty_device_index directory, dr_headers = {}, dr_names = {} \<rparr>) (\<lambda>r.
               let index = dr_index r in
               bindE (guardE (\<not> (dr_headers r \<noteq> required_headers \<or> dx_source_repo index = [] \<or> \<not> is_hex (dx_source_commit index) 40 \<or>
                   \<not> is_hex (dx_policy_sha256 index) 64 \<or> \<not> is_hex (dx_artifact_sha256 index) 64 \<or>
                   dx_segments index = [] \<or> dx_tensors index = []))
                 (RuntimeError ''device stage index is incomplete'')) (\<lambda>_.
               Inr index)))))"

section \<open>The pair of stages\<close>

definition identical_replica :: "DeviceTensor \<Rightarrow> DeviceTensor \<Rightarrow> bool" where
  "identical_replica t first \<longleftrightarrow> dt_name t = ''token_embd.weight'' \<and> dt_source_name t = dt_source_name first \<and>
     dt_source_dtype t = dt_source_dtype first \<and> dt_format t = dt_format first \<and> dt_group_size t = dt_group_size first \<and>
     dt_data_bytes t = dt_data_bytes first \<and> dt_data_sha256 t = dt_data_sha256 first \<and> dt_scale_bytes t = dt_scale_bytes first \<and>
     dt_scale_sha256 t = dt_scale_sha256 first \<and> dt_shape t = dt_shape first"

fun check_replicas :: "DeviceTensor list \<Rightarrow> DeviceTensor list \<Rightarrow> exn + unit" where
  "check_replicas firsts [] = Inr ()"
| "check_replicas firsts (t # ts) =
     (case find (\<lambda>f. dt_name f = dt_name t) firsts of
        None \<Rightarrow> check_replicas firsts ts
      | Some first \<Rightarrow>
          bindE (guardE (identical_replica t first) (RuntimeError (''device tensor appears in both stages: '' @ dt_name t))) (\<lambda>_.
          check_replicas firsts ts))"

definition validate_device_stage_pair :: "DeviceStageIndex \<Rightarrow> DeviceStageIndex \<Rightarrow> exn + unit" where
  "validate_device_stage_pair stage0 stage1 =
     bindE (guardE (\<not> (dx_stage stage0 \<noteq> 0 \<or> dx_stage stage1 \<noteq> 1 \<or> dx_cut stage0 \<noteq> dx_cut stage1 \<or>
         dx_source_repo stage0 \<noteq> dx_source_repo stage1 \<or> dx_source_commit stage0 \<noteq> dx_source_commit stage1 \<or>
         dx_policy_sha256 stage0 \<noteq> dx_policy_sha256 stage1))
       (RuntimeError ''device stage pair identity differs'')) (\<lambda>_.
     check_replicas (dx_tensors stage0) (dx_tensors stage1))"

section \<open>The store\<close>

text \<open>What the system calls on a segment file yield: the failure of \<open>open\<close> or \<open>fstat\<close>, or the bytes of the file and the
  failure of \<open>mmap\<close>, if any.\<close>

datatype segment_file = OpenFails string | StatFails string | SegmentFile "u8 list" "string option"

definition system_error :: "string \<Rightarrow> string \<Rightarrow> string \<Rightarrow> exn" where
  "system_error operation path message = RuntimeError (operation @ '' '' @ path @ '': '' @ message)"

definition map_segment :: "(string \<Rightarrow> segment_file) \<Rightarrow> string \<Rightarrow> u64 \<Rightarrow> exn + u8 list" where
  "map_segment files path expected_bytes =
     (case files path of
        OpenFails message \<Rightarrow> Inl (system_error ''open'' path message)
      | StatFails message \<Rightarrow> Inl (system_error ''fstat'' path message)
      | SegmentFile bytes failure \<Rightarrow>
          if length bytes \<noteq> unat expected_bytes then Inl (RuntimeError (''device segment size changed: '' @ path))
          else (case failure of Some message \<Rightarrow> Inl (system_error ''mmap'' path message) | None \<Rightarrow> Inr bytes))"

record DeviceWeightStore =
  dw_index :: DeviceStageIndex
  dw_mappings :: "u8 list list"
  dw_tensor_by_name :: "string \<rightharpoonup> nat"

fun index_names :: "nat \<Rightarrow> DeviceTensor list \<Rightarrow> (string \<rightharpoonup> nat) \<Rightarrow> exn + (string \<rightharpoonup> nat)" where
  "index_names i [] by_name = Inr by_name"
| "index_names i (t # ts) by_name =
     bindE (guardE (by_name (dt_name t) = None) (RuntimeError ''duplicate device tensor in mapped store'')) (\<lambda>_.
     index_names (i + 1) ts (by_name(dt_name t \<mapsto> i)))"

definition new_device_store :: "(string \<Rightarrow> segment_file) \<Rightarrow> DeviceStageIndex \<Rightarrow> exn + DeviceWeightStore" where
  "new_device_store files index =
     bindE (mapE (\<lambda>segment. map_segment files (path_join (dx_index_directory index) (dg_relative_path segment)) (dg_bytes segment))
       (dx_segments index)) (\<lambda>mappings.
     bindE (index_names 0 (dx_tensors index) Map.empty) (\<lambda>by_name.
     Inr \<lparr> dw_index = index, dw_mappings = mappings, dw_tensor_by_name = by_name \<rparr>))"

definition device_segment :: "DeviceWeightStore \<Rightarrow> nat \<Rightarrow> exn + DeviceSegment \<times> u8 list" where
  "device_segment store i =
     bindE (guardE (\<not> i \<ge> length (dw_mappings store)) OutOfRange) (\<lambda>_.
     Inr (dx_segments (dw_index store) ! i, dw_mappings store ! i))"

record DeviceTensorView =
  dv_descriptor :: DeviceTensor
  dv_data :: "u8 list"
  dv_scales :: "u8 list option"

definition device_find :: "DeviceWeightStore \<Rightarrow> string \<Rightarrow> DeviceTensorView option" where
  "device_find store name =
     (case dw_tensor_by_name store name of
        None \<Rightarrow> None
      | Some i \<Rightarrow>
          let t = dx_tensors (dw_index store) ! i; mapping = dw_mappings store ! unat (dt_segment t) in
          Some \<lparr> dv_descriptor = t, dv_data = drop (unat (dt_data_offset t)) mapping,
            dv_scales = (if dt_scale_bytes t = 0 then None else Some (drop (unat (dt_scale_offset t)) mapping)) \<rparr>)"

definition device_require :: "DeviceWeightStore \<Rightarrow> string \<Rightarrow> exn + DeviceTensorView" where
  "device_require store name =
     (case device_find store name of
        None \<Rightarrow> Inl (RuntimeError (''missing device tensor: '' @ name))
      | Some view \<Rightarrow> Inr view)"

section \<open>What an index is\<close>

text \<open>The elements of a tensor, as a number that does not wrap.\<close>

definition elements :: "u64 list \<Rightarrow> nat" where
  "elements shape = prod_list (map unat shape)"

definition layout_exact :: "DeviceTensor \<Rightarrow> bool" where
  "layout_exact t \<longleftrightarrow> (let n = elements (dt_shape t) in
     case dt_format t of
       Preserve \<Rightarrow> dt_group_size t = 0 \<and> dt_scale_bytes t = 0 \<and>
         (\<exists>w \<in> {1, 2, 4, 8}. unat (dt_data_bytes t) = n * w mod 2 ^ 64)
     | W4A16SymG128 \<Rightarrow> dt_group_size t = 128 \<and> 128 dvd n \<and> 2 * unat (dt_data_bytes t) = n \<and> 64 * unat (dt_scale_bytes t) = n
     | W8A16SymG128 \<Rightarrow> dt_group_size t = 128 \<and> 128 dvd n \<and> unat (dt_data_bytes t) = n \<and> 64 * unat (dt_scale_bytes t) = n
     | Fp8E4M3Fn \<Rightarrow> dt_group_size t = 0 \<and> 2 \<le> length (dt_shape t) \<and> unat (dt_data_bytes t) = n \<and>
         unat (dt_scale_bytes t) = n div unat (last (dt_shape t)) * 2 mod 2 ^ 64
     | FormatInvalid \<Rightarrow> False)"

definition device_tensor_ok :: "DeviceSegment list \<Rightarrow> DeviceTensor \<Rightarrow> bool" where
  "device_tensor_ok segments t \<longleftrightarrow> dt_name t \<noteq> [] \<and> dt_source_name t \<noteq> [] \<and> unat (dt_segment t) < length segments \<and>
     dt_data_bytes t \<noteq> 0 \<and> layout_exact t \<and>
     (let n = unat (dg_bytes (segments ! unat (dt_segment t))) in
      unat (dt_data_offset t) + unat (dt_data_bytes t) \<le> n \<and> unat (dt_scale_offset t) + unat (dt_scale_bytes t) \<le> n)"

definition device_index_ok :: "DeviceStageIndex \<Rightarrow> bool" where
  "device_index_ok index \<longleftrightarrow> dx_segments index \<noteq> [] \<and> dx_tensors index \<noteq> [] \<and> distinct (map dt_name (dx_tensors index)) \<and>
     list_all (device_tensor_ok (dx_segments index)) (dx_tensors index) \<and>
     list_all (\<lambda>g. dg_bytes g \<noteq> 0) (dx_segments index) \<and>
     unat (dx_mapped_bytes index) = sum_list (map (\<lambda>g. unat (dg_bytes g)) (dx_segments index))"

lemma elements_loop_exact: "elements_loop r shape = Inr n \<Longrightarrow> unat n = unat r * elements shape \<and> 0 \<notin> set shape"
proof (induction shape arbitrary: r)
  case (Cons d shape)
  have d: "d \<noteq> 0" "unat r * unat d < 2 ^ 64" and rest: "elements_loop (r * d) shape = Inr n"
    using Cons.prems u64_mul_guard [of d r] by (auto simp: bindE_Inr_iff)
  from Cons.IH [OF rest] d show ?case by (auto simp: unat_u64_mult elements_def)
qed (simp add: elements_def)

lemma checked_elements_exact: "checked_elements shape = Inr n \<Longrightarrow> shape \<noteq> [] \<and> unat n = elements shape \<and> 0 \<notin> set shape"
  using elements_loop_exact [of 1 shape n] by (auto simp: checked_elements_def bindE_Inr_iff)

lemma last_dvd_elements: "shape \<noteq> [] \<Longrightarrow> unat (last shape) dvd elements shape"
  unfolding elements_def by (cases shape rule: rev_cases) simp_all

lemma groupwise_exact:
  assumes g: "check_groupwise bits n t = Inr ()" and n: "dt_shape t \<noteq> []" "unat n = elements (dt_shape t)" and b: "bits = 4 \<or> bits = 8"
  shows "dt_group_size t = 128 \<and> 128 dvd elements (dt_shape t) \<and> 8 * unat (dt_data_bytes t) = unat bits * elements (dt_shape t) \<and>
    64 * unat (dt_scale_bytes t) = elements (dt_shape t)"
proof -
  have c: "dt_group_size t = 128" "last (dt_shape t) mod 128 = 0" "\<not> n > u64_max div bits"
    "dt_data_bytes t = n * bits div 8" "dt_scale_bytes t = n div 128 * 2"
    using g by (simp_all add: check_groupwise_def bindE_Inr_iff)
  from arg_cong [OF c(2), of unat] have "128 dvd unat (last (dt_shape t))" by (simp add: unat_mod mod_eq_0_iff_dvd)
  then have d: "128 dvd unat n" using last_dvd_elements [OF n(1)] n(2) dvd_trans by metis
  then obtain q where q: "unat n = 128 * q" by (auto simp: dvd_def)
  have "bits \<noteq> 0" using b by auto
  then have f: "unat n * unat bits < 2 ^ 64" using c(3) u64_mul_guard by (simp add: not_le)
  then have "unat (dt_data_bytes t) = unat n * unat bits div 8" by (simp add: c(4) unat_div unat_u64_mult)
  moreover have "q * 2 < 2 ^ 64" using f q b by auto
  then have "unat (dt_scale_bytes t) = q * 2" by (simp add: c(5) unat_div unat_u64_mult q)
  ultimately show ?thesis using c(1) d q n(2) b by auto
qed

lemma validate_layout_exact:
  assumes "validate_tensor_layout t = Inr ()"
  shows "layout_exact t \<and> dt_data_bytes t \<noteq> 0"
proof -
  from assms obtain n where n: "checked_elements (dt_shape t) = Inr n" "dt_data_bytes t \<noteq> 0"
    and f: "(case dt_format t of Preserve \<Rightarrow> check_preserved n t | W4A16SymG128 \<Rightarrow> check_groupwise 4 n t
     | W8A16SymG128 \<Rightarrow> check_groupwise 8 n t | Fp8E4M3Fn \<Rightarrow> check_fp8 n t
     | FormatInvalid \<Rightarrow> Inl (RuntimeError ''device tensor format is invalid'')) = Inr ()"
    by (auto simp: validate_tensor_layout_def bindE_Inr_iff)
  have e: "dt_shape t \<noteq> []" "unat n = elements (dt_shape t)" using checked_elements_exact [OF n(1)] by simp_all
  have "layout_exact t"
  proof (cases "dt_format t")
    case Preserve
    then obtain w where "source_dtype_bytes (dt_source_dtype t) = Inr w" "dt_data_bytes t = n * w" "dt_group_size t = 0" "dt_scale_bytes t = 0"
      using f by (auto simp: check_preserved_def bindE_Inr_iff)
    moreover from this(1) have "unat w \<in> {1, 2, 4, 8}" by (auto simp: source_dtype_bytes_def split: if_splits)
    ultimately show ?thesis using Preserve e(2) by (auto simp: layout_exact_def Let_def unat_word_ariths)
  next
    case W4A16SymG128
    then show ?thesis using groupwise_exact [OF _ e, of 4] f by (auto simp: layout_exact_def Let_def)
  next
    case W8A16SymG128
    then show ?thesis using groupwise_exact [OF _ e, of 8] f by (auto simp: layout_exact_def Let_def)
  next
    case Fp8E4M3Fn
    then show ?thesis using f e(2) by (auto simp: check_fp8_def layout_exact_def Let_def unat_word_ariths unat_div mod_mult_left_eq)
  qed (use f in simp)
  then show ?thesis using n(2) by simp
qed

text \<open>The reader: everything read so far is in order, and the headers seen have valid values.\<close>

definition device_reader_ok :: "device_reader \<Rightarrow> bool" where
  "device_reader_ok r \<longleftrightarrow> (let index = dr_index r in
     dr_names r = dt_name ` set (dx_tensors index) \<and> distinct (map dt_name (dx_tensors index)) \<and>
     list_all (device_tensor_ok (dx_segments index)) (dx_tensors index) \<and> list_all (\<lambda>g. dg_bytes g \<noteq> 0) (dx_segments index) \<and>
     unat (dx_mapped_bytes index) = sum_list (map (\<lambda>g. unat (dg_bytes g)) (dx_segments index)) \<and>
     (''stage'' \<in> dr_headers r \<longrightarrow> dx_stage index \<le> 1) \<and> (''cut'' \<in> dr_headers r \<longrightarrow> 1 \<le> dx_cut index \<and> dx_cut index < 48))"

lemma device_tensor_ok_more: "device_tensor_ok gs t \<Longrightarrow> device_tensor_ok (gs @ hs) t"
  by (auto simp: device_tensor_ok_def nth_append Let_def)

lemma device_header_ok:
  assumes "device_header key value index = Inr index'"
  shows "dx_tensors index' = dx_tensors index \<and> dx_segments index' = dx_segments index \<and> dx_mapped_bytes index' = dx_mapped_bytes index \<and>
    (if key = ''stage'' then dx_stage index' \<le> 1 else dx_stage index' = dx_stage index) \<and>
    (if key = ''cut'' then 1 \<le> dx_cut index' \<and> dx_cut index' < 48 else dx_cut index' = dx_cut index)"
proof -
  have stage: "(ucast w :: u32) \<le> 1" if "\<not> 1 < w" for w :: u64
  proof -
    have "unat w \<le> 1" using that by (simp add: word_less_nat_alt)
    then show ?thesis by (simp add: word_le_nat_alt unsigned_ucast_eq take_bit_nat_eq_self)
  qed
  have cut: "1 \<le> (ucast w :: u32) \<and> (ucast w :: u32) < 48" if "w \<noteq> 0" "\<not> 48 \<le> w" for w :: u64
  proof -
    have "0 < unat w" "unat w < 48" using that by (simp_all add: unat_gt_0 word_le_nat_alt)
    then show ?thesis by (simp add: word_le_nat_alt word_less_nat_alt unsigned_ucast_eq take_bit_nat_eq_self)
  qed
  show ?thesis using assms stage cut by (auto simp: device_header_def bindE_Inr_iff split: if_splits)
qed

lemma device_line_ok:
  assumes "device_line file_size verify k line r = Inr r'" "device_reader_ok r"
  shows "device_reader_ok r'"
proof -
  let ?columns = "split_fields (CHR 0x09) line"
  consider (skip) "r' = r" | (header) "device_header_line line r = Inr r'"
    | (segment) "device_segment_line file_size verify k ?columns r = Inr r'" | (tensor) "device_tensor_line k ?columns r = Inr r'"
    using assms(1) unfolding device_line_def Let_def by (metis sum.inject(2))
  then show ?thesis
  proof cases
    case skip
    then show ?thesis using assms(2) by simp
  next
    case header
    define key where "key = takeWhile (\<lambda>c. c \<noteq> CHR ''='') line"
    from header obtain index where d: "device_header key (drop (length key + 1) line) (dr_index r) = Inr index"
      and r': "r' = r\<lparr>dr_index := index, dr_headers := insert key (dr_headers r)\<rparr>"
      by (auto simp: device_header_line_def Let_def bindE_Inr_iff key_def)
    show ?thesis using device_header_ok [OF d] assms(2) unfolding device_reader_ok_def r' Let_def by (auto split: if_splits)
  next
    case segment
    then obtain bytes where "bytes \<noteq> 0" "\<not> dx_mapped_bytes (dr_index r) > u64_max - bytes"
      "r' = r\<lparr>dr_index := (dr_index r)\<lparr>dx_mapped_bytes := dx_mapped_bytes (dr_index r) + bytes,
        dx_segments := dx_segments (dr_index r) @ [\<lparr> dg_relative_path = ?columns ! 1, dg_bytes = bytes, dg_sha256 = ?columns ! 3 \<rparr>]\<rparr>\<rparr>"
      unfolding device_segment_line_def Let_def bindE_Inr_iff guardE_Inr_iff DeviceSegment.select_convs by blast
    then obtain g where g: "dg_bytes g \<noteq> 0" "\<not> dx_mapped_bytes (dr_index r) > u64_max - dg_bytes g"
      and r': "r' = r\<lparr>dr_index := (dr_index r)\<lparr>dx_mapped_bytes := dx_mapped_bytes (dr_index r) + dg_bytes g,
        dx_segments := dx_segments (dr_index r) @ [g]\<rparr>\<rparr>" by (metis DeviceSegment.select_convs(2))
    have "unat (dx_mapped_bytes (dr_index r)) + unat (dg_bytes g) < 2 ^ 64" using g(2) by (simp add: u64_overflow_guard not_le)
    then show ?thesis using assms(2) g(1) unfolding device_reader_ok_def r' Let_def
      by (auto simp: unat_u64_add list_all_iff device_tensor_ok_more)
  next
    case tensor
    then obtain t where t: "dt_name t \<notin> dr_names r" "device_tensor_ok (dx_segments (dr_index r)) t"
      and r': "r' = r\<lparr>dr_index := (dr_index r)\<lparr>dx_tensors := dx_tensors (dr_index r) @ [t]\<rparr>, dr_names := insert (dt_name t) (dr_names r)\<rparr>"
      using validate_layout_exact
      by (fastforce simp: device_tensor_line_def Let_def bindE_Inr_iff device_tensor_ok_def within_iff)
    then show ?thesis using assms(2) unfolding device_reader_ok_def r' Let_def by auto
  qed
qed

lemma device_lines_ok: "device_lines file_size verify k lines r = Inr r' \<Longrightarrow> device_reader_ok r \<Longrightarrow> device_reader_ok r'"
  by (induction lines arbitrary: k r) (auto simp: bindE_Inr_iff intro: device_line_ok)

lemma load_device_index_ok:
  assumes "load_device_stage_index file_size directory path contents verify = Inr index"
  shows "device_index_ok index \<and> dx_stage index \<le> 1 \<and> 1 \<le> dx_cut index \<and> dx_cut index < 48 \<and> dx_source_repo index \<noteq> [] \<and>
    is_hex (dx_source_commit index) 40 \<and> is_hex (dx_policy_sha256 index) 64 \<and> is_hex (dx_artifact_sha256 index) 64"
proof -
  from assms obtain k lines r where r: "device_lines file_size verify k lines \<lparr> dr_index = empty_device_index directory, dr_headers = {}, dr_names = {} \<rparr> = Inr r"
    and c: "dr_headers r = required_headers" "dx_source_repo (dr_index r) \<noteq> []" "is_hex (dx_source_commit (dr_index r)) 40"
      "is_hex (dx_policy_sha256 (dr_index r)) 64" "is_hex (dx_artifact_sha256 (dr_index r)) 64"
      "dx_segments (dr_index r) \<noteq> []" "dx_tensors (dr_index r) \<noteq> []" "index = dr_index r"
    by (auto simp: load_device_stage_index_def Let_def bindE_Inr_iff split: option.splits list.splits)
  have "device_reader_ok \<lparr> dr_index = empty_device_index directory, dr_headers = {}, dr_names = {} \<rparr>"
    by (simp add: device_reader_ok_def empty_device_index_def)
  from device_lines_ok [OF r this] show ?thesis
    using c by (simp add: device_reader_ok_def device_index_ok_def required_headers_def Let_def)
qed

section \<open>Views\<close>

lemma index_names_find:
  assumes "index_names i ts by_name = Inr by_name'"
  shows "by_name' name = (if name \<in> dt_name ` set ts
    then Some (i + length (takeWhile (\<lambda>t. dt_name t \<noteq> name) ts)) else by_name name)"
  using assms
proof (induction ts arbitrary: i by_name)
  case (Cons t ts)
  have n: "by_name (dt_name t) = None" and rest: "index_names (i + 1) ts (by_name(dt_name t \<mapsto> i)) = Inr by_name'"
    using Cons.prems by (simp_all add: bindE_Inr_iff)
  have later: "dt_name t \<notin> dt_name ` set ts"
  proof
    assume "dt_name t \<in> dt_name ` set ts"
    moreover have "index_names j us m \<noteq> Inr m'" if "x \<in> dt_name ` set us" "m x \<noteq> None" for j us m m' x
      using that by (induction us arbitrary: j m) (auto simp: bindE_Inr_iff)
    ultimately show False using rest by fastforce
  qed
  from Cons.IH [OF rest] later show ?case by auto
qed simp

lemma mapE_nth: "mapE f xs = Inr ys \<Longrightarrow> length ys = length xs \<and> (\<forall>i < length xs. f (xs ! i) = Inr (ys ! i))"
proof (induction xs arbitrary: ys)
  case (Cons x xs)
  then obtain z zs where "f x = Inr z" "mapE f xs = Inr zs" "ys = z # zs" by (auto simp: bindE_Inr_iff)
  then show ?case using Cons.IH by (auto simp: nth_Cons split: nat.splits)
qed simp

lemma map_segment_bytes: "map_segment files path n = Inr bytes \<Longrightarrow> files path = SegmentFile bytes None \<and> length bytes = unat n"
  by (auto simp: map_segment_def split: segment_file.splits option.splits if_splits)

definition segment_path :: "DeviceStageIndex \<Rightarrow> DeviceTensor \<Rightarrow> string" where
  "segment_path index t = path_join (dx_index_directory index) (dg_relative_path (dx_segments index ! unat (dt_segment t)))"

lemma device_find_view:
  assumes ok: "device_index_ok index" and st: "new_device_store files index = Inr store" and t: "t \<in> set (dx_tensors index)"
  shows "\<exists>bytes. files (segment_path index t) = SegmentFile bytes None \<and>
    device_find store (dt_name t) = Some \<lparr> dv_descriptor = t, dv_data = drop (unat (dt_data_offset t)) bytes,
      dv_scales = (if dt_scale_bytes t = 0 then None else Some (drop (unat (dt_scale_offset t)) bytes)) \<rparr> \<and>
    unat (dt_data_offset t) + unat (dt_data_bytes t) \<le> length bytes \<and> unat (dt_scale_offset t) + unat (dt_scale_bytes t) \<le> length bytes"
proof -
  from st obtain mappings by_name where
    m: "mapE (\<lambda>g. map_segment files (path_join (dx_index_directory index) (dg_relative_path g)) (dg_bytes g)) (dx_segments index) = Inr mappings"
    and n: "index_names 0 (dx_tensors index) Map.empty = Inr by_name"
    and store: "store = \<lparr> dw_index = index, dw_mappings = mappings, dw_tensor_by_name = by_name \<rparr>"
    by (auto simp: new_device_store_def bindE_Inr_iff)
  from t obtain k where k: "k < length (dx_tensors index)" "dx_tensors index ! k = t" by (auto simp: in_set_conv_nth)
  have "distinct (map dt_name (dx_tensors index))" using ok by (simp add: device_index_ok_def)
  then have "takeWhile (\<lambda>u. dt_name u \<noteq> dt_name t) (dx_tensors index) = take k (dx_tensors index)"
    using k by (intro takeWhile_eq_take_P_nth) (auto simp: distinct_conv_nth)
  then have first: "length (takeWhile (\<lambda>u. dt_name u \<noteq> dt_name t) (dx_tensors index)) = k" using k(1) by simp
  have tok: "device_tensor_ok (dx_segments index) t" using ok t by (simp add: device_index_ok_def list_all_iff)
  then have seg: "unat (dt_segment t) < length (dx_segments index)" by (simp add: device_tensor_ok_def)
  define bytes where "bytes = mappings ! unat (dt_segment t)"
  have "map_segment files (segment_path index t) (dg_bytes (dx_segments index ! unat (dt_segment t))) = Inr bytes"
    using mapE_nth [OF m] seg by (simp add: segment_path_def bytes_def)
  from map_segment_bytes [OF this] tok have "files (segment_path index t) = SegmentFile bytes None"
    "unat (dt_data_offset t) + unat (dt_data_bytes t) \<le> length bytes" "unat (dt_scale_offset t) + unat (dt_scale_bytes t) \<le> length bytes"
    by (simp_all add: device_tensor_ok_def Let_def)
  moreover have "by_name (dt_name t) = Some k" using index_names_find [OF n] t first by simp
  ultimately show ?thesis using k(2) by (simp add: device_find_def store Let_def bytes_def)
qed

lemma device_find_none:
  assumes "new_device_store files index = Inr store" "name \<notin> dt_name ` set (dx_tensors index)"
  shows "device_find store name = None"
  using assms index_names_find by (fastforce simp: new_device_store_def bindE_Inr_iff device_find_def)

lemma check_replicas_ok:
  assumes "check_replicas firsts ts = Inr ()" "t \<in> set ts" "distinct (map dt_name firsts)" "f \<in> set firsts" "dt_name f = dt_name t"
  shows "identical_replica t f"
proof -
  have "find (\<lambda>f. dt_name f = dt_name t) firsts = Some f"
    using assms(3-5) by (induction firsts) (auto simp: image_iff)
  then show ?thesis using assms(1,2) by (induction ts) (auto simp: bindE_Inr_iff split: option.splits)
qed

section \<open>Properties\<close>


text \<open>
  C31: Every view of a weight is inside its file. With an accepted index and segments that could be mapped, the
  store finds exactly the indexed names; the view of a tensor starts at its offset in the bytes of its
  segment's file and its data and scales end before the end of the mapping; any other name is refused.
\<close>

theorem device_views_inside:
  assumes "load_device_stage_index file_size directory path contents verify = Inr index"
    and "new_device_store files index = Inr store"
  shows "(\<forall>t \<in> set (dx_tensors index). \<exists>bytes. files (segment_path index t) = SegmentFile bytes None \<and>
      device_require store (dt_name t) = Inr \<lparr> dv_descriptor = t, dv_data = drop (unat (dt_data_offset t)) bytes,
        dv_scales = (if dt_scale_bytes t = 0 then None else Some (drop (unat (dt_scale_offset t)) bytes)) \<rparr> \<and>
      unat (dt_data_offset t) + unat (dt_data_bytes t) \<le> length bytes \<and> unat (dt_scale_offset t) + unat (dt_scale_bytes t) \<le> length bytes) \<and>
    (\<forall>name. name \<notin> dt_name ` set (dx_tensors index) \<longrightarrow>
      device_require store name = Inl (RuntimeError (''missing device tensor: '' @ name)))"
proof (intro conjI ballI allI impI)
  fix t
  assume "t \<in> set (dx_tensors index)"
  from device_find_view [OF _ assms(2) this] load_device_index_ok [OF assms(1)]
  show "\<exists>bytes. files (segment_path index t) = SegmentFile bytes None \<and>
      device_require store (dt_name t) = Inr \<lparr> dv_descriptor = t, dv_data = drop (unat (dt_data_offset t)) bytes,
        dv_scales = (if dt_scale_bytes t = 0 then None else Some (drop (unat (dt_scale_offset t)) bytes)) \<rparr> \<and>
      unat (dt_data_offset t) + unat (dt_data_bytes t) \<le> length bytes \<and> unat (dt_scale_offset t) + unat (dt_scale_bytes t) \<le> length bytes"
    by (fastforce simp: device_require_def)
qed (simp add: device_require_def device_find_none [OF assms(2)])


definition demo_segment_line :: string where
  "demo_segment_line = join_fields (CHR 0x09) [''segment'', ''s.bin'', ''260'', replicate 64 (CHR ''d'')]"

definition demo_tensor_line :: string where
  "demo_tensor_line = join_fields (CHR 0x09) [''tensor'', ''token_embd.weight'', ''e'', ''BF16'', ''w8a16_sym_g128'', ''128'', ''0'', ''0'', ''256'',
     replicate 64 (CHR ''e''), ''256'', ''4'', replicate 64 (CHR ''f''), ''2,128'']"

definition demo_headers :: "string \<Rightarrow> (string \<times> string) list" where
  "demo_headers stage = [(''stage'', stage), (''cut'', ''25''), (''source_repo'', ''r''), (''source_commit'', replicate 40 (CHR ''a'')),
     (''policy_sha256'', replicate 64 (CHR ''b'')), (''artifact_sha256'', replicate 64 (CHR ''c''))]"

definition demo_device_text :: "string \<Rightarrow> string" where
  "demo_device_text stage = print_lines (''Q38_DEVICE_INDEX_V1'' # map (\<lambda>(key, value). key @ CHR ''='' # value) (demo_headers stage) @
     [demo_segment_line, demo_tensor_line])"

lemma stoull_literals:
  "stoull 10 ''0'' = Inr (0, 1)" "stoull 10 ''1'' = Inr (1, 1)" "stoull 10 ''4'' = Inr (4, 1)" "stoull 10 ''25'' = Inr (25, 2)" "stoull 10 ''2'' = Inr (2, 1)"
  "stoull 10 ''128'' = Inr (128, 3)" "stoull 10 ''256'' = Inr (256, 3)" "stoull 10 ''260'' = Inr (260, 3)"
  by (simp_all add: stoull_def Let_def digit_value_def is_space_def code_of_def)

lemma demo_columns:
  "split_fields (CHR 0x09) demo_segment_line = [''segment'', ''s.bin'', ''260'', replicate 64 (CHR ''d'')]"
  "split_fields (CHR 0x09) demo_tensor_line = [''tensor'', ''token_embd.weight'', ''e'', ''BF16'', ''w8a16_sym_g128'', ''128'', ''0'', ''0'', ''256'',
     replicate 64 (CHR ''e''), ''256'', ''4'', replicate 64 (CHR ''f''), ''2,128'']"
  unfolding demo_segment_line_def demo_tensor_line_def by (rule split_join; simp)+

lemma demo_hex: "c \<in> {CHR ''a'', CHR ''b'', CHR ''c'', CHR ''d'', CHR ''e'', CHR ''f''} \<Longrightarrow> is_hex (replicate n c) n"
  by (auto simp: is_hex_def digit_value_def code_of_def list_all_iff)

lemma demo_tabs: "CHR 0x09 \<in> set demo_segment_line" "CHR 0x09 \<in> set demo_tensor_line" "hd demo_segment_line = CHR ''s''" "hd demo_tensor_line = CHR ''t''"
  "demo_segment_line \<noteq> []" "demo_tensor_line \<noteq> []" "CHR 0x0A \<notin> set demo_segment_line" "CHR 0x0A \<notin> set demo_tensor_line"
  by (simp_all add: demo_segment_line_def demo_tensor_line_def)

lemma device_line_header:
  assumes "CHR ''='' \<notin> set key" "CHR 0x09 \<notin> set key" "CHR 0x09 \<notin> set value" "key \<noteq> []" "hd key \<noteq> CHR ''#''"
    "key \<notin> dr_headers r" "device_header key value (dr_index r) = Inr index"
  shows "device_line file_size verify k (key @ CHR ''='' # value) r = Inr (r\<lparr>dr_index := index, dr_headers := insert key (dr_headers r)\<rparr>)"
proof -
  have "takeWhile (\<lambda>c. c \<noteq> CHR ''='') (key @ CHR ''='' # value) = key" using assms(1) by (subst takeWhile_append2) auto
  then show ?thesis using assms by (simp add: device_line_def device_header_line_def)
qed

definition demo_tensor :: DeviceTensor where
  "demo_tensor = \<lparr> dt_name = ''token_embd.weight'', dt_source_name = ''e'', dt_source_dtype = ''BF16'', dt_format = W8A16SymG128, dt_group_size = 128,
     dt_segment = 0, dt_data_offset = 0, dt_data_bytes = 256, dt_data_sha256 = replicate 64 (CHR ''e''), dt_scale_offset = 256, dt_scale_bytes = 4,
     dt_scale_sha256 = replicate 64 (CHR ''f''), dt_shape = [2, 128] \<rparr>"

lemma digest_not_dash: "replicate 64 (c :: char) \<noteq> [x]"
proof
  assume "replicate 64 c = [x]"
  from arg_cong [OF this, of length] show False by simp
qed

lemma demo_parse: "parse_device_tensor (split_fields (CHR 0x09) demo_tensor_line) = Inr demo_tensor"
  by (auto simp: digest_not_dash demo_columns parse_device_tensor_def parse_format_def device_u64_def parse_u64_field_def stoull_literals demo_tensor_def)

lemma demo_layout: "validate_tensor_layout demo_tensor = Inr ()"
  by (simp add: validate_tensor_layout_def checked_elements_def check_groupwise_def demo_tensor_def demo_hex)

definition demo_device :: "string \<Rightarrow> DeviceStageIndex" where
  "demo_device stage = \<lparr> dx_stage = (if stage = ''0'' then 0 else 1), dx_cut = 25, dx_source_repo = ''r'', dx_source_commit = replicate 40 (CHR ''a''),
     dx_policy_sha256 = replicate 64 (CHR ''b''), dx_artifact_sha256 = replicate 64 (CHR ''c''), dx_index_directory = ''d'',
     dx_segments = [\<lparr> dg_relative_path = ''s.bin'', dg_bytes = 260, dg_sha256 = replicate 64 (CHR ''d'') \<rparr>], dx_tensors = [demo_tensor],
     dx_mapped_bytes = 260 \<rparr>"

lemma demo_segment_step:
  assumes "dx_mapped_bytes (dr_index r) = 0" "dx_segments (dr_index r) = []" "dx_index_directory (dr_index r) = ''d''"
  shows "device_line (\<lambda>_. Inr 260) True k demo_segment_line r = Inr (r\<lparr>dr_index := (dr_index r)\<lparr>dx_mapped_bytes := 260,
    dx_segments := [\<lparr> dg_relative_path = ''s.bin'', dg_bytes = 260, dg_sha256 = replicate 64 (CHR ''d'') \<rparr>]\<rparr>\<rparr>)"
  using assms by (simp add: device_line_def demo_tabs demo_columns device_segment_line_def device_u64_def parse_u64_field_def stoull_literals demo_hex Let_def)

lemma demo_tensor_step:
  assumes "dr_names r = {}" "dx_tensors (dr_index r) = []"
    "dx_segments (dr_index r) = [\<lparr> dg_relative_path = ''s.bin'', dg_bytes = 260, dg_sha256 = replicate 64 (CHR ''d'') \<rparr>]"
  shows "device_line (\<lambda>_. Inr 260) True k demo_tensor_line r =
    Inr (r\<lparr>dr_index := (dr_index r)\<lparr>dx_tensors := [demo_tensor]\<rparr>, dr_names := {''token_embd.weight''}\<rparr>)"
proof -
  have "device_line (\<lambda>_. Inr 260) True k demo_tensor_line r = device_tensor_line k (split_fields (CHR 0x09) demo_tensor_line) r"
    by (simp add: device_line_def demo_tabs demo_columns)
  moreover have "length (split_fields (CHR 0x09) demo_tensor_line) = 14 \<and> split_fields (CHR 0x09) demo_tensor_line ! 0 = ''tensor''"
    by (simp add: demo_columns)
  moreover have "dt_name demo_tensor = ''token_embd.weight''" "dt_source_name demo_tensor = ''e''" "dt_segment demo_tensor = 0"
    "within (dt_data_offset demo_tensor) (dt_data_bytes demo_tensor) 260" "within (dt_scale_offset demo_tensor) (dt_scale_bytes demo_tensor) 260"
    by (simp_all add: demo_tensor_def within_def)
  ultimately show ?thesis using assms by (simp add: device_tensor_line_def demo_parse demo_layout Let_def)
qed

fun apply_headers :: "(string \<times> string) list \<Rightarrow> DeviceStageIndex \<Rightarrow> exn + DeviceStageIndex" where
  "apply_headers [] index = Inr index"
| "apply_headers ((key, value) # hs) index = bindE (device_header key value index) (apply_headers hs)"

definition header_clean :: "string \<times> string \<Rightarrow> bool" where
  "header_clean h \<longleftrightarrow> CHR ''='' \<notin> set (fst h) \<and> CHR 0x09 \<notin> set (fst h) \<and> CHR 0x09 \<notin> set (snd h) \<and> fst h \<noteq> [] \<and> hd (fst h) \<noteq> CHR ''#''"

lemma device_lines_headers:
  assumes "list_all header_clean hs" "distinct (map fst hs)" "fst ` set hs \<inter> dr_headers r = {}" "apply_headers hs (dr_index r) = Inr index"
  shows "\<exists>k'. device_lines file_size verify k (map (\<lambda>(key, value). key @ CHR ''='' # value) hs @ rest) r =
    device_lines file_size verify k' rest (r\<lparr>dr_index := index, dr_headers := fst ` set hs \<union> dr_headers r\<rparr>)"
  using assms
proof (induction hs arbitrary: k r)
  case (Cons h hs)
  obtain key v where h: "h = (key, v)" by force
  from Cons.prems(4) obtain i where i: "device_header key v (dr_index r) = Inr i" "apply_headers hs i = Inr index"
    by (auto simp: h bindE_Inr_iff)
  have line: "device_line file_size verify (k + 1) (key @ CHR ''='' # v) r = Inr (r\<lparr>dr_index := i, dr_headers := insert key (dr_headers r)\<rparr>)"
    by (rule device_line_header) (use Cons.prems i(1) in \<open>simp_all add: h header_clean_def\<close>)
  let ?r = "r\<lparr>dr_index := i, dr_headers := insert key (dr_headers r)\<rparr>"
  have "list_all header_clean hs" "distinct (map fst hs)" "fst ` set hs \<inter> dr_headers ?r = {}" "apply_headers hs (dr_index ?r) = Inr index"
    using Cons.prems i(2) by (auto simp: h)
  from Cons.IH [OF this, of "k + 1"] line show ?case by (simp add: h Un_insert_right)
qed auto

lemma demo_device_load:
  assumes "stage = ''0'' \<or> stage = ''1''"
  shows "load_device_stage_index (\<lambda>_. Inr 260) ''d'' ''i'' (Some (demo_device_text stage)) True = Inr (demo_device stage)"
proof -
  have tab: "CHR 0x09 \<notin> set stage" "CHR 0x0A \<notin> set stage" using assms by auto
  have "CHR 0x0A \<notin> set l" if "l \<in> set (''Q38_DEVICE_INDEX_V1'' # map (\<lambda>(key, value). key @ CHR ''='' # value) (demo_headers stage) @
      [demo_segment_line, demo_tensor_line])" for l
    using that demo_tabs tab by (auto simp: demo_headers_def)
  then have g: "getlines (demo_device_text stage) = ''Q38_DEVICE_INDEX_V1'' # map (\<lambda>(key, value). key @ CHR ''='' # value) (demo_headers stage) @
      [demo_segment_line, demo_tensor_line]"
    unfolding demo_device_text_def by (intro getlines_print) blast
  have stage: "device_header ''stage'' stage i = Inr (i\<lparr>dx_stage := if stage = ''0'' then 0 else 1\<rparr>)" for i
    using assms by (auto simp: device_header_def device_u64_def parse_u64_field_def stoull_literals)
  have others: "device_header ''cut'' ''25'' i = Inr (i\<lparr>dx_cut := 25\<rparr>)" "device_header ''source_repo'' v i = Inr (i\<lparr>dx_source_repo := v\<rparr>)"
    "device_header ''source_commit'' v i = Inr (i\<lparr>dx_source_commit := v\<rparr>)" "device_header ''policy_sha256'' v i = Inr (i\<lparr>dx_policy_sha256 := v\<rparr>)"
    "device_header ''artifact_sha256'' v i = Inr (i\<lparr>dx_artifact_sha256 := v\<rparr>)" for i v
    by (simp_all add: device_header_def device_u64_def parse_u64_field_def stoull_literals)
  let ?r = "\<lparr> dr_index = empty_device_index ''d'', dr_headers = {}, dr_names = {} \<rparr>"
  define i1 where "i1 = (demo_device stage)\<lparr>dx_segments := [], dx_tensors := [], dx_mapped_bytes := 0\<rparr>"
  have "list_all header_clean (demo_headers stage)" "distinct (map fst (demo_headers stage))"
    using tab by (simp_all add: demo_headers_def header_clean_def)
  moreover have "apply_headers (demo_headers stage) (dr_index ?r) = Inr i1"
    by (simp add: demo_headers_def stage others i1_def demo_device_def empty_device_index_def)
  moreover have "fst ` set (demo_headers stage) = required_headers" by (auto simp: demo_headers_def required_headers_def)
  ultimately obtain k where k: "device_lines (\<lambda>_. Inr 260) True 1 (map (\<lambda>(key, value). key @ CHR ''='' # value) (demo_headers stage) @ [demo_segment_line, demo_tensor_line]) ?r =
      device_lines (\<lambda>_. Inr 260) True k [demo_segment_line, demo_tensor_line] (?r\<lparr>dr_index := i1, dr_headers := required_headers\<rparr>)"
    using device_lines_headers [of "demo_headers stage" ?r i1 "\<lambda>_. Inr 260" True 1 "[demo_segment_line, demo_tensor_line]"] by auto
  have "device_lines (\<lambda>_. Inr 260) True k [demo_segment_line, demo_tensor_line] (?r\<lparr>dr_index := i1, dr_headers := required_headers\<rparr>) =
      Inr \<lparr> dr_index = demo_device stage, dr_headers = required_headers, dr_names = {''token_embd.weight''} \<rparr>"
    by (simp add: demo_segment_step demo_tensor_step i1_def demo_device_def)
  with k have "device_lines (\<lambda>_. Inr 260) True 1 (map (\<lambda>(key, value). key @ CHR ''='' # value) (demo_headers stage) @ [demo_segment_line, demo_tensor_line]) ?r =
      Inr \<lparr> dr_index = demo_device stage, dr_headers = required_headers, dr_names = {''token_embd.weight''} \<rparr>" by simp
  then show ?thesis by (simp add: load_device_stage_index_def g Let_def demo_device_def demo_hex)
qed


definition demo_files :: "string \<Rightarrow> segment_file" where
  "demo_files path = (if path = ''d/s.bin'' then SegmentFile (replicate 256 7 @ [1, 2, 3, 4]) None else OpenFails ''ENOENT'')"

lemma demo_device_store:
  "\<exists>store. new_device_store demo_files (demo_device ''0'') = Inr store"
  by (simp add: new_device_store_def demo_device_def map_segment_def demo_files_def path_join_def)

theorem device_views_inside_witness:
  "\<exists>store view. new_device_store demo_files (demo_device ''0'') = Inr store \<and> device_require store ''token_embd.weight'' = Inr view \<and>
     dv_scales view = Some [1, 2, 3, 4]"
proof -
  obtain store where st: "new_device_store demo_files (demo_device ''0'') = Inr store" using demo_device_store by blast
  have l: "load_device_stage_index (\<lambda>_. Inr 260) ''d'' ''i'' (Some (demo_device_text ''0'')) True = Inr (demo_device ''0'')"
    by (rule demo_device_load) simp
  have f: "demo_files (segment_path (demo_device ''0'') demo_tensor) = SegmentFile (replicate 256 7 @ [1, 2, 3, 4]) None"
    by (simp add: demo_files_def segment_path_def demo_device_def demo_tensor_def path_join_def)
  have "demo_tensor \<in> set (dx_tensors (demo_device ''0''))" "dt_name demo_tensor = ''token_embd.weight''"
    by (simp_all add: demo_device_def demo_tensor_def)
  then obtain view where "device_require store ''token_embd.weight'' = Inr view"
    "dv_scales view = Some (drop (unat (dt_scale_offset demo_tensor)) (replicate 256 7 @ [1, 2, 3, 4]))"
    using device_views_inside [OF l st] f by (fastforce simp: demo_tensor_def)
  then show ?thesis using st by (simp add: demo_tensor_def)
qed


text \<open>
  The segment index of a tensor is cut to 32 bits before it is checked: a record that names segment
  \<open>2 ^ 32\<close> is read as one of segment 0.
\<close>

theorem device_segment_index_wraps:
  "\<exists>t. parse_device_tensor [''tensor'', ''n'', ''s'', ''U8'', ''preserve'', ''0'', ''4294967296'', ''0'', ''1'', [], ''0'', ''0'', ''-'', ''1''] = Inr t \<and>
     dt_segment t = 0"
proof -
  have "stoull 10 ''4294967296'' = Inr (4294967296, 10)" by (simp add: stoull_def Let_def digit_value_def is_space_def code_of_def)
  then show ?thesis
    by (simp add: parse_device_tensor_def parse_format_def device_u64_def parse_u64_field_def stoull_literals)
qed

end
