(* ===== verification/MappedWeights.thy ===== *)
theory MappedWeights
  imports TensorIndex DeviceArtifact
begin

text \<open>
  The store of host weights, \<^verbatim>\<open>include/q38/mapped_weights.h\<close> and \<^verbatim>\<open>src/mapped_weights.cc\<close>: each shard of a tensor
  index is mapped once, and a tensor is a view into the mapping of its shard. What the system calls on a
  shard yield is an argument, as for the device weights.
\<close>

section \<open>The store\<close>

definition map_read_only :: "(string \<Rightarrow> segment_file) \<Rightarrow> string \<Rightarrow> exn + u8 list" where
  "map_read_only files path =
     (case files path of
        OpenFails message \<Rightarrow> Inl (system_error ''open'' path message)
      | StatFails message \<Rightarrow> Inl (system_error ''fstat'' path message)
      | SegmentFile bytes failure \<Rightarrow>
          if bytes = [] then Inl (RuntimeError (''weight shard is empty: '' @ path))
          else (case failure of Some message \<Rightarrow> Inl (system_error ''mmap'' path message) | None \<Rightarrow> Inr bytes))"

record MappedWeightStore =
  mw_index :: TensorIndex
  mw_mappings :: "(string \<times> u8 list) list"
  mw_mapping_by_path :: "string \<rightharpoonup> nat"
  mw_tensor_by_name :: "string \<rightharpoonup> nat"

definition map_shard :: "(string \<Rightarrow> segment_file) \<Rightarrow> string \<Rightarrow> MappedWeightStore \<Rightarrow> exn + MappedWeightStore" where
  "map_shard files path s =
     (if mw_mapping_by_path s path = None
      then bindE (map_read_only files path) (\<lambda>bytes.
        Inr (s\<lparr>mw_mappings := mw_mappings s @ [(path, bytes)], mw_mapping_by_path := (mw_mapping_by_path s)(path \<mapsto> length (mw_mappings s))\<rparr>))
      else Inr s)"

text \<open>One round of the constructor's loop, for the tensor at index \<open>i\<close>. \<open>std::unordered_map::at\<close> finds the shard that the
  round has just mapped or found.\<close>

definition map_tensor :: "(string \<Rightarrow> segment_file) \<Rightarrow> nat \<Rightarrow> IndexedTensor \<Rightarrow> MappedWeightStore \<Rightarrow> exn + MappedWeightStore" where
  "map_tensor files i t s =
     bindE (guardE (mw_tensor_by_name s (it_name t) = None) (RuntimeError (''duplicate tensor in mapped store: '' @ it_name t))) (\<lambda>_.
     bindE (map_shard files (it_shard_path t) (s\<lparr>mw_tensor_by_name := (mw_tensor_by_name s)(it_name t \<mapsto> i)\<rparr>)) (\<lambda>s.
     let bytes = snd (mw_mappings s ! the (mw_mapping_by_path s (it_shard_path t))) in
     bindE (guardE (\<not> (unat (it_absolute_offset t) > length bytes \<or> unat (it_payload_bytes t) > length bytes - unat (it_absolute_offset t)))
       (RuntimeError (''tensor exceeds mapped shard: '' @ it_name t))) (\<lambda>_.
     Inr s)))"

fun map_tensors :: "(string \<Rightarrow> segment_file) \<Rightarrow> nat \<Rightarrow> IndexedTensor list \<Rightarrow> MappedWeightStore \<Rightarrow> exn + MappedWeightStore" where
  "map_tensors files i [] s = Inr s"
| "map_tensors files i (t # ts) s = bindE (map_tensor files i t s) (map_tensors files (i + 1) ts)"

definition new_mapped_store :: "(string \<Rightarrow> segment_file) \<Rightarrow> TensorIndex \<Rightarrow> exn + MappedWeightStore" where
  "new_mapped_store files index =
     map_tensors files 0 (ix_tensors index)
       \<lparr> mw_index = index, mw_mappings = [], mw_mapping_by_path = Map.empty, mw_tensor_by_name = Map.empty \<rparr>"

text \<open>A view: the descriptor and the bytes from its pointer on.\<close>

definition mapped_find :: "MappedWeightStore \<Rightarrow> string \<Rightarrow> (IndexedTensor \<times> u8 list) option" where
  "mapped_find s name =
     (case mw_tensor_by_name s name of
        None \<Rightarrow> None
      | Some i \<Rightarrow>
          let t = ix_tensors (mw_index s) ! i; bytes = snd (mw_mappings s ! the (mw_mapping_by_path s (it_shard_path t))) in
          Some (t, drop (unat (it_absolute_offset t)) bytes))"

definition mapped_require :: "MappedWeightStore \<Rightarrow> string \<Rightarrow> exn + IndexedTensor \<times> u8 list" where
  "mapped_require s name =
     (case mapped_find s name of
        None \<Rightarrow> Inl (RuntimeError (''missing tensor: '' @ name))
      | Some view \<Rightarrow> Inr view)"

definition view_size :: "(IndexedTensor \<times> u8 list) option \<Rightarrow> nat" where
  "view_size view = (case view of None \<Rightarrow> 0 | Some (t, data) \<Rightarrow> unat (it_payload_bytes t))"

definition shard_paths :: "MappedWeightStore \<Rightarrow> string list" where
  "shard_paths s = map fst (mw_mappings s)"

section \<open>Its invariant\<close>

definition shards_ok :: "(string \<Rightarrow> segment_file) \<Rightarrow> MappedWeightStore \<Rightarrow> bool" where
  "shards_ok files s \<longleftrightarrow> distinct (map fst (mw_mappings s)) \<and>
     (\<forall>(path, bytes) \<in> set (mw_mappings s). files path = SegmentFile bytes None) \<and>
     (\<forall>path k. mw_mapping_by_path s path = Some k \<longleftrightarrow> k < length (mw_mappings s) \<and> fst (mw_mappings s ! k) = path)"

definition mapped_at :: "(string \<Rightarrow> segment_file) \<Rightarrow> MappedWeightStore \<Rightarrow> IndexedTensor \<Rightarrow> bool" where
  "mapped_at files s t \<longleftrightarrow> (\<exists>k bytes. mw_mapping_by_path s (it_shard_path t) = Some k \<and> k < length (mw_mappings s) \<and>
     snd (mw_mappings s ! k) = bytes \<and> files (it_shard_path t) = SegmentFile bytes None \<and>
     unat (it_absolute_offset t) + unat (it_payload_bytes t) \<le> length bytes)"

lemma map_shard_ok:
  assumes "map_shard files path s = Inr s'" "shards_ok files s"
  shows "shards_ok files s' \<and> mw_tensor_by_name s' = mw_tensor_by_name s \<and> mw_index s' = mw_index s \<and>
    (\<exists>new. mw_mappings s' = mw_mappings s @ new \<and> fst ` set new \<subseteq> {path}) \<and>
    (\<exists>k. mw_mapping_by_path s' path = Some k) \<and> (\<forall>p k. mw_mapping_by_path s p = Some k \<longrightarrow> mw_mapping_by_path s' p = Some k)"
proof (cases "mw_mapping_by_path s path")
  case None
  then obtain bytes where b: "map_read_only files path = Inr bytes" and
    s': "s' = s\<lparr>mw_mappings := mw_mappings s @ [(path, bytes)], mw_mapping_by_path := (mw_mapping_by_path s)(path \<mapsto> length (mw_mappings s))\<rparr>"
    using assms(1) by (auto simp: map_shard_def bindE_Inr_iff)
  have f: "files path = SegmentFile bytes None" using b by (auto simp: map_read_only_def split: segment_file.splits option.splits if_splits)
  have new: "path \<notin> fst ` set (mw_mappings s)"
  proof
    assume "path \<in> fst ` set (mw_mappings s)"
    then obtain k where "k < length (mw_mappings s)" "fst (mw_mappings s ! k) = path" by (auto simp: in_set_conv_nth)
    then show False using assms(2) None unfolding shards_ok_def by (metis option.distinct(1))
  qed
  have "shards_ok files s'" using assms(2) f new None by (auto simp: shards_ok_def s' nth_append less_Suc_eq)
  then show ?thesis using None by (simp add: s')
next
  case (Some k)
  then show ?thesis using assms by (simp add: map_shard_def)
qed

lemma shards_lookup:
  assumes "shards_ok files s" "mw_mapping_by_path s path = Some k"
  shows "k < length (mw_mappings s) \<and> files path = SegmentFile (snd (mw_mappings s ! k)) None"
proof -
  have k: "k < length (mw_mappings s)" "fst (mw_mappings s ! k) = path" using assms by (simp_all add: shards_ok_def)
  then have "mw_mappings s ! k \<in> set (mw_mappings s)" by simp
  then show ?thesis using assms(1) k by (auto simp: shards_ok_def)
qed

lemma mapped_at_more:
  assumes "mapped_at files s t" "shards_ok files s'" "\<And>p k. mw_mapping_by_path s p = Some k \<Longrightarrow> mw_mapping_by_path s' p = Some k"
  shows "mapped_at files s' t"
proof -
  obtain k bytes where k: "mw_mapping_by_path s (it_shard_path t) = Some k" "files (it_shard_path t) = SegmentFile bytes None"
    "unat (it_absolute_offset t) + unat (it_payload_bytes t) \<le> length bytes" using assms(1) by (auto simp: mapped_at_def)
  then show ?thesis using shards_lookup [OF assms(2) assms(3) [OF k(1)]] assms(3) [OF k(1)] by (simp add: mapped_at_def)
qed

lemma map_tensor_ok:
  assumes "map_tensor files i t s = Inr s'" "shards_ok files s"
  shows "shards_ok files s' \<and> mw_index s' = mw_index s \<and> mapped_at files s' t \<and>
    set (shard_paths s') = insert (it_shard_path t) (set (shard_paths s)) \<and>
    (\<forall>p k. mw_mapping_by_path s p = Some k \<longrightarrow> mw_mapping_by_path s' p = Some k) \<and>
    mw_tensor_by_name s (it_name t) = None \<and> mw_tensor_by_name s' = (mw_tensor_by_name s)(it_name t \<mapsto> i)"
proof -
  let ?s = "s\<lparr>mw_tensor_by_name := (mw_tensor_by_name s)(it_name t \<mapsto> i)\<rparr>"
  from assms(1) have n: "mw_tensor_by_name s (it_name t) = None" and m: "map_shard files (it_shard_path t) ?s = Inr s'"
    and e: "\<not> (unat (it_absolute_offset t) > length (snd (mw_mappings s' ! the (mw_mapping_by_path s' (it_shard_path t)))) \<or>
      unat (it_payload_bytes t) > length (snd (mw_mappings s' ! the (mw_mapping_by_path s' (it_shard_path t)))) - unat (it_absolute_offset t))"
    by (auto simp: map_tensor_def bindE_Inr_iff Let_def)
  have "shards_ok files ?s" using assms(2) by (simp add: shards_ok_def)
  note M = map_shard_ok [OF m this]
  then obtain k where k: "mw_mapping_by_path s' (it_shard_path t) = Some k" by blast
  have ok: "shards_ok files s'" using M by blast
  note L = shards_lookup [OF ok k]
  have at: "mapped_at files s' t" using k L e by (auto simp: mapped_at_def not_less)
  obtain new where new: "mw_mappings s' = mw_mappings s @ new" "fst ` set new \<subseteq> {it_shard_path t}" using M by auto
  have "it_shard_path t = fst (mw_mappings s' ! k)" using ok k by (simp add: shards_ok_def)
  then have "it_shard_path t \<in> set (shard_paths s')" using L by (simp add: shard_paths_def)
  then have "set (shard_paths s') = insert (it_shard_path t) (set (shard_paths s))" using new by (auto simp: shard_paths_def)
  then show ?thesis using M n at ok by simp
qed

lemma map_tensors_new: "map_tensors files i ts s = Inr s' \<Longrightarrow> shards_ok files s \<Longrightarrow> name \<in> it_name ` set ts \<Longrightarrow> mw_tensor_by_name s name = None"
proof (induction ts arbitrary: i s)
  case (Cons t ts)
  then obtain s1 where s1: "map_tensor files i t s = Inr s1" "map_tensors files (i + 1) ts s1 = Inr s'" by (auto simp: bindE_Inr_iff)
  note T = map_tensor_ok [OF s1(1) Cons.prems(2)]
  show ?case
  proof (cases "name = it_name t")
    case False
    then show ?thesis using Cons.IH [OF s1(2)] T Cons.prems(3) by auto
  qed (use T in simp)
qed simp

lemma map_tensors_ok:
  assumes "map_tensors files i ts s = Inr s'" "shards_ok files s"
  shows "shards_ok files s' \<and> mw_index s' = mw_index s \<and> list_all (mapped_at files s') ts \<and>
    set (shard_paths s') = set (shard_paths s) \<union> it_shard_path ` set ts \<and>
    (\<forall>p k. mw_mapping_by_path s p = Some k \<longrightarrow> mw_mapping_by_path s' p = Some k) \<and>
    (\<forall>name. name \<notin> it_name ` set ts \<longrightarrow> mw_tensor_by_name s' name = mw_tensor_by_name s name) \<and>
    (\<forall>j < length ts. mw_tensor_by_name s' (it_name (ts ! j)) = Some (i + j))"
  using assms
proof (induction ts arbitrary: i s)
  case (Cons t ts)
  then obtain s1 where s1: "map_tensor files i t s = Inr s1" "map_tensors files (i + 1) ts s1 = Inr s'" by (auto simp: bindE_Inr_iff)
  note T = map_tensor_ok [OF s1(1) Cons.prems(2)]
  then have ok1: "shards_ok files s1" by blast
  note R = Cons.IH [OF s1(2) ok1]
  have later: "it_name t \<notin> it_name ` set ts" using map_tensors_new [OF s1(2) ok1] T by fastforce
  have "mapped_at files s' t" by (rule mapped_at_more [of _ s1]) (use T R in blast)+
  moreover have "mw_tensor_by_name s' (it_name ((t # ts) ! j)) = Some (i + j)" if "j < length (t # ts)" for j
    using that R T later by (cases j) auto
  ultimately show ?case using R T by auto
qed simp

section \<open>Properties\<close>

text \<open>
  C34: Every host weight is a view inside its shard, and each shard is mapped once. When the store of an index could be
  made, its shards are distinct and are exactly those the index names; the view of every indexed tensor starts at its
  offset in the bytes of its shard and its payload ends before the end of the mapping; any other name is refused.
\<close>

theorem mapped_views_inside:
  assumes "new_mapped_store files index = Inr store"
  shows "distinct (shard_paths store) \<and> set (shard_paths store) = it_shard_path ` set (ix_tensors index) \<and>
    (\<forall>t \<in> set (ix_tensors index). \<exists>bytes. files (it_shard_path t) = SegmentFile bytes None \<and>
      mapped_require store (it_name t) = Inr (t, drop (unat (it_absolute_offset t)) bytes) \<and>
      unat (it_absolute_offset t) + unat (it_payload_bytes t) \<le> length bytes) \<and>
    (\<forall>name. name \<notin> it_name ` set (ix_tensors index) \<longrightarrow> mapped_require store name = Inl (RuntimeError (''missing tensor: '' @ name)))"
proof -
  let ?s = "\<lparr> mw_index = index, mw_mappings = [], mw_mapping_by_path = Map.empty, mw_tensor_by_name = Map.empty \<rparr>"
  have "shards_ok files ?s" by (simp add: shards_ok_def)
  note M = map_tensors_ok [OF assms [unfolded new_mapped_store_def] this]
  have ok: "shards_ok files store" using M by blast
  have "\<exists>bytes. files (it_shard_path t) = SegmentFile bytes None \<and>
      mapped_require store (it_name t) = Inr (t, drop (unat (it_absolute_offset t)) bytes) \<and>
      unat (it_absolute_offset t) + unat (it_payload_bytes t) \<le> length bytes" if t: "t \<in> set (ix_tensors index)" for t
  proof -
    from t obtain j where j: "j < length (ix_tensors index)" "ix_tensors index ! j = t" by (auto simp: in_set_conv_nth)
    then have n: "mw_tensor_by_name store (it_name t) = Some j" using M by auto
    have "mapped_at files store t" using M t by (simp add: list_all_iff)
    then show ?thesis using n j(2) M by (auto simp: mapped_at_def mapped_require_def mapped_find_def Let_def)
  qed
  moreover have "distinct (shard_paths store)" using ok by (simp add: shards_ok_def shard_paths_def)
  ultimately show ?thesis using M by (auto simp: shard_paths_def mapped_require_def mapped_find_def)
qed

definition small_index :: TensorIndex where
  "small_index = empty_index\<lparr>ix_tensors := [\<lparr> it_name = ''a'', it_type_name = ''F32'', it_payload_bytes = 2, it_absolute_offset = 1, it_shard_path = ''s'', it_dims = [1] \<rparr>,
     \<lparr> it_name = ''b'', it_type_name = ''F32'', it_payload_bytes = 1, it_absolute_offset = 3, it_shard_path = ''s'', it_dims = [1] \<rparr>]\<rparr>"

theorem mapped_views_inside_witness:
  "\<exists>store. new_mapped_store (\<lambda>_. SegmentFile [1, 2, 3, 4] None) small_index = Inr store \<and> shard_paths store = [''s''] \<and>
     (\<exists>t. mapped_require store ''b'' = Inr (t, [4]))"
proof -
  obtain store where st: "new_mapped_store (\<lambda>_. SegmentFile [1, 2, 3, 4] None) small_index = Inr store" and p: "shard_paths store = [''s'']"
    by (simp add: new_mapped_store_def small_index_def map_tensor_def map_shard_def map_read_only_def shard_paths_def)
  let ?b = "ix_tensors small_index ! 1"
  have "?b \<in> set (ix_tensors small_index)" "it_name ?b = ''b''" "unat (it_absolute_offset ?b) = 3" by (simp_all add: small_index_def)
  then have "\<exists>t. mapped_require store ''b'' = Inr (t, [4])" using mapped_views_inside [OF st] by fastforce
  then show ?thesis using st p by blast
qed

end
