(* ===== verification/Artifact.thy ===== *)
theory Artifact
  imports FieldText
begin

text \<open>
  The manifest of a model artifact, \<^verbatim>\<open>include/q38/artifact.h\<close> and \<^verbatim>\<open>src/artifact.cc\<close>: reading its key/value lines and
  validating the stage ranges, the layer lists and the types. The text of the file is an argument.
\<close>

section \<open>Data\<close>

record LayerRange =
  lr_first :: u32
  lr_count :: u32

record ModelArtifactManifest =
  ma_schema_version :: u32
  ma_model_id :: string
  ma_artifact_sha256 :: string
  ma_tokenizer_sha256 :: string
  ma_tensor_layout_version :: string
  ma_stage_plan_id :: string
  ma_context_limit :: u32
  ma_vocab_size :: u32
  ma_model_hidden_width :: u32
  ma_boundary_hidden_width :: u32
  ma_layer_count :: u32
  ma_stage0 :: LayerRange
  ma_stage1 :: LayerRange
  ma_ple_layer :: u32
  ma_qsa_layers :: "u32 list"
  ma_qsa_main_dtype :: DType
  ma_ple_storage_dtype :: DType
  ma_stage0_weights :: string
  ma_stage1_weights :: string
  ma_mtp_weights :: string
  ma_ple_manifest :: string

section \<open>Reading\<close>

definition trim :: "string \<Rightarrow> string" where
  "trim value = rev (dropWhile is_space (rev (dropWhile is_space value)))"

definition manifest_u32 :: "string \<Rightarrow> string \<Rightarrow> exn + u32" where
  "manifest_u32 key value =
     (case stoull 10 value of
        Inl _ \<Rightarrow> Inl (RuntimeError (''manifest key '' @ key @ '' is not an integer''))
      | Inr (parsed, used) \<Rightarrow>
          if used \<noteq> length value \<or> parsed > 0xffffffff then Inl (RuntimeError (''manifest key '' @ key @ '' is outside uint32''))
          else Inr (ucast parsed))"

definition manifest_dtype :: "string \<Rightarrow> string \<Rightarrow> exn + DType" where
  "manifest_dtype key value =
     (case map_of [(''bf16'', BFloat16), (''f32'', Float32), (''f16'', Float16), (''int8'', Int8), (''fp8_e4m3'', Fp8E4M3)] value of
        None \<Rightarrow> Inl (RuntimeError (''manifest key '' @ key @ '' has unknown dtype''))
      | Some d \<Rightarrow> Inr d)"

definition parse_u32_item :: "string \<Rightarrow> string \<Rightarrow> exn + u32" where
  "parse_u32_item key item =
     (let item = trim item in
      bindE (guardE (item \<noteq> []) (RuntimeError (''manifest key '' @ key @ '' has an empty item''))) (\<lambda>_. manifest_u32 key item))"

definition parse_u32_list :: "string \<Rightarrow> string \<Rightarrow> exn + u32 list" where
  "parse_u32_list key value =
     bindE (mapE (parse_u32_item key) (split_fields (CHR '','') value)) (\<lambda>result.
     bindE (guardE (result \<noteq> []) (RuntimeError (''manifest key '' @ key @ '' is empty''))) (\<lambda>_. Inr result))"

text \<open>The table of the values, in the order of the lines; the program's table is not ordered.\<close>

definition manifest_line :: "u32 \<Rightarrow> string \<Rightarrow> (string \<times> string) list \<Rightarrow> exn + (string \<times> string) list" where
  "manifest_line line_number line vs =
     (let line = trim line in
      if line = [] \<or> hd line = CHR ''#'' then Inr vs
      else
        bindE (guardE (CHR ''='' \<in> set line) (RuntimeError (''manifest line '' @ decimal (unat line_number) @ '' has no '' @ [CHR 0x27, CHR ''='', CHR 0x27]))) (\<lambda>_.
        let equals = length (takeWhile (\<lambda>c. c \<noteq> CHR ''='') line); key = trim (take equals line); v = trim (drop (equals + 1) line) in
        bindE (guardE (\<not> (key = [] \<or> v = [])) (RuntimeError (''manifest line '' @ decimal (unat line_number) @ '' has an empty key or value''))) (\<lambda>_.
        bindE (guardE (map_of vs key = None) (RuntimeError (''manifest has duplicate key '' @ key))) (\<lambda>_.
        Inr (vs @ [(key, v)])))))"

fun manifest_lines :: "u32 \<Rightarrow> string list \<Rightarrow> (string \<times> string) list \<Rightarrow> exn + (string \<times> string) list" where
  "manifest_lines line_number [] vs = Inr vs"
| "manifest_lines line_number (line # lines) vs =
     bindE (manifest_line (line_number + 1) line vs) (manifest_lines (line_number + 1) lines)"

text \<open>The required keys in the order of \<open>std::set\<close>.\<close>

definition required_keys :: "string list" where
  "required_keys = [''artifact_sha256'', ''boundary_hidden_width'', ''context_limit'', ''layer_count'', ''model_hidden_width'', ''model_id'',
     ''mtp_weights'', ''ple_layer'', ''ple_manifest'', ''ple_storage_dtype'', ''qsa_layers'', ''qsa_main_dtype'', ''schema_version'',
     ''stage0_count'', ''stage0_first'', ''stage0_weights'', ''stage1_count'', ''stage1_first'', ''stage1_weights'', ''stage_plan_id'',
     ''tensor_layout_version'', ''tokenizer_sha256'', ''vocab_size'']"

definition check_manifest_keys :: "(string \<times> string) list \<Rightarrow> exn + unit" where
  "check_manifest_keys vs =
     (case find (\<lambda>key. map_of vs key = None) required_keys of
        Some key \<Rightarrow> Inl (RuntimeError (''manifest is missing key '' @ key))
      | None \<Rightarrow>
          (case find (\<lambda>item. fst item \<notin> set required_keys) vs of
             Some item \<Rightarrow> Inl (RuntimeError (''manifest has unknown key '' @ fst item))
           | None \<Rightarrow> Inr ()))"

section \<open>Validating\<close>

fun check_qsa :: "u32 \<Rightarrow> u32 set \<Rightarrow> u32 list \<Rightarrow> exn + unit" where
  "check_qsa layer_count qsa [] = Inr ()"
| "check_qsa layer_count qsa (layer # layers) =
     bindE (guardE (\<not> (layer \<ge> layer_count \<or> layer \<in> qsa)) (RuntimeError ''QSA layer list is invalid or duplicated'')) (\<lambda>_.
     check_qsa layer_count (insert layer qsa) layers)"

definition check_ranges :: "ModelArtifactManifest \<Rightarrow> exn + unit" where
  "check_ranges m =
     bindE (guardE (\<not> (lr_first (ma_stage0 m) \<noteq> 0 \<or> lr_count (ma_stage0 m) = 0 \<or> lr_count (ma_stage1 m) = 0 \<or>
         lr_first (ma_stage1 m) \<noteq> lr_count (ma_stage0 m) \<or>
         (ucast (lr_count (ma_stage0 m)) :: u64) + ucast (lr_count (ma_stage1 m)) \<noteq> ucast (ma_layer_count m)))
       (RuntimeError ''stage ranges must be contiguous and exhaustive'')) (\<lambda>_.
     bindE (guardE (\<not> ma_ple_layer m \<ge> lr_count (ma_stage0 m)) (RuntimeError ''PLE consumer must be owned by stage0'')) (\<lambda>_.
     check_qsa (ma_layer_count m) {} (ma_qsa_layers m)))"

definition validate_artifact_manifest :: "ModelArtifactManifest \<Rightarrow> exn + unit" where
  "validate_artifact_manifest m =
     bindE (guardE (ma_schema_version m = 1) (RuntimeError ''unsupported artifact manifest version'')) (\<lambda>_.
     bindE (guardE (\<not> (ma_model_id m = [] \<or> ma_tensor_layout_version m = [] \<or> ma_stage_plan_id m = []))
       (RuntimeError ''artifact identity fields must be nonempty'')) (\<lambda>_.
     bindE (guardE (is_hex (ma_artifact_sha256 m) 64 \<and> is_hex (ma_tokenizer_sha256 m) 64)
       (RuntimeError ''artifact hashes must be 64 hexadecimal characters'')) (\<lambda>_.
     bindE (guardE (\<not> (ma_context_limit m = 0 \<or> ma_vocab_size m = 0 \<or> ma_model_hidden_width m = 0 \<or> ma_boundary_hidden_width m = 0 \<or> ma_layer_count m = 0))
       (RuntimeError ''artifact dimensions must be nonzero'')) (\<lambda>_.
     bindE (guardE (ma_boundary_hidden_width m = 4 * ma_model_hidden_width m) (RuntimeError ''boundary width must materialize four HC streams'')) (\<lambda>_.
     bindE (check_ranges m) (\<lambda>_.
     bindE (guardE (ma_qsa_main_dtype m = BFloat16) (RuntimeError ''v1 requires BF16 main QSA K/V'')) (\<lambda>_.
     bindE (guardE (ma_ple_storage_dtype m = BFloat16 \<or> ma_ple_storage_dtype m = Fp8E4M3) (RuntimeError ''v1 PLE storage must be BF16 or FP8 E4M3'')) (\<lambda>_.
     guardE (\<not> (ma_stage0_weights m = [] \<or> ma_stage1_weights m = [] \<or> ma_mtp_weights m = [] \<or> ma_ple_manifest m = []))
       (RuntimeError ''artifact component paths must be nonempty'')))))))))"

definition build_manifest :: "(string \<Rightarrow> string) \<Rightarrow> exn + ModelArtifactManifest" where
  "build_manifest at =
     bindE (manifest_u32 ''schema_version'' (at ''schema_version'')) (\<lambda>schema_version.
     bindE (manifest_u32 ''context_limit'' (at ''context_limit'')) (\<lambda>context_limit.
     bindE (manifest_u32 ''vocab_size'' (at ''vocab_size'')) (\<lambda>vocab_size.
     bindE (manifest_u32 ''model_hidden_width'' (at ''model_hidden_width'')) (\<lambda>model_hidden_width.
     bindE (manifest_u32 ''boundary_hidden_width'' (at ''boundary_hidden_width'')) (\<lambda>boundary_hidden_width.
     bindE (manifest_u32 ''layer_count'' (at ''layer_count'')) (\<lambda>layer_count.
     bindE (manifest_u32 ''stage0_first'' (at ''stage0_first'')) (\<lambda>stage0_first.
     bindE (manifest_u32 ''stage0_count'' (at ''stage0_count'')) (\<lambda>stage0_count.
     bindE (manifest_u32 ''stage1_first'' (at ''stage1_first'')) (\<lambda>stage1_first.
     bindE (manifest_u32 ''stage1_count'' (at ''stage1_count'')) (\<lambda>stage1_count.
     bindE (manifest_u32 ''ple_layer'' (at ''ple_layer'')) (\<lambda>ple_layer.
     bindE (parse_u32_list ''qsa_layers'' (at ''qsa_layers'')) (\<lambda>qsa_layers.
     bindE (manifest_dtype ''qsa_main_dtype'' (at ''qsa_main_dtype'')) (\<lambda>qsa_main_dtype.
     bindE (manifest_dtype ''ple_storage_dtype'' (at ''ple_storage_dtype'')) (\<lambda>ple_storage_dtype.
     Inr \<lparr> ma_schema_version = schema_version, ma_model_id = at ''model_id'', ma_artifact_sha256 = at ''artifact_sha256'',
       ma_tokenizer_sha256 = at ''tokenizer_sha256'', ma_tensor_layout_version = at ''tensor_layout_version'',
       ma_stage_plan_id = at ''stage_plan_id'', ma_context_limit = context_limit, ma_vocab_size = vocab_size,
       ma_model_hidden_width = model_hidden_width, ma_boundary_hidden_width = boundary_hidden_width, ma_layer_count = layer_count,
       ma_stage0 = \<lparr> lr_first = stage0_first, lr_count = stage0_count \<rparr>, ma_stage1 = \<lparr> lr_first = stage1_first, lr_count = stage1_count \<rparr>,
       ma_ple_layer = ple_layer, ma_qsa_layers = qsa_layers, ma_qsa_main_dtype = qsa_main_dtype, ma_ple_storage_dtype = ple_storage_dtype,
       ma_stage0_weights = at ''stage0_weights'', ma_stage1_weights = at ''stage1_weights'', ma_mtp_weights = at ''mtp_weights'',
       ma_ple_manifest = at ''ple_manifest'' \<rparr>))))))))))))))"

definition parse_artifact_manifest :: "string \<Rightarrow> exn + ModelArtifactManifest" where
  "parse_artifact_manifest text =
     bindE (manifest_lines 0 (getlines text) []) (\<lambda>vs.
     bindE (check_manifest_keys vs) (\<lambda>_.
     bindE (build_manifest (\<lambda>key. the (map_of vs key))) (\<lambda>manifest.
     bindE (validate_artifact_manifest manifest) (\<lambda>_.
     Inr manifest))))"

definition load_artifact_manifest :: "string \<Rightarrow> string option \<Rightarrow> exn + ModelArtifactManifest" where
  "load_artifact_manifest path contents =
     (case contents of
        None \<Rightarrow> Inl (RuntimeError (''cannot open artifact manifest: '' @ path))
      | Some text \<Rightarrow> parse_artifact_manifest text)"

section \<open>Printing\<close>

text \<open>A manifest as the text that the reader expects, one line per key in the order of \<open>required_keys\<close>.\<close>

fun dtype_name :: "DType \<Rightarrow> string" where
  "dtype_name DInvalid = []"
| "dtype_name BFloat16 = ''bf16''"
| "dtype_name Float32 = ''f32''"
| "dtype_name Float16 = ''f16''"
| "dtype_name Int8 = ''int8''"
| "dtype_name Fp8E4M3 = ''fp8_e4m3''"

definition layer_list :: "u32 list \<Rightarrow> string" where
  "layer_list layers = join_fields (CHR '','') (map (\<lambda>l. decimal (unat l)) layers)"

definition manifest_entries :: "ModelArtifactManifest \<Rightarrow> (string \<times> string) list" where
  "manifest_entries m = [(''artifact_sha256'', ma_artifact_sha256 m),
     (''boundary_hidden_width'', decimal (unat (ma_boundary_hidden_width m))),
     (''context_limit'', decimal (unat (ma_context_limit m))),
     (''layer_count'', decimal (unat (ma_layer_count m))),
     (''model_hidden_width'', decimal (unat (ma_model_hidden_width m))),
     (''model_id'', ma_model_id m),
     (''mtp_weights'', ma_mtp_weights m),
     (''ple_layer'', decimal (unat (ma_ple_layer m))),
     (''ple_manifest'', ma_ple_manifest m),
     (''ple_storage_dtype'', dtype_name (ma_ple_storage_dtype m)),
     (''qsa_layers'', layer_list (ma_qsa_layers m)),
     (''qsa_main_dtype'', dtype_name (ma_qsa_main_dtype m)),
     (''schema_version'', decimal (unat (ma_schema_version m))),
     (''stage0_count'', decimal (unat (lr_count (ma_stage0 m)))),
     (''stage0_first'', decimal (unat (lr_first (ma_stage0 m)))),
     (''stage0_weights'', ma_stage0_weights m),
     (''stage1_count'', decimal (unat (lr_count (ma_stage1 m)))),
     (''stage1_first'', decimal (unat (lr_first (ma_stage1 m)))),
     (''stage1_weights'', ma_stage1_weights m),
     (''stage_plan_id'', ma_stage_plan_id m),
     (''tensor_layout_version'', ma_tensor_layout_version m),
     (''tokenizer_sha256'', ma_tokenizer_sha256 m),
     (''vocab_size'', decimal (unat (ma_vocab_size m)))]"

definition entry_line :: "string \<times> string \<Rightarrow> string" where
  "entry_line e = fst e @ CHR ''='' # snd e"

definition print_manifest :: "ModelArtifactManifest \<Rightarrow> string" where
  "print_manifest m = print_lines (map entry_line (manifest_entries m))"

text \<open>What a value keeps when its line is read: it starts and ends with no space and has no line break.\<close>

definition clean_value :: "string \<Rightarrow> bool" where
  "clean_value v \<longleftrightarrow> v \<noteq> [] \<and> \<not> is_space (hd v) \<and> \<not> is_space (last v) \<and> CHR 0x0A \<notin> set v"

definition clean_key :: "string \<Rightarrow> bool" where
  "clean_key k \<longleftrightarrow> clean_value k \<and> CHR ''='' \<notin> set k \<and> hd k \<noteq> CHR ''#''"

definition clean_manifest :: "ModelArtifactManifest \<Rightarrow> bool" where
  "clean_manifest m \<longleftrightarrow> clean_value (ma_model_id m) \<and> clean_value (ma_tensor_layout_version m) \<and> clean_value (ma_stage_plan_id m) \<and>
     clean_value (ma_stage0_weights m) \<and> clean_value (ma_stage1_weights m) \<and> clean_value (ma_mtp_weights m) \<and>
     clean_value (ma_ple_manifest m) \<and> ma_qsa_layers m \<noteq> []"

lemma trim_clean: "v \<noteq> [] \<Longrightarrow> \<not> is_space (hd v) \<Longrightarrow> \<not> is_space (last v) \<Longrightarrow> trim v = v"
proof -
  assume "v \<noteq> []" "\<not> is_space (hd v)" "\<not> is_space (last v)"
  then have "dropWhile is_space v = v" "dropWhile is_space (rev v) = rev v"
    by (auto simp: dropWhile_eq_self_iff hd_rev)
  then show ?thesis by (simp add: trim_def)
qed

lemma manifest_line_entry:
  assumes "clean_key (fst e)" "clean_value (snd e)" "map_of vs (fst e) = None"
  shows "manifest_line k (entry_line e) vs = Inr (vs @ [e])"
proof -
  obtain key v where e: "e = (key, v)" by force
  have t: "trim (key @ CHR ''='' # v) = key @ CHR ''='' # v" "trim key = key" "trim v = v"
    using assms by (auto intro!: trim_clean simp: e clean_key_def clean_value_def)
  have "takeWhile (\<lambda>c. c \<noteq> CHR ''='') (key @ CHR ''='' # v) = key"
    using assms(1) by (subst takeWhile_append2) (auto simp: e clean_key_def)
  then show ?thesis using assms t by (auto simp: e manifest_line_def entry_line_def clean_key_def clean_value_def)
qed

lemma manifest_lines_entries:
  assumes "\<forall>e \<in> set es. clean_key (fst e) \<and> clean_value (snd e)" "distinct (map fst (vs @ es))"
  shows "manifest_lines k (map entry_line es) vs = Inr (vs @ es)"
  using assms
proof (induction es arbitrary: k vs)
  case (Cons e es)
  have "map_of vs (fst e) = None" using Cons.prems(2) by (auto simp: map_of_eq_None_iff)
  then have "manifest_line (k + 1) (entry_line e) vs = Inr (vs @ [e])" using manifest_line_entry Cons.prems(1) by simp
  then show ?case using Cons.IH [of "vs @ [e]"] Cons.prems by simp
qed simp

lemma decimal_value: "clean_value (decimal n)"
  using decimal_digits [of n] decimal_clean [of "CHR 0x0A" n] decimal_digit_not by (auto simp: clean_value_def)

lemma layer_list_value: "layers \<noteq> [] \<Longrightarrow> clean_value (layer_list layers)"
proof (induction layers)
  case (Cons l layers)
  show ?case
  proof (cases layers)
    case Nil
    then show ?thesis using decimal_value by (simp add: layer_list_def)
  next
    case (Cons x xs)
    then have "clean_value (layer_list layers)" using Cons.IH by simp
    moreover have "layer_list (l # layers) = decimal (unat l) @ CHR '','' # layer_list layers" by (simp add: layer_list_def Cons)
    ultimately show ?thesis using decimal_value [of "unat l"] by (auto simp: clean_value_def)
  qed
qed simp

lemma hex_value: "is_hex v n \<Longrightarrow> n \<noteq> 0 \<Longrightarrow> clean_value v"
proof -
  assume h: "is_hex v n" "n \<noteq> 0"
  have "\<not> is_space c" "c \<noteq> CHR 0x0A" if "digit_value c < 16" for c
    using that by (auto simp: digit_value_def is_space_def code_of_def Let_def split: if_splits)
  then show ?thesis using h by (auto simp: clean_value_def is_hex_def list_all_iff)
qed

lemma manifest_u32_decimal: "manifest_u32 key (decimal (unat w)) = Inr w"
proof -
  have "unat w < 4294967296" using unsigned_less [of w] by simp
  then have "stoull 10 (decimal (unat w)) = Inr (ucast w, length (decimal (unat w)))"
    using stoull_decimal [of "unat w"] by simp
  moreover have "(ucast w :: u64) \<le> 0xffffffff" using \<open>unat w < 4294967296\<close> by (simp add: word_le_nat_alt unsigned_ucast_eq take_bit_eq_mod)
  ultimately show ?thesis by (simp add: manifest_u32_def ucast_back)
qed

lemma manifest_dtype_name: "d \<noteq> DInvalid \<Longrightarrow> manifest_dtype key (dtype_name d) = Inr d"
  by (cases d) (simp_all add: manifest_dtype_def)

lemma parse_layer_list:
  assumes "layers \<noteq> []"
  shows "parse_u32_list key (layer_list layers) = Inr layers"
proof -
  have "split_fields (CHR '','') (layer_list layers) = map (\<lambda>l. decimal (unat l)) layers"
    unfolding layer_list_def
  proof (rule split_join)
    show "\<forall>f \<in> set (map (\<lambda>l. decimal (unat l)) layers). CHR '','' \<notin> set f" using decimal_clean by auto
    show "last (map (\<lambda>l. decimal (unat l)) layers) \<noteq> []" using assms decimal_digits by (simp add: last_map)
  qed (use assms in simp)
  moreover have "parse_u32_item key (decimal (unat l)) = Inr l" for l
    using decimal_value [of "unat l"] trim_clean by (simp add: parse_u32_item_def clean_value_def manifest_u32_decimal)
  then have "mapE (parse_u32_item key) (map (\<lambda>l. decimal (unat l)) layers) = Inr layers" by (induction layers) simp_all
  ultimately show ?thesis using assms by (simp add: parse_u32_list_def)
qed

lemma manifest_entries_keys: "map fst (manifest_entries m) = required_keys"
  by (simp add: manifest_entries_def required_keys_def)

lemma required_keys_distinct: "distinct required_keys"
  by code_simp

lemma required_keys_clean: "list_all clean_key required_keys"
  by code_simp

lemma check_manifest_keys_entries: "map fst vs = required_keys \<Longrightarrow> check_manifest_keys vs = Inr ()"
proof -
  assume v: "map fst vs = required_keys"
  then have s: "fst ` set vs = set required_keys" by (metis list.set_map)
  then have "find (\<lambda>key. map_of vs key = None) required_keys = None" by (auto simp: find_None_iff map_of_eq_None_iff)
  moreover have "find (\<lambda>item. fst item \<notin> set required_keys) vs = None" using s by (force simp: find_None_iff)
  ultimately show ?thesis by (simp add: check_manifest_keys_def)
qed

lemma manifest_entries_clean:
  assumes "validate_artifact_manifest m = Inr ()" "clean_manifest m"
  shows "\<forall>e \<in> set (manifest_entries m). clean_value (snd e)"
proof -
  have "is_hex (ma_artifact_sha256 m) 64" "is_hex (ma_tokenizer_sha256 m) 64" "ma_qsa_main_dtype m = BFloat16"
    "ma_ple_storage_dtype m = BFloat16 \<or> ma_ple_storage_dtype m = Fp8E4M3"
    using assms(1) by (simp_all add: validate_artifact_manifest_def bindE_Inr_iff)
  moreover from this have "clean_value (ma_artifact_sha256 m)" "clean_value (ma_tokenizer_sha256 m)" by (auto intro: hex_value)
  moreover have "clean_value ''bf16''" "clean_value ''fp8_e4m3''" by code_simp+
  ultimately show ?thesis using assms(2) layer_list_value
    by (auto simp: manifest_entries_def decimal_value clean_manifest_def)
qed

lemma build_manifest_entries:
  assumes "validate_artifact_manifest m = Inr ()" "clean_manifest m"
  shows "build_manifest (\<lambda>key. the (map_of (manifest_entries m) key)) = Inr m"
proof -
  have d: "ma_qsa_main_dtype m \<noteq> DInvalid" "ma_ple_storage_dtype m \<noteq> DInvalid" "ma_qsa_layers m \<noteq> []"
    using assms by (auto simp: validate_artifact_manifest_def bindE_Inr_iff clean_manifest_def)
  show ?thesis
    by (simp add: build_manifest_def manifest_entries_def manifest_u32_decimal parse_layer_list manifest_dtype_name d)
qed

lemma parse_print_manifest:
  assumes "validate_artifact_manifest m = Inr ()" "clean_manifest m"
  shows "parse_artifact_manifest (print_manifest m) = Inr m"
proof -
  have k: "\<forall>e \<in> set (manifest_entries m). clean_key (fst e)"
    using required_keys_clean unfolding manifest_entries_keys [of m, symmetric] by (simp add: list_all_iff)
  note v = manifest_entries_clean [OF assms]
  have "CHR 0x0A \<notin> set l" if "l \<in> set (map entry_line (manifest_entries m))" for l
    using that k v by (force simp: entry_line_def clean_key_def clean_value_def)
  then have g: "getlines (print_manifest m) = map entry_line (manifest_entries m)"
    unfolding print_manifest_def by (intro getlines_print) blast
  have "manifest_lines 0 (map entry_line (manifest_entries m)) [] = Inr (manifest_entries m)"
    using manifest_lines_entries [of "manifest_entries m" "[]" 0] k v required_keys_distinct by (simp add: manifest_entries_keys)
  then show ?thesis
    using assms by (simp add: parse_artifact_manifest_def g check_manifest_keys_entries manifest_entries_keys build_manifest_entries)
qed

section \<open>What validation gives\<close>

lemma check_qsa_iff: "check_qsa n seen layers = Inr () \<longleftrightarrow> distinct layers \<and> (\<forall>l \<in> set layers. l < n \<and> l \<notin> seen)"
  by (induction layers arbitrary: seen) (auto simp: bindE_Inr_iff not_le)

definition stage_layers :: "LayerRange \<Rightarrow> nat set" where
  "stage_layers r = {unat (lr_first r) ..< unat (lr_first r) + unat (lr_count r)}"

lemma check_ranges_iff:
  "check_ranges m = Inr () \<longleftrightarrow> stage_layers (ma_stage0 m) \<noteq> {} \<and> stage_layers (ma_stage1 m) \<noteq> {} \<and>
     lr_first (ma_stage0 m) = 0 \<and> lr_first (ma_stage1 m) = lr_count (ma_stage0 m) \<and>
     unat (lr_count (ma_stage0 m)) + unat (lr_count (ma_stage1 m)) = unat (ma_layer_count m) \<and>
     ma_ple_layer m < lr_count (ma_stage0 m) \<and> distinct (ma_qsa_layers m) \<and> (\<forall>l \<in> set (ma_qsa_layers m). l < ma_layer_count m)"
proof -
  have "(ucast a :: u64) + ucast b = ucast c \<longleftrightarrow> unat a + unat b = unat c" for a b c :: u32
    using unat_u32_lt [of a] unat_u32_lt [of b] unfolding word_unat_eq_iff by (simp add: unat_u64_add)
  moreover have "stage_layers r \<noteq> {} \<longleftrightarrow> lr_count r \<noteq> 0" for r
    by (simp add: stage_layers_def unat_eq_0)
  ultimately show ?thesis by (auto simp: check_ranges_def bindE_Inr_iff check_qsa_iff not_le)
qed

lemma load_manifest_valid:
  assumes "load_artifact_manifest path contents = Inr m"
  shows "validate_artifact_manifest m = Inr () \<and> ma_qsa_layers m \<noteq> []"
proof -
  from assms obtain at where b: "build_manifest at = Inr m" "validate_artifact_manifest m = Inr ()"
    by (auto simp: load_artifact_manifest_def parse_artifact_manifest_def bindE_Inr_iff split: option.splits)
  from b(1) obtain layers where "parse_u32_list ''qsa_layers'' (at ''qsa_layers'') = Inr layers" "ma_qsa_layers m = layers"
    by (auto simp: build_manifest_def bindE_Inr_iff)
  then show ?thesis using b(2) by (auto simp: parse_u32_list_def bindE_Inr_iff)
qed

section \<open>Properties\<close>

text \<open>
  C35: An accepted manifest splits the model between the two stages. The layers of stage 0 and of stage 1 are
  nonempty, disjoint and together all the layers, counted without wrap-around; the layer that consumes the
  embedding tables is one of stage 0; the QSA layers are listed, distinct and layers of the model; the
  boundary is four times the hidden width (in 32 bits), the main keys and values are BF16 and the tables BF16 or FP8.
\<close>

theorem artifact_manifest_partition:
  assumes "load_artifact_manifest path contents = Inr m"
  shows "stage_layers (ma_stage0 m) \<union> stage_layers (ma_stage1 m) = {0 ..< unat (ma_layer_count m)} \<and>
    stage_layers (ma_stage0 m) \<inter> stage_layers (ma_stage1 m) = {} \<and> stage_layers (ma_stage0 m) \<noteq> {} \<and> stage_layers (ma_stage1 m) \<noteq> {} \<and>
    unat (ma_ple_layer m) \<in> stage_layers (ma_stage0 m) \<and>
    ma_qsa_layers m \<noteq> [] \<and> distinct (ma_qsa_layers m) \<and> unat ` set (ma_qsa_layers m) \<subseteq> {0 ..< unat (ma_layer_count m)} \<and>
    ma_boundary_hidden_width m = 4 * ma_model_hidden_width m \<and> ma_qsa_main_dtype m = BFloat16 \<and> ma_ple_storage_dtype m \<in> {BFloat16, Fp8E4M3}"
proof -
  note v = load_manifest_valid [OF assms]
  then have r: "check_ranges m = Inr ()" and d: "ma_boundary_hidden_width m = 4 * ma_model_hidden_width m" "ma_qsa_main_dtype m = BFloat16"
    "ma_ple_storage_dtype m \<in> {BFloat16, Fp8E4M3}"
    by (auto simp: validate_artifact_manifest_def bindE_Inr_iff)
  from r have s: "stage_layers (ma_stage0 m) = {0 ..< unat (lr_count (ma_stage0 m))}"
    "stage_layers (ma_stage1 m) = {unat (lr_count (ma_stage0 m)) ..< unat (ma_layer_count m)}"
    by (simp_all add: check_ranges_iff stage_layers_def)
  have "unat (lr_count (ma_stage0 m)) \<le> unat (ma_layer_count m)" using r by (simp add: check_ranges_iff)
  then have "stage_layers (ma_stage0 m) \<union> stage_layers (ma_stage1 m) = {0 ..< unat (ma_layer_count m)}"
    "stage_layers (ma_stage0 m) \<inter> stage_layers (ma_stage1 m) = {}" by (auto simp: s)
  moreover have "unat (ma_ple_layer m) \<in> stage_layers (ma_stage0 m)" "unat ` set (ma_qsa_layers m) \<subseteq> {0 ..< unat (ma_layer_count m)}"
    using r by (auto simp: s check_ranges_iff word_less_nat_alt)
  ultimately show ?thesis using r v d unfolding check_ranges_iff by blast
qed

text \<open>
  Reading is the inverse of printing: a valid manifest whose strings start and end with no space and have
  no line break, written as one line per key, is read back as it was.
\<close>

theorem artifact_manifest_roundtrip:
  assumes "validate_artifact_manifest m = Inr ()" and "clean_manifest m"
  shows "load_artifact_manifest path (Some (print_manifest m)) = Inr m"
  using parse_print_manifest [OF assms] by (simp add: load_artifact_manifest_def)

definition demo_manifest :: "u32 \<Rightarrow> u32 \<Rightarrow> ModelArtifactManifest" where
  "demo_manifest hidden boundary = \<lparr> ma_schema_version = 1, ma_model_id = ''qwen'', ma_artifact_sha256 = replicate 64 (CHR ''a''),
     ma_tokenizer_sha256 = replicate 64 (CHR ''b''), ma_tensor_layout_version = ''v1'', ma_stage_plan_id = ''cut25'',
     ma_context_limit = 4096, ma_vocab_size = 1000, ma_model_hidden_width = hidden, ma_boundary_hidden_width = boundary, ma_layer_count = 48,
     ma_stage0 = \<lparr> lr_first = 0, lr_count = 25 \<rparr>, ma_stage1 = \<lparr> lr_first = 25, lr_count = 23 \<rparr>, ma_ple_layer = 2, ma_qsa_layers = [3, 7],
     ma_qsa_main_dtype = BFloat16, ma_ple_storage_dtype = BFloat16, ma_stage0_weights = ''s0'', ma_stage1_weights = ''s1'',
     ma_mtp_weights = ''mtp'', ma_ple_manifest = ''ple'' \<rparr>"

lemma demo_manifest_valid:
  assumes "hidden \<noteq> 0" "boundary \<noteq> 0" "boundary = 4 * hidden"
  shows "validate_artifact_manifest (demo_manifest hidden boundary) = Inr ()"
proof -
  have "is_hex (replicate 64 (CHR ''a'')) 64" "is_hex (replicate 64 (CHR ''b'')) 64" by code_simp+
  then show ?thesis using assms by (simp add: validate_artifact_manifest_def demo_manifest_def check_ranges_def)
qed

lemma demo_manifest_clean: "clean_manifest (demo_manifest hidden boundary)"
  by (simp add: clean_manifest_def demo_manifest_def clean_value_def is_space_def code_of_def)

theorem artifact_manifest_roundtrip_witness:
  "load_artifact_manifest ''m'' (Some (print_manifest (demo_manifest 2048 8192))) = Inr (demo_manifest 2048 8192)"
  by (rule artifact_manifest_roundtrip [OF demo_manifest_valid demo_manifest_clean]) simp_all

theorem artifact_manifest_partition_witness:
  "stage_layers (ma_stage0 (demo_manifest 2048 8192)) \<union> stage_layers (ma_stage1 (demo_manifest 2048 8192)) = {0 ..< 48}"
proof -
  have "parse_artifact_manifest (print_manifest (demo_manifest 2048 8192)) = Inr (demo_manifest 2048 8192)"
    by (rule parse_print_manifest [OF demo_manifest_valid demo_manifest_clean]) simp_all
  then have "load_artifact_manifest ''m'' (Some (print_manifest (demo_manifest 2048 8192))) = Inr (demo_manifest 2048 8192)"
    by (simp add: load_artifact_manifest_def)
  from artifact_manifest_partition [OF this] show ?thesis by (simp add: demo_manifest_def)
qed

text \<open>The product of the width check is one of 32 bits: a hidden width of \<open>2 ^ 30 + 1\<close> passes with a boundary of 4.\<close>

theorem artifact_boundary_width_wraps: "validate_artifact_manifest (demo_manifest 1073741825 4) = Inr ()"
  by (rule demo_manifest_valid) simp_all

end
