(* ===== verification/CudaPlan.thy ===== *)
theory CudaPlan
  imports DeviceArtifact
begin

text \<open>
  Where the weights of a stage lie on the device, \<^verbatim>\<open>include/q38/cuda_weights.h\<close> and the first half of
  \<^verbatim>\<open>cuda/cuda_weights.cu\<close>: the placement of the resident tensors in one arena, and the views of the matrices of a
  placed tensor. The variable of the environment that selects the layout of the experts is an argument.
  \<open>std::overflow_error\<close> is a \<open>std::runtime_error\<close> and is written as one.
\<close>

section \<open>Data\<close>

datatype CudaWeightLayout = RowMajor | MoeW4Tile16x16

record CudaDeviceWeightOptions =
  co_device :: i32
  co_staging_bytes :: u64
  co_staging_buffers :: u32
  co_arena_alignment :: u64
  co_load_mtp :: bool

record CudaDeviceWeightStats =
  cs_arena_bytes :: u64
  cs_uploaded_bytes :: u64
  cs_upload_chunks :: u64
  cs_staging_peak_pinned_bytes :: u64
  cs_w4_bytes :: u64
  cs_w8_bytes :: u64
  cs_preserved_bf16_bytes :: u64
  cs_preserved_f32_bytes :: u64
  cs_preserved_other_bytes :: u64
  cs_segment_count :: u32
  cs_tensor_count :: u32
  cs_host_only_tensor_count :: u32
  cs_host_only_bytes :: u64
  cs_excluded_tensor_count :: u32
  cs_excluded_bytes :: u64

definition empty_weight_stats :: CudaDeviceWeightStats where
  "empty_weight_stats = \<lparr> cs_arena_bytes = 0, cs_uploaded_bytes = 0, cs_upload_chunks = 0, cs_staging_peak_pinned_bytes = 0,
     cs_w4_bytes = 0, cs_w8_bytes = 0, cs_preserved_bf16_bytes = 0, cs_preserved_f32_bytes = 0, cs_preserved_other_bytes = 0,
     cs_segment_count = 0, cs_tensor_count = 0, cs_host_only_tensor_count = 0, cs_host_only_bytes = 0,
     cs_excluded_tensor_count = 0, cs_excluded_bytes = 0 \<rparr>"

record TensorPlacement =
  tp_tensor :: nat
  tp_data_offset :: u64
  tp_scale_offset :: u64
  tp_layout :: CudaWeightLayout

section \<open>Placement\<close>

definition align_up :: "u64 \<Rightarrow> u64 \<Rightarrow> exn + u64" where
  "align_up value alignment =
     bindE (guardE (\<not> (alignment = 0 \<or> alignment AND (alignment - 1) \<noteq> 0)) (InvalidArgument ''CUDA arena alignment must be a power of two'')) (\<lambda>_.
     let mask = alignment - 1 in
     bindE (guardE (\<not> value > u64_max - mask) (RuntimeError ''CUDA weight arena size overflows'')) (\<lambda>_.
     Inr ((value + mask) AND NOT mask)))"

definition ends_with :: "string \<Rightarrow> string \<Rightarrow> bool" where
  "ends_with value suffix \<longleftrightarrow> length value \<ge> length suffix \<and> drop (length value - length suffix) value = suffix"

definition tiled_moe_layout_enabled :: "string option \<Rightarrow> bool" where
  "tiled_moe_layout_enabled variable =
     (case variable of
        None \<Rightarrow> True
      | Some value \<Rightarrow> value \<noteq> ''row'' \<and> value \<noteq> ''row_major'' \<and> value \<noteq> ''0'' \<and> value \<noteq> ''false'')"

definition should_tile_moe_w4 :: "string option \<Rightarrow> DeviceTensor \<Rightarrow> bool" where
  "should_tile_moe_w4 variable t =
     (if \<not> tiled_moe_layout_enabled variable \<or> dt_format t \<noteq> W4A16SymG128 \<or> length (dt_shape t) \<noteq> 3 \<or>
         dt_shape t ! 1 mod 16 \<noteq> 0 \<or> dt_shape t ! 2 mod 16 \<noteq> 0
      then False
      else ends_with (dt_name t) ''ffn_gate_up_exps.weight'')"

text \<open>The statistics of a resident tensor, by its format.\<close>

definition count_resident :: "DeviceTensor \<Rightarrow> CudaDeviceWeightStats \<Rightarrow> exn + CudaDeviceWeightStats" where
  "count_resident t s =
     (let payload = dt_data_bytes t + dt_scale_bytes t in
      case dt_format t of
        W4A16SymG128 \<Rightarrow> Inr (s\<lparr>cs_w4_bytes := cs_w4_bytes s + payload\<rparr>)
      | W8A16SymG128 \<Rightarrow> Inr (s\<lparr>cs_w8_bytes := cs_w8_bytes s + payload\<rparr>)
      | Preserve \<Rightarrow>
          if dt_source_dtype t = ''BF16'' then Inr (s\<lparr>cs_preserved_bf16_bytes := cs_preserved_bf16_bytes s + payload\<rparr>)
          else if dt_source_dtype t = ''F32'' then Inr (s\<lparr>cs_preserved_f32_bytes := cs_preserved_f32_bytes s + payload\<rparr>)
          else Inr (s\<lparr>cs_preserved_other_bytes := cs_preserved_other_bytes s + payload\<rparr>)
      | _ \<Rightarrow> Inl (RuntimeError ''invalid resident CUDA weight format''))"

record planner =
  pl_arena_bytes :: u64
  pl_placements :: "TensorPlacement list"
  pl_statistics :: CudaDeviceWeightStats

definition reserve :: "u64 \<Rightarrow> u64 \<Rightarrow> exn + u64" where
  "reserve bytes arena_bytes =
     bindE (guardE (\<not> bytes > u64_max - arena_bytes) (RuntimeError ''CUDA weight arena size overflows'')) (\<lambda>_. Inr (arena_bytes + bytes))"

text \<open>The extent of the scales: its offset, zero for a tensor without scales, and the bytes of the arena after it.\<close>

definition place_scales :: "DeviceTensor \<Rightarrow> u64 \<Rightarrow> exn + u64 \<times> u64" where
  "place_scales t arena_bytes =
     (if dt_scale_bytes t \<noteq> 0 then
        bindE (align_up arena_bytes 256) (\<lambda>scale_offset.
        bindE (reserve (dt_scale_bytes t) scale_offset) (\<lambda>arena_bytes.
        Inr (scale_offset, arena_bytes)))
      else Inr (0, arena_bytes))"

definition place_resident :: "CudaDeviceWeightOptions \<Rightarrow> string option \<Rightarrow> nat \<Rightarrow> DeviceTensor \<Rightarrow> planner \<Rightarrow> exn + planner" where
  "place_resident options variable tensor_index t p =
     bindE (count_resident t (pl_statistics p)) (\<lambda>statistics.
     bindE (align_up (pl_arena_bytes p) (co_arena_alignment options)) (\<lambda>data_offset.
     bindE (reserve (dt_data_bytes t) data_offset) (\<lambda>arena_bytes.
     bindE (place_scales t arena_bytes) (\<lambda>(scale_offset, arena_bytes).
     Inr \<lparr> pl_arena_bytes = arena_bytes,
       pl_placements = pl_placements p @ [\<lparr> tp_tensor = tensor_index, tp_data_offset = data_offset, tp_scale_offset = scale_offset,
         tp_layout = (if should_tile_moe_w4 variable t then MoeW4Tile16x16 else RowMajor) \<rparr>],
       pl_statistics = statistics \<rparr>))))"

definition excluded :: "CudaDeviceWeightOptions \<Rightarrow> DeviceTensor \<Rightarrow> bool" where
  "excluded options t \<longleftrightarrow> \<not> co_load_mtp options \<and> take 4 (dt_name t) = ''mtp.''"

definition plan_tensor :: "CudaDeviceWeightOptions \<Rightarrow> string option \<Rightarrow> nat \<Rightarrow> DeviceTensor \<Rightarrow> planner \<Rightarrow> exn + planner" where
  "plan_tensor options variable tensor_index t p =
     (let s = pl_statistics p; payload = dt_data_bytes t + dt_scale_bytes t in
      if excluded options t then
        Inr (p\<lparr>pl_statistics := s\<lparr>cs_excluded_tensor_count := cs_excluded_tensor_count s + 1, cs_excluded_bytes := cs_excluded_bytes s + payload\<rparr>\<rparr>)
      else if dt_format t = Fp8E4M3Fn then
        Inr (p\<lparr>pl_statistics := s\<lparr>cs_host_only_tensor_count := cs_host_only_tensor_count s + 1, cs_host_only_bytes := cs_host_only_bytes s + payload\<rparr>\<rparr>)
      else place_resident options variable tensor_index t p)"

fun plan_tensors :: "CudaDeviceWeightOptions \<Rightarrow> string option \<Rightarrow> nat \<Rightarrow> DeviceTensor list \<Rightarrow> planner \<Rightarrow> exn + planner" where
  "plan_tensors options variable i [] p = Inr p"
| "plan_tensors options variable i (t # ts) p = bindE (plan_tensor options variable i t p) (plan_tensors options variable (i + 1) ts)"

definition plan_weights :: "CudaDeviceWeightOptions \<Rightarrow> string option \<Rightarrow> DeviceStageIndex \<Rightarrow> exn + planner" where
  "plan_weights options variable index =
     bindE (plan_tensors options variable 0 (dx_tensors index)
       \<lparr> pl_arena_bytes = 0, pl_placements = [],
         pl_statistics = empty_weight_stats\<lparr>cs_segment_count := word_of_nat (length (dx_segments index))\<rparr> \<rparr>) (\<lambda>p.
     bindE (align_up (pl_arena_bytes p) (co_arena_alignment options)) (\<lambda>arena_bytes.
     bindE (guardE (\<not> (arena_bytes = 0 \<or> arena_bytes > u64_max)) (RuntimeError ''CUDA weight arena cannot be allocated'')) (\<lambda>_.
     Inr (p\<lparr>pl_arena_bytes := arena_bytes, pl_statistics := (pl_statistics p)\<lparr>
       cs_tensor_count := word_of_nat (length (pl_placements p)), cs_arena_bytes := arena_bytes\<rparr>\<rparr>))))"

section \<open>Views of matrices\<close>

text \<open>A device pointer is its offset in the arena.\<close>

record CudaTensorView =
  cv_descriptor :: "DeviceTensor option"
  cv_data :: "u64 option"
  cv_scales :: "u64 option"
  cv_layout :: CudaWeightLayout

record CudaMatrixView =
  cm_format :: DeviceWeightFormat
  cm_data :: u64
  cm_scales :: "u64 option"
  cm_rows :: u32
  cm_columns :: u32
  cm_group_size :: u32
  cm_preserved_f32 :: bool

text \<open>The number of matrices of a shape without its last two dimensions; a dimension of an accepted tensor is not zero.\<close>

fun matrix_count :: "u64 \<Rightarrow> u64 list \<Rightarrow> exn + u64" where
  "matrix_count matrices [] = Inr matrices"
| "matrix_count matrices (dimension # shape) =
     bindE (guardE (\<not> matrices > u64_max div dimension) (RuntimeError ''CUDA matrix count overflows'')) (\<lambda>_.
     matrix_count (matrices * dimension) shape)"

text \<open>The bytes of the data and of the scales of one matrix, and whether it is of 32-bit floats.\<close>

definition matrix_strides :: "DeviceTensor \<Rightarrow> u64 \<Rightarrow> exn + u64 \<times> u64 \<times> bool" where
  "matrix_strides t element_count =
     (let scale_stride = element_count div ucast (dt_group_size t) * 2 in
      case dt_format t of
        Preserve \<Rightarrow>
          if dt_source_dtype t = ''BF16'' then Inr (element_count * 2, 0, False)
          else if dt_source_dtype t = ''F32'' then Inr (element_count * 4, 0, True)
          else Inl (InvalidArgument ''preserved CUDA matrix must be BF16 or F32'')
      | W4A16SymG128 \<Rightarrow> Inr (element_count div 2, scale_stride, False)
      | W8A16SymG128 \<Rightarrow> Inr (element_count, scale_stride, False)
      | _ \<Rightarrow> Inl (InvalidArgument ''CUDA tensor format is not a matrix format''))"

definition cuda_matrix_view :: "CudaTensorView \<Rightarrow> u64 \<Rightarrow> exn + CudaMatrixView" where
  "cuda_matrix_view tensor outer_index =
     (case (cv_descriptor tensor, cv_data tensor) of
        (Some t, Some pointer) \<Rightarrow>
          let shape = dt_shape t in
          bindE (guardE (\<not> length shape < 2) (InvalidArgument ''CUDA tensor is not a matrix'')) (\<lambda>_.
          bindE (guardE (cv_layout tensor = RowMajor) (InvalidArgument ''tiled CUDA expert tensor cannot be bound as a generic matrix'')) (\<lambda>_.
          let rows = shape ! (length shape - 2); columns = last shape in
          bindE (guardE (\<not> (rows > 0xffffffff \<or> columns > 0xffffffff)) (RuntimeError ''CUDA matrix dimensions exceed kernel ABI'')) (\<lambda>_.
          bindE (matrix_count 1 (take (length shape - 2) shape)) (\<lambda>matrices.
          bindE (guardE (\<not> outer_index \<ge> matrices) OutOfRange) (\<lambda>_.
          bindE (matrix_strides t (rows * columns)) (\<lambda>(data_stride, scale_stride, preserved_f32).
          Inr \<lparr> cm_format = dt_format t, cm_data = pointer + outer_index * data_stride,
            cm_scales = (if scale_stride \<noteq> 0 then map_option (\<lambda>s. s + outer_index * scale_stride) (cv_scales tensor) else None),
            cm_rows = ucast rows, cm_columns = ucast columns, cm_group_size = dt_group_size t, cm_preserved_f32 = preserved_f32 \<rparr>))))))
      | _ \<Rightarrow> Inl (InvalidArgument ''CUDA tensor is not a matrix''))"

section \<open>Alignment\<close>

lemma power_of_two_nat: "(0 :: nat) < n \<Longrightarrow> n AND (n - 1) = 0 \<Longrightarrow> \<exists>k. n = 2 ^ k"
proof (induction n rule: less_induct)
  case (less n)
  show ?case
  proof (cases "even n")
    case True
    then obtain m where m: "n = 2 * m" by blast
    have "(n - 1) div 2 = m - 1" using less.prems(1) m by presburger
    then have "n AND (n - 1) = 2 * (m AND (m - 1))" by (subst and_rec) (simp add: m)
    then have "m AND (m - 1) = 0" "0 < m" "m < n" using less.prems m by auto
    from less.IH [OF this(3,2,1)] obtain k where "m = 2 ^ k" by blast
    then have "n = 2 ^ Suc k" using m by simp
    then show ?thesis by blast
  next
    case False
    then obtain m where m: "n = 2 * m + 1" by (blast elim: oddE)
    have "n AND (n - 1) = 2 * m" by (subst and_rec) (simp add: m)
    then have "n = 2 ^ 0" using less.prems m by simp
    then show ?thesis by blast
  qed
qed

lemma power_of_two_u64:
  assumes "(a :: u64) \<noteq> 0" "a AND (a - 1) = 0"
  shows "\<exists>k < 64. a = 2 ^ k"
proof -
  have "1 \<le> a" using assms(1) by (simp add: word_le_nat_alt Suc_le_eq unat_gt_0)
  from unat_sub [OF this] have s: "unat (a - 1) = unat a - 1" by simp
  have "unat a AND (unat a - 1) = 0" using arg_cong [OF assms(2), of unat] by (simp add: unsigned_and_eq s)
  moreover have "0 < unat a" using assms(1) by (simp add: unat_gt_0)
  ultimately obtain k where k: "unat a = 2 ^ k" using power_of_two_nat by blast
  then have "(2 :: nat) ^ k < 2 ^ 64" using unat_u64_lt [of a] by simp
  then have "k < 64" using power_less_imp_less_exp [of "2 :: nat" k 64] by simp
  moreover have "a = word_of_nat (unat a)" by simp
  then have "a = 2 ^ k" by (simp add: k)
  ultimately show ?thesis by blast
qed


lemma and_not_mask_unat: "unat ((x :: u64) AND NOT (mask k)) = unat x - unat x mod 2 ^ k"
proof -
  have "x = (x AND NOT (mask k)) + take_bit k x"
    by (subst disjunctive_add) (auto simp: bit_simps intro!: bit_word_eqI)
  then have e: "x AND NOT (mask k) = x - take_bit k x" by (metis add_diff_cancel_right')
  have "take_bit k x \<le> x" by (simp add: word_le_nat_alt unsigned_take_bit_eq take_bit_nat_less_eq_self)
  from unat_sub [OF this] show ?thesis by (simp add: e unsigned_take_bit_eq flip: take_bit_eq_mod)
qed


lemma align_up_exact:
  assumes "align_up v a = Inr r"
  shows "unat v \<le> unat r \<and> unat r < unat v + unat a \<and> unat a dvd unat r"
proof -
  from assms have a: "a \<noteq> 0" "a AND (a - 1) = 0" and v: "\<not> v > u64_max - (a - 1)" and r: "r = (v + (a - 1)) AND NOT (a - 1)"
    by (auto simp: align_up_def bindE_Inr_iff Let_def)
  obtain k where k: "k < 64" "a = 2 ^ k" using power_of_two_u64 [OF a] by blast
  have m: "a - 1 = mask k" by (simp add: k mask_eq_decr_exp)
  have "1 \<le> a" using a(1) by (simp add: word_le_nat_alt Suc_le_eq unat_gt_0)
  from unat_sub [OF this] have s: "unat (a - 1) = unat a - 1" by simp
  have "unat v + unat (a - 1) < 2 ^ 64" using v unfolding u64_overflow_guard by (simp only: not_le)
  then have sum: "unat (v + (a - 1)) = unat v + (unat a - 1)" using unat_u64_add s by simp
  have "(2 :: nat) ^ k < 2 ^ 64" using k(1) by (intro power_strict_increasing) simp_all
  then have ua: "unat a = 2 ^ k" using unat_of_nat_u64 [of "2 ^ k"] by (simp add: k(2))
  define x where "x = unat v + (unat a - 1)"
  have "unat r = x - x mod unat a"
    by (simp add: r m and_not_mask_unat ua) (simp add: sum [unfolded m] ua x_def)
  moreover have "unat a dvd x - x mod unat a" by (simp add: dvd_minus_mod)
  moreover have pos: "0 < unat a" using a(1) by (simp add: unat_gt_0)
  moreover have "x mod unat a < unat a" using pos by simp
  moreover have "x = unat v + (unat a - 1)" by (rule x_def)
  ultimately have "unat v \<le> unat r" "unat r < unat v + unat a" "unat a dvd unat r" by (linarith, linarith, simp)
  then show ?thesis by blast
qed

lemma reserve_exact: "reserve bytes arena = Inr r \<Longrightarrow> unat r = unat arena + unat bytes"
  by (auto simp: reserve_def bindE_Inr_iff u64_overflow_guard not_le unat_u64_add add.commute)

section \<open>What a plan is\<close>

definition resident :: "CudaDeviceWeightOptions \<Rightarrow> DeviceTensor \<Rightarrow> bool" where
  "resident options t \<longleftrightarrow> \<not> excluded options t \<and> dt_format t \<noteq> Fp8E4M3Fn"

text \<open>The extents of a placed tensor in the arena, as offset and length, and those of a plan in the order of the tensors.\<close>

definition placed_extents :: "DeviceTensor list \<Rightarrow> TensorPlacement \<Rightarrow> (nat \<times> nat) list" where
  "placed_extents ts p = (let t = ts ! tp_tensor p in
     (unat (tp_data_offset p), unat (dt_data_bytes t)) #
     (if dt_scale_bytes t = 0 then [] else [(unat (tp_scale_offset p), unat (dt_scale_bytes t))]))"

definition weight_extents :: "DeviceTensor list \<Rightarrow> TensorPlacement list \<Rightarrow> (nat \<times> nat) list" where
  "weight_extents ts ps = concat (map (placed_extents ts) ps)"

definition extent_before :: "nat \<times> nat \<Rightarrow> nat \<times> nat \<Rightarrow> bool" where
  "extent_before e f \<longleftrightarrow> fst e + snd e \<le> fst f"

definition plan_ok :: "CudaDeviceWeightOptions \<Rightarrow> string option \<Rightarrow> DeviceTensor list \<Rightarrow> nat \<Rightarrow> planner \<Rightarrow> bool" where
  "plan_ok options variable ts i p \<longleftrightarrow>
     map tp_tensor (pl_placements p) = filter (\<lambda>k. resident options (ts ! k)) [0 ..< i] \<and>
     sorted_wrt extent_before (weight_extents ts (pl_placements p)) \<and>
     (\<forall>e \<in> set (weight_extents ts (pl_placements p)). fst e + snd e \<le> unat (pl_arena_bytes p)) \<and>
     (\<forall>q \<in> set (pl_placements p). unat (co_arena_alignment options) dvd unat (tp_data_offset q) \<and>
        (dt_scale_bytes (ts ! tp_tensor q) \<noteq> 0 \<longrightarrow> 256 dvd unat (tp_scale_offset q)) \<and>
        tp_layout q = (if should_tile_moe_w4 variable (ts ! tp_tensor q) then MoeW4Tile16x16 else RowMajor))"

lemma place_scales_exact:
  assumes "place_scales t arena = Inr (offset, r)"
  shows "if dt_scale_bytes t = 0 then offset = 0 \<and> r = arena
    else unat arena \<le> unat offset \<and> 256 dvd unat offset \<and> unat r = unat offset + unat (dt_scale_bytes t)"
proof (cases "dt_scale_bytes t = 0")
  case False
  then obtain o' where "align_up arena 256 = Inr o'" "reserve (dt_scale_bytes t) o' = Inr r" "offset = o'"
    using assms by (auto simp: place_scales_def bindE_Inr_iff)
  then show ?thesis using False align_up_exact [of arena 256 o'] reserve_exact by auto
qed (use assms in \<open>simp add: place_scales_def\<close>)

lemma place_resident_ok:
  assumes p: "place_resident options variable i t p = Inr p'" and ok: "plan_ok options variable ts i p"
    and t: "ts ! i = t" "resident options t"
  shows "plan_ok options variable ts (i + 1) p'"
proof -
  from p obtain statistics d a s r where d: "align_up (pl_arena_bytes p) (co_arena_alignment options) = Inr d"
    and a: "reserve (dt_data_bytes t) d = Inr a" and s: "place_scales t a = Inr (s, r)"
    and p': "p' = \<lparr> pl_arena_bytes = r, pl_placements = pl_placements p @ [\<lparr> tp_tensor = i, tp_data_offset = d, tp_scale_offset = s,
         tp_layout = (if should_tile_moe_w4 variable t then MoeW4Tile16x16 else RowMajor) \<rparr>], pl_statistics = statistics \<rparr>"
    unfolding place_resident_def bindE_Inr_iff by (auto split: prod.splits)
  note d = align_up_exact [OF d] and a = reserve_exact [OF a] and s = place_scales_exact [OF s]
  let ?q = "\<lparr> tp_tensor = i, tp_data_offset = d, tp_scale_offset = s, tp_layout = (if should_tile_moe_w4 variable t then MoeW4Tile16x16 else RowMajor) \<rparr>"
  have e: "placed_extents ts ?q = (unat d, unat (dt_data_bytes t)) # (if dt_scale_bytes t = 0 then [] else [(unat s, unat (dt_scale_bytes t))])"
    by (simp add: placed_extents_def t)
  have "sorted_wrt extent_before (placed_extents ts ?q)" "\<forall>x \<in> set (placed_extents ts ?q). unat (pl_arena_bytes p) \<le> fst x \<and> fst x + snd x \<le> unat r"
    using d a s unfolding e by (auto simp: extent_before_def split: if_splits)
  moreover have "unat (pl_arena_bytes p) \<le> unat r" using d a s by (auto split: if_splits)
  ultimately show ?thesis using ok d s t
    unfolding plan_ok_def p' weight_extents_def
    by (fastforce simp: sorted_wrt_append extent_before_def split: if_splits)
qed

lemma plan_tensors_ok:
  assumes "plan_tensors options variable (length vs) us p = Inr p'" "plan_ok options variable (vs @ us) (length vs) p"
  shows "plan_ok options variable (vs @ us) (length (vs @ us)) p'"
  using assms
proof (induction us arbitrary: vs p)
  case (Cons u us)
  from Cons.prems(1) obtain p1 where p1: "plan_tensor options variable (length vs) u p = Inr p1" "plan_tensors options variable (length vs + 1) us p1 = Inr p'"
    by (auto simp: bindE_Inr_iff)
  have u: "(vs @ u # us) ! length vs = u" by simp
  have "plan_ok options variable (vs @ u # us) (length vs + 1) p1"
  proof (cases "resident options u")
    case True
    then show ?thesis using p1(1) place_resident_ok [OF _ Cons.prems(2) u] by (simp add: plan_tensor_def resident_def Let_def)
  next
    case False
    then have "pl_placements p1 = pl_placements p \<and> pl_arena_bytes p1 = pl_arena_bytes p"
      using p1(1) by (auto simp: plan_tensor_def resident_def Let_def split: if_splits)
    then show ?thesis using Cons.prems(2) False u by (simp add: plan_ok_def)
  qed
  then show ?case using Cons.IH [of "vs @ [u]" p1] p1(2) by simp
qed simp

lemma plan_weights_ok:
  assumes "plan_weights options variable index = Inr p"
  shows "plan_ok options variable (dx_tensors index) (length (dx_tensors index)) p \<and> 0 < unat (pl_arena_bytes p)"
proof -
  let ?p0 = "\<lparr> pl_arena_bytes = 0, pl_placements = [],
    pl_statistics = empty_weight_stats\<lparr>cs_segment_count := word_of_nat (length (dx_segments index))\<rparr> \<rparr>"
  from assms obtain p1 a where p1: "plan_tensors options variable 0 (dx_tensors index) ?p0 = Inr p1"
    and a: "align_up (pl_arena_bytes p1) (co_arena_alignment options) = Inr a" "a \<noteq> 0"
    and p: "pl_placements p = pl_placements p1" "pl_arena_bytes p = a"
    unfolding plan_weights_def bindE_Inr_iff guardE_Inr_iff by auto
  have "plan_ok options variable ([] @ dx_tensors index) (length ([] :: DeviceTensor list)) ?p0"
    by (simp add: plan_ok_def weight_extents_def)
  from plan_tensors_ok [OF _ this] p1 have "plan_ok options variable (dx_tensors index) (length (dx_tensors index)) p1" by simp
  moreover have "unat (pl_arena_bytes p1) \<le> unat a" using align_up_exact [OF a(1)] by simp
  ultimately show ?thesis using a(2) unfolding plan_ok_def p by (auto simp: unat_gt_0 intro: order_trans)
qed

text \<open>The census of a plan: what the statistics say of the tensors placed so far.\<close>

definition payload :: "DeviceTensor \<Rightarrow> u64" where
  "payload t = dt_data_bytes t + dt_scale_bytes t"

definition resident_total :: "CudaDeviceWeightStats \<Rightarrow> u64" where
  "resident_total s = cs_w4_bytes s + cs_w8_bytes s + cs_preserved_bf16_bytes s + cs_preserved_f32_bytes s + cs_preserved_other_bytes s"

lemma count_resident_total: "count_resident t s = Inr s' \<Longrightarrow> resident_total s' = resident_total s + payload t \<and>
    cs_host_only_bytes s' = cs_host_only_bytes s \<and> cs_excluded_bytes s' = cs_excluded_bytes s"
  by (auto simp: count_resident_def resident_total_def payload_def Let_def split: DeviceWeightFormat.splits if_splits)

lemma plan_tensor_total:
  assumes "plan_tensor options variable i t p = Inr p'"
  shows "resident_total (pl_statistics p') + cs_host_only_bytes (pl_statistics p') + cs_excluded_bytes (pl_statistics p') =
    resident_total (pl_statistics p) + cs_host_only_bytes (pl_statistics p) + cs_excluded_bytes (pl_statistics p) + payload t"
proof (cases "resident options t")
  case True
  then obtain s where "count_resident t (pl_statistics p) = Inr s" "pl_statistics p' = s"
    using assms by (auto simp: plan_tensor_def resident_def place_resident_def bindE_Inr_iff Let_def)
  then show ?thesis using count_resident_total by fastforce
next
  case False
  then show ?thesis using assms by (auto simp: plan_tensor_def resident_def Let_def payload_def resident_total_def split: if_splits)
qed

lemma plan_tensors_total:
  "plan_tensors options variable i ts p = Inr p' \<Longrightarrow>
    resident_total (pl_statistics p') + cs_host_only_bytes (pl_statistics p') + cs_excluded_bytes (pl_statistics p') =
    resident_total (pl_statistics p) + cs_host_only_bytes (pl_statistics p) + cs_excluded_bytes (pl_statistics p) + sum_list (map payload ts)"
proof (induction ts arbitrary: i p)
  case (Cons t ts)
  then obtain p1 where "plan_tensor options variable i t p = Inr p1" "plan_tensors options variable (i + 1) ts p1 = Inr p'"
    by (auto simp: bindE_Inr_iff)
  then show ?case using plan_tensor_total Cons.IH by fastforce
qed simp

section \<open>Where a matrix lies\<close>

lemma matrix_count_exact:
  "matrix_count m dims = Inr r \<Longrightarrow> 0 \<notin> set dims \<Longrightarrow> unat r = unat m * elements dims"
proof (induction dims arbitrary: m)
  case (Cons d dims)
  then have "d \<noteq> 0" "\<not> m > u64_max div d" "matrix_count (m * d) dims = Inr r" by (auto simp: bindE_Inr_iff)
  moreover from this have "unat m * unat d < 2 ^ 64" using u64_mul_guard by (simp add: not_le)
  ultimately show ?case using Cons.IH [of "m * d"] Cons.prems(2) by (simp add: elements_def unat_u64_mult)
qed (simp add: elements_def)

text \<open>The bytes of the data and of the scales of one matrix, as numbers that do not wrap.\<close>

definition matrix_elements :: "DeviceTensor \<Rightarrow> nat" where
  "matrix_elements t = unat (dt_shape t ! (length (dt_shape t) - 2)) * unat (last (dt_shape t))"

definition matrix_data_bytes :: "DeviceTensor \<Rightarrow> nat" where
  "matrix_data_bytes t = (case dt_format t of W4A16SymG128 \<Rightarrow> matrix_elements t div 2 | W8A16SymG128 \<Rightarrow> matrix_elements t
     | _ \<Rightarrow> matrix_elements t * (if dt_source_dtype t = ''BF16'' then 2 else 4))"

definition matrix_scale_bytes :: "DeviceTensor \<Rightarrow> nat" where
  "matrix_scale_bytes t = (case dt_format t of W4A16SymG128 \<Rightarrow> matrix_elements t div 64 | W8A16SymG128 \<Rightarrow> matrix_elements t div 64 | _ \<Rightarrow> 0)"

lemma elements_split:
  assumes "2 \<le> length shape"
  shows "elements shape = elements (take (length shape - 2) shape) * (unat (shape ! (length shape - 2)) * unat (last shape))"
proof -
  have "shape = take (length shape - 2) shape @ [shape ! (length shape - 2), last shape]"
  proof (cases shape rule: rev_cases)
    case (snoc ys y)
    then show ?thesis using assms by (cases ys rule: rev_cases) (simp_all add: nth_append)
  qed (use assms in simp)
  moreover have "elements (xs @ [a, b]) = elements xs * (unat a * unat b)" for xs a b by (simp add: elements_def)
  ultimately show ?thesis by metis
qed

text \<open>The strides of an accepted tensor are exact, and all its matrices together are its data and its scales.\<close>

lemma matrix_strides_exact:
  assumes v: "validate_tensor_layout t = Inr ()" and s: "matrix_strides t (rows * columns) = Inr (data_stride, scale_stride, f32)"
    and shape: "2 \<le> length (dt_shape t)" "rows = dt_shape t ! (length (dt_shape t) - 2)" "columns = last (dt_shape t)"
    and n: "elements (dt_shape t) = matrices * matrix_elements t" "0 < matrices"
    and fits: "dt_format t = Preserve \<longrightarrow> 4 * elements (dt_shape t) < 2 ^ 64"
  shows "unat data_stride = matrix_data_bytes t \<and> unat scale_stride = matrix_scale_bytes t \<and>
    matrices * matrix_data_bytes t = unat (dt_data_bytes t) \<and> matrices * matrix_scale_bytes t = unat (dt_scale_bytes t)"
proof -
  from v obtain e where e: "checked_elements (dt_shape t) = Inr e" by (auto simp: validate_tensor_layout_def bindE_Inr_iff)
  have layout: "layout_exact t" using validate_layout_exact [OF v] by simp
  have ue: "unat e = matrices * matrix_elements t" using checked_elements_exact [OF e] n(1) by simp
  have le: "matrix_elements t \<le> matrices * matrix_elements t" using n(2) by simp
  then have "matrix_elements t < 18446744073709551616" using ue unat_u64_lt [of e] by linarith
  then have lt: "matrix_elements t < 2 ^ 64" by simp
  then have m: "unat (rows * columns) = matrix_elements t" using lt by (simp add: unat_u64_mult matrix_elements_def shape(2,3))
  have groupwise: ?thesis if f: "dt_format t = W4A16SymG128 \<and> bits = 4 \<or> dt_format t = W8A16SymG128 \<and> bits = 8" for bits :: u64
  proof -
    have "check_groupwise bits e t = Inr ()" using v e f by (auto simp: validate_tensor_layout_def bindE_Inr_iff)
    then have g: "dt_group_size t = 128" "columns mod 128 = 0" by (auto simp: check_groupwise_def bindE_Inr_iff shape(3))
    from arg_cong [OF g(2), of unat] have "128 dvd unat columns" by (simp add: unat_mod mod_eq_0_iff_dvd)
    then have "128 dvd matrix_elements t" by (simp add: matrix_elements_def shape(3))
    then obtain q where q: "matrix_elements t = 128 * q" by (auto simp: dvd_def)
    have "unat (rows * columns div 2) = 64 * q" "unat (rows * columns div 128) = q" by (simp_all add: unat_div m q)
    moreover have "2 * q < 2 ^ 64" using lt q by simp
    ultimately have "unat (rows * columns div 128 * 2) = 2 * q" by (simp add: unat_u64_mult)
    then show ?thesis
      using f s g(1) layout \<open>unat (rows * columns div 2) = 64 * q\<close> ue n(1) q m
      by (auto simp: matrix_strides_def Let_def layout_exact_def matrix_data_bytes_def matrix_scale_bytes_def)
  qed
  show ?thesis
  proof (cases "dt_format t")
    case Preserve
    obtain w where w: "source_dtype_bytes (dt_source_dtype t) = Inr w" "dt_data_bytes t = e * w" "dt_scale_bytes t = 0"
      using v e Preserve by (auto simp: validate_tensor_layout_def check_preserved_def bindE_Inr_iff)
    have small: "4 * (matrices * matrix_elements t) < 2 ^ 64" using fits Preserve n(1) by simp
    then have "4 * matrix_elements t < 2 ^ 64" using le by linarith
    then have mul: "unat (e * 2) = matrices * matrix_elements t * 2" "unat (e * 4) = matrices * matrix_elements t * 4"
      "unat (rows * columns * 2) = matrix_elements t * 2" "unat (rows * columns * 4) = matrix_elements t * 4"
      using small ue m by (simp_all add: unat_u64_mult)
    show ?thesis using Preserve s w mul
      by (auto simp: matrix_strides_def Let_def source_dtype_bytes_def matrix_data_bytes_def matrix_scale_bytes_def split: if_splits)
  qed (use groupwise s layout in \<open>auto simp: matrix_strides_def layout_exact_def Let_def\<close>)
qed

text \<open>The part of an extent that belongs to one of its equal pieces.\<close>

lemma piece_inside:
  assumes "unat (k :: u64) < matrices" "matrices * n = whole" "unat (p :: u64) + whole < 2 ^ 64" "unat (stride :: u64) = n"
  shows "unat (p + k * stride) = unat p + unat k * n \<and> unat k * n + n \<le> whole"
proof -
  have "Suc (unat k) * n \<le> matrices * n" using assms(1) by (intro mult_right_mono) simp_all
  then have t: "unat k * n + n \<le> whole" using assms(2) by simp
  then have "unat k * unat stride < 2 ^ 64" "unat p + unat k * n < 2 ^ 64" using assms(3,4) by simp_all
  then show ?thesis using t assms(4) by (simp add: unat_u64_mult unat_u64_add)
qed

lemma plan_weights_total:
  assumes "plan_weights options variable index = Inr p"
  shows "resident_total (pl_statistics p) + cs_host_only_bytes (pl_statistics p) + cs_excluded_bytes (pl_statistics p) =
    sum_list (map payload (dx_tensors index)) \<and> cs_arena_bytes (pl_statistics p) = pl_arena_bytes p"
proof -
  let ?p0 = "\<lparr> pl_arena_bytes = 0, pl_placements = [],
    pl_statistics = empty_weight_stats\<lparr>cs_segment_count := word_of_nat (length (dx_segments index))\<rparr> \<rparr>"
  from assms obtain p1 a where p1: "plan_tensors options variable 0 (dx_tensors index) ?p0 = Inr p1"
    and p: "p = p1\<lparr>pl_arena_bytes := a, pl_statistics := (pl_statistics p1)\<lparr>cs_tensor_count := word_of_nat (length (pl_placements p1)), cs_arena_bytes := a\<rparr>\<rparr>"
    unfolding plan_weights_def bindE_Inr_iff guardE_Inr_iff by auto
  from plan_tensors_total [OF p1] show ?thesis by (simp add: p resident_total_def empty_weight_stats_def)
qed

section \<open>Properties\<close>

text \<open>
  C27: The plan of the arena places every resident tensor once, in the order of the index, and no two extents
  overlap: the extents of data and scales follow each other, each ends before the arena does, counted without
  wrap-around, the data starts at a multiple of the arena's alignment and the scales at one of 256. The bytes
  counted as resident, left to the host and excluded add up to the payload of the index (modulo \<open>2 ^ 64\<close>, as the counters are).
\<close>

theorem cuda_plan_disjoint:
  assumes "plan_weights options variable index = Inr p"
  shows "map tp_tensor (pl_placements p) = filter (\<lambda>k. resident options (dx_tensors index ! k)) [0 ..< length (dx_tensors index)] \<and>
    sorted_wrt extent_before (weight_extents (dx_tensors index) (pl_placements p)) \<and>
    (\<forall>e \<in> set (weight_extents (dx_tensors index) (pl_placements p)). fst e + snd e \<le> unat (pl_arena_bytes p)) \<and>
    (\<forall>q \<in> set (pl_placements p). unat (co_arena_alignment options) dvd unat (tp_data_offset q) \<and>
      (dt_scale_bytes (dx_tensors index ! tp_tensor q) \<noteq> 0 \<longrightarrow> 256 dvd unat (tp_scale_offset q))) \<and>
    resident_total (pl_statistics p) + cs_host_only_bytes (pl_statistics p) + cs_excluded_bytes (pl_statistics p) =
      sum_list (map payload (dx_tensors index))"
  using plan_weights_ok [OF assms] plan_weights_total [OF assms] unfolding plan_ok_def by blast

text \<open>
  C30: The matrices of a tensor on the device are inside its extents and do not overlap. For a tensor that the
  index accepts, the view of matrix number \<open>k\<close> starts \<open>k\<close> matrices after the start of the data, and that matrix ends
  before the data does; the same holds of its scales, which a view has exactly if the tensor has any. For preserved tensors this
  needs that four bytes per element do not wrap.
\<close>

theorem cuda_matrix_inside:
  assumes "validate_tensor_layout t = Inr ()" and "dt_format t = Preserve \<longrightarrow> 4 * elements (dt_shape t) < 2 ^ 64"
    and "unat d + unat (dt_data_bytes t) < 2 ^ 64" and "unat s + unat (dt_scale_bytes t) < 2 ^ 64"
    and "cuda_matrix_view \<lparr> cv_descriptor = Some t, cv_data = Some d,
      cv_scales = (if dt_scale_bytes t = 0 then None else Some s), cv_layout = layout \<rparr> k = Inr m"
  shows "unat (cm_data m) = unat d + unat k * matrix_data_bytes t \<and> unat k * matrix_data_bytes t + matrix_data_bytes t \<le> unat (dt_data_bytes t) \<and>
    (case cm_scales m of
       None \<Rightarrow> dt_scale_bytes t = 0
     | Some p \<Rightarrow> unat p = unat s + unat k * matrix_scale_bytes t \<and> unat k * matrix_scale_bytes t + matrix_scale_bytes t \<le> unat (dt_scale_bytes t))"
proof -
  let ?shape = "dt_shape t"
  let ?rows = "?shape ! (length ?shape - 2)" and ?columns = "last ?shape" and ?outer = "take (length ?shape - 2) ?shape"
  from assms(5) obtain matrices data_stride scale_stride f32 where two: "2 \<le> length ?shape" and c: "matrix_count 1 ?outer = Inr matrices"
    and k: "k < matrices" and st: "matrix_strides t (?rows * ?columns) = Inr (data_stride, scale_stride, f32)"
    and m: "cm_data m = d + k * data_stride"
      "cm_scales m = (if scale_stride \<noteq> 0 then map_option (\<lambda>s. s + k * scale_stride) (if dt_scale_bytes t = 0 then None else Some s) else None)"
    unfolding cuda_matrix_view_def Let_def by (auto simp: bindE_Inr_iff not_le not_less split: prod.splits)
  from assms(1) obtain e where e: "checked_elements ?shape = Inr e" by (auto simp: validate_tensor_layout_def bindE_Inr_iff)
  have "0 \<notin> set ?outer" using checked_elements_exact [OF e] by (auto dest: in_set_takeD)
  then have u: "unat matrices = elements ?outer" using matrix_count_exact [OF c] by simp
  have n: "elements ?shape = unat matrices * matrix_elements t" "0 < unat matrices"
    using elements_split [OF two] u k by (simp_all add: matrix_elements_def word_less_nat_alt)
  note x = matrix_strides_exact [OF assms(1) st two refl refl n assms(2)]
  have kn: "unat k < unat matrices" using k by (simp add: word_less_nat_alt)
  have data: "unat (cm_data m) = unat d + unat k * matrix_data_bytes t \<and> unat k * matrix_data_bytes t + matrix_data_bytes t \<le> unat (dt_data_bytes t)"
    using piece_inside [OF kn _ assms(3), of "matrix_data_bytes t" data_stride] x m(1) by simp
  have scales: "unat (s + k * scale_stride) = unat s + unat k * matrix_scale_bytes t \<and> unat k * matrix_scale_bytes t + matrix_scale_bytes t \<le> unat (dt_scale_bytes t)"
    using piece_inside [OF kn _ assms(4), of "matrix_scale_bytes t" scale_stride] x by simp
  have "dt_scale_bytes t = 0 \<longleftrightarrow> scale_stride = 0" using x n(2) by (metis mult_eq_0_iff unat_eq_0 less_irrefl)
  then show ?thesis using data scales m(2) by simp
qed

definition demo_options :: CudaDeviceWeightOptions where
  "demo_options = \<lparr> co_device = 0, co_staging_bytes = 256, co_staging_buffers = 2, co_arena_alignment = 4096, co_load_mtp = False \<rparr>"

definition demo_experts :: DeviceTensor where
  "demo_experts = demo_tensor\<lparr>dt_name := ''experts'', dt_data_bytes := 768, dt_scale_bytes := 12, dt_shape := [3, 2, 128]\<rparr>"

definition demo_plan :: planner where
  "demo_plan = \<lparr> pl_arena_bytes = 8192,
     pl_placements = [\<lparr> tp_tensor = 0, tp_data_offset = 0, tp_scale_offset = 256, tp_layout = RowMajor \<rparr>,
       \<lparr> tp_tensor = 1, tp_data_offset = 4096, tp_scale_offset = 4864, tp_layout = RowMajor \<rparr>],
     pl_statistics = empty_weight_stats\<lparr>cs_segment_count := 1, cs_w8_bytes := 1040, cs_tensor_count := 2, cs_arena_bytes := 8192\<rparr> \<rparr>"

lemma demo_plan_made: "plan_weights demo_options None ((demo_device ''0'')\<lparr>dx_tensors := [demo_tensor, demo_experts]\<rparr>) = Inr demo_plan"
  by (simp add: plan_weights_def plan_tensor_def excluded_def place_resident_def count_resident_def align_up_def reserve_def place_scales_def
      should_tile_moe_w4_def demo_plan_def demo_options_def demo_experts_def demo_tensor_def demo_device_def empty_weight_stats_def Let_def)

theorem cuda_plan_disjoint_witness:
  "sorted_wrt extent_before (weight_extents [demo_tensor, demo_experts] (pl_placements demo_plan))"
  using cuda_plan_disjoint [OF demo_plan_made] by simp

theorem cuda_matrix_inside_witness:
  "\<exists>m. cuda_matrix_view \<lparr> cv_descriptor = Some demo_experts, cv_data = Some 4096, cv_scales = Some 4864, cv_layout = RowMajor \<rparr> 2 = Inr m \<and>
     unat (cm_data m) = 4608"
proof -
  have v: "validate_tensor_layout demo_experts = Inr ()"
    by (simp add: validate_tensor_layout_def checked_elements_def check_groupwise_def demo_experts_def demo_tensor_def demo_hex)
  obtain m where m: "cuda_matrix_view \<lparr> cv_descriptor = Some demo_experts, cv_data = Some 4096,
      cv_scales = (if dt_scale_bytes demo_experts = 0 then None else Some 4864), cv_layout = RowMajor \<rparr> 2 = Inr m"
    by (simp add: cuda_matrix_view_def matrix_strides_def demo_experts_def demo_tensor_def Let_def)
  have "unat (cm_data m) = unat (4096 :: u64) + unat (2 :: u64) * matrix_data_bytes demo_experts"
    using cuda_matrix_inside [OF v _ _ _ m] by (simp add: demo_experts_def demo_tensor_def)
  then show ?thesis using m by (simp add: matrix_data_bytes_def matrix_elements_def demo_experts_def demo_tensor_def)
qed

end
