(* ===== verification/CudaUpload.thy ===== *)
theory CudaUpload
  imports CudaPlan
begin

text \<open>
  The upload of a stage's weights, the second half of \<^verbatim>\<open>cuda/cuda_weights.cu\<close>: pinned staging buffers used in turn, copies that
  the device makes later, in the order of its stream, and events that tell when a buffer may be reused. The
  CUDA runtime is not part of the sources. Of it the model takes what its documentation says: the operations of a
  stream are executed in order, a copy reads its host buffer when it is executed, an event is complete when the
  operations before its record are, a call that fails has no effect. When the device makes progress and which calls
  fail is scripted.
\<close>

section \<open>The device\<close>

datatype stream_op = CopyOp nat nat nat \<comment> \<open>destination in the arena, staging buffer, bytes\<close> | RecordOp nat \<comment> \<open>event of a staging buffer\<close>

record StagingBuffer =
  sb_host :: "u8 list option"
  sb_reusable :: bool

record weight_upload =
  wu_options :: CudaDeviceWeightOptions
  wu_stage :: u32
  wu_arena :: "u8 list option"
  wu_stream :: bool
  wu_staging :: "StagingBuffer list"
  wu_index :: DeviceStageIndex
  wu_tensors :: "string \<rightharpoonup> CudaTensorView"
  wu_statistics :: CudaDeviceWeightStats
  wu_cursor :: u64
  wu_queue :: "stream_op list" \<comment> \<open>what the stream has not executed yet\<close>
  wu_progress :: "nat list" \<comment> \<open>how many operations it executes before the next calls\<close>
  wu_calls :: "string option list" \<comment> \<open>the errors of the next calls\<close>
  wu_garbage :: "nat \<Rightarrow> u8" \<comment> \<open>what fresh memory holds\<close>
  wu_live_arenas :: nat \<comment> \<open>what the runtime has handed out and not got back\<close>
  wu_live_hosts :: nat
  wu_live_events :: nat
  wu_live_streams :: nat

type_synonym 'a upM = "(weight_upload, exn, 'a) M"

definition overwrite :: "'a list \<Rightarrow> nat \<Rightarrow> 'a list \<Rightarrow> 'a list" where
  "overwrite xs offset ys = take offset xs @ ys @ drop (offset + length ys) xs"

definition buffers :: "StagingBuffer list \<Rightarrow> nat \<Rightarrow> u8 list" where
  "buffers staging b = (case sb_host (staging ! b) of Some host \<Rightarrow> host | None \<Rightarrow> [])"

fun run_ops :: "(nat \<Rightarrow> u8 list) \<Rightarrow> stream_op list \<Rightarrow> u8 list \<Rightarrow> u8 list" where
  "run_ops B [] arena = arena"
| "run_ops B (CopyOp dst b n # q) arena = run_ops B q (overwrite arena dst (take n (B b)))"
| "run_ops B (RecordOp b # q) arena = run_ops B q arena"

definition execute_ops :: "nat \<Rightarrow> weight_upload \<Rightarrow> weight_upload" where
  "execute_ops n s = s\<lparr>wu_queue := drop n (wu_queue s),
     wu_arena := map_option (run_ops (buffers (wu_staging s)) (take n (wu_queue s))) (wu_arena s)\<rparr>"

text \<open>What the device does on its own before a call.\<close>

definition progress :: "weight_upload \<Rightarrow> weight_upload" where
  "progress s = (case wu_progress s of [] \<Rightarrow> s | n # ns \<Rightarrow> execute_ops n (s\<lparr>wu_progress := ns\<rparr>))"

text \<open>A call with its effect, and the error it returns.\<close>

definition cuda_call :: "(weight_upload \<Rightarrow> weight_upload) \<Rightarrow> weight_upload \<Rightarrow> string option \<times> weight_upload" where
  "cuda_call effect s =
     (let s = progress s in
      case wu_calls s of
        [] \<Rightarrow> (None, effect s)
      | None # cs \<Rightarrow> (None, effect (s\<lparr>wu_calls := cs\<rparr>))
      | Some message # cs \<Rightarrow> (Some message, s\<lparr>wu_calls := cs\<rparr>))"

definition check :: "string \<Rightarrow> (weight_upload \<Rightarrow> weight_upload) \<Rightarrow> unit upM" where
  "check operation effect s =
     (case cuda_call effect s of
        (None, s) \<Rightarrow> (Inr (), s)
      | (Some message, s) \<Rightarrow> (Inl (RuntimeError (operation @ '': '' @ message)), s))"

definition ignore :: "(weight_upload \<Rightarrow> weight_upload) \<Rightarrow> weight_upload \<Rightarrow> weight_upload" where
  "ignore effect s = snd (cuda_call effect s)"

definition cuda_malloc_arena :: "u64 \<Rightarrow> weight_upload \<Rightarrow> weight_upload" where
  "cuda_malloc_arena bytes s = s\<lparr>wu_arena := Some (map (wu_garbage s) [0 ..< unat bytes]), wu_live_arenas := wu_live_arenas s + 1\<rparr>"

definition cuda_stream_create :: "weight_upload \<Rightarrow> weight_upload" where
  "cuda_stream_create s = s\<lparr>wu_stream := True, wu_queue := [], wu_live_streams := wu_live_streams s + 1\<rparr>"

definition set_buffer :: "nat \<Rightarrow> (StagingBuffer \<Rightarrow> StagingBuffer) \<Rightarrow> weight_upload \<Rightarrow> weight_upload" where
  "set_buffer b f s = s\<lparr>wu_staging := (wu_staging s)[b := f (wu_staging s ! b)]\<rparr>"

definition cuda_host_alloc :: "nat \<Rightarrow> weight_upload \<Rightarrow> weight_upload" where
  "cuda_host_alloc b s = set_buffer b (sb_host_update (\<lambda>_. Some (map (wu_garbage s) [0 ..< unat (co_staging_bytes (wu_options s))])))
     (s\<lparr>wu_live_hosts := wu_live_hosts s + 1\<rparr>)"

definition cuda_event_create :: "nat \<Rightarrow> weight_upload \<Rightarrow> weight_upload" where
  "cuda_event_create b s = set_buffer b (sb_reusable_update (\<lambda>_. True)) (s\<lparr>wu_live_events := wu_live_events s + 1\<rparr>)"

definition enqueue :: "stream_op \<Rightarrow> weight_upload \<Rightarrow> weight_upload" where
  "enqueue oper s = s\<lparr>wu_queue := wu_queue s @ [oper]\<rparr>"

text \<open>The operations that must be executed before the last record of an event is complete.\<close>

fun until_record :: "nat \<Rightarrow> stream_op list \<Rightarrow> nat" where
  "until_record b [] = 0"
| "until_record b (oper # q) = (let n = until_record b q in if n \<noteq> 0 then n + 1 else if oper = RecordOp b then 1 else 0)"

definition cuda_event_synchronize :: "nat \<Rightarrow> weight_upload \<Rightarrow> weight_upload" where
  "cuda_event_synchronize b s = execute_ops (until_record b (wu_queue s)) s"

definition cuda_stream_synchronize :: "weight_upload \<Rightarrow> weight_upload" where
  "cuda_stream_synchronize s = execute_ops (length (wu_queue s)) s"

text \<open>A freed block is gone; the handle of the program is a separate matter.\<close>

definition cuda_event_destroy :: "weight_upload \<Rightarrow> weight_upload" where
  "cuda_event_destroy s = s\<lparr>wu_live_events := wu_live_events s - 1\<rparr>"

definition cuda_free_host :: "weight_upload \<Rightarrow> weight_upload" where
  "cuda_free_host s = s\<lparr>wu_live_hosts := wu_live_hosts s - 1\<rparr>"

definition cuda_stream_destroy :: "weight_upload \<Rightarrow> weight_upload" where
  "cuda_stream_destroy s = s\<lparr>wu_live_streams := wu_live_streams s - 1\<rparr>"

definition cuda_free_arena :: "weight_upload \<Rightarrow> weight_upload" where
  "cuda_free_arena s = s\<lparr>wu_live_arenas := wu_live_arenas s - 1\<rparr>"

section \<open>Uploading\<close>

definition next_buffer :: "weight_upload \<Rightarrow> nat" where
  "next_buffer s = unat (wu_cursor s mod word_of_nat (length (wu_staging s)))"

text \<open>Taking the next buffer, once the device no longer reads it.\<close>

definition take_buffer :: "nat upM" where
  "take_buffer =
     bindM (getM next_buffer) (\<lambda>b.
     thenM (modifyM (\<lambda>s. s\<lparr>wu_cursor := wu_cursor s + 1\<rparr>))
    (thenM (check ''cudaEventSynchronize(weight staging)'' (cuda_event_synchronize b))
     (returnM b)))"

text \<open>Writing the first bytes of a buffer, \<open>memcpy\<close> to pinned memory.\<close>

definition write_buffer :: "nat \<Rightarrow> u8 list \<Rightarrow> weight_upload \<Rightarrow> weight_upload" where
  "write_buffer b bytes = set_buffer b (sb_host_update (map_option (\<lambda>host. overwrite host 0 bytes)))"

definition count_upload :: "u64 \<Rightarrow> weight_upload \<Rightarrow> weight_upload" where
  "count_upload bytes s = s\<lparr>wu_statistics := (wu_statistics s)\<lparr>cs_uploaded_bytes := cs_uploaded_bytes (wu_statistics s) + bytes,
     cs_upload_chunks := cs_upload_chunks (wu_statistics s) + 1\<rparr>\<rparr>"

definition send_buffer :: "string \<Rightarrow> string \<Rightarrow> nat \<Rightarrow> nat \<Rightarrow> u64 \<Rightarrow> unit upM" where
  "send_buffer copying recording b dst count =
     thenM (check copying (enqueue (CopyOp dst b (unat count))))
    (thenM (check recording (enqueue (RecordOp b)))
     (modifyM (count_upload count)))"

fun upload_extent_loop :: "nat \<Rightarrow> u8 list \<Rightarrow> nat \<Rightarrow> u64 \<Rightarrow> u64 \<Rightarrow> unit upM" where
  "upload_extent_loop fuel host device copied bytes =
     (if copied < bytes then
        case fuel of
          0 \<Rightarrow> throwM Diverges
        | Suc fuel \<Rightarrow>
            bindM take_buffer (\<lambda>b.
            bindM (getM (\<lambda>s. min (bytes - copied) (co_staging_bytes (wu_options s)))) (\<lambda>chunk.
            thenM (modifyM (write_buffer b (take (unat chunk) (drop (unat copied) host))))
           (thenM (send_buffer ''cudaMemcpyAsync(weight upload)'' ''cudaEventRecord(weight staging)'' b (device + unat copied) chunk)
            (upload_extent_loop fuel host device (copied + chunk) bytes))))
      else returnM ())"

declare upload_extent_loop.simps [simp del]

text \<open>Every round copies a byte or more, so that as many rounds as bytes are enough.\<close>

definition upload_extent :: "u8 list \<Rightarrow> nat \<Rightarrow> u64 \<Rightarrow> unit upM" where
  "upload_extent host device bytes = upload_extent_loop (unat bytes) host device 0 bytes"

text \<open>The sixteen rows of a tile of eight bytes each, out of a matrix of packed pairs.\<close>

definition tile_bytes :: "u8 list \<Rightarrow> u64 \<Rightarrow> u64 \<Rightarrow> u64 \<Rightarrow> u8 list" where
  "tile_bytes host rows columns tile_index =
     (let column_tiles = columns div 16; tiles_per_matrix = rows div 16 * column_tiles; source_matrix_bytes = rows * columns div 2;
          matrix = tile_index div tiles_per_matrix; within = tile_index mod tiles_per_matrix;
          row_tile = within div column_tiles; column_tile = within mod column_tiles in
      concat (map (\<lambda>row. take 8 (drop (unat (matrix * source_matrix_bytes +
          ((row_tile * 16 + word_of_nat row) * (columns div 2) + column_tile * 8))) host)) [0 ..< 16]))"

text \<open>The tiles that fit in a buffer, from a tile on.\<close>

function fill_tiles :: "u8 list \<Rightarrow> u64 \<Rightarrow> u64 \<Rightarrow> u64 \<Rightarrow> u64 \<Rightarrow> u64 \<Rightarrow> u64 \<Rightarrow> u8 list \<times> u64 \<times> u64" where
  "fill_tiles host rows columns total_tiles staging_bytes tile_index filled =
     (if tile_index < total_tiles \<and> filled + 128 \<le> staging_bytes then
        case fill_tiles host rows columns total_tiles staging_bytes (tile_index + 1) (filled + 128) of
          (bytes, tile_index', filled') \<Rightarrow> (tile_bytes host rows columns tile_index @ bytes, tile_index', filled')
      else ([], tile_index, filled))"
  by pat_completeness auto

termination
proof (relation "measure (\<lambda>(_, _, _, n, _, i, _). unat n - unat i)", goal_cases)
  case (2 host rows columns n staging i filled)
  then have "i \<noteq> u64_max" using leD [OF u64_le_max [of n]] by auto
  moreover have "unat i < unat n" using 2 by (simp add: word_less_nat_alt)
  ultimately show ?case by (simp add: unat_u64_Suc)
qed simp

declare fill_tiles.simps [simp del]

fun upload_tiles_loop :: "nat \<Rightarrow> u8 list \<Rightarrow> u64 \<Rightarrow> u64 \<Rightarrow> nat \<Rightarrow> u64 \<Rightarrow> u64 \<Rightarrow> u64 \<Rightarrow> u64 upM" where
  "upload_tiles_loop fuel host rows columns device total_tiles tile_index uploaded =
     (if tile_index < total_tiles then
        case fuel of
          0 \<Rightarrow> throwM Diverges
        | Suc fuel \<Rightarrow>
            bindM take_buffer (\<lambda>b.
            bindM (getM (\<lambda>s. fill_tiles host rows columns total_tiles (co_staging_bytes (wu_options s)) tile_index 0)) (\<lambda>(bytes, tile_index, filled).
            thenM (modifyM (write_buffer b bytes))
           (thenM (send_buffer ''cudaMemcpyAsync(tiled MoE weight upload)'' ''cudaEventRecord(tiled MoE weight staging)'' b (device + unat uploaded) filled)
            (upload_tiles_loop fuel host rows columns device total_tiles tile_index (uploaded + filled)))))
      else returnM uploaded)"

declare upload_tiles_loop.simps [simp del]

definition upload_tiled_w4 :: "u8 list \<Rightarrow> nat \<Rightarrow> DeviceTensor \<Rightarrow> unit upM" where
  "upload_tiled_w4 host device t =
     thenM (failIf (\<lambda>s. co_staging_bytes (wu_options s) < 128) (InvalidArgument ''CUDA staging buffer is too small for a MoE W4 tile''))
    (let rows = dt_shape t ! 1; columns = dt_shape t ! 2; matrices = dt_shape t ! 0;
         tiles_per_matrix = rows div 16 * (columns div 16); total_tiles = matrices * tiles_per_matrix in
     bindM (upload_tiles_loop (unat total_tiles) host rows columns device total_tiles 0 0) (\<lambda>uploaded.
     failIf (\<lambda>_. uploaded \<noteq> dt_data_bytes t) (LogicError ''tiled MoE W4 upload size differs'')))"

definition upload_data :: "TensorPlacement \<Rightarrow> DeviceTensor \<Rightarrow> DeviceTensorView \<Rightarrow> unit upM" where
  "upload_data placement t view =
     (if tp_layout placement = MoeW4Tile16x16 then upload_tiled_w4 (dv_data view) (unat (tp_data_offset placement)) t
      else upload_extent (dv_data view) (unat (tp_data_offset placement)) (dt_data_bytes t))"

definition upload_scales :: "TensorPlacement \<Rightarrow> DeviceTensor \<Rightarrow> DeviceTensorView \<Rightarrow> unit upM" where
  "upload_scales placement t view =
     (if dt_scale_bytes t \<noteq> 0 then upload_extent (the (dv_scales view)) (unat (tp_scale_offset placement)) (dt_scale_bytes t)
      else returnM ())"

definition placed_view :: "TensorPlacement \<Rightarrow> DeviceTensor \<Rightarrow> CudaTensorView" where
  "placed_view placement t = \<lparr> cv_descriptor = Some t, cv_data = Some (tp_data_offset placement),
     cv_scales = (if dt_scale_bytes t = 0 then None else Some (tp_scale_offset placement)), cv_layout = tp_layout placement \<rparr>"

definition upload_tensor :: "DeviceWeightStore \<Rightarrow> TensorPlacement \<Rightarrow> unit upM" where
  "upload_tensor source placement =
     bindM (getM (\<lambda>s. dx_tensors (wu_index s) ! tp_tensor placement)) (\<lambda>t.
     bindM (liftE (\<lambda>_. device_require source (dt_name t))) (\<lambda>view.
     thenM (upload_data placement t view)
    (thenM (upload_scales placement t view)
    (thenM (failIf (\<lambda>s. wu_tensors s (dt_name t) \<noteq> None) (RuntimeError ''duplicate CUDA tensor name''))
     (modifyM (\<lambda>s. s\<lparr>wu_tensors := (wu_tensors s)(dt_name t \<mapsto> placed_view placement t)\<rparr>))))))"

section \<open>The store\<close>

definition prepare_buffer :: "nat \<Rightarrow> unit upM" where
  "prepare_buffer b =
     thenM (check ''cudaHostAlloc(weight staging)'' (cuda_host_alloc b))
    (thenM (check ''cudaEventCreate(weight staging)'' (cuda_event_create b))
     (check ''cudaEventRecord(weight staging initial)'' (enqueue (RecordOp b))))"

definition retire_buffer :: "nat \<Rightarrow> unit upM" where
  "retire_buffer b =
     thenM (check ''cudaEventDestroy(weight staging)'' cuda_event_destroy)
    (thenM (modifyM (set_buffer b (sb_reusable_update (\<lambda>_. False))))
    (thenM (check ''cudaFreeHost(weight staging)'' cuda_free_host)
     (modifyM (set_buffer b (sb_host_update (\<lambda>_. None))))))"

definition resize_staging :: "weight_upload \<Rightarrow> weight_upload" where
  "resize_staging s = s\<lparr>wu_staging := replicate (unat (co_staging_buffers (wu_options s))) \<lparr> sb_host = None, sb_reusable = False \<rparr>,
     wu_cursor := 0, wu_statistics := (wu_statistics s)\<lparr>cs_staging_peak_pinned_bytes :=
       ucast (co_staging_buffers (wu_options s)) * co_staging_bytes (wu_options s)\<rparr>\<rparr>"

definition finish_upload :: "nat \<Rightarrow> unit upM" where
  "finish_upload n =
     thenM (mapM_list retire_buffer [0 ..< n])
    (thenM (modifyM (\<lambda>s. s\<lparr>wu_staging := []\<rparr>))
    (thenM (check ''cudaStreamDestroy(weight upload)'' cuda_stream_destroy)
     (modifyM (\<lambda>s. s\<lparr>wu_stream := False\<rparr>))))"

definition upload_resident :: "DeviceWeightStore \<Rightarrow> planner \<Rightarrow> nat \<Rightarrow> unit upM" where
  "upload_resident source plan n =
     thenM (mapM_list prepare_buffer [0 ..< n])
    (thenM (mapM_list (upload_tensor source) (pl_placements plan))
    (thenM (check ''cudaStreamSynchronize(weight upload)'' cuda_stream_synchronize)
     (finish_upload n)))"

definition fill_arena :: "DeviceWeightStore \<Rightarrow> planner \<Rightarrow> unit upM" where
  "fill_arena source plan =
     thenM (check ''cudaMalloc(weight arena)'' (cuda_malloc_arena (pl_arena_bytes plan)))
    (thenM (check ''cudaStreamCreate(weight upload)'' cuda_stream_create)
    (thenM (modifyM resize_staging)
    (bindM (getM (\<lambda>s. length (wu_staging s))) (upload_resident source plan))))"

definition initialize :: "string option \<Rightarrow> DeviceWeightStore \<Rightarrow> unit upM" where
  "initialize variable source =
     thenM (failIf (\<lambda>s. sint (co_device (wu_options s)) < 0 \<or> co_staging_bytes (wu_options s) = 0 \<or>
         co_staging_buffers (wu_options s) < 2 \<or> co_staging_buffers (wu_options s) > 8) (InvalidArgument ''invalid CUDA device weight options''))
    (thenM (check ''cudaSetDevice(weight upload)'' id)
    (thenM (modifyM (\<lambda>s. s\<lparr>wu_index := dw_index source, wu_stage := dx_stage (dw_index source)\<rparr>))
    (bindM (liftE (\<lambda>s. plan_weights (wu_options s) variable (dw_index source))) (\<lambda>plan.
     thenM (modifyM (\<lambda>s. s\<lparr>wu_statistics := pl_statistics plan\<rparr>))
     (fill_arena source plan)))))"

definition release_buffer :: "StagingBuffer \<Rightarrow> weight_upload \<Rightarrow> weight_upload" where
  "release_buffer buffer s =
     (let s = (if sb_reusable buffer then ignore cuda_event_destroy s else s) in
      if sb_host buffer \<noteq> None then ignore cuda_free_host s else s)"

definition release :: "weight_upload \<Rightarrow> weight_upload" where
  "release s =
     (let s = ignore id s;
          s = (if wu_stream s then ignore cuda_stream_synchronize s else s);
          s = fold release_buffer (wu_staging s) s;
          s = s\<lparr>wu_staging := map (\<lambda>_. \<lparr> sb_host = None, sb_reusable = False \<rparr>) (wu_staging s)\<rparr>;
          s = (if wu_stream s then ignore cuda_stream_destroy s else s);
          s = (if wu_arena s \<noteq> None then ignore cuda_free_arena s else s) in
      s\<lparr>wu_stream := False, wu_arena := None\<rparr>)"

definition new_weight_upload :: "CudaDeviceWeightOptions \<Rightarrow> (nat \<Rightarrow> u8) \<Rightarrow> nat list \<Rightarrow> string option list \<Rightarrow> weight_upload" where
  "new_weight_upload options garbage prog calls = \<lparr> wu_options = options, wu_stage = 0, wu_arena = None, wu_stream = False, wu_staging = [],
     wu_index = empty_device_index [], wu_tensors = Map.empty, wu_statistics = empty_weight_stats, wu_cursor = 0, wu_queue = [],
     wu_progress = prog, wu_calls = calls, wu_garbage = garbage, wu_live_arenas = 0, wu_live_hosts = 0, wu_live_events = 0, wu_live_streams = 0 \<rparr>"

definition cuda_weight_store :: "string option \<Rightarrow> DeviceWeightStore \<Rightarrow> weight_upload \<Rightarrow> (exn + unit) \<times> weight_upload" where
  "cuda_weight_store variable source s =
     (case initialize variable source s of
        (Inr _, s) \<Rightarrow> (Inr (), s)
      | (Inl e, s) \<Rightarrow> (Inl e, release s))"

definition empty_cuda_view :: CudaTensorView where
  "empty_cuda_view = \<lparr> cv_descriptor = None, cv_data = None, cv_scales = None, cv_layout = RowMajor \<rparr>"

definition cuda_find :: "weight_upload \<Rightarrow> string \<Rightarrow> CudaTensorView" where
  "cuda_find s name = (case wu_tensors s name of None \<Rightarrow> empty_cuda_view | Some view \<Rightarrow> view)"

definition cuda_require :: "weight_upload \<Rightarrow> string \<Rightarrow> exn + CudaTensorView" where
  "cuda_require s name =
     (let result = cuda_find s name in
      if cv_descriptor result = None then Inl (RuntimeError (''missing CUDA tensor: '' @ name)) else Inr result)"

section \<open>What the stream owes\<close>

text \<open>The arena once everything in the queue is executed, and the rule that keeps it exact: a queued copy is
  followed by the record of its buffer's event.\<close>

definition drained :: "weight_upload \<Rightarrow> u8 list" where
  "drained s = run_ops (buffers (wu_staging s)) (wu_queue s) (the (wu_arena s))"

fun guarded :: "stream_op list \<Rightarrow> bool" where
  "guarded [] = True"
| "guarded (CopyOp dst b n # q) = (RecordOp b \<in> set q \<and> guarded q)"
| "guarded (RecordOp b # q) = guarded q"

fun reads_buffer :: "nat \<Rightarrow> stream_op \<Rightarrow> bool" where
  "reads_buffer b (CopyOp dst b' n) = (b' = b)"
| "reads_buffer b (RecordOp b') = False"

lemma run_ops_append: "run_ops B (p @ q) arena = run_ops B q (run_ops B p arena)"
  by (induction B p arena rule: run_ops.induct) simp_all

lemma run_ops_other: "list_all (\<lambda>x. \<not> reads_buffer b x) q \<Longrightarrow> (\<And>c. c \<noteq> b \<Longrightarrow> B' c = B c) \<Longrightarrow> run_ops B' q arena = run_ops B q arena"
  by (induction B q arena rule: run_ops.induct) auto

lemma guarded_suffix: "guarded (p @ q) \<Longrightarrow> guarded q"
  by (induction p rule: guarded.induct) simp_all

lemma guarded_drop: "guarded q \<Longrightarrow> guarded (drop n q)"
  using guarded_suffix [of "take n q" "drop n q"] by simp

lemma guarded_send: "guarded q \<Longrightarrow> guarded (q @ [CopyOp dst b n, RecordOp b])"
  by (induction q rule: guarded.induct) auto

lemma guarded_record: "guarded q \<Longrightarrow> guarded (q @ [RecordOp b])"
  by (induction q rule: guarded.induct) auto

lemma until_record_zero: "until_record b q = 0 \<longleftrightarrow> RecordOp b \<notin> set q"
  by (induction q) (auto simp: Let_def)

lemma drop_until_record: "RecordOp b \<notin> set (drop (until_record b q) q)"
proof (induction q)
  case (Cons x q)
  then show ?case using until_record_zero [of b q] by (auto simp: Let_def)
qed simp

lemma guarded_free: "guarded q \<Longrightarrow> RecordOp b \<notin> set q \<Longrightarrow> list_all (\<lambda>x. \<not> reads_buffer b x) q"
  by (induction q rule: guarded.induct) auto

lemma drained_execute: "wu_arena s \<noteq> None \<Longrightarrow> drained (execute_ops n s) = drained s"
proof -
  assume "wu_arena s \<noteq> None"
  moreover have "run_ops B (drop n q) (run_ops B (take n q) a) = run_ops B q a" for B q a
    using run_ops_append [of B "take n q" "drop n q" a] by simp
  ultimately show ?thesis by (auto simp: drained_def execute_ops_def)
qed

text \<open>The state of an upload in progress: an arena and buffers in place. A step reaches another such state, leaves the views
  alone, and fails only because a call did.\<close>

definition equipped :: "CudaDeviceWeightOptions \<Rightarrow> DeviceStageIndex \<Rightarrow> weight_upload \<Rightarrow> bool" where
  "equipped options index s \<longleftrightarrow> wu_options s = options \<and> wu_index s = index \<and> wu_arena s \<noteq> None \<and>
     length (wu_staging s) = unat (co_staging_buffers options) \<and>
     list_all (\<lambda>b. \<exists>host. sb_host b = Some host \<and> length host = unat (co_staging_bytes options)) (wu_staging s)"

definition moved :: "CudaDeviceWeightOptions \<Rightarrow> DeviceStageIndex \<Rightarrow> weight_upload \<Rightarrow> u8 list \<Rightarrow> weight_upload \<Rightarrow> bool" where
  "moved options index s arena t \<longleftrightarrow> equipped options index t \<and> drained t = arena \<and> wu_tensors t = wu_tensors s \<and> set (wu_calls t) \<subseteq> set (wu_calls s)"

definition uploaded :: "CudaDeviceWeightOptions \<Rightarrow> DeviceStageIndex \<Rightarrow> weight_upload \<Rightarrow> u8 list \<Rightarrow> weight_upload \<Rightarrow> bool" where
  "uploaded options index s arena t \<longleftrightarrow> moved options index s arena t \<and> guarded (wu_queue t)"

abbreviation uploading :: "CudaDeviceWeightOptions \<Rightarrow> DeviceStageIndex \<Rightarrow> weight_upload \<Rightarrow> bool" where
  "uploading options index s \<equiv> equipped options index s \<and> guarded (wu_queue s)"

definition call_failed :: "weight_upload \<Rightarrow> exn \<Rightarrow> bool" where
  "call_failed s e \<longleftrightarrow> (\<exists>m. Some m \<in> set (wu_calls s)) \<and> (\<exists>m. e = RuntimeError m)"

lemma call_failed_mono: "call_failed t e \<Longrightarrow> set (wu_calls t) \<subseteq> set (wu_calls s) \<Longrightarrow> call_failed s e"
  by (auto simp: call_failed_def)

lemma uploaded_refl: "uploading options index s \<Longrightarrow> uploaded options index s (drained s) s"
  by (simp add: uploaded_def moved_def)

lemma uploaded_trans: "uploaded options index s a t \<Longrightarrow> uploaded options index t b u \<Longrightarrow> uploaded options index s b u"
  by (auto simp: uploaded_def moved_def)

lemma moved_frame: "moved options index s a t \<Longrightarrow> wu_options u = wu_options t \<Longrightarrow> wu_index u = wu_index t \<Longrightarrow> wu_arena u = wu_arena t \<Longrightarrow>
    wu_queue u = wu_queue t \<Longrightarrow> wu_staging u = wu_staging t \<Longrightarrow> wu_tensors u = wu_tensors t \<Longrightarrow> set (wu_calls u) \<subseteq> set (wu_calls s) \<Longrightarrow>
    moved options index s a u"
  by (simp add: moved_def equipped_def drained_def)

lemma moved_execute:
  assumes "moved options index s a t"
  shows "moved options index s a (execute_ops n t)"
proof -
  have "wu_arena t \<noteq> None" using assms by (simp add: moved_def equipped_def)
  from drained_execute [OF this] assms have "drained (execute_ops n t) = a" by (simp add: moved_def)
  then show ?thesis using assms by (simp add: moved_def) (simp add: equipped_def execute_ops_def)
qed

lemma progress_moved:
  assumes "equipped options index s"
  shows "moved options index s (drained s) (progress s) \<and> wu_staging (progress s) = wu_staging s \<and> wu_calls (progress s) = wu_calls s \<and>
    (\<exists>n. wu_queue (progress s) = drop n (wu_queue s))"
proof (cases "wu_progress s")
  case (Cons n ns)
  have "moved options index s (drained s) (s\<lparr>wu_progress := ns\<rparr>)"
    by (rule moved_frame [of _ _ _ _ s]) (use assms in \<open>simp_all add: moved_def\<close>)
  from moved_execute [OF this, of n] show ?thesis using Cons by (auto simp: progress_def execute_ops_def)
next
  case Nil
  then show ?thesis using assms exI [of "\<lambda>n. wu_queue s = drop n (wu_queue s)" 0] by (simp add: progress_def moved_def)
qed

lemma wp_check:
  assumes s: "equipped options index s"
    and Q: "\<And>t n. moved options index s (drained s) t \<Longrightarrow> wu_staging t = wu_staging s \<Longrightarrow> wu_queue t = drop n (wu_queue s) \<Longrightarrow> Q () (effect t)"
  shows "wp (check operation effect) Q (\<lambda>e _. call_failed s e) s"
proof -
  note p = progress_moved [OF s]
  then obtain n where n: "wu_queue (progress s) = drop n (wu_queue s)" by blast
  show ?thesis
  proof (cases "wu_calls (progress s)")
    case Nil
    then show ?thesis using p Q n by (simp add: wp_def check_def cuda_call_def)
  next
    case (Cons c cs)
    have "moved options index s (drained s) ((progress s)\<lparr>wu_calls := cs\<rparr>)"
      by (rule moved_frame [of _ _ _ _ "progress s"]) (use p Cons in \<open>auto simp: moved_def\<close>)
    then have q: "Q () (effect ((progress s)\<lparr>wu_calls := cs\<rparr>))" using Q [of _ n] p n by simp
    show ?thesis
    proof (cases c)
      case None
      then show ?thesis using q Cons by (simp add: wp_def check_def cuda_call_def Let_def)
    next
      case (Some m)
      then have "Some m \<in> set (wu_calls s)" using p Cons by (metis list.set_intros(1))
      then show ?thesis using Some Cons by (auto simp: wp_def check_def cuda_call_def call_failed_def Let_def)
    qed
  qed
qed

lemma wp_return_part: "wp (returnM x) Q E = Q x"
  by (rule ext) (simp add: wp_simps)

lemma wp_take_buffer:
  assumes s: "uploading options index s" and n: "0 < unat (co_staging_buffers options)"
  shows "wp take_buffer (\<lambda>b t. uploaded options index s (drained s) t \<and> b < length (wu_staging t) \<and> list_all (\<lambda>x. \<not> reads_buffer b x) (wu_queue t))
    (\<lambda>e _. call_failed s e) s"
proof -
  let ?b = "next_buffer s" and ?s = "s\<lparr>wu_cursor := wu_cursor s + 1\<rparr>"
  have len: "length (wu_staging s) = unat (co_staging_buffers options)" using s by (simp add: equipped_def)
  then have "unat (word_of_nat (length (wu_staging s)) :: u64) = length (wu_staging s)"
    using unat_u32_lt [of "co_staging_buffers options"] by (simp add: unat_of_nat_u64)
  then have b: "?b < length (wu_staging s)" using n len by (simp add: next_buffer_def unat_mod)
  have s1: "equipped options index ?s" using s by (simp add: equipped_def)
  have "wp (check ''cudaEventSynchronize(weight staging)'' (cuda_event_synchronize ?b))
    (\<lambda>_ t. uploaded options index s (drained s) t \<and> ?b < length (wu_staging t) \<and> list_all (\<lambda>x. \<not> reads_buffer ?b x) (wu_queue t)) (\<lambda>e _. call_failed ?s e) ?s"
  proof (rule wp_check [OF s1])
    fix t n
    assume t: "moved options index ?s (drained ?s) t" "wu_staging t = wu_staging ?s" "wu_queue t = drop n (wu_queue ?s)"
    let ?t = "cuda_event_synchronize ?b t"
    have "moved options index s (drained s) t" using t(1) by (simp add: moved_def drained_def)
    then have "moved options index s (drained s) ?t" unfolding cuda_event_synchronize_def by (rule moved_execute)
    moreover have g: "guarded (wu_queue t)" using s t(3) by (simp add: guarded_drop)
    moreover from g have "list_all (\<lambda>x. \<not> reads_buffer ?b x) (wu_queue ?t)" "guarded (wu_queue ?t)"
      using guarded_free [OF guarded_drop drop_until_record] guarded_drop by (simp_all add: cuda_event_synchronize_def execute_ops_def)
    ultimately show "uploaded options index s (drained s) ?t \<and> ?b < length (wu_staging ?t) \<and> list_all (\<lambda>x. \<not> reads_buffer ?b x) (wu_queue ?t)"
      using b t(2) by (simp add: uploaded_def) (simp add: cuda_event_synchronize_def execute_ops_def)
  qed
  then show ?thesis by (simp add: take_buffer_def wp_simps wp_return_part call_failed_def)
qed

lemma overwrite_overwrite: "offset \<le> length xs \<Longrightarrow> overwrite (overwrite xs offset ys) (offset + length ys) zs = overwrite xs offset (ys @ zs)"
  by (simp add: overwrite_def ac_simps)

lemma length_overwrite: "offset + length ys \<le> length xs \<Longrightarrow> length (overwrite xs offset ys) = length xs"
  by (simp add: overwrite_def)

lemma overwrite_nil [simp]: "overwrite xs offset [] = xs"
  by (simp add: overwrite_def)

lemma list_all_update: "list_all P xs \<Longrightarrow> P y \<Longrightarrow> list_all P (xs[i := y])"
  using set_update_subset_insert [of xs i y] by (auto simp: list_all_iff)

lemma guarded_late: "guarded (q @ [CopyOp dst b n, RecordOp b]) \<Longrightarrow> guarded (drop k (q @ [CopyOp dst b n]) @ [RecordOp b])"
proof (cases "k \<le> length q + 1")
  case True
  assume g: "guarded (q @ [CopyOp dst b n, RecordOp b])"
  have "drop k (q @ [CopyOp dst b n]) @ [RecordOp b] = drop k (q @ [CopyOp dst b n, RecordOp b])"
    using True drop_append [of k "q @ [CopyOp dst b n]" "[RecordOp b]"] by simp
  then show ?thesis using guarded_drop [OF g] by metis
qed simp

text \<open>Sending a buffer, and writing one that no queued copy reads.\<close>

lemma wp_send_buffer:
  assumes s: "uploading options index s"
  shows "wp (send_buffer copying recording b dst count)
    (\<lambda>_ t. uploaded options index s (overwrite (drained s) dst (take (unat count) (buffers (wu_staging s) b))) t) (\<lambda>e _. call_failed s e) s"
proof -
  let ?copy = "CopyOp dst b (unat count)"
  let ?arena = "overwrite (drained s) dst (take (unat count) (buffers (wu_staging s) b))"
  have copy: "wp (check copying (enqueue ?copy)) (\<lambda>_ t. moved options index s ?arena t \<and> (\<exists>n. wu_queue t = drop n (wu_queue s) @ [?copy])) (\<lambda>e _. call_failed s e) s"
  proof (rule wp_check)
    fix t n
    assume "moved options index s (drained s) t" "wu_staging t = wu_staging s" "wu_queue t = drop n (wu_queue s)"
    then show "moved options index s ?arena (enqueue ?copy t) \<and> (\<exists>n. wu_queue (enqueue ?copy t) = drop n (wu_queue s) @ [?copy])"
      by (auto simp: moved_def equipped_def drained_def enqueue_def run_ops_append)
  qed (use s in simp)
  have rec: "wp (thenM (check recording (enqueue (RecordOp b))) (modifyM (count_upload count))) (\<lambda>_ u. uploaded options index s ?arena u) (\<lambda>e _. call_failed s e) t"
    if t: "moved options index s ?arena t" "wu_queue t = drop n (wu_queue s) @ [?copy]" for t n
  proof -
    have "wp (check recording (enqueue (RecordOp b))) (\<lambda>_ u. uploaded options index s ?arena u) (\<lambda>e _. call_failed t e) t"
    proof (rule wp_check)
      fix u k
      assume u: "moved options index t (drained t) u" "wu_queue u = drop k (wu_queue t)"
      have "guarded (drop n (wu_queue s) @ [?copy, RecordOp b])" using s by (intro guarded_send guarded_drop) simp
      from guarded_late [OF this, of k] have "guarded (wu_queue (enqueue (RecordOp b) u))" using u(2) t(2) by (simp add: enqueue_def)
      then show "uploaded options index s ?arena (enqueue (RecordOp b) u)"
        using u(1) t(1) by (auto simp: uploaded_def moved_def equipped_def drained_def enqueue_def run_ops_append)
    qed (use t in \<open>simp add: moved_def\<close>)
    then show ?thesis
      by (rule wp_thenI) (use t in \<open>auto simp: wp_simps uploaded_def moved_def equipped_def drained_def count_upload_def intro: call_failed_mono\<close>)
  qed
  show ?thesis unfolding send_buffer_def by (rule wp_thenI [OF copy]) (use rec in blast)+
qed

lemma wp_write_send:
  assumes s: "uploading options index s" and b: "b < length (wu_staging s)" "list_all (\<lambda>x. \<not> reads_buffer b x) (wu_queue s)"
    and n: "length bytes = unat count" "unat count \<le> unat (co_staging_bytes options)"
  shows "wp (thenM (modifyM (write_buffer b bytes)) (send_buffer copying recording b dst count))
    (\<lambda>_ t. uploaded options index s (overwrite (drained s) dst bytes) t) (\<lambda>e _. call_failed s e) s"
proof -
  let ?s = "write_buffer b bytes s"
  obtain host where host: "sb_host (wu_staging s ! b) = Some host" "length host = unat (co_staging_bytes options)"
    using s b(1) by (auto simp: equipped_def list_all_length)
  have other: "buffers (wu_staging ?s) c = buffers (wu_staging s) c" if "c \<noteq> b" for c
    using that by (simp add: buffers_def write_buffer_def set_buffer_def)
  have own: "take (unat count) (buffers (wu_staging ?s) b) = bytes"
    using b(1) host(1) n(1) by (simp add: buffers_def write_buffer_def set_buffer_def overwrite_def)
  have s1: "uploading options index ?s"
    using s n host by (auto simp: equipped_def write_buffer_def set_buffer_def length_overwrite intro!: list_all_update)
  have d: "drained ?s = drained s" using run_ops_other [OF b(2) other] by (simp add: drained_def write_buffer_def set_buffer_def)
  have "wp (send_buffer copying recording b dst count) (\<lambda>_ t. uploaded options index ?s (overwrite (drained s) dst bytes) t) (\<lambda>e _. call_failed ?s e) ?s"
    using wp_send_buffer [OF s1, of copying recording b dst count] by (simp only: own d)
  then show ?thesis by (simp add: wp_simps call_failed_def uploaded_def moved_def) (simp add: write_buffer_def set_buffer_def)
qed

section \<open>Extents\<close>

text \<open>One round of the upload of an extent.\<close>

lemma min_chunk:
  assumes "copied < (bytes :: u64)" "staging \<noteq> 0"
  defines "chunk \<equiv> min (bytes - copied) staging"
  shows "unat chunk \<le> unat bytes - unat copied \<and> unat chunk \<le> unat staging \<and> 0 < unat chunk \<and> unat (copied + chunk) = unat copied + unat chunk"
proof -
  have d: "unat (bytes - copied) = unat bytes - unat copied" using assms(1) by (intro unat_u64_sub) simp
  have c: "unat chunk = min (unat bytes - unat copied) (unat staging)"
    by (simp add: chunk_def min_def word_le_nat_alt d)
  moreover have "unat copied < unat bytes" using assms(1) by (simp add: word_less_nat_alt)
  moreover have "0 < unat staging" using assms(2) by (simp add: unat_gt_0)
  ultimately have "unat chunk \<le> unat bytes - unat copied" "unat chunk \<le> unat staging" "0 < unat chunk" "unat copied + unat chunk \<le> unat bytes" by auto
  moreover from this(4) have "unat copied + unat chunk < 2 ^ 64" using unat_u64_lt [of bytes] by simp
  ultimately show ?thesis by (simp add: unat_u64_add)
qed

lemma split_piece: "c + k \<le> n \<Longrightarrow> take k (drop c host) @ drop (c + k) (take n host) = drop c (take n host)"
proof -
  assume "c + k \<le> n"
  then have "take k (drop c (take n host)) = take k (drop c host)" by (simp add: drop_take min_absorb1)
  then show ?thesis using append_take_drop_id [of k "drop c (take n host)"] by (simp add: add.commute)
qed

lemma overwrite_piece:
  assumes "d + c \<le> length xs" "length (take k (drop c host)) = k" "c + k \<le> n"
  shows "overwrite (overwrite xs (d + c) (take k (drop c host))) (d + (c + k)) (drop (c + k) (take n host)) = overwrite xs (d + c) (drop c (take n host))"
  using overwrite_overwrite [OF assms(1), of "take k (drop c host)" "drop (c + k) (take n host)"] split_piece [OF assms(3), of host]
  unfolding assms(2) by (simp only: add.assoc)

lemma wp_upload_extent_loop:
  assumes "uploading options index s" "0 < unat (co_staging_buffers options)" "co_staging_bytes options \<noteq> 0"
    and "copied \<le> bytes" "unat bytes - unat copied \<le> fuel" "unat bytes \<le> length host" "device + unat bytes \<le> length (drained s)"
  shows "wp (upload_extent_loop fuel host device copied bytes)
    (\<lambda>_ t. uploaded options index s (overwrite (drained s) (device + unat copied) (drop (unat copied) (take (unat bytes) host))) t) (\<lambda>e _. call_failed s e) s"
  using assms
proof (induction fuel arbitrary: copied s)
  case (0 copied s)
  then have "unat bytes \<le> unat copied" by simp
  then show ?case using 0 by (simp add: upload_extent_loop.simps word_less_nat_alt wp_simps uploaded_refl)
next
  case (Suc fuel copied s)
  show ?case
  proof (cases "copied < bytes")
    case False
    then have "unat bytes \<le> unat copied" by (simp add: word_less_nat_alt)
    then show ?thesis using Suc.prems(1) False by (simp add: upload_extent_loop.simps wp_simps uploaded_refl)
  next
    case True
    let ?chunk = "min (bytes - copied) (co_staging_bytes options)"
    let ?piece = "take (unat ?chunk) (drop (unat copied) host)"
    note c = min_chunk [OF True Suc.prems(3)]
    have "unat ?chunk \<le> length host - unat copied" using c Suc.prems(6) by linarith
    then have len: "length ?piece = unat ?chunk" by (simp add: min_absorb2)
    have c': "unat (copied + ?chunk) = unat copied + unat ?chunk" using c by blast
    have fits: "unat copied + unat ?chunk \<le> unat bytes" using c True by (simp only: word_less_nat_alt) linarith
    have room: "device + unat copied + length ?piece \<le> length (drained s)" using len c Suc.prems(7) True by (simp only: word_less_nat_alt) linarith
    let ?Q = "\<lambda>_ t. uploaded options index s (overwrite (drained s) (device + unat copied) (drop (unat copied) (take (unat bytes) host))) t"
    let ?rest = "upload_extent_loop fuel host device (copied + ?chunk) bytes"
    let ?send = "send_buffer ''cudaMemcpyAsync(weight upload)'' ''cudaEventRecord(weight staging)''"
    have round: "wp (thenM (thenM (modifyM (write_buffer b ?piece)) (?send b (device + unat copied) ?chunk)) ?rest) ?Q (\<lambda>e _. call_failed s e) t"
      if t: "uploaded options index s (drained s) t" "b < length (wu_staging t)" "list_all (\<lambda>x. \<not> reads_buffer b x) (wu_queue t)" for b t
    proof -
      have up: "uploading options index t" "drained t = drained s" using t(1) by (auto simp: uploaded_def moved_def)
      show ?thesis
      proof (rule wp_thenI [OF wp_write_send [OF up(1) t(2,3) len]])
        show "unat ?chunk \<le> unat (co_staging_bytes options)" using c by simp
      next
        fix u
        assume u: "uploaded options index t (overwrite (drained t) (device + unat copied) ?piece) u"
        have len': "length (drained u) = length (drained s)" "drained u = overwrite (drained s) (device + unat copied) ?piece"
          using u up(2) room by (simp_all add: uploaded_def moved_def length_overwrite)
        have "wp ?rest (\<lambda>_ v. uploaded options index u (overwrite (drained u) (device + unat (copied + ?chunk)) (drop (unat (copied + ?chunk)) (take (unat bytes) host))) v)
          (\<lambda>e _. call_failed u e) u"
        proof (rule Suc.IH)
          show "uploading options index u" using u by (simp add: uploaded_def moved_def)
          show "copied + ?chunk \<le> bytes" using c True by (simp only: word_le_nat_alt word_less_nat_alt) linarith
          show "unat bytes - unat (copied + ?chunk) \<le> fuel" using c Suc.prems(5) by linarith
          show "device + unat bytes \<le> length (drained u)" using len' Suc.prems(7) by simp
        qed (use Suc.prems in simp_all)
        moreover have "overwrite (drained u) (device + unat (copied + ?chunk)) (drop (unat (copied + ?chunk)) (take (unat bytes) host)) =
            overwrite (drained s) (device + unat copied) (drop (unat copied) (take (unat bytes) host))"
          using overwrite_piece [OF _ len, of device "drained s" "unat bytes"] fits room unfolding len'(2) c' by (simp only: add_leD1)
        ultimately show "wp ?rest ?Q (\<lambda>e _. call_failed s e) u"
          using u t(1) by (elim wp_mono) (auto simp: uploaded_def moved_def intro: call_failed_mono)
      qed (use t(1) in \<open>auto simp: uploaded_def moved_def intro: call_failed_mono\<close>)
    qed
    have "wp (bindM take_buffer (\<lambda>b. bindM (getM (\<lambda>s. min (bytes - copied) (co_staging_bytes (wu_options s)))) (\<lambda>chunk.
        thenM (modifyM (write_buffer b (take (unat chunk) (drop (unat copied) host))))
       (thenM (?send b (device + unat copied) chunk) (upload_extent_loop fuel host device (copied + chunk) bytes))))) ?Q (\<lambda>e _. call_failed s e) s"
    proof (rule wp_bindI [OF wp_take_buffer [OF Suc.prems(1,2)]])
      fix b t
      assume t: "uploaded options index s (drained s) t \<and> b < length (wu_staging t) \<and> list_all (\<lambda>x. \<not> reads_buffer b x) (wu_queue t)"
      then have "wu_options t = options" by (simp add: uploaded_def moved_def equipped_def)
      then show "wp (bindM (getM (\<lambda>s. min (bytes - copied) (co_staging_bytes (wu_options s)))) (\<lambda>chunk.
        thenM (modifyM (write_buffer b (take (unat chunk) (drop (unat copied) host))))
       (thenM (?send b (device + unat copied) chunk) (upload_extent_loop fuel host device (copied + chunk) bytes)))) ?Q (\<lambda>e _. call_failed s e) t"
        using round t by (simp only: wp_bindM wp_getM thenM_assoc)
    qed
    then show ?thesis using True by (simp add: upload_extent_loop.simps)
  qed
qed

lemma wp_upload_extent:
  assumes "uploading options index s" "0 < unat (co_staging_buffers options)" "co_staging_bytes options \<noteq> 0"
    and "unat bytes \<le> length host" "device + unat bytes \<le> length (drained s)"
  shows "wp (upload_extent host device bytes) (\<lambda>_ t. uploaded options index s (overwrite (drained s) device (take (unat bytes) host)) t) (\<lambda>e _. call_failed s e) s"
  using wp_upload_extent_loop [OF assms(1-3), of 0 bytes "unat bytes" host device] assms(4,5) by (simp add: upload_extent_def)

end
