(* ===== verification/CudaResident.thy ===== *)
theory CudaResident
  imports CudaUpload
begin

text \<open>
  What an upload leaves on the device: the image of a tensor in rows or in tiles, the triples of the upload of a
  tensor and of a stage, and the properties of the store of \<^verbatim>\<open>cuda/cuda_weights.cu\<close>.
\<close>

section \<open>Tiles\<close>

definition tile :: "u8 list \<Rightarrow> u64 \<Rightarrow> u64 \<Rightarrow> nat \<Rightarrow> u8 list" where
  "tile host rows columns k = tile_bytes host rows columns (word_of_nat k)"

definition tiles :: "u8 list \<Rightarrow> u64 \<Rightarrow> u64 \<Rightarrow> nat \<Rightarrow> nat \<Rightarrow> u8 list" where
  "tiles host rows columns i j = concat (map (tile host rows columns) [i ..< j])"

lemma tiles_join: "i \<le> j \<Longrightarrow> j \<le> k \<Longrightarrow> tiles host rows columns i j @ tiles host rows columns j k = tiles host rows columns i k"
  unfolding tiles_def by (metis concat_append le_add_diff_inverse map_append upt_add_eq_append)

lemma tiles_step: "i < j \<Longrightarrow> tile host rows columns i @ tiles host rows columns (Suc i) j = tiles host rows columns i j"
  by (simp add: tiles_def upt_conv_Cons)

lemma tiles_length:
  assumes "\<And>k. k < n \<Longrightarrow> length (tile host rows columns k) = 128" "j \<le> n"
  shows "length (tiles host rows columns i j) = 128 * (j - i)"
  using assms(2)
proof (induction j)
  case (Suc j)
  then show ?case using assms(1) by (cases "i \<le> j") (simp_all add: tiles_def)
qed (simp add: tiles_def)

lemma fill_tiles_exact:
  assumes "fill_tiles host rows columns n staging i filled = (bytes, i', filled')"
    and "unat i \<le> unat n" "unat filled + 128 * (unat n - unat i) < 2 ^ 64" "unat filled \<le> unat staging"
  shows "unat i \<le> unat i' \<and> unat i' \<le> unat n \<and> bytes = tiles host rows columns (unat i) (unat i') \<and>
    unat filled' = unat filled + 128 * (unat i' - unat i) \<and> unat filled' \<le> unat staging \<and>
    (i < n \<longrightarrow> unat filled + 128 \<le> unat staging \<longrightarrow> unat i < unat i')"
  using assms
proof (induction host rows columns n staging i filled arbitrary: bytes i' filled' rule: fill_tiles.induct)
  case (1 host rows columns n staging i filled)
  show ?case
  proof (cases "i < n \<and> filled + 128 \<le> staging")
    case True
    then have lt: "unat i < unat n" by (simp add: word_less_nat_alt)
    have "unat i + unat (1 :: u64) < 2 ^ 64" using lt unat_u64_lt [of n] by simp
    from unat_u64_add [OF this] have i1: "unat (i + 1) = unat i + 1" by simp
    have "unat filled + unat (128 :: u64) < 2 ^ 64" using 1(4) lt by simp
    from unat_u64_add [OF this] have f1: "unat (filled + 128) = unat filled + 128" by simp
    obtain bs j g where rest: "fill_tiles host rows columns n staging (i + 1) (filled + 128) = (bs, j, g)" by (metis prod_cases3)
    have r: "bytes = tile_bytes host rows columns i @ bs" "i' = j" "filled' = g"
      using 1(2) True rest by (subst (asm) fill_tiles.simps, simp)+
    have st: "unat filled + 128 \<le> unat staging" using True f1 by (simp add: word_le_nat_alt)
    obtain d where d: "unat n = unat i + 1 + d" using lt less_iff_Suc_add by auto
    have more: "unat (filled + 128) + 128 * (unat n - unat (i + 1)) < 2 ^ 64" using 1(4) unfolding f1 i1 d by simp
    have "unat (i + 1) \<le> unat j \<and> unat j \<le> unat n \<and> bs = tiles host rows columns (unat (i + 1)) (unat j) \<and>
        unat g = unat (filled + 128) + 128 * (unat j - unat (i + 1)) \<and> unat g \<le> unat staging"
      using 1(1) [OF True rest _ more] lt i1 f1 st by simp
    moreover have "tile_bytes host rows columns i = tile host rows columns (unat i)" by (simp add: tile_def)
    ultimately show ?thesis using r i1 f1 tiles_step [of "unat i" "unat j" host rows columns] by auto
  next
    case False
    then have r: "bytes = []" "i' = i" "filled' = filled" using 1(2) by (subst (asm) fill_tiles.simps, simp)+
    have "\<not> (i < n \<and> unat filled + 128 \<le> unat staging)"
    proof
      assume a: "i < n \<and> unat filled + 128 \<le> unat staging"
      then have "unat filled + unat (128 :: u64) < 2 ^ 64" using unat_u64_lt [of staging] by simp
      from unat_u64_add [OF this] a False show False by (simp add: word_le_nat_alt)
    qed
    then show ?thesis using r 1(3,5) by (auto simp: tiles_def)
  qed
qed

lemma wp_upload_tiles_loop:
  assumes "uploading options index s" "0 < unat (co_staging_buffers options)" "128 \<le> unat (co_staging_bytes options)"
    and "unat i \<le> unat n" "unat n - unat i \<le> fuel" "128 * unat n < 2 ^ 64" "unat sent = 128 * unat i"
    and "\<And>k. k < unat n \<Longrightarrow> length (tile host rows columns k) = 128" "device + 128 * unat n \<le> length (drained s)"
  shows "wp (upload_tiles_loop fuel host rows columns device n i sent)
    (\<lambda>u t. unat u = 128 * unat n \<and> uploaded options index s (overwrite (drained s) (device + 128 * unat i) (tiles host rows columns (unat i) (unat n))) t)
    (\<lambda>e _. call_failed s e) s"
  using assms
proof (induction fuel arbitrary: i sent s)
  case (0 i sent s)
  then have "unat i = unat n" by simp
  then show ?case using 0 by (simp add: upload_tiles_loop.simps word_less_nat_alt wp_simps uploaded_refl tiles_def)
next
  case (Suc fuel i sent s)
  show ?case
  proof (cases "i < n")
    case False
    then have "unat i = unat n" using Suc.prems(4) by (simp add: word_less_nat_alt)
    then show ?thesis using Suc.prems False by (simp add: upload_tiles_loop.simps wp_simps uploaded_refl tiles_def)
  next
    case True
    obtain bytes j filled where fill: "fill_tiles host rows columns n (co_staging_bytes options) i 0 = (bytes, j, filled)" by (metis prod_cases3)
    have "unat (0 :: u64) + 128 * (unat n - unat i) < 2 ^ 64" using Suc.prems(6) by simp
    from fill_tiles_exact [OF fill Suc.prems(4) this] Suc.prems(3) True
    have j: "unat i < unat j" "unat j \<le> unat n" "bytes = tiles host rows columns (unat i) (unat j)" "unat filled = 128 * (unat j - unat i)"
      "unat filled \<le> unat (co_staging_bytes options)" by auto
    have len: "length bytes = unat filled" using tiles_length [OF Suc.prems(8) j(2)] j(3,4) by simp
    have sum: "unat sent + unat filled = 128 * unat j" using j(1,4) Suc.prems(7) by simp
    then have "unat sent + unat filled < 2 ^ 64" using j(2) Suc.prems(6) by simp
    from unat_u64_add [OF this] sum have sent': "unat (sent + filled) = 128 * unat j" by simp
    let ?Q = "\<lambda>u t. unat u = 128 * unat n \<and> uploaded options index s (overwrite (drained s) (device + 128 * unat i) (tiles host rows columns (unat i) (unat n))) t"
    let ?rest = "upload_tiles_loop fuel host rows columns device n j (sent + filled)"
    let ?send = "send_buffer ''cudaMemcpyAsync(tiled MoE weight upload)'' ''cudaEventRecord(tiled MoE weight staging)''"
    have room: "device + 128 * unat i + length bytes \<le> length (drained s)" using len j Suc.prems(9) by simp
    have round: "wp (thenM (thenM (modifyM (write_buffer b bytes)) (?send b (device + 128 * unat i) filled)) ?rest) ?Q (\<lambda>e _. call_failed s e) t"
      if t: "uploaded options index s (drained s) t" "b < length (wu_staging t)" "list_all (\<lambda>x. \<not> reads_buffer b x) (wu_queue t)" for b t
    proof -
      have up: "uploading options index t" "drained t = drained s" using t(1) by (auto simp: uploaded_def moved_def)
      show ?thesis
      proof (rule wp_thenI [OF wp_write_send [OF up(1) t(2,3) len j(5)]])
        fix u
        assume u: "uploaded options index t (overwrite (drained t) (device + 128 * unat i) bytes) u"
        have len': "length (drained u) = length (drained s)" "drained u = overwrite (drained s) (device + 128 * unat i) bytes"
          using u up(2) room by (simp_all add: uploaded_def moved_def length_overwrite)
        have "wp ?rest (\<lambda>w v. unat w = 128 * unat n \<and> uploaded options index u (overwrite (drained u) (device + 128 * unat j) (tiles host rows columns (unat j) (unat n))) v)
          (\<lambda>e _. call_failed u e) u"
        proof (rule Suc.IH)
          show "uploading options index u" using u by (simp add: uploaded_def moved_def)
          show "unat n - unat j \<le> fuel" using j(1) Suc.prems(5) by linarith
          show "device + 128 * unat n \<le> length (drained u)" using len' Suc.prems(9) by simp
        qed (use Suc.prems j sent' in simp_all)
        moreover have dj: "device + 128 * unat j = device + 128 * unat i + length bytes" using len j(1,4) by simp
        have "overwrite (drained u) (device + 128 * unat j) zs = overwrite (drained s) (device + 128 * unat i) (bytes @ zs)" for zs
          unfolding len'(2) dj using room by (intro overwrite_overwrite) simp
        then have "overwrite (drained u) (device + 128 * unat j) (tiles host rows columns (unat j) (unat n)) =
            overwrite (drained s) (device + 128 * unat i) (tiles host rows columns (unat i) (unat n))"
          using tiles_join [of "unat i" "unat j" "unat n" host rows columns] j by simp
        ultimately show "wp ?rest ?Q (\<lambda>e _. call_failed s e) u"
          using u t(1) by (elim wp_mono) (auto simp: uploaded_def moved_def intro: call_failed_mono)
      qed (use t(1) in \<open>auto simp: uploaded_def moved_def intro: call_failed_mono\<close>)
    qed
    have "wp (bindM take_buffer (\<lambda>b. bindM (getM (\<lambda>s. fill_tiles host rows columns n (co_staging_bytes (wu_options s)) i 0)) (\<lambda>(bytes, i, filled).
        thenM (modifyM (write_buffer b bytes))
       (thenM (?send b (device + unat sent) filled) (upload_tiles_loop fuel host rows columns device n i (sent + filled)))))) ?Q (\<lambda>e _. call_failed s e) s"
    proof (rule wp_bindI [OF wp_take_buffer [OF Suc.prems(1,2)]])
      fix b t
      assume t: "uploaded options index s (drained s) t \<and> b < length (wu_staging t) \<and> list_all (\<lambda>x. \<not> reads_buffer b x) (wu_queue t)"
      then have "wu_options t = options" by (simp add: uploaded_def moved_def equipped_def)
      then show "wp (bindM (getM (\<lambda>s. fill_tiles host rows columns n (co_staging_bytes (wu_options s)) i 0)) (\<lambda>(bytes, i, filled).
        thenM (modifyM (write_buffer b bytes))
       (thenM (?send b (device + unat sent) filled) (upload_tiles_loop fuel host rows columns device n i (sent + filled))))) ?Q (\<lambda>e _. call_failed s e) t"
        using round t by (simp only: wp_bindM wp_getM thenM_assoc fill prod.case Suc.prems(7))
    qed
    then show ?thesis using True by (simp add: upload_tiles_loop.simps)
  qed
qed

text \<open>Where the rows of a tile lie in the source: no offset wraps, and none leaves the tensor.\<close>

lemma tile_row_inside:
  fixes k m R C row :: nat
  assumes k: "k < m * (R * C)" and row: "row < 16" and R: "0 < R" "0 < C"
  defines "a \<equiv> k div (R * C)" and "rt \<equiv> k mod (R * C) div C" and "ct \<equiv> k mod (R * C) mod C"
  shows "a < m \<and> rt < R \<and> ct < C \<and> a * (128 * (R * C)) + ((rt * 16 + row) * (8 * C) + ct * 8) + 8 \<le> m * (128 * (R * C))"
proof -
  have "0 < R * C" using R by simp
  then have w: "k mod (R * C) < R * C" by simp
  have a: "a < m" using k \<open>0 < R * C\<close> by (simp add: a_def div_less_iff_less_mult)
  have rt: "rt < R" using w R by (simp add: rt_def div_less_iff_less_mult)
  have ct: "ct < C" using R by (simp add: ct_def)
  have "(rt * 16 + row) * (8 * C) + ct * 8 + 8 \<le> (rt * 16 + row) * (8 * C) + 8 * C" using ct by simp
  also have "\<dots> = (rt * 16 + row + 1) * (8 * C)" by simp
  also have "\<dots> \<le> (16 * R) * (8 * C)" using rt row by (intro mult_right_mono) simp_all
  finally have "(rt * 16 + row) * (8 * C) + ct * 8 + 8 \<le> 128 * (R * C)" by simp
  moreover have "Suc a * (128 * (R * C)) \<le> m * (128 * (R * C))" using a by (intro mult_right_mono) simp_all
  ultimately show ?thesis using a rt ct by simp
qed

lemma word_of_nat_div: "a < 18446744073709551616 \<Longrightarrow> b < 18446744073709551616 \<Longrightarrow> (word_of_nat a :: u64) div word_of_nat b = word_of_nat (a div b)"
  using div_le_dividend [of a b] by (simp add: word_unat_eq_iff unat_div unat_of_nat_u64 del: div_le_dividend)

lemma word_of_nat_mod: "a < 18446744073709551616 \<Longrightarrow> b < 18446744073709551616 \<Longrightarrow> (word_of_nat a :: u64) mod word_of_nat b = word_of_nat (a mod b)"
  using mod_less_eq_dividend [of a b] by (simp add: word_unat_eq_iff unat_mod unat_of_nat_u64 del: mod_less_eq_dividend)

lemma tile_offset:
  assumes rc: "rows = word_of_nat (16 * R)" "columns = word_of_nat (16 * C)" "0 < R" "0 < C" and size: "m * (256 * (R * C)) < 2 ^ 64"
    and k: "k < m * (R * C)" and row: "row < 16"
  shows "unat ((word_of_nat k :: u64) div (rows div 16 * (columns div 16)) * (rows * columns div 2) +
      ((word_of_nat k mod (rows div 16 * (columns div 16)) div (columns div 16) * 16 + word_of_nat row) * (columns div 2) +
       word_of_nat k mod (rows div 16 * (columns div 16)) mod (columns div 16) * 8)) =
    k div (R * C) * (128 * (R * C)) + ((k mod (R * C) div C * 16 + row) * (8 * C) + k mod (R * C) mod C * 8)"
proof -
  have m: "0 < m" using k by (cases m) simp_all
  then have "256 * (R * C) \<le> m * (256 * (R * C))" by (metis mult_le_mono1 nat_mult_1 One_nat_def Suc_leI)
  also have "\<dots> < 18446744073709551616" using size by (rule less_le_trans) simp
  finally have p: "256 * (R * C) < 18446744073709551616" .
  moreover have "R \<le> R * C" "C \<le> R * C" using rc(3,4) by simp_all
  ultimately have b: "16 * R < 18446744073709551616" "16 * C < 18446744073709551616" "R * C < 18446744073709551616" "C < 18446744073709551616"
    by linarith+
  have "256 * (m * (R * C)) = m * (256 * (R * C))" "m * (128 * (R * C)) = 128 * (m * (R * C))" by simp_all
  moreover have "m * (256 * (R * C)) < 18446744073709551616" using size by (rule less_le_trans) simp
  ultimately have sz: "256 * (m * (R * C)) < 18446744073709551616" "m * (128 * (R * C)) = 128 * (m * (R * C))" by linarith+
  have kb: "k < 18446744073709551616" using k sz by linarith
  have R16: "rows div 16 = word_of_nat R" and C16: "columns div 16 = word_of_nat C" and C2: "columns div 2 = word_of_nat (8 * C)"
    using word_of_nat_div [OF b(1), of 16] word_of_nat_div [OF b(2), of 16] word_of_nat_div [OF b(2), of 2] by (simp_all add: rc)
  have RC: "(word_of_nat R :: u64) * word_of_nat C = word_of_nat (R * C)" by simp
  have "rows * columns = word_of_nat (256 * (R * C))" by (simp add: rc ac_simps)
  then have RC2: "rows * columns div 2 = word_of_nat (128 * (R * C))" using word_of_nat_div [OF p, of 2] by simp
  have "k mod (R * C) \<le> k" by simp
  then have wb: "k mod (R * C) < 18446744073709551616" using kb by linarith
  note steps = R16 C16 C2 RC RC2 word_of_nat_div [OF kb b(3)] word_of_nat_mod [OF kb b(3)] word_of_nat_div [OF wb b(4)] word_of_nat_mod [OF wb b(4)]
  let ?n = "k div (R * C) * (128 * (R * C)) + ((k mod (R * C) div C * 16 + row) * (8 * C) + k mod (R * C) mod C * 8)"
  have "?n + 8 \<le> m * (128 * (R * C))" using tile_row_inside [OF k row rc(3,4)] by blast
  then have "?n < 18446744073709551616" using sz by linarith
  then have "unat (word_of_nat ?n :: u64) = ?n" by (rule unat_of_nat_u64)
  then show ?thesis unfolding steps by simp
qed

text \<open>Pieces of one length, put together.\<close>

lemma concat_uniform:
  assumes "\<And>i. i < m \<Longrightarrow> length (f i) = n"
  shows "length (concat (map f [0 ..< m])) = n * m" "i < m \<Longrightarrow> j < n \<Longrightarrow> concat (map f [0 ..< m]) ! (n * i + j) = f i ! j"
proof -
  have "length (concat (map f [0 ..< m])) = n * m \<and> (\<forall>i j. i < m \<longrightarrow> j < n \<longrightarrow> concat (map f [0 ..< m]) ! (n * i + j) = f i ! j)"
    using assms
  proof (induction m)
    case (Suc m)
    then have IH: "length (concat (map f [0 ..< m])) = n * m" "\<And>i j. i < m \<Longrightarrow> j < n \<Longrightarrow> concat (map f [0 ..< m]) ! (n * i + j) = f i ! j"
      by simp_all
    have "n * i + j < n * m" if "i < m" "j < n" for i j
    proof -
      have "n * i + j < n * Suc i" using that(2) by simp
      also have "\<dots> \<le> n * m" using that(1) by (intro mult_left_mono) simp_all
      finally show ?thesis .
    qed
    then show ?case using IH Suc.prems [of m] by (auto simp: nth_append less_Suc_eq)
  qed simp
  then show "length (concat (map f [0 ..< m])) = n * m" "i < m \<Longrightarrow> j < n \<Longrightarrow> concat (map f [0 ..< m]) ! (n * i + j) = f i ! j" by blast+
qed

text \<open>The shape of a tensor of tiles: matrices of sixteen times \<open>R\<close> rows and sixteen times \<open>C\<close> columns, of half a byte each.\<close>

definition tile_shape :: "u8 list \<Rightarrow> u64 \<Rightarrow> u64 \<Rightarrow> nat \<Rightarrow> nat \<Rightarrow> nat \<Rightarrow> bool" where
  "tile_shape host rows columns m R C \<longleftrightarrow> rows = word_of_nat (16 * R) \<and> columns = word_of_nat (16 * C) \<and> 0 < R \<and> 0 < C \<and>
     m * (256 * (R * C)) < 2 ^ 64 \<and> m * (128 * (R * C)) \<le> length host"

definition row_offset_in :: "nat \<Rightarrow> nat \<Rightarrow> nat \<Rightarrow> nat \<Rightarrow> nat" where
  "row_offset_in R C k row = k div (R * C) * (128 * (R * C)) + ((k mod (R * C) div C * 16 + row) * (8 * C) + k mod (R * C) mod C * 8)"

lemma tile_rows:
  assumes "tile_shape host rows columns m R C" "k < m * (R * C)"
  shows "tile host rows columns k = concat (map (\<lambda>row. take 8 (drop (row_offset_in R C k row) host)) [0 ..< 16])"
    "row < 16 \<Longrightarrow> row_offset_in R C k row + 8 \<le> length host"
proof -
  show "tile host rows columns k = concat (map (\<lambda>row. take 8 (drop (row_offset_in R C k row) host)) [0 ..< 16])"
    unfolding tile_def tile_bytes_def Let_def
    using tile_offset [of rows R columns C m k] assms
    by (intro arg_cong [of _ _ concat] map_cong) (simp_all only: tile_shape_def row_offset_in_def set_upt atLeastLessThan_iff)
  assume "row < 16"
  from tile_row_inside [OF assms(2) this] assms(1) show "row_offset_in R C k row + 8 \<le> length host"
    unfolding tile_shape_def row_offset_in_def by (meson order_trans)
qed

lemma tile_content:
  assumes "tile_shape host rows columns m R C" "k < m * (R * C)"
  shows "length (tile host rows columns k) = 128" "row < 16 \<Longrightarrow> x < 8 \<Longrightarrow> tile host rows columns k ! (8 * row + x) = host ! (row_offset_in R C k row + x)"
proof -
  have len: "length (take 8 (drop (row_offset_in R C k row) host)) = 8" if "row < 16" for row
    using tile_rows(2) [OF assms that] by simp
  show "length (tile host rows columns k) = 128" using concat_uniform(1) [of 16, OF len] unfolding tile_rows(1) [OF assms] by simp
  assume "row < 16" "x < 8"
  then show "tile host rows columns k ! (8 * row + x) = host ! (row_offset_in R C k row + x)"
    using concat_uniform(2) [of 16, OF len] tile_rows(2) [OF assms, of row] unfolding tile_rows(1) [OF assms] by simp
qed

text \<open>The byte of a row and a packed pair, in the order of the tiles and in the order of the source.\<close>

lemma tiles_permute:
  assumes t: "tile_shape host rows columns m R C" and a: "a < m" "r < 16 * R" "p < 8 * C"
  shows "tiles host rows columns 0 (m * (R * C)) ! (128 * ((a * R + r div 16) * C + p div 8) + (8 * (r mod 16) + p mod 8)) =
    host ! ((a * (16 * R) + r) * (8 * C) + p)"
proof -
  let ?k = "(a * R + r div 16) * C + p div 8"
  have rt: "r div 16 < R" "p div 8 < C" using a(2,3) by (simp_all add: div_less_iff_less_mult)
  have w: "r div 16 * C + p div 8 < R * C"
  proof -
    have "r div 16 * C + p div 8 < Suc (r div 16) * C" using rt(2) by simp
    also have "\<dots> \<le> R * C" using rt(1) by (intro mult_right_mono) simp_all
    finally show ?thesis .
  qed
  have k': "?k = a * (R * C) + (r div 16 * C + p div 8)" by (simp add: algebra_simps)
  have "a * (R * C) + (r div 16 * C + p div 8) < Suc a * (R * C)" using w by simp
  also have "\<dots> \<le> m * (R * C)" using a(1) by (intro mult_right_mono) simp_all
  finally have k: "?k < m * (R * C)" using k' by simp
  have b: "R * C \<noteq> 0" using w by (metis less_nat_zero_code)
  have "?k div (R * C) = a" unfolding k' div_mult_self3 [OF b] by (simp only: div_less [OF w] add_0_right)
  moreover have "?k mod (R * C) = r div 16 * C + p div 8" unfolding k' by (simp only: mod_mult_self3 mod_less [OF w])
  ultimately have "row_offset_in R C ?k (r mod 16) + p mod 8 = a * (128 * (R * C)) + ((r div 16 * 16 + r mod 16) * (8 * C) + (p div 8 * 8 + p mod 8))"
    using rt(2) by (simp add: row_offset_in_def)
  also have "\<dots> = (a * (16 * R) + r) * (8 * C) + p" by (simp add: algebra_simps)
  finally have offset: "row_offset_in R C ?k (r mod 16) + p mod 8 = (a * (16 * R) + r) * (8 * C) + p" .
  have "8 * (r mod 16) + p mod 8 < 128" using mod_less_divisor [of 16 r] mod_less_divisor [of 8 p] by linarith
  then have "tiles host rows columns 0 (m * (R * C)) ! (128 * ?k + (8 * (r mod 16) + p mod 8)) = tile host rows columns ?k ! (8 * (r mod 16) + p mod 8)"
    unfolding tiles_def using concat_uniform(2) [of "m * (R * C)" "tile host rows columns" 128] tile_content(1) [OF t] k by blast
  also have "\<dots> = host ! (row_offset_in R C ?k (r mod 16) + p mod 8)" by (rule tile_content(2) [OF t k]) simp_all
  finally show ?thesis by (simp only: offset)
qed

text \<open>The image of a tensor's data on the device.\<close>

definition tile_rows_of :: "DeviceTensor \<Rightarrow> nat" where "tile_rows_of t = unat (dt_shape t ! 1) div 16"

definition tile_columns_of :: "DeviceTensor \<Rightarrow> nat" where "tile_columns_of t = unat (dt_shape t ! 2) div 16"

definition tile_count :: "DeviceTensor \<Rightarrow> nat" where
  "tile_count t = unat (dt_shape t ! 0) * (tile_rows_of t * tile_columns_of t)"

definition device_image :: "CudaWeightLayout \<Rightarrow> DeviceTensor \<Rightarrow> u8 list \<Rightarrow> u8 list" where
  "device_image layout t host =
     (if layout = MoeW4Tile16x16 then tiles host (dt_shape t ! 1) (dt_shape t ! 2) 0 (tile_count t)
      else take (unat (dt_data_bytes t)) host)"

lemma tiled_tensor:
  assumes v: "validate_tensor_layout t = Inr ()" and tile: "should_tile_moe_w4 variable t" and host: "unat (dt_data_bytes t) \<le> length host"
  shows "tile_shape host (dt_shape t ! 1) (dt_shape t ! 2) (unat (dt_shape t ! 0)) (tile_rows_of t) (tile_columns_of t) \<and>
    unat (dt_shape t ! 0 * (dt_shape t ! 1 div 16 * (dt_shape t ! 2 div 16))) = tile_count t \<and> 128 * tile_count t = unat (dt_data_bytes t)"
proof -
  let ?m = "unat (dt_shape t ! 0)" and ?R = "tile_rows_of t" and ?C = "tile_columns_of t"
  from tile have f: "dt_format t = W4A16SymG128" "length (dt_shape t) = 3" "dt_shape t ! 1 mod 16 = 0" "dt_shape t ! 2 mod 16 = 0"
    by (auto simp: should_tile_moe_w4_def split: if_splits)
  have r: "unat (dt_shape t ! 1) = 16 * ?R" "unat (dt_shape t ! 2) = 16 * ?C"
    using arg_cong [OF f(3), of unat] arg_cong [OF f(4), of unat] by (simp_all add: tile_rows_of_def tile_columns_of_def unat_mod mod_eq_0_iff_dvd)
  from v obtain e where e: "checked_elements (dt_shape t) = Inr e" by (auto simp: validate_tensor_layout_def bindE_Inr_iff)
  have shape: "dt_shape t = [dt_shape t ! 0, dt_shape t ! 1, dt_shape t ! 2]"
    using f(2) by (auto simp: length_Suc_conv numeral_eq_Suc)
  then have "elements (dt_shape t) = elements [dt_shape t ! 0, dt_shape t ! 1, dt_shape t ! 2]" by simp
  also have "\<dots> = ?m * (256 * (?R * ?C))" by (simp only: elements_def list.map prod_list.Cons prod_list.Nil r ac_simps mult_1_right)
  finally have n: "elements (dt_shape t) = ?m * (256 * (?R * ?C))" .
  have c: "unat e = elements (dt_shape t)" "0 \<notin> set (dt_shape t)" using checked_elements_exact [OF e] by simp_all
  then have size: "?m * (256 * (?R * ?C)) < 2 ^ 64" using unat_u64_lt [of e] n by simp
  have "dt_shape t ! 1 \<noteq> 0" "dt_shape t ! 2 \<noteq> 0" using c(2) f(2) by (metis nth_mem numeral_3_eq_3 lessI less_SucI One_nat_def numeral_2_eq_2)+
  then have "unat (dt_shape t ! 1) \<noteq> 0" "unat (dt_shape t ! 2) \<noteq> 0" by (simp_all add: unat_eq_0)
  then have pos: "0 < ?R" "0 < ?C" using r by auto
  have "2 * unat (dt_data_bytes t) = ?m * (256 * (?R * ?C))" using validate_layout_exact [OF v] f(1) n by (simp add: layout_exact_def Let_def)
  then have bytes: "unat (dt_data_bytes t) = ?m * (128 * (?R * ?C))" by simp
  have words: "dt_shape t ! 1 = word_of_nat (16 * ?R)" "dt_shape t ! 2 = word_of_nat (16 * ?C)" by (simp_all flip: r)
  have d: "unat (dt_shape t ! 1 div 16) = ?R" "unat (dt_shape t ! 2 div 16) = ?C" by (simp_all add: unat_div tile_rows_of_def tile_columns_of_def)
  have "unat (dt_shape t ! 1 div 16 * (dt_shape t ! 2 div 16)) = ?R * ?C \<or> ?m = 0"
  proof (cases "?m = 0")
    case False
    then have "x \<le> ?m * (256 * x)" for x by (cases ?m) simp_all
    from le_less_trans [OF this size] have "unat (dt_shape t ! 1 div 16) * unat (dt_shape t ! 2 div 16) < 2 ^ 64" by (simp only: d)
    from unat_u64_mult [OF this] show ?thesis by (simp only: d simp_thms)
  qed simp
  moreover have "?m * (?R * ?C) \<le> ?m * (256 * (?R * ?C))" by simp
  then have "?m * (?R * ?C) < 2 ^ 64" using size by (rule le_less_trans)
  ultimately have "unat (dt_shape t ! 0 * (dt_shape t ! 1 div 16 * (dt_shape t ! 2 div 16))) = tile_count t"
    by (auto simp: unat_u64_mult tile_count_def unat_eq_0)
  then show ?thesis using words pos size bytes host by (simp add: tile_shape_def tile_count_def)
qed

lemma wp_upload_tiled_w4:
  assumes s: "uploading options index s" "0 < unat (co_staging_buffers options)"
    and v: "validate_tensor_layout t = Inr ()" "should_tile_moe_w4 variable t" "unat (dt_data_bytes t) \<le> length host"
    and room: "device + unat (dt_data_bytes t) \<le> length (drained s)" and big: "128 \<le> unat (co_staging_bytes options)"
  shows "wp (upload_tiled_w4 host device t) (\<lambda>_ u. uploaded options index s (overwrite (drained s) device (device_image MoeW4Tile16x16 t host)) u)
    (\<lambda>e _. call_failed s e) s"
proof -
  let ?n = "dt_shape t ! 0 * (dt_shape t ! 1 div 16 * (dt_shape t ! 2 div 16))"
  from tiled_tensor [OF v] have shape: "tile_shape host (dt_shape t ! 1) (dt_shape t ! 2) (unat (dt_shape t ! 0)) (tile_rows_of t) (tile_columns_of t)"
    and n: "unat ?n = tile_count t" and bytes: "128 * tile_count t = unat (dt_data_bytes t)" by blast+
  have "wp (upload_tiles_loop (unat ?n) host (dt_shape t ! 1) (dt_shape t ! 2) device ?n 0 0)
    (\<lambda>u t'. unat u = 128 * unat ?n \<and> uploaded options index s (overwrite (drained s) (device + 128 * unat (0 :: u64))
      (tiles host (dt_shape t ! 1) (dt_shape t ! 2) (unat (0 :: u64)) (unat ?n))) t') (\<lambda>e _. call_failed s e) s"
  proof (rule wp_upload_tiles_loop [OF s big])
    show "128 * unat ?n < 2 ^ 64" using bytes n unat_u64_lt [of "dt_data_bytes t"] by simp
    show "length (tile host (dt_shape t ! 1) (dt_shape t ! 2) k) = 128" if "k < unat ?n" for k
      by (rule tile_content(1) [OF shape]) (use that n in \<open>simp only: tile_count_def\<close>)
    show "device + 128 * unat ?n \<le> length (drained s)" using room bytes n by simp
  qed simp_all
  then have "wp (bindM (upload_tiles_loop (unat ?n) host (dt_shape t ! 1) (dt_shape t ! 2) device ?n 0 0) (\<lambda>u. failIf (\<lambda>_. u \<noteq> dt_data_bytes t)
      (LogicError ''tiled MoE W4 upload size differs'')))
    (\<lambda>_ u. uploaded options index s (overwrite (drained s) device (device_image MoeW4Tile16x16 t host)) u) (\<lambda>e _. call_failed s e) s"
    by (rule wp_bindI) (auto simp: wp_simps n [unfolded One_nat_def] bytes device_image_def word_unat_eq_iff)
  moreover have "\<not> co_staging_bytes (wu_options s) < 128" using s(1) big by (simp add: equipped_def word_less_nat_alt)
  ultimately show ?thesis by (simp add: upload_tiled_w4_def wp_simps Let_def)
qed

text \<open>The data and the scales of a placed tensor. A buffer that holds no tile is refused when a tensor is to be tiled.\<close>

definition staging_ready :: "CudaDeviceWeightOptions \<Rightarrow> bool" where
  "staging_ready options \<longleftrightarrow> 0 < unat (co_staging_buffers options) \<and> co_staging_bytes options \<noteq> 0"

definition upload_failed :: "CudaDeviceWeightOptions \<Rightarrow> weight_upload \<Rightarrow> exn \<Rightarrow> bool" where
  "upload_failed options s e \<longleftrightarrow> call_failed s e \<or>
     co_staging_bytes options < 128 \<and> e = InvalidArgument ''CUDA staging buffer is too small for a MoE W4 tile''"

lemma upload_failed_mono: "upload_failed options t e \<Longrightarrow> set (wu_calls t) \<subseteq> set (wu_calls s) \<Longrightarrow> upload_failed options s e"
  by (auto simp: upload_failed_def intro: call_failed_mono)

lemma wp_upload_data:
  assumes s: "uploading options index s" "staging_ready options" and v: "validate_tensor_layout t = Inr ()"
    and layout: "tp_layout q = (if should_tile_moe_w4 variable t then MoeW4Tile16x16 else RowMajor)"
    and view: "unat (dt_data_bytes t) \<le> length (dv_data view)" and room: "unat (tp_data_offset q) + unat (dt_data_bytes t) \<le> length (drained s)"
  shows "wp (upload_data q t view)
    (\<lambda>_ u. uploaded options index s (overwrite (drained s) (unat (tp_data_offset q)) (device_image (tp_layout q) t (dv_data view))) u) (\<lambda>e _. upload_failed options s e) s"
proof (cases "should_tile_moe_w4 variable t")
  case True
  show ?thesis
  proof (cases "co_staging_bytes options < 128")
    case small: True
    moreover have "wu_options s = options" using s(1) by (simp add: equipped_def)
    ultimately show ?thesis using layout True by (simp add: upload_data_def upload_tiled_w4_def wp_simps upload_failed_def)
  next
    case False
    then have "128 \<le> unat (co_staging_bytes options)" by (simp add: word_less_nat_alt)
    then have "wp (upload_data q t view) (\<lambda>_ u. uploaded options index s (overwrite (drained s) (unat (tp_data_offset q)) (device_image (tp_layout q) t (dv_data view))) u)
        (\<lambda>e _. call_failed s e) s"
      using wp_upload_tiled_w4 [OF s(1) _ v True view room] s(2) layout True by (simp add: upload_data_def staging_ready_def)
    then show ?thesis by (rule wp_mono) (simp_all add: upload_failed_def)
  qed
next
  case False
  then have "wp (upload_data q t view) (\<lambda>_ u. uploaded options index s (overwrite (drained s) (unat (tp_data_offset q)) (device_image (tp_layout q) t (dv_data view))) u)
      (\<lambda>e _. call_failed s e) s"
    using wp_upload_extent [OF s(1) _ _ view room] s(2) layout by (simp add: upload_data_def staging_ready_def device_image_def)
  then show ?thesis by (rule wp_mono) (simp_all add: upload_failed_def)
qed

definition with_scales :: "TensorPlacement \<Rightarrow> DeviceTensor \<Rightarrow> DeviceTensorView \<Rightarrow> u8 list \<Rightarrow> u8 list" where
  "with_scales q t view arena = (if dt_scale_bytes t = 0 then arena
     else overwrite arena (unat (tp_scale_offset q)) (take (unat (dt_scale_bytes t)) (the (dv_scales view))))"

lemma wp_upload_scales:
  assumes s: "uploading options index s" "staging_ready options"
    and view: "dt_scale_bytes t \<noteq> 0 \<Longrightarrow> unat (dt_scale_bytes t) \<le> length (the (dv_scales view))"
    and room: "dt_scale_bytes t \<noteq> 0 \<Longrightarrow> unat (tp_scale_offset q) + unat (dt_scale_bytes t) \<le> length (drained s)"
  shows "wp (upload_scales q t view) (\<lambda>_ u. uploaded options index s (with_scales q t view (drained s)) u) (\<lambda>e _. call_failed s e) s"
proof (cases "dt_scale_bytes t = 0")
  case False
  then show ?thesis using view room wp_upload_extent [OF s(1), of "dt_scale_bytes t" "the (dv_scales view)" "unat (tp_scale_offset q)"] s(2)
    by (simp add: upload_scales_def staging_ready_def with_scales_def)
qed (use s(1) in \<open>simp add: upload_scales_def wp_simps uploaded_refl with_scales_def\<close>)

section \<open>The whole upload\<close>

text \<open>What a plan and a source put in the arena, in the order of the placements.\<close>

definition source_view :: "DeviceWeightStore \<Rightarrow> DeviceTensor \<Rightarrow> DeviceTensorView" where
  "source_view source t = (case device_require source (dt_name t) of Inr view \<Rightarrow> view | Inl _ \<Rightarrow> \<lparr> dv_descriptor = t, dv_data = [], dv_scales = None \<rparr>)"

definition write_tensor :: "DeviceWeightStore \<Rightarrow> DeviceTensor list \<Rightarrow> TensorPlacement \<Rightarrow> u8 list \<Rightarrow> u8 list" where
  "write_tensor source ts q arena = (let t = ts ! tp_tensor q; view = source_view source t in
     with_scales q t view (overwrite arena (unat (tp_data_offset q)) (device_image (tp_layout q) t (dv_data view))))"

definition sound_source :: "DeviceWeightStore \<Rightarrow> DeviceTensor \<Rightarrow> bool" where
  "sound_source source t \<longleftrightarrow> validate_tensor_layout t = Inr () \<and> device_require source (dt_name t) = Inr (source_view source t) \<and>
     unat (dt_data_bytes t) \<le> length (dv_data (source_view source t)) \<and>
     (dt_scale_bytes t \<noteq> 0 \<longrightarrow> unat (dt_scale_bytes t) \<le> length (the (dv_scales (source_view source t))))"

definition placed_inside :: "string option \<Rightarrow> DeviceTensor list \<Rightarrow> nat \<Rightarrow> TensorPlacement \<Rightarrow> bool" where
  "placed_inside variable ts capacity q \<longleftrightarrow> (\<forall>e \<in> set (placed_extents ts q). fst e + snd e \<le> capacity) \<and>
     tp_layout q = (if should_tile_moe_w4 variable (ts ! tp_tensor q) then MoeW4Tile16x16 else RowMajor)"

lemma device_image_length:
  assumes "validate_tensor_layout t = Inr ()" "layout = (if should_tile_moe_w4 variable t then MoeW4Tile16x16 else RowMajor)" "unat (dt_data_bytes t) \<le> length host"
  shows "length (device_image layout t host) = unat (dt_data_bytes t)"
proof (cases "should_tile_moe_w4 variable t")
  case True
  note x = tiled_tensor [OF assms(1) True assms(3)]
  have "length (tiles host (dt_shape t ! 1) (dt_shape t ! 2) 0 (tile_count t)) = 128 * (tile_count t - 0)"
    by (rule tiles_length [of "tile_count t"]) (use x tile_content(1) tile_count_def in auto)
  then show ?thesis using x True assms(2) by (simp add: device_image_def)
qed (use assms in \<open>simp add: device_image_def\<close>)

lemma write_tensor_length:
  assumes "sound_source source (ts ! tp_tensor q)" "placed_inside variable ts (length arena) q"
  shows "length (write_tensor source ts q arena) = length arena"
proof -
  let ?t = "ts ! tp_tensor q"
  have v: "validate_tensor_layout ?t = Inr ()" "unat (dt_data_bytes ?t) \<le> length (dv_data (source_view source ?t))"
    "dt_scale_bytes ?t \<noteq> 0 \<longrightarrow> unat (dt_scale_bytes ?t) \<le> length (the (dv_scales (source_view source ?t)))"
    using assms(1) by (auto simp: sound_source_def)
  have l: "tp_layout q = (if should_tile_moe_w4 variable ?t then MoeW4Tile16x16 else RowMajor)"
    "unat (tp_data_offset q) + unat (dt_data_bytes ?t) \<le> length arena"
    "dt_scale_bytes ?t \<noteq> 0 \<longrightarrow> unat (tp_scale_offset q) + unat (dt_scale_bytes ?t) \<le> length arena"
    using assms(2) by (auto simp: placed_inside_def placed_extents_def Let_def)
  show ?thesis using v l device_image_length [OF v(1) l(1) v(2)]
    by (simp add: write_tensor_def with_scales_def Let_def length_overwrite min_absorb2)
qed

definition tensor_uploaded :: "CudaDeviceWeightOptions \<Rightarrow> DeviceStageIndex \<Rightarrow> weight_upload \<Rightarrow> u8 list \<Rightarrow> (string \<rightharpoonup> CudaTensorView) \<Rightarrow> weight_upload \<Rightarrow> bool" where
  "tensor_uploaded options index s arena tensors u \<longleftrightarrow> uploading options index u \<and> drained u = arena \<and> wu_tensors u = tensors \<and> set (wu_calls u) \<subseteq> set (wu_calls s)"

lemma wp_upload_tensor:
  assumes s: "uploading options index s" "staging_ready options" and source: "sound_source source (dx_tensors index ! tp_tensor q)"
    and placed: "placed_inside variable (dx_tensors index) (length (drained s)) q" and new: "wu_tensors s (dt_name (dx_tensors index ! tp_tensor q)) = None"
  shows "wp (upload_tensor source q) (\<lambda>_. tensor_uploaded options index s (write_tensor source (dx_tensors index) q (drained s))
      ((wu_tensors s)(dt_name (dx_tensors index ! tp_tensor q) \<mapsto> placed_view q (dx_tensors index ! tp_tensor q)))) (\<lambda>e _. upload_failed options s e) s"
proof -
  let ?t = "dx_tensors index ! tp_tensor q"
  let ?view = "source_view source ?t"
  have v: "validate_tensor_layout ?t = Inr ()" "unat (dt_data_bytes ?t) \<le> length (dv_data ?view)" "device_require source (dt_name ?t) = Inr ?view"
    "dt_scale_bytes ?t \<noteq> 0 \<Longrightarrow> unat (dt_scale_bytes ?t) \<le> length (the (dv_scales ?view))"
    using source by (auto simp: sound_source_def)
  have l: "tp_layout q = (if should_tile_moe_w4 variable ?t then MoeW4Tile16x16 else RowMajor)"
    "unat (tp_data_offset q) + unat (dt_data_bytes ?t) \<le> length (drained s)"
    "dt_scale_bytes ?t \<noteq> 0 \<Longrightarrow> unat (tp_scale_offset q) + unat (dt_scale_bytes ?t) \<le> length (drained s)"
    using placed by (auto simp: placed_inside_def placed_extents_def Let_def)
  let ?arena = "overwrite (drained s) (unat (tp_data_offset q)) (device_image (tp_layout q) ?t (dv_data ?view))"
  let ?Q = "\<lambda>_. tensor_uploaded options index s (write_tensor source (dx_tensors index) q (drained s)) ((wu_tensors s)(dt_name ?t \<mapsto> placed_view q ?t))"
  have len: "length ?arena = length (drained s)" using l(2) device_image_length [OF v(1) l(1) v(2)] by (simp add: length_overwrite)
  have scales: "wp (thenM (upload_scales q ?t ?view) (thenM (failIf (\<lambda>s. wu_tensors s (dt_name ?t) \<noteq> None) (RuntimeError ''duplicate CUDA tensor name''))
      (modifyM (\<lambda>s. s\<lparr>wu_tensors := (wu_tensors s)(dt_name ?t \<mapsto> placed_view q ?t)\<rparr>)))) ?Q (\<lambda>e _. upload_failed options s e) u"
    if u: "uploaded options index s ?arena u" for u
  proof -
    have up: "uploading options index u" "drained u = ?arena" "wu_tensors u = wu_tensors s" "set (wu_calls u) \<subseteq> set (wu_calls s)"
      using u by (auto simp: uploaded_def moved_def)
    show ?thesis
    proof (rule wp_thenI [OF wp_upload_scales [OF up(1) s(2)]])
      fix w
      assume w: "uploaded options index u (with_scales q ?t ?view (drained u)) w"
      then have "wu_tensors w (dt_name ?t) = None" using up(3) new by (simp add: uploaded_def moved_def)
      then show "wp (thenM (failIf (\<lambda>s. wu_tensors s (dt_name ?t) \<noteq> None) (RuntimeError ''duplicate CUDA tensor name''))
          (modifyM (\<lambda>s. s\<lparr>wu_tensors := (wu_tensors s)(dt_name ?t \<mapsto> placed_view q ?t)\<rparr>))) ?Q (\<lambda>e _. upload_failed options s e) w"
        using w up by (auto simp: wp_simps tensor_uploaded_def uploaded_def moved_def equipped_def drained_def write_tensor_def Let_def)
    qed (use v(4) l(3) len up(2,4) in \<open>auto intro: upload_failed_mono simp: upload_failed_def call_failed_def\<close>)
  qed
  have "wu_index s = index" using s(1) by (simp add: equipped_def)
  then show ?thesis
    using wp_thenI [OF wp_upload_data [OF s v(1) l(1) v(2) l(2)] scales] v(3) by (simp add: upload_tensor_def wp_simps)
qed

lemma wp_upload_tensors:
  assumes "uploading options index s" "staging_ready options" "list_all (\<lambda>q. sound_source source (dx_tensors index ! tp_tensor q)) qs"
    and "list_all (placed_inside variable (dx_tensors index) (length (drained s))) qs"
    and "distinct (map (\<lambda>q. dt_name (dx_tensors index ! tp_tensor q)) qs)" "list_all (\<lambda>q. wu_tensors s (dt_name (dx_tensors index ! tp_tensor q)) = None) qs"
  shows "wp (mapM_list (upload_tensor source) qs) (\<lambda>_. tensor_uploaded options index s (fold (write_tensor source (dx_tensors index)) qs (drained s))
      (fold (\<lambda>q m. m(dt_name (dx_tensors index ! tp_tensor q) \<mapsto> placed_view q (dx_tensors index ! tp_tensor q))) qs (wu_tensors s)))
    (\<lambda>e _. upload_failed options s e) s"
  using assms
proof (induction qs arbitrary: s)
  case Nil
  then show ?case by (simp add: wp_simps tensor_uploaded_def)
next
  case (Cons q qs)
  let ?name = "\<lambda>q. dt_name (dx_tensors index ! tp_tensor q)"
  have q: "sound_source source (dx_tensors index ! tp_tensor q)" "placed_inside variable (dx_tensors index) (length (drained s)) q" "wu_tensors s (?name q) = None"
    using Cons.prems by simp_all
  have "wp (thenM (upload_tensor source q) (mapM_list (upload_tensor source) qs)) (\<lambda>_. tensor_uploaded options index s
      (fold (write_tensor source (dx_tensors index)) (q # qs) (drained s))
      (fold (\<lambda>q m. m(?name q \<mapsto> placed_view q (dx_tensors index ! tp_tensor q))) (q # qs) (wu_tensors s))) (\<lambda>e _. upload_failed options s e) s"
  proof (rule wp_thenI [OF wp_upload_tensor [OF Cons.prems(1,2) q]])
    fix u
    assume u: "tensor_uploaded options index s (write_tensor source (dx_tensors index) q (drained s))
      ((wu_tensors s)(?name q \<mapsto> placed_view q (dx_tensors index ! tp_tensor q))) u"
    have "wp (mapM_list (upload_tensor source) qs) (\<lambda>_. tensor_uploaded options index u (fold (write_tensor source (dx_tensors index)) qs (drained u))
      (fold (\<lambda>q m. m(?name q \<mapsto> placed_view q (dx_tensors index ! tp_tensor q))) qs (wu_tensors u))) (\<lambda>e _. upload_failed options u e) u"
    proof (rule Cons.IH)
      show "uploading options index u" using u by (simp add: tensor_uploaded_def)
      show "list_all (placed_inside variable (dx_tensors index) (length (drained u))) qs"
        using u Cons.prems(4) write_tensor_length [OF q(1,2)] by (simp add: tensor_uploaded_def)
      have "?name q \<notin> ?name ` set qs" using Cons.prems(5) by simp
      then have "?name p \<noteq> ?name q" if "p \<in> set qs" for p using imageI [OF that, of ?name] by auto
      then show "list_all (\<lambda>q. wu_tensors u (?name q) = None) qs" using u Cons.prems(6) by (auto simp: tensor_uploaded_def list_all_iff)
    qed (use Cons.prems in simp_all)
    then show "wp (mapM_list (upload_tensor source) qs) (\<lambda>_. tensor_uploaded options index s (fold (write_tensor source (dx_tensors index)) (q # qs) (drained s))
      (fold (\<lambda>q m. m(?name q \<mapsto> placed_view q (dx_tensors index ! tp_tensor q))) (q # qs) (wu_tensors s))) (\<lambda>e _. upload_failed options s e) u"
      by (rule wp_mono) (use u in \<open>auto simp: tensor_uploaded_def intro: upload_failed_mono\<close>)
  qed simp
  then show ?case by (simp only: mapM_list.simps)
qed

section \<open>Before and after the upload\<close>

text \<open>While the queue holds records only, what the device does on its own changes nothing else.\<close>

definition records_only :: "stream_op list \<Rightarrow> bool" where
  "records_only q \<longleftrightarrow> (\<forall>x \<in> set q. \<exists>b. x = RecordOp b)"

lemma records_run: "records_only q \<Longrightarrow> run_ops B q arena = arena"
  by (induction B q arena rule: run_ops.induct) (auto simp: records_only_def)

lemma records_guarded: "records_only q \<Longrightarrow> guarded q"
  by (induction q rule: guarded.induct) (auto simp: records_only_def)

lemma progress_records:
  assumes "records_only (wu_queue s)"
  shows "\<exists>prog n. progress s = s\<lparr>wu_progress := prog, wu_queue := drop n (wu_queue s)\<rparr>"
proof (cases "wu_progress s")
  case Nil
  have "s = s\<lparr>wu_progress := wu_progress s, wu_queue := drop 0 (wu_queue s)\<rparr>" by simp
  then show ?thesis using Nil unfolding progress_def by (metis list.simps(4))
next
  case (Cons n ns)
  have "records_only (take n (wu_queue s))" using assms by (auto simp: records_only_def dest: in_set_takeD)
  then have "run_ops B (take n (wu_queue s)) = id" for B by (auto simp: records_run)
  then have "execute_ops n (s\<lparr>wu_progress := ns\<rparr>) = s\<lparr>wu_progress := ns, wu_queue := drop n (wu_queue s)\<rparr>"
    by (simp add: execute_ops_def option.map_id)
  then show ?thesis using Cons by (auto simp: progress_def)
qed

lemma wp_check_records:
  assumes r: "records_only (wu_queue s)"
    and Q: "\<And>prog n cs. set cs \<subseteq> set (wu_calls s) \<Longrightarrow> Q () (effect (s\<lparr>wu_progress := prog, wu_queue := drop n (wu_queue s), wu_calls := cs\<rparr>))"
  shows "wp (check operation effect) Q (\<lambda>e _. call_failed s e) s"
proof -
  obtain prog n where p: "progress s = s\<lparr>wu_progress := prog, wu_queue := drop n (wu_queue s)\<rparr>" using progress_records [OF r] by blast
  show ?thesis
  proof (cases "wu_calls s")
    case Nil
    then have "progress s = s\<lparr>wu_progress := prog, wu_queue := drop n (wu_queue s), wu_calls := []\<rparr>" using p by simp
    then show ?thesis using Q [of "[]" n prog] Nil by (simp add: wp_def check_def cuda_call_def Let_def)
  next
    case (Cons c cs)
    then show ?thesis using Q [of cs n prog] p by (cases c) (auto simp: wp_def check_def cuda_call_def Let_def call_failed_def)
  qed
qed

definition fresh_buffer :: StagingBuffer where
  "fresh_buffer = \<lparr> sb_host = None, sb_reusable = False \<rparr>"

definition ready_buffer :: "CudaDeviceWeightOptions \<Rightarrow> (nat \<Rightarrow> u8) \<Rightarrow> StagingBuffer" where
  "ready_buffer options garbage = \<lparr> sb_host = Some (map garbage [0 ..< unat (co_staging_bytes options)]), sb_reusable = True \<rparr>"

text \<open>The state while buffers are prepared, with \<open>k\<close> of \<open>n\<close> ready.\<close>

definition preparing :: "CudaDeviceWeightOptions \<Rightarrow> DeviceStageIndex \<Rightarrow> string option list \<Rightarrow> u8 list \<Rightarrow> nat \<Rightarrow> nat \<Rightarrow> weight_upload \<Rightarrow> bool" where
  "preparing options index calls arena n k s \<longleftrightarrow> wu_options s = options \<and> wu_index s = index \<and> wu_arena s = Some arena \<and> records_only (wu_queue s) \<and>
     wu_staging s = replicate k (ready_buffer options (wu_garbage s)) @ replicate (n - k) fresh_buffer \<and>
     wu_tensors s = Map.empty \<and> set (wu_calls s) \<subseteq> set calls"

lemma records_more: "records_only q \<Longrightarrow> records_only (drop n q)" "records_only q \<Longrightarrow> records_only (q @ [RecordOp b])"
  by (auto simp: records_only_def dest: in_set_dropD)

lemma wp_prepare_buffer:
  assumes s: "preparing options index calls arena n k s" and k: "k < n"
  shows "wp (prepare_buffer k) (\<lambda>_. preparing options index calls arena n (Suc k)) (\<lambda>e _. \<exists>t. call_failed t e \<and> set (wu_calls t) \<subseteq> set calls) s"
proof -
  let ?fresh = "replicate (n - Suc k) fresh_buffer"
  have split: "replicate (n - k) fresh_buffer = fresh_buffer # ?fresh" using k by (simp add: replicate_Suc [symmetric] Suc_diff_Suc del: replicate_Suc)
  define at where "at = (\<lambda>b (s :: weight_upload). wu_options s = options \<and> wu_index s = index \<and> wu_arena s = Some arena \<and> records_only (wu_queue s) \<and>
     wu_staging s = replicate k (ready_buffer options (wu_garbage s)) @ b (wu_garbage s) # ?fresh \<and> wu_tensors s = Map.empty \<and> set (wu_calls s) \<subseteq> set calls)"
  define failed where "failed = (\<lambda>e (_ :: weight_upload). \<exists>t. call_failed t e \<and> set (wu_calls t) \<subseteq> set calls)"
  have step: "wp (check operation effect) (\<lambda>_. at b') failed s"
    if "at b s" "\<And>t. at b t \<Longrightarrow> at b' (effect t)" for operation effect b b' s
  proof (rule wp_mono [OF wp_check_records])
    show "records_only (wu_queue s)" using that(1) by (simp add: at_def)
    show "at b' (effect (s\<lparr>wu_progress := prog, wu_queue := drop m (wu_queue s), wu_calls := cs\<rparr>))" if "set cs \<subseteq> set (wu_calls s)" for prog m cs
      by (rule \<open>\<And>t. at b t \<Longrightarrow> at b' (effect t)\<close>) (use \<open>at b s\<close> that in \<open>auto simp: at_def records_more\<close>)
  qed (use that(1) in \<open>auto simp: failed_def at_def\<close>)
  let ?host = "\<lambda>garbage. \<lparr> sb_host = Some (map garbage [0 ..< unat (co_staging_bytes options)]), sb_reusable = False \<rparr>"
  have a0: "at (\<lambda>_. fresh_buffer) s" using s by (simp add: at_def preparing_def split)
  have a1: "at ?host (cuda_host_alloc k t)" if "at (\<lambda>_. fresh_buffer) t" for t
    using that by (auto simp: at_def cuda_host_alloc_def set_buffer_def fresh_buffer_def list_update_append nth_append)
  have a2: "at (ready_buffer options) (cuda_event_create k t)" if "at ?host t" for t
    using that by (auto simp: at_def cuda_event_create_def set_buffer_def ready_buffer_def list_update_append nth_append)
  have a3: "at (ready_buffer options) (enqueue (RecordOp k) t)" if "at (ready_buffer options) t" for t
    using that by (auto simp: at_def enqueue_def records_more)
  have later: "wp (thenM (check ''cudaEventCreate(weight staging)'' (cuda_event_create k)) (check ''cudaEventRecord(weight staging initial)'' (enqueue (RecordOp k))))
      (\<lambda>_. at (ready_buffer options)) failed t" if "at ?host t" for t
    by (rule wp_thenI [OF step [OF that a2]]) (assumption, rule step [OF _ a3], assumption+)
  have "wp (prepare_buffer k) (\<lambda>_. at (ready_buffer options)) failed s"
    unfolding prepare_buffer_def by (rule wp_thenI [OF step [OF a0 a1]]) (assumption, rule later, assumption+)
  then show ?thesis
    by (rule wp_mono) (auto simp: failed_def at_def preparing_def replicate_app_Cons_same)
qed

definition some_call_failed :: "string option list \<Rightarrow> exn \<Rightarrow> bool" where
  "some_call_failed calls e \<longleftrightarrow> (\<exists>t. call_failed t e \<and> set (wu_calls t) \<subseteq> set calls)"

lemma wp_prepare_buffers:
  assumes "preparing options index calls arena n k s" "k \<le> n"
  shows "wp (mapM_list prepare_buffer [k ..< n]) (\<lambda>_. preparing options index calls arena n n) (\<lambda>e _. some_call_failed calls e) s"
  using assms
proof (induction "n - k" arbitrary: k s)
  case 0
  then show ?case by (simp add: wp_simps)
next
  case (Suc m)
  then have k: "k < n" by simp
  have "wp (thenM (prepare_buffer k) (mapM_list prepare_buffer [Suc k ..< n])) (\<lambda>_. preparing options index calls arena n n) (\<lambda>e _. some_call_failed calls e) s"
    by (rule wp_thenI [OF wp_prepare_buffer [OF Suc.prems(1) k]]) (use Suc.hyps k in \<open>auto simp: some_call_failed_def\<close>)
  then show ?case using k by (simp only: upt_conv_Cons mapM_list.simps)
qed

lemma preparing_done:
  assumes "preparing options index calls arena (unat (co_staging_buffers options)) (unat (co_staging_buffers options)) s"
  shows "uploading options index s \<and> drained s = arena \<and> wu_tensors s = Map.empty \<and> set (wu_calls s) \<subseteq> set calls"
  using assms by (auto simp: preparing_def equipped_def records_guarded drained_def records_run ready_buffer_def list_all_iff)

text \<open>After the last synchronisation the stream is idle.\<close>

definition idle :: "u8 list \<Rightarrow> (string \<rightharpoonup> CudaTensorView) \<Rightarrow> string option list \<Rightarrow> weight_upload \<Rightarrow> bool" where
  "idle arena tensors calls s \<longleftrightarrow> wu_arena s = Some arena \<and> wu_tensors s = tensors \<and> wu_queue s = [] \<and> set (wu_calls s) \<subseteq> set calls"

definition quiet_effect :: "(weight_upload \<Rightarrow> weight_upload) \<Rightarrow> bool" where
  "quiet_effect f \<longleftrightarrow> (\<forall>s. wu_arena (f s) = wu_arena s \<and> wu_tensors (f s) = wu_tensors s \<and> wu_queue (f s) = wu_queue s \<and> wu_calls (f s) = wu_calls s)"

lemma wp_check_idle:
  assumes "idle arena tensors calls s" "quiet_effect effect"
  shows "wp (check operation effect) (\<lambda>_. idle arena tensors calls) (\<lambda>e _. some_call_failed calls e) s"
  by (rule wp_mono [OF wp_check_records]) (use assms in \<open>auto simp: idle_def records_only_def quiet_effect_def some_call_failed_def\<close>)

lemma wp_modify_idle: "idle arena tensors calls s \<Longrightarrow> quiet_effect f \<Longrightarrow> wp (modifyM f) (\<lambda>_. idle arena tensors calls) E s"
  by (simp add: wp_simps idle_def quiet_effect_def)

lemma quiet_effects:
  "quiet_effect cuda_event_destroy" "quiet_effect cuda_free_host" "quiet_effect cuda_stream_destroy" "quiet_effect (set_buffer b f)"
  "quiet_effect (\<lambda>s. s\<lparr>wu_staging := staging\<rparr>)" "quiet_effect (\<lambda>s. s\<lparr>wu_stream := False\<rparr>)"
  by (simp_all add: quiet_effect_def cuda_event_destroy_def cuda_free_host_def cuda_stream_destroy_def set_buffer_def)

lemma wp_then_idle:
  assumes "wp m (\<lambda>_. idle arena tensors calls) (\<lambda>e _. some_call_failed calls e) s"
    and "\<And>t. idle arena tensors calls t \<Longrightarrow> wp k (\<lambda>_. idle arena tensors calls) (\<lambda>e _. some_call_failed calls e) t"
  shows "wp (thenM m k) (\<lambda>_. idle arena tensors calls) (\<lambda>e _. some_call_failed calls e) s"
  by (rule wp_thenI [OF assms(1)]) (use assms(2) in auto)

lemma wp_retire_buffer: "idle arena tensors calls s \<Longrightarrow> wp (retire_buffer b) (\<lambda>_. idle arena tensors calls) (\<lambda>e _. some_call_failed calls e) s"
  unfolding retire_buffer_def by (intro wp_then_idle wp_check_idle wp_modify_idle quiet_effects)

lemma wp_retire_buffers: "idle arena tensors calls s \<Longrightarrow> wp (mapM_list retire_buffer bs) (\<lambda>_. idle arena tensors calls) (\<lambda>e _. some_call_failed calls e) s"
proof (induction bs arbitrary: s)
  case (Cons b bs)
  show ?case unfolding mapM_list.simps by (rule wp_then_idle [OF wp_retire_buffer [OF Cons.prems] Cons.IH])
qed (simp add: wp_simps)

lemma wp_finish:
  "idle arena tensors calls s \<Longrightarrow> wp (finish_upload n) (\<lambda>_. idle arena tensors calls) (\<lambda>e _. some_call_failed calls e) s"
  unfolding finish_upload_def by (intro wp_then_idle wp_retire_buffers wp_check_idle wp_modify_idle quiet_effects)

text \<open>What a whole upload yields from memory that holds \<open>garbage\<close>.\<close>

definition final_arena :: "DeviceWeightStore \<Rightarrow> (nat \<Rightarrow> u8) \<Rightarrow> planner \<Rightarrow> u8 list" where
  "final_arena source garbage plan =
     fold (write_tensor source (dx_tensors (dw_index source))) (pl_placements plan) (map garbage [0 ..< unat (pl_arena_bytes plan)])"

definition final_views :: "DeviceStageIndex \<Rightarrow> planner \<Rightarrow> string \<rightharpoonup> CudaTensorView" where
  "final_views index plan =
     fold (\<lambda>q m. m(dt_name (dx_tensors index ! tp_tensor q) \<mapsto> placed_view q (dx_tensors index ! tp_tensor q))) (pl_placements plan) Map.empty"

definition options_valid :: "CudaDeviceWeightOptions \<Rightarrow> bool" where
  "options_valid options \<longleftrightarrow> 0 \<le> sint (co_device options) \<and> co_staging_bytes options \<noteq> 0 \<and> 2 \<le> co_staging_buffers options \<and> co_staging_buffers options \<le> 8"

definition store_failed :: "CudaDeviceWeightOptions \<Rightarrow> string option list \<Rightarrow> exn \<Rightarrow> bool" where
  "store_failed options calls e \<longleftrightarrow> some_call_failed calls e \<or>
     co_staging_bytes options < 128 \<and> e = InvalidArgument ''CUDA staging buffer is too small for a MoE W4 tile''"

definition sound_store :: "CudaDeviceWeightOptions \<Rightarrow> DeviceWeightStore \<Rightarrow> bool" where
  "sound_store options source \<longleftrightarrow> distinct (map dt_name (dx_tensors (dw_index source))) \<and>
     (\<forall>t \<in> set (dx_tensors (dw_index source)). resident options t \<longrightarrow> sound_source source t)"

lemma plan_members:
  assumes "plan_weights options variable index = Inr plan" "q \<in> set (pl_placements plan)"
  shows "tp_tensor q < length (dx_tensors index) \<and> resident options (dx_tensors index ! tp_tensor q) \<and>
    placed_inside variable (dx_tensors index) (unat (pl_arena_bytes plan)) q"
proof -
  note p = plan_weights_ok [OF assms(1), THEN conjunct1, unfolded plan_ok_def]
  have "tp_tensor q \<in> set (map tp_tensor (pl_placements plan))" using assms(2) by simp
  then have "tp_tensor q < length (dx_tensors index)" "resident options (dx_tensors index ! tp_tensor q)" using p by auto
  moreover have "set (placed_extents (dx_tensors index) q) \<subseteq> set (weight_extents (dx_tensors index) (pl_placements plan))"
    using assms(2) by (auto simp: weight_extents_def)
  ultimately show ?thesis using p assms(2) unfolding placed_inside_def by blast
qed

lemma plan_names_distinct:
  assumes "plan_weights options variable index = Inr plan" "distinct (map dt_name (dx_tensors index))"
  shows "distinct (map (\<lambda>q. dt_name (dx_tensors index ! tp_tensor q)) (pl_placements plan))"
proof -
  have t: "map tp_tensor (pl_placements plan) = filter (\<lambda>k. resident options (dx_tensors index ! k)) [0 ..< length (dx_tensors index)]"
    using plan_weights_ok [OF assms(1)] by (simp add: plan_ok_def)
  have "inj_on (\<lambda>k. dt_name (dx_tensors index ! k)) {0 ..< length (dx_tensors index)}"
    using assms(2) by (auto simp: inj_on_def distinct_conv_nth) metis
  then have "distinct (map (\<lambda>k. dt_name (dx_tensors index ! k)) (map tp_tensor (pl_placements plan)))"
    unfolding t by (auto simp: distinct_map intro: inj_on_subset)
  then show ?thesis by (simp add: comp_def)
qed

lemma wp_upload_all:
  assumes plan: "plan_weights options variable (dw_index source) = Inr plan" and source: "sound_store options source" and o: "options_valid options"
    and s: "preparing options (dw_index source) calls (map garbage [0 ..< unat (pl_arena_bytes plan)]) (unat (co_staging_buffers options)) 0 s"
  shows "wp (upload_resident source plan (unat (co_staging_buffers options)))
    (\<lambda>_. idle (final_arena source garbage plan) (final_views (dw_index source) plan) calls) (\<lambda>e _. store_failed options calls e) s"
  unfolding upload_resident_def
proof (rule wp_thenI [OF wp_prepare_buffers [OF s]])
  let ?index = "dw_index source"
  let ?Q = "\<lambda>_ :: unit. idle (final_arena source garbage plan) (final_views ?index plan) calls"
  fix t
  assume "preparing options ?index calls (map garbage [0 ..< unat (pl_arena_bytes plan)]) (unat (co_staging_buffers options)) (unat (co_staging_buffers options)) t"
  note t = preparing_done [OF this]
  have ready: "staging_ready options" using o by (auto simp: staging_ready_def options_valid_def word_le_nat_alt)
  have "list_all (\<lambda>q. sound_source source (dx_tensors ?index ! tp_tensor q)) (pl_placements plan)"
    "list_all (placed_inside variable (dx_tensors ?index) (length (drained t))) (pl_placements plan)"
    using plan_members [OF plan] source t by (auto simp: list_all_iff sound_store_def)
  moreover have "distinct (map (\<lambda>q. dt_name (dx_tensors ?index ! tp_tensor q)) (pl_placements plan))"
    using plan_names_distinct [OF plan] source by (simp add: sound_store_def)
  ultimately have up: "wp (mapM_list (upload_tensor source) (pl_placements plan))
    (\<lambda>_. tensor_uploaded options ?index t (final_arena source garbage plan) (final_views ?index plan)) (\<lambda>e _. upload_failed options t e) t"
    using wp_upload_tensors [OF t [THEN conjunct1] ready, of source "pl_placements plan" variable] t by (simp add: final_arena_def final_views_def list_all_iff)
  have sync: "wp (check ''cudaStreamSynchronize(weight upload)'' cuda_stream_synchronize) ?Q (\<lambda>e _. call_failed u e) u"
    if u: "tensor_uploaded options ?index t (final_arena source garbage plan) (final_views ?index plan) u" for u
  proof (rule wp_check)
    show "equipped options ?index u" using u by (simp add: tensor_uploaded_def)
    fix v n
    assume v: "moved options ?index u (drained u) v"
    then have "wu_arena v \<noteq> None" by (simp add: moved_def equipped_def)
    then show "idle (final_arena source garbage plan) (final_views ?index plan) calls (cuda_stream_synchronize v)"
      using v u t by (auto simp: idle_def cuda_stream_synchronize_def execute_ops_def moved_def tensor_uploaded_def drained_def)
  qed
  have calls: "store_failed options calls e" if "upload_failed options u e" "set (wu_calls u) \<subseteq> set calls" for u e
    using that by (auto simp: upload_failed_def store_failed_def some_call_failed_def)
  let ?finish = "finish_upload (unat (co_staging_buffers options))"
  have rest: "wp (thenM (check ''cudaStreamSynchronize(weight upload)'' cuda_stream_synchronize) ?finish) ?Q (\<lambda>e _. store_failed options calls e) u"
    if u: "tensor_uploaded options ?index t (final_arena source garbage plan) (final_views ?index plan) u" for u
  proof (rule wp_thenI [OF sync [OF u]])
    fix v
    assume "idle (final_arena source garbage plan) (final_views ?index plan) calls v"
    from wp_finish [OF this] show "wp ?finish ?Q (\<lambda>e _. store_failed options calls e) v" by (rule wp_mono) (auto simp: store_failed_def)
  next
    fix e v
    assume "call_failed u e"
    then show "store_failed options calls e" using calls [of u e] u t by (auto simp: upload_failed_def tensor_uploaded_def)
  qed
  show "wp (thenM (mapM_list (upload_tensor source) (pl_placements plan)) (thenM (check ''cudaStreamSynchronize(weight upload)'' cuda_stream_synchronize) ?finish))
      ?Q (\<lambda>e _. store_failed options calls e) t"
    by (rule wp_thenI [OF up rest]) (use calls t in auto)
qed (auto simp: store_failed_def)

text \<open>The state before there are buffers.\<close>

definition booting :: "CudaDeviceWeightOptions \<Rightarrow> (nat \<Rightarrow> u8) \<Rightarrow> string option list \<Rightarrow> DeviceStageIndex \<Rightarrow> u8 list option \<Rightarrow> weight_upload \<Rightarrow> bool" where
  "booting options garbage calls index arena t \<longleftrightarrow> wu_options t = options \<and> wu_queue t = [] \<and> wu_tensors t = Map.empty \<and> wu_garbage t = garbage \<and>
     wu_index t = index \<and> wu_arena t = arena \<and> set (wu_calls t) \<subseteq> set calls"

lemma wp_check_booting:
  assumes t: "booting options garbage calls index arena t"
    and f: "\<And>u. booting options garbage calls index arena u \<Longrightarrow> booting options garbage calls index arena' (effect u)"
  shows "wp (check operation effect) (\<lambda>_. booting options garbage calls index arena') (\<lambda>e _. store_failed options calls e) t"
proof (rule wp_mono [OF wp_check_records])
  show "booting options garbage calls index arena' (effect (t\<lparr>wu_progress := p, wu_queue := drop n (wu_queue t), wu_calls := cs\<rparr>))"
    if "set cs \<subseteq> set (wu_calls t)" for p n cs
    by (rule f) (use t that in \<open>auto simp: booting_def\<close>)
qed (use t in \<open>auto simp: booting_def records_only_def store_failed_def some_call_failed_def\<close>)

lemma wp_allocate:
  assumes plan: "plan_weights options variable (dw_index source) = Inr plan" and source: "sound_store options source" and o: "options_valid options"
    and t: "booting options garbage calls (dw_index source) None t"
  shows "wp (fill_arena source plan) (\<lambda>_. idle (final_arena source garbage plan) (final_views (dw_index source) plan) calls) (\<lambda>e _. store_failed options calls e) t"
  unfolding fill_arena_def
proof (rule wp_thenI [OF wp_check_booting [OF t, where arena' = "Some (map garbage [0 ..< unat (pl_arena_bytes plan)])"]], goal_cases malloc create failed)
  case (malloc u)
  then show "booting options garbage calls (dw_index source) (Some (map garbage [0 ..< unat (pl_arena_bytes plan)])) (cuda_malloc_arena (pl_arena_bytes plan) u)"
    by (simp add: booting_def cuda_malloc_arena_def)
next
  case (create x u)
  show ?case
  proof (rule wp_thenI [OF wp_check_booting [OF create, where arena' = "Some (map garbage [0 ..< unat (pl_arena_bytes plan)])"]], goal_cases stream rest failed)
    case (stream v)
    then show "booting options garbage calls (dw_index source) (Some (map garbage [0 ..< unat (pl_arena_bytes plan)])) (cuda_stream_create v)"
      by (simp add: booting_def cuda_stream_create_def)
  next
    case (rest y v)
    then have "preparing options (dw_index source) calls (map garbage [0 ..< unat (pl_arena_bytes plan)]) (unat (co_staging_buffers options)) 0 (resize_staging v)"
      by (simp add: booting_def preparing_def resize_staging_def records_only_def fresh_buffer_def)
    from wp_upload_all [OF plan source o this] rest show ?case
      by (simp only: wp_thenM [of "modifyM resize_staging"] wp_modifyM wp_bindM wp_getM) (simp add: resize_staging_def booting_def)
  qed
qed

lemma wp_initialize:
  assumes source: "sound_store options source"
  shows "wp (initialize variable source)
    (\<lambda>_ t. options_valid options \<and> (\<exists>plan. plan_weights options variable (dw_index source) = Inr plan \<and>
      idle (final_arena source garbage plan) (final_views (dw_index source) plan) calls t))
    (\<lambda>e _. \<not> options_valid options \<and> e = InvalidArgument ''invalid CUDA device weight options'' \<or>
      options_valid options \<and> (plan_weights options variable (dw_index source) = Inl e \<or> store_failed options calls e))
    (new_weight_upload options garbage prog calls)"
proof (cases "options_valid options")
  case False
  then have "sint (co_device options) < 0 \<or> co_staging_bytes options = 0 \<or> co_staging_buffers options < 2 \<or> co_staging_buffers options > 8"
    by (auto simp: options_valid_def not_le)
  then show ?thesis using False by (simp add: initialize_def wp_simps new_weight_upload_def)
next
  case True
  let ?s = "new_weight_upload options garbage prog calls" and ?index = "dw_index source"
  let ?bad = "\<lambda>s. sint (co_device (wu_options s)) < 0 \<or> co_staging_bytes (wu_options s) = 0 \<or> co_staging_buffers (wu_options s) < 2 \<or> co_staging_buffers (wu_options s) > 8"
  let ?Q = "\<lambda>_ t. options_valid options \<and> (\<exists>plan. plan_weights options variable ?index = Inr plan \<and>
      idle (final_arena source garbage plan) (final_views ?index plan) calls t)"
  let ?E = "\<lambda>e _. \<not> options_valid options \<and> e = InvalidArgument ''invalid CUDA device weight options'' \<or>
      options_valid options \<and> (plan_weights options variable ?index = Inl e \<or> store_failed options calls e)"
  have good: "\<not> ?bad ?s" using True by (simp add: options_valid_def new_weight_upload_def not_less)
  have s: "booting options garbage calls (empty_device_index []) None ?s" by (simp add: booting_def new_weight_upload_def)
  have fill: "wp (bindM (liftE (\<lambda>s. plan_weights (wu_options s) variable ?index)) (\<lambda>plan.
      thenM (modifyM (\<lambda>s. s\<lparr>wu_statistics := pl_statistics plan\<rparr>)) (fill_arena source plan))) ?Q ?E t"
    if t: "booting options garbage calls ?index None t" for t
  proof (cases "plan_weights options variable ?index")
    case (Inl e)
    then show ?thesis using t True by (simp add: wp_simps booting_def)
  next
    case (Inr plan)
    have "booting options garbage calls ?index None (t\<lparr>wu_statistics := pl_statistics plan\<rparr>)" using t by (simp add: booting_def)
    from wp_allocate [OF Inr source True this]
    have "wp (fill_arena source plan) ?Q ?E (t\<lparr>wu_statistics := pl_statistics plan\<rparr>)" by (rule wp_mono) (use Inr True in auto)
    then show ?thesis using t Inr by (simp add: wp_simps booting_def)
  qed
  have "wp (thenM (check ''cudaSetDevice(weight upload)'' id) (thenM (modifyM (\<lambda>s. s\<lparr>wu_index := ?index, wu_stage := dx_stage ?index\<rparr>))
    (bindM (liftE (\<lambda>s. plan_weights (wu_options s) variable ?index)) (\<lambda>plan.
      thenM (modifyM (\<lambda>s. s\<lparr>wu_statistics := pl_statistics plan\<rparr>)) (fill_arena source plan))))) ?Q ?E ?s"
  proof (rule wp_thenI [OF wp_check_booting [OF s, where arena' = None]], goal_cases device rest failed)
    case (device u)
    then show ?case by simp
  next
    case (rest x t)
    then have "booting options garbage calls ?index None (t\<lparr>wu_index := ?index, wu_stage := dx_stage ?index\<rparr>)" by (simp add: booting_def)
    from fill [OF this] show ?case by (simp only: wp_thenM wp_modifyM)
  next
    case (failed e t)
    then show ?case using True by simp
  qed
  then show ?thesis using good by (simp only: initialize_def wp_thenM [of "failIf _ _"] wp_failIf if_False)
qed

section \<open>Reading the arena\<close>

definition region :: "'a list \<Rightarrow> nat \<Rightarrow> nat \<Rightarrow> 'a list" where
  "region xs offset n = take n (drop offset xs)"

lemma region_written: "offset + length ys \<le> length xs \<Longrightarrow> region (overwrite xs offset ys) offset (length ys) = ys"
  by (simp add: region_def overwrite_def)

lemma region_before: "a + n \<le> offset \<Longrightarrow> offset \<le> length xs \<Longrightarrow> region (overwrite xs offset ys) a n = region xs a n"
  by (simp add: region_def overwrite_def drop_take min_absorb1)

lemma write_tensor_before:
  assumes "\<forall>f \<in> set (placed_extents ts q). extent_before (a, n) f" "sound_source source (ts ! tp_tensor q)" "placed_inside variable ts (length arena) q"
  shows "region (write_tensor source ts q arena) a n = region arena a n"
proof -
  let ?t = "ts ! tp_tensor q"
  have v: "validate_tensor_layout ?t = Inr ()" "unat (dt_data_bytes ?t) \<le> length (dv_data (source_view source ?t))" using assms(2) by (auto simp: sound_source_def)
  have l: "tp_layout q = (if should_tile_moe_w4 variable ?t then MoeW4Tile16x16 else RowMajor)" "unat (tp_data_offset q) + unat (dt_data_bytes ?t) \<le> length arena"
    "dt_scale_bytes ?t \<noteq> 0 \<longrightarrow> unat (tp_scale_offset q) + unat (dt_scale_bytes ?t) \<le> length arena"
    using assms(3) by (auto simp: placed_inside_def placed_extents_def Let_def)
  have b: "a + n \<le> unat (tp_data_offset q)" "dt_scale_bytes ?t \<noteq> 0 \<longrightarrow> a + n \<le> unat (tp_scale_offset q)"
    using assms(1) by (auto simp: placed_extents_def Let_def extent_before_def)
  let ?arena = "overwrite arena (unat (tp_data_offset q)) (device_image (tp_layout q) ?t (dv_data (source_view source ?t)))"
  have "length ?arena = length arena" using l(2) device_image_length [OF v(1) l(1) v(2)] by (simp add: length_overwrite)
  moreover have "region ?arena a n = region arena a n" using b(1) l(2) by (simp add: region_before)
  ultimately show ?thesis using l(3) b(2) by (cases "dt_scale_bytes ?t = 0") (simp_all add: write_tensor_def with_scales_def Let_def region_before)
qed

lemma fold_write_before:
  assumes "\<forall>f \<in> set (weight_extents ts qs). extent_before (a, n) f" "list_all (\<lambda>q. sound_source source (ts ! tp_tensor q)) qs"
    "list_all (placed_inside variable ts (length arena)) qs"
  shows "region (fold (write_tensor source ts) qs arena) a n = region arena a n"
  using assms
proof (induction qs arbitrary: arena)
  case (Cons q qs)
  have q: "\<forall>f \<in> set (placed_extents ts q). extent_before (a, n) f" "sound_source source (ts ! tp_tensor q)" "placed_inside variable ts (length arena) q"
    using Cons.prems by (auto simp: weight_extents_def)
  have "region (fold (write_tensor source ts) qs (write_tensor source ts q arena)) a n = region (write_tensor source ts q arena) a n"
    by (rule Cons.IH) (use Cons.prems write_tensor_length [OF q(2,3)] in \<open>auto simp: weight_extents_def\<close>)
  then show ?case using write_tensor_before [OF q] by simp
qed simp

text \<open>What a tensor's extents hold when its image is in place.\<close>

definition holds_tensor :: "DeviceWeightStore \<Rightarrow> DeviceTensor list \<Rightarrow> TensorPlacement \<Rightarrow> u8 list \<Rightarrow> bool" where
  "holds_tensor source ts q arena \<longleftrightarrow> (let t = ts ! tp_tensor q; view = source_view source t in
     region arena (unat (tp_data_offset q)) (unat (dt_data_bytes t)) = device_image (tp_layout q) t (dv_data view) \<and>
     (dt_scale_bytes t \<noteq> 0 \<longrightarrow> region arena (unat (tp_scale_offset q)) (unat (dt_scale_bytes t)) = take (unat (dt_scale_bytes t)) (the (dv_scales view))))"

lemma write_tensor_holds:
  assumes "sound_source source (ts ! tp_tensor q)" "placed_inside variable ts (length arena) q" "sorted_wrt extent_before (placed_extents ts q)"
  shows "holds_tensor source ts q (write_tensor source ts q arena)"
proof -
  let ?t = "ts ! tp_tensor q"
  have v: "validate_tensor_layout ?t = Inr ()" "unat (dt_data_bytes ?t) \<le> length (dv_data (source_view source ?t))"
    "dt_scale_bytes ?t \<noteq> 0 \<longrightarrow> unat (dt_scale_bytes ?t) \<le> length (the (dv_scales (source_view source ?t)))"
    using assms(1) by (auto simp: sound_source_def)
  have l: "tp_layout q = (if should_tile_moe_w4 variable ?t then MoeW4Tile16x16 else RowMajor)" "unat (tp_data_offset q) + unat (dt_data_bytes ?t) \<le> length arena"
    "dt_scale_bytes ?t \<noteq> 0 \<longrightarrow> unat (tp_scale_offset q) + unat (dt_scale_bytes ?t) \<le> length arena"
    using assms(2) by (auto simp: placed_inside_def placed_extents_def Let_def)
  have b: "dt_scale_bytes ?t \<noteq> 0 \<longrightarrow> unat (tp_data_offset q) + unat (dt_data_bytes ?t) \<le> unat (tp_scale_offset q)"
    using assms(3) by (auto simp: placed_extents_def Let_def extent_before_def)
  let ?image = "device_image (tp_layout q) ?t (dv_data (source_view source ?t))"
  let ?scales = "take (unat (dt_scale_bytes ?t)) (the (dv_scales (source_view source ?t)))"
  let ?arena = "overwrite arena (unat (tp_data_offset q)) ?image"
  have n: "length ?image = unat (dt_data_bytes ?t)" by (rule device_image_length [OF v(1) l(1) v(2)])
  have len: "length ?arena = length arena" using l(2) n by (simp add: length_overwrite)
  have data: "region ?arena (unat (tp_data_offset q)) (unat (dt_data_bytes ?t)) = ?image"
    using region_written [of "unat (tp_data_offset q)" ?image arena] l(2) n by simp
  show ?thesis
  proof (cases "dt_scale_bytes ?t = 0")
    case False
    have m: "length ?scales = unat (dt_scale_bytes ?t)" using v(3) False by simp
    have "region (overwrite ?arena (unat (tp_scale_offset q)) ?scales) (unat (tp_scale_offset q)) (unat (dt_scale_bytes ?t)) = ?scales"
      using region_written [of "unat (tp_scale_offset q)" ?scales ?arena] l(3) len m False by simp
    moreover have "region (overwrite ?arena (unat (tp_scale_offset q)) ?scales) (unat (tp_data_offset q)) (unat (dt_data_bytes ?t)) = ?image"
      using region_before [of "unat (tp_data_offset q)" "unat (dt_data_bytes ?t)" "unat (tp_scale_offset q)" ?arena ?scales] b l(3) len False data by simp
    ultimately show ?thesis using False by (simp add: holds_tensor_def write_tensor_def with_scales_def Let_def)
  qed (use data in \<open>simp add: holds_tensor_def write_tensor_def with_scales_def Let_def\<close>)
qed

lemma fold_write_holds:
  assumes "sorted_wrt extent_before (weight_extents ts qs)" "list_all (\<lambda>q. sound_source source (ts ! tp_tensor q)) qs"
    "list_all (placed_inside variable ts (length arena)) qs" "q \<in> set qs"
  shows "holds_tensor source ts q (fold (write_tensor source ts) qs arena)"
  using assms
proof (induction qs arbitrary: arena)
  case (Cons p ps)
  have p: "sound_source source (ts ! tp_tensor p)" "placed_inside variable ts (length arena) p" "sorted_wrt extent_before (placed_extents ts p)"
    "\<forall>e \<in> set (placed_extents ts p). \<forall>f \<in> set (weight_extents ts ps). extent_before e f"
    using Cons.prems by (auto simp: weight_extents_def sorted_wrt_append)
  let ?arena = "write_tensor source ts p arena"
  have len: "length ?arena = length arena" by (rule write_tensor_length [OF p(1,2)])
  have ps: "list_all (\<lambda>q. sound_source source (ts ! tp_tensor q)) ps" "list_all (placed_inside variable ts (length ?arena)) ps"
    using Cons.prems len by simp_all
  show ?case
  proof (cases "q \<in> set ps")
    case True
    then have "holds_tensor source ts q (fold (write_tensor source ts) ps ?arena)"
      using Cons.IH [OF _ ps] Cons.prems(1) by (simp add: weight_extents_def sorted_wrt_append)
    then show ?thesis by simp
  next
    case False
    then have q: "q = p" using Cons.prems(4) by simp
    have "region (fold (write_tensor source ts) ps ?arena) (fst e) (snd e) = region ?arena (fst e) (snd e)" if "e \<in> set (placed_extents ts p)" for e
      by (rule fold_write_before [OF _ ps]) (use p(4) that in auto)
    then show ?thesis using write_tensor_holds [OF p(1-3)] by (auto simp: q holds_tensor_def placed_extents_def Let_def)
  qed
qed simp

section \<open>The views\<close>

lemma fold_views:
  assumes "distinct (map f qs)"
  shows "fold (\<lambda>q m. m(f q \<mapsto> g q)) qs m x = (if x \<in> f ` set qs then map_of (map (\<lambda>q. (f q, g q)) qs) x else m x)"
  using assms
proof (induction qs arbitrary: m)
  case (Cons q qs)
  then show ?case by (auto simp: map_of_eq_None_iff)
qed simp

lemma final_views_placed:
  assumes "plan_weights options variable index = Inr plan" "distinct (map dt_name (dx_tensors index))" "q \<in> set (pl_placements plan)"
  shows "final_views index plan (dt_name (dx_tensors index ! tp_tensor q)) = Some (placed_view q (dx_tensors index ! tp_tensor q))"
proof -
  let ?f = "\<lambda>q. dt_name (dx_tensors index ! tp_tensor q)" and ?g = "\<lambda>q. placed_view q (dx_tensors index ! tp_tensor q)"
  note d = plan_names_distinct [OF assms(1,2)]
  have "map_of (map (\<lambda>q. (?f q, ?g q)) (pl_placements plan)) (?f q) = Some (?g q)"
    by (rule map_of_is_SomeI) (use d assms(3) in \<open>simp_all add: comp_def\<close>)
  then show ?thesis unfolding final_views_def fold_views [OF d] using assms(3) by simp
qed

lemma resident_placed:
  assumes "plan_weights options variable index = Inr plan" "t \<in> set (dx_tensors index)" "resident options t"
  shows "\<exists>q \<in> set (pl_placements plan). dx_tensors index ! tp_tensor q = t"
proof -
  from assms(2) obtain k where k: "k < length (dx_tensors index)" "dx_tensors index ! k = t" by (auto simp: in_set_conv_nth)
  have "map tp_tensor (pl_placements plan) = filter (\<lambda>k. resident options (dx_tensors index ! k)) [0 ..< length (dx_tensors index)]"
    using plan_weights_ok [OF assms(1)] by (simp add: plan_ok_def)
  then have "k \<in> set (map tp_tensor (pl_placements plan))" using k assms(3) by simp
  then show ?thesis using k(2) by auto
qed

lemma final_views_other:
  assumes "plan_weights options variable index = Inr plan" "distinct (map dt_name (dx_tensors index))"
    "\<not> (\<exists>t \<in> set (dx_tensors index). resident options t \<and> dt_name t = name)"
  shows "final_views index plan name = None"
proof -
  note d = plan_names_distinct [OF assms(1,2)]
  have "name \<notin> (\<lambda>q. dt_name (dx_tensors index ! tp_tensor q)) ` set (pl_placements plan)"
    using assms(3) plan_members [OF assms(1)] by (metis (no_types, lifting) imageE nth_mem)
  then show ?thesis unfolding final_views_def fold_views [OF d] by simp
qed

text \<open>Every tensor of an index that was read passed the layout check.\<close>

lemma device_line_layouts:
  assumes "device_line file_size verify k line r = Inr r'" "list_all (\<lambda>t. validate_tensor_layout t = Inr ()) (dx_tensors (dr_index r))"
  shows "list_all (\<lambda>t. validate_tensor_layout t = Inr ()) (dx_tensors (dr_index r'))"
proof -
  let ?columns = "split_fields (CHR 0x09) line"
  consider (skip) "r' = r" | (header) "device_header_line line r = Inr r'"
    | (segment) "device_segment_line file_size verify k ?columns r = Inr r'" | (tensor) "device_tensor_line k ?columns r = Inr r'"
    using assms(1) unfolding device_line_def Let_def by (metis sum.inject(2))
  then show ?thesis
  proof cases
    case header
    then show ?thesis using assms(2) by (auto simp: device_header_line_def device_header_def Let_def bindE_Inr_iff split: if_splits)
  next
    case segment
    then show ?thesis using assms(2) by (auto simp: device_segment_line_def Let_def bindE_Inr_iff)
  next
    case tensor
    then show ?thesis using assms(2) by (auto simp: device_tensor_line_def Let_def bindE_Inr_iff)
  qed (use assms(2) in simp)
qed

lemma device_lines_layouts:
  "device_lines file_size verify k lines r = Inr r' \<Longrightarrow> list_all (\<lambda>t. validate_tensor_layout t = Inr ()) (dx_tensors (dr_index r)) \<Longrightarrow>
    list_all (\<lambda>t. validate_tensor_layout t = Inr ()) (dx_tensors (dr_index r'))"
  by (induction lines arbitrary: k r) (auto simp: bindE_Inr_iff intro: device_line_layouts)

lemma load_device_layouts:
  assumes "load_device_stage_index file_size directory path contents verify = Inr index"
  shows "list_all (\<lambda>t. validate_tensor_layout t = Inr ()) (dx_tensors index)"
proof -
  from assms obtain k lines r where "device_lines file_size verify k lines \<lparr> dr_index = empty_device_index directory, dr_headers = {}, dr_names = {} \<rparr> = Inr r" "index = dr_index r"
    by (auto simp: load_device_stage_index_def Let_def bindE_Inr_iff split: option.splits list.splits)
  then show ?thesis using device_lines_layouts by (fastforce simp: empty_device_index_def)
qed

lemma loaded_store_sound:
  assumes l: "load_device_stage_index file_size directory path contents verify = Inr index" and st: "new_device_store files index = Inr source"
  shows "dw_index source = index \<and> sound_store options source"
proof -
  have i: "dw_index source = index" using st by (auto simp: new_device_store_def bindE_Inr_iff)
  have ok: "device_index_ok index" using load_device_index_ok [OF l] by simp
  have "sound_source source t" if t: "t \<in> set (dx_tensors index)" for t
  proof -
    from device_find_view [OF ok st t] obtain bytes where f: "device_find source (dt_name t) = Some \<lparr> dv_descriptor = t, dv_data = drop (unat (dt_data_offset t)) bytes,
        dv_scales = (if dt_scale_bytes t = 0 then None else Some (drop (unat (dt_scale_offset t)) bytes)) \<rparr>"
      "unat (dt_data_offset t) + unat (dt_data_bytes t) \<le> length bytes" "unat (dt_scale_offset t) + unat (dt_scale_bytes t) \<le> length bytes" by blast
    moreover have "validate_tensor_layout t = Inr ()" using load_device_layouts [OF l] t by (simp add: list_all_iff)
    ultimately show ?thesis by (auto simp: sound_source_def source_view_def device_require_def)
  qed
  then show ?thesis using i ok by (simp add: sound_store_def device_index_ok_def)
qed

section \<open>Properties\<close>

text \<open>
  C25: The upload puts every resident weight on the device exactly as its file has it, whenever the device makes its
  copies. Once the store is made, no copy is outstanding; the view of a resident tensor names an extent of
  the arena that holds the image of the tensor's bytes in its layout, and its scales byte by byte; a tensor left
  to the host or excluded, and any other name, is refused.
\<close>

theorem cuda_upload_exact:
  assumes "load_device_stage_index file_size directory path contents verify = Inr index" and "new_device_store files index = Inr source"
    and "cuda_weight_store variable source (new_weight_upload options garbage prog calls) = (Inr (), s)"
  shows "\<exists>arena. wu_arena s = Some arena \<and> wu_queue s = [] \<and>
    (\<forall>t \<in> set (dx_tensors index). resident options t \<longrightarrow> (\<exists>host view. device_require source (dt_name t) = Inr host \<and>
      cuda_require s (dt_name t) = Inr view \<and> cv_descriptor view = Some t \<and>
      cv_layout view = (if should_tile_moe_w4 variable t then MoeW4Tile16x16 else RowMajor) \<and>
      region arena (unat (the (cv_data view))) (unat (dt_data_bytes t)) = device_image (cv_layout view) t (dv_data host) \<and>
      (dt_scale_bytes t \<noteq> 0 \<longrightarrow> region arena (unat (the (cv_scales view))) (unat (dt_scale_bytes t)) = take (unat (dt_scale_bytes t)) (the (dv_scales host))))) \<and>
    (\<forall>name. \<not> (\<exists>t \<in> set (dx_tensors index). resident options t \<and> dt_name t = name) \<longrightarrow>
      cuda_require s name = Inl (RuntimeError (''missing CUDA tensor: '' @ name)))"
proof -
  have i: "dw_index source = index" and sound: "sound_store options source" using loaded_store_sound [OF assms(1,2)] by blast+
  have "initialize variable source (new_weight_upload options garbage prog calls) = (Inr (), s)"
    using assms(3) by (auto simp: cuda_weight_store_def split: prod.splits sum.splits)
  from wp_returns [OF wp_initialize [OF sound] this] obtain plan where plan: "plan_weights options variable index = Inr plan"
    and idle: "idle (final_arena source garbage plan) (final_views index plan) calls s" unfolding i by blast
  have d: "distinct (map dt_name (dx_tensors index))" using sound i by (simp add: sound_store_def)
  let ?arena = "final_arena source garbage plan"
  have "\<exists>host view. device_require source (dt_name t) = Inr host \<and> cuda_require s (dt_name t) = Inr view \<and> cv_descriptor view = Some t \<and>
      cv_layout view = (if should_tile_moe_w4 variable t then MoeW4Tile16x16 else RowMajor) \<and>
      region ?arena (unat (the (cv_data view))) (unat (dt_data_bytes t)) = device_image (cv_layout view) t (dv_data host) \<and>
      (dt_scale_bytes t \<noteq> 0 \<longrightarrow> region ?arena (unat (the (cv_scales view))) (unat (dt_scale_bytes t)) = take (unat (dt_scale_bytes t)) (the (dv_scales host)))"
    if t: "t \<in> set (dx_tensors index)" "resident options t" for t
  proof -
    obtain q where q: "q \<in> set (pl_placements plan)" "dx_tensors index ! tp_tensor q = t" using resident_placed [OF plan t] by blast
    have "list_all (\<lambda>q. sound_source source (dx_tensors index ! tp_tensor q)) (pl_placements plan)"
      "list_all (placed_inside variable (dx_tensors index) (length (map garbage [0 ..< unat (pl_arena_bytes plan)]))) (pl_placements plan)"
      using plan_members [OF plan] sound i by (auto simp: list_all_iff sound_store_def)
    moreover have "sorted_wrt extent_before (weight_extents (dx_tensors index) (pl_placements plan))" using plan_weights_ok [OF plan] by (simp add: plan_ok_def)
    ultimately have h: "holds_tensor source (dx_tensors index) q ?arena" using fold_write_holds q(1) i by (simp add: final_arena_def)
    have "wu_tensors s (dt_name t) = Some (placed_view q t)" using final_views_placed [OF plan d q(1)] idle q(2) by (simp add: idle_def)
    then have "cuda_require s (dt_name t) = Inr (placed_view q t)" by (simp add: cuda_require_def cuda_find_def placed_view_def)
    moreover have "device_require source (dt_name t) = Inr (source_view source t)" using sound i t by (auto simp: sound_store_def sound_source_def)
    moreover have "tp_layout q = (if should_tile_moe_w4 variable t then MoeW4Tile16x16 else RowMajor)"
      using plan_members [OF plan q(1)] q(2) by (simp add: placed_inside_def)
    ultimately show ?thesis using h q(2) by (auto simp: holds_tensor_def placed_view_def Let_def)
  qed
  moreover have "cuda_require s name = Inl (RuntimeError (''missing CUDA tensor: '' @ name))"
    if "\<not> (\<exists>t \<in> set (dx_tensors index). resident options t \<and> dt_name t = name)" for name
    using final_views_other [OF plan d that] idle by (simp add: cuda_require_def cuda_find_def empty_cuda_view_def idle_def)
  ultimately show ?thesis using idle unfolding idle_def by blast
qed

text \<open>
  C29: The tiles of an expert tensor are a rearrangement of its rows. In the image of a tiled tensor, the byte of
  matrix \<open>a\<close>, row \<open>r\<close> and packed pair \<open>p\<close> is in tile \<open>(a, r div 16, p div 8)\<close> at row \<open>r mod 16\<close> and pair \<open>p mod 8\<close>, and is the byte that the row-major
  source has for the same matrix, row and pair; the image is as long as the data.
\<close>

theorem cuda_tile_order:
  assumes "validate_tensor_layout t = Inr ()" and "should_tile_moe_w4 variable t" and "unat (dt_data_bytes t) \<le> length host"
    and "a < unat (dt_shape t ! 0)" and "r < unat (dt_shape t ! 1)" and "p < unat (dt_shape t ! 2) div 2"
  shows "device_image MoeW4Tile16x16 t host !
      (128 * ((a * (unat (dt_shape t ! 1) div 16) + r div 16) * (unat (dt_shape t ! 2) div 16) + p div 8) + (8 * (r mod 16) + p mod 8)) =
      host ! ((a * unat (dt_shape t ! 1) + r) * (unat (dt_shape t ! 2) div 2) + p) \<and>
    length (device_image MoeW4Tile16x16 t host) = unat (dt_data_bytes t)"
proof -
  let ?R = "unat (dt_shape t ! 1) div 16" and ?C = "unat (dt_shape t ! 2) div 16"
  have s: "tile_shape host (dt_shape t ! 1) (dt_shape t ! 2) (unat (dt_shape t ! 0)) ?R ?C"
    using tiled_tensor [OF assms(1-3)] by (simp add: tile_rows_of_def tile_columns_of_def)
  have m: "dt_shape t ! 1 mod 16 = 0" "dt_shape t ! 2 mod 16 = 0" using assms(2) by (auto simp: should_tile_moe_w4_def split: if_splits)
  have "16 dvd unat x" if "x mod 16 = 0" for x :: u64 using arg_cong [OF that, of unat] by (simp add: unat_mod mod_eq_0_iff_dvd)
  from this [OF m(1)] this [OF m(2)]
  have r: "16 * ?R = unat (dt_shape t ! 1)" "8 * ?C = unat (dt_shape t ! 2) div 2" by auto
  have "r < 16 * ?R" "p < 8 * ?C" using assms(5,6) by (simp_all only: r)
  from tiles_permute [OF s assms(4) this]
  have "device_image MoeW4Tile16x16 t host ! (128 * ((a * ?R + r div 16) * ?C + p div 8) + (8 * (r mod 16) + p mod 8)) =
      host ! ((a * unat (dt_shape t ! 1) + r) * (unat (dt_shape t ! 2) div 2) + p)"
    unfolding r by (simp only: device_image_def if_True refl tile_count_def tile_rows_of_def tile_columns_of_def)
  moreover have "length (device_image MoeW4Tile16x16 t host) = unat (dt_data_bytes t)"
    using device_image_length [OF assms(1) _ assms(3), of MoeW4Tile16x16 variable] assms(2) by simp
  ultimately show ?thesis by blast
qed

lemma store_made:
  assumes "load_device_stage_index file_size directory path contents verify = Inr index" "new_device_store files index = Inr source"
    "options_valid options" "128 \<le> co_staging_bytes options" "plan_weights options variable index = Inr plan" "list_all (\<lambda>c. c = None) calls"
  shows "fst (cuda_weight_store variable source (new_weight_upload options garbage prog calls)) = Inr ()"
proof -
  have i: "dw_index source = index" and sound: "sound_store options source" using loaded_store_sound [OF assms(1,2)] by blast+
  have "\<not> store_failed options calls e" for e
    using assms(4,6) by (auto simp: store_failed_def some_call_failed_def call_failed_def list_all_iff)
  then have "\<not> (\<exists>e t. initialize variable source (new_weight_upload options garbage prog calls) = (Inl e, t))"
    using wp_fails [OF wp_initialize [OF sound]] assms(3,5) i by fastforce
  then show ?thesis by (auto simp: cuda_weight_store_def split: prod.splits sum.splits)
qed

text \<open>
  C28: The upload comes to its end. With valid options, staging buffers that hold a tile, a plan that fits and
  calls that do not fail, the store is made, whatever the device does in between.
\<close>

theorem cuda_upload_completes:
  assumes "load_device_stage_index file_size directory path contents verify = Inr index" and "new_device_store files index = Inr source"
    and "options_valid options" and "128 \<le> co_staging_bytes options" and "plan_weights options variable index = Inr plan"
    and "list_all (\<lambda>c. c = None) calls"
  shows "fst (cuda_weight_store variable source (new_weight_upload options garbage prog calls)) = Inr ()"
  by (rule store_made [OF assms])

definition demo_store :: DeviceWeightStore where
  "demo_store = \<lparr> dw_index = demo_device ''0'', dw_mappings = [replicate 256 7 @ [1, 2, 3, 4]], dw_tensor_by_name = [''token_embd.weight'' \<mapsto> 0] \<rparr>"

lemma demo_store_made: "new_device_store demo_files (demo_device ''0'') = Inr demo_store"
  by (simp add: new_device_store_def demo_device_def map_segment_def demo_files_def path_join_def demo_store_def demo_tensor_def)

lemma demo_loaded: "load_device_stage_index (\<lambda>_. Inr 260) ''d'' ''i'' (Some (demo_device_text ''0'')) True = Inr (demo_device ''0'')"
  by (rule demo_device_load) simp

definition demo_small_plan :: planner where
  "demo_small_plan = \<lparr> pl_arena_bytes = 4096, pl_placements = [\<lparr> tp_tensor = 0, tp_data_offset = 0, tp_scale_offset = 256, tp_layout = RowMajor \<rparr>],
     pl_statistics = empty_weight_stats\<lparr>cs_segment_count := 1, cs_w8_bytes := 260, cs_tensor_count := 1, cs_arena_bytes := 4096\<rparr> \<rparr>"

lemma demo_small_planned: "plan_weights demo_options None (demo_device ''0'') = Inr demo_small_plan"
  by (simp add: plan_weights_def plan_tensor_def excluded_def place_resident_def count_resident_def align_up_def reserve_def place_scales_def
      should_tile_moe_w4_def demo_small_plan_def demo_options_def demo_tensor_def demo_device_def empty_weight_stats_def Let_def)

lemma demo_options_fit: "options_valid demo_options" "128 \<le> co_staging_bytes demo_options"
  by (simp_all add: options_valid_def demo_options_def)

theorem cuda_upload_completes_witness:
  "fst (cuda_weight_store None demo_store (new_weight_upload demo_options (\<lambda>_. 9) [1, 0, 2] [None])) = Inr ()"
  by (rule cuda_upload_completes [OF demo_loaded demo_store_made demo_options_fit demo_small_planned]) simp

theorem cuda_upload_exact_witness:
  "\<exists>s arena view. cuda_weight_store None demo_store (new_weight_upload demo_options (\<lambda>_. 9) [1, 0, 2] [None]) = (Inr (), s) \<and> wu_arena s = Some arena \<and>
     cuda_require s ''token_embd.weight'' = Inr view \<and> region arena (unat (the (cv_scales view))) 4 = [1, 2, 3, 4]"
proof -
  have "fst (cuda_weight_store None demo_store (new_weight_upload demo_options (\<lambda>_. 9) [1, 0, 2] [None])) = Inr ()"
    by (rule store_made [OF demo_loaded demo_store_made demo_options_fit demo_small_planned]) simp
  then obtain s where s: "cuda_weight_store None demo_store (new_weight_upload demo_options (\<lambda>_. 9) [1, 0, 2] [None]) = (Inr (), s)" by (metis prod.collapse)
  have t: "demo_tensor \<in> set (dx_tensors (demo_device ''0''))" "resident demo_options demo_tensor" "dt_name demo_tensor = ''token_embd.weight''"
    "unat (dt_scale_bytes demo_tensor) = 4" "dt_scale_bytes demo_tensor \<noteq> 0"
    by (simp_all add: demo_device_def demo_tensor_def resident_def excluded_def)
  have host: "device_require demo_store ''token_embd.weight'' = Inr \<lparr> dv_descriptor = demo_tensor, dv_data = replicate 256 7 @ [1, 2, 3, 4], dv_scales = Some [1, 2, 3, 4] \<rparr>"
    by (simp add: device_require_def device_find_def demo_store_def demo_device_def demo_tensor_def)
  from cuda_upload_exact [OF demo_loaded demo_store_made s] t host s show ?thesis by fastforce
qed

definition demo_tiled :: DeviceTensor where
  "demo_tiled = demo_tensor\<lparr>dt_name := ''ffn_gate_up_exps.weight'', dt_format := W4A16SymG128, dt_data_bytes := 1024, dt_scale_bytes := 32, dt_shape := [1, 16, 128]\<rparr>"

theorem cuda_tile_order_witness:
  "device_image MoeW4Tile16x16 demo_tiled (map word_of_nat [0 ..< 1024]) ! 137 = 73"
proof -
  have v: "validate_tensor_layout demo_tiled = Inr ()"
    by (simp add: validate_tensor_layout_def checked_elements_def check_groupwise_def demo_tiled_def demo_tensor_def demo_hex)
  have t: "should_tile_moe_w4 None demo_tiled"
    by (simp add: should_tile_moe_w4_def tiled_moe_layout_enabled_def ends_with_def demo_tiled_def demo_tensor_def)
  have sh: "dt_shape demo_tiled = [1, 16, 128]" "dt_data_bytes demo_tiled = 1024" by (simp_all add: demo_tiled_def)
  have "unat (dt_data_bytes demo_tiled) \<le> length (map word_of_nat [0 ..< 1024] :: u8 list)" by (simp add: sh)
  from cuda_tile_order [OF v t this, of 0 1 9] show ?thesis by (simp add: sh)
qed

end
