(* ===== verification/CudaLedger.thy ===== *)
theory CudaLedger
  imports CudaResident
begin

text \<open>
  Who gives back what the CUDA runtime hands out: the handles that the store of \<^verbatim>\<open>cuda/cuda_weights.cu\<close> keeps are, after
  every step and every failure, exactly the blocks, events and streams that are live.
\<close>

section \<open>Handles and blocks\<close>

text \<open>The handles of a buffer: whether it has no memory, and whether it has an event.\<close>

definition flags :: "StagingBuffer list \<Rightarrow> (bool \<times> bool) list" where
  "flags staging = map (\<lambda>b. (sb_host b = None, sb_reusable b)) staging"

definition holdings :: "weight_upload \<Rightarrow> (nat \<times> nat \<times> nat \<times> nat) \<times> bool \<times> bool \<times> (bool \<times> bool) list" where
  "holdings s = ((wu_live_arenas s, wu_live_hosts s, wu_live_events s, wu_live_streams s), wu_arena s = None, wu_stream s, flags (wu_staging s))"

definition ledger_ok :: "weight_upload \<Rightarrow> bool" where
  "ledger_ok s \<longleftrightarrow> wu_live_arenas s = (if wu_arena s = None then 0 else 1) \<and> wu_live_streams s = (if wu_stream s then 1 else 0) \<and>
     wu_live_hosts s = length (filter (\<lambda>b. \<not> fst b) (flags (wu_staging s))) \<and> wu_live_events s = length (filter snd (flags (wu_staging s)))"

lemma flags_Nil [simp]: "flags [] = []"
  by (simp add: flags_def)

lemma ledger_holdings: "holdings t = holdings s \<Longrightarrow> ledger_ok t \<longleftrightarrow> ledger_ok s"
  by (simp add: holdings_def ledger_ok_def)

lemma holdings_execute: "holdings (execute_ops n s) = holdings s"
  by (simp add: holdings_def execute_ops_def)

lemma holdings_progress: "holdings (progress s) = holdings s"
  using holdings_execute by (auto simp: progress_def holdings_def split: list.splits)

lemma holdings_calls: "holdings (s\<lparr>wu_calls := cs\<rparr>) = holdings s"
  by (simp add: holdings_def)

lemma wp_check_holdings:
  assumes "\<And>t. holdings t = holdings s \<Longrightarrow> Q () (f t)" "\<And>e t. holdings t = holdings s \<Longrightarrow> E e t"
  shows "wp (check operation f) Q E s"
proof (cases "wu_calls (progress s)")
  case Nil
  then show ?thesis using assms(1) [OF holdings_progress] by (simp add: wp_def check_def cuda_call_def)
next
  case (Cons c cs)
  have "holdings ((progress s)\<lparr>wu_calls := cs\<rparr>) = holdings s" by (simp add: holdings_calls holdings_progress)
  then show ?thesis using Cons assms by (cases c) (auto simp: wp_def check_def cuda_call_def Let_def)
qed

lemma keeps_check: "(\<And>s. holdings (f s) = holdings s) \<Longrightarrow> keeps holdings (check operation f)"
  unfolding keeps_def by (intro allI wp_check_holdings) simp_all

lemma holdings_buffer: "(\<And>x. (sb_host (f x) = None) = (sb_host x = None) \<and> sb_reusable (f x) = sb_reusable x) \<Longrightarrow> holdings (set_buffer b f s) = holdings s"
  by (cases "b < length (wu_staging s)") (simp_all add: holdings_def flags_def set_buffer_def map_update list_update_same_conv list_update_beyond)

lemma keeps_send: "keeps holdings (send_buffer copying recording b dst count)"
  unfolding send_buffer_def by (intro keeps_then keeps_check keeps_modify) (simp_all add: holdings_def enqueue_def count_upload_def)

lemma keeps_take_buffer: "keeps holdings take_buffer"
  unfolding take_buffer_def
  by (intro keeps_bind keeps_then keeps_check keeps_modify keeps_getM keeps_return) (simp_all add: cuda_event_synchronize_def holdings_execute, simp add: holdings_def)

lemma keeps_write_buffer: "keeps holdings (modifyM (write_buffer b bytes))"
  by (rule keeps_modify) (auto simp: write_buffer_def intro: holdings_buffer)

lemma keeps_upload_extent: "keeps holdings (upload_extent_loop fuel host device copied bytes)"
proof (induction fuel arbitrary: copied)
  case 0
  then show ?case by (simp add: upload_extent_loop.simps)
next
  case (Suc fuel)
  then show ?case unfolding upload_extent_loop.simps [of "Suc fuel"]
    by (auto intro!: keeps_bind keeps_then keeps_send keeps_take_buffer keeps_write_buffer)
qed

lemma keeps_upload_tiles: "keeps holdings (upload_tiles_loop fuel host rows columns device n i sent)"
proof (induction fuel arbitrary: i sent)
  case 0
  then show ?case by (simp add: upload_tiles_loop.simps)
next
  case (Suc fuel)
  then show ?case unfolding upload_tiles_loop.simps [of "Suc fuel"]
    by (auto intro!: keeps_bind keeps_then keeps_send keeps_take_buffer keeps_write_buffer split: prod.splits)
qed

lemma keeps_upload_tensor: "keeps holdings (upload_tensor source q)"
proof -
  have "keeps holdings (upload_data q t view)" for t view
    by (auto simp: upload_data_def upload_tiled_w4_def upload_extent_def Let_def intro!: keeps_bind keeps_then keeps_upload_extent keeps_upload_tiles)
  moreover have "keeps holdings (upload_scales q t view)" for t view
    by (auto simp: upload_scales_def upload_extent_def intro: keeps_upload_extent)
  moreover have "keeps holdings (modifyM (\<lambda>s. s\<lparr>wu_tensors := (wu_tensors s)(x \<mapsto> y)\<rparr>))" for x y
    by (rule keeps_modify) (simp add: holdings_def)
  ultimately show ?thesis unfolding upload_tensor_def by (intro keeps_bind keeps_then keeps_getM keeps_liftE keeps_failIf)
qed

lemma keeps_upload_tensors: "keeps holdings (mapM_list (upload_tensor source) qs)"
  by (induction qs) (simp_all add: keeps_then keeps_upload_tensor)

section \<open>Preparing and retiring buffers\<close>

abbreviation bare :: "bool \<times> bool" where "bare \<equiv> (True, False)"
abbreviation armed :: "bool \<times> bool" where "armed \<equiv> (False, True)"

definition stocked :: "(bool \<times> bool) list \<Rightarrow> weight_upload \<Rightarrow> bool" where
  "stocked fs s \<longleftrightarrow> ledger_ok s \<and> flags (wu_staging s) = fs \<and> wu_stream s \<and> wu_arena s \<noteq> None"

lemma stocked_holdings: "holdings t = holdings s \<Longrightarrow> stocked fs t \<longleftrightarrow> stocked fs s"
  using ledger_holdings [of t s] by (auto simp: stocked_def holdings_def)

lemma stocked_ledger: "holdings t = holdings s \<Longrightarrow> stocked fs s \<Longrightarrow> ledger_ok t"
  using ledger_holdings [of t s] by (simp add: stocked_def)

lemma wp_check_stocked:
  assumes "stocked fs s" "\<And>t. stocked fs t \<Longrightarrow> stocked gs (f t)"
  shows "wp (check operation f) (\<lambda>_. stocked gs) (\<lambda>_. ledger_ok) s"
  using assms stocked_holdings stocked_ledger by (intro wp_check_holdings) blast+

lemma flags_update: "flags (xs[b := y]) = (flags xs)[b := (sb_host y = None, sb_reusable y)]"
  by (simp add: flags_def map_update)

lemma length_flags: "length (flags xs) = length xs"
  by (simp add: flags_def)

lemma flags_nth: "b < length xs \<Longrightarrow> flags xs ! b = (h, r) \<Longrightarrow> (sb_host (xs ! b) = None) = h \<and> sb_reusable (xs ! b) = r"
  by (simp add: flags_def)

text \<open>The middle buffer of a list, and what it has.\<close>

lemma middle_buffer:
  assumes "flags (wu_staging s) = xs @ (h, r) # ys"
  shows "length xs < length (wu_staging s)" "(sb_host (wu_staging s ! length xs) = None) = h" "sb_reusable (wu_staging s ! length xs) = r"
proof -
  have "length (flags (wu_staging s)) = length xs + Suc (length ys)" unfolding assms by simp
  then show l: "length xs < length (wu_staging s)" by (simp add: length_flags)
  have "flags (wu_staging s) ! length xs = (h, r)" unfolding assms by simp
  from flags_nth [OF l this] show "(sb_host (wu_staging s ! length xs) = None) = h" "sb_reusable (wu_staging s ! length xs) = r" by auto
qed

lemma host_alloc_stocked: "stocked (xs @ bare # ys) s \<Longrightarrow> stocked (xs @ (False, False) # ys) (cuda_host_alloc (length xs) s)"
  using middle_buffer [of s xs True False ys]
  by (auto simp: stocked_def ledger_ok_def cuda_host_alloc_def set_buffer_def flags_update list_update_append)

lemma event_create_stocked: "stocked (xs @ (False, False) # ys) s \<Longrightarrow> stocked (xs @ armed # ys) (cuda_event_create (length xs) s)"
  using middle_buffer [of s xs False False ys]
  by (auto simp: stocked_def ledger_ok_def cuda_event_create_def set_buffer_def flags_update list_update_append)

lemma enqueue_stocked: "stocked fs s \<Longrightarrow> stocked fs (enqueue x s)"
  by (simp add: stocked_def ledger_ok_def enqueue_def)

lemma wp_prepare_stocked:
  assumes "stocked (xs @ bare # ys) s"
  shows "wp (prepare_buffer (length xs)) (\<lambda>_. stocked (xs @ armed # ys)) (\<lambda>_. ledger_ok) s"
proof -
  have "wp (thenM (check ''cudaEventCreate(weight staging)'' (cuda_event_create (length xs)))
      (check ''cudaEventRecord(weight staging initial)'' (enqueue (RecordOp (length xs))))) (\<lambda>_. stocked (xs @ armed # ys)) (\<lambda>_. ledger_ok) t"
    if "stocked (xs @ (False, False) # ys) t" for t
    by (rule wp_thenI [OF wp_check_stocked [OF that event_create_stocked]]) (auto intro: wp_check_stocked enqueue_stocked)
  then show ?thesis unfolding prepare_buffer_def
    by (intro wp_thenI [OF wp_check_stocked [OF assms host_alloc_stocked]]) auto
qed

lemma wp_prepare_all:
  assumes "stocked (replicate k armed @ replicate m bare) s"
  shows "wp (mapM_list prepare_buffer [k ..< k + m]) (\<lambda>_. stocked (replicate (k + m) armed)) (\<lambda>_. ledger_ok) s"
  using assms
proof (induction m arbitrary: k s)
  case (Suc m)
  have "wp (prepare_buffer (length (replicate k armed))) (\<lambda>_. stocked (replicate k armed @ armed # replicate m bare)) (\<lambda>_. ledger_ok) s"
    by (rule wp_prepare_stocked) (use Suc.prems in simp)
  then have "wp (thenM (prepare_buffer k) (mapM_list prepare_buffer [Suc k ..< Suc k + m])) (\<lambda>_. stocked (replicate (Suc k + m) armed)) (\<lambda>_. ledger_ok) s"
    by (intro wp_thenI [OF _ Suc.IH]) (auto simp: replicate_app_Cons_same)
  then show ?case by (simp add: upt_conv_Cons del: upt_Suc)
qed (simp add: wp_simps)

lemma wp_retire_stocked:
  assumes "stocked (xs @ armed # ys) s"
  shows "wp (retire_buffer (length xs)) (\<lambda>_. stocked (xs @ bare # ys)) (\<lambda>_. ledger_ok) s"
proof -
  have destroy: "wp (thenM (check ''cudaEventDestroy(weight staging)'' cuda_event_destroy) (modifyM (set_buffer (length xs) (sb_reusable_update (\<lambda>_. False)))))
      (\<lambda>_. stocked (xs @ (False, False) # ys)) (\<lambda>_. ledger_ok) s"
    unfolding wp_thenM wp_modifyM
  proof (rule wp_check_holdings)
    fix t
    assume "holdings t = holdings s"
    then have t: "stocked (xs @ armed # ys) t" using assms stocked_holdings by blast
    then show "stocked (xs @ (False, False) # ys) (set_buffer (length xs) (sb_reusable_update (\<lambda>_. False)) (cuda_event_destroy t))"
      using middle_buffer [of t xs False True ys]
      by (auto simp: stocked_def ledger_ok_def cuda_event_destroy_def set_buffer_def flags_update list_update_append)
  qed (rule stocked_ledger [OF _ assms])
  have free: "wp (thenM (check ''cudaFreeHost(weight staging)'' cuda_free_host) (modifyM (set_buffer (length xs) (sb_host_update (\<lambda>_. None)))))
      (\<lambda>_. stocked (xs @ bare # ys)) (\<lambda>_. ledger_ok) u" if u: "stocked (xs @ (False, False) # ys) u" for u
    unfolding wp_thenM wp_modifyM
  proof (rule wp_check_holdings)
    fix t
    assume "holdings t = holdings u"
    then have t: "stocked (xs @ (False, False) # ys) t" using u stocked_holdings by blast
    then show "stocked (xs @ bare # ys) (set_buffer (length xs) (sb_host_update (\<lambda>_. None)) (cuda_free_host t))"
      using middle_buffer [of t xs False False ys]
      by (auto simp: stocked_def ledger_ok_def cuda_free_host_def set_buffer_def flags_update list_update_append)
  qed (rule stocked_ledger [OF _ u])
  show ?thesis unfolding retire_buffer_def thenM_assoc [symmetric, of _ "modifyM (set_buffer (length xs) (sb_reusable_update (\<lambda>_. False)))"]
    by (rule wp_thenI [OF destroy free]) auto
qed

lemma wp_retire_all:
  assumes "stocked (replicate k bare @ replicate m armed) s"
  shows "wp (mapM_list retire_buffer [k ..< k + m]) (\<lambda>_. stocked (replicate (k + m) bare)) (\<lambda>_. ledger_ok) s"
  using assms
proof (induction m arbitrary: k s)
  case (Suc m)
  have "wp (retire_buffer (length (replicate k bare))) (\<lambda>_. stocked (replicate k bare @ bare # replicate m armed)) (\<lambda>_. ledger_ok) s"
    by (rule wp_retire_stocked) (use Suc.prems in simp)
  then have "wp (thenM (retire_buffer k) (mapM_list retire_buffer [Suc k ..< Suc k + m])) (\<lambda>_. stocked (replicate (Suc k + m) bare)) (\<lambda>_. ledger_ok) s"
    by (intro wp_thenI [OF _ Suc.IH]) (auto simp: replicate_app_Cons_same)
  then show ?case by (simp add: upt_conv_Cons del: upt_Suc)
qed (simp add: wp_simps)

section \<open>The whole upload\<close>

lemma keeps_stocked:
  assumes "keeps holdings m" "stocked fs s"
  shows "wp m (\<lambda>_. stocked fs) (\<lambda>_. ledger_ok) s"
  by (rule wp_mono [OF keepsD [OF assms(1)]]) (use assms(2) stocked_holdings stocked_ledger in blast)+

definition settled :: "weight_upload \<Rightarrow> bool" where
  "settled s \<longleftrightarrow> ledger_ok s \<and> wu_staging s = [] \<and> \<not> wu_stream s \<and> wu_arena s \<noteq> None"

lemma wp_finish_ledger:
  assumes "stocked (replicate n armed) s"
  shows "wp (finish_upload n) (\<lambda>_. settled) (\<lambda>_. ledger_ok) s"
proof -
  have bare: "filter (\<lambda>b. \<not> fst b) (replicate n bare) = []" "filter snd (replicate n bare) = []" by (induction n) simp_all
  have last: "wp (thenM (modifyM (\<lambda>s. s\<lparr>wu_staging := []\<rparr>)) (thenM (check ''cudaStreamDestroy(weight upload)'' cuda_stream_destroy) (modifyM (\<lambda>s. s\<lparr>wu_stream := False\<rparr>))))
      (\<lambda>_. settled) (\<lambda>_. ledger_ok) t" if t: "stocked (replicate n bare) t" for t
  proof -
    have u: "stocked [] (t\<lparr>wu_staging := []\<rparr>)" using t bare by (auto simp: stocked_def ledger_ok_def)
    have "wp (check ''cudaStreamDestroy(weight upload)'' cuda_stream_destroy) (\<lambda>_ v. settled (v\<lparr>wu_stream := False\<rparr>)) (\<lambda>_. ledger_ok) (t\<lparr>wu_staging := []\<rparr>)"
    proof (rule wp_check_holdings)
      fix v
      assume "holdings v = holdings (t\<lparr>wu_staging := []\<rparr>)"
      then have "stocked [] v" using u stocked_holdings by blast
      then show "settled ((cuda_stream_destroy v)\<lparr>wu_stream := False\<rparr>)"
        by (simp add: settled_def stocked_def ledger_ok_def cuda_stream_destroy_def flags_def)
    qed (rule stocked_ledger [OF _ u])
    then show ?thesis unfolding wp_thenM wp_modifyM .
  qed
  have "wp (mapM_list retire_buffer [0 ..< 0 + n]) (\<lambda>_. stocked (replicate (0 + n) bare)) (\<lambda>_. ledger_ok) s"
    by (rule wp_retire_all) (use assms in simp)
  then show ?thesis unfolding finish_upload_def by (intro wp_thenI [OF _ last]) simp_all
qed

lemma wp_resident_ledger:
  assumes "stocked (replicate n bare) s"
  shows "wp (upload_resident source plan n) (\<lambda>_. settled) (\<lambda>_. ledger_ok) s"
proof -
  have prepare: "wp (mapM_list prepare_buffer [0 ..< n]) (\<lambda>_. stocked (replicate n armed)) (\<lambda>_. ledger_ok) s"
    using wp_prepare_all [of 0 n s] assms by simp
  have sync: "keeps holdings (check ''cudaStreamSynchronize(weight upload)'' cuda_stream_synchronize)"
    by (rule keeps_check) (simp add: cuda_stream_synchronize_def holdings_execute)
  have "wp (thenM (mapM_list (upload_tensor source) (pl_placements plan)) (thenM (check ''cudaStreamSynchronize(weight upload)'' cuda_stream_synchronize) (finish_upload n)))
      (\<lambda>_. settled) (\<lambda>_. ledger_ok) t" if t: "stocked (replicate n armed) t" for t
  proof (rule wp_thenI [OF keeps_stocked [OF keeps_upload_tensors t]])
    fix u
    assume u: "stocked (replicate n armed) u"
    show "wp (thenM (check ''cudaStreamSynchronize(weight upload)'' cuda_stream_synchronize) (finish_upload n)) (\<lambda>_. settled) (\<lambda>_. ledger_ok) u"
      by (rule wp_thenI [OF keeps_stocked [OF sync u] wp_finish_ledger])
  qed
  then show ?thesis unfolding upload_resident_def by (intro wp_thenI [OF prepare])
qed

definition bare_store :: "bool \<Rightarrow> weight_upload \<Rightarrow> bool" where
  "bare_store allocated s \<longleftrightarrow> ledger_ok s \<and> wu_staging s = [] \<and> \<not> wu_stream s \<and> (wu_arena s = None \<longleftrightarrow> \<not> allocated)"

lemma bare_holdings: "holdings t = holdings s \<Longrightarrow> bare_store allocated t \<longleftrightarrow> bare_store allocated s"
  using ledger_holdings [of t s] by (auto simp: bare_store_def holdings_def flags_def)

lemma bare_ledger: "holdings t = holdings s \<Longrightarrow> bare_store allocated s \<Longrightarrow> ledger_ok t"
  using ledger_holdings [of t s] by (simp add: bare_store_def)

lemma wp_fill_ledger:
  assumes "bare_store False s"
  shows "wp (fill_arena source plan) (\<lambda>_. settled) (\<lambda>_. ledger_ok) s"
proof -
  have malloc: "wp (check ''cudaMalloc(weight arena)'' (cuda_malloc_arena (pl_arena_bytes plan))) (\<lambda>_. bare_store True) (\<lambda>_. ledger_ok) s"
  proof (rule wp_check_holdings)
    fix t
    assume "holdings t = holdings s"
    then have "bare_store False t" using assms bare_holdings by blast
    then show "bare_store True (cuda_malloc_arena (pl_arena_bytes plan) t)" by (simp add: bare_store_def ledger_ok_def cuda_malloc_arena_def)
  qed (rule bare_ledger [OF _ assms])
  have create: "wp (check ''cudaStreamCreate(weight upload)'' cuda_stream_create) (\<lambda>_. stocked []) (\<lambda>_. ledger_ok) t" if t: "bare_store True t" for t
  proof (rule wp_check_holdings)
    fix u
    assume "holdings u = holdings t"
    then have "bare_store True u" using t bare_holdings by blast
    then show "stocked [] (cuda_stream_create u)" by (simp add: stocked_def bare_store_def ledger_ok_def cuda_stream_create_def flags_def)
  qed (rule bare_ledger [OF _ t])
  have resize: "wp (thenM (modifyM resize_staging) (bindM (getM (\<lambda>s. length (wu_staging s))) (upload_resident source plan))) (\<lambda>_. settled) (\<lambda>_. ledger_ok) t"
    if t: "stocked [] t" for t
  proof -
    let ?n = "unat (co_staging_buffers (wu_options t))"
    have "filter (\<lambda>b. \<not> fst b) (replicate n bare) = []" "filter snd (replicate n bare) = []" for n by (induction n) simp_all
    then have "stocked (replicate ?n bare) (resize_staging t)" using t by (simp add: stocked_def ledger_ok_def resize_staging_def flags_def)
    from wp_resident_ledger [OF this] show ?thesis by (simp add: wp_simps) (simp add: resize_staging_def)
  qed
  have "wp (thenM (check ''cudaStreamCreate(weight upload)'' cuda_stream_create) (thenM (modifyM resize_staging) (bindM (getM (\<lambda>s. length (wu_staging s))) (upload_resident source plan))))
      (\<lambda>_. settled) (\<lambda>_. ledger_ok) t" if t: "bare_store True t" for t
    by (rule wp_thenI [OF create [OF t] resize])
  then show ?thesis unfolding fill_arena_def by (intro wp_thenI [OF malloc])
qed

lemma keeps_bare:
  assumes "keeps holdings m" "bare_store allocated s"
  shows "wp m (\<lambda>_. bare_store allocated) (\<lambda>_. ledger_ok) s"
  by (rule wp_mono [OF keepsD [OF assms(1)]]) (use assms(2) bare_holdings bare_ledger in blast)+

lemma wp_initialize_ledger:
  "wp (initialize variable source) (\<lambda>_. settled) (\<lambda>_. ledger_ok) (new_weight_upload options garbage prog calls)"
proof -
  have s: "bare_store False (new_weight_upload options garbage prog calls)"
    by (simp add: bare_store_def ledger_ok_def new_weight_upload_def flags_def)
  have modify: "keeps holdings (modifyM (\<lambda>s. s\<lparr>wu_index := index, wu_stage := stage\<rparr>))" "keeps holdings (modifyM (\<lambda>s. s\<lparr>wu_statistics := st\<rparr>))" for index stage st
    by (rule keeps_modify, simp add: holdings_def)+
  have device: "keeps holdings (check ''cudaSetDevice(weight upload)'' id)" by (rule keeps_check) simp
  show ?thesis unfolding initialize_def
    by (rule wp_thenI [OF keeps_bare [OF keeps_failIf s] wp_thenI [OF keeps_bare [OF device] wp_thenI [OF keeps_bare [OF modify(1)]
      wp_bindI [OF keeps_bare [OF keeps_liftE] wp_thenI [OF keeps_bare [OF modify(2)] wp_fill_ledger]]]]])
qed

section \<open>Release\<close>

definition no_failures :: "weight_upload \<Rightarrow> bool" where
  "no_failures s \<longleftrightarrow> list_all (\<lambda>c. c = None) (wu_calls s)"

text \<open>A call that does not fail.\<close>

lemma ignore_effect:
  assumes "no_failures s" "\<And>t. wu_calls (f t) = wu_calls t"
  shows "\<exists>t. holdings t = holdings s \<and> ignore f s = f t \<and> no_failures (f t)"
proof (cases "wu_calls (progress s)")
  case Nil
  then show ?thesis using holdings_progress assms(2)
    by (intro exI [of _ "progress s"]) (simp add: ignore_def cuda_call_def Let_def no_failures_def)
next
  case (Cons c cs)
  have "wu_calls (progress s) = wu_calls s" by (simp add: progress_def execute_ops_def split: list.splits)
  then have "list_all (\<lambda>c. c = None) (c # cs)" using Cons assms(1) unfolding no_failures_def by metis
  then have "c = None" "list_all (\<lambda>c. c = None) cs" by simp_all
  moreover have "holdings ((progress s)\<lparr>wu_calls := cs\<rparr>) = holdings s" by (simp add: holdings_calls holdings_progress)
  ultimately show ?thesis using Cons assms(2)
    by (intro exI [of _ "(progress s)\<lparr>wu_calls := cs\<rparr>"]) (simp add: ignore_def cuda_call_def Let_def no_failures_def)
qed

text \<open>The live hosts and events, and what is not touched while buffers are released.\<close>

definition rest_of :: "weight_upload \<Rightarrow> nat \<times> nat \<times> bool \<times> bool" where
  "rest_of s = (wu_live_arenas s, wu_live_streams s, wu_arena s = None, wu_stream s)"

lemma release_buffers:
  assumes "no_failures s"
  shows "no_failures (fold release_buffer bs s) \<and> rest_of (fold release_buffer bs s) = rest_of s \<and>
    wu_live_hosts (fold release_buffer bs s) = wu_live_hosts s - length (filter (\<lambda>b. \<not> fst b) (flags bs)) \<and>
    wu_live_events (fold release_buffer bs s) = wu_live_events s - length (filter snd (flags bs))"
  using assms
proof (induction bs arbitrary: s)
  case (Cons b bs)
  have event: "\<exists>t. no_failures t \<and> rest_of t = rest_of s \<and> wu_live_hosts t = wu_live_hosts s \<and> wu_live_events t = wu_live_events s - (if sb_reusable b then 1 else 0) \<and>
      t = (if sb_reusable b then ignore cuda_event_destroy s else s)"
    using ignore_effect [OF Cons.prems, of cuda_event_destroy] Cons.prems by (fastforce simp: cuda_event_destroy_def holdings_def rest_of_def no_failures_def)
  then obtain t where t: "no_failures t" "rest_of t = rest_of s" "wu_live_hosts t = wu_live_hosts s" "wu_live_events t = wu_live_events s - (if sb_reusable b then 1 else 0)"
    "t = (if sb_reusable b then ignore cuda_event_destroy s else s)" by blast
  have "\<exists>u. no_failures u \<and> rest_of u = rest_of t \<and> wu_live_hosts u = wu_live_hosts t - (if sb_host b \<noteq> None then 1 else 0) \<and> wu_live_events u = wu_live_events t \<and>
      u = (if sb_host b \<noteq> None then ignore cuda_free_host t else t)"
    using ignore_effect [OF t(1), of cuda_free_host] t(1) by (fastforce simp: cuda_free_host_def holdings_def rest_of_def no_failures_def)
  then obtain u where u: "no_failures u" "rest_of u = rest_of t" "wu_live_hosts u = wu_live_hosts t - (if sb_host b \<noteq> None then 1 else 0)" "wu_live_events u = wu_live_events t"
    "u = (if sb_host b \<noteq> None then ignore cuda_free_host t else t)" by blast
  have "release_buffer b s = u" using t(5) u(5) by (simp add: release_buffer_def Let_def)
  then show ?case using Cons.IH [OF u(1)] t u by (simp add: flags_def)
qed (simp add: flags_def)

lemma release_all:
  assumes "ledger_ok s" "no_failures s"
  shows "wu_live_arenas (release s) = 0 \<and> wu_live_hosts (release s) = 0 \<and> wu_live_events (release s) = 0 \<and> wu_live_streams (release s) = 0"
proof -
  define s1 where "s1 = ignore id s"
  define s2 where "s2 = (if wu_stream s1 then ignore cuda_stream_synchronize s1 else s1)"
  define s3 where "s3 = fold release_buffer (wu_staging s2) s2"
  define s4 where "s4 = s3\<lparr>wu_staging := map (\<lambda>_. \<lparr> sb_host = None, sb_reusable = False \<rparr>) (wu_staging s3)\<rparr>"
  define s5 where "s5 = (if wu_stream s4 then ignore cuda_stream_destroy s4 else s4)"
  define s6 where "s6 = (if wu_arena s5 \<noteq> None then ignore cuda_free_arena s5 else s5)"
  have r: "release s = s6\<lparr>wu_stream := False, wu_arena := None\<rparr>"
    by (simp add: release_def Let_def s1_def s2_def s3_def s4_def s5_def s6_def)
  from ignore_effect [OF assms(2), of id] have s1: "holdings s1 = holdings s" "no_failures s1" by (auto simp: s1_def)
  have "holdings s2 = holdings s1 \<and> no_failures s2"
    using ignore_effect [OF s1(2), of cuda_stream_synchronize] s1(2) holdings_execute
    by (auto simp: s2_def cuda_stream_synchronize_def execute_ops_def holdings_def)
  then have s2: "ledger_ok s2" "no_failures s2" using s1 assms(1) ledger_holdings by metis+
  have s3: "no_failures s3" "rest_of s3 = rest_of s2" "wu_live_hosts s3 = 0" "wu_live_events s3 = 0"
    using release_buffers [OF s2(2), of "wu_staging s2"] s2(1) by (simp_all add: s3_def ledger_ok_def)
  have s4: "no_failures s4" "rest_of s4 = rest_of s2" "wu_live_hosts s4 = 0" "wu_live_events s4 = 0"
    using s3 by (simp_all add: s4_def no_failures_def rest_of_def)
  have s5: "no_failures s5 \<and> wu_live_hosts s5 = 0 \<and> wu_live_events s5 = 0 \<and> wu_live_streams s5 = 0 \<and> wu_live_arenas s5 = (if wu_arena s5 = None then 0 else 1)"
  proof (cases "wu_stream s4")
    case True
    from ignore_effect [OF s4(1), of cuda_stream_destroy] obtain t where "holdings t = holdings s4" "s5 = cuda_stream_destroy t" "no_failures s5"
      using True by (auto simp: s5_def cuda_stream_destroy_def)
    then show ?thesis using s4 s2(1) True by (auto simp: cuda_stream_destroy_def holdings_def rest_of_def ledger_ok_def)
  next
    case False
    then show ?thesis using s4 s2(1) by (auto simp: s5_def rest_of_def ledger_ok_def)
  qed
  show ?thesis
  proof (cases "wu_arena s5 = None")
    case False
    from ignore_effect [of s5 cuda_free_arena] s5 obtain t where "holdings t = holdings s5" "s6 = cuda_free_arena t"
      using False by (auto simp: s6_def cuda_free_arena_def)
    then show ?thesis using s5 False by (auto simp: r cuda_free_arena_def holdings_def)
  qed (use s5 in \<open>simp add: r s6_def\<close>)
qed

section \<open>Properties\<close>

text \<open>
  C26: Nothing that the CUDA runtime hands out is lost. When the construction of the weight store fails, at whatever
  call, and the calls that release its blocks do not fail themselves, no arena, staging buffer, event or
  stream is left; when it succeeds, the arena is the one block that is left.
\<close>

theorem cuda_store_leaks_nothing:
  assumes "initialize variable source (new_weight_upload options garbage prog calls) = (outcome, s)"
  shows "case outcome of
      Inl e \<Rightarrow> no_failures s \<longrightarrow> (\<exists>t. cuda_weight_store variable source (new_weight_upload options garbage prog calls) = (Inl e, t) \<and>
        wu_live_arenas t = 0 \<and> wu_live_hosts t = 0 \<and> wu_live_events t = 0 \<and> wu_live_streams t = 0)
    | Inr _ \<Rightarrow> cuda_weight_store variable source (new_weight_upload options garbage prog calls) = (Inr (), s) \<and>
        wu_live_arenas s = 1 \<and> wu_live_hosts s = 0 \<and> wu_live_events s = 0 \<and> wu_live_streams s = 0"
proof (cases outcome)
  case (Inl e)
  have "ledger_ok s" using wp_fails [OF wp_initialize_ledger] assms Inl by blast
  then show ?thesis using Inl assms release_all by (auto simp: cuda_weight_store_def)
next
  case (Inr u)
  have "settled s" using wp_returns [OF wp_initialize_ledger] assms Inr by blast
  then show ?thesis using Inr assms by (auto simp: cuda_weight_store_def settled_def ledger_ok_def)
qed

theorem cuda_store_leaks_nothing_witness:
  "\<exists>t. cuda_weight_store None demo_store (new_weight_upload demo_options (\<lambda>_. 9) [] [None, None, Some ''no memory'']) =
      (Inl (RuntimeError ''cudaStreamCreate(weight upload): no memory''), t) \<and> wu_live_arenas t = 0 \<and> wu_live_streams t = 0"
proof -
  obtain s where i: "initialize None demo_store (new_weight_upload demo_options (\<lambda>_. 9) [] [None, None, Some ''no memory'']) =
      (Inl (RuntimeError ''cudaStreamCreate(weight upload): no memory''), s)" and c: "no_failures s"
    using demo_small_planned
    by (simp add: initialize_def fill_arena_def run_simps check_def cuda_call_def progress_def new_weight_upload_def demo_store_def demo_options_def
        no_failures_def cuda_malloc_arena_def Let_def)
  from cuda_store_leaks_nothing [OF i] c show ?thesis by auto
qed

end
