(* ===== verification/Spec2Isabelle.thy ===== *)
theory Spec2Isabelle
  imports RpcWire ModelPlan PleBackend MappedWeights Artifact CudaLedger
begin

text \<open>
  A verification library for the two-GPU inference runtime: the C++ sources under \<^verbatim>\<open>src\<close>, \<^verbatim>\<open>include/q38\<close> and \<^verbatim>\<open>cuda\<close>.

  \<^bold>\<open>The program.\<close> A session is a list of tokens. Two backends, one per GPU, hold the two halves of the model's state and
  process tokens in transactions: prepared, evaluated in chunks that pass a boundary frame from stage 0 to
  stage 1, decided, committed or rolled back. The executor drives them, keeps the canonical tokens and the sampler,
  and publishes tokens. The RPC service serialises writers over a Unix socket, lets a second client cancel the running one,
  answers a repeated request from a cache, and appends a record of the state to a journal before it acknowledges.
  Stage 0 may be decorated with lookups in n-gram tables on disk, through a page cache and an io_uring. At start the
  runtime reads text indexes of the weights, checks that the two stages cover the model, maps the files and
  uploads the resident weights of a stage into one arena on its device.

  \<^bold>\<open>Theories and sources.\<close>
  \<^item> \<open>Prelude\<close>: machine integers, the state-and-exception monad, its weakest preconditions, operations that keep a part of
    the state.
  \<^item> \<open>Contracts\<close> (\<^verbatim>\<open>contracts.h/.cc\<close>): frames, frontiers, transaction records, their validators and checksum.
  \<^item> \<open>Transaction\<close> (\<^verbatim>\<open>transaction.h/.cc\<close>): the engine, one definition per method of \<^verbatim>\<open>SessionTxnEngine\<close>.
  \<^item> \<open>Backend\<close>, \<open>MockBackend\<close> (\<^verbatim>\<open>backend.h\<close>, \<^verbatim>\<open>mock_backend.h/.cc\<close>): the cancellation token, the virtual table of a backend as a record
    of operations, its contract as a locale, and the mock backend that interprets it.
  \<^item> \<open>Sampling\<close> (\<^verbatim>\<open>sampling.h/.cc\<close>): the transactional sampler; floating-point arithmetic is a parameter.
  \<^item> \<open>Text\<close>, \<open>Identity\<close> (\<^verbatim>\<open>identity.h/.cc\<close>): number and line syntax, digests and session identities.
  \<^item> \<open>Executor\<close>, \<open>ExecutorSafety\<close>, \<open>ExecutorSession\<close>, \<open>ExecutorRuns\<close> (\<^verbatim>\<open>executor.h/.cc\<close>): the executor as operations of the monad,
    its invariant, and its runs.
  \<^item> \<open>Snapshot\<close>, \<open>Recovery\<close> (\<^verbatim>\<open>snapshot.h/.cc\<close>): record images, the journal on a disk with scripted short and failing calls,
    and that what the executor writes is accepted.
  \<^item> \<open>Rpc\<close>, \<open>RpcService\<close>, \<open>RpcWire\<close> (\<^verbatim>\<open>rpc.h/.cc\<close>): requests, the whole of \<^verbatim>\<open>handle\<close> with its critical sections as steps of an interleaving,
    and the client loop over a byte stream.
  \<^item> \<open>FieldText\<close>, \<open>TensorIndex\<close>, \<open>ModelPlan\<close> (\<^verbatim>\<open>tensor_index.h/.cc\<close>, \<^verbatim>\<open>model_plan.h/.cc\<close>): the index of tensors and the plan of a stage.
  \<^item> \<open>PleTables\<close>, \<open>IoUring\<close>, \<open>PleStore\<close>, \<open>PleReads\<close>, \<open>PleRows\<close> (\<^verbatim>\<open>ple.h/.cc\<close>), \<open>PleBackend\<close> (\<^verbatim>\<open>ple_backend.h/.cc\<close>): the table layout and the token hash, the
    sliding window of the ring, the page pool with its LRU list, row reads, and the decorator of stage 0.
  \<^item> \<open>DeviceArtifact\<close> (\<^verbatim>\<open>device_artifact.h/.cc\<close>), \<open>MappedWeights\<close> (\<^verbatim>\<open>mapped_weights.h/.cc\<close>), \<open>Artifact\<close> (\<^verbatim>\<open>artifact.h/.cc\<close>): the index of the
    device weights, the stores of mapped files, the manifest of a model.
  \<^item> \<open>CudaPlan\<close>, \<open>CudaUpload\<close>, \<open>CudaResident\<close>, \<open>CudaLedger\<close> (\<^verbatim>\<open>cuda_weights.h/.cu\<close>): placement in the arena, the upload through staging buffers
    while the device copies on its own, what is then resident, and who frees what.

  Structs are records, enums datatypes, integers words of their width. Exceptions are values of \<open>exn\<close>; a method of an object
  is a function of its state, in the monad where it can throw after a change. Files, sockets, clocks, environment
  variables, the system calls and the CUDA calls that can fail are arguments or scripts in the state.

  \<^bold>\<open>What is shown.\<close>
  \<^item> The engine keeps its invariant, commits exactly what was decided, and a rollback restores the state before.
  \<^item> The executor keeps the invariant that ties engine, sampler, tokens and backends; an operation that fails leaves the session as
    it was or poisons it, and a poisoned executor changes nothing; one that succeeds publishes exactly its tokens.
  \<^item> The service acknowledges a writer only when it is executed and journalled, executes a request at most once, honours an accepted
    cancellation, refuses with the right status, and its journal can be loaded at any time. The client loop refines a sequence of
    calls of \<^verbatim>\<open>handle\<close> over the frames of the stream.
  \<^item> A journal record is written whole or not at all as far as a later load can see.
  \<^item> The page cache and the ring are transparent: row reads return the bytes of the files, within the bounds of the cache. The
    decorator hashes exactly the committed tokens and absorbs exactly the rows they select.
  \<^item> Accepted indexes and manifests are well formed; the plans of the two stages partition the model; every view of a weight is inside
    its file.
  \<^item> The placement of the weights on a device is disjoint, aligned and inside the arena; the upload puts the bytes there
    whenever the device copies them, in rows or in tiles, comes to its end when no call fails, and leaks nothing when one does.

  \<^bold>\<open>Bounds and fuel.\<close> A loop that is not structural has its measure or fuel: the chunks of a transaction are bounded by its tokens, the
  pieces of an extent by its bytes, the rounds of the ring by its requests, the rounds of an upload by its bytes or its
  tiles. The value \<open>Diverges\<close> stands for exhausted fuel; the theorems that say what an operation returns or how it fails exclude it.

  \<^bold>\<open>Not modelled.\<close> The GPU kernels and the CUDA backend (\<^verbatim>\<open>cuda_backend.cu\<close>, \<^verbatim>\<open>q38_*.cu\<close>, \<^verbatim>\<open>cuda_transport.cu\<close>), which are floating-point
  code on the device and host code that drives streams and graphs, reached only through the interface of a backend; the set-up and
  release of the ring and of sockets, the accept loop, the readers of \<^verbatim>\<open>/proc\<close> and the report of the metrics, which only make
  system calls or print; the command lines; benchmarks, tests and the Python tools, but for the writers of the files that
  the runtime reads.
\<close>

end
